(* ===== verification/Kjd_Prelude.thy ===== *)
theory Kjd_Prelude
  imports Main "HOL-Library.Word" "HOL-Library.Sublist"
begin

text \<open>
  Shared vocabulary of the development: the byte type of the network code, the C++ exceptions
  that the driver throws as values of a sum type, the parts of \<^verbatim>\<open>std::string\<close> that the sources
  call (\<^verbatim>\<open>find\<close>, \<^verbatim>\<open>substr\<close>), decimal printing and reading (\<^verbatim>\<open>std::to_string\<close>,
  \<^verbatim>\<open>std::stoll\<close>), and generic list lemmas used by several components.
\<close>

named_theorems cpp_string \<open>facts about the std::string operations of the sources\<close>
named_theorems conn_frame \<open>which fields of a connection an operation leaves alone\<close>
named_theorems sched_simps \<open>facts about the scheduler's queues\<close>

section \<open>Bytes and exceptions\<close>

type_synonym byte = "8 word"

text \<open>
  The exceptions of the driver: \<^verbatim>\<open>LpcRuntimeError\<close>, \<^verbatim>\<open>NotImplementedError\<close> and
  \<^verbatim>\<open>EvalCostError\<close> of \<^verbatim>\<open>core/Errors.hpp\<close>, and the two exceptions of the C++ library that the
  string functions of the sources throw.
\<close>

datatype exn =
    LpcRuntimeError string
  | NotImplementedError string
  | EvalCostError string
  | OutOfRange
  | InvalidArgument

type_synonym 'a res = "exn + 'a"

definition res_bind :: "'a res \<Rightarrow> ('a \<Rightarrow> 'b res) \<Rightarrow> 'b res" where
  "res_bind r f = (case r of Inl e \<Rightarrow> Inl e | Inr x \<Rightarrow> f x)"

lemma res_bind_simps [simp]:
  "res_bind (Inl e) f = Inl e"
  "res_bind (Inr x) f = f x"
  by (simp_all add: res_bind_def)

lemma res_bind_Inr_iff: "res_bind r f = Inr y \<longleftrightarrow> (\<exists>x. r = Inr x \<and> f x = Inr y)"
  by (cases r) auto

section \<open>std::string: find and substr\<close>

text \<open>
  \<^verbatim>\<open>s.find(c, pos)\<close> and \<^verbatim>\<open>s.find_first_of(set, pos)\<close>: the index of the first element from
  \<^verbatim>\<open>pos\<close> on that satisfies the test; \<^verbatim>\<open>npos\<close> is \<^const>\<open>None\<close>.
\<close>

fun find_idx :: "('a \<Rightarrow> bool) \<Rightarrow> 'a list \<Rightarrow> nat option" where
  "find_idx P [] = None"
| "find_idx P (x # xs) = (if P x then Some 0 else map_option Suc (find_idx P xs))"

definition find_from :: "('a \<Rightarrow> bool) \<Rightarrow> 'a list \<Rightarrow> nat \<Rightarrow> nat option" where
  "find_from P s pos = map_option (\<lambda>i. pos + i) (find_idx P (drop pos s))"

text \<open>\<^verbatim>\<open>s.find(t)\<close> for a string \<^verbatim>\<open>t\<close>: the first position where \<^verbatim>\<open>t\<close> occurs.\<close>

fun find_sub :: "'a list \<Rightarrow> 'a list \<Rightarrow> nat option" where
  "find_sub p [] = (if p = [] then Some 0 else None)"
| "find_sub p (x # xs) =
     (if take (length p) (x # xs) = p then Some 0 else map_option Suc (find_sub p xs))"

text \<open>\<^verbatim>\<open>s.substr(pos, n)\<close> throws \<^verbatim>\<open>std::out_of_range\<close> when \<^verbatim>\<open>pos > s.size()\<close> and clips the length.\<close>

definition substr :: "'a list \<Rightarrow> nat \<Rightarrow> nat \<Rightarrow> 'a list res" where
  "substr s pos n = (if pos > length s then Inl OutOfRange else Inr (take n (drop pos s)))"

lemma find_idx_None [cpp_string]: "find_idx P xs = None \<longleftrightarrow> (\<forall>x\<in>set xs. \<not> P x)"
  by (induction xs) auto

lemma find_idx_Some [cpp_string]:
  "find_idx P xs = Some i \<longleftrightarrow> i < length xs \<and> P (xs ! i) \<and> (\<forall>j<i. \<not> P (xs ! j))"
proof (induction xs arbitrary: i)
  case Nil
  show ?case by simp
next
  case (Cons x xs)
  show ?case
  proof (cases i)
    case 0
    then show ?thesis by auto
  next
    case (Suc k)
    with Cons show ?thesis by (auto simp: less_Suc_eq_0_disj)
  qed
qed

lemma find_idx_takeWhile:
  "find_idx P xs = (if \<exists>x\<in>set xs. P x then Some (length (takeWhile (\<lambda>x. \<not> P x) xs)) else None)"
  by (induction xs) auto

lemma find_idx_append [cpp_string]:
  "find_idx P (xs @ ys) =
     (case find_idx P xs of Some i \<Rightarrow> Some i | None \<Rightarrow> map_option (\<lambda>i. length xs + i) (find_idx P ys))"
  by (induction xs; cases "find_idx P ys") (auto split: option.splits)

lemma find_idx_SomeD:
  assumes "find_idx P xs = Some i"
  shows "i < length xs" and "P (xs ! i)" and "\<And>x. x \<in> set (take i xs) \<Longrightarrow> \<not> P x"
  using assms by (auto simp: find_idx_Some in_set_conv_nth)

lemma find_idx_hit [simp]: "(\<forall>x\<in>set xs. \<not> P x) \<Longrightarrow> P y \<Longrightarrow> find_idx P (xs @ y # ys) = Some (length xs)"
  by (induction xs) auto

lemma find_from_0 [simp]: "find_from P s 0 = find_idx P s"
  by (simp add: find_from_def option.map_ident)

lemma find_from_skip:
  "length a = n \<Longrightarrow> find_from P (a @ s) n = map_option (\<lambda>i. n + i) (find_idx P s)"
  by (simp add: find_from_def)

lemma find_sub_Some_take:
  "find_sub p s = Some i \<Longrightarrow> i + length p \<le> length s \<and> take (length p) (drop i s) = p"
proof (induction p s arbitrary: i rule: find_sub.induct)
  case (1 p)
  then show ?case by (simp split: if_splits)
next
  case (2 p x xs)
  show ?case
  proof (cases "take (length p) (x # xs) = p")
    case True
    with "2.prems" have "i = 0" by simp
    from True have "length p \<le> length (x # xs)" by (metis length_take min.cobounded1)
    with True \<open>i = 0\<close> show ?thesis by simp
  next
    case False
    with "2.prems" obtain j where "find_sub p xs = Some j" and "i = Suc j" by auto
    with "2.IH"[OF False] show ?thesis by simp
  qed
qed

section \<open>Decimal printing and reading\<close>

definition digit_char :: "nat \<Rightarrow> char" where
  "digit_char d = char_of (48 + d)"

definition isdigit :: "char \<Rightarrow> bool" where
  "isdigit c \<longleftrightarrow> 48 \<le> (of_char c :: nat) \<and> (of_char c :: nat) \<le> 57"

definition digit_val :: "char \<Rightarrow> nat" where
  "digit_val c = (of_char c :: nat) - 48"

fun nat_to_string :: "nat \<Rightarrow> string" where
  "nat_to_string n = (if n < 10 then [digit_char n]
                      else nat_to_string (n div 10) @ [digit_char (n mod 10)])"

declare nat_to_string.simps [simp del]

text \<open>\<^verbatim>\<open>std::to_string\<close> of an integer.\<close>

definition to_string :: "int \<Rightarrow> string" where
  "to_string i = (if i < 0 then CHR ''-'' # nat_to_string (nat (- i)) else nat_to_string (nat i))"

definition digits_val :: "string \<Rightarrow> nat" where
  "digits_val ds = foldl (\<lambda>a c. 10 * a + digit_val c) 0 ds"

definition isspace :: "char \<Rightarrow> bool" where
  "isspace c \<longleftrightarrow> (of_char c :: nat) = 32 \<or> (9 \<le> (of_char c :: nat) \<and> (of_char c :: nat) \<le> 13)"

text \<open>
  \<^verbatim>\<open>std::stoll\<close>: leading white space, an optional sign, the longest run of digits; anything after
  it is ignored. No digit is \<^verbatim>\<open>std::invalid_argument\<close>, a value outside 64 bits
  \<^verbatim>\<open>std::out_of_range\<close>.
\<close>

definition int64_range :: "int \<Rightarrow> bool" where
  "int64_range i \<longleftrightarrow> - (2 ^ 63) \<le> i \<and> i < 2 ^ 63"

definition stoll :: "string \<Rightarrow> int res" where
  "stoll s =
     (let t = dropWhile isspace s;
          neg = (t \<noteq> [] \<and> hd t = CHR ''-'');
          u = (if t \<noteq> [] \<and> (hd t = CHR ''-'' \<or> hd t = CHR ''+'') then tl t else t);
          ds = takeWhile isdigit u;
          v = (if neg then - int (digits_val ds) else int (digits_val ds))
      in if ds = [] then Inl InvalidArgument
         else if int64_range v then Inr v else Inl OutOfRange)"

lemma of_char_digit_char: "d < 10 \<Longrightarrow> (of_char (digit_char d) :: nat) = 48 + d"
  by (simp add: digit_char_def)

lemma isdigit_digit_char [simp]: "d < 10 \<Longrightarrow> isdigit (digit_char d)"
  by (simp add: isdigit_def of_char_digit_char)

lemma digit_val_digit_char [simp]: "d < 10 \<Longrightarrow> digit_val (digit_char d) = d"
  by (simp add: digit_val_def of_char_digit_char)

lemma nat_to_string_nonempty [simp]: "nat_to_string n \<noteq> []"
  by (subst nat_to_string.simps) simp

lemma nat_to_string_digits: "c \<in> set (nat_to_string n) \<Longrightarrow> isdigit c"
proof (induction n rule: nat_to_string.induct)
  case (1 n)
  show ?case
  proof (cases "n < 10")
    case True
    with "1.prems" show ?thesis by (subst (asm) nat_to_string.simps) simp
  next
    case False
    with "1.prems" have "c \<in> set (nat_to_string (n div 10)) \<or> c = digit_char (n mod 10)"
      by (subst (asm) nat_to_string.simps) auto
    with "1.IH"[OF False] show ?thesis by auto
  qed
qed

lemma digits_val_snoc: "digits_val (ds @ [c]) = 10 * digits_val ds + digit_val c"
  by (simp add: digits_val_def)

lemma digits_val_nat_to_string [simp]: "digits_val (nat_to_string n) = n"
proof (induction n rule: nat_to_string.induct)
  case (1 n)
  show ?case
  proof (cases "n < 10")
    case True
    then show ?thesis by (subst nat_to_string.simps) (simp add: digits_val_def)
  next
    case False
    with 1 show ?thesis by (subst nat_to_string.simps) (simp add: digits_val_snoc)
  qed
qed

lemma isdigit_props:
  assumes "isdigit c"
  shows "\<not> isspace c" and "c \<noteq> CHR ''-''" and "c \<noteq> CHR ''+''"
  using assms by (auto simp: isdigit_def isspace_def)

lemma takeWhile_nat_to_string:
  assumes "rest = [] \<or> \<not> isdigit (hd rest)"
  shows "takeWhile isdigit (nat_to_string n @ rest) = nat_to_string n"
proof -
  have "takeWhile isdigit rest = []" using assms by (cases rest) auto
  then show ?thesis by (simp add: takeWhile_append nat_to_string_digits)
qed

lemma hd_nat_to_string_digit: "isdigit (hd (nat_to_string n))"
  using nat_to_string_digits[of "hd (nat_to_string n)" n] by simp

text \<open>Reading back what \<^verbatim>\<open>std::to_string\<close> wrote, followed by anything that is not a digit.\<close>

lemma stoll_to_string [cpp_string]:
  assumes "int64_range i" and "rest = [] \<or> \<not> isdigit (hd rest)"
  shows "stoll (to_string i @ rest) = Inr i"
proof (cases "i < 0")
  case True
  have "\<not> isspace (CHR ''-'')" by (simp add: isspace_def)
  with True assms show ?thesis
    by (simp add: stoll_def to_string_def Let_def takeWhile_nat_to_string)
next
  case False
  let ?d = "nat_to_string (nat i)"
  have hd: "hd (?d @ rest) = hd ?d" by simp
  note h = isdigit_props[OF hd_nat_to_string_digit[of "nat i"]]
  have "dropWhile isspace (?d @ rest) = ?d @ rest"
    using h(1) by (cases ?d) auto
  with False assms h show ?thesis
    by (simp add: stoll_def to_string_def Let_def takeWhile_nat_to_string hd)
qed

lemma to_string_nonempty [simp]: "to_string i \<noteq> []"
  by (simp add: to_string_def)

lemma to_string_chars: "c \<in> set (to_string i) \<Longrightarrow> isdigit c \<or> c = CHR ''-''"
  by (auto simp: to_string_def nat_to_string_digits split: if_splits)

section \<open>Narrowing\<close>

text \<open>\<^verbatim>\<open>static_cast<int>\<close> of a 64-bit number: the low 32 bits, read as a signed number.\<close>

definition to_int32 :: "int \<Rightarrow> int" where
  "to_int32 i = sint (word_of_int i :: 32 word)"

lemma to_int32_id: "- (2 ^ 31) \<le> i \<Longrightarrow> i < 2 ^ 31 \<Longrightarrow> to_int32 i = i"
  by (simp add: to_int32_def int_word_sint)

section \<open>Lists\<close>

lemma foldl_invariant:
  assumes "P s" and "\<And>s x. P s \<Longrightarrow> P (f s x)"
  shows "P (foldl f s xs)"
  using assms by (induction xs arbitrary: s) auto

lemma subseq_set: "subseq xs ys \<Longrightarrow> set xs \<subseteq> set ys"
  by (induction rule: list_emb.induct) auto

lemma subseq_distinct_map: "subseq xs ys \<Longrightarrow> distinct (map f ys) \<Longrightarrow> distinct (map f xs)"
proof (induction rule: list_emb.induct)
  case (list_emb_Cons2 x y xs ys)
  then show ?case using subseq_set[of xs ys] by auto
qed auto

end
