(* ===== verification/Ieee_Double.thy ===== *)
theory Ieee_Double
  imports Kjd_Prelude
begin

text \<open>
  The C++ type \<^verbatim>\<open>double\<close> as its IEEE-754 binary64 bit pattern, a \<open>64 word\<close>: sign (bit 63),
  exponent (bits 52 to 62) and fraction (bits 0 to 51), with the classification and the two
  comparisons (\<^verbatim>\<open>==\<close> and \<^verbatim>\<open>!=\<close> against \<^verbatim>\<open>0.0\<close>) that the value layer uses, the nearest double of a
  ratio, and the conversions \<^verbatim>\<open>%f\<close> and \<^verbatim>\<open>std::stod\<close>.
\<close>

type_synonym double = "64 word"

definition dbl_sign :: "double \<Rightarrow> bool" where
  "dbl_sign d \<longleftrightarrow> bit d 63"

definition dbl_exp :: "double \<Rightarrow> nat" where
  "dbl_exp d = unat (take_bit 11 (drop_bit 52 d))"

definition dbl_frac :: "double \<Rightarrow> nat" where
  "dbl_frac d = unat (take_bit 52 d)"

definition dbl_is_nan :: "double \<Rightarrow> bool" where
  "dbl_is_nan d \<longleftrightarrow> dbl_exp d = 2047 \<and> dbl_frac d \<noteq> 0"

text \<open>Positive and negative zero.\<close>

definition dbl_is_zero :: "double \<Rightarrow> bool" where
  "dbl_is_zero d \<longleftrightarrow> dbl_exp d = 0 \<and> dbl_frac d = 0"

text \<open>The C++ operator \<^verbatim>\<open>==\<close> on doubles: NaN equals nothing and the two zeros are equal.\<close>

definition dbl_eq :: "double \<Rightarrow> double \<Rightarrow> bool" where
  "dbl_eq a b \<longleftrightarrow> \<not> dbl_is_nan a \<and> \<not> dbl_is_nan b \<and> (a = b \<or> (dbl_is_zero a \<and> dbl_is_zero b))"

lemma dbl_eq_sym: "dbl_eq a b = dbl_eq b a"
  by (auto simp: dbl_eq_def)

lemma dbl_eq_trans: "dbl_eq a b \<Longrightarrow> dbl_eq b c \<Longrightarrow> dbl_eq a c"
  by (auto simp: dbl_eq_def)

lemma dbl_eq_refl: "dbl_eq a a \<longleftrightarrow> \<not> dbl_is_nan a"
  by (simp add: dbl_eq_def)

section \<open>Values\<close>

text \<open>
  A finite double is \<^verbatim>\<open>mantissa * 2^(power)\<close> with its sign; subnormal numbers share the smallest
  exponent and lack the implicit bit.
\<close>

definition dbl_is_finite :: "double \<Rightarrow> bool" where
  "dbl_is_finite d \<longleftrightarrow> dbl_exp d \<noteq> 2047"

definition dbl_mant :: "double \<Rightarrow> nat" where
  "dbl_mant d = (if dbl_exp d = 0 then dbl_frac d else dbl_frac d + 2 ^ 52)"

definition dbl_pow :: "double \<Rightarrow> int" where
  "dbl_pow d = int (max (dbl_exp d) 1) - 1075"

text \<open>Numerator and denominator of the absolute value.\<close>

definition dbl_ratio :: "double \<Rightarrow> nat \<times> nat" where
  "dbl_ratio d =
     (if dbl_pow d \<ge> 0 then (dbl_mant d * 2 ^ nat (dbl_pow d), 1)
      else (dbl_mant d, 2 ^ nat (- dbl_pow d)))"

text \<open>Division rounded to the nearest integer, ties to even: the rounding of the hardware and of the C library.\<close>

definition div_round :: "nat \<Rightarrow> nat \<Rightarrow> nat" where
  "div_round p q =
     (let n = p div q; r = p mod q in
      if 2 * r < q then n else if 2 * r > q then n + 1 else if even n then n else n + 1)"

fun bit_length :: "nat \<Rightarrow> nat" where
  "bit_length n = (if n = 0 then 0 else 1 + bit_length (n div 2))"

declare bit_length.simps [simp del]

definition scaled :: "nat \<Rightarrow> nat \<Rightarrow> int \<Rightarrow> nat \<times> nat" where
  "scaled p q e = (if e \<ge> 0 then (p, q * 2 ^ nat e) else (p * 2 ^ nat (- e), q))"

text \<open>
  The double nearest to the positive or negative ratio \<open>p / q\<close>: the exponent is chosen so that
  the mantissa has 53 bits (fewer below the normal range); too large a ratio gives infinity.
\<close>

definition dbl_encode :: "bool \<Rightarrow> nat \<Rightarrow> nat \<Rightarrow> double" where
  "dbl_encode neg ex frac =
     word_of_nat ((if neg then 2 ^ 63 else 0) + ex * 2 ^ 52 + frac)"

definition dbl_of_ratio :: "bool \<Rightarrow> nat \<Rightarrow> nat \<Rightarrow> double" where
  "dbl_of_ratio neg p q =
     (if p = 0 then dbl_encode neg 0 0
      else
        let k = int (bit_length p) - int (bit_length q);
            lg = (case scaled p q k of (a, b) \<Rightarrow> if a \<ge> b then k else k - 1);
            e = max (-1074) (lg - 52);
            m = (case scaled p q e of (a, b) \<Rightarrow> div_round a b);
            m' = (if m = 2 ^ 53 then 2 ^ 52 else m);
            e' = (if m = 2 ^ 53 then e + 1 else e)
        in if e' > 971 then dbl_encode neg 2047 0
           else if m' < 2 ^ 52 then dbl_encode neg 0 m'
           else dbl_encode neg (nat (e' + 1075)) (m' - 2 ^ 52))"

section \<open>Text\<close>

definition pad_left :: "nat \<Rightarrow> char \<Rightarrow> string \<Rightarrow> string" where
  "pad_left n c s = replicate (n - length s) c @ s"

text \<open>\<^verbatim>\<open>printf\<close>'s \<^verbatim>\<open>%f\<close>: six decimals, rounded from the exact value.\<close>

definition fmt_f :: "double \<Rightarrow> string" where
  "fmt_f d =
     (let sgn = (if dbl_sign d then ''-'' else '''') in
      if dbl_is_nan d then sgn @ ''nan''
      else if \<not> dbl_is_finite d then sgn @ ''inf''
      else
        let (p, q) = dbl_ratio d; n = div_round (p * 10 ^ 6) q
        in sgn @ nat_to_string (n div 10 ^ 6) @ ''.'' @ pad_left 6 (CHR ''0'') (nat_to_string (n mod 10 ^ 6)))"

text \<open>
  \<^verbatim>\<open>std::stod\<close> on texts of the shape sign, digits, point, digits (the only ones the sources give it): no digit is
  an invalid argument; a result that overflows or underflows is out of range.
\<close>

definition stod :: "string \<Rightarrow> double res" where
  "stod s =
     (let neg = (s \<noteq> [] \<and> hd s = CHR ''-'');
          u = (if neg then tl s else s);
          ip = takeWhile isdigit u;
          r = drop (length ip) u;
          fp = (if r \<noteq> [] \<and> hd r = CHR ''.'' then takeWhile isdigit (tl r) else [])
      in if ip = [] \<and> fp = [] then Inl InvalidArgument
         else
           let p = digits_val (ip @ fp); q = 10 ^ length fp; d = dbl_of_ratio neg p q
           in if \<not> dbl_is_finite d then Inl OutOfRange
              else if dbl_exp d = 0 \<and> fst (dbl_ratio d) * q \<noteq> p * snd (dbl_ratio d) then Inl OutOfRange
              else Inr d)"

end
