(* ===== verification/Lpc_Value.thy ===== *)
theory Lpc_Value
  imports Ieee_Double
begin

text \<open>
  \<^verbatim>\<open>include/kjdmud/vm/Value.hpp\<close> and \<^verbatim>\<open>src/vm/Value.cpp\<close>: the tagged union of LPC values, truth and
  equality, and the multi-column \<^verbatim>\<open>Mapping\<close>. Objects, arrays, mappings, closures and buffers are
  \<^verbatim>\<open>std::shared_ptr\<close>s in the code; here they are references (natural numbers) into a store,
  \<^const>\<open>None\<close> being the null pointer, so that pointer identity is equality of references.
\<close>

section \<open>Values\<close>

type_synonym int64 = "64 word"
type_synonym ref = nat

datatype vdata =
    VVoid
  | VNil
  | VInt int64
  | VFloat double
  | VStr string
  | VSym string
  | VObj "ref option"
  | VArr "ref option"
  | VMap "ref option"
  | VFun "ref option"
  | VBuf "ref option"

record lvalue =
  vdata :: vdata
  isUndefined :: bool
  isClassInstance :: bool

definition mkValue :: "vdata \<Rightarrow> lvalue" where
  "mkValue d = \<lparr>vdata = d, isUndefined = False, isClassInstance = False\<rparr>"

definition makeUndefinedNumber :: lvalue where
  "makeUndefinedNumber = (mkValue (VInt 0))\<lparr>isUndefined := True\<rparr>"

definition isVoid :: "lvalue \<Rightarrow> bool" where
  "isVoid v \<longleftrightarrow> vdata v = VVoid"

text \<open>\<^verbatim>\<open>ValueVariant::index()\<close>: the position of the alternative in the variant.\<close>

fun vindex :: "vdata \<Rightarrow> nat" where
  "vindex VVoid = 0"
| "vindex VNil = 1"
| "vindex (VInt _) = 2"
| "vindex (VFloat _) = 3"
| "vindex (VStr _) = 4"
| "vindex (VSym _) = 5"
| "vindex (VObj _) = 6"
| "vindex (VArr _) = 7"
| "vindex (VMap _) = 8"
| "vindex (VFun _) = 9"
| "vindex (VBuf _) = 10"

fun truthyData :: "vdata \<Rightarrow> bool" where
  "truthyData VVoid = False"
| "truthyData VNil = False"
| "truthyData (VInt i) = (i \<noteq> 0)"
| "truthyData (VFloat d) = (\<not> dbl_is_zero d)"
| "truthyData (VStr s) = (s \<noteq> [])"
| "truthyData (VSym _) = True"
| "truthyData (VObj r) = (r \<noteq> None)"
| "truthyData (VArr r) = (r \<noteq> None)"
| "truthyData (VMap r) = (r \<noteq> None)"
| "truthyData (VFun r) = (r \<noteq> None)"
| "truthyData (VBuf r) = (r \<noteq> None)"

definition isTruthy :: "lvalue \<Rightarrow> bool" where
  "isTruthy v = truthyData (vdata v)"

text \<open>
  \<^verbatim>\<open>valuesEqual\<close>, case by case in the order of the code. The code has no case for arrays and
  mappings: two of them fall through to the last \<^verbatim>\<open>return false\<close>.
\<close>

fun dataEqual :: "vdata \<Rightarrow> vdata \<Rightarrow> bool" where
  "dataEqual VNil w = (w = VNil)"
| "dataEqual (VInt a) w = (case w of VInt b \<Rightarrow> a = b | _ \<Rightarrow> False)"
| "dataEqual (VFloat a) w = (case w of VFloat b \<Rightarrow> dbl_eq a b | _ \<Rightarrow> False)"
| "dataEqual (VStr a) w = (case w of VStr b \<Rightarrow> a = b | _ \<Rightarrow> False)"
| "dataEqual (VSym a) w = (case w of VSym b \<Rightarrow> a = b | _ \<Rightarrow> False)"
| "dataEqual (VObj a) w = (case w of VObj b \<Rightarrow> a = b | _ \<Rightarrow> False)"
| "dataEqual (VFun a) w = (case w of VFun b \<Rightarrow> a = b | _ \<Rightarrow> False)"
| "dataEqual (VBuf a) w = (case w of VBuf b \<Rightarrow> a = b | _ \<Rightarrow> False)"
| "dataEqual VVoid w = (w = VVoid)"
| "dataEqual (VArr a) w = False"
| "dataEqual (VMap a) w = False"

definition valuesEqual :: "lvalue \<Rightarrow> lvalue \<Rightarrow> bool" where
  "valuesEqual a b \<longleftrightarrow>
     (if vindex (vdata a) \<noteq> vindex (vdata b) then False else dataEqual (vdata a) (vdata b))"

section \<open>Mappings\<close>

text \<open>
  \<^verbatim>\<open>struct Mapping\<close>: the entries in insertion order, the number of value columns, and the columns
  from the second on. \<^verbatim>\<open>getColumn\<close> and \<^verbatim>\<open>setColumn\<close> index vectors without a bounds check, which is
  undefined behaviour out of range; the model returns \<^const>\<open>None\<close> there.
\<close>

record mapping_rec =
  entries :: "(lvalue \<times> lvalue) list"
  width :: int
  extraColumns :: "lvalue list list"

definition emptyMapping :: mapping_rec where
  "emptyMapping = \<lparr>entries = [], width = 1, extraColumns = []\<rparr>"

definition getColumn :: "mapping_rec \<Rightarrow> nat \<Rightarrow> int \<Rightarrow> lvalue option" where
  "getColumn m i col =
     (if col \<le> 0 then (if i < length (entries m) then Some (snd (entries m ! i)) else None)
      else if i < length (extraColumns m) \<and> nat (col - 1) < length (extraColumns m ! i)
      then Some (extraColumns m ! i ! nat (col - 1)) else None)"

definition setColumn :: "mapping_rec \<Rightarrow> nat \<Rightarrow> int \<Rightarrow> lvalue \<Rightarrow> mapping_rec option" where
  "setColumn m i col v =
     (if col \<le> 0 then
        (if i < length (entries m)
         then Some (m\<lparr>entries := (entries m)[i := (fst (entries m ! i), v)]\<rparr>) else None)
      else if i < length (extraColumns m) \<and> nat (col - 1) < length (extraColumns m ! i)
      then Some (m\<lparr>extraColumns :=
             (extraColumns m)[i := (extraColumns m ! i)[nat (col - 1) := v]]\<rparr>)
      else None)"

text \<open>
  \<^verbatim>\<open>appendEntry\<close>: column 0 is the first value (void when there is none), the other columns are
  taken from the remaining values and padded with 0 up to the width.
\<close>

definition padTo :: "nat \<Rightarrow> lvalue list \<Rightarrow> lvalue list" where
  "padTo n vs = take n vs @ replicate (n - length vs) (mkValue (VInt 0))"

definition appendEntry :: "mapping_rec \<Rightarrow> lvalue \<Rightarrow> lvalue list \<Rightarrow> mapping_rec" where
  "appendEntry m key vals =
     (let col0 = (if vals = [] then mkValue VVoid else hd vals);
          m' = m\<lparr>entries := entries m @ [(key, col0)]\<rparr>
      in if width m > 1
         then m'\<lparr>extraColumns := extraColumns m @ [padTo (nat (width m - 1)) (tl vals)]\<rparr>
         else m')"

definition eraseAt :: "mapping_rec \<Rightarrow> nat \<Rightarrow> mapping_rec option" where
  "eraseAt m i =
     (if i < length (entries m) \<and> (extraColumns m \<noteq> [] \<longrightarrow> i < length (extraColumns m)) then
        Some (let m' = m\<lparr>entries := take i (entries m) @ drop (Suc i) (entries m)\<rparr>
              in if extraColumns m \<noteq> []
                 then m'\<lparr>extraColumns := take i (extraColumns m) @ drop (Suc i) (extraColumns m)\<rparr>
                 else m')
      else None)"

text \<open>
  The shape the comment on \<^verbatim>\<open>extraColumns\<close> promises: one row of \<^verbatim>\<open>width - 1\<close> extra columns per entry
  when the width is above 1, no rows at all when it is 1.
\<close>

definition mapping_wf :: "mapping_rec \<Rightarrow> bool" where
  "mapping_wf m \<longleftrightarrow> 1 \<le> width m \<and>
     (if width m > 1
      then length (extraColumns m) = length (entries m) \<and>
           (\<forall>row\<in>set (extraColumns m). length row = nat (width m - 1))
      else extraColumns m = [])"

section \<open>Lemmas: truth and equality\<close>

lemma vdata_mkValue [simp]: "vdata (mkValue d) = d"
  by (simp add: mkValue_def)

lemma dataEqual_index: "dataEqual a b \<Longrightarrow> vindex a = vindex b"
  by (cases a) (auto split: vdata.splits)

lemma valuesEqual_data: "valuesEqual a b = dataEqual (vdata a) (vdata b)"
  by (auto simp: valuesEqual_def dest: dataEqual_index)

lemma dataEqual_refl:
  "dataEqual a a \<longleftrightarrow> (\<forall>r. a \<noteq> VArr r) \<and> (\<forall>r. a \<noteq> VMap r) \<and> (\<forall>d. a = VFloat d \<longrightarrow> \<not> dbl_is_nan d)"
  by (cases a) (simp_all add: dbl_eq_refl)

text \<open>Apart from floats, equal values are identical.\<close>

lemma dataEqual_cases:
  assumes "dataEqual a b"
  obtains x y where "a = VFloat x" "b = VFloat y" "dbl_eq x y" | "b = a"
  using assms by (cases a) (auto split: vdata.splits)

lemma dataEqual_symD:
  assumes "dataEqual a b"
  shows "dataEqual b a"
  using assms
proof (cases rule: dataEqual_cases)
  case (1 x y)
  then show ?thesis by (simp add: dbl_eq_sym)
next
  case 2
  with assms show ?thesis by simp
qed

lemma dataEqual_sym: "dataEqual a b = dataEqual b a"
  by (rule iffI; erule dataEqual_symD)

lemma dataEqual_trans:
  assumes "dataEqual a b" and "dataEqual b c"
  shows "dataEqual a c"
  using assms(1)
proof (cases rule: dataEqual_cases)
  case (1 x y)
  from assms(2) 1 obtain z where "c = VFloat z" and "dbl_eq y z"
    by (cases c) auto
  with 1 show ?thesis by (auto intro: dbl_eq_trans)
next
  case 2
  with assms show ?thesis by simp
qed

lemma dataEqual_truthy:
  assumes "dataEqual a b"
  shows "truthyData a = truthyData b"
  using assms by (cases rule: dataEqual_cases) (auto simp: dbl_eq_def)

lemma padTo_length [simp]: "length (padTo n vs) = n"
  by (simp add: padTo_def)

section \<open>Lemmas: the column table\<close>

lemma mapping_wf_appendEntry: "mapping_wf m \<Longrightarrow> mapping_wf (appendEntry m k vs)"
  by (auto simp: mapping_wf_def appendEntry_def Let_def)

lemma mapping_wf_setColumn: "mapping_wf m \<Longrightarrow> setColumn m i c v = Some m' \<Longrightarrow> mapping_wf m'"
  by (auto simp: mapping_wf_def setColumn_def split: if_splits
      dest!: set_update_subset_insert[THEN subsetD])

lemma mapping_wf_eraseAt: "mapping_wf m \<Longrightarrow> eraseAt m i = Some m' \<Longrightarrow> mapping_wf m'"
  by (fastforce simp: mapping_wf_def eraseAt_def Let_def split: if_splits
      dest: in_set_takeD in_set_dropD)

lemma nth_padTo: "i < n \<Longrightarrow> padTo n vs ! i = (if i < length vs then vs ! i else mkValue (VInt 0))"
  by (auto simp: padTo_def nth_append)

text \<open>A column of a well-formed mapping that exists can be read: no access is out of range.\<close>

lemma getColumn_defined:
  assumes "mapping_wf m" and "i < length (entries m)" and "0 \<le> c" and "c < width m"
  shows "getColumn m i c \<noteq> None"
  using assms by (auto simp: mapping_wf_def getColumn_def all_set_conv_all_nth split: if_splits)

lemma setColumn_defined:
  assumes "mapping_wf m" and "i < length (entries m)" and "0 \<le> c" and "c < width m"
  shows "setColumn m i c v \<noteq> None"
  using assms by (auto simp: mapping_wf_def setColumn_def all_set_conv_all_nth split: if_splits)

lemma getColumn_setColumn:
  assumes "setColumn m i c v = Some m'" and "0 \<le> c" and "0 \<le> c'"
  shows "getColumn m' i' c' = (if i' = i \<and> c' = c then Some v else getColumn m i' c')"
proof (cases "c \<le> 0")
  case True
  with assms(1) have i: "i < length (entries m)"
    and m': "m' = m\<lparr>entries := (entries m)[i := (fst (entries m ! i), v)]\<rparr>"
    by (simp_all add: setColumn_def split: if_splits)
  from True assms(2,3) have "c' \<le> 0 \<longleftrightarrow> c' = c" by arith
  with i show ?thesis by (simp add: getColumn_def m' nth_list_update)
next
  case False
  with assms(1) have i: "i < length (extraColumns m)" "nat (c - 1) < length (extraColumns m ! i)"
    and m': "m' = m\<lparr>extraColumns := (extraColumns m)[i := (extraColumns m ! i)[nat (c - 1) := v]]\<rparr>"
    by (simp_all add: setColumn_def split: if_splits)
  have "\<not> c' \<le> 0 \<Longrightarrow> nat (c' - 1) = nat (c - 1) \<longleftrightarrow> c' = c" using False by (simp add: eq_nat_nat_iff)
  with False i show ?thesis by (cases "c' \<le> 0") (auto simp: getColumn_def m' nth_list_update)
qed

lemma getColumn_appendEntry_new:
  assumes "mapping_wf m" and "0 \<le> c" and "c < width m"
  shows "getColumn (appendEntry m k vs) (length (entries m)) c =
         Some (if nat c < length vs then vs ! nat c
               else if c = 0 then mkValue VVoid else mkValue (VInt 0))"
proof (cases "c = 0")
  case True
  then show ?thesis by (auto simp: getColumn_def appendEntry_def Let_def hd_conv_nth)
next
  case False
  with assms have "width m > 1" and len: "length (extraColumns m) = length (entries m)"
    by (auto simp: mapping_wf_def)
  moreover have "nat (c - 1) < length (tl vs) \<longleftrightarrow> nat c < length vs" using assms(2) False by auto
  moreover have "nat (c - 1) < length (tl vs) \<Longrightarrow> tl vs ! nat (c - 1) = vs ! nat c"
    using assms(2) False by (simp add: nth_tl Suc_nat_eq_nat_zadd1)
  ultimately show ?thesis using assms False
    by (simp add: getColumn_def appendEntry_def Let_def nth_append nth_padTo)
qed

section \<open>Properties\<close>

text \<open>
  \<^verbatim>\<open>valuesEqual\<close> is symmetric and transitive, and it is reflexive exactly on the values that are
  neither arrays nor mappings nor a NaN float: an array or a mapping is not equal even to itself.
\<close>

theorem valuesEqual_partial_equivalence:
  "valuesEqual a b = valuesEqual b a \<and>
   (valuesEqual a b \<and> valuesEqual b c \<longrightarrow> valuesEqual a c) \<and>
   (valuesEqual a a \<longleftrightarrow> (\<forall>r. vdata a \<noteq> VArr r) \<and> (\<forall>r. vdata a \<noteq> VMap r) \<and>
                       (\<forall>d. vdata a = VFloat d \<longrightarrow> \<not> dbl_is_nan d))"
  by (auto simp: valuesEqual_data dataEqual_refl dataEqual_sym intro: dataEqual_trans)

theorem valuesEqual_partial_equivalence_witness:
  "valuesEqual (mkValue (VStr ''a'')) (mkValue (VStr ''a'')) \<and>
   \<not> valuesEqual (mkValue (VArr (Some 0))) (mkValue (VArr (Some 0)))"
  using valuesEqual_partial_equivalence[of "mkValue (VStr ''a'')" "mkValue (VStr ''a'')" "mkValue (VStr ''a'')"]
        valuesEqual_partial_equivalence[of "mkValue (VArr (Some 0))" "mkValue VVoid" "mkValue VVoid"]
  by simp

text \<open>
  The column table of a mapping: every operation keeps it well formed, every column of every
  entry of a well-formed mapping is readable and writable (no vector access is out of range), a
  column reads back what was last written to it and the other columns are untouched, and an
  appended entry holds its values in order, padded with 0.
\<close>

theorem mapping_column_table:
  assumes "mapping_wf m"
  shows "mapping_wf (appendEntry m k vs) \<and>
    (\<forall>m'. setColumn m i c v = Some m' \<longrightarrow> mapping_wf m') \<and>
    (\<forall>m'. eraseAt m i = Some m' \<longrightarrow> mapping_wf m') \<and>
    (i < length (entries m) \<and> 0 \<le> c \<and> c < width m \<longrightarrow>
       getColumn m i c \<noteq> None \<and>
       (\<exists>m'. setColumn m i c v = Some m' \<and>
             (\<forall>i' c'. 0 \<le> c' \<longrightarrow>
                getColumn m' i' c' = (if i' = i \<and> c' = c then Some v else getColumn m i' c')))) \<and>
    (0 \<le> c \<and> c < width m \<longrightarrow>
       getColumn (appendEntry m k vs) (length (entries m)) c =
         Some (if nat c < length vs then vs ! nat c
               else if c = 0 then mkValue VVoid else mkValue (VInt 0)))"
proof (intro conjI impI allI)
  assume h: "i < length (entries m) \<and> 0 \<le> c \<and> c < width m"
  then show "getColumn m i c \<noteq> None" using getColumn_defined[OF assms] by blast
  from h obtain m' where m': "setColumn m i c v = Some m'"
    using setColumn_defined[OF assms] by blast
  with h show "\<exists>m'. setColumn m i c v = Some m' \<and> (\<forall>i' c'. 0 \<le> c' \<longrightarrow>
      getColumn m' i' c' = (if i' = i \<and> c' = c then Some v else getColumn m i' c'))"
    using getColumn_setColumn[OF m'] by blast
qed (use assms in \<open>blast intro: mapping_wf_appendEntry mapping_wf_setColumn mapping_wf_eraseAt
       getColumn_appendEntry_new\<close>)+

theorem mapping_column_table_witness:
  "mapping_wf (appendEntry (emptyMapping\<lparr>width := 2\<rparr>) (mkValue (VStr ''k'')) [mkValue VNil])"
proof -
  have "mapping_wf (emptyMapping\<lparr>width := 2\<rparr>)" by (simp add: mapping_wf_def emptyMapping_def)
  from mapping_column_table[OF this] show ?thesis by blast
qed

end
