(* ===== verification/Bytecode.thy ===== *)
theory Bytecode
  imports Lpc_Value
begin

text \<open>
  \<^verbatim>\<open>include/kjdmud/vm/Bytecode.hpp\<close>: the instruction set and the compiled programs, and the run-time
  resolution of function names of \<^verbatim>\<open>src/vm/VM.cpp\<close> with its cache. A compiled program is immutable
  apart from the cache, so it is a tree here; \<^verbatim>\<open>progId\<close> stands for its address, by which the code
  compares programs, and the caches are one map from addresses to tables.
\<close>

section \<open>Programs\<close>

datatype OpCode =
    PushConst | PushInt | PushFloat | PushNil | PushSymbol | PushLocal | StoreLocal
  | PushObjectVar | StoreObjectVar | OpAdd | OpSub | OpMul | OpDiv | OpMod | BitAnd | BitOr | BitXor
  | Shl | Shr | BitNot | OpEq | OpNeq | OpLt | OpLte | OpGt | OpGte | OpNot | Jump | JumpIfFalse
  | OpCall | CallEfun | CallParent | CallParentQualifierSlot | PushClosure | PushEfunClosure | CallApply
  | ExpandVarargs | MakeArray | MakeMapping | OpIndex | IndexAssign | RangeIndex | OpSscanf | SscanfVarSlot
  | ForeachKeys | PushCatchFrame | PopCatchFrame | TimeExpressionStart | TimeExpressionEnd
  | OpReturn | OpPop | OpDup | Halt | Suspend

record Instruction =
  op :: OpCode
  operand :: int
  argCount :: int

record FunctionEntry =
  feName :: string
  entryPoint :: nat
  numArgs :: nat
  numLocals :: nat
  isAsync :: bool
  isVarargs :: bool

datatype CompiledProgram = CompiledProgram
  (progId: nat)
  (code: "Instruction list")
  (progFunctions: "FunctionEntry list")
  (stringPool: "string list")
  (floatPool: "double list")
  (objectVarNames: "string list")
  (inherits: "string list")
  (inheritedPrograms: "CompiledProgram option list")
  (ancestorBaseOffsets: "nat \<rightharpoonup> int")

type_synonym lookup = "(CompiledProgram \<times> FunctionEntry) option"

text \<open>\<^verbatim>\<open>functionChainCache_\<close> of every program: by the address of the program, then by name.\<close>

type_synonym chain_cache = "nat \<Rightarrow> string \<rightharpoonup> lookup"

section \<open>Name resolution\<close>

definition ownFunction :: "CompiledProgram \<Rightarrow> string \<Rightarrow> lookup" where
  "ownFunction p name = map_option (\<lambda>f. (p, f)) (find (\<lambda>f. feName f = name) (progFunctions p))"

text \<open>
  \<^verbatim>\<open>findFunctionInChain\<close>: the cached answer, or the first match of the program's own functions and then,
  depth first, of the programs it inherits. The answer, also a negative one, is stored; \<^verbatim>\<open>emplace\<close>
  keeps an entry that is already there.
\<close>

definition cacheEmplace :: "nat \<Rightarrow> string \<Rightarrow> lookup \<Rightarrow> chain_cache \<Rightarrow> chain_cache" where
  "cacheEmplace i name r c = (if c i name = None then c(i := (c i)(name \<mapsto> r)) else c)"

fun findFunctionInChain :: "CompiledProgram \<Rightarrow> string \<Rightarrow> chain_cache \<Rightarrow> lookup \<times> chain_cache"
  and findInParents :: "CompiledProgram option list \<Rightarrow> string \<Rightarrow> chain_cache \<Rightarrow> lookup \<times> chain_cache" where
  "findFunctionInChain (CompiledProgram i cd fns sp fp vn inh pars offs) name c =
     (case c i name of
        Some r \<Rightarrow> (r, c)
      | None \<Rightarrow>
          (case ownFunction (CompiledProgram i cd fns sp fp vn inh pars offs) name of
             Some r \<Rightarrow> (Some r, cacheEmplace i name (Some r) c)
           | None \<Rightarrow> (case findInParents pars name c of (r, c') \<Rightarrow> (r, cacheEmplace i name r c'))))"
| "findInParents [] name c = (None, c)"
| "findInParents (None # ps) name c = findInParents ps name c"
| "findInParents (Some p # ps) name c =
     (case findFunctionInChain p name c of
        (Some r, c') \<Rightarrow> (Some r, c')
      | (None, c') \<Rightarrow> findInParents ps name c')"

definition pathBasename :: "string \<Rightarrow> string" where
  "pathBasename path = rev (takeWhile (\<lambda>ch. ch \<noteq> CHR ''/'') (rev path))"

text \<open>\<^verbatim>\<open>findParentFunction\<close>: \<^verbatim>\<open>::name()\<close> searches all parents, \<^verbatim>\<open>qualifier::name()\<close> the first one whose path ends in the qualifier.\<close>

fun findQualified :: "(string \<times> CompiledProgram option) list \<Rightarrow> string \<Rightarrow> string \<Rightarrow> chain_cache \<Rightarrow> lookup \<times> chain_cache" where
  "findQualified [] name q c = (None, c)"
| "findQualified ((path, par) # ps) name q c =
     (if pathBasename path \<noteq> q then findQualified ps name q c
      else case par of None \<Rightarrow> findQualified ps name q c
           | Some p \<Rightarrow> findFunctionInChain p name c)"

definition findParentFunction :: "CompiledProgram \<Rightarrow> string \<Rightarrow> string option \<Rightarrow> chain_cache \<Rightarrow> lookup \<times> chain_cache" where
  "findParentFunction p name qualifier c =
     (case qualifier of
        None \<Rightarrow> findInParents (inheritedPrograms p) name c
      | Some q \<Rightarrow> findQualified (zip (inherits p) (inheritedPrograms p)) name q c)"

section \<open>The cache does not change what a name means\<close>

text \<open>The reference: the inherit tree in depth-first order, and the first program of it that defines the name.\<close>

fun linearised :: "CompiledProgram \<Rightarrow> CompiledProgram list"
  and linearisedParents :: "CompiledProgram option list \<Rightarrow> CompiledProgram list" where
  "linearised (CompiledProgram i cd fns sp fp vn inh pars offs) =
     CompiledProgram i cd fns sp fp vn inh pars offs # linearisedParents pars"
| "linearisedParents [] = []"
| "linearisedParents (None # ps) = linearisedParents ps"
| "linearisedParents (Some p # ps) = linearised p @ linearisedParents ps"

fun firstDefinition :: "CompiledProgram list \<Rightarrow> string \<Rightarrow> lookup" where
  "firstDefinition [] name = None"
| "firstDefinition (p # ps) name = (case ownFunction p name of Some r \<Rightarrow> Some r | None \<Rightarrow> firstDefinition ps name)"

lemma firstDefinition_append:
  "firstDefinition (ps @ qs) name = (case firstDefinition ps name of Some r \<Rightarrow> Some r | None \<Rightarrow> firstDefinition qs name)"
  by (induction ps) (simp_all split: option.splits)

text \<open>
  A cache that tells the truth about the programs of a universe in which an address determines the program
  and the parents of a program belong to the universe.
\<close>

definition closedUniverse :: "CompiledProgram set \<Rightarrow> bool" where
  "closedUniverse U \<longleftrightarrow>
     (\<forall>p\<in>U. \<forall>q\<in>U. progId p = progId q \<longrightarrow> p = q) \<and> (\<forall>p\<in>U. \<forall>q. Some q \<in> set (inheritedPrograms p) \<longrightarrow> q \<in> U)"

definition coherent :: "CompiledProgram set \<Rightarrow> chain_cache \<Rightarrow> bool" where
  "coherent U c \<longleftrightarrow> (\<forall>p\<in>U. \<forall>name r. c (progId p) name = Some r \<longrightarrow> r = firstDefinition (linearised p) name)"

lemma coherent_emplace:
  assumes "coherent U c" "closedUniverse U" "p \<in> U" "r = firstDefinition (linearised p) name"
  shows "coherent U (cacheEmplace (progId p) name r c)"
  unfolding coherent_def
proof (intro ballI allI impI)
  fix q n s
  assume q: "q \<in> U" "cacheEmplace (progId p) name r c (progId q) n = Some s"
  show "s = firstDefinition (linearised q) n"
  proof (cases "progId q = progId p \<and> n = name \<and> c (progId p) name = None")
    case True
    then have "q = p" using q(1) assms(2,3) unfolding closedUniverse_def by blast
    with True q(2) assms(4) show ?thesis by (simp add: cacheEmplace_def)
  next
    case False
    then have "c (progId q) n = Some s" using q(2) by (auto simp: cacheEmplace_def split: if_splits)
    with assms(1) q(1) show ?thesis by (simp add: coherent_def)
  qed
qed

lemma find_chain_correct:
  assumes "closedUniverse U"
  shows "p \<in> U \<Longrightarrow> coherent U c \<Longrightarrow>
      fst (findFunctionInChain p name c) = firstDefinition (linearised p) name \<and>
      coherent U (snd (findFunctionInChain p name c))"
    and "(\<And>q. Some q \<in> set ps \<Longrightarrow> q \<in> U) \<Longrightarrow> coherent U c \<Longrightarrow>
      fst (findInParents ps name c) = firstDefinition (linearisedParents ps) name \<and>
      coherent U (snd (findInParents ps name c))"
proof (induction p name c and ps name c rule: findFunctionInChain_findInParents.induct)
  case (1 i cd fns sp fp vn inh pars offs name c)
  let ?p = "CompiledProgram i cd fns sp fp vn inh pars offs"
  show ?case
  proof (cases "c i name")
    case (Some r)
    then have "r = firstDefinition (linearised ?p) name"
      using 1(2,3) unfolding coherent_def by (metis CompiledProgram.sel(1))
    with Some 1(3) show ?thesis by simp
  next
    case None
    show ?thesis
    proof (cases "ownFunction ?p name")
      case (Some r)
      then have "Some r = firstDefinition (linearised ?p) name" by simp
      from coherent_emplace[OF 1(3) assms 1(2) this] Some None show ?thesis by simp
    next
      case own: None
      obtain r c' where pr: "findInParents pars name c = (r, c')" by fastforce
      have "\<And>q. Some q \<in> set pars \<Longrightarrow> q \<in> U" using assms 1(2) unfolding closedUniverse_def by (metis CompiledProgram.sel(8))
      from 1(1)[OF None own this 1(3)] pr have ih: "r = firstDefinition (linearisedParents pars) name" "coherent U c'" by simp_all
      have "r = firstDefinition (linearised ?p) name" using ih(1) own by simp
      from coherent_emplace[OF ih(2) assms 1(2) this] own None pr this show ?thesis by simp
    qed
  qed
next
  case (4 p ps name c)
  obtain r c' where f: "findFunctionInChain p name c = (r, c')" by fastforce
  have "p \<in> U" using 4(3) by simp
  from 4(1)[OF this 4(4)] f have ih: "r = firstDefinition (linearised p) name" "coherent U c'" by simp_all
  show ?case
  proof (cases r)
    case (Some x)
    then have "firstDefinition (linearised p) name = Some x" using ih(1) by simp
    with Some ih f show ?thesis by (simp add: firstDefinition_append)
  next
    case None
    have "\<And>q. Some q \<in> set ps \<Longrightarrow> q \<in> U" using 4(3) by simp
    from 4(2)[OF f[symmetric] None this ih(2)] ih(1) None f show ?thesis by (simp add: firstDefinition_append)
  qed
qed simp_all


lemma find_qualified_correct:
  assumes "closedUniverse U" "\<And>path q. (path, Some q) \<in> set ps \<Longrightarrow> q \<in> U" "coherent U c"
  shows "coherent U (snd (findQualified ps name q c))"
  using assms(2)
proof (induction ps)
  case (Cons x ps)
  obtain path par where x: "x = (path, par)" by fastforce
  show ?case
  proof (cases "pathBasename path \<noteq> q \<or> par = None")
    case True
    then have "findQualified (x # ps) name q c = findQualified ps name q c" by (auto simp: x)
    moreover have "coherent U (snd (findQualified ps name q c))" using Cons.prems by (intro Cons.IH) auto
    ultimately show ?thesis by simp
  next
    case False
    then obtain p where p: "par = Some p" by auto
    have "p \<in> U" using Cons.prems[of path p] x p by simp
    with find_chain_correct(1)[OF assms(1) this assms(3)] False p show ?thesis by (simp add: x)
  qed
qed (simp add: assms(3))

text \<open>A run of name resolutions, in the order the machine makes them.\<close>

fun resolveAll :: "(CompiledProgram \<times> string) list \<Rightarrow> chain_cache \<Rightarrow> lookup list \<times> chain_cache" where
  "resolveAll [] c = ([], c)"
| "resolveAll ((p, name) # qs) c =
     (case findFunctionInChain p name c of (r, c') \<Rightarrow> (case resolveAll qs c' of (rs, c'') \<Rightarrow> (r # rs, c'')))"

lemma resolveAll_correct:
  assumes "closedUniverse U"
  shows "(\<And>p name. (p, name) \<in> set qs \<Longrightarrow> p \<in> U) \<Longrightarrow> coherent U c \<Longrightarrow>
    fst (resolveAll qs c) = map (\<lambda>(p, name). firstDefinition (linearised p) name) qs"
proof (induction qs arbitrary: c)
  case (Cons x qs)
  obtain p name where x: "x = (p, name)" by fastforce
  obtain r c' where f: "findFunctionInChain p name c = (r, c')" by fastforce
  have "p \<in> U" using Cons.prems(1)[of p name] x by simp
  from find_chain_correct(1)[OF assms this Cons.prems(2), of name] f
  have r: "r = firstDefinition (linearised p) name" and c': "coherent U c'" by simp_all
  have "fst (resolveAll qs c') = map (\<lambda>(p, name). firstDefinition (linearised p) name) qs"
    by (rule Cons.IH[OF _ c']) (use Cons.prems(1) in auto)
  with f r show ?case by (auto simp: x split: prod.splits)
qed simp

text \<open>
  C9. The cached name resolution is a pure optimisation: starting from empty caches, every one of any
  sequence of lookups, in any programs and for any names, gives the definition that is first in
  the depth-first order of the inherit tree, so a name means the same on a cache hit, on a miss, and after
  other programs that share ancestors were asked.
\<close>

theorem function_cache_transparent:
  assumes "closedUniverse U" and "\<forall>(p, name) \<in> set qs. p \<in> U"
  shows "fst (resolveAll qs (\<lambda>_. Map.empty)) = map (\<lambda>(p, name). firstDefinition (linearised p) name) qs"
  by (rule resolveAll_correct[OF assms(1)]) (use assms(2) in \<open>auto simp: coherent_def\<close>)

definition exampleFn :: "string \<Rightarrow> nat \<Rightarrow> FunctionEntry" where
  "exampleFn n e = \<lparr>feName = n, entryPoint = e, numArgs = 0, numLocals = 0, isAsync = False, isVarargs = False\<rparr>"

definition exampleBase :: CompiledProgram where
  "exampleBase = CompiledProgram 1 [] [exampleFn ''create'' 0, exampleFn ''query'' 3] [] [] [] [] [] Map.empty"

definition exampleChild :: CompiledProgram where
  "exampleChild = CompiledProgram 2 [] [exampleFn ''create'' 7] [] [] [] [''/std/base''] [Some exampleBase] [1 \<mapsto> 0]"

theorem function_cache_transparent_witness:
  "fst (resolveAll [(exampleChild, ''create''), (exampleChild, ''query''), (exampleBase, ''create''), (exampleChild, ''query'')]
      (\<lambda>_. Map.empty)) =
   [Some (exampleChild, exampleFn ''create'' 7), Some (exampleBase, exampleFn ''query'' 3),
    Some (exampleBase, exampleFn ''create'' 0), Some (exampleBase, exampleFn ''query'' 3)]"
proof -
  have "closedUniverse {exampleBase, exampleChild}"
    by (auto simp: closedUniverse_def exampleBase_def exampleChild_def)
  from function_cache_transparent[OF this,
      of "[(exampleChild, ''create''), (exampleChild, ''query''), (exampleBase, ''create''), (exampleChild, ''query'')]"]
  show ?thesis by (simp add: exampleChild_def exampleBase_def exampleFn_def ownFunction_def)
qed

end
