(* ===== verification/Ieee_Arith.thy ===== *)
theory Ieee_Arith
  imports Ieee_Double
begin

text \<open>
  Arithmetic of the C++ type \<^verbatim>\<open>double\<close> on bit patterns: the four operations round the exact result to nearest
  with ties to even, \<^verbatim>\<open>std::fmod\<close> is exact, and the conversions from and to \<^verbatim>\<open>int64_t\<close>. Every NaN result is the
  quiet NaN with positive sign: C++ leaves the sign and payload of a NaN open.
\<close>

section \<open>Operations\<close>

definition dbl_nan :: double where
  "dbl_nan = 0x7FF8000000000000"

definition dbl_inf :: "bool \<Rightarrow> double" where
  "dbl_inf neg = dbl_encode neg 2047 0"

definition dbl_is_inf :: "double \<Rightarrow> bool" where
  "dbl_is_inf d \<longleftrightarrow> dbl_exp d = 2047 \<and> dbl_frac d = 0"

definition dbl_neg :: "double \<Rightarrow> double" where
  "dbl_neg d = flip_bit 63 d"

text \<open>The signed numerator of a finite double; the denominator is the one of \<^const>\<open>dbl_ratio\<close>.\<close>

definition dbl_num :: "double \<Rightarrow> int" where
  "dbl_num d = (if dbl_sign d then - int (fst (dbl_ratio d)) else int (fst (dbl_ratio d)))"

definition dbl_den :: "double \<Rightarrow> nat" where
  "dbl_den d = snd (dbl_ratio d)"

text \<open>The double nearest to a signed ratio; \<open>zneg\<close> is the sign of a zero result.\<close>

definition dbl_round :: "bool \<Rightarrow> int \<Rightarrow> nat \<Rightarrow> double" where
  "dbl_round zneg n q = (if n = 0 then dbl_encode zneg 0 0 else dbl_of_ratio (n < 0) (nat \<bar>n\<bar>) q)"

definition dbl_add :: "double \<Rightarrow> double \<Rightarrow> double" where
  "dbl_add a b =
     (if dbl_is_nan a \<or> dbl_is_nan b then dbl_nan
      else if dbl_is_inf a then (if dbl_is_inf b \<and> dbl_sign a \<noteq> dbl_sign b then dbl_nan else a)
      else if dbl_is_inf b then b
      else dbl_round (dbl_sign a \<and> dbl_sign b)
             (dbl_num a * int (dbl_den b) + dbl_num b * int (dbl_den a)) (dbl_den a * dbl_den b))"

definition dbl_sub :: "double \<Rightarrow> double \<Rightarrow> double" where
  "dbl_sub a b = (if dbl_is_nan b then dbl_nan else dbl_add a (dbl_neg b))"

definition dbl_mul :: "double \<Rightarrow> double \<Rightarrow> double" where
  "dbl_mul a b =
     (let neg = (dbl_sign a \<noteq> dbl_sign b) in
      if dbl_is_nan a \<or> dbl_is_nan b then dbl_nan
      else if dbl_is_inf a \<or> dbl_is_inf b then (if dbl_is_zero a \<or> dbl_is_zero b then dbl_nan else dbl_inf neg)
      else dbl_round neg (dbl_num a * dbl_num b) (dbl_den a * dbl_den b))"

definition dbl_div :: "double \<Rightarrow> double \<Rightarrow> double" where
  "dbl_div a b =
     (let neg = (dbl_sign a \<noteq> dbl_sign b) in
      if dbl_is_nan a \<or> dbl_is_nan b then dbl_nan
      else if dbl_is_inf a then (if dbl_is_inf b then dbl_nan else dbl_inf neg)
      else if dbl_is_inf b then dbl_encode neg 0 0
      else if dbl_is_zero b then (if dbl_is_zero a then dbl_nan else dbl_inf neg)
      else dbl_round neg (dbl_num a * int (dbl_den b) * sgn (dbl_num b)) (dbl_den a * nat \<bar>dbl_num b\<bar>))"

definition dbl_fmod :: "double \<Rightarrow> double \<Rightarrow> double" where
  "dbl_fmod a b =
     (if dbl_is_nan a \<or> dbl_is_nan b \<or> dbl_is_inf a \<or> dbl_is_zero b then dbl_nan
      else if dbl_is_inf b then a
      else
        let x = nat \<bar>dbl_num a\<bar> * dbl_den b; y = nat \<bar>dbl_num b\<bar> * dbl_den a;
            r = int (x mod y)
        in dbl_round (dbl_sign a) (if dbl_sign a then - r else r) (dbl_den a * dbl_den b))"

text \<open>The comparison of the exact values; an infinity is beyond every finite number.\<close>

definition dbl_lt :: "double \<Rightarrow> double \<Rightarrow> bool" where
  "dbl_lt a b \<longleftrightarrow> \<not> dbl_is_nan a \<and> \<not> dbl_is_nan b \<and>
     (if dbl_is_inf a then dbl_sign a \<and> \<not> (dbl_is_inf b \<and> dbl_sign b)
      else if dbl_is_inf b then \<not> dbl_sign b
      else dbl_num a * int (dbl_den b) < dbl_num b * int (dbl_den a))"

definition dbl_le :: "double \<Rightarrow> double \<Rightarrow> bool" where
  "dbl_le a b \<longleftrightarrow> dbl_lt a b \<or> dbl_eq a b"

definition dbl_of_int :: "int \<Rightarrow> double" where
  "dbl_of_int i = dbl_round False i 1"

text \<open>\<^verbatim>\<open>static_cast<int64_t>\<close>: truncation; \<^const>\<open>None\<close> where the result does not fit, which is undefined in C++.\<close>

definition dbl_trunc :: "double \<Rightarrow> int" where
  "dbl_trunc d = (let n = int (fst (dbl_ratio d) div snd (dbl_ratio d)) in if dbl_sign d then - n else n)"

definition dbl_to_int :: "double \<Rightarrow> int option" where
  "dbl_to_int d =
     (if dbl_is_finite d \<and> int64_range (dbl_trunc d) then Some (dbl_trunc d) else None)"

section \<open>Encoding and decoding\<close>

lemma dbl_encode_fields:
  assumes "ex < 2048" "fr < 2 ^ 52"
  shows "dbl_sign (dbl_encode neg ex fr) = neg" "dbl_exp (dbl_encode neg ex fr) = ex" "dbl_frac (dbl_encode neg ex fr) = fr"
proof -
  let ?n = "(if neg then 2 ^ 63 else 0) + ex * 2 ^ 52 + fr"
  have lt: "ex * 2 ^ 52 + fr < 2 ^ 63"
  proof -
    have "ex * 2 ^ 52 + fr < (ex + 1) * 2 ^ 52" using assms(2) by (simp add: algebra_simps)
    also have "\<dots> \<le> 2048 * 2 ^ 52" using assms(1) by (intro mult_right_mono) auto
    finally show ?thesis by simp
  qed
  have n: "unat (dbl_encode neg ex fr) = ?n"
  proof -
    have "?n < 2 ^ 64" using lt by simp
    then have "take_bit LENGTH(64) ?n = ?n" by (intro take_bit_nat_eq_self) simp
    then show ?thesis unfolding dbl_encode_def by (simp only: unsigned_of_nat of_nat_id)
  qed
  have d52: "?n div 2 ^ 52 = (if neg then 2 ^ 11 else 0) + ex"
  proof -
    have "?n = fr + ((if neg then 2 ^ 11 else 0) + ex) * 2 ^ 52" by simp
    then show ?thesis using assms(2) by (simp only: div_mult_self1) simp
  qed
  show "dbl_sign (dbl_encode neg ex fr) = neg"
  proof -
    have "bit (dbl_encode neg ex fr) 63 = bit (unat (dbl_encode neg ex fr)) 63"
      by (simp add: bit_unsigned_iff)
    also have "\<dots> = odd (?n div 2 ^ 63)" unfolding n by (rule bit_iff_odd)
    also have "?n div 2 ^ 63 = (if neg then 1 else 0)"
      using lt by (cases neg) (simp_all add: div_nat_eqI)
    finally show ?thesis by (simp add: dbl_sign_def)
  qed
  show "dbl_exp (dbl_encode neg ex fr) = ex"
  proof -
    have "unat (drop_bit 52 (dbl_encode neg ex fr)) = (if neg then 2 ^ 11 else 0) + ex"
      unfolding unat_drop_bit_eq n by (subst drop_bit_eq_div) (rule d52)
    then show ?thesis unfolding dbl_exp_def unsigned_take_bit_eq using assms(1) by (simp add: take_bit_eq_mod)
  qed
  show "dbl_frac (dbl_encode neg ex fr) = fr"
  proof -
    have "?n = fr + ((if neg then 2 ^ 11 else 0) + ex) * 2 ^ 52" by simp
    then have "?n mod 2 ^ 52 = fr" using assms(2) by (simp only: mod_mult_self1 mod_less)
    then have "take_bit 52 (unat (dbl_encode neg ex fr)) = fr" unfolding n by (subst take_bit_eq_mod)
    then show ?thesis unfolding dbl_frac_def unsigned_take_bit_eq .
  qed
qed

section \<open>Integers are exact up to 2^53\<close>

lemma bit_length_bounds: "0 < n \<Longrightarrow> 2 ^ (bit_length n - 1) \<le> n \<and> n < 2 ^ bit_length n \<and> 0 < bit_length n"
proof (induction n rule: bit_length.induct)
  case (1 n)
  show ?case
  proof (cases "n div 2 = 0")
    case True
    with 1(2) have n: "n = 1" by auto
    show ?thesis unfolding n by (simp add: bit_length.simps)
  next
    case False
    let ?m = "n div 2"
    from 1(1)[of] 1(2) False have ih: "2 ^ (bit_length ?m - 1) \<le> ?m" "?m < 2 ^ bit_length ?m" "0 < bit_length ?m" by auto
    have b: "bit_length n = Suc (bit_length ?m)" using 1(2) by (subst bit_length.simps) simp
    have "2 * 2 ^ (bit_length ?m - 1) \<le> n" using ih(1) by linarith
    then have "2 ^ bit_length ?m \<le> n" using ih(3) by (simp flip: power_Suc)
    moreover have "n < 2 * 2 ^ bit_length ?m" using ih(2) by linarith
    ultimately show ?thesis by (simp add: b)
  qed
qed

lemma bit_length_unique:
  assumes "0 < k" "2 ^ (k - 1) \<le> n" "n < 2 ^ k"
  shows "bit_length n = k"
proof -
  have n: "0 < n" using assms(2) by (metis gr0I not_one_le_zero one_le_numeral one_le_power order.trans)
  note b = bit_length_bounds[OF n]
  have "2 ^ (k - 1) < (2::nat) ^ bit_length n" using assms(2) b by linarith
  then have "k - 1 < bit_length n" by (rule power_less_imp_less_exp[rotated]) simp
  moreover have "2 ^ (bit_length n - 1) < (2::nat) ^ k" using assms(3) b by linarith
  then have "bit_length n - 1 < k" by (rule power_less_imp_less_exp[rotated]) simp
  ultimately show ?thesis using assms(1) b by linarith
qed

lemma bit_length_shift: "0 < p \<Longrightarrow> bit_length (p * 2 ^ t) = bit_length p + t"
proof -
  assume p: "0 < p"
  note b = bit_length_bounds[OF p]
  have eq: "bit_length p + t - 1 = (bit_length p - 1) + t" using b by simp
  show ?thesis
  proof (rule bit_length_unique)
    show "2 ^ (bit_length p + t - 1) \<le> p * 2 ^ t" unfolding eq power_add using b by (intro mult_le_mono1) simp
    show "p * 2 ^ t < 2 ^ (bit_length p + t)" unfolding power_add using b by (intro mult_strict_right_mono) simp_all
  qed (use b in simp)
qed

lemma bit_length_small:
  assumes "0 < p" "p < 2 ^ 53"
  shows "0 < bit_length p" "bit_length p \<le> 53"
proof -
  note b = bit_length_bounds[OF assms(1)]
  have "2 ^ (bit_length p - 1) < (2::nat) ^ 53" using b assms(2) by linarith
  then have "bit_length p - 1 < 53" by (rule power_less_imp_less_exp[rotated]) simp
  then show "0 < bit_length p" "bit_length p \<le> 53" using b by auto
qed

text \<open>The double that represents a natural number below \<open>2 ^ 53\<close>, whatever power of two scales the ratio.\<close>

definition dbl_of_small :: "bool \<Rightarrow> nat \<Rightarrow> double" where
  "dbl_of_small neg p =
     dbl_encode neg (bit_length p + 1022) (p * 2 ^ (53 - bit_length p) - 2 ^ 52)"

lemma dbl_of_ratio_small:
  assumes "0 < p" "p < 2 ^ 53"
  shows "dbl_of_ratio neg (p * 2 ^ t) (2 ^ t) = dbl_of_small neg p"
proof -
  let ?L = "bit_length p"
  note b = bit_length_bounds[OF assms(1)]
  note L = bit_length_small[OF assms]
  let ?m = "p * 2 ^ (53 - ?L)"
  have m: "2 ^ 52 \<le> ?m" "?m < 2 ^ 53"
  proof -
    have "(2::nat) ^ 52 = 2 ^ (?L - 1) * 2 ^ (53 - ?L)" using L by (simp flip: power_add)
    also have "\<dots> \<le> ?m" using b by (intro mult_le_mono1) simp
    finally show "2 ^ 52 \<le> ?m" .
    have "?m < 2 ^ ?L * 2 ^ (53 - ?L)" using b by (intro mult_strict_right_mono) simp_all
    also have "\<dots> = 2 ^ 53" using L by (simp flip: power_add)
    finally show "?m < 2 ^ 53" .
  qed
  have bt: "bit_length (2 ^ t) = Suc t" by (rule bit_length_unique) simp_all
  have k: "int (bit_length (p * 2 ^ t)) - int (bit_length (2 ^ t)) = int ?L - 1"
    using bit_length_shift[OF assms(1), of t] bt by simp
  have sk: "scaled (p * 2 ^ t) (2 ^ t) (int ?L - 1) = (p * 2 ^ t, 2 ^ t * 2 ^ (?L - 1))"
    using L by (simp add: scaled_def nat_diff_distrib')
  have ge: "2 ^ t * 2 ^ (?L - 1) \<le> p * 2 ^ t" using b by (simp add: mult.commute)
  have e: "max (-1074) (int ?L - 1 - 52) = int ?L - 53" using L by simp
  have se: "case_prod div_round (scaled (p * 2 ^ t) (2 ^ t) (int ?L - 53)) = ?m"
  proof (cases "?L = 53")
    case True
    then show ?thesis by (simp add: scaled_def div_round_def)
  next
    case False
    then have neg: "int ?L - 53 < 0" and n: "nat (- (int ?L - 53)) = 53 - ?L" using L by auto
    have "scaled (p * 2 ^ t) (2 ^ t) (int ?L - 53) = (?m * 2 ^ t, 2 ^ t)"
      unfolding scaled_def using neg n by (simp add: ac_simps)
    then show ?thesis by (simp add: div_round_def)
  qed
  have ne0: "p * 2 ^ t \<noteq> 0" using assms(1) by simp
  have ex: "nat (int ?L - 53 + 1075) = ?L + 1022" by simp
  show ?thesis
    unfolding dbl_of_ratio_def Let_def if_not_P[OF ne0] k sk prod.case if_P[OF ge] e
    using se m L ex by (simp add: dbl_of_small_def)
qed

text \<open>A double whose value is an integer below \<open>2 ^ 53\<close> in absolute value.\<close>

definition represents :: "double \<Rightarrow> int \<Rightarrow> bool" where
  "represents d i \<longleftrightarrow> \<bar>i\<bar> < 2 ^ 53 \<and> dbl_is_finite d \<and> (i \<noteq> 0 \<longrightarrow> dbl_sign d = (i < 0)) \<and>
     (\<exists>t. dbl_ratio d = (nat \<bar>i\<bar> * 2 ^ t, 2 ^ t))"

lemma small_fields:
  assumes "0 < p" "p < 2 ^ 53"
  shows "dbl_sign (dbl_of_small neg p) = neg" "dbl_is_finite (dbl_of_small neg p)"
    "dbl_ratio (dbl_of_small neg p) = (p * 2 ^ (53 - bit_length p), 2 ^ (53 - bit_length p))"
proof -
  let ?L = "bit_length p"
  let ?m = "p * 2 ^ (53 - ?L)"
  note b = bit_length_bounds[OF assms(1)]
  note L = bit_length_small[OF assms]
  have "(2::nat) ^ 52 = 2 ^ (?L - 1) * 2 ^ (53 - ?L)" using L by (simp flip: power_add)
  also have "\<dots> \<le> ?m" using b by (intro mult_le_mono1) simp
  finally have lo: "2 ^ 52 \<le> ?m" .
  have "?m < 2 ^ ?L * 2 ^ (53 - ?L)" using b by (intro mult_strict_right_mono) simp_all
  also have "\<dots> = 2 ^ 53" using L by (simp flip: power_add)
  finally have hi: "?m - 2 ^ 52 < 2 ^ 52" by simp
  have ex: "?L + 1022 < 2048" using L by simp
  note f = dbl_encode_fields[OF ex hi, of neg, folded dbl_of_small_def]
  show "dbl_sign (dbl_of_small neg p) = neg" "dbl_is_finite (dbl_of_small neg p)"
    using f L by (simp_all add: dbl_is_finite_def)
  have mant: "dbl_mant (dbl_of_small neg p) = ?m" unfolding dbl_mant_def using f lo L by simp
  have pw: "dbl_pow (dbl_of_small neg p) = int ?L - 53" unfolding dbl_pow_def f(2) by simp
  show "dbl_ratio (dbl_of_small neg p) = (?m, 2 ^ (53 - ?L))"
  proof (cases "?L = 53")
    case True
    then show ?thesis unfolding dbl_ratio_def mant pw by simp
  next
    case False
    then have "\<not> int ?L - 53 \<ge> 0" "nat (- (int ?L - 53)) = 53 - ?L" using L by auto
    then show ?thesis unfolding dbl_ratio_def mant pw by simp
  qed
qed

lemma represents_zero: "represents (dbl_encode neg 0 0) 0"
proof -
  note f = dbl_encode_fields[of 0 0 neg]
  have "dbl_ratio (dbl_encode neg 0 0) = (0, 2 ^ 1074)"
    unfolding dbl_ratio_def dbl_pow_def dbl_mant_def using f by simp
  then have "\<exists>t. dbl_ratio (dbl_encode neg 0 0) = (nat \<bar>0\<bar> * 2 ^ t, 2 ^ t)"
    by (intro exI[of _ 1074]) (simp only: abs_zero nat_0 mult_0)
  then show ?thesis unfolding represents_def dbl_is_finite_def using f by simp
qed

lemma represents_round:
  assumes "\<bar>i\<bar> < 2 ^ 53"
  shows "represents (dbl_round z (i * 2 ^ t) (2 ^ t)) i"
proof (cases "i = 0")
  case True
  then show ?thesis by (simp add: dbl_round_def represents_zero)
next
  case False
  have p: "0 < nat \<bar>i\<bar>" "nat \<bar>i\<bar> < 2 ^ 53" using False assms by auto
  have n: "nat \<bar>i * 2 ^ t\<bar> = nat \<bar>i\<bar> * 2 ^ t" by (simp add: abs_mult nat_mult_distrib nat_power_eq)
  have s: "i * 2 ^ t < 0 \<longleftrightarrow> i < 0" by (simp add: mult_less_0_iff)
  have "dbl_round z (i * 2 ^ t) (2 ^ t) = dbl_of_small (i < 0) (nat \<bar>i\<bar>)"
    using False unfolding dbl_round_def n s dbl_of_ratio_small[OF p] by simp
  with small_fields[OF p, of "i < 0"] assms show ?thesis unfolding represents_def by auto
qed

lemma represents_of_int: "\<bar>i\<bar> < 2 ^ 53 \<Longrightarrow> represents (dbl_of_int i) i"
  using represents_round[of i False 0] by (simp add: dbl_of_int_def)

lemma representsD:
  assumes "represents d i"
  shows "\<not> dbl_is_nan d" "\<not> dbl_is_inf d" "dbl_is_finite d" "\<bar>i\<bar> < 2 ^ 53"
  using assms by (auto simp: represents_def dbl_is_finite_def dbl_is_nan_def dbl_is_inf_def)

lemma represents_num:
  assumes "represents d i"
  obtains t where "dbl_num d = i * 2 ^ t" "dbl_den d = 2 ^ t"
proof -
  from assms obtain t where t: "dbl_ratio d = (nat \<bar>i\<bar> * 2 ^ t, 2 ^ t)" by (auto simp: represents_def)
  have "dbl_num d = i * 2 ^ t" using assms t by (auto simp: represents_def dbl_num_def split: if_splits)
  with t that show ?thesis by (simp add: dbl_den_def)
qed

lemma represents_add:
  assumes "represents a i" "represents b j" "\<bar>i + j\<bar> < 2 ^ 53"
  shows "represents (dbl_add a b) (i + j)"
proof -
  obtain t where t: "dbl_num a = i * 2 ^ t" "dbl_den a = 2 ^ t" using represents_num[OF assms(1)] .
  obtain u where u: "dbl_num b = j * 2 ^ u" "dbl_den b = 2 ^ u" using represents_num[OF assms(2)] .
  have "dbl_num a * int (dbl_den b) + dbl_num b * int (dbl_den a) = (i + j) * 2 ^ (t + u)"
    unfolding t u by (simp add: algebra_simps power_add)
  moreover have "dbl_den a * dbl_den b = 2 ^ (t + u)" unfolding t u by (simp add: power_add)
  ultimately show ?thesis
    using representsD[OF assms(1)] representsD[OF assms(2)] represents_round[OF assms(3)]
    by (simp add: dbl_add_def)
qed

lemma represents_mul:
  assumes "represents a i" "represents b j" "\<bar>i * j\<bar> < 2 ^ 53"
  shows "represents (dbl_mul a b) (i * j)"
proof -
  obtain t where t: "dbl_num a = i * 2 ^ t" "dbl_den a = 2 ^ t" using represents_num[OF assms(1)] .
  obtain u where u: "dbl_num b = j * 2 ^ u" "dbl_den b = 2 ^ u" using represents_num[OF assms(2)] .
  have "dbl_num a * dbl_num b = (i * j) * 2 ^ (t + u)" "dbl_den a * dbl_den b = 2 ^ (t + u)"
    unfolding t u by (simp_all add: algebra_simps power_add)
  then show ?thesis
    using representsD[OF assms(1)] representsD[OF assms(2)] represents_round[OF assms(3)]
    by (simp add: dbl_mul_def Let_def)
qed

lemma dbl_neg_fields:
  "dbl_sign (dbl_neg d) = (\<not> dbl_sign d)" "dbl_exp (dbl_neg d) = dbl_exp d" "dbl_frac (dbl_neg d) = dbl_frac d"
proof -
  show "dbl_sign (dbl_neg d) = (\<not> dbl_sign d)" by (simp add: dbl_sign_def dbl_neg_def bit_simps)
  have "take_bit 11 (drop_bit 52 (dbl_neg d)) = take_bit 11 (drop_bit 52 d)"
    by (rule bit_eqI) (auto simp: dbl_neg_def bit_simps)
  then show "dbl_exp (dbl_neg d) = dbl_exp d" by (simp add: dbl_exp_def)
  have "take_bit 52 (dbl_neg d) = take_bit 52 d"
    by (rule bit_eqI) (auto simp: dbl_neg_def bit_simps)
  then show "dbl_frac (dbl_neg d) = dbl_frac d" by (simp add: dbl_frac_def)
qed

lemma represents_neg: "represents d i \<Longrightarrow> represents (dbl_neg d) (- i)"
  by (auto simp: represents_def dbl_is_finite_def dbl_ratio_def dbl_pow_def dbl_mant_def dbl_neg_fields)

lemma represents_sub:
  assumes "represents a i" "represents b j" "\<bar>i - j\<bar> < 2 ^ 53"
  shows "represents (dbl_sub a b) (i - j)"
  using represents_add[OF assms(1) represents_neg[OF assms(2)]] assms(3) representsD(1)[OF assms(2)]
  by (simp add: dbl_sub_def)

lemma dbl_to_int_represents:
  assumes "represents d i"
  shows "dbl_to_int d = Some i"
proof -
  obtain t where t: "dbl_ratio d = (nat \<bar>i\<bar> * 2 ^ t, 2 ^ t)" using assms by (auto simp: represents_def)
  have "dbl_trunc d = i" using assms t by (auto simp: dbl_trunc_def represents_def Let_def)
  moreover have "int64_range i" using representsD(4)[OF assms] by (auto simp: int64_range_def)
  ultimately show ?thesis using representsD(3)[OF assms] by (simp add: dbl_to_int_def)
qed

lemma dbl_lt_represents:
  assumes "represents a i" "represents b j"
  shows "dbl_lt a b \<longleftrightarrow> i < j"
proof -
  obtain t where t: "dbl_num a = i * 2 ^ t" "dbl_den a = 2 ^ t" using represents_num[OF assms(1)] .
  obtain u where u: "dbl_num b = j * 2 ^ u" "dbl_den b = 2 ^ u" using represents_num[OF assms(2)] .
  have "dbl_num a * int (dbl_den b) < dbl_num b * int (dbl_den a) \<longleftrightarrow> i * 2 ^ (t + u) < j * 2 ^ (t + u)"
    unfolding t u by (simp add: power_add ac_simps)
  then show ?thesis
    using representsD[OF assms(1)] representsD[OF assms(2)] by (simp add: dbl_lt_def)
qed

lemma represents_is_zero:
  assumes "represents d i"
  shows "dbl_is_zero d \<longleftrightarrow> i = 0"
proof -
  obtain t where t: "dbl_ratio d = (nat \<bar>i\<bar> * 2 ^ t, 2 ^ t)" using assms by (auto simp: represents_def)
  have "fst (dbl_ratio d) = 0 \<longleftrightarrow> dbl_mant d = 0" by (simp add: dbl_ratio_def)
  moreover have "dbl_mant d = 0 \<longleftrightarrow> dbl_is_zero d" by (auto simp: dbl_mant_def dbl_is_zero_def)
  ultimately show ?thesis using t by auto
qed

text \<open>The remainder takes the sign of the dividend, as \<^verbatim>\<open>%\<close> does on integers.\<close>

definition c_mod :: "int \<Rightarrow> int \<Rightarrow> int" where
  "c_mod i j = sgn i * (\<bar>i\<bar> mod \<bar>j\<bar>)"

definition c_div :: "int \<Rightarrow> int \<Rightarrow> int" where
  "c_div i j = sgn i * sgn j * (\<bar>i\<bar> div \<bar>j\<bar>)"

lemma represents_fmod:
  assumes "represents a i" "represents b j" "j \<noteq> 0"
  shows "represents (dbl_fmod a b) (c_mod i j)"
proof -
  obtain t where t: "dbl_num a = i * 2 ^ t" "dbl_den a = 2 ^ t" using represents_num[OF assms(1)] .
  obtain u where u: "dbl_num b = j * 2 ^ u" "dbl_den b = 2 ^ u" using represents_num[OF assms(2)] .
  let ?x = "nat \<bar>dbl_num a\<bar> * dbl_den b" and ?y = "nat \<bar>dbl_num b\<bar> * dbl_den a"
  have "?x = nat \<bar>i\<bar> * 2 ^ (t + u)" "?y = nat \<bar>j\<bar> * 2 ^ (t + u)"
    unfolding t u by (simp_all add: abs_mult nat_mult_distrib nat_power_eq power_add)
  then have r: "int (?x mod ?y) = (\<bar>i\<bar> mod \<bar>j\<bar>) * 2 ^ (t + u)"
    by (simp add: mod_mult_mult2 zmod_int)
  have sg: "(if dbl_sign a then - int (?x mod ?y) else int (?x mod ?y)) = c_mod i j * 2 ^ (t + u)"
    unfolding r using assms(1) by (auto simp: represents_def c_mod_def sgn_if)
  have den: "dbl_den a * dbl_den b = 2 ^ (t + u)" unfolding t u by (simp add: power_add)
  have "0 \<le> \<bar>i\<bar> mod \<bar>j\<bar>" "\<bar>i\<bar> mod \<bar>j\<bar> \<le> \<bar>i\<bar>" using assms(3) by (simp_all add: zmod_le_nonneg_dividend)
  then have "\<bar>c_mod i j\<bar> \<le> \<bar>i\<bar>" unfolding c_mod_def by (auto simp: abs_mult sgn_if)
  then have "\<bar>c_mod i j\<bar> < 2 ^ 53" using representsD(4)[OF assms(1)] by linarith
  from represents_round[OF this] show ?thesis
    unfolding dbl_fmod_def Let_def sg den
    using representsD[OF assms(1)] representsD[OF assms(2)] represents_is_zero[OF assms(2)] assms(3) by simp
qed

section \<open>Truncated division\<close>

lemma scaled_ge:
  assumes "x \<le> 52"
  shows "(case scaled p q x of (a, b) \<Rightarrow> b \<le> a) \<longleftrightarrow> q * 2 ^ 52 \<le> p * 2 ^ nat (52 - x)"
proof (cases "0 \<le> x")
  case True
  then have split: "(2::nat) ^ 52 = 2 ^ nat x * 2 ^ nat (52 - x)"
    using assms by (simp flip: power_add nat_add_distrib)
  have "q * 2 ^ 52 \<le> p * 2 ^ nat (52 - x) \<longleftrightarrow> (q * 2 ^ nat x) * 2 ^ nat (52 - x) \<le> p * 2 ^ nat (52 - x)"
    unfolding split by (simp only: mult.assoc)
  also have "\<dots> \<longleftrightarrow> q * 2 ^ nat x \<le> p" by simp
  finally show ?thesis using True by (simp add: scaled_def)
next
  case False
  then have split: "(2::nat) ^ nat (52 - x) = 2 ^ nat (- x) * 2 ^ 52" 
  proof -
    have "nat (52 - x) = nat (- x) + 52" using False by simp
    then show ?thesis by (simp only: power_add)
  qed
  have "q * 2 ^ 52 \<le> p * 2 ^ nat (52 - x) \<longleftrightarrow> q * 2 ^ 52 \<le> (p * 2 ^ nat (- x)) * 2 ^ 52"
    unfolding split by (simp only: mult.assoc)
  also have "\<dots> \<longleftrightarrow> q \<le> p * 2 ^ nat (- x)" by simp
  finally show ?thesis using False by (simp add: scaled_def)
qed

lemma div_round_bounds:
  assumes "0 < q"
  shows "X div q \<le> div_round X q" "div_round X q \<le> X div q + 1" "2 * (X mod q) < q \<Longrightarrow> div_round X q = X div q"
  by (auto simp: div_round_def Let_def)

text \<open>Rounding to 53 bits never carries a quotient of small numbers over the next integer.\<close>

lemma round_keeps_floor:
  assumes q: "0 < q" "q < 2 * 2 ^ s"
  shows "div_round (p * 2 ^ s) q div 2 ^ s = p div q"
proof -
  let ?X = "p * 2 ^ s" and ?n = "p div q" and ?m = "div_round (p * 2 ^ s) q"
  let ?N = "(?n + 1) * 2 ^ s"
  note b = div_round_bounds[OF q(1), of ?X]
  have "?n * 2 ^ s \<le> ?X div q"
  proof -
    have "?n * 2 ^ s * q = ?n * q * 2 ^ s" by simp
    also have "\<dots> \<le> p * 2 ^ s" by (intro mult_le_mono1) simp
    finally show ?thesis using q(1) by (simp add: less_eq_div_iff_mult_less_eq)
  qed
  with b(1) have lo: "?n * 2 ^ s \<le> ?m" by linarith
  have "p + 1 \<le> (?n + 1) * q" using q(1) by (metis Suc_eq_plus1 Suc_leI dividend_less_div_times mult_Suc add.commute mult.commute)
  then have "(p + 1) * 2 ^ s \<le> (?n + 1) * q * 2 ^ s" by (rule mult_le_mono1)
  then have X: "?X + 2 ^ s \<le> ?N * q" by (simp add: algebra_simps)
  have hi: "?m < ?N"
  proof (cases "?X div q + 1 < ?N")
    case True
    with b(2) show ?thesis by linarith
  next
    case False
    have "?X < ?N * q" using X zero_less_power[of "2::nat" s] by linarith
    then have "?X div q < ?N" using q(1) by (simp add: div_less_iff_less_mult)
    with False have d: "?X div q = ?N - 1" and N: "0 < ?N" by auto
    obtain M where M: "?N = Suc M" using N by (cases ?N) auto
    have "?X = M * q + ?X mod q" using d M by (metis diff_Suc_1 div_mult_mod_eq)
    moreover have "?N * q = M * q + q" unfolding M by simp
    ultimately have "?X mod q + 2 ^ s \<le> q" using X by linarith
    then have "2 * (?X mod q) < q" using q(2) by linarith
    from b(3)[OF this] d N show ?thesis by linarith
  qed
  show ?thesis
  proof (rule div_nat_eqI)
    show "2 ^ s * (p div q) \<le> ?m" using lo by (simp add: mult.commute)
    show "?m < 2 ^ s * Suc (p div q)" using hi by (simp add: mult.commute)
  qed
qed

lemma decode_normal:
  assumes "2 ^ 52 \<le> m" "m < 2 ^ 53" "-105 \<le> e" "e \<le> 1"
  shows "dbl_sign (dbl_encode neg (nat (e + 1075)) (m - 2 ^ 52)) = neg"
    "dbl_is_finite (dbl_encode neg (nat (e + 1075)) (m - 2 ^ 52))"
    "dbl_ratio (dbl_encode neg (nat (e + 1075)) (m - 2 ^ 52)) =
       (if 0 \<le> e then (m * 2 ^ nat e, 1) else (m, 2 ^ nat (- e)))"
proof -
  let ?d = "dbl_encode neg (nat (e + 1075)) (m - 2 ^ 52)"
  have ex: "nat (e + 1075) < 2048" "nat (e + 1075) \<noteq> 0" "nat (e + 1075) \<noteq> 2047" using assms(3,4) by auto
  have fr: "m - 2 ^ 52 < 2 ^ 52" using assms(1,2) by simp
  note f = dbl_encode_fields[OF ex(1) fr, of neg]
  show "dbl_sign ?d = neg" "dbl_is_finite ?d" using f ex by (simp_all add: dbl_is_finite_def)
  have "dbl_mant ?d = m" unfolding dbl_mant_def f using ex assms(1) by simp
  moreover have "dbl_pow ?d = e" unfolding dbl_pow_def f using assms(3,4) by simp
  ultimately show "dbl_ratio ?d = (if 0 \<le> e then (m * 2 ^ nat e, 1) else (m, 2 ^ nat (- e)))"
    by (simp add: dbl_ratio_def)
qed

text \<open>The binary logarithm that the encoder finds brackets the ratio.\<close>

lemma ratio_log:
  assumes p: "0 < p" "p < 2 ^ 53" and q: "0 < q" "q < 2 ^ 53"
  defines "k \<equiv> int (bit_length p) - int (bit_length q)"
  defines "lg \<equiv> (case scaled p q k of (a, b) \<Rightarrow> if b \<le> a then k else k - 1)"
  shows "- 53 \<le> lg" "lg \<le> 52" "q * 2 ^ 52 \<le> p * 2 ^ nat (52 - lg)" "p * 2 ^ nat (52 - lg) < q * 2 ^ 53"
proof -
  let ?P = "bit_length p" and ?Q = "bit_length q"
  note bp = bit_length_bounds[OF p(1)] and bq = bit_length_bounds[OF q(1)]
  note r = bit_length_small[OF p] bit_length_small[OF q]
  have k: "k \<le> 52" "-52 \<le> k" using r by (auto simp: k_def)
  have lg: "lg = (if q * 2 ^ 52 \<le> p * 2 ^ nat (52 - k) then k else k - 1)"
    unfolding lg_def using scaled_ge[OF k(1), of p q] by (auto split: prod.splits)
  show "- 53 \<le> lg" "lg \<le> 52" using k lg by auto
  have "q * 2 ^ 52 \<le> p * 2 ^ nat (52 - lg) \<and> p * 2 ^ nat (52 - lg) < q * 2 ^ 53"
  proof (cases "q * 2 ^ 52 \<le> p * 2 ^ nat (52 - k)")
    case True
    have s: "?P + nat (52 - k) = (?Q - 1) + 53" using r k by (auto simp: k_def)
    have "p * 2 ^ nat (52 - k) < 2 ^ ?P * 2 ^ nat (52 - k)" using bp by (intro mult_strict_right_mono) auto
    also have "\<dots> = 2 ^ (?Q - 1) * 2 ^ 53" by (simp only: s flip: power_add)
    also have "\<dots> \<le> q * 2 ^ 53" using bq by (intro mult_le_mono1) auto
    finally show ?thesis using True lg by simp
  next
    case False
    then have lg': "lg = k - 1" using lg by simp
    have n: "nat (52 - lg) = Suc (nat (52 - k))" using k lg' by simp
    have s: "(?P - 1) + nat (52 - lg) = ?Q + 52" using r k by (auto simp: k_def lg')
    have "q * 2 ^ 52 \<le> 2 ^ ?Q * 2 ^ 52" using bq by (intro mult_le_mono1) auto
    also have "\<dots> = 2 ^ (?P - 1) * 2 ^ nat (52 - lg)" by (simp only: s flip: power_add)
    also have "\<dots> \<le> p * 2 ^ nat (52 - lg)" using bp by (intro mult_le_mono1) auto
    finally have "q * 2 ^ 52 \<le> p * 2 ^ nat (52 - lg)" .
    moreover have "p * 2 ^ nat (52 - lg) < q * 2 ^ 53" using False n by simp
    ultimately show ?thesis by blast
  qed
  then show "q * 2 ^ 52 \<le> p * 2 ^ nat (52 - lg)" "p * 2 ^ nat (52 - lg) < q * 2 ^ 53" by blast+
qed

lemma dbl_of_ratio_floor:
  assumes p: "0 < p" "p < 2 ^ 53" and q: "0 < q" "q < 2 ^ 53"
  shows "dbl_sign (dbl_of_ratio neg p q) = neg" "dbl_is_finite (dbl_of_ratio neg p q)"
    "fst (dbl_ratio (dbl_of_ratio neg p q)) div snd (dbl_ratio (dbl_of_ratio neg p q)) = p div q"
proof -
  define k where "k = int (bit_length p) - int (bit_length q)"
  define lg where "lg = (case scaled p q k of (a, b) \<Rightarrow> if b \<le> a then k else k - 1)"
  note l = ratio_log[OF p q, folded k_def, folded lg_def]
  define s where "s = nat (52 - lg)"
  define m where "m = div_round (p * 2 ^ s) q"
  have e: "max (-1074) (lg - 52) = - int s" using l(1,2) by (simp add: s_def)
  have sc: "scaled p q (- int s) = (p * 2 ^ s, q)" by (simp add: scaled_def)
  have s: "s \<le> 105" using l(1) by (simp add: s_def)
  note b = div_round_bounds[OF q(1), of "p * 2 ^ s"]
  have "2 ^ 52 \<le> p * 2 ^ s div q" using l(3) q(1) by (simp add: s_def less_eq_div_iff_mult_less_eq mult.commute)
  then have lo: "2 ^ 52 \<le> m" using b(1) by (simp add: m_def)
  have "p * 2 ^ s div q < 2 ^ 53" using l(4) q(1) by (simp add: s_def div_less_iff_less_mult mult.commute)
  then have hi: "m \<le> 2 ^ 53" using b(2) unfolding m_def by linarith
  have "p * 2 ^ s < 2 ^ 53 * 2 ^ s" using p(2) by (intro mult_strict_right_mono) simp_all
  then have "q * 2 ^ 52 < 2 ^ 53 * 2 ^ s" using l(3) unfolding s_def by linarith
  then have qs: "q < 2 * 2 ^ s" by simp
  have fl: "m div 2 ^ s = p div q" unfolding m_def by (rule round_keeps_floor[OF q(1) qs])
  let ?m = "if m = 2 ^ 53 then 2 ^ 52 else m" and ?e = "if m = 2 ^ 53 then - int s + 1 else - int s"
  have d: "dbl_of_ratio neg p q = dbl_encode neg (nat (?e + 1075)) (?m - 2 ^ 52)"
    unfolding dbl_of_ratio_def Let_def k_def[symmetric] lg_def[symmetric] e sc prod.case m_def[symmetric]
    using p(1) lo by (simp split: if_splits)
  have m: "2 ^ 52 \<le> ?m" "?m < 2 ^ 53" "-105 \<le> ?e" "?e \<le> 1" using lo hi s by auto
  note dec = decode_normal[OF m, of neg, folded d]
  show "dbl_sign (dbl_of_ratio neg p q) = neg" "dbl_is_finite (dbl_of_ratio neg p q)" using dec(1,2) .
  have "fst (dbl_ratio (dbl_of_ratio neg p q)) div snd (dbl_ratio (dbl_of_ratio neg p q)) = m div 2 ^ s"
  proof (cases "m = 2 ^ 53")
    case True
    show ?thesis
    proof (cases s)
      case 0
      then show ?thesis unfolding dec(3) using True by simp
    next
      case (Suc s')
      have "(2::nat) ^ 53 div 2 ^ Suc s' = 2 ^ 52 div 2 ^ s'" by (simp add: div_mult2_eq)
      moreover have "nat (- (- int (Suc s') + 1)) = s'" by simp
      ultimately show ?thesis unfolding dec(3) True Suc by (cases "s' = 0") (simp_all only: if_True if_False refl, simp_all)
    qed
  next
    case False
    then show ?thesis unfolding dec(3) by (cases "s = 0") auto
  qed
  then show "fst (dbl_ratio (dbl_of_ratio neg p q)) div snd (dbl_ratio (dbl_of_ratio neg p q)) = p div q"
    using fl by simp
qed


lemma div_round_scale: "0 < c \<Longrightarrow> div_round (X * c) (q * c) = div_round X q"
proof -
  assume c: "0 < c"
  have "2 * (X mod q * c) < q * c \<longleftrightarrow> 2 * (X mod q) < q" "q * c < 2 * (X mod q * c) \<longleftrightarrow> q < 2 * (X mod q)"
    using c by (simp_all only: mult.assoc[symmetric] mult_less_cancel2 simp_thms)
  with c show ?thesis by (simp add: div_round_def Let_def mod_mult_mult2)
qed

lemma dbl_of_ratio_scale:
  assumes "0 < p" "0 < q"
  shows "dbl_of_ratio neg (p * 2 ^ c) (q * 2 ^ c) = dbl_of_ratio neg p q"
proof -
  have k: "int (bit_length (p * 2 ^ c)) - int (bit_length (q * 2 ^ c)) = int (bit_length p) - int (bit_length q)"
    by (simp add: bit_length_shift assms)
  have sc: "scaled (p * 2 ^ c) (q * 2 ^ c) x = (case scaled p q x of (a, b) \<Rightarrow> (a * 2 ^ c, b * 2 ^ c))" for x
    by (simp add: scaled_def ac_simps)
  have le: "(case (case scaled p q x of (a, b) \<Rightarrow> (a * 2 ^ c, b * 2 ^ c)) of (a, b) \<Rightarrow> if b \<le> a then y else z) =
      (case scaled p q x of (a, b) \<Rightarrow> if b \<le> a then y else z)" for x and y z :: int
    by (simp split: prod.splits)
  have dr: "(case (case scaled p q x of (a, b) \<Rightarrow> (a * 2 ^ c, b * 2 ^ c)) of (a, b) \<Rightarrow> div_round a b) =
      (case scaled p q x of (a, b) \<Rightarrow> div_round a b)" for x
    by (simp add: div_round_scale split: prod.splits)
  have z: "p * 2 ^ c = 0 \<longleftrightarrow> p = 0" by simp
  show ?thesis
    unfolding dbl_of_ratio_def k sc le dr z ..
qed

lemma dbl_div_represents:
  assumes a: "represents a i" and b: "represents b j" and j: "j \<noteq> 0"
  shows "dbl_to_int (dbl_div a b) = Some (c_div i j)"
proof -
  obtain t where t: "dbl_num a = i * 2 ^ t" "dbl_den a = 2 ^ t" using represents_num[OF a] .
  obtain u where u: "dbl_num b = j * 2 ^ u" "dbl_den b = 2 ^ u" using represents_num[OF b] .
  let ?neg = "dbl_sign a \<noteq> dbl_sign b"
  have num: "dbl_num a * int (dbl_den b) * sgn (dbl_num b) = (i * sgn j) * 2 ^ (t + u)"
    unfolding t u by (simp add: power_add sgn_mult)
  have den: "dbl_den a * nat \<bar>dbl_num b\<bar> = nat \<bar>j\<bar> * 2 ^ (t + u)"
    unfolding t u by (simp add: power_add abs_mult nat_mult_distrib nat_power_eq)
  have d: "dbl_div a b = dbl_round ?neg ((i * sgn j) * 2 ^ (t + u)) (nat \<bar>j\<bar> * 2 ^ (t + u))"
    unfolding dbl_div_def Let_def num den
    using representsD[OF a] representsD[OF b] represents_is_zero[OF b] j by simp
  show ?thesis
  proof (cases "i = 0")
    case True
    then have "represents (dbl_div a b) 0" unfolding d by (simp add: dbl_round_def represents_zero)
    from dbl_to_int_represents[OF this] show ?thesis using True by (simp add: c_div_def)
  next
    case False
    let ?p = "nat \<bar>i\<bar>" and ?q = "nat \<bar>j\<bar>" and ?s = "i * sgn j < 0"
    have pq: "0 < ?p" "?p < 2 ^ 53" "0 < ?q" "?q < 2 ^ 53"
      using False j representsD(4)[OF a] representsD(4)[OF b] by auto
    have n: "nat \<bar>(i * sgn j) * 2 ^ (t + u)\<bar> = ?p * 2 ^ (t + u)"
      using j by (simp add: abs_mult abs_sgn_eq nat_mult_distrib nat_power_eq)
    have sg: "(i * sgn j) * 2 ^ (t + u) < 0 \<longleftrightarrow> ?s" by (simp add: mult_less_0_iff)
    have dd: "dbl_div a b = dbl_of_ratio ?s ?p ?q"
      unfolding d dbl_round_def n sg dbl_of_ratio_scale[OF pq(1,3)] using False j by (simp add: sgn_0_0)
    note f = dbl_of_ratio_floor[OF pq, of ?s, folded dd]
    have fl: "int (?p div ?q) = \<bar>i\<bar> div \<bar>j\<bar>" by (simp add: zdiv_int)
    then have tr: "dbl_trunc (dbl_div a b) = c_div i j"
      unfolding dbl_trunc_def Let_def f(1,3) using False j by (auto simp: c_div_def sgn_if)
    have "\<bar>i\<bar> div \<bar>j\<bar> \<le> \<bar>i\<bar>" "0 \<le> \<bar>i\<bar> div \<bar>j\<bar>"
      using fl div_le_dividend[of ?p ?q] by linarith+
    then have "\<bar>c_div i j\<bar> < 2 ^ 53" using representsD(4)[OF a] False j by (auto simp: c_div_def abs_mult sgn_if)
    then have "int64_range (c_div i j)" by (auto simp: int64_range_def)
    then show ?thesis using tr f(2) by (simp add: dbl_to_int_def)
  qed
qed

end
