(* ===== verification/Lpc_Object.thy ===== *)
theory Lpc_Object
  imports Lpc_Value
begin

text \<open>
  The in-memory object of \<^verbatim>\<open>include/kjdmud/object/LpcObject.hpp\<close> and \<^verbatim>\<open>src/object/LpcObject.cpp\<close>,
  and the heap that weak and shared pointers point into. A \<^verbatim>\<open>std::weak_ptr\<close> or
  \<^verbatim>\<open>std::shared_ptr\<close> to an object is an optional reference; \<^verbatim>\<open>lock()\<close> gives null exactly when
  the object has left the heap. Times of \<^verbatim>\<open>steady_clock\<close> are integers in nanoseconds.
\<close>

named_theorems obj_simps \<open>field reads after the operations of one object\<close>

section \<open>Objects\<close>

text \<open>The two low bits of \<^verbatim>\<open>add_action\<close>'s flag, kept as the number the code stores.\<close>

record ActionEntry =
  aeVerb :: string
  aeFunction :: string
  aeOwner :: "ref option"
  aeFlag :: int

text \<open>
  The data members of \<^verbatim>\<open>LpcObject\<close>. The program is a reference: compiled programs live in the
  object manager.
\<close>

record lpc_object =
  filename :: string
  program :: nat
  replacedProgramName :: "string option"
  variables :: "lvalue list"
  heartbeatInterval :: int
  environment :: "ref option"
  inventory :: "ref list"
  commandsEnabled :: bool
  destructed :: bool
  everInteractive :: bool
  hidden :: bool
  notifyDestruct :: bool
  isWizard :: bool
  actions :: "ActionEntry list"
  privs :: "string option"
  uid :: "string option"
  euid :: "string option"
  livingName :: string
  shadowedBy :: "ref option"
  shadowing :: "ref option"
  snoopedBy :: "ref option"
  snooping :: "ref option"
  isVirtual :: bool
  totalLight :: int
  hasParseInfo :: bool
  parseInfoFlags :: int
  parseNounIds :: "string list"
  parsePluralIds :: "string list"
  parseAdjIds :: "string list"
  resetState :: bool
  willCleanUp :: bool
  isClone :: bool
  timeReset :: int
  timeOfRef :: int

type_synonym heap = "ref \<rightharpoonup> lpc_object"

definition nsPerSec :: int where
  "nsPerSec = 1000000000"

definition timePointMax :: int where
  "timePointMax = 2 ^ 63 - 1"

text \<open>
  The constructor: every object variable starts as the dialect's default (the undefined zero under
  FluffOS, plain 0 under LDMud), and the reference time is the time of construction.
\<close>

definition newLpcObject :: "string \<Rightarrow> nat \<Rightarrow> nat \<Rightarrow> bool \<Rightarrow> int \<Rightarrow> lpc_object" where
  "newLpcObject file prog nVars fluffosDialect now =
    \<lparr>filename = file, program = prog, replacedProgramName = None,
     variables = replicate nVars (if fluffosDialect then makeUndefinedNumber else mkValue (VInt 0)),
     heartbeatInterval = 0, environment = None, inventory = [], commandsEnabled = False,
     destructed = False, everInteractive = False, hidden = False, notifyDestruct = False,
     isWizard = False, actions = [], privs = None, uid = None, euid = None, livingName = '''',
     shadowedBy = None, shadowing = None, snoopedBy = None, snooping = None, isVirtual = False,
     totalLight = 0, hasParseInfo = False, parseInfoFlags = 0, parseNounIds = [],
     parsePluralIds = [], parseAdjIds = [], resetState = False, willCleanUp = False,
     isClone = False, timeReset = 0, timeOfRef = now\<rparr>"

definition hasHeartbeat :: "lpc_object \<Rightarrow> bool" where
  "hasHeartbeat ob \<longleftrightarrow> heartbeatInterval ob \<noteq> 0"

section \<open>Weak pointers\<close>

definition lock :: "heap \<Rightarrow> ref option \<Rightarrow> ref option" where
  "lock h w = (case w of None \<Rightarrow> None | Some r \<Rightarrow> if h r = None then None else Some r)"

definition updObj :: "ref \<Rightarrow> (lpc_object \<Rightarrow> lpc_object) \<Rightarrow> heap \<Rightarrow> heap" where
  "updObj r f h = (case h r of None \<Rightarrow> h | Some ob \<Rightarrow> h(r \<mapsto> f ob))"

lemma lock_simps [simp]:
  "lock h None = None"
  "h r = Some ob \<Longrightarrow> lock h (Some r) = Some r"
  "h r = None \<Longrightarrow> lock h (Some r) = None"
  by (simp_all add: lock_def)

lemma lock_Some_iff: "lock h w = Some r \<longleftrightarrow> w = Some r \<and> r \<in> dom h"
  by (auto simp: lock_def split: option.splits if_splits)

lemma lock_eq_Some: "r \<in> dom h \<Longrightarrow> lock h (Some r') = Some r \<longleftrightarrow> r' = r"
  by (auto simp: lock_Some_iff)

lemma dom_updObj [simp]: "dom (updObj r f h) = dom h"
  by (auto simp: updObj_def split: option.splits)

lemma updObj_same [simp]: "h r = Some ob \<Longrightarrow> updObj r f h r = Some (f ob)"
  by (simp add: updObj_def)

lemma updObj_other [simp]: "r \<noteq> s \<Longrightarrow> updObj r f h s = h s"
  by (simp add: updObj_def split: option.splits)

lemma lock_updObj [simp]: "lock (updObj r f h) w = lock h w"
  by (auto simp: lock_def updObj_def split: option.splits)

section \<open>Actions\<close>

definition addAction :: "ActionEntry \<Rightarrow> lpc_object \<Rightarrow> lpc_object" where
  "addAction e ob = ob\<lparr>actions := e # actions ob\<rparr>"

text \<open>The first entry with this owner, function and verb is erased; the result says whether there was one.\<close>

fun eraseFirst :: "('a \<Rightarrow> bool) \<Rightarrow> 'a list \<Rightarrow> bool \<times> 'a list" where
  "eraseFirst P [] = (False, [])"
| "eraseFirst P (x # xs) =
     (if P x then (True, xs) else (let (found, ys) = eraseFirst P xs in (found, x # ys)))"

definition removeAction :: "heap \<Rightarrow> ref option \<Rightarrow> string \<Rightarrow> string \<Rightarrow> lpc_object \<Rightarrow> bool \<times> lpc_object" where
  "removeAction h owner fn verb ob =
     (let (found, as) = eraseFirst
            (\<lambda>e. lock h (aeOwner e) = owner \<and> aeFunction e = fn \<and> aeVerb e = verb) (actions ob)
      in (found, ob\<lparr>actions := as\<rparr>))"

section \<open>Reset and reference times\<close>

text \<open>
  \<^verbatim>\<open>armReset\<close>: half the reset time plus a random share of the other half, in whole seconds. The
  random number is an argument, taken into the range of the distribution.
\<close>

definition armReset :: "int \<Rightarrow> int \<Rightarrow> nat \<Rightarrow> lpc_object \<Rightarrow> lpc_object" where
  "armReset now timeToReset rnd ob =
     (let half = timeToReset div 2;
          jitter = (if half > 0 then int rnd mod half else 0)
      in ob\<lparr>timeReset := now + (half + jitter) * nsPerSec, resetState := True\<rparr>)"

definition disableReset :: "lpc_object \<Rightarrow> lpc_object" where
  "disableReset ob = ob\<lparr>timeReset := timePointMax\<rparr>"

definition touchTimeOfRef :: "int \<Rightarrow> lpc_object \<Rightarrow> lpc_object" where
  "touchTimeOfRef now ob = ob\<lparr>timeOfRef := now\<rparr>"

section \<open>Lemmas\<close>

lemma eraseFirst_filter:
  "fst (eraseFirst P xs) = (\<exists>x\<in>set xs. P x) \<and>
   (\<not> fst (eraseFirst P xs) \<longrightarrow> snd (eraseFirst P xs) = xs) \<and>
   (fst (eraseFirst P xs) \<longrightarrow> length (snd (eraseFirst P xs)) + 1 = length xs)"
  by (induction xs) (auto split: prod.splits)

lemma eraseFirst_split:
  assumes "\<forall>x\<in>set xs. \<not> P x" and "P y"
  shows "eraseFirst P (xs @ y # ys) = (True, xs @ ys)"
  using assms by (induction xs) auto

lemma eraseFirst_none: "\<forall>x\<in>set xs. \<not> P x \<Longrightarrow> eraseFirst P xs = (False, xs)"
  by (induction xs) auto

lemma armReset_window:
  assumes "0 < t div 2"
  shows "now + (t div 2) * nsPerSec \<le> timeReset (armReset now t rnd ob)"
    and "timeReset (armReset now t rnd ob) < now + 2 * (t div 2) * nsPerSec"
proof -
  have "0 \<le> int rnd mod (t div 2)" "int rnd mod (t div 2) < t div 2" using assms by simp_all
  then show "now + (t div 2) * nsPerSec \<le> timeReset (armReset now t rnd ob)"
    and "timeReset (armReset now t rnd ob) < now + 2 * (t div 2) * nsPerSec"
    using assms by (simp_all add: armReset_def Let_def nsPerSec_def)
qed

section \<open>Property\<close>

text \<open>
  The action table: an added action is the newest and shadows older ones with the same key when it is removed;
  adding and removing it again gives back the object, removing a key that has no entry changes nothing
  and says so, and removal erases exactly one entry.
\<close>

theorem action_add_remove:
  "removeAction h (lock h (aeOwner e)) (aeFunction e) (aeVerb e) (addAction e ob) = (True, ob) \<and>
   (\<forall>owner fn verb. fst (removeAction h owner fn verb ob) \<longleftrightarrow>
      (\<exists>a\<in>set (actions ob). lock h (aeOwner a) = owner \<and> aeFunction a = fn \<and> aeVerb a = verb)) \<and>
   (\<forall>owner fn verb. \<not> fst (removeAction h owner fn verb ob) \<longrightarrow> snd (removeAction h owner fn verb ob) = ob) \<and>
   (\<forall>owner fn verb. fst (removeAction h owner fn verb ob) \<longrightarrow>
      length (actions (snd (removeAction h owner fn verb ob))) + 1 = length (actions ob))"
proof (intro conjI allI impI)
  show "removeAction h (lock h (aeOwner e)) (aeFunction e) (aeVerb e) (addAction e ob) = (True, ob)"
    by (simp add: removeAction_def addAction_def)
next
  fix owner fn verb
  let ?P = "\<lambda>a. lock h (aeOwner a) = owner \<and> aeFunction a = fn \<and> aeVerb a = verb"
  note e = eraseFirst_filter[of ?P "actions ob"]
  show "fst (removeAction h owner fn verb ob) \<longleftrightarrow> (\<exists>a\<in>set (actions ob). ?P a)"
    using e by (simp add: removeAction_def case_prod_beta)
  show "snd (removeAction h owner fn verb ob) = ob" if "\<not> fst (removeAction h owner fn verb ob)"
    using e that by (simp add: removeAction_def case_prod_beta)
  show "length (actions (snd (removeAction h owner fn verb ob))) + 1 = length (actions ob)"
    if "fst (removeAction h owner fn verb ob)"
    using e that by (simp add: removeAction_def case_prod_beta)
qed

theorem action_add_remove_witness:
  "removeAction Map.empty None ''f'' ''v''
     (addAction \<lparr>aeVerb = ''v'', aeFunction = ''f'', aeOwner = None, aeFlag = 0\<rparr> (newLpcObject ''/a'' 0 0 True 0)) =
   (True, newLpcObject ''/a'' 0 0 True 0)"
  using action_add_remove[of Map.empty "\<lparr>aeVerb = ''v'', aeFunction = ''f'', aeOwner = None, aeFlag = 0\<rparr>"
      "newLpcObject ''/a'' 0 0 True 0"] by simp

end
