(* ===== verification/Dialect.thy ===== *)
theory Dialect
  imports Kjd_Prelude
begin

text \<open>
  \<^verbatim>\<open>src/dialect/LpcDialect.cpp\<close>: the dialects and their names. Shared by the lexer, the scheduler and the boot code.
\<close>

datatype LpcDialect = FluffOS | LdMud | DGD

definition dialectName :: "LpcDialect \<Rightarrow> string" where
  "dialectName d = (case d of FluffOS \<Rightarrow> ''fluffos'' | LdMud \<Rightarrow> ''ldmud'' | DGD \<Rightarrow> ''dgd'')"

definition dialectFromString :: "string \<Rightarrow> LpcDialect res" where
  "dialectFromString s =
     (if s = ''fluffos'' then Inr FluffOS
      else if s = ''ldmud'' then Inr LdMud
      else if s = ''dgd'' then Inr DGD
      else Inl InvalidArgument)"

lemma dialect_roundtrip [simp]: "dialectFromString (dialectName d) = Inr d"
  by (cases d) (simp_all add: dialectName_def dialectFromString_def)

lemma dialectFromString_Inr: "dialectFromString s = Inr d \<Longrightarrow> s = dialectName d"
  by (auto simp: dialectName_def dialectFromString_def split: if_splits)

end
