(* ===== verification/Vm_State.thy ===== *)
theory Vm_State
  imports Bytecode Ieee_Arith Lpc_Object Dialect
begin

text \<open>
  The state of the virtual machine of \<^verbatim>\<open>src/vm/VM.cpp\<close>: the stores that shared pointers point into, the call-tracking
  stacks, the evaluation budget and the caches of the name resolution. The vectors that the code uses as stacks are lists
  with the top first. The readings of \<^verbatim>\<open>steady_clock\<close> are a sequence given in advance.
\<close>

named_theorems vm_simps \<open>fields of the machine after its operations\<close>

section \<open>State\<close>

datatype Origin = ODriver | OLocal | OCallOther | OSimulEfun | OInternal | OEfun | OFunctionPointer | OFunctional

definition originName :: "Origin \<Rightarrow> string" where
  "originName o1 = (case o1 of
      ODriver \<Rightarrow> ''driver'' | OLocal \<Rightarrow> ''local'' | OCallOther \<Rightarrow> ''call_other'' | OSimulEfun \<Rightarrow> ''simul''
    | OInternal \<Rightarrow> ''internal'' | OEfun \<Rightarrow> ''efun'' | OFunctionPointer \<Rightarrow> ''function pointer''
    | OFunctional \<Rightarrow> ''functional'')"

record closure =
  clOwner :: "ref option"
  clFunction :: string
  clBoundArgs :: "lvalue list"
  clForceEfun :: bool
  clUnbound :: bool
  clLambdaParams :: "string list"
  clLambdaBody :: lvalue

record DeferEntry =
  deClosure :: "ref option"
  deCommandGiver :: "ref option"

text \<open>
  What a C++ call of the machine can throw: an exception of the driver, a thrown LPC value, or nothing at all because the
  behaviour is undefined in C++ from there on.
\<close>

datatype vm_exn = VExn exn | VThrown lvalue | VUndef

type_synonym vm_result = "vm_exn + lvalue"

record PendingReplaceProgram =
  prOb :: "ref option"
  prProgram :: "CompiledProgram option"
  prOffset :: int
  prName :: string

record vm =
  vmHeap :: heap
  vmPrograms :: "nat \<rightharpoonup> CompiledProgram"
  vmArrays :: "ref \<rightharpoonup> lvalue list"
  vmMaps :: "ref \<rightharpoonup> mapping_rec"
  vmClosures :: "ref \<rightharpoonup> closure"
  vmNext :: ref
  vmCache :: chain_cache
  vmSimulEfun :: "ref option"
  vmMaster :: "ref option"
  vmDialect :: LpcDialect
  vmClock :: "nat \<Rightarrow> int"
  vmReads :: nat
  evalCost :: int
  maxEvalCost :: int
  callStack :: "ref list"
  functionNameStack :: "string list"
  objectChangeStack :: "ref option list"
  originStack :: "Origin list"
  commandGiverStack :: "ref option list"
  deferStack :: "DeferEntry list list"
  timeExpressionStack :: "int list"
  verbStack :: "string list"
  driverHooks :: "lvalue list"
  pendingReplacePrograms :: "PendingReplaceProgram list"

text \<open>One activation of \<^verbatim>\<open>VM::run\<close>: its local variables. A catch frame is the resume position and the stack depth.\<close>

record frame =
  locals :: "lvalue list"
  stk :: "lvalue list"
  delta :: int
  ip :: nat
  catches :: "(nat \<times> nat) list"

text \<open>
  What the machine calls and the model does not contain: the efuns that are registered in \<^verbatim>\<open>EfunTable\<close>, as functions of the
  machine and the arguments, and the scanner behind \<^verbatim>\<open>sscanf\<close>.
\<close>

type_synonym efun = "vm \<Rightarrow> lvalue list \<Rightarrow> vm_result \<times> vm"

record vm_env =
  eEfuns :: "string \<rightharpoonup> efun"
  eSscanf :: "string \<Rightarrow> string \<Rightarrow> nat \<Rightarrow> vm_exn + (lvalue list \<times> int64)"

section \<open>Stores\<close>

definition arrItems :: "vm \<Rightarrow> ref option \<Rightarrow> lvalue list" where
  "arrItems vm r = (case r of None \<Rightarrow> [] | Some a \<Rightarrow> (case vmArrays vm a of None \<Rightarrow> [] | Some xs \<Rightarrow> xs))"

definition newArray :: "lvalue list \<Rightarrow> vm \<Rightarrow> ref \<times> vm" where
  "newArray xs vm = (vmNext vm, vm\<lparr>vmArrays := (vmArrays vm)(vmNext vm \<mapsto> xs), vmNext := Suc (vmNext vm)\<rparr>)"

definition newMap :: "mapping_rec \<Rightarrow> vm \<Rightarrow> ref \<times> vm" where
  "newMap m vm = (vmNext vm, vm\<lparr>vmMaps := (vmMaps vm)(vmNext vm \<mapsto> m), vmNext := Suc (vmNext vm)\<rparr>)"

definition newClosure :: "closure \<Rightarrow> vm \<Rightarrow> ref \<times> vm" where
  "newClosure c vm = (vmNext vm, vm\<lparr>vmClosures := (vmClosures vm)(vmNext vm \<mapsto> c), vmNext := Suc (vmNext vm)\<rparr>)"

definition vInt :: "int64 \<Rightarrow> lvalue" where
  "vInt i = mkValue (VInt i)"

definition vBool :: "bool \<Rightarrow> lvalue" where
  "vBool b = vInt (if b then 1 else 0)"

definition vVoid :: lvalue where
  "vVoid = mkValue VVoid"

definition vStr :: "string \<Rightarrow> lvalue" where
  "vStr s = mkValue (VStr s)"

section \<open>Reading a value out of storage\<close>

text \<open>\<^verbatim>\<open>coerceIfDestructed\<close>: a reference to a destructed object becomes 0 where it is stored.\<close>

definition coerceIfDestructed :: "vm \<Rightarrow> lvalue \<Rightarrow> lvalue" where
  "coerceIfDestructed vm v =
     (case vdata v of
        VObj (Some r) \<Rightarrow> (case vmHeap vm r of Some ob \<Rightarrow> if destructed ob then vInt 0 else v | None \<Rightarrow> v)
      | _ \<Rightarrow> v)"

section \<open>Numbers\<close>

definition asArithmeticOperand :: "lvalue \<Rightarrow> double option" where
  "asArithmeticOperand v =
     (case vdata v of VInt i \<Rightarrow> Some (dbl_of_int (sint i)) | VFloat d \<Rightarrow> Some d | VVoid \<Rightarrow> Some (dbl_of_int 0) | _ \<Rightarrow> None)"

definition isDouble :: "lvalue \<Rightarrow> bool" where
  "isDouble v = (case vdata v of VFloat _ \<Rightarrow> True | _ \<Rightarrow> False)"

text \<open>\<^verbatim>\<open>snprintf(buf, 64, "%f")\<close> keeps at most 63 characters.\<close>

definition formatNumberForConcat :: "lvalue \<Rightarrow> string" where
  "formatNumberForConcat v =
     (case vdata v of VInt i \<Rightarrow> to_string (sint i) | VFloat d \<Rightarrow> take 63 (fmt_f d) | _ \<Rightarrow> ''0'')"

text \<open>\<^verbatim>\<open>static_cast<int64_t>\<close> of a double, undefined out of range.\<close>

definition numberResult :: "bool \<Rightarrow> double \<Rightarrow> lvalue option" where
  "numberResult eitherDouble d =
     (if eitherDouble then Some (mkValue (VFloat d))
      else map_option (\<lambda>i. vInt (word_of_int i)) (dbl_to_int d))"

end
