(* ===== verification/Efun_Base.thy ===== *)
theory Efun_Base
  imports Vm_State
begin

text \<open>What the efuns of \<^verbatim>\<open>src/efun/EfunTable.cpp\<close> share: reading their arguments and giving their results.\<close>

section \<open>Arguments\<close>

text \<open>\<^verbatim>\<open>std::get_if\<close> on an argument that may be missing.\<close>

definition strAt :: "lvalue list \<Rightarrow> nat \<Rightarrow> string option" where
  "strAt args i = (if i < length args then (case vdata (args ! i) of VStr s \<Rightarrow> Some s | _ \<Rightarrow> None) else None)"

definition intAt :: "lvalue list \<Rightarrow> nat \<Rightarrow> int option" where
  "intAt args i = (if i < length args then (case vdata (args ! i) of VInt n \<Rightarrow> Some (sint n) | _ \<Rightarrow> None) else None)"

definition arrAt :: "lvalue list \<Rightarrow> nat \<Rightarrow> ref option option" where
  "arrAt args i = (if i < length args then (case vdata (args ! i) of VArr r \<Rightarrow> Some r | _ \<Rightarrow> None) else None)"

definition mapAt :: "lvalue list \<Rightarrow> nat \<Rightarrow> ref option option" where
  "mapAt args i = (if i < length args then (case vdata (args ! i) of VMap r \<Rightarrow> Some r | _ \<Rightarrow> None) else None)"

definition closureAt :: "lvalue list \<Rightarrow> nat \<Rightarrow> ref option option" where
  "closureAt args i = (if i < length args then (case vdata (args ! i) of VFun r \<Rightarrow> Some r | _ \<Rightarrow> None) else None)"

lemma argument_simps [simp]:
  "strAt (vStr s # vs) 0 = Some s" "intAt (vInt n # vs) 0 = Some (sint n)"
  "strAt (v # vs) (Suc i) = strAt vs i" "intAt (v # vs) (Suc i) = intAt vs i"
  "arrAt (v # vs) (Suc i) = arrAt vs i" "mapAt (v # vs) (Suc i) = mapAt vs i"
  "strAt [] i = None" "intAt [] i = None" "arrAt [] i = None" "mapAt [] i = None"
  "arrAt (mkValue (VArr r) # vs) 0 = Some r" "mapAt (mkValue (VMap m) # vs) 0 = Some m"
  by (simp_all add: strAt_def intAt_def arrAt_def mapAt_def vStr_def vInt_def mkValue_def)

section \<open>Results\<close>

definition efThrow :: "string \<Rightarrow> vm \<Rightarrow> vm_result \<times> vm" where
  "efThrow msg vm = (Inl (VExn (LpcRuntimeError msg)), vm)"

definition efValue :: "lvalue \<Rightarrow> vm \<Rightarrow> vm_result \<times> vm" where
  "efValue v vm = (Inr v, vm)"

definition efArray :: "lvalue list \<Rightarrow> vm \<Rightarrow> vm_result \<times> vm" where
  "efArray xs vm = (case newArray xs vm of (r, vm1) \<Rightarrow> (Inr (mkValue (VArr (Some r))), vm1))"

lemma efArray_items [simp]:
  "efArray xs vm = (Inr (mkValue (VArr (Some (vmNext vm)))), snd (newArray xs vm))"
  "arrItems (snd (newArray xs vm)) (Some (vmNext vm)) = xs"
  by (simp_all add: efArray_def newArray_def arrItems_def)

end
