(* ===== verification/Lexer.thy ===== *)
theory Lexer
  imports Dialect
begin

text \<open>
  \<^verbatim>\<open>src/compiler/Lexer.cpp\<close>: from LPC source text to tokens. The state of the lexer is the text from
  \<^verbatim>\<open>pos_\<close> on and the current line. Each \<^verbatim>\<open>lex\<close> function returns the token, the rest of the text and
  the line after it, or the exception it throws.
\<close>

section \<open>Tokens and characters\<close>

datatype TokenType = Ident | Number | StringTok | SymbolTok | QuotedSymbol | Keyword | EndTok

record token =
  tokType :: TokenType
  tokText :: string
  tokLine :: int

type_synonym lexed = "(token \<times> string \<times> int) res"

abbreviation "lxNl \<equiv> CHR 0x0A"
abbreviation "lxTab \<equiv> CHR 0x09"
abbreviation "lxCr \<equiv> CHR 0x0D"
abbreviation "lxQuote \<equiv> CHR 0x22"
abbreviation "lxTick \<equiv> CHR 0x27"
abbreviation "lxBackslash \<equiv> CHR 0x5C"

definition isalpha :: "char \<Rightarrow> bool" where
  "isalpha c \<longleftrightarrow> (let n = (of_char c :: nat) in (65 \<le> n \<and> n \<le> 90) \<or> (97 \<le> n \<and> n \<le> 122))"

definition isxdigit :: "char \<Rightarrow> bool" where
  "isxdigit c \<longleftrightarrow> isdigit c \<or> (let n = (of_char c :: nat) in (65 \<le> n \<and> n \<le> 70) \<or> (97 \<le> n \<and> n \<le> 102))"

definition identStart :: "char \<Rightarrow> bool" where
  "identStart c \<longleftrightarrow> isalpha c \<or> c = CHR ''_''"

definition identChar :: "char \<Rightarrow> bool" where
  "identChar c \<longleftrightarrow> isalpha c \<or> isdigit c \<or> c = CHR ''_''"

text \<open>\<^verbatim>\<open>peek()\<close>: the next character, NUL at the end.\<close>

definition peek :: "string \<Rightarrow> char" where
  "peek s = (case s of [] \<Rightarrow> CHR 0x00 | c # _ \<Rightarrow> c)"

definition adv :: "char \<Rightarrow> int \<Rightarrow> int" where
  "adv c l = (if c = lxNl then l + 1 else l)"

definition kKeywords :: "string list" where
  "kKeywords =
    [''void'', ''int'', ''string'', ''object'', ''float'', ''mapping'', ''status'',
     ''mixed'', ''function'', ''return'', ''if'', ''else'', ''while'', ''for'', ''do'',
     ''static'', ''private'', ''public'', ''protected'', ''nomask'', ''varargs'',
     ''inherit'', ''break'', ''continue'', ''foreach'', ''in'', ''switch'', ''case'', ''default'']"

definition kDgdOnlyKeywords :: "string list" where
  "kDgdOnlyKeywords = [''atomic'', ''nil'']"

section \<open>White space and comments\<close>

fun skipBlockComment :: "string \<Rightarrow> int \<Rightarrow> string \<times> int" where
  "skipBlockComment [] l = ([], l)"
| "skipBlockComment (c # cs) l =
     (if c = CHR ''*'' \<and> peek cs = CHR ''/'' then (tl cs, l) else skipBlockComment cs (adv c l))"

lemma skipBlockComment_length: "length (fst (skipBlockComment s l)) \<le> length s"
  by (induction s l rule: skipBlockComment.induct) auto


function skipWhitespaceAndComments :: "string \<Rightarrow> int \<Rightarrow> string \<times> int" where
  "skipWhitespaceAndComments [] l = ([], l)"
| "skipWhitespaceAndComments (c # cs) l =
     (if c = CHR '' '' \<or> c = lxTab \<or> c = lxCr \<or> c = lxNl then skipWhitespaceAndComments cs (adv c l)
      else if c = CHR ''/'' \<and> peek cs = CHR ''/'' then
        skipWhitespaceAndComments (dropWhile (\<lambda>x. x \<noteq> lxNl) cs) l
      else if c = CHR ''/'' \<and> peek cs = CHR ''*'' then
        (case skipBlockComment (tl cs) l of (r, l') \<Rightarrow> skipWhitespaceAndComments r l')
      else (c # cs, l))"
  by pat_completeness auto
termination
proof (relation "measure (\<lambda>(s, l). length s)", goal_cases)
  case (4 c cs l x y)
  then show ?case using skipBlockComment_length[of "tl cs" l] by (cases cs) (auto simp: peek_def split: prod.splits)
qed (auto simp: length_dropWhile_le le_imp_less_Suc)

section \<open>The token functions\<close>

definition mkTok :: "TokenType \<Rightarrow> string \<Rightarrow> int \<Rightarrow> token" where
  "mkTok t s l = \<lparr>tokType = t, tokText = s, tokLine = l\<rparr>"

definition lexIdentOrKeyword :: "LpcDialect \<Rightarrow> string \<Rightarrow> int \<Rightarrow> lexed" where
  "lexIdentOrKeyword dialect s l =
     (let text = takeWhile identChar s;
          isDialectKeyword = (dialect = DGD \<and> text \<in> set kDgdOnlyKeywords)
      in Inr (mkTok (if text \<in> set kKeywords \<or> isDialectKeyword then Keyword else Ident) text l,
              dropWhile identChar s, l))"

definition lexNumber :: "string \<Rightarrow> int \<Rightarrow> lexed" where
  "lexNumber s l =
     (let text = takeWhile isdigit s; r = dropWhile isdigit s in
      if text = ''0'' \<and> (peek r = CHR ''x'' \<or> peek r = CHR ''X'') \<and> isxdigit (peek (drop 1 r)) then
        Inr (mkTok Number (text @ [peek r] @ takeWhile isxdigit (tl r)) l, dropWhile isxdigit (tl r), l)
      else if peek r = CHR ''.'' \<and> isdigit (peek (drop 1 r)) then
        Inr (mkTok Number (text @ [CHR ''.''] @ takeWhile isdigit (tl r)) l, dropWhile isdigit (tl r), l)
      else Inr (mkTok Number text l, r, l))"

definition lexLambdaParam :: "string \<Rightarrow> int \<Rightarrow> lexed" where
  "lexLambdaParam s l =
     (let r = tl s in
      if \<not> isdigit (peek r) then Inr (mkTok SymbolTok ''$'' l, r, l)
      else Inr (mkTok Ident (CHR ''$'' # takeWhile isdigit r) l, dropWhile isdigit r, l))"

definition unescape :: "char \<Rightarrow> char" where
  "unescape esc = (if esc = CHR ''n'' then lxNl else if esc = CHR ''t'' then lxTab else esc)"

text \<open>The body of a string literal up to its closing quote; \<^const>\<open>None\<close> when the text ends first.\<close>

fun stringBody :: "string \<Rightarrow> int \<Rightarrow> (string \<times> string \<times> int) option" where
  "stringBody [] l = None"
| "stringBody (c # cs) l =
     (if c = lxQuote then Some ([], cs, l)
      else if c = lxBackslash then
        (case cs of
           [] \<Rightarrow> None
         | d # ds \<Rightarrow> map_option (\<lambda>(v, r, l'). (unescape d # v, r, l')) (stringBody ds (adv d l)))
      else map_option (\<lambda>(v, r, l'). (c # v, r, l')) (stringBody cs (adv c l)))"

definition lexString :: "string \<Rightarrow> int \<Rightarrow> lexed" where
  "lexString s l =
     (case stringBody (tl s) l of
        None \<Rightarrow> Inl (LpcRuntimeError (''unterminated string literal at line '' @ to_string l))
      | Some (v, r, l') \<Rightarrow> Inr (mkTok StringTok v l, r, l'))"

definition charError :: "int \<Rightarrow> exn" where
  "charError l = LpcRuntimeError (''character literal must contain exactly one character, at line '' @ to_string l)"

definition lexChar :: "string \<Rightarrow> int \<Rightarrow> lexed" where
  "lexChar s l =
     (case tl s of
        [] \<Rightarrow> Inl (LpcRuntimeError (''unterminated character literal at line '' @ to_string l))
      | c # cs \<Rightarrow>
          let (code, r, l') =
                (if c = lxBackslash \<and> cs \<noteq> [] then (unescape (hd cs), tl cs, adv (hd cs) l)
                 else (c, cs, adv c l))
          in if peek r \<noteq> lxTick then Inl (charError l)
             else Inr (mkTok Number (to_string (int (of_char code))) l, tl r, l'))"

text \<open>The body of a heredoc: up to the first line that starts with the terminator.\<close>

fun heredocBody :: "string \<Rightarrow> bool \<Rightarrow> string \<Rightarrow> int \<Rightarrow> (string \<times> string \<times> int) option" where
  "heredocBody term atLineStart [] l =
     (if atLineStart \<and> term = [] then Some ([], [], l) else None)"
| "heredocBody term atLineStart (c # cs) l =
     (if atLineStart \<and> take (length term) (c # cs) = term then Some ([], drop (length term) (c # cs), l)
      else map_option (\<lambda>(v, r, l'). (c # v, r, l')) (heredocBody term (c = lxNl) cs (adv c l)))"

definition heredocError :: "string \<Rightarrow> int \<Rightarrow> exn" where
  "heredocError term l =
     LpcRuntimeError (''unterminated heredoc: missing closing '' @ [lxQuote] @ term @ [lxQuote] @ '' at line '' @ to_string l)"

definition lexHeredoc :: "string \<Rightarrow> int \<Rightarrow> lexed" where
  "lexHeredoc s l =
     (let r = tl s in
      if peek r = CHR ''@'' then Inl (NotImplementedError ([lxQuote] @ ''@@'' @ [lxQuote] @ '' array-block heredoc syntax''))
      else
        let term = takeWhile (\<lambda>c. c \<noteq> lxNl) r; r1 = dropWhile (\<lambda>c. c \<noteq> lxNl) r in
        if term = [] then Inl (LpcRuntimeError (''heredoc: missing terminator at line '' @ to_string l))
        else if r1 = [] then Inl (heredocError term l)
        else case heredocBody term True (tl r1) (l + 1) of
               None \<Rightarrow> Inl (heredocError term l)
             | Some (v, r2, l') \<Rightarrow> Inr (mkTok StringTok v l, r2, l'))"

text \<open>The length of the symbol at the start of the text: three, two or one characters.\<close>

definition symbolLength :: "string \<Rightarrow> nat" where
  "symbolLength s =
     (let c = peek s; d = peek (drop 1 s); e = peek (drop 2 s) in
      if c = CHR ''-'' \<and> d = CHR ''>'' then 2
      else if c = CHR '':'' \<and> d = CHR '':'' then 2
      else if c = CHR ''+'' \<and> d = CHR ''+'' then 2
      else if c = CHR ''-'' \<and> d = CHR ''-'' then 2
      else if c \<in> {CHR ''+'', CHR ''-'', CHR ''*'', CHR ''/'', CHR ''%''} \<and> d = CHR ''='' then 2
      else if c \<in> {CHR ''|'', CHR ''&'', CHR ''^''} \<and> d = CHR ''='' then 2
      else if c = CHR ''='' \<and> d = CHR ''='' then 2
      else if c = CHR ''!'' \<and> d = CHR ''='' then 2
      else if c = CHR ''<'' \<and> d = CHR ''<'' then (if e = CHR ''='' then 3 else 2)
      else if c = CHR ''>'' \<and> d = CHR ''>'' then (if e = CHR ''='' then 3 else 2)
      else if c = CHR ''<'' \<and> d = CHR ''='' then 2
      else if c = CHR ''>'' \<and> d = CHR ''='' then 2
      else if c = CHR ''|'' \<and> d = CHR ''|'' then 2
      else if c = CHR ''&'' \<and> d = CHR ''&'' then 2
      else if c = CHR ''.'' \<and> d = CHR ''.'' then (if e = CHR ''.'' then 3 else 2)
      else 1)"

definition lexSymbol :: "string \<Rightarrow> int \<Rightarrow> lexed" where
  "lexSymbol s l = (let n = symbolLength s in Inr (mkTok SymbolTok (take n s) l, drop n s, l))"

definition lexQuote :: "string \<Rightarrow> int \<Rightarrow> lexed" where
  "lexQuote s l =
     (let r = tl s; name = takeWhile identChar r; after = dropWhile identChar r in
      if r \<noteq> [] \<and> identStart (hd r) \<and> \<not> (length name = 1 \<and> after \<noteq> [] \<and> hd after = lxTick)
      then Inr (mkTok QuotedSymbol name l, after, l)
      else lexChar s l)"

definition lexHashQuote :: "string \<Rightarrow> int \<Rightarrow> lexed" where
  "lexHashQuote s l = Inr (mkTok SymbolTok (CHR ''#'' # [lxTick]) l, drop 2 s, l)"

definition symbolStart :: "char \<Rightarrow> bool" where
  "symbolStart c \<longleftrightarrow> c \<in> set ''(){}[]:;,-=!<>*+|&/%.?^~''"

definition unrecognized :: "char \<Rightarrow> int \<Rightarrow> exn" where
  "unrecognized c l =
     LpcRuntimeError (''lexer: unrecognized character '' @ [lxTick, c, lxTick] @ '' at line '' @ to_string l)"

text \<open>The dispatch on the first character of a token.\<close>

definition lexToken :: "LpcDialect \<Rightarrow> string \<Rightarrow> int \<Rightarrow> lexed" where
  "lexToken dialect s l =
     (let c = peek s in
      if identStart c then lexIdentOrKeyword dialect s l
      else if isdigit c then lexNumber s l
      else if c = CHR ''.'' \<and> isdigit (peek (drop 1 s)) then lexNumber s l
      else if c = lxQuote then lexString s l
      else if c = lxTick then (if dialect = LdMud then lexQuote s l else lexChar s l)
      else if c = CHR ''#'' \<and> dialect = LdMud \<and> peek (drop 1 s) = lxTick then lexHashQuote s l
      else if c = CHR ''@'' then lexHeredoc s l
      else if c = CHR ''$'' then lexLambdaParam s l
      else if symbolStart c then lexSymbol s l
      else Inl (unrecognized c l))"

section \<open>Lemmas: every token consumes text and counts lines\<close>

definition newlines :: "string \<Rightarrow> int" where
  "newlines s = int (length (filter (\<lambda>c. c = lxNl) s))"

lemma newlines_simps [simp]:
  "newlines [] = 0"
  "newlines (c # s) = (if c = lxNl then 1 + newlines s else newlines s)"
  "newlines (s @ t) = newlines s + newlines t"
  by (simp_all add: newlines_def)

lemma adv_newlines: "adv c l = l + newlines [c]"
  by (simp add: adv_def)

text \<open>From one state of the lexer to a later one: text is consumed and its newlines are counted.\<close>

definition consumes :: "string \<Rightarrow> int \<Rightarrow> string \<Rightarrow> int \<Rightarrow> bool" where
  "consumes s l r l' \<longleftrightarrow> (\<exists>u. s = u @ r \<and> l' = l + newlines u)"

lemma consumes_refl [simp]: "consumes s l s l"
  by (simp add: consumes_def)

lemma consumes_trans: "consumes s l r l' \<Longrightarrow> consumes r l' q l'' \<Longrightarrow> consumes s l q l''"
  unfolding consumes_def by (metis append.assoc newlines_simps(3) add.assoc)

lemma consumes_Cons: "consumes cs (adv c l) r l' \<Longrightarrow> consumes (c # cs) l r l'"
  unfolding consumes_def adv_newlines by (metis append_Cons append_Nil newlines_simps(3) add.assoc)

lemma consumes_length: "consumes s l r l' \<Longrightarrow> length r \<le> length s"
  by (auto simp: consumes_def)

lemma newlines_takeWhile: "\<not> P lxNl \<Longrightarrow> newlines (takeWhile P s) = 0"
  by (induction s) auto

lemma consumes_dropWhile: "\<not> P lxNl \<Longrightarrow> consumes s l (dropWhile P s) l"
  unfolding consumes_def by (rule exI[of _ "takeWhile P s"]) (simp add: newlines_takeWhile)

lemma consumes_skipBlock: "consumes s l (fst (skipBlockComment s l)) (snd (skipBlockComment s l))"
proof (induction s l rule: skipBlockComment.induct)
  case (2 c cs l)
  show ?case
  proof (cases "c = CHR ''*'' \<and> peek cs = CHR ''/''")
    case True
    then obtain ds where "cs = CHR ''/'' # ds" by (cases cs) (auto simp: peek_def)
    with True show ?thesis by (simp add: consumes_def)
  next
    case False
    with 2 show ?thesis by (auto intro: consumes_Cons)
  qed
qed simp

lemma consumes_skipWs:
  "consumes s l (fst (skipWhitespaceAndComments s l)) (snd (skipWhitespaceAndComments s l))"
proof (induction s l rule: skipWhitespaceAndComments.induct)
  case (2 c cs l)
  show ?case
  proof (cases "c = CHR '' '' \<or> c = lxTab \<or> c = lxCr \<or> c = lxNl")
    case True
    with "2.IH"(1)[OF True] show ?thesis by (auto intro: consumes_Cons)
  next
    case ws: False
    show ?thesis
    proof (cases "c = CHR ''/'' \<and> peek cs = CHR ''/''")
      case True
      have "consumes (c # cs) l (dropWhile (\<lambda>x. x \<noteq> lxNl) cs) l"
        by (rule consumes_Cons) (use True in \<open>simp add: adv_def consumes_dropWhile\<close>)
      with "2.IH"(2)[OF ws True] ws True show ?thesis by (auto intro: consumes_trans)
    next
      case line: False
      show ?thesis
      proof (cases "c = CHR ''/'' \<and> peek cs = CHR ''*''")
        case True
        then obtain ds where cs: "cs = CHR ''*'' # ds" by (cases cs) (auto simp: peek_def)
        obtain r l' where sk: "skipBlockComment ds l = (r, l')" by fastforce
        have "consumes (c # cs) l ds l"
          unfolding consumes_def cs using True by (intro exI[of _ "''/*''"]) simp
        moreover have "consumes ds l r l'" using consumes_skipBlock[of ds l] sk by simp
        ultimately have "consumes (c # cs) l r l'" by (rule consumes_trans)
        with "2.IH"(3)[OF ws line True, of r l'] ws line True cs sk show ?thesis
          by (auto intro: consumes_trans)
      next
        case False
        with ws line show ?thesis by auto
      qed
    qed
  qed
qed simp

text \<open>A token function that succeeds: the token carries the line it started on, and at least one character is consumed.\<close>

definition goodTok :: "string \<Rightarrow> int \<Rightarrow> lexed \<Rightarrow> bool" where
  "goodTok s l res \<longleftrightarrow>
     (case res of Inl _ \<Rightarrow> True
      | Inr (t, r, l') \<Rightarrow> tokLine t = l \<and> consumes s l r l' \<and> length r < length s)"

lemma tokLine_mkTok [simp]: "tokLine (mkTok t s l) = l"
  by (simp add: mkTok_def)

lemma goodTok_Inr: "tokLine t = l \<Longrightarrow> consumes s l r l' \<Longrightarrow> length r < length s \<Longrightarrow> goodTok s l (Inr (t, r, l'))"
  by (simp add: goodTok_def)

lemma goodTok_error [simp]: "goodTok s l (Inl e)"
  by (simp add: goodTok_def)

lemma not_newline [simp]: "\<not> identChar lxNl" "\<not> isdigit lxNl" "\<not> isxdigit lxNl"
  by (simp_all add: identChar_def isalpha_def isdigit_def isxdigit_def)

lemma length_dropWhile_hd: "s \<noteq> [] \<Longrightarrow> P (hd s) \<Longrightarrow> length (dropWhile P s) < length s"
  by (cases s) (auto simp: length_dropWhile_le le_imp_less_Suc)

lemma peek_hd: "peek s \<noteq> CHR 0x00 \<Longrightarrow> s \<noteq> [] \<and> peek s = hd s"
  by (cases s) (simp_all add: peek_def)

lemma peek_eq_hd: "s \<noteq> [] \<Longrightarrow> peek s = hd s"
  by (cases s) (simp_all add: peek_def)

lemma consumes_tl: "s \<noteq> [] \<Longrightarrow> hd s \<noteq> lxNl \<Longrightarrow> consumes s l (tl s) l"
  by (cases s) (auto simp: consumes_def intro!: exI[of _ "[hd s]"])

lemma goodTok_ident: "identStart (peek s) \<Longrightarrow> goodTok s l (lexIdentOrKeyword d s l)"
proof -
  assume "identStart (peek s)"
  then have "s \<noteq> []" "identChar (hd s)"
    using peek_hd[of s] by (auto simp: identStart_def identChar_def isalpha_def peek_def split: list.splits)
  then show ?thesis
    unfolding lexIdentOrKeyword_def Let_def
    by (intro goodTok_Inr) (simp_all add: consumes_dropWhile length_dropWhile_hd)
qed

lemma goodTok_number:
  assumes "s \<noteq> []" and "isdigit (hd s) \<or> (hd s = CHR ''.'' \<and> isdigit (peek (tl s)))"
  shows "goodTok s l (lexNumber s l)"
proof -
  let ?r = "dropWhile isdigit s"
  have c: "consumes s l ?r l" by (simp add: consumes_dropWhile)
  have tail: "consumes s l (dropWhile P (tl ?r)) l \<and> length (dropWhile P (tl ?r)) < length s"
    if "?r \<noteq> []" "hd ?r \<noteq> lxNl" "\<not> P lxNl" for P
  proof
    have "consumes ?r l (tl ?r) l" using that by (intro consumes_tl)
    then show "consumes s l (dropWhile P (tl ?r)) l"
      using c that(3) by (blast intro: consumes_trans consumes_dropWhile)
    have "length (dropWhile P (tl ?r)) \<le> length (tl ?r)" by (rule length_dropWhile_le)
    also have "\<dots> < length ?r" using that(1) by simp
    also have "\<dots> \<le> length s" by (rule length_dropWhile_le)
    finally show "length (dropWhile P (tl ?r)) < length s" .
  qed
  have short: "length ?r < length s \<or> (hd s = CHR ''.'' \<and> ?r = s \<and> isdigit (peek (tl s)))"
  proof (cases "isdigit (hd s)")
    case True
    then show ?thesis using assms(1) length_dropWhile_hd by blast
  next
    case False
    then show ?thesis using assms by (cases s) auto
  qed
  have hex: "?r \<noteq> [] \<and> hd ?r \<noteq> lxNl" if "peek ?r = CHR ''x'' \<or> peek ?r = CHR ''X'' \<or> peek ?r = CHR ''.''"
    using that peek_hd[of ?r] by auto
  have drop1: "drop 1 x = tl x" for x :: string by (cases x) auto
  have good: "goodTok s l (Inr (mkTok Number t l, dropWhile P (tl ?r), l))"
    if "peek ?r = CHR ''x'' \<or> peek ?r = CHR ''X'' \<or> peek ?r = CHR ''.''" "\<not> P lxNl" for P t
    by (rule goodTok_Inr) (use tail[of P] hex[OF that(1)] that(2) in simp_all)
  have last: "goodTok s l (Inr (mkTok Number t l, ?r, l))"
    if "\<not> (peek ?r = CHR ''.'' \<and> isdigit (peek (tl ?r)))" for t
    by (rule goodTok_Inr) (use c short that peek_eq_hd[OF assms(1)] in auto)
  show ?thesis
  proof (cases "takeWhile isdigit s = ''0'' \<and> (peek ?r = CHR ''x'' \<or> peek ?r = CHR ''X'') \<and> isxdigit (peek (tl ?r))")
    case True
    show ?thesis
      unfolding lexNumber_def Let_def drop1 if_P[OF True]
      by (rule good) (use True in auto)
  next
    case nothex: False
    show ?thesis
    proof (cases "peek ?r = CHR ''.'' \<and> isdigit (peek (tl ?r))")
      case True
      show ?thesis
        unfolding lexNumber_def Let_def drop1 if_not_P[OF nothex] if_P[OF True]
        by (rule good) (use True in simp_all)
    next
      case False
      show ?thesis unfolding lexNumber_def Let_def drop1 if_not_P[OF nothex] if_not_P[OF False]
        by (rule last[OF False])
    qed
  qed
qed

lemma goodTok_lambda: "s \<noteq> [] \<Longrightarrow> hd s \<noteq> lxNl \<Longrightarrow> goodTok s l (lexLambdaParam s l)"
proof -
  assume s: "s \<noteq> []" "hd s \<noteq> lxNl"
  have c: "consumes s l (tl s) l" using s by (rule consumes_tl)
  then have "consumes s l (dropWhile isdigit (tl s)) l"
    by (rule consumes_trans) (simp add: consumes_dropWhile)
  moreover have "length (dropWhile isdigit (tl s)) \<le> length (tl s)" by (rule length_dropWhile_le)
  moreover have "length (tl s) < length s" using s(1) by simp
  ultimately show ?thesis
    using c unfolding lexLambdaParam_def Let_def by (auto intro!: goodTok_Inr)
qed

lemma stringBody_consumes: "stringBody s l = Some (v, r, l') \<Longrightarrow> consumes s l r l' \<and> length r < length s"
proof (induction s l arbitrary: v r l' rule: stringBody.induct)
  case (2 c cs l)
  show ?case
  proof (cases "c = lxQuote")
    case True
    with "2.prems" show ?thesis by (auto intro: consumes_Cons simp: adv_def)
  next
    case notq: False
    show ?thesis
    proof (cases "c = lxBackslash")
      case True
      with "2.prems" notq obtain d ds v' where cs: "cs = d # ds" and b: "stringBody ds (adv d l) = Some (v', r, l')"
        by (auto split: list.splits)
      from "2.IH"(1)[OF notq True cs b] have ih: "consumes ds (adv d l) r l'" "length r < length ds" by auto
      have "consumes (c # cs) l r l'"
        unfolding cs by (rule consumes_Cons, rule consumes_Cons) (use ih True in \<open>simp add: adv_def\<close>)
      with ih(2) cs show ?thesis by simp
    next
      case False
      with "2.prems" notq obtain v' where b: "stringBody cs (adv c l) = Some (v', r, l')" by auto
      from "2.IH"(2)[OF notq False b] show ?thesis by (auto intro: consumes_Cons)
    qed
  qed
qed simp

lemma goodTok_string: "s \<noteq> [] \<Longrightarrow> hd s = lxQuote \<Longrightarrow> goodTok s l (lexString s l)"
proof -
  assume s: "s \<noteq> []" "hd s = lxQuote"
  then have c: "consumes s l (tl s) l" by (intro consumes_tl) simp_all
  show ?thesis
  proof (cases "stringBody (tl s) l")
    case (Some x)
    obtain v r l' where x: "x = (v, r, l')" by (cases x)
    from stringBody_consumes[of "tl s" l v r l'] Some x have "consumes (tl s) l r l'" "length r < length (tl s)" by auto
    moreover have "consumes s l r l'" using c \<open>consumes (tl s) l r l'\<close> by (rule consumes_trans)
    ultimately show ?thesis using Some x by (auto simp: lexString_def goodTok_def)
  qed (simp add: lexString_def)
qed

lemma goodTok_char: "s \<noteq> [] \<Longrightarrow> hd s = lxTick \<Longrightarrow> goodTok s l (lexChar s l)"
proof (cases "tl s")
  case (Cons c cs)
  assume s: "s \<noteq> []" "hd s = lxTick"
  with Cons have s': "s = lxTick # c # cs" by (cases s) auto
  show ?thesis
  proof (cases "c = lxBackslash \<and> cs \<noteq> []")
    case True
    then obtain d ds where cs: "cs = d # ds" by (cases cs) auto
    have "consumes s l (tl ds) (adv d l) \<and> length (tl ds) < length s" if p: "peek ds = lxTick"
    proof -
      obtain es where "ds = lxTick # es" using p by (cases ds) (auto simp: peek_def)
      then show ?thesis
        unfolding s' cs consumes_def using True by (auto intro!: exI[of _ "[lxTick, c, d, lxTick]"] simp: adv_def)
    qed
    then show ?thesis using True cs by (auto simp: lexChar_def s' goodTok_def Let_def)
  next
    case False
    have "consumes s l (tl cs) (adv c l) \<and> length (tl cs) < length s" if p: "peek cs = lxTick"
    proof -
      obtain es where "cs = lxTick # es" using p by (cases cs) (auto simp: peek_def)
      then show ?thesis
        unfolding s' consumes_def by (auto intro!: exI[of _ "[lxTick, c, lxTick]"] simp: adv_def)
    qed
    with False show ?thesis by (auto simp: lexChar_def s' goodTok_def Let_def)
  qed
qed (simp add: lexChar_def)

lemma heredocBody_consumes:
  "heredocBody t b s l = Some (v, r, l') \<Longrightarrow> newlines t = 0 \<Longrightarrow> consumes s l r l'"
proof (induction t b s l arbitrary: v r l' rule: heredocBody.induct)
  case (2 t b c cs l)
  show ?case
  proof (cases "b \<and> take (length t) (c # cs) = t")
    case True
    with "2.prems"(1) have "r = drop (length t) (c # cs)" "l' = l" by auto
    with True "2.prems"(2) show ?thesis
      unfolding consumes_def by (metis append_take_drop_id add.right_neutral)
  next
    case False
    with "2.prems"(1) obtain v' where "heredocBody t (c = lxNl) cs (adv c l) = Some (v', r, l')" by auto
    from "2.IH"[OF False this "2.prems"(2)] show ?thesis by (rule consumes_Cons)
  qed
qed (auto split: if_splits)

lemma goodTok_heredoc: "s \<noteq> [] \<Longrightarrow> hd s = CHR ''@'' \<Longrightarrow> goodTok s l (lexHeredoc s l)"
proof -
  assume s: "s \<noteq> []" "hd s = CHR ''@''"
  let ?t = "takeWhile (\<lambda>c. c \<noteq> lxNl) (tl s)" and ?r = "dropWhile (\<lambda>c. c \<noteq> lxNl) (tl s)"
  have c: "consumes s l (tl s) l" using s by (intro consumes_tl) simp_all
  have t: "newlines ?t = 0" by (rule newlines_takeWhile) simp
  have "goodTok s l (case heredocBody ?t True (tl ?r) (l + 1) of None \<Rightarrow> Inl (heredocError ?t l)
      | Some (v, r2, l') \<Rightarrow> Inr (mkTok StringTok v l, r2, l'))" if "?r \<noteq> []"
  proof (cases "heredocBody ?t True (tl ?r) (l + 1)")
    case (Some x)
    obtain v r2 l' where x: "x = (v, r2, l')" by (cases x)
    have "hd ?r = lxNl" using hd_dropWhile[OF that] by simp
    then have "?r = lxNl # tl ?r" using that by (cases ?r) auto
    then have "consumes ?r l (tl ?r) (l + 1)" unfolding consumes_def by (intro exI[of _ "[lxNl]"]) simp
    moreover have "consumes (tl s) l ?r l" by (simp add: consumes_dropWhile)
    moreover have "consumes (tl ?r) (l + 1) r2 l'" using heredocBody_consumes[OF _ t] Some x by simp
    ultimately have "consumes (tl s) l r2 l'" by (blast intro: consumes_trans)
    then have "consumes s l r2 l'" "length r2 \<le> length (tl s)" using c by (auto intro: consumes_trans dest: consumes_length)
    moreover have "length (tl s) < length s" using s(1) by simp
    ultimately show ?thesis using Some x by (auto simp: goodTok_def)
  qed simp
  then show ?thesis by (auto simp: lexHeredoc_def Let_def)
qed

lemma symbolLength_range: "1 \<le> symbolLength s \<and> symbolLength s \<le> 3"
  by (simp add: symbolLength_def Let_def)

lemma symbol_no_newline:
  assumes "symbolStart (peek s)"
  shows "newlines (take (symbolLength s) s) = 0"
proof -
  have "peek s \<noteq> lxNl" using assms by (auto simp: symbolStart_def)
  moreover obtain c cs where "s = c # cs" using assms by (cases s) (auto simp: symbolStart_def peek_def)
  ultimately show ?thesis
    by (cases cs; cases "tl cs") (auto simp: symbolLength_def Let_def peek_def)
qed

lemma goodTok_symbol: "symbolStart (peek s) \<Longrightarrow> goodTok s l (lexSymbol s l)"
proof -
  assume s: "symbolStart (peek s)"
  then have "s \<noteq> []" by (auto simp: symbolStart_def peek_def split: list.splits)
  moreover have "consumes s l (drop (symbolLength s) s) l"
    unfolding consumes_def using symbol_no_newline[OF s] by (intro exI[of _ "take (symbolLength s) s"]) simp
  ultimately show ?thesis
    unfolding lexSymbol_def Let_def using symbolLength_range[of s] by (intro goodTok_Inr) auto
qed

lemma goodTok_quote: "s \<noteq> [] \<Longrightarrow> hd s = lxTick \<Longrightarrow> goodTok s l (lexQuote s l)"
proof -
  assume s: "s \<noteq> []" "hd s = lxTick"
  have "consumes s l (tl s) l" using s by (intro consumes_tl) simp_all
  then have "consumes s l (dropWhile identChar (tl s)) l"
    by (rule consumes_trans) (simp add: consumes_dropWhile)
  moreover have "length (dropWhile identChar (tl s)) \<le> length (tl s)" by (rule length_dropWhile_le)
  moreover have "length (tl s) < length s" using s(1) by simp
  ultimately show ?thesis
    using goodTok_char[OF s] unfolding lexQuote_def Let_def by (auto intro!: goodTok_Inr)
qed

lemma goodTok_hash:
  "peek s = CHR ''#'' \<Longrightarrow> peek (drop 1 s) = lxTick \<Longrightarrow> goodTok s l (lexHashQuote s l)"
proof -
  assume "peek s = CHR ''#''" "peek (drop 1 s) = lxTick"
  then obtain cs where "s = CHR ''#'' # lxTick # cs"
    by (cases s; cases "tl s") (auto simp: peek_def)
  then show ?thesis
    unfolding lexHashQuote_def
    by (intro goodTok_Inr) (auto simp: consumes_def intro!: exI[of _ "[CHR ''#'', lxTick]"])
qed

lemma lexToken_good: "s \<noteq> [] \<Longrightarrow> goodTok s l (lexToken d s l)"
proof -
  assume s: "s \<noteq> []"
  have p: "peek s = hd s" using s by (rule peek_eq_hd)
  have d1: "drop 1 s = tl s" using s by (cases s) simp_all
  note goods = goodTok_ident goodTok_number[OF s] goodTok_string[OF s] goodTok_quote[OF s] goodTok_char[OF s]
    goodTok_hash goodTok_heredoc[OF s] goodTok_lambda[OF s] goodTok_symbol
  show ?thesis
    unfolding lexToken_def Let_def
    by (intro if_split[where P = "goodTok s l", THEN iffD2] conjI impI)
      (use goods d1 p in \<open>auto simp: d1\<close>)
qed

section \<open>tokenize\<close>

function tokenizeFrom :: "LpcDialect \<Rightarrow> string \<Rightarrow> int \<Rightarrow> token list res" where
  "tokenizeFrom d s l =
     (case skipWhitespaceAndComments s l of
        (r, l1) \<Rightarrow>
          if r = [] then Inr [mkTok EndTok [] l1]
          else (case lexToken d r l1 of
                  Inl e \<Rightarrow> Inl e
                | Inr (t, r2, l2) \<Rightarrow> res_bind (tokenizeFrom d r2 l2) (\<lambda>ts. Inr (t # ts))))"
  by pat_completeness auto
termination
proof (relation "measure (\<lambda>(d, s, l). length s)")
  fix d s l r l1 b t p r2 l2
  assume sk: "(r, l1) = skipWhitespaceAndComments s l" "r \<noteq> []"
    and tk: "lexToken d r l1 = Inr b" "(t, p) = b" "(r2, l2) = p"
  have "length r \<le> length s" using consumes_length[OF consumes_skipWs[of s l]] sk by (metis fst_conv)
  moreover have "length r2 < length r" using lexToken_good[of r l1 d] sk(2) tk by (auto simp: goodTok_def)
  ultimately show "((d, r2, l2), d, s, l) \<in> measure (\<lambda>(d, s, l). length s)" by simp
qed simp

declare tokenizeFrom.simps [simp del]

definition tokenize :: "LpcDialect \<Rightarrow> string \<Rightarrow> token list res" where
  "tokenize d src = tokenizeFrom d src 1"

section \<open>Every token is where the lexer says it is\<close>

lemma tokenizeFrom_next:
  assumes "skipWhitespaceAndComments s l = (r, l1)"
  shows "r = [] \<Longrightarrow> tokenizeFrom d s l = Inr [mkTok EndTok [] l1]"
    and "r \<noteq> [] \<Longrightarrow> lexToken d r l1 = Inl e \<Longrightarrow> tokenizeFrom d s l = Inl e"
    and "r \<noteq> [] \<Longrightarrow> lexToken d r l1 = Inr (t, r2, l2) \<Longrightarrow>
         tokenizeFrom d s l = res_bind (tokenizeFrom d r2 l2) (\<lambda>ts. Inr (t # ts))"
  by (subst tokenizeFrom.simps, simp add: assms)+

lemma tokenizeFrom_Cons:
  assumes "skipWhitespaceAndComments s l = (r, l1)" "r \<noteq> []" "tokenizeFrom d s l = Inr toks"
  obtains t r2 l2 ts where "lexToken d r l1 = Inr (t, r2, l2)" "tokenizeFrom d r2 l2 = Inr ts" "toks = t # ts"
proof (cases "lexToken d r l1")
  case (Inl e)
  then show ?thesis using tokenizeFrom_next(2)[OF assms(1,2) Inl] assms(3) by simp
next
  case (Inr x)
  obtain t r2 l2 where x: "lexToken d r l1 = Inr (t, r2, l2)" using Inr by (cases x) simp
  show ?thesis
    using tokenizeFrom_next(3)[OF assms(1,2) x] assms(3) that[OF x]
    by (cases "tokenizeFrom d r2 l2") (simp_all add: res_bind_def)
qed

lemma tokenizeFrom_lines:
  "tokenizeFrom d s l = Inr toks \<Longrightarrow>
   \<exists>ps. length ps = length toks \<and> sorted_wrt (<) ps \<and> ps \<noteq> [] \<and> last ps = length s \<and>
     tokType (last toks) = EndTok \<and>
     (\<forall>i<length toks. tokLine (toks ! i) = l + newlines (take (ps ! i) s)) \<and>
     (\<forall>i. Suc i < length toks \<longrightarrow>
        (\<exists>r l'. lexToken d (drop (ps ! i) s) (tokLine (toks ! i)) = Inr (toks ! i, r, l')))"
proof (induction d s l arbitrary: toks rule: tokenizeFrom.induct)
  case (1 d s l)
  obtain r l1 where sk: "skipWhitespaceAndComments s l = (r, l1)" by fastforce
  then obtain u where u: "s = u @ r" "l1 = l + newlines u"
    using consumes_skipWs[of s l] by (auto simp: consumes_def)
  show ?case
  proof (cases "r = []")
    case True
    then have "toks = [mkTok EndTok [] l1]" using "1.prems" tokenizeFrom_next(1)[OF sk, of d] by simp
    then show ?thesis using u True by (intro exI[of _ "[length s]"]) (simp add: mkTok_def)
  next
    case False
    then obtain t r2 l2 ts where lx: "lexToken d r l1 = Inr (t, r2, l2)"
      and ts: "tokenizeFrom d r2 l2 = Inr ts" and toks: "toks = t # ts"
      using tokenizeFrom_Cons[OF sk False "1.prems"] by metis
    have tl: "tokLine t = l1" and c: "consumes r l1 r2 l2" and len: "length r2 < length r"
      using lexToken_good[OF False, of l1 d] by (simp_all add: goodTok_def lx)
    from c obtain v where v: "r = v @ r2" "l2 = l1 + newlines v" unfolding consumes_def by blast
    have v0: "v \<noteq> []" using len v(1) by auto
    from "1.IH"[OF sk[symmetric] False lx refl refl ts] obtain ps where
      ps: "length ps = length ts" "sorted_wrt (<) ps" "ps \<noteq> []" "last ps = length r2"
        "tokType (last ts) = EndTok"
        "\<forall>i<length ts. tokLine (ts ! i) = l2 + newlines (take (ps ! i) r2)"
        "\<forall>i. Suc i < length ts \<longrightarrow>
          (\<exists>r l'. lexToken d (drop (ps ! i) r2) (tokLine (ts ! i)) = Inr (ts ! i, r, l'))" by blast
    let ?k = "length u + length v"
    let ?qs = "length u # map ((+) ?k) ps"
    have s: "s = (u @ v) @ r2" using u v by simp
    have ne: "ts \<noteq> []" using ps(1,3) by auto
    have at: "take (?k + n) s = u @ v @ take n r2" "drop (?k + n) s = drop n r2" for n
      by (simp_all add: s)
    have "sorted_wrt (<) ?qs" using ps(2) v0 by (auto simp: sorted_wrt_map)
    moreover have "last ?qs = length s" using ps(3,4) s by (simp add: last_map)
    moreover have "tokLine (toks ! i) = l + newlines (take (?qs ! i) s)" if "i < length toks" for i
      using that ps(1,6) tl u v toks at by (cases i) (auto simp: nth_Cons)
    moreover have "\<exists>r l'. lexToken d (drop (?qs ! i) s) (tokLine (toks ! i)) = Inr (toks ! i, r, l')"
      if "Suc i < length toks" for i
      using that ps(1,7) tl u toks at lx by (cases i) (auto simp: nth_Cons)
    ultimately show ?thesis
      using ps(1,5) toks ne by (intro exI[of _ ?qs]) simp
  qed
qed

text \<open>
  C26. The tokens of a source text are found at strictly increasing positions, ending at the end of the text:
  the token at a position is what the lexer reads there, and the line it carries, which later
  error messages quote, is one more than the number of newlines before it, comments, string
  literals and heredocs included. The last token is the end marker.
\<close>

theorem tokenize_lines:
  assumes "tokenize d src = Inr toks"
  shows "\<exists>ps. length ps = length toks \<and> sorted_wrt (<) ps \<and> last ps = length src \<and>
     tokType (last toks) = EndTok \<and>
     (\<forall>i<length toks. tokLine (toks ! i) = 1 + newlines (take (ps ! i) src)) \<and>
     (\<forall>i. Suc i < length toks \<longrightarrow>
        (\<exists>r l'. lexToken d (drop (ps ! i) src) (tokLine (toks ! i)) = Inr (toks ! i, r, l')))"
  using tokenizeFrom_lines[of d src 1 toks] assms unfolding tokenize_def by blast


theorem tokenize_lines_witness:
  "\<exists>toks ps. tokenize FluffOS ([CHR ''a'', lxNl] @ ''b;'') = Inr toks \<and> length toks = 4 \<and>
     length ps = length toks \<and> sorted_wrt (<) ps \<and> last ps = 4 \<and>
     (\<forall>i<length toks. tokLine (toks ! i) = 1 + newlines (take (ps ! i) ([CHR ''a'', lxNl] @ ''b;'')))"
proof -
  have t: "tokenize FluffOS ([CHR ''a'', lxNl] @ ''b;'') =
      Inr [mkTok Ident ''a'' 1, mkTok Ident ''b'' 2, mkTok SymbolTok '';'' 2, mkTok EndTok [] 2]"
    by code_simp
  have len: "length [mkTok Ident ''a'' 1, mkTok Ident ''b'' 2, mkTok SymbolTok '';'' 2, mkTok EndTok [] 2] = 4"
    "length ([CHR ''a'', lxNl] @ ''b;'') = 4" by simp_all
  from tokenize_lines[OF t] show ?thesis using t len by metis
qed


end
