(* ===== verification/Preprocess.thy ===== *)
theory Preprocess
  imports Lexer
begin

text \<open>
  What \<^verbatim>\<open>src/object/ObjectManager.cpp\<close> does with a source text before and after the system's C preprocessor: the masking of LPC
  tokens the preprocessor would spoil, the splicing of includes, the rewriting of \<^verbatim>\<open>efun_defined\<close> and numeric \<^verbatim>\<open>#ifdef\<close>, and the
  command line it is started with. The file system is a function from paths to the contents that \<^verbatim>\<open>std::ifstream\<close> reads.
\<close>

section \<open>Lines and directives\<close>

lemma tl_dropWhile_less: "s \<noteq> [] \<Longrightarrow> length (tl (dropWhile P s)) < length s"
  using length_dropWhile_le[of P s] by (cases s) auto

text \<open>\<^verbatim>\<open>std::getline\<close> until the end: a final line feed ends the last line and starts no other.\<close>

function getlines :: "string \<Rightarrow> string list" where
  "getlines s =
     (if s = [] then []
      else takeWhile (\<lambda>c. c \<noteq> lxNl) s # getlines (tl (dropWhile (\<lambda>c. c \<noteq> lxNl) s)))"
  by pat_completeness auto
termination
  by (relation "measure length") (simp_all add: tl_dropWhile_less del: length_tl)

declare getlines.simps [simp del]

abbreviation blank :: "char \<Rightarrow> bool" where
  "blank c \<equiv> c = CHR '' '' \<or> c = lxTab"

text \<open>\<^verbatim>\<open>line.find_first_not_of(" \t", pos)\<close>\<close>

definition firstNot :: "string \<Rightarrow> nat \<Rightarrow> nat option" where
  "firstNot line pos = find_from (\<lambda>c. \<not> blank c) line pos"

text \<open>Where the sharp, the word behind it and the end of that word are; a line without a word behind a sharp is no directive.\<close>

definition directive :: "string \<Rightarrow> (nat \<times> nat \<times> nat) option" where
  "directive line =
     (case firstNot line 0 of
        None \<Rightarrow> None
      | Some h \<Rightarrow>
          if line ! h \<noteq> CHR ''#'' then None
          else (case firstNot line (h + 1) of
                  None \<Rightarrow> None
                | Some k \<Rightarrow> Some (h, k, k + length (takeWhile isalpha (drop k line)))))"

definition between :: "string \<Rightarrow> nat \<Rightarrow> nat \<Rightarrow> string" where
  "between line a b = take (b - a) (drop a line)"

section \<open>Splicing includes\<close>

type_synonym files = "string \<Rightarrow> string option"
type_synonym macro_defs = "string \<rightharpoonup> string"

record pp_env =
  ppFiles :: files
  ppMudlibRoot :: string
  ppIncludeDirs :: "string list"

text \<open>\<^verbatim>\<open>#define NAME "text"\<close> is remembered, unless \<open>NAME\<close> takes parameters.\<close>

definition noteDefine :: "string \<Rightarrow> nat \<Rightarrow> macro_defs \<Rightarrow> macro_defs" where
  "noteDefine line kwEnd macroDefs =
     (case firstNot line kwEnd of
        None \<Rightarrow> macroDefs
      | Some nameStart \<Rightarrow>
          let nameEnd = nameStart + length (takeWhile identChar (drop nameStart line)) in
          if nameStart < nameEnd \<and> (length line \<le> nameEnd \<or> line ! nameEnd \<noteq> CHR ''('')
          then (case find_from (\<lambda>c. c = lxQuote) line nameEnd of
                  None \<Rightarrow> macroDefs
                | Some q1 \<Rightarrow>
                    (case find_from (\<lambda>c. c = lxQuote) line (q1 + 1) of
                       None \<Rightarrow> macroDefs
                     | Some q2 \<Rightarrow> macroDefs(between line nameStart nameEnd \<mapsto> between line (q1 + 1) q2)))
          else macroDefs)"

record include_target =
  itPath :: string
  itQuoted :: bool
  itExpanded :: "string option"

text \<open>Between quotes, else between angle brackets, else by the name of a macro.\<close>

definition includeTarget :: "macro_defs \<Rightarrow> string \<Rightarrow> nat \<Rightarrow> nat \<Rightarrow> include_target option" where
  "includeTarget macroDefs line kwStart kwEnd =
     (case find_from (\<lambda>c. c = lxQuote) line kwEnd of
        Some q1 \<Rightarrow>
          map_option (\<lambda>q2. \<lparr>itPath = between line (q1 + 1) q2, itQuoted = True, itExpanded = None\<rparr>)
            (find_from (\<lambda>c. c = lxQuote) line (q1 + 1))
      | None \<Rightarrow>
          (case find_from (\<lambda>c. c = CHR ''<'') line kwEnd of
             Some a1 \<Rightarrow>
               map_option (\<lambda>a2. \<lparr>itPath = between line (a1 + 1) a2, itQuoted = False, itExpanded = None\<rparr>)
                 (find_from (\<lambda>c. c = CHR ''>'') line (a1 + 1))
           | None \<Rightarrow>
               (case firstNot line kwEnd of
                  None \<Rightarrow> None
                | Some nameStart \<Rightarrow>
                    let nameEnd = length line - length (takeWhile (\<lambda>c. blank c \<or> c = lxCr) (rev line)) in
                    if nameEnd \<le> nameStart then None
                    else (case macroDefs (between line nameStart nameEnd) of
                            None \<Rightarrow> None
                          | Some path \<Rightarrow>
                              Some \<lparr>itPath = path, itQuoted = True,
                                    itExpanded = Some (take kwStart line @ ''include '' @ [lxQuote] @ path @ [lxQuote])\<rparr>))))"

definition isAbsolute :: "string \<Rightarrow> bool" where
  "isAbsolute path \<longleftrightarrow> path \<noteq> [] \<and> hd path = CHR ''/''"

text \<open>The first readable candidate.\<close>

definition includeFile :: "pp_env \<Rightarrow> string \<Rightarrow> include_target \<Rightarrow> string option" where
  "includeFile env currentDir t =
     (let candidates =
        (if isAbsolute (itPath t) then [ppMudlibRoot env @ itPath t]
         else map (\<lambda>d. d @ ''/'' @ itPath t)
           ((if itQuoted t \<and> currentDir \<noteq> [] then [currentDir] else []) @ ppIncludeDirs env)) in
      find (\<lambda>p. ppFiles env p \<noteq> None) candidates)"

text \<open>An include that is not spliced keeps its line; the path of an absolute one gets the mudlib root.\<close>

definition keptInclude :: "pp_env \<Rightarrow> string \<Rightarrow> nat \<Rightarrow> include_target \<Rightarrow> string" where
  "keptInclude env line kwEnd t =
     (let l = (case itExpanded t of None \<Rightarrow> line | Some x \<Rightarrow> x) in
      if isAbsolute (itPath t)
      then (case find_from (\<lambda>c. c = lxQuote) l kwEnd of
              None \<Rightarrow> l
            | Some p \<Rightarrow> if p + 1 < length l \<and> l ! (p + 1) = CHR ''/'' then take (p + 1) l @ ppMudlibRoot env @ drop (p + 1) l else l)
      else l)"

text \<open>\<^verbatim>\<open>path.substr(0, path.find_last_of('/'))\<close>\<close>

definition dirName :: "string \<Rightarrow> string" where
  "dirName path =
     (if CHR ''/'' \<in> set path then take (length path - length (takeWhile (\<lambda>c. c \<noteq> CHR ''/'') (rev path)) - 1) path else path)"

section \<open>Masking\<close>

definition kHashQuoteMarker :: string where
  "kHashQuoteMarker = ''__KJDMUD_HASHQUOTE_MARKER__''"

definition kDotDotMarker :: string where
  "kDotDotMarker = ''__KJDMUD_DOTDOT__''"

text \<open>The argument says whether the character before was an apostrophe.\<close>

fun maskHashQuoteFrom :: "bool \<Rightarrow> string \<Rightarrow> string" where
  "maskHashQuoteFrom tick [] = []"
| "maskHashQuoteFrom tick [c] = [c]"
| "maskHashQuoteFrom tick (c # e # s) =
     (if c = CHR ''#'' \<and> e = lxTick \<and> \<not> tick then kHashQuoteMarker @ maskHashQuoteFrom True s
      else c # maskHashQuoteFrom (c = lxTick) (e # s))"

definition maskHashQuote :: "string \<Rightarrow> string" where
  "maskHashQuote source = maskHashQuoteFrom False source"

datatype mask_mode = MCode | MDQuote | MSQuote | MLineComment | MBlockComment

text \<open>\<open>dots\<close> is what two dots in code are replaced by.\<close>

fun maskDots :: "string \<Rightarrow> mask_mode \<Rightarrow> string \<Rightarrow> string" where
  "maskDots dots m [] = []"
| "maskDots dots MLineComment (c # s) = c # maskDots dots (if c = lxNl then MCode else MLineComment) s"
| "maskDots dots MBlockComment (c # s) =
     (case s of
        e # s' \<Rightarrow> if c = CHR ''*'' \<and> e = CHR ''/'' then c # e # maskDots dots MCode s' else c # maskDots dots MBlockComment s
      | [] \<Rightarrow> [c])"
| "maskDots dots MDQuote (c # s) =
     (case s of
        e # s' \<Rightarrow>
          if c = lxBackslash then c # e # maskDots dots MDQuote s'
          else c # maskDots dots (if c = lxQuote then MCode else MDQuote) s
      | [] \<Rightarrow> [c])"
| "maskDots dots MSQuote (c # s) =
     (case s of
        e # s' \<Rightarrow>
          if c = lxBackslash then c # e # maskDots dots MSQuote s'
          else c # maskDots dots (if c = lxTick then MCode else MSQuote) s
      | [] \<Rightarrow> [c])"
| "maskDots dots MCode (c # s) =
     (case s of
        e # s' \<Rightarrow>
          if c = CHR ''/'' \<and> e = CHR ''/'' then c # e # maskDots dots MLineComment s'
          else if c = CHR ''/'' \<and> e = CHR ''*'' then c # e # maskDots dots MBlockComment s'
          else if c = lxQuote then c # maskDots dots MDQuote s
          else if c = lxTick then c # maskDots dots MSQuote s
          else if c = CHR ''.'' \<and> e = CHR ''.'' then
            (if s' \<noteq> [] \<and> hd s' = CHR ''.'' then ''...'' @ maskDots dots MCode (tl s')
             else '' '' @ dots @ '' '' @ maskDots dots MCode s')
          else c # maskDots dots MCode s
      | [] \<Rightarrow> [c])"

definition maskDotDot :: "string \<Rightarrow> string" where
  "maskDotDot source = maskDots kDotDotMarker MCode source"

definition maskForSystemCpp :: "string \<Rightarrow> string" where
  "maskForSystemCpp source = maskDotDot (maskHashQuote source)"

text \<open>Every occurrence of a marker, from left to right, is replaced.\<close>

function unmaskMarker :: "string \<Rightarrow> string \<Rightarrow> string \<Rightarrow> string" where
  "unmaskMarker marker text [] = []"
| "unmaskMarker marker text (c # s) =
     (if marker \<noteq> [] \<and> take (length marker) (c # s) = marker then text @ unmaskMarker marker text (drop (length marker) (c # s))
      else c # unmaskMarker marker text s)"
  by pat_completeness auto
termination
  by (relation "measure (\<lambda>(m, t, s). length s)") auto

definition unmaskHashQuote :: "string \<Rightarrow> string" where
  "unmaskHashQuote text = unmaskMarker kHashQuoteMarker [CHR ''#'', lxTick] text"

definition unmaskDotDot :: "string \<Rightarrow> string" where
  "unmaskDotDot text = unmaskMarker kDotDotMarker ''..'' text"

definition unmaskAfterSystemCpp :: "string \<Rightarrow> string" where
  "unmaskAfterSystemCpp text = unmaskDotDot (unmaskHashQuote text)"

definition unlines :: "string list \<Rightarrow> string" where
  "unlines ls = concat (map (\<lambda>l. l @ [lxNl]) ls)"

definition stripLineMarkers :: "string \<Rightarrow> string" where
  "stripLineMarkers text =
     unlines (filter (\<lambda>l. case firstNot l 0 of None \<Rightarrow> True | Some i \<Rightarrow> l ! i \<noteq> CHR ''#'') (getlines text))"

section \<open>The recursive splicing\<close>

text \<open>
  One line, with the splicing of a file behind it as the argument \<open>into\<close>: its source, its directory, the files being spliced and the
  macros seen so far. It gives the text that replaces the line.
\<close>

definition rewriteLine ::
  "(string \<Rightarrow> string \<Rightarrow> string list \<Rightarrow> macro_defs \<Rightarrow> string \<times> macro_defs) \<Rightarrow> pp_env \<Rightarrow> string \<Rightarrow> string list \<Rightarrow> string \<Rightarrow> macro_defs \<Rightarrow>
   string \<times> macro_defs" where
  "rewriteLine into env currentDir active line macroDefs =
     (case directive line of
        None \<Rightarrow> (line @ [lxNl], macroDefs)
      | Some (h, kwStart, kwEnd) \<Rightarrow>
          let word = between line kwStart kwEnd in
          if word = ''define'' then (line @ [lxNl], noteDefine line kwEnd macroDefs)
          else if word = ''include'' then
            (case includeTarget macroDefs line kwStart kwEnd of
               None \<Rightarrow> (line @ [lxNl], macroDefs)
             | Some t \<Rightarrow>
                 (case includeFile env currentDir t of
                    Some path \<Rightarrow>
                      if path \<in> set active then (keptInclude env line kwEnd t @ [lxNl], macroDefs)
                      else let (out, md) = into (maskForSystemCpp (the (ppFiles env path))) (dirName path) (path # active) macroDefs in
                        (out @ [lxNl], md)
                  | None \<Rightarrow> (keptInclude env line kwEnd t @ [lxNl], macroDefs)))
          else (line @ [lxNl], macroDefs))"

primrec rewriteLines ::
  "(string \<Rightarrow> string \<Rightarrow> string list \<Rightarrow> macro_defs \<Rightarrow> string \<times> macro_defs) \<Rightarrow> pp_env \<Rightarrow> string \<Rightarrow> string list \<Rightarrow> string list \<Rightarrow> macro_defs \<Rightarrow>
   string \<times> macro_defs" where
  "rewriteLines into env dir active [] md = ([], md)"
| "rewriteLines into env dir active (l # ls) md =
     (let (a, md1) = rewriteLine into env dir active l md; (b, md2) = rewriteLines into env dir active ls md1 in (a @ b, md2))"

text \<open>The first argument is how much deeper the recursion may go: 65 at the start, since the code stops beyond depth 64.\<close>

primrec rewriteIncludes :: "nat \<Rightarrow> pp_env \<Rightarrow> string \<Rightarrow> string \<Rightarrow> string list \<Rightarrow> macro_defs \<Rightarrow> string \<times> macro_defs" where
  "rewriteIncludes 0 env source dir active md = (source, md)"
| "rewriteIncludes (Suc n) env source dir active md = rewriteLines (rewriteIncludes n env) env dir active (getlines source) md"

definition rewriteAbsoluteIncludesRecursive :: "pp_env \<Rightarrow> string \<Rightarrow> string \<Rightarrow> macro_defs \<Rightarrow> string \<times> macro_defs" where
  "rewriteAbsoluteIncludesRecursive env source dir md = rewriteIncludes 65 env source dir [] md"

section \<open>efun_defined and numeric ifdef\<close>

text \<open>\<open>( name )\<close> with blanks: the name and what follows.\<close>

definition callArgument :: "string \<Rightarrow> (string \<times> string) option" where
  "callArgument s =
     (let t = dropWhile blank s in
      if t = [] \<or> hd t \<noteq> CHR ''('' then None
      else let u = dropWhile blank (tl t); v = dropWhile blank (dropWhile identChar u) in
        if takeWhile identChar u = [] \<or> v = [] \<or> hd v \<noteq> CHR '')'' then None else Some (takeWhile identChar u, tl v))"

lemma callArgument_shorter: "callArgument s = Some (n, r) \<Longrightarrow> length r < length s"
proof -
  assume "callArgument s = Some (n, r)"
  then obtain t u v where t: "t = dropWhile blank s" "t \<noteq> []" "u = dropWhile blank (tl t)" "v = dropWhile blank (dropWhile identChar u)"
    "v \<noteq> []" "r = tl v" by (auto simp: callArgument_def Let_def split: if_splits)
  have "length v \<le> length (tl t)" using t length_dropWhile_le le_trans by metis
  moreover have "length t \<le> length s" using t(1) length_dropWhile_le by metis
  ultimately show ?thesis using t(2,5,6) by (cases t; cases v) auto
qed

lemma efun_found: "find_sub ''efun_defined'' s = Some i \<Longrightarrow> i + 12 \<le> length s"
  using find_sub_Some_take[of "''efun_defined''" s i] by simp

function efunDefinedIn :: "(string \<Rightarrow> bool) \<Rightarrow> string \<Rightarrow> string" where
  "efunDefinedIn efunExists s =
     (case find_sub ''efun_defined'' s of
        None \<Rightarrow> s
      | Some i \<Rightarrow>
          (case callArgument (drop (i + 12) s) of
             None \<Rightarrow> take (i + 12) s @ efunDefinedIn efunExists (drop (i + 12) s)
           | Some (name, rest) \<Rightarrow> take i s @ (if efunExists name then ''1'' else ''0'') @ efunDefinedIn efunExists rest))"
  by pat_completeness auto
termination
proof (relation "measure (\<lambda>(e, s). length s)", goal_cases)
  case (2 e s i)
  then have "i + 12 \<le> length s" using efun_found by blast
  then show ?case by simp
next
  case (3 e s i x name rest)
  then have "i + 12 \<le> length s" "length rest < length (drop (i + 12) s)" using efun_found callArgument_shorter by blast+
  then show ?case by simp
qed simp

declare efunDefinedIn.simps [simp del]

definition rewriteEfunDefined :: "(string \<Rightarrow> bool) \<Rightarrow> string \<Rightarrow> string" where
  "rewriteEfunDefined efunExists source =
     unlines (map (\<lambda>line.
       (case directive line of
          None \<Rightarrow> line
        | Some (h, kwStart, kwEnd) \<Rightarrow>
            if between line kwStart kwEnd = ''if'' \<or> between line kwStart kwEnd = ''elif''
            then take kwEnd line @ efunDefinedIn efunExists (drop kwEnd line) else line)) (getlines source))"

text \<open>\<^verbatim>\<open>#ifdef 1\<close> becomes \<^verbatim>\<open>#if 1\<close>; \<^verbatim>\<open>std::stol\<close> throws when the number is too large.\<close>

definition numericIfdefLine :: "string \<Rightarrow> string res" where
  "numericIfdefLine line =
     (case directive line of
        None \<Rightarrow> Inr line
      | Some (h, kwStart, kwEnd) \<Rightarrow>
          let kw = between line kwStart kwEnd in
          if kw = ''ifdef'' \<or> kw = ''ifndef'' then
            (case firstNot line kwEnd of
               None \<Rightarrow> Inr line
             | Some a \<Rightarrow>
                 let num = takeWhile isdigit (drop a line); argEnd = a + length num; after = firstNot line argEnd in
                 if num \<noteq> [] \<and> (case after of None \<Rightarrow> True | Some i \<Rightarrow> line ! i = CHR ''/'' \<or> line ! i = lxBackslash) then
                   res_bind (stoll num) (\<lambda>value.
                     let suffix = (case after of None \<Rightarrow> [] | Some i \<Rightarrow> drop i line);
                         suffix1 = (if suffix \<noteq> [] \<and> \<not> blank (hd suffix) then CHR '' '' # suffix else suffix) in
                     Inr (take h line @ ''#if '' @ (if (value \<noteq> 0) = (kw = ''ifdef'') then ''1'' else ''0'') @ suffix1))
                 else Inr line)
          else Inr line)"

fun mapRes :: "('a \<Rightarrow> 'b res) \<Rightarrow> 'a list \<Rightarrow> 'b list res" where
  "mapRes f [] = Inr []"
| "mapRes f (x # xs) = res_bind (f x) (\<lambda>y. res_bind (mapRes f xs) (\<lambda>ys. Inr (y # ys)))"

definition rewriteNumericIfdef :: "string \<Rightarrow> string res" where
  "rewriteNumericIfdef source = res_bind (mapRes numericIfdefLine (getlines source)) (\<lambda>ls. Inr (unlines ls))"

section \<open>The staged source\<close>

definition globalHeader :: "pp_env \<Rightarrow> string \<Rightarrow> string option" where
  "globalHeader env gif =
     (if 2 \<le> length gif \<and> hd gif = CHR ''<'' \<and> last gif = CHR ''>''
      then find (\<lambda>d. ppFiles env (d @ ''/'' @ butlast (tl gif)) \<noteq> None) (ppIncludeDirs env) else None)"

definition globalPrefix :: "pp_env \<Rightarrow> string \<Rightarrow> string \<times> macro_defs" where
  "globalPrefix env gif =
     (if gif = [] then ([], Map.empty)
      else (case globalHeader env gif of
              Some dir \<Rightarrow>
                rewriteAbsoluteIncludesRecursive env (maskForSystemCpp (the (ppFiles env (dir @ ''/'' @ butlast (tl gif))))) dir Map.empty
            | None \<Rightarrow> rewriteAbsoluteIncludesRecursive env (''#include '' @ gif @ [lxNl]) (ppMudlibRoot env) Map.empty))"

text \<open>The text for the preprocessor: the global header, a line marker, the source with its includes spliced.\<close>

definition stageSourceForPreprocessing :: "pp_env \<Rightarrow> (string \<Rightarrow> bool) \<Rightarrow> string \<Rightarrow> string \<Rightarrow> string \<Rightarrow> string res" where
  "stageSourceForPreprocessing env efunExists gif path source =
     (let (prefix, md) = globalPrefix env gif;
          (body, _) = rewriteAbsoluteIncludesRecursive env (maskForSystemCpp source) (dirName path) md in
      rewriteNumericIfdef (rewriteEfunDefined efunExists
        (prefix @ ''# 1 '' @ [lxQuote] @ path @ [lxQuote, lxNl] @ body)))"

section \<open>The command line\<close>

definition shellQuote :: "string \<Rightarrow> string" where
  "shellQuote s =
     [lxTick] @ concat (map (\<lambda>c. if c = lxTick then [lxTick, lxBackslash, lxTick, lxTick] else [c]) s) @ [lxTick]"

definition escapedQuotes :: "string \<Rightarrow> string" where
  "escapedQuotes s = [lxBackslash, lxQuote] @ s @ [lxBackslash, lxQuote]"

definition kFluffosPredefinedMacros :: "(string \<times> string) list" where
  "kFluffosPredefinedMacros =
    [(''__STRIP_BEFORE_PROCESS_INPUT__'', []), (''__NO_LIGHT__'', []), (''__CUSTOM_CRYPT__'', []),
     (''__RECEIVE_SNOOP__'', []), (''__ARGUMENTS_IN_TRACEBACK__'', []), (''__NEXT_MALLOC_DEBUG__'', []),
     (''__ARRAY_STATS__'', []), (''__LOCALS_IN_TRACEBACK__'', []), (''__SYSMALLOC__'', []),
     (''__CFG_MAX_CALL_DEPTH__'', ''150''), (''__SAVE_EXTENSION__'', escapedQuotes ''.o''), (''__LOG_CATCHES__'', []),
     (''__NONINTERACTIVE_STDERR_WRITE__'', []), (''__SMALL_STRING_SIZE__'', ''100''), (''__CALLOUT_CYCLE_SIZE__'', ''32''),
     (''__PACKAGE_MATH__'', []), (''__PACKAGE_DEVELOP__'', []), (''__SUPPRESS_ARGUMENT_WARNINGS__'', []),
     (''__LARGEST_PRINTABLE_STRING__'', ''8192''), (''__CFG_LIVING_HASH_SIZE__'', ''256''), (''__CACHE_STATS__'', []),
     (''__CONFIG_FILE_DIR__'', escapedQuotes ''./''), (''__PARSE_DEBUG__'', []), (''__TRAP_CRASHES__'', []),
     (''__RESTRICTED_ED__'', []), (''__STRING_STATS__'', []), (''__CALLOUT_HANDLES__'', []), (''__FLUFFOS__'', []),
     (''__CFG_COMPILER_STACK_SIZE__'', ''600000''), (''__LARGE_STRING_SIZE__'', ''1000''),
     (''__HEARTBEAT_INTERVAL__'', ''1''), (''__PACKAGE_MATRIX__'', []), (''__PRIVS__'', []),
     (''__COMMAND_BUF_SIZE__'', ''2000''), (''__OLD_ED__'', []), (''__PACKAGE_PARSER__'', []),
     (''__THIS_PLAYER_IN_CALL_OUT__'', []), (''__PACKAGE_CONTRIB__'', []),
     (''__ALLOW_INHERIT_AFTER_GLOBAL_VARIABLES__'', []), (''__CFG_MAX_LOCAL_VARIABLES__'', ''50''),
     (''__MESSAGE_BUFFER_SIZE__'', ''4096''), (''__SAVE_GZ_EXTENSION__'', escapedQuotes ''.o.gz''), (''__PACKAGE_SOCKETS__'', []),
     (''__NUM_EXTERNAL_CMDS__'', ''100''), (''__HEART_BEAT_CHUNK__'', ''32''), (''__INTERACTIVE_CATCH_TELL__'', []),
     (''__MAX_SAVE_SVALUE_DEPTH__'', ''100''), (''__DEFAULT_PRAGMAS__'', ''0''), (''__NO_ANSI__'', []),
     (''__HAS_STATUS_TYPE__'', []), (''__CFG_EVALUATOR_STACK_SIZE__'', ''3000''), (''__PACKAGE_MUDLIB_STATS__'', []),
     (''__WARN_TAB__'', []), (''__ALLOW_INHERIT_AFTER_FUNCTION__'', []), (''__APPLY_CACHE_BITS__'', ''11''),
     (''__MUDLIB_ERROR_HANDLER__'', [])]"

definition kFluffosRuntimePredefinedMacros :: "(string \<times> string) list" where
  "kFluffosRuntimePredefinedMacros =
    [(''MUDOS'', []), (''__VERSION__'', escapedQuotes ''2.9-ds2.08''), (''__ARCH__'', escapedQuotes ''Linux''),
     (''__COMPILER__'', escapedQuotes ''g++''), (''__OPTIMIZATION__'', escapedQuotes ''-O2''), (''SIZEOFINT'', ''8''),
     (''MAX_INT'', ''9223372036854775807'')]"

definition kPcrePackagePredefinedMacros :: "(string \<times> string) list" where
  "kPcrePackagePredefinedMacros =
    [(''__PACKAGE_PCRE__'', []), (''PCRE_DEFAULT'', ''0''), (''PCRE_I'', ''65536''), (''PCRE_M'', ''131072''),
     (''PCRE_S'', ''262144''), (''PCRE_U'', ''524288''), (''PCRE_X'', ''1048576''), (''PCRE_A'', ''2097152'')]"

definition macroFlags :: "(string \<times> string) list \<Rightarrow> string" where
  "macroFlags ms = concat (map (\<lambda>(n, v). '' -D'' @ n @ ''='' @ v) ms)"

record pp_config =
  pcPort :: int
  pcMudName :: string

definition buildPredefinedMacroFlags :: "pp_config \<Rightarrow> string \<Rightarrow> string" where
  "buildPredefinedMacroFlags config compiledFilename =
     (let lpcFile = compiledFilename @ ''.c'';
          lpcDir = (if CHR ''/'' \<in> set lpcFile then dirName lpcFile @ ''/'' else []) in
      macroFlags kFluffosPredefinedMacros @ macroFlags kFluffosRuntimePredefinedMacros @ macroFlags kPcrePackagePredefinedMacros @
      '' -D__PORT__='' @ to_string (pcPort config) @ '' '' @
      shellQuote (''-DMUD_NAME='' @ [lxQuote] @ pcMudName config @ [lxQuote]) @
      '' -D__FILE__='' @ escapedQuotes lpcFile @ '' -D__DIR__='' @ escapedQuotes lpcDir)"

definition preprocessorCommand :: "pp_config \<Rightarrow> string list \<Rightarrow> string \<Rightarrow> string \<Rightarrow> string \<Rightarrow> string \<Rightarrow> string" where
  "preprocessorCommand config includeDirs originalSourceDir compiledFilename sourcePath errPath =
     ''cc -E -I '' @ shellQuote ''.'' @ '' -I '' @ shellQuote originalSourceDir @
     concat (map (\<lambda>d. '' -I '' @ shellQuote d) includeDirs) @
     buildPredefinedMacroFlags config compiledFilename @ '' -x c '' @ shellQuote sourcePath @ '' 2>'' @ shellQuote errPath"

text \<open>The raw list of include directories, separated by colons.\<close>

function splitAt :: "char \<Rightarrow> string \<Rightarrow> string list" where
  "splitAt sep s =
     takeWhile (\<lambda>c. c \<noteq> sep) s #
     (if dropWhile (\<lambda>c. c \<noteq> sep) s = [] then [] else splitAt sep (tl (dropWhile (\<lambda>c. c \<noteq> sep) s)))"
  by pat_completeness auto
termination
  by (relation "measure (\<lambda>(c, s). length s)") (auto intro: tl_dropWhile_less simp del: length_tl)

declare splitAt.simps [simp del]

definition splitIncludeDirs :: "string \<Rightarrow> string \<Rightarrow> string list" where
  "splitIncludeDirs raw mudlibRoot =
     map (\<lambda>e. if hd e \<noteq> CHR ''/'' then mudlibRoot @ ''/'' @ e else e) (filter (\<lambda>e. e \<noteq> []) (splitAt (CHR '':'') raw))"

definition normalizeFilename :: "string \<Rightarrow> string" where
  "normalizeFilename filename =
     (let r = (if 2 \<le> length filename \<and> drop (length filename - 2) filename = ''.c'' then take (length filename - 2) filename else filename) in
      if r = [] \<or> hd r \<noteq> CHR ''/'' then CHR ''/'' # r else r)"

section \<open>Masking is undone\<close>

text \<open>
  A source as pieces: characters, masked hash quotes and masked dots. \<open>render h d\<close> writes the pieces with \<open>h\<close> for a hash quote and
  \<open>d\<close> for two dots with blanks around them.
\<close>

datatype piece = PChar char | PHash | PDots

fun sourceOf :: "piece \<Rightarrow> string" where
  "sourceOf (PChar c) = [c]" | "sourceOf PHash = [CHR ''#'', lxTick]" | "sourceOf PDots = ''..''"

fun renderOf :: "string \<Rightarrow> string \<Rightarrow> piece \<Rightarrow> string" where
  "renderOf h d (PChar c) = [c]" | "renderOf h d PHash = h" | "renderOf h d PDots = '' '' @ d @ '' ''"

abbreviation "source ps \<equiv> concat (map sourceOf ps)"
abbreviation "render h d ps \<equiv> concat (map (renderOf h d) ps)"

lemma hash_pieces: "\<exists>ps. source ps = s \<and> render kHashQuoteMarker d ps = maskHashQuoteFrom tick s \<and> PDots \<notin> set ps"
proof (induction tick s rule: maskHashQuoteFrom.induct)
  case (1 tick)
  show ?case by (rule exI[of _ "[]"]) simp
next
  case (2 tick c)
  show ?case by (rule exI[of _ "[PChar c]"]) simp
next
  case (3 tick c e s)
  show ?case
  proof (cases "c = CHR ''#'' \<and> e = lxTick \<and> \<not> tick")
    case True
    then obtain ps where "source ps = s" "render kHashQuoteMarker d ps = maskHashQuoteFrom True s" "PDots \<notin> set ps" using 3(1) by blast
    then show ?thesis using True by (intro exI[of _ "PHash # ps"]) simp
  next
    case False
    then obtain ps where "source ps = e # s" "render kHashQuoteMarker d ps = maskHashQuoteFrom (c = lxTick) (e # s)" "PDots \<notin> set ps"
      using 3(2) by blast
    then show ?thesis using False by (intro exI[of _ "PChar c # ps"]) auto
  qed
qed

text \<open>Characters that the masking of dots copies in every mode.\<close>

definition neutral :: "char \<Rightarrow> bool" where
  "neutral c \<longleftrightarrow> c \<notin> {CHR ''/'', CHR ''*'', CHR ''.'', lxQuote, lxTick, lxBackslash, lxNl}"

lemma maskDots_nil [simp]: "maskDots d m [] = []"
  by (cases m) simp_all

lemma maskDots_neutral:
  assumes "neutral c"
  shows "maskDots d m (c # s) = c # maskDots d m s"
  using assms by (cases m; cases s) (auto simp: neutral_def)

lemma maskDots_neutrals: "\<forall>c\<in>set w. neutral c \<Longrightarrow> maskDots d m (w @ s) = w @ maskDots d m s"
  by (induction w) (simp_all add: maskDots_neutral)

text \<open>One character that is not the first of two dots in code.\<close>

lemma maskDots_char:
  assumes "neutral e"
  shows "\<exists>m'. maskDots d m (c # e # s) = c # maskDots d m' (e # s)"
proof (cases m)
  case MCode
  show ?thesis
    by (rule exI[of _ "if c = lxQuote then MDQuote else if c = lxTick then MSQuote else MCode"]) (use assms MCode in \<open>auto simp: neutral_def\<close>)
next
  case MDQuote
  show ?thesis
    by (rule exI[of _ "if c = lxQuote then MCode else MDQuote"])
      (use assms MDQuote maskDots_neutral[OF assms, of d MDQuote s] in \<open>auto simp: neutral_def\<close>)
next
  case MSQuote
  show ?thesis
    by (rule exI[of _ "if c = lxTick then MCode else MSQuote"])
      (use assms MSQuote maskDots_neutral[OF assms, of d MSQuote s] in \<open>auto simp: neutral_def\<close>)
next
  case MLineComment
  show ?thesis by (rule exI[of _ "if c = lxNl then MCode else MLineComment"]) (simp add: MLineComment)
next
  case MBlockComment
  show ?thesis by (rule exI[of _ MBlockComment]) (use assms MBlockComment in \<open>auto simp: neutral_def\<close>)
qed

text \<open>Two characters: copied one or both, or two dots.\<close>

lemma maskDots_two:
  "(\<exists>m'. maskDots d m (c # e # s) = c # maskDots d m' (e # s)) \<or> (\<exists>m'. maskDots d m (c # e # s) = c # e # maskDots d m' s) \<or>
   c = CHR ''.'' \<and> e = CHR ''.'' \<and>
     (maskDots d m (c # e # s) = '' '' @ d @ '' '' @ maskDots d MCode s \<or>
      s \<noteq> [] \<and> hd s = CHR ''.'' \<and> maskDots d m (c # e # s) = ''...'' @ maskDots d MCode (tl s))"
proof (cases m)
  case MCode
  let ?x = "maskDots d m (c # e # s)"
  consider "c = CHR ''/''" "e = CHR ''/''" | "c = CHR ''/''" "e = CHR ''*''" | "c = CHR ''.''" "e = CHR ''.''" |
    "\<not> (c = CHR ''/'' \<and> (e = CHR ''/'' \<or> e = CHR ''*''))" "\<not> (c = CHR ''.'' \<and> e = CHR ''.'')" by blast
  then show ?thesis
  proof cases
    case 1
    then have "?x = c # e # maskDots d MLineComment s" using MCode by simp
    then show ?thesis by blast
  next
    case 2
    then have "?x = c # e # maskDots d MBlockComment s" using MCode by simp
    then show ?thesis by blast
  next
    case 3
    then show ?thesis using MCode by (cases "s \<noteq> [] \<and> hd s = CHR ''.''") simp_all
  next
    case 4
    then have "?x = c # maskDots d (if c = lxQuote then MDQuote else if c = lxTick then MSQuote else MCode) (e # s)"
      using MCode by auto
    then show ?thesis by blast
  qed
next
  case MDQuote
  then have "maskDots d m (c # e # s) = c # e # maskDots d MDQuote s \<or>
      maskDots d m (c # e # s) = c # maskDots d (if c = lxQuote then MCode else MDQuote) (e # s)" by simp
  then show ?thesis by blast
next
  case MSQuote
  then have "maskDots d m (c # e # s) = c # e # maskDots d MSQuote s \<or>
      maskDots d m (c # e # s) = c # maskDots d (if c = lxTick then MCode else MSQuote) (e # s)" by simp
  then show ?thesis by blast
next
  case MLineComment
  then have "maskDots d m (c # e # s) = c # maskDots d (if c = lxNl then MCode else MLineComment) (e # s)" by simp
  then show ?thesis by blast
next
  case MBlockComment
  then have "maskDots d m (c # e # s) = c # e # maskDots d MCode s \<or>
      maskDots d m (c # e # s) = c # maskDots d MBlockComment (e # s)" by simp
  then show ?thesis by blast
qed

lemma marker_neutral: "\<forall>c\<in>set kHashQuoteMarker. neutral c" "kHashQuoteMarker = CHR ''_'' # tl kHashQuoteMarker" "neutral (CHR ''_'')"
  by (simp_all add: kHashQuoteMarker_def neutral_def)

lemma marker_append: "kHashQuoteMarker @ x = CHR ''_'' # tl kHashQuoteMarker @ x"
  by (simp add: kHashQuoteMarker_def)

lemma dots_pieces:
  assumes "PDots \<notin> set ps"
  shows "\<exists>qs. source qs = source ps \<and> render kHashQuoteMarker d qs = maskDots d m (render kHashQuoteMarker d ps)"
  using assms
proof (induction "length ps" arbitrary: ps m rule: less_induct)
  case less
  show ?case
  proof (cases ps)
    case Nil
    show ?thesis by (rule exI[of _ "[]"]) (simp add: Nil)
  next
    case (Cons p ps1)
    have IH: "\<exists>qs. source qs = source rs \<and> render kHashQuoteMarker d qs = maskDots d m' (render kHashQuoteMarker d rs)"
      if "length rs < length ps" "set rs \<subseteq> set ps" for rs m'
      using less that by (metis subsetD)
    show ?thesis
    proof (cases p)
      case PDots
      then show ?thesis using less.prems Cons by simp
    next
      case PHash
      obtain qs where "source qs = source ps1" "render kHashQuoteMarker d qs = maskDots d m (render kHashQuoteMarker d ps1)"
        using IH[of ps1 m] Cons by auto
      then show ?thesis using PHash Cons maskDots_neutrals[OF marker_neutral(1)] by (intro exI[of _ "PHash # qs"]) simp
    next
      case (PChar c)
      show ?thesis
      proof (cases ps1)
        case Nil
        have "maskDots d m [c] = [c]" by (cases m) auto
        then show ?thesis using Nil PChar Cons by (intro exI[of _ "[PChar c]"]) simp
      next
        case (Cons p2 ps2)
        have ps: "ps = PChar c # p2 # ps2" using \<open>ps = p # ps1\<close> Cons PChar by simp
        show ?thesis
        proof (cases p2)
          case PDots
          then show ?thesis using less.prems ps by simp
        next
          case PHash
          obtain m' where "maskDots d m (c # CHR ''_'' # tl kHashQuoteMarker @ render kHashQuoteMarker d ps2) =
              c # maskDots d m' (CHR ''_'' # tl kHashQuoteMarker @ render kHashQuoteMarker d ps2)"
            using maskDots_char[OF marker_neutral(3)] by blast
          then have m': "maskDots d m (render kHashQuoteMarker d ps) = c # maskDots d m' (render kHashQuoteMarker d ps1)"
            unfolding ps Cons PHash by (simp add: marker_append)
          obtain qs where "source qs = source ps1" "render kHashQuoteMarker d qs = maskDots d m' (render kHashQuoteMarker d ps1)"
            using IH[of ps1 m'] ps Cons by auto
          then show ?thesis using m' ps Cons by (intro exI[of _ "PChar c # qs"]) simp
        next
          case (PChar e)
          let ?r = "render kHashQuoteMarker d ps2"
          have r: "render kHashQuoteMarker d ps = c # e # ?r" "source ps = c # e # source ps2" using ps PChar by simp_all
          from maskDots_two[of d m c e ?r] show ?thesis
          proof (elim disjE exE conjE)
            fix m' assume m': "maskDots d m (c # e # ?r) = c # maskDots d m' (e # ?r)"
            obtain qs where "source qs = source ps1" "render kHashQuoteMarker d qs = maskDots d m' (render kHashQuoteMarker d ps1)"
              using IH[of ps1 m'] ps Cons by auto
            then show ?thesis using m' r PChar Cons by (intro exI[of _ "PChar c # qs"]) simp
          next
            fix m' assume m': "maskDots d m (c # e # ?r) = c # e # maskDots d m' ?r"
            obtain qs where "source qs = source ps2" "render kHashQuoteMarker d qs = maskDots d m' ?r"
              using IH[of ps2 m'] ps by auto
            then show ?thesis using m' r by (intro exI[of _ "PChar c # PChar e # qs"]) simp
          next
            assume m': "c = CHR ''.''" "e = CHR ''.''" "maskDots d m (c # e # ?r) = '' '' @ d @ '' '' @ maskDots d MCode ?r"
            obtain qs where "source qs = source ps2" "render kHashQuoteMarker d qs = maskDots d MCode ?r"
              using IH[of ps2 MCode] ps by auto
            then show ?thesis using m' r by (intro exI[of _ "PDots # qs"]) simp
          next
            assume m': "c = CHR ''.''" "e = CHR ''.''" "?r \<noteq> []" "hd ?r = CHR ''.''"
              "maskDots d m (c # e # ?r) = ''...'' @ maskDots d MCode (tl ?r)"
            obtain p3 ps3 where p3: "ps2 = p3 # ps3" using m'(3) by (cases ps2) auto
            have "p3 = PChar (CHR ''.'')"
              using m'(3,4) p3 less.prems ps marker_neutral(2) by (cases p3) (auto simp: kHashQuoteMarker_def)
            moreover obtain qs where "source qs = source ps3" "render kHashQuoteMarker d qs = maskDots d MCode (render kHashQuoteMarker d ps3)"
              using IH[of ps3 MCode] ps p3 by auto
            ultimately show ?thesis using m' r p3 by (intro exI[of _ "PChar c # PChar e # p3 # qs"]) simp
          qed
        qed
      qed
    qed
  qed
qed

lemma take_marker: "take (length m) s = m \<longleftrightarrow> prefix m s"
  by (metis append_take_drop_id prefix_def append_eq_conv_conj)

lemma unmask_hit: "marker \<noteq> [] \<Longrightarrow> unmaskMarker marker text (marker @ s) = text @ unmaskMarker marker text s"
  by (cases marker) simp_all

lemma unmask_skip: "\<not> prefix marker (c # s) \<Longrightarrow> unmaskMarker marker text (c # s) = c # unmaskMarker marker text s"
  by (simp add: take_marker)

declare unmaskMarker.simps [simp del]

lemma unmask_nil [simp]: "unmaskMarker marker text [] = []"
  by (simp add: unmaskMarker.simps)

text \<open>A text without underscores, sharps and blanks stands in the rendered pieces only where it stands in the source.\<close>

lemma render_prefix:
  assumes "prefix w (render h d ps)" "CHR ''_'' \<notin> set w" "CHR ''#'' \<notin> set w" "CHR '' '' \<notin> set w"
    and "h = kHashQuoteMarker \<or> h = [CHR ''#'', lxTick]"
  shows "prefix w (source ps)"
  using assms(1-4)
proof (induction w arbitrary: ps)
  case Nil
  show ?case by simp
next
  case (Cons x w)
  then obtain p qs where ps: "ps = p # qs" by (cases ps) auto
  show ?case
  proof (cases p)
    case (PChar c)
    then show ?thesis using Cons ps by simp
  next
    case PHash
    then show ?thesis using Cons.prems ps assms(5) by (auto simp: kHashQuoteMarker_def)
  next
    case PDots
    then show ?thesis using Cons.prems ps by simp
  qed
qed

lemma unmask_char:
  assumes "\<not> sublist ''KJDMUD'' (c # source ps)" "prefix ''__KJDMUD'' marker" "h = kHashQuoteMarker \<or> h = [CHR ''#'', lxTick]"
  shows "unmaskMarker marker text (c # render h d ps) = c # unmaskMarker marker text (render h d ps)"
proof (rule unmask_skip, rule notI)
  assume "prefix marker (c # render h d ps)"
  then have "prefix ''__KJDMUD'' (c # render h d ps)" using assms(2) prefix_order.trans by blast
  then have "CHR ''_'' = c \<and> prefix ''_KJDMUD'' (render h d ps)" unfolding Cons_prefix_Cons .
  then have c: "CHR ''_'' = c" "prefix ''_KJDMUD'' (render h d ps)" by blast+
  then obtain p qs where ps: "ps = p # qs" by (cases ps) auto
  have "p = PChar (CHR ''_'')"
    using c(2) ps assms(3) by (cases p) (auto simp: kHashQuoteMarker_def)
  then have "prefix ''KJDMUD'' (render h d qs)" using c(2) ps by simp
  then have "prefix ''KJDMUD'' (source qs)" by (rule render_prefix) (use assms(3) in simp_all)
  then have "sublist ''KJDMUD'' (source qs)" by simp
  then have "sublist ''KJDMUD'' (c # source ps)" using ps by (simp add: sublist_Cons_right sublist_append)
  then show False using assms(1) by blast
qed

lemma sublist_tail: "\<not> sublist w (a @ s) \<Longrightarrow> \<not> sublist w s"
  by (simp add: sublist_append)

lemma unmask_hash:
  assumes "\<not> sublist ''KJDMUD'' (source ps)"
  shows "unmaskMarker kHashQuoteMarker [CHR ''#'', lxTick] (render kHashQuoteMarker kDotDotMarker ps) = render [CHR ''#'', lxTick] kDotDotMarker ps"
  using assms
proof (induction ps)
  case Nil
  show ?case by simp
next
  case (Cons p ps)
  have "\<not> sublist ''KJDMUD'' (source ps)" using Cons.prems sublist_tail[of _ "sourceOf p"] by simp
  then have IH: "unmaskMarker kHashQuoteMarker [CHR ''#'', lxTick] (render kHashQuoteMarker kDotDotMarker ps) = render [CHR ''#'', lxTick] kDotDotMarker ps" by (rule Cons.IH)
  show ?case
  proof (cases p)
    case (PChar c)
    then show ?thesis using Cons.prems IH unmask_char[of c ps kHashQuoteMarker kHashQuoteMarker]
      by (simp add: kHashQuoteMarker_def)
  next
    case PHash
    then show ?thesis using IH unmask_hit[of kHashQuoteMarker] by (simp add: kHashQuoteMarker_def)
  next
    case PDots
    have "unmaskMarker kHashQuoteMarker t ('' '' @ kDotDotMarker @ '' '' @ x) = '' '' @ kDotDotMarker @ '' '' @ unmaskMarker kHashQuoteMarker t x" for t x
      by (simp add: kDotDotMarker_def kHashQuoteMarker_def unmask_skip)
    then show ?thesis using PDots IH by simp
  qed
qed

lemma unmask_dots:
  assumes "\<not> sublist ''KJDMUD'' (source ps)"
  shows "unmaskMarker kDotDotMarker ''..'' (render [CHR ''#'', lxTick] kDotDotMarker ps) = render [CHR ''#'', lxTick] ''..'' ps"
  using assms
proof (induction ps)
  case Nil
  show ?case by simp
next
  case (Cons p ps)
  have "\<not> sublist ''KJDMUD'' (source ps)" using Cons.prems sublist_tail[of _ "sourceOf p"] by simp
  then have IH: "unmaskMarker kDotDotMarker ''..'' (render [CHR ''#'', lxTick] kDotDotMarker ps) = render [CHR ''#'', lxTick] ''..'' ps" by (rule Cons.IH)
  show ?case
  proof (cases p)
    case (PChar c)
    then show ?thesis using Cons.prems IH unmask_char[of c ps kDotDotMarker "[CHR ''#'', lxTick]"]
      by (simp add: kDotDotMarker_def)
  next
    case PHash
    then show ?thesis using IH by (simp add: kDotDotMarker_def unmask_skip)
  next
    case PDots
    have "unmaskMarker kDotDotMarker ''..'' ('' '' @ kDotDotMarker @ '' '' @ x) = '' .. '' @ unmaskMarker kDotDotMarker ''..'' x" for x
      using unmask_hit[of kDotDotMarker "''..''" "'' '' @ x"] by (simp add: kDotDotMarker_def unmask_skip)
    then show ?thesis using PDots IH by simp
  qed
qed

lemma unmask_pieces:
  assumes "\<not> sublist ''KJDMUD'' s"
  shows "\<exists>ps. source ps = s \<and> unmaskAfterSystemCpp (maskForSystemCpp s) = render [CHR ''#'', lxTick] ''..'' ps"
proof -
  obtain ps where ps: "source ps = s" "render kHashQuoteMarker kDotDotMarker ps = maskHashQuote s" "PDots \<notin> set ps"
    unfolding maskHashQuote_def using hash_pieces by blast
  then obtain qs where qs: "source qs = s" "render kHashQuoteMarker kDotDotMarker qs = maskForSystemCpp s"
    using dots_pieces[OF ps(3)] unfolding maskForSystemCpp_def maskDotDot_def by metis
  have free: "\<not> sublist ''KJDMUD'' (source qs)" using assms qs(1) by simp
  have "unmaskHashQuote (maskForSystemCpp s) = render [CHR ''#'', lxTick] kDotDotMarker qs"
    unfolding unmaskHashQuote_def qs(2)[symmetric] by (rule unmask_hash[OF free])
  then have "unmaskAfterSystemCpp (maskForSystemCpp s) = render [CHR ''#'', lxTick] ''..'' qs"
    unfolding unmaskAfterSystemCpp_def unmaskDotDot_def using unmask_dots[OF free] by simp
  then show ?thesis using qs(1) by blast
qed

text \<open>The second text is the first one with a blank on either side of some of its pairs of dots, and nothing else changed.\<close>

inductive dotsSpaced :: "string \<Rightarrow> string \<Rightarrow> bool" where
  spaced_nil: "dotsSpaced [] []"
| spaced_char: "dotsSpaced s t \<Longrightarrow> dotsSpaced (c # s) (c # t)"
| spaced_dots: "dotsSpaced s t \<Longrightarrow> dotsSpaced (''..'' @ s) ('' .. '' @ t)"

lemma render_spaced: "dotsSpaced (source ps) (render [CHR ''#'', lxTick] ''..'' ps)"
proof (induction ps)
  case (Cons p ps)
  then show ?case using spaced_dots spaced_char by (cases p) simp_all
qed (simp add: spaced_nil)

lemma render_plain: "\<not> sublist ''..'' (source ps) \<Longrightarrow> render [CHR ''#'', lxTick] ''..'' ps = source ps"
proof (induction ps)
  case (Cons p ps)
  have "\<not> sublist ''..'' (source ps)" using Cons.prems sublist_tail[of "''..''" "sourceOf p"] by simp
  then have "render [CHR ''#'', lxTick] ''..'' ps = source ps" by (rule Cons.IH)
  moreover have "p \<noteq> PDots"
  proof
    assume "p = PDots"
    then have "source (p # ps) = [] @ ''..'' @ source ps" by simp
    then show False using Cons.prems sublist_appendI by metis
  qed
  ultimately show ?case by (cases p) simp_all
qed simp

text \<open>
  C33. What the masking does to a source is undone after the preprocessor, except for blanks around two dots: a source without the
  letters of the markers comes back with every character in its place and nothing added but one blank before and one behind some of the pairs of
  dots, and unchanged when it has no two dots.
\<close>

theorem unmask_mask_roundtrip:
  assumes "\<not> sublist ''KJDMUD'' s"
  shows "dotsSpaced s (unmaskAfterSystemCpp (maskForSystemCpp s)) \<and>
    (\<not> sublist ''..'' s \<longrightarrow> unmaskAfterSystemCpp (maskForSystemCpp s) = s)"
  using unmask_pieces[OF assms] render_spaced render_plain by metis

theorem unmask_mask_roundtrip_witness:
  "unmaskAfterSystemCpp (maskForSystemCpp (''f(#'' @ [lxTick] @ ''g, 1)'')) = ''f(#'' @ [lxTick] @ ''g, 1)'' \<and>
   unmaskAfterSystemCpp (maskForSystemCpp ''a[0..1] = x'') = ''a[0 .. 1] = x'' \<and> dotsSpaced ''a[0..1] = x'' ''a[0 .. 1] = x''"
proof -
  have "\<not> sublist ''KJDMUD'' (''f(#'' @ [lxTick] @ ''g, 1)'')" "\<not> sublist ''..'' (''f(#'' @ [lxTick] @ ''g, 1)'')" "\<not> sublist ''KJDMUD'' ''a[0..1] = x''"
    by (simp_all add: sublist_Cons_right)
  moreover have "unmaskAfterSystemCpp (maskForSystemCpp ''a[0..1] = x'') = ''a[0 .. 1] = x''" by code_simp
  ultimately show ?thesis
    using unmask_mask_roundtrip[of "''f(#'' @ [lxTick] @ ''g, 1)''"] unmask_mask_roundtrip[of "''a[0..1] = x''"] by simp
qed

section \<open>The depth limit of the includes\<close>

text \<open>
  The paths that the include lines of a text can lead to, whatever macros are defined, all lie in \<open>P\<close>; and a set of paths whose own texts
  lead to no path outside it. Paths are compared as they are spelled, as the code does.
\<close>

definition includesOnly :: "pp_env \<Rightarrow> string set \<Rightarrow> string \<Rightarrow> string \<Rightarrow> bool" where
  "includesOnly env P dir text \<longleftrightarrow>
     (\<forall>l \<in> set (getlines text). \<forall>md h a b t path. directive l = Some (h, a, b) \<longrightarrow> includeTarget md l a b = Some t \<longrightarrow>
        includeFile env dir t = Some path \<longrightarrow> path \<in> P)"

definition closedPaths :: "pp_env \<Rightarrow> string set \<Rightarrow> bool" where
  "closedPaths env P \<longleftrightarrow> (\<forall>p \<in> P. includesOnly env P (dirName p) (maskForSystemCpp (the (ppFiles env p))))"

lemma rewriteLines_cong:
  assumes "includesOnly env P dir text"
    and "\<And>path m. path \<in> P \<Longrightarrow> path \<notin> set active \<Longrightarrow>
      f (maskForSystemCpp (the (ppFiles env path))) (dirName path) (path # active) m =
      g (maskForSystemCpp (the (ppFiles env path))) (dirName path) (path # active) m"
  shows "rewriteLines f env dir active (getlines text) md = rewriteLines g env dir active (getlines text) md"
proof -
  have line: "rewriteLine f env dir active l m = rewriteLine g env dir active l m" if "l \<in> set (getlines text)" for l m
    using assms(2) assms(1)[unfolded includesOnly_def, rule_format, OF that] unfolding rewriteLine_def Let_def
    by (auto split: option.splits prod.splits)
  have "set ls \<subseteq> set (getlines text) \<Longrightarrow> rewriteLines f env dir active ls md = rewriteLines g env dir active ls md" for ls
    by (induction ls arbitrary: md) (simp_all add: line split: prod.split)
  then show ?thesis by blast
qed

lemma rewriteIncludes_limit:
  assumes "finite P" "closedPaths env P" "includesOnly env P dir s" "card (P - set active) < n"
  shows "rewriteIncludes n env s dir active md = rewriteIncludes (Suc n) env s dir active md"
  using assms(3,4)
proof (induction n arbitrary: s dir active md)
  case 0
  then show ?case by simp
next
  case (Suc n)
  have "rewriteIncludes n env (maskForSystemCpp (the (ppFiles env path))) (dirName path) (path # active) m =
      rewriteIncludes (Suc n) env (maskForSystemCpp (the (ppFiles env path))) (dirName path) (path # active) m"
    if "path \<in> P" "path \<notin> set active" for path m
  proof (rule Suc.IH)
    show "includesOnly env P (dirName path) (maskForSystemCpp (the (ppFiles env path)))" using assms(2) that(1) by (simp add: closedPaths_def)
    have "P - set (path # active) \<subset> P - set active" using that by auto
    then show "card (P - set (path # active)) < n"
      using Suc.prems(2) assms(1) psubset_card_mono[of "P - set active"] by fastforce
  qed
  then have "rewriteLines (rewriteIncludes n env) env dir active (getlines s) md =
      rewriteLines (rewriteIncludes (Suc n) env) env dir active (getlines s) md"
    by (rule rewriteLines_cong[OF Suc.prems(1)])
  then show ?case by (subst (1 2) rewriteIncludes.simps(2)) simp
qed

text \<open>
  The limit of 64 nested includes is never what ends the splicing when the source and what it includes, directly or through other files,
  lead to at most 64 paths, as they are spelled: any larger limit gives the same text, because a path is not spliced into itself.
\<close>

theorem include_limit_unreached:
  assumes "finite P" "card P \<le> 64" "closedPaths env P" "includesOnly env P dir s" "65 \<le> n"
  shows "rewriteIncludes n env s dir [] md = rewriteAbsoluteIncludesRecursive env s dir md"
  using assms(5)
proof (induction n rule: dec_induct)
  case base
  show ?case by (simp add: rewriteAbsoluteIncludesRecursive_def)
next
  case (step k)
  then show ?case using rewriteIncludes_limit[OF assms(1,3,4), of "[]" k md] assms(2) by simp
qed

text \<open>Two headers that include each other.\<close>

definition demoFiles :: files where
  "demoFiles = [''r/a.h'' \<mapsto> ''#include <b.h>'', ''r/b.h'' \<mapsto> ''#include <a.h>'']"

definition demoEnv :: pp_env where
  "demoEnv = \<lparr>ppFiles = demoFiles, ppMudlibRoot = ''r'', ppIncludeDirs = [''r'']\<rparr>"

lemma demo_includes:
  "includesOnly demoEnv {''r/a.h'', ''r/b.h''} d ''#include <a.h>''" "includesOnly demoEnv {''r/a.h'', ''r/b.h''} d ''#include <b.h>''"
proof -
  have lines: "getlines ''#include <a.h>'' = [''#include <a.h>'']" "getlines ''#include <b.h>'' = [''#include <b.h>'']" by code_simp+
  have found: "path \<in> {''r/a.h'', ''r/b.h''}" if "includeFile demoEnv d t = Some path" for t path
    using that by (auto simp: includeFile_def demoEnv_def demoFiles_def Let_def find_Some_iff split: if_splits)
  show "includesOnly demoEnv {''r/a.h'', ''r/b.h''} d ''#include <a.h>''" "includesOnly demoEnv {''r/a.h'', ''r/b.h''} d ''#include <b.h>''"
    unfolding includesOnly_def lines using found by blast+
qed

theorem include_limit_unreached_witness:
  "rewriteIncludes 1000 demoEnv ''#include <a.h>'' ''r'' [] Map.empty = rewriteAbsoluteIncludesRecursive demoEnv ''#include <a.h>'' ''r'' Map.empty"
proof (rule include_limit_unreached)
  have "maskForSystemCpp ''#include <a.h>'' = ''#include <a.h>''" "maskForSystemCpp ''#include <b.h>'' = ''#include <b.h>''" by code_simp+
  then show "closedPaths demoEnv {''r/a.h'', ''r/b.h''}" using demo_includes by (simp add: closedPaths_def) (simp add: demoEnv_def demoFiles_def)
  show "includesOnly demoEnv {''r/a.h'', ''r/b.h''} ''r'' ''#include <a.h>''" by (rule demo_includes)
qed simp_all

text \<open>
  The condition on the spelling is needed: a header that includes itself as \<^verbatim>\<open>./a.h\<close> is a new path each time, so only the limit ends the
  splicing, and each level adds to the text.
\<close>

definition selfInclude :: string where
  "selfInclude = ''#include '' @ [lxQuote] @ ''./a.h'' @ [lxQuote]"

definition aliasEnv :: pp_env where
  "aliasEnv = \<lparr>ppFiles = (\<lambda>p. if suffix ''/a.h'' p then Some selfInclude else None), ppMudlibRoot = ''r'', ppIncludeDirs = []\<rparr>"

lemma alias_found: "d \<noteq> [] \<Longrightarrow> includeFile aliasEnv d \<lparr>itPath = ''./a.h'', itQuoted = True, itExpanded = None\<rparr> = Some (d @ ''/./a.h'')"
proof -
  have "suffix ''/a.h'' ((d @ ''/.'') @ ''/a.h'')" by (rule suffixI) (rule refl)
  then show "d \<noteq> [] \<Longrightarrow> ?thesis" by (simp add: includeFile_def aliasEnv_def isAbsolute_def)
qed

lemma alias_dir: "dirName (d @ ''/./a.h'') = d @ ''/.''"
  by (simp add: dirName_def)

theorem include_alias_reaches_limit:
  assumes "d \<noteq> []" "\<forall>p \<in> set active. length p \<le> length d + 4"
  shows "rewriteIncludes n aliasEnv selfInclude d active md = (selfInclude @ replicate n lxNl, md)"
  using assms
proof (induction n arbitrary: d active)
  case (Suc n)
  have lines: "getlines selfInclude = [selfInclude]" by code_simp
  have parse: "directive selfInclude = Some (0, 1, 8)" "between selfInclude 1 8 = ''include''" by code_simp+
  have target: "includeTarget md selfInclude 1 8 = Some \<lparr>itPath = ''./a.h'', itQuoted = True, itExpanded = None\<rparr>" by code_simp
  have masked: "maskForSystemCpp selfInclude = selfInclude" by code_simp
  have src: "ppFiles aliasEnv (d @ ''/./a.h'') = Some selfInclude"
    using alias_found[OF Suc.prems(1)] by (auto simp: includeFile_def aliasEnv_def Let_def find_Some_iff split: if_splits)
  have fresh: "d @ ''/./a.h'' \<notin> set active" using Suc.prems(2) by fastforce
  have "rewriteIncludes n aliasEnv selfInclude (d @ ''/.'') ((d @ ''/./a.h'') # active) md = (selfInclude @ replicate n lxNl, md)"
    by (rule Suc.IH) (use Suc.prems in auto)
  then show ?case
    by (simp add: lines rewriteLine_def Let_def parse target alias_found[OF Suc.prems(1)] fresh src masked alias_dir replicate_append_same del: One_nat_def)
qed simp

section \<open>What the shell reads\<close>

text \<open>
  The quoting of a POSIX shell, as a specification: the characters of a command line with a flag for those that are neither in quotes
  nor behind a backslash. Only such a character can be an operator, an expansion or a blank between words.
\<close>

fun shRead :: "char option \<Rightarrow> string \<Rightarrow> (char \<times> bool) list" where
  "shRead q [] = []"
| "shRead None (c # s) =
     (if c = lxTick then shRead (Some lxTick) s
      else if c = lxQuote then shRead (Some lxQuote) s
      else if c = lxBackslash then (case s of [] \<Rightarrow> [] | e # s' \<Rightarrow> (e, False) # shRead None s')
      else (c, True) # shRead None s)"
| "shRead (Some q) (c # s) = (if c = q then shRead None s else (c, False) # shRead (Some q) s)"

definition bareChars :: "string \<Rightarrow> string" where
  "bareChars s = map fst (filter snd (shRead None s))"

lemma bare_subset: "set (bareChars s) \<subseteq> set s"
proof -
  have "\<forall>x\<in>set (shRead q s). fst x \<in> set s" for q
  proof (induction q s rule: shRead.induct)
    case (2 c s)
    consider "c = lxTick" | "c = lxQuote" | "c = lxBackslash" | "c \<noteq> lxTick" "c \<noteq> lxQuote" "c \<noteq> lxBackslash" by blast
    then show ?case using 2 by cases (simp_all, cases s, auto)
  qed simp_all
  then show ?thesis by (auto simp: bareChars_def)
qed

text \<open>A text that leaves no quote open.\<close>

definition shClosed :: "string \<Rightarrow> bool" where
  "shClosed a \<longleftrightarrow> (\<forall>s. shRead None (a @ s) = shRead None a @ shRead None s)"

definition shPlain :: "string \<Rightarrow> bool" where
  "shPlain a \<longleftrightarrow> (\<forall>c\<in>set a. c \<noteq> lxTick \<and> c \<noteq> lxQuote \<and> c \<noteq> lxBackslash)"

lemma read_plain: "shPlain a \<Longrightarrow> shRead None (a @ s) = map (\<lambda>c. (c, True)) a @ shRead None s"
  by (induction a) (auto simp: shPlain_def)

lemma closed_plain [simp]: "shPlain a \<Longrightarrow> shClosed a"
  using read_plain[of a "[]"] by (simp add: shClosed_def read_plain)

lemma bare_plain: "shPlain a \<Longrightarrow> bareChars a = a"
  using read_plain[of a "[]"] by (simp add: bareChars_def filter_map o_def)

lemma read_quoted: "shRead None (shellQuote a @ s) = map (\<lambda>c. (c, False)) a @ shRead None s"
proof -
  have "shRead (Some lxTick) (concat (map (\<lambda>c. if c = lxTick then [lxTick, lxBackslash, lxTick, lxTick] else [c]) a) @ [lxTick] @ s) =
      map (\<lambda>c. (c, False)) a @ shRead None s"
    by (induction a) simp_all
  then show ?thesis by (simp add: shellQuote_def)
qed

lemma closed_quoted [simp]: "shClosed (shellQuote a)" "bareChars (shellQuote a) = []"
  using read_quoted[of a "[]"] by (simp_all add: shClosed_def bareChars_def read_quoted filter_map o_def)

lemma read_escaped: "shPlain a \<Longrightarrow> shRead None (escapedQuotes a @ s) = (lxQuote, False) # map (\<lambda>c. (c, True)) a @ (lxQuote, False) # shRead None s"
  using read_plain[of a "[lxBackslash, lxQuote] @ s"] by (simp add: escapedQuotes_def)

lemma closed_escaped: "shPlain a \<Longrightarrow> shClosed (escapedQuotes a)" "shPlain a \<Longrightarrow> bareChars (escapedQuotes a) = a"
  using read_escaped[of a "[]"] by (simp_all add: shClosed_def bareChars_def read_escaped filter_map o_def)

lemma closed_append: "shClosed a \<Longrightarrow> shClosed b \<Longrightarrow> shClosed (a @ b)"
  by (simp add: shClosed_def)

lemma bare_append: "shClosed a \<Longrightarrow> bareChars (a @ b) = bareChars a @ bareChars b"
  by (simp add: shClosed_def bareChars_def)

lemma closed_concat: "\<forall>a\<in>set as. shClosed a \<Longrightarrow> shClosed (concat as)"
proof (induction as)
  case Nil
  show ?case by (simp add: shClosed_def)
qed (simp add: closed_append)

lemma bare_concat: "\<forall>a\<in>set as. shClosed a \<Longrightarrow> bareChars (concat as) = concat (map bareChars as)"
proof (induction as)
  case Nil
  show ?case by (simp add: bareChars_def)
qed (simp add: bare_append)

definition flagValue :: "string \<Rightarrow> bool" where
  "flagValue v \<longleftrightarrow> shPlain v \<or> v = escapedQuotes (drop 2 (take (length v - 2) v)) \<and> shPlain (drop 2 (take (length v - 2) v))"

lemma closed_flags:
  assumes "list_all (\<lambda>(n, v). shPlain n \<and> flagValue v) ms"
  shows "shClosed (macroFlags ms)"
proof -
  have "shClosed ('' -D'' @ n @ ''='' @ v)" if "(n, v) \<in> set ms" for n v
  proof -
    have "shPlain n" "flagValue v" using that assms by (auto simp: list_all_iff)
    then have "shClosed v" unfolding flagValue_def using closed_escaped(1) closed_plain by metis
    moreover have "shClosed '' -D''" "shClosed ''=''" "shClosed n" using \<open>shPlain n\<close> by (simp_all add: shPlain_def)
    ultimately show ?thesis by (intro closed_append)
  qed
  then show ?thesis unfolding macroFlags_def by (intro closed_concat) auto
qed

lemma closed_predefined:
  "shClosed (macroFlags kFluffosPredefinedMacros)" "shClosed (macroFlags kFluffosRuntimePredefinedMacros)"
  "shClosed (macroFlags kPcrePackagePredefinedMacros)"
  by (rule closed_flags, code_simp)+

lemma plain_texts [simp]:
  "shPlain ''cc -E -I ''" "shPlain '' -I ''" "shPlain '' -x c ''" "shPlain '' 2>''" "shPlain '' -D__PORT__=''" "shPlain '' ''"
  "shPlain '' -D__FILE__=''" "shPlain '' -D__DIR__=''"
  by (simp_all add: shPlain_def)

lemma plain_append [simp]: "shPlain (a @ b) \<longleftrightarrow> shPlain a \<and> shPlain b"
  by (auto simp: shPlain_def)

lemma plain_to_string [simp]: "shPlain (to_string i)"
proof -
  have "\<not> isdigit lxTick" "\<not> isdigit lxQuote" "\<not> isdigit lxBackslash" by (simp_all add: isdigit_def)
  then show ?thesis unfolding shPlain_def using to_string_chars[of _ i] by fastforce
qed

lemma plain_dirName: "shPlain a \<Longrightarrow> shPlain (dirName a)"
  by (auto simp: shPlain_def dirName_def dest: in_set_takeD)

text \<open>
  C34. What of the preprocessor's command line the shell sees outside quotes: the fixed options, the port, and the name of the file being
  compiled. The include directories, the directory of the source, the name of the mud and the two temporary files are quoted
  and inert whatever characters they have, but every character of the compiled file's name is bare, so that a semicolon or a dollar
  sign in it is an operator or an expansion of the shell.
\<close>

theorem preprocessor_command_bare:
  assumes "shPlain f"
  shows "bareChars (preprocessorCommand config dirs dir f src err) =
     ''cc -E -I '' @ '' -I '' @ concat (map (\<lambda>_. '' -I '') dirs) @
     bareChars (macroFlags kFluffosPredefinedMacros) @ bareChars (macroFlags kFluffosRuntimePredefinedMacros) @
     bareChars (macroFlags kPcrePackagePredefinedMacros) @ '' -D__PORT__='' @ to_string (pcPort config) @ '' '' @
     '' -D__FILE__='' @ f @ ''.c'' @ '' -D__DIR__='' @ (if CHR ''/'' \<in> set f then dirName (f @ ''.c'') @ ''/'' else []) @
     '' -x c '' @ '' 2>''"
proof -
  have fc: "shPlain (f @ ''.c'')" using assms by (simp add: shPlain_def)
  have d: "shPlain (if CHR ''/'' \<in> set f then dirName (f @ ''.c'') @ ''/'' else [])" (is "shPlain ?d")
    using plain_dirName[OF fc] by (auto simp: shPlain_def)
  have dirs: "shClosed (concat (map (\<lambda>d. '' -I '' @ shellQuote d) dirs))"
    by (intro closed_concat) (auto simp del: append_Cons intro: closed_append)
  have ddirs: "bareChars (concat (map (\<lambda>d. '' -I '' @ shellQuote d) dirs)) = concat (map (\<lambda>_. '' -I '') dirs)"
  proof -
    have "bareChars ('' -I '' @ shellQuote x) = '' -I ''" for x
      using bare_append[OF closed_plain[of "'' -I ''"], of "shellQuote x"] bare_plain[of "'' -I ''"] by simp
    moreover have "\<forall>a\<in>set (map (\<lambda>d. '' -I '' @ shellQuote d) dirs). shClosed a"
      by (auto simp del: append_Cons intro: closed_append)
    ultimately show ?thesis using bare_concat by (simp add: o_def del: append_Cons)
  qed
  have cmd: "preprocessorCommand config dirs dir f src err =
     ''cc -E -I '' @ shellQuote ''.'' @ '' -I '' @ shellQuote dir @ concat (map (\<lambda>d. '' -I '' @ shellQuote d) dirs) @
     macroFlags kFluffosPredefinedMacros @ macroFlags kFluffosRuntimePredefinedMacros @ macroFlags kPcrePackagePredefinedMacros @
     '' -D__PORT__='' @ to_string (pcPort config) @ '' '' @ shellQuote (''-DMUD_NAME='' @ [lxQuote] @ pcMudName config @ [lxQuote]) @
     '' -D__FILE__='' @ escapedQuotes (f @ ''.c'') @ '' -D__DIR__='' @ escapedQuotes ?d @ '' -x c '' @ shellQuote src @ '' 2>'' @ shellQuote err"
    by (simp add: preprocessorCommand_def buildPredefinedMacroFlags_def Let_def)
  show ?thesis unfolding cmd
    by (simp add: bare_append bare_plain closed_escaped[OF fc] closed_escaped[OF d] dirs ddirs closed_predefined
        del: append_Cons append_assoc)
qed

theorem preprocessor_command_bare_witness:
  "CHR '';'' \<in> set (bareChars (preprocessorCommand \<lparr>pcPort = 1122, pcMudName = ''my mud; $HOME''\<rparr> [''/d;'' @ [lxTick]] ''/lib/tmp'' ''/tmp/x;touch z'' ''/s'' ''/e'')) \<and>
   CHR ''$'' \<notin> set (bareChars (preprocessorCommand \<lparr>pcPort = 1122, pcMudName = ''my mud; $HOME''\<rparr> [''/d;'' @ [lxTick]] ''/lib/tmp'' ''/tmp/x;touch z'' ''/s'' ''/e''))"
proof -
  have "shPlain ''/tmp/x;touch z''" by (simp add: shPlain_def)
  moreover have "CHR ''$'' \<notin> set (macroFlags kFluffosPredefinedMacros)" "CHR ''$'' \<notin> set (macroFlags kFluffosRuntimePredefinedMacros)"
    "CHR ''$'' \<notin> set (macroFlags kPcrePackagePredefinedMacros)"
    "CHR ''$'' \<notin> set (to_string 1122)" "CHR ''$'' \<notin> set (dirName (''/tmp/x;touch z'' @ ''.c''))"
    by code_simp+
  then have "CHR ''$'' \<notin> set (bareChars (macroFlags kFluffosPredefinedMacros))" "CHR ''$'' \<notin> set (bareChars (macroFlags kFluffosRuntimePredefinedMacros))"
    "CHR ''$'' \<notin> set (bareChars (macroFlags kPcrePackagePredefinedMacros))" "CHR ''$'' \<notin> set (to_string 1122)"
    "CHR ''$'' \<notin> set (dirName (''/tmp/x;touch z'' @ ''.c''))"
    using bare_subset by blast+
  ultimately show ?thesis using preprocessor_command_bare[of "''/tmp/x;touch z''"] by simp
qed

end
