(* ===== verification/Vm_Ops.thy ===== *)
theory Vm_Ops
  imports Vm_State
begin

unbundle bit_operations_syntax

text \<open>
  The instructions of \<^verbatim>\<open>VM::run\<close>, one definition per case of the \<^verbatim>\<open>switch\<close>. An instruction either goes on with a changed
  frame and machine, returns from the function, throws, or asks for a call. What it has popped before it throws is gone
  from the stack, as in the code.
\<close>

section \<open>Outcomes\<close>

datatype outcome =
    Go frame vm
  | Stop lvalue vm
  | Fail vm_exn frame vm
  | Invoke CompiledProgram FunctionEntry "lvalue list" ref Origin nat frame vm
  | InvokeEfun efun "lvalue list" frame vm

definition lpcErr :: "string \<Rightarrow> frame \<Rightarrow> vm \<Rightarrow> outcome" where
  "lpcErr msg = Fail (VExn (LpcRuntimeError msg))"

definition nxt :: "frame \<Rightarrow> frame" where
  "nxt fr = fr\<lparr>ip := Suc (ip fr)\<rparr>"

definition pushGo :: "lvalue \<Rightarrow> frame \<Rightarrow> vm \<Rightarrow> outcome" where
  "pushGo v fr vm = Go (nxt (fr\<lparr>stk := v # stk fr\<rparr>)) vm"

definition poolAt :: "'a list \<Rightarrow> int \<Rightarrow> 'a option" where
  "poolAt pool i = (if i < 0 \<or> length pool \<le> nat i then None else Some (pool ! nat i))"

section \<open>Constants, locals and object variables\<close>

definition opPushConst :: "CompiledProgram \<Rightarrow> Instruction \<Rightarrow> frame \<Rightarrow> vm \<Rightarrow> outcome" where
  "opPushConst p i fr vm =
     (case poolAt (stringPool p) (operand i) of
        None \<Rightarrow> lpcErr ''PushConst: bad string pool index'' fr vm
      | Some s \<Rightarrow> pushGo (vStr s) fr vm)"

definition opPushInt :: "Instruction \<Rightarrow> frame \<Rightarrow> vm \<Rightarrow> outcome" where
  "opPushInt i fr vm = pushGo (vInt (word_of_int (operand i))) fr vm"

definition opPushFloat :: "CompiledProgram \<Rightarrow> Instruction \<Rightarrow> frame \<Rightarrow> vm \<Rightarrow> outcome" where
  "opPushFloat p i fr vm =
     (case poolAt (floatPool p) (operand i) of
        None \<Rightarrow> lpcErr ''PushFloat: bad float pool index'' fr vm
      | Some d \<Rightarrow> pushGo (mkValue (VFloat d)) fr vm)"

definition opPushSymbol :: "CompiledProgram \<Rightarrow> Instruction \<Rightarrow> frame \<Rightarrow> vm \<Rightarrow> outcome" where
  "opPushSymbol p i fr vm =
     (case poolAt (stringPool p) (operand i) of
        None \<Rightarrow> lpcErr ''PushSymbol: bad symbol name index'' fr vm
      | Some s \<Rightarrow> pushGo (mkValue (VSym s)) fr vm)"

definition opPushLocal :: "Instruction \<Rightarrow> frame \<Rightarrow> vm \<Rightarrow> outcome" where
  "opPushLocal i fr vm =
     (case poolAt (locals fr) (operand i) of
        None \<Rightarrow> lpcErr ''PushLocal: bad local slot index'' fr vm
      | Some v \<Rightarrow>
          let v' = coerceIfDestructed vm v
          in pushGo v' (fr\<lparr>locals := (locals fr)[nat (operand i) := v']\<rparr>) vm)"

definition opStoreLocal :: "Instruction \<Rightarrow> frame \<Rightarrow> vm \<Rightarrow> outcome" where
  "opStoreLocal i fr vm =
     (case poolAt (locals fr) (operand i) of
        None \<Rightarrow> lpcErr ''StoreLocal: bad local slot index'' fr vm
      | Some _ \<Rightarrow>
          (case stk fr of
             [] \<Rightarrow> lpcErr ''StoreLocal: stack underflow'' fr vm
           | v # rest \<Rightarrow> Go (nxt (fr\<lparr>locals := (locals fr)[nat (operand i) := v], stk := rest\<rparr>)) vm))"

text \<open>Object variables are addressed relative to the base offset of the executing program.\<close>

definition objVars :: "ref \<Rightarrow> vm \<Rightarrow> lvalue list" where
  "objVars r vm = (case vmHeap vm r of None \<Rightarrow> [] | Some ob \<Rightarrow> variables ob)"

definition setObjVar :: "ref \<Rightarrow> nat \<Rightarrow> lvalue \<Rightarrow> vm \<Rightarrow> vm" where
  "setObjVar r n v vm = vm\<lparr>vmHeap := updObj r (\<lambda>ob. ob\<lparr>variables := (variables ob)[n := v]\<rparr>) (vmHeap vm)\<rparr>"

definition opPushObjectVar :: "ref \<Rightarrow> int \<Rightarrow> Instruction \<Rightarrow> frame \<Rightarrow> vm \<Rightarrow> outcome" where
  "opPushObjectVar obj base i fr vm =
     (case poolAt (objVars obj vm) (base + operand i) of
        None \<Rightarrow> lpcErr ''PushObjectVar: bad object variable slot index'' fr vm
      | Some v \<Rightarrow>
          let v' = coerceIfDestructed vm v
          in pushGo v' fr (setObjVar obj (nat (base + operand i)) v' vm))"

definition opStoreObjectVar :: "ref \<Rightarrow> int \<Rightarrow> Instruction \<Rightarrow> frame \<Rightarrow> vm \<Rightarrow> outcome" where
  "opStoreObjectVar obj base i fr vm =
     (case poolAt (objVars obj vm) (base + operand i) of
        None \<Rightarrow> lpcErr ''StoreObjectVar: bad object variable slot index'' fr vm
      | Some _ \<Rightarrow>
          (case stk fr of
             [] \<Rightarrow> lpcErr ''StoreObjectVar: stack underflow'' fr vm
           | v # rest \<Rightarrow> Go (nxt (fr\<lparr>stk := rest\<rparr>)) (setObjVar obj (nat (base + operand i)) v vm)))"

section \<open>Comparison and arithmetic\<close>

text \<open>Pops the two operands, the right one first; \<open>name\<close> is the prefix of the underflow message.\<close>

definition withTwo :: "string \<Rightarrow> frame \<Rightarrow> vm \<Rightarrow> (lvalue \<Rightarrow> lvalue \<Rightarrow> frame \<Rightarrow> outcome) \<Rightarrow> outcome" where
  "withTwo name fr vm f =
     (case stk fr of
        rhs # lhs # rest \<Rightarrow> f lhs rhs (fr\<lparr>stk := rest\<rparr>)
      | _ \<Rightarrow> lpcErr (name @ '': stack underflow'') fr vm)"

definition withOne :: "string \<Rightarrow> frame \<Rightarrow> vm \<Rightarrow> (lvalue \<Rightarrow> frame \<Rightarrow> outcome) \<Rightarrow> outcome" where
  "withOne name fr vm f =
     (case stk fr of
        v # rest \<Rightarrow> f v (fr\<lparr>stk := rest\<rparr>)
      | _ \<Rightarrow> lpcErr (name @ '': stack underflow'') fr vm)"

definition opEquality :: "OpCode \<Rightarrow> frame \<Rightarrow> vm \<Rightarrow> outcome" where
  "opEquality c fr vm =
     withTwo ''Eq/Neq'' fr vm (\<lambda>lhs rhs fr'.
       let eq = valuesEqual lhs rhs in pushGo (vBool (if c = OpEq then eq else \<not> eq)) fr' vm)"

definition opCompare :: "OpCode \<Rightarrow> frame \<Rightarrow> vm \<Rightarrow> outcome" where
  "opCompare c fr vm =
     withTwo ''comparison'' fr vm (\<lambda>lhs rhs fr'.
       case asArithmeticOperand lhs of
         None \<Rightarrow> lpcErr ''comparison: left operand is not numeric'' fr' vm
       | Some lv \<Rightarrow>
           (case asArithmeticOperand rhs of
              None \<Rightarrow> lpcErr ''comparison: right operand is not numeric'' fr' vm
            | Some rv \<Rightarrow>
                pushGo (vBool (if c = OpLt then dbl_lt lv rv else if c = OpLte then dbl_le lv rv
                               else if c = OpGt then dbl_lt rv lv else dbl_le rv lv)) fr' vm))"

definition opNot :: "frame \<Rightarrow> vm \<Rightarrow> outcome" where
  "opNot fr vm = withOne ''Not'' fr vm (\<lambda>v fr'. pushGo (vBool (\<not> isTruthy v)) fr' vm)"

definition member :: "lvalue list \<Rightarrow> lvalue \<Rightarrow> bool" where
  "member ys x \<longleftrightarrow> (\<exists>y\<in>set ys. valuesEqual x y)"

definition pushArray :: "lvalue list \<Rightarrow> frame \<Rightarrow> vm \<Rightarrow> outcome" where
  "pushArray xs fr vm = (case newArray xs vm of (r, vm') \<Rightarrow> pushGo (mkValue (VArr (Some r))) fr vm')"

definition pushNumber :: "bool \<Rightarrow> double \<Rightarrow> frame \<Rightarrow> vm \<Rightarrow> outcome" where
  "pushNumber eitherDouble d fr vm =
     (case numberResult eitherDouble d of None \<Rightarrow> Fail VUndef fr vm | Some v \<Rightarrow> pushGo v fr vm)"

definition opArith :: "OpCode \<Rightarrow> frame \<Rightarrow> vm \<Rightarrow> outcome" where
  "opArith c fr vm =
     withTwo ''arithmetic'' fr vm (\<lambda>lhs rhs fr'.
       case (c = OpSub, vdata lhs, vdata rhs) of
         (True, VArr a, VArr b) \<Rightarrow> pushArray (filter (\<lambda>x. \<not> member (arrItems vm b) x) (arrItems vm a)) fr' vm
       | _ \<Rightarrow>
         (case asArithmeticOperand lhs of
            None \<Rightarrow> lpcErr ''arithmetic: left operand is not numeric'' fr' vm
          | Some lv \<Rightarrow>
              (case asArithmeticOperand rhs of
                 None \<Rightarrow> lpcErr ''arithmetic: right operand is not numeric'' fr' vm
               | Some rv \<Rightarrow>
                   if (c = OpDiv \<or> c = OpMod) \<and> dbl_is_zero rv
                   then lpcErr (if c = OpDiv then ''Div: division by zero'' else ''Mod: modulo by zero'') fr' vm
                   else pushNumber (isDouble lhs \<or> isDouble rhs)
                          (if c = OpSub then dbl_sub lv rv else if c = OpMul then dbl_mul lv rv
                           else if c = OpDiv then dbl_div lv rv else dbl_fmod lv rv) fr' vm)))"

definition opBitAnd :: "frame \<Rightarrow> vm \<Rightarrow> outcome" where
  "opBitAnd fr vm =
     withTwo ''BitAnd'' fr vm (\<lambda>lhs rhs fr'.
       case (vdata lhs, vdata rhs) of
         (VArr a, VArr b) \<Rightarrow> pushArray (filter (member (arrItems vm b)) (arrItems vm a)) fr' vm
       | (VInt x, VInt y) \<Rightarrow> pushGo (vInt (x AND y)) fr' vm
       | _ \<Rightarrow> lpcErr ''BitAnd: operands must both be ints or both be arrays'' fr' vm)"

definition opBitOr :: "frame \<Rightarrow> vm \<Rightarrow> outcome" where
  "opBitOr fr vm =
     withTwo ''BitOr'' fr vm (\<lambda>lhs rhs fr'.
       case (vdata lhs, vdata rhs) of
         (VArr a, VArr b) \<Rightarrow>
           pushArray (arrItems vm a @ filter (\<lambda>x. \<not> member (arrItems vm a) x) (arrItems vm b)) fr' vm
       | (VInt x, VInt y) \<Rightarrow> pushGo (vInt (x OR y)) fr' vm
       | _ \<Rightarrow> lpcErr ''BitOr: operands must both be ints or both be arrays'' fr' vm)"

definition opBitXor :: "frame \<Rightarrow> vm \<Rightarrow> outcome" where
  "opBitXor fr vm =
     withTwo ''BitXor'' fr vm (\<lambda>lhs rhs fr'.
       case (vdata lhs, vdata rhs) of
         (VInt x, VInt y) \<Rightarrow> pushGo (vInt (x XOR y)) fr' vm
       | _ \<Rightarrow> lpcErr ''BitXor: operands must both be ints'' fr' vm)"

text \<open>A shift by a negative number or by 64 and more is undefined.\<close>

definition opShift :: "OpCode \<Rightarrow> frame \<Rightarrow> vm \<Rightarrow> outcome" where
  "opShift c fr vm =
     withTwo ''Shl/Shr'' fr vm (\<lambda>lhs rhs fr'.
       case (vdata lhs, vdata rhs) of
         (VInt x, VInt y) \<Rightarrow>
           if sint y < 0 \<or> 64 \<le> sint y then Fail VUndef fr' vm
           else pushGo (vInt (if c = Shl then push_bit (nat (sint y)) x else signed_drop_bit (nat (sint y)) x)) fr' vm
       | _ \<Rightarrow> lpcErr ((if c = Shl then ''Shl'' else ''Shr'') @ '': operands must both be ints'') fr' vm)"

definition opBitNot :: "frame \<Rightarrow> vm \<Rightarrow> outcome" where
  "opBitNot fr vm =
     withOne ''BitNot'' fr vm (\<lambda>v fr'.
       case vdata v of VInt x \<Rightarrow> pushGo (vInt (NOT x)) fr' vm | _ \<Rightarrow> lpcErr ''Bad argument to ~'' fr' vm)"

section \<open>Addition\<close>

text \<open>The union of two mappings, the right one winning: the loop over the entries of the right mapping.\<close>

definition colsAt :: "mapping_rec \<Rightarrow> nat \<Rightarrow> lvalue list" where
  "colsAt m i = (if i < length (extraColumns m) then extraColumns m ! i else [])"

definition mapAddEntry :: "mapping_rec \<Rightarrow> nat \<Rightarrow> mapping_rec \<Rightarrow> mapping_rec" where
  "mapAddEntry right ri res =
     (let e = entries right ! ri;
          blank = replicate (nat (width res - 1)) vVoid;
          row = (if extraColumns right = [] then blank else colsAt right ri)
      in case find_idx (\<lambda>x. valuesEqual (fst x) (fst e)) (entries res) of
           Some li \<Rightarrow>
             let res' = res\<lparr>entries := (entries res)[li := (fst (entries res ! li), snd e)]\<rparr>
             in if extraColumns res \<noteq> [] then res'\<lparr>extraColumns := (extraColumns res)[li := row]\<rparr> else res'
         | None \<Rightarrow>
             let res' = res\<lparr>entries := entries res @ [e]\<rparr>
             in if width res > 1 then res'\<lparr>extraColumns := extraColumns res @ [row]\<rparr> else res')"

definition mapLookup :: "vm \<Rightarrow> ref option \<Rightarrow> mapping_rec option" where
  "mapLookup vm r = (case r of None \<Rightarrow> None | Some m \<Rightarrow> vmMaps vm m)"

definition mapAdd :: "mapping_rec option \<Rightarrow> mapping_rec option \<Rightarrow> mapping_rec" where
  "mapAdd l r =
     (let rightW = (case r of None \<Rightarrow> 1 | Some m \<Rightarrow> width m);
          start = (case l of Some m \<Rightarrow> m | None \<Rightarrow> emptyMapping\<lparr>width := rightW\<rparr>)
      in case r of None \<Rightarrow> start | Some m \<Rightarrow> foldl (\<lambda>res ri. mapAddEntry m ri res) start [0..<length (entries m)])"

definition pushMap :: "mapping_rec \<Rightarrow> frame \<Rightarrow> vm \<Rightarrow> outcome" where
  "pushMap m fr vm = (case newMap m vm of (r, vm') \<Rightarrow> pushGo (mkValue (VMap (Some r))) fr vm')"

definition isNumeric :: "lvalue \<Rightarrow> bool" where
  "isNumeric v = (case vdata v of VInt _ \<Rightarrow> True | VFloat _ \<Rightarrow> True | VVoid \<Rightarrow> True | _ \<Rightarrow> False)"

definition nameOf :: "vm \<Rightarrow> ref option \<Rightarrow> string" where
  "nameOf vm r = (case r of None \<Rightarrow> [] | Some o1 \<Rightarrow> (case vmHeap vm o1 of None \<Rightarrow> [] | Some ob \<Rightarrow> filename ob))"

definition addUnsupported :: "lvalue \<Rightarrow> lvalue \<Rightarrow> frame \<Rightarrow> vm \<Rightarrow> outcome" where
  "addUnsupported lhs rhs =
     lpcErr (''Add: unsupported operand types (lhs kind '' @ to_string (int (vindex (vdata lhs))) @
             '', rhs kind '' @ to_string (int (vindex (vdata rhs))) @ '')'')"

definition opAdd :: "frame \<Rightarrow> vm \<Rightarrow> outcome" where
  "opAdd fr vm =
     withTwo ''Add'' fr vm (\<lambda>lhs rhs fr'.
       case (vdata lhs, vdata rhs) of
         (VStr a, VStr b) \<Rightarrow> pushGo (vStr (a @ b)) fr' vm
       | (VObj a, VStr b) \<Rightarrow> pushGo (vStr (nameOf vm a @ b)) fr' vm
       | (VStr a, VObj b) \<Rightarrow> pushGo (vStr (a @ nameOf vm b)) fr' vm
       | (VArr a, VArr b) \<Rightarrow> pushArray (arrItems vm a @ arrItems vm b) fr' vm
       | (VMap a, VMap b) \<Rightarrow>
           (case (mapLookup vm a, mapLookup vm b) of
              (Some l, Some r) \<Rightarrow>
                if width l \<noteq> width r then lpcErr ''Add: mappings of different width'' fr' vm
                else pushMap (mapAdd (Some l) (Some r)) fr' vm
            | (l, r) \<Rightarrow> pushMap (mapAdd l r) fr' vm)
       | (VStr a, d) \<Rightarrow>
           if isNumeric rhs then pushGo (vStr (a @ formatNumberForConcat rhs)) fr' vm
           else addUnsupported lhs rhs fr' vm
       | (d, VStr b) \<Rightarrow>
           if isNumeric lhs then pushGo (vStr (formatNumberForConcat lhs @ b)) fr' vm
           else addUnsupported lhs rhs fr' vm
       | _ \<Rightarrow>
           (case (asArithmeticOperand lhs, asArithmeticOperand rhs) of
              (Some lv, Some rv) \<Rightarrow> pushNumber (isDouble lhs \<or> isDouble rhs) (dbl_add lv rv) fr' vm
            | _ \<Rightarrow> addUnsupported lhs rhs fr' vm))"

section \<open>Jumps, catch frames and timers\<close>

definition opForeachKeys :: "frame \<Rightarrow> vm \<Rightarrow> outcome" where
  "opForeachKeys fr vm =
     withOne ''ForeachKeys'' fr vm (\<lambda>v fr'.
       case vdata v of
         VArr _ \<Rightarrow> pushGo v fr' vm
       | VMap m \<Rightarrow> pushArray (case mapLookup vm m of None \<Rightarrow> [] | Some mp \<Rightarrow> map fst (entries mp)) fr' vm
       | _ \<Rightarrow> lpcErr ''foreach: collection must be an array or mapping'' fr' vm)"

definition badTarget :: "CompiledProgram \<Rightarrow> Instruction \<Rightarrow> bool" where
  "badTarget p i \<longleftrightarrow> operand i < 0 \<or> length (code p) < nat (operand i)"

definition opJump :: "CompiledProgram \<Rightarrow> Instruction \<Rightarrow> frame \<Rightarrow> vm \<Rightarrow> outcome" where
  "opJump p i fr vm =
     (if badTarget p i then lpcErr ''Jump: bad target'' fr vm else Go (fr\<lparr>ip := nat (operand i)\<rparr>) vm)"

definition opJumpIfFalse :: "CompiledProgram \<Rightarrow> Instruction \<Rightarrow> frame \<Rightarrow> vm \<Rightarrow> outcome" where
  "opJumpIfFalse p i fr vm =
     withOne ''JumpIfFalse'' fr vm (\<lambda>v fr'.
       if \<not> isTruthy v
       then (if badTarget p i then lpcErr ''JumpIfFalse: bad target'' fr' vm else Go (fr'\<lparr>ip := nat (operand i)\<rparr>) vm)
       else Go (nxt fr') vm)"

definition opPushCatchFrame :: "CompiledProgram \<Rightarrow> Instruction \<Rightarrow> frame \<Rightarrow> vm \<Rightarrow> outcome" where
  "opPushCatchFrame p i fr vm =
     (if badTarget p i then lpcErr ''PushCatchFrame: bad resume target'' fr vm
      else Go (nxt (fr\<lparr>catches := (nat (operand i), length (stk fr)) # catches fr\<rparr>)) vm)"

definition opPopCatchFrame :: "frame \<Rightarrow> vm \<Rightarrow> outcome" where
  "opPopCatchFrame fr vm =
     (case catches fr of
        [] \<Rightarrow> lpcErr ''PopCatchFrame: no active catch frame'' fr vm
      | _ # cs \<Rightarrow> pushGo (vInt 0) (fr\<lparr>catches := cs\<rparr>) vm)"

definition readClock :: "vm \<Rightarrow> int \<times> vm" where
  "readClock vm = (vmClock vm (vmReads vm), vm\<lparr>vmReads := Suc (vmReads vm)\<rparr>)"

definition opTimeStart :: "frame \<Rightarrow> vm \<Rightarrow> outcome" where
  "opTimeStart fr vm =
     (case readClock vm of (t, vm') \<Rightarrow> Go (nxt fr) (vm'\<lparr>timeExpressionStack := t # timeExpressionStack vm'\<rparr>))"

definition opTimeEnd :: "frame \<Rightarrow> vm \<Rightarrow> outcome" where
  "opTimeEnd fr vm =
     (case timeExpressionStack vm of
        [] \<Rightarrow> lpcErr ''TimeExpressionEnd: no active time_expression'' fr vm
      | t0 # ts \<Rightarrow>
          (case readClock (vm\<lparr>timeExpressionStack := ts\<rparr>) of
             (t1, vm') \<Rightarrow> pushGo (vInt (word_of_int (c_div (t1 - t0) 1000))) fr vm'))"

section \<open>Spreading, arrays and mappings\<close>

definition opExpandVarargs :: "Instruction \<Rightarrow> frame \<Rightarrow> vm \<Rightarrow> outcome" where
  "opExpandVarargs i fr vm =
     (if operand i < 0 \<or> length (stk fr) \<le> nat (operand i) then lpcErr ''ExpandVarargs: bad stack offset'' fr vm
      else
        let n = nat (operand i) in
        case vdata (stk fr ! n) of
          VArr a \<Rightarrow>
            let items = arrItems vm a in
            Go (nxt (fr\<lparr>stk := take n (stk fr) @ rev items @ drop (Suc n) (stk fr),
                        delta := delta fr + (int (length items) - 1)\<rparr>)) vm
        | _ \<Rightarrow> lpcErr (''Item being expanded with '' @ [CHR 0x22] @ ''...'' @ [CHR 0x22] @ '' is not an array'') fr vm)"

text \<open>
  The argument count of the instruction plus what spreading has added; the pending amount is reset even when the
  count is bad.
\<close>

definition takeCount :: "Instruction \<Rightarrow> frame \<Rightarrow> int \<times> frame" where
  "takeCount i fr = (argCount i + to_int32 (delta fr), fr\<lparr>delta := 0\<rparr>)"

text \<open>The top \<open>n\<close> values in the order they were pushed, and the stack without them; nothing when there are too few.\<close>

definition popArgs :: "int \<Rightarrow> frame \<Rightarrow> (lvalue list \<times> frame) option" where
  "popArgs n fr =
     (if n < 0 \<or> length (stk fr) < nat n then None
      else Some (rev (take (nat n) (stk fr)), fr\<lparr>stk := drop (nat n) (stk fr)\<rparr>))"

definition opMakeArray :: "Instruction \<Rightarrow> frame \<Rightarrow> vm \<Rightarrow> outcome" where
  "opMakeArray i fr vm =
     (case takeCount i fr of
        (argc, fr1) \<Rightarrow>
          (case popArgs argc fr1 of
             None \<Rightarrow> lpcErr ''MakeArray: bad arg count'' fr1 vm
           | Some (items, fr2) \<Rightarrow>
               (case newArray items vm of
                  (r, vm') \<Rightarrow> pushGo ((mkValue (VArr (Some r)))\<lparr>isClassInstance := (operand i \<noteq> 0)\<rparr>) fr2 vm')))"

fun chunks :: "nat \<Rightarrow> nat \<Rightarrow> 'a list \<Rightarrow> 'a list list" where
  "chunks k 0 xs = []"
| "chunks k (Suc n) xs = take k xs # chunks k n (drop k xs)"

definition opMakeMapping :: "Instruction \<Rightarrow> frame \<Rightarrow> vm \<Rightarrow> outcome" where
  "opMakeMapping i fr vm =
     (case takeCount i fr of
        (entryCount, fr1) \<Rightarrow>
          let w = max 1 (operand i) in
          if entryCount < 0 then lpcErr ''MakeMapping: bad arg count'' fr1 vm
          else
            (case popArgs ((w + 1) * entryCount) fr1 of
               None \<Rightarrow> lpcErr ''MakeMapping: bad arg count'' fr1 vm
             | Some (items, fr2) \<Rightarrow>
                 pushMap (foldl (\<lambda>m row. appendEntry m (hd row) (tl row)) (emptyMapping\<lparr>width := w\<rparr>)
                            (chunks (nat (w + 1)) (nat entryCount) items)) fr2 vm))"

section \<open>Indexing\<close>

definition indexFromEnd :: "Instruction \<Rightarrow> bool" where
  "indexFromEnd i \<longleftrightarrow> odd (argCount i)"

definition hasMapColumn :: "Instruction \<Rightarrow> bool" where
  "hasMapColumn i \<longleftrightarrow> bit (argCount i) 2"

text \<open>Position \<open>i\<close> of a sequence, counted from its end when the flag says so; \<^const>\<open>None\<close> when the subtraction overflows.\<close>

definition resolveIndex :: "bool \<Rightarrow> nat \<Rightarrow> int \<Rightarrow> int option" where
  "resolveIndex fromEnd len i =
     (if fromEnd then (if int64_range (int len - i) then Some (int len - i) else None) else Some i)"

text \<open>The column of \<^verbatim>\<open>map[key, n]\<close>: an \<^verbatim>\<open>int\<close>, checked against the width.\<close>

definition columnOf :: "mapping_rec \<Rightarrow> lvalue option \<Rightarrow> string + int" where
  "columnOf m colVal =
     (case colVal of
        None \<Rightarrow> Inr 0
      | Some v \<Rightarrow>
          (case vdata v of
             VInt w \<Rightarrow>
               let col = to_int32 (sint w) in
               if col < 0 \<or> width m \<le> col
               then Inl (''Illegal sub-index '' @ to_string col @ '', mapping width is '' @ to_string (width m) @ ''.'')
               else Inr col
           | _ \<Rightarrow> Inl ''Illegal sub-index type, expected number.''))"

definition findKey :: "mapping_rec \<Rightarrow> lvalue \<Rightarrow> nat option" where
  "findKey m k = find_idx (\<lambda>e. valuesEqual (fst e) k) (entries m)"

definition indexArray :: "Instruction \<Rightarrow> ref option \<Rightarrow> lvalue \<Rightarrow> frame \<Rightarrow> vm \<Rightarrow> outcome" where
  "indexArray ins a idx fr vm =
     (case a of
        None \<Rightarrow> lpcErr ''Index: target array is null'' fr vm
      | Some r \<Rightarrow>
          (case vdata idx of
             VInt w \<Rightarrow>
               let items = arrItems vm a in
               (case resolveIndex (indexFromEnd ins) (length items) (sint w) of
                  None \<Rightarrow> Fail VUndef fr vm
                | Some i \<Rightarrow>
                    if i < 0 \<or> length items \<le> nat i then lpcErr ''Index: array index out of bounds'' fr vm
                    else
                      let v = coerceIfDestructed vm (items ! nat i) in
                      pushGo v fr (vm\<lparr>vmArrays := (vmArrays vm)(r \<mapsto> items[nat i := v])\<rparr>))
           | _ \<Rightarrow> lpcErr ''Index: array index must be an integer'' fr vm))"

definition indexMap :: "ref option \<Rightarrow> lvalue \<Rightarrow> lvalue option \<Rightarrow> frame \<Rightarrow> vm \<Rightarrow> outcome" where
  "indexMap mr idx colVal fr vm =
     (case mapLookup vm mr of
        None \<Rightarrow> lpcErr ''Index: target mapping is null'' fr vm
      | Some m \<Rightarrow>
          (case columnOf m colVal of
             Inl msg \<Rightarrow> lpcErr msg fr vm
           | Inr col \<Rightarrow>
               (case findKey m idx of
                  Some k \<Rightarrow>
                    (case getColumn m k col of
                       None \<Rightarrow> Fail VUndef fr vm
                     | Some v \<Rightarrow> pushGo (coerceIfDestructed vm v) fr vm)
                | None \<Rightarrow> pushGo (if colVal = None then vVoid else vInt 0) fr vm)))"

definition indexString :: "Instruction \<Rightarrow> string \<Rightarrow> lvalue \<Rightarrow> frame \<Rightarrow> vm \<Rightarrow> outcome" where
  "indexString ins s idx fr vm =
     (case vdata idx of
        VInt w \<Rightarrow>
          (case resolveIndex (indexFromEnd ins) (length s) (sint w) of
             None \<Rightarrow> Fail VUndef fr vm
           | Some i \<Rightarrow>
               if i < 0 \<or> length s < nat i then lpcErr ''Index: string index out of bounds'' fr vm
               else pushGo (vInt (if nat i < length s then of_char (s ! nat i) else 0)) fr vm)
      | _ \<Rightarrow> lpcErr ''Index: string index must be an integer'' fr vm)"

text \<open>Pops the column (when the flag is set), the index and the target.\<close>

definition withTarget :: "string \<Rightarrow> Instruction \<Rightarrow> frame \<Rightarrow> vm \<Rightarrow> (lvalue \<Rightarrow> lvalue \<Rightarrow> lvalue option \<Rightarrow> frame \<Rightarrow> outcome) \<Rightarrow> outcome" where
  "withTarget name ins fr vm f =
     (if hasMapColumn ins then
        (case stk fr of
           c # idx # tgt # rest \<Rightarrow> f tgt idx (Some c) (fr\<lparr>stk := rest\<rparr>)
         | _ \<Rightarrow> lpcErr (name @ '': stack underflow'') fr vm)
      else
        (case stk fr of
           idx # tgt # rest \<Rightarrow> f tgt idx None (fr\<lparr>stk := rest\<rparr>)
         | _ \<Rightarrow> lpcErr (name @ '': stack underflow'') fr vm))"

definition opIndex :: "Instruction \<Rightarrow> frame \<Rightarrow> vm \<Rightarrow> outcome" where
  "opIndex ins fr vm =
     withTarget ''Index'' ins fr vm (\<lambda>tgt idx colVal fr'.
       case vdata tgt of
         VArr a \<Rightarrow> indexArray ins a idx fr' vm
       | VMap m \<Rightarrow> indexMap m idx colVal fr' vm
       | VStr s \<Rightarrow> indexString ins s idx fr' vm
       | _ \<Rightarrow> lpcErr ''Index: target is not an array, mapping, or string'' fr' vm)"

definition assignArray :: "ref option \<Rightarrow> lvalue \<Rightarrow> lvalue \<Rightarrow> frame \<Rightarrow> vm \<Rightarrow> outcome" where
  "assignArray a idx v fr vm =
     (case a of
        None \<Rightarrow> lpcErr ''IndexAssign: target array is null'' fr vm
      | Some r \<Rightarrow>
          (case vdata idx of
             VInt w \<Rightarrow>
               let items = arrItems vm a; i = sint w in
               if i < 0 \<or> length items \<le> nat i then lpcErr ''IndexAssign: array index out of bounds'' fr vm
               else Go (nxt fr) (vm\<lparr>vmArrays := (vmArrays vm)(r \<mapsto> items[nat i := v])\<rparr>)
           | _ \<Rightarrow> lpcErr ''IndexAssign: array index must be an integer'' fr vm))"

definition assignMap :: "ref option \<Rightarrow> lvalue \<Rightarrow> lvalue option \<Rightarrow> lvalue \<Rightarrow> frame \<Rightarrow> vm \<Rightarrow> outcome" where
  "assignMap mr idx colVal v fr vm =
     (case (mr, mapLookup vm mr) of
        (Some r, Some m) \<Rightarrow>
          (case columnOf m colVal of
             Inl msg \<Rightarrow> lpcErr msg fr vm
           | Inr col \<Rightarrow>
               (case (case findKey m idx of
                        Some k \<Rightarrow> setColumn m k col v
                      | None \<Rightarrow> Some (appendEntry m idx ((replicate (nat (width m)) (vInt 0))[nat col := v]))) of
                  None \<Rightarrow> Fail VUndef fr vm
                | Some m' \<Rightarrow> Go (nxt fr) (vm\<lparr>vmMaps := (vmMaps vm)(r \<mapsto> m')\<rparr>)))
      | _ \<Rightarrow> lpcErr ''IndexAssign: target mapping is null'' fr vm)"

definition opIndexAssign :: "Instruction \<Rightarrow> frame \<Rightarrow> vm \<Rightarrow> outcome" where
  "opIndexAssign ins fr vm =
     (case stk fr of
        [] \<Rightarrow> lpcErr ''IndexAssign: stack underflow'' fr vm
      | v # rest \<Rightarrow>
          (if length rest < (if hasMapColumn ins then 3 else 2) then lpcErr ''IndexAssign: stack underflow'' fr vm
           else
             withTarget ''IndexAssign'' ins (fr\<lparr>stk := rest\<rparr>) vm (\<lambda>tgt idx colVal fr'.
               case vdata tgt of
                 VArr a \<Rightarrow> assignArray a idx v fr' vm
               | VMap m \<Rightarrow> assignMap m idx colVal v fr' vm
               | _ \<Rightarrow> lpcErr ''IndexAssign: target is not an array or mapping'' fr' vm)))"

text \<open>The bounds of \<^verbatim>\<open>target[start..end]\<close> after \<^verbatim>\<open>resolveBounds\<close> and the clamping of the end.\<close>

definition resolveBounds :: "Instruction \<Rightarrow> nat \<Rightarrow> int \<Rightarrow> int \<Rightarrow> (int \<times> int) option" where
  "resolveBounds ins len rawStart rawEnd =
     (case (resolveIndex (bit (argCount ins) 0) len rawStart, resolveIndex (bit (argCount ins) 1) len rawEnd) of
        (Some s, Some e) \<Rightarrow> Some (max 0 s, min e (int len - 1))
      | _ \<Rightarrow> None)"

definition rangeSlice :: "'a list \<Rightarrow> int \<Rightarrow> int \<Rightarrow> 'a list" where
  "rangeSlice xs s e = (if s > e then [] else take (nat (e - s + 1)) (drop (nat s) xs))"

definition opRangeIndex :: "Instruction \<Rightarrow> frame \<Rightarrow> vm \<Rightarrow> outcome" where
  "opRangeIndex ins fr vm =
     (case stk fr of
        ev # sv # tgt # rest \<Rightarrow>
          let fr' = fr\<lparr>stk := rest\<rparr> in
          (case (vdata sv, vdata ev) of
             (VInt s, VInt e) \<Rightarrow>
               if \<not> bit (argCount ins) 0 \<and> sint s < 0 then lpcErr ''RangeIndex: start index must be non-negative'' fr' vm
               else
                 (case vdata tgt of
                    VStr str \<Rightarrow>
                      (case resolveBounds ins (length str) (sint s) (sint e) of
                         None \<Rightarrow> Fail VUndef fr' vm
                       | Some (a, b) \<Rightarrow> pushGo (vStr (rangeSlice str a b)) fr' vm)
                  | VArr None \<Rightarrow> lpcErr ''RangeIndex: target array is null'' fr' vm
                  | VArr (Some r) \<Rightarrow>
                      (case resolveBounds ins (length (arrItems vm (Some r))) (sint s) (sint e) of
                         None \<Rightarrow> Fail VUndef fr' vm
                       | Some (a, b) \<Rightarrow> pushArray (rangeSlice (arrItems vm (Some r)) a b) fr' vm)
                  | _ \<Rightarrow> lpcErr ''RangeIndex: target is not an array or string'' fr' vm)
           | (VInt s, _) \<Rightarrow> lpcErr ''RangeIndex: end index must be an integer'' fr' vm
           | _ \<Rightarrow> lpcErr ''RangeIndex: start index must be an integer'' fr' vm)
      | _ \<Rightarrow> lpcErr ''RangeIndex: stack underflow'' fr vm)"

section \<open>Calls\<close>

definition programOf :: "vm \<Rightarrow> ref \<Rightarrow> CompiledProgram option" where
  "programOf vm r = (case vmHeap vm r of None \<Rightarrow> None | Some ob \<Rightarrow> vmPrograms vm (program ob))"

text \<open>Name resolution in the program of an object, with the cache of the machine.\<close>

definition lookupIn :: "CompiledProgram \<Rightarrow> string \<Rightarrow> vm \<Rightarrow> lookup \<times> vm" where
  "lookupIn p name vm = (case findFunctionInChain p name (vmCache vm) of (r, c) \<Rightarrow> (r, vm\<lparr>vmCache := c\<rparr>))"

text \<open>
  The tiers of a bare call: the object's own program and its ancestors, the simul_efun object, the efun table.
\<close>

datatype resolution =
    RFunction CompiledProgram FunctionEntry ref Origin
  | REfun efun
  | RNone
  | RUndef

definition resolveCall :: "vm_env \<Rightarrow> ref \<Rightarrow> string \<Rightarrow> vm \<Rightarrow> resolution \<times> vm" where
  "resolveCall env obj name vm =
     (case programOf vm obj of
        None \<Rightarrow> (RUndef, vm)
      | Some p \<Rightarrow>
          (case lookupIn p name vm of
             (Some (q, f), vm1) \<Rightarrow> (RFunction q f obj OLocal, vm1)
           | (None, vm1) \<Rightarrow>
               (let efunTier = (\<lambda>vm2. (case eEfuns env name of Some e \<Rightarrow> (REfun e, vm2) | None \<Rightarrow> (RNone, vm2))) in
                case vmSimulEfun vm1 of
                  None \<Rightarrow> efunTier vm1
                | Some se \<Rightarrow>
                    (case programOf vm1 se of
                       None \<Rightarrow> (RUndef, vm1)
                     | Some sp \<Rightarrow>
                         (case lookupIn sp name vm1 of
                            (Some (q, f), vm2) \<Rightarrow> (RFunction q f se OSimulEfun, vm2)
                          | (None, vm2) \<Rightarrow> efunTier vm2)))))"

definition opCall :: "vm_env \<Rightarrow> CompiledProgram \<Rightarrow> ref \<Rightarrow> Instruction \<Rightarrow> frame \<Rightarrow> vm \<Rightarrow> outcome" where
  "opCall env p obj ins fr vm =
     (case poolAt (stringPool p) (operand ins) of
        None \<Rightarrow> lpcErr ''Call: bad function name index'' fr vm
      | Some name \<Rightarrow>
          (case takeCount ins fr of
             (argc, fr1) \<Rightarrow>
               (case popArgs argc fr1 of
                  None \<Rightarrow> lpcErr (''Call: bad arg count for '' @ name) fr1 vm
                | Some (args, fr2) \<Rightarrow>
                    (case resolveCall env obj name vm of
                       (RFunction q f o1 org, vm1) \<Rightarrow> Invoke q f args o1 org (Suc (ip fr2)) fr2 vm1
                     | (REfun e, vm1) \<Rightarrow> InvokeEfun e args fr2 vm1
                     | (RNone, vm1) \<Rightarrow> lpcErr (''undefined function or efun: '' @ name) fr2 vm1
                     | (RUndef, vm1) \<Rightarrow> Fail VUndef fr2 vm1))))"

definition opCallEfun :: "vm_env \<Rightarrow> CompiledProgram \<Rightarrow> Instruction \<Rightarrow> frame \<Rightarrow> vm \<Rightarrow> outcome" where
  "opCallEfun env p ins fr vm =
     (case poolAt (stringPool p) (operand ins) of
        None \<Rightarrow> lpcErr ''CallEfun: bad efun name index'' fr vm
      | Some name \<Rightarrow>
          (case takeCount ins fr of
             (argc, fr1) \<Rightarrow>
               (case popArgs argc fr1 of
                  None \<Rightarrow> lpcErr (''CallEfun: bad arg count for '' @ name) fr1 vm
                | Some (args, fr2) \<Rightarrow>
                    (case eEfuns env name of
                       None \<Rightarrow> lpcErr (''undefined efun: '' @ name) fr2 vm
                     | Some e \<Rightarrow> InvokeEfun e args fr2 vm))))"

text \<open>
  \<^verbatim>\<open>::name()\<close> and \<^verbatim>\<open>qualifier::name()\<close>: the qualifier is in the data instruction that follows; the call resumes two
  instructions on.
\<close>

definition opCallParent :: "CompiledProgram \<Rightarrow> ref \<Rightarrow> Instruction \<Rightarrow> frame \<Rightarrow> vm \<Rightarrow> outcome" where
  "opCallParent p obj ins fr vm =
     (case poolAt (stringPool p) (operand ins) of
        None \<Rightarrow> lpcErr ''CallParent: bad function name index'' fr vm
      | Some name \<Rightarrow>
          if length (code p) \<le> ip fr + 1 \<or> op (code p ! (ip fr + 1)) \<noteq> CallParentQualifierSlot
          then lpcErr ''CallParent: missing qualifier data instruction'' fr vm
          else
            let q = operand (code p ! (ip fr + 1)) in
            if 0 \<le> q \<and> length (stringPool p) \<le> nat q then lpcErr ''CallParent: bad qualifier string index'' fr vm
            else
              let qualifier = (if 0 \<le> q then Some (stringPool p ! nat q) else None) in
              (case takeCount ins fr of
                 (argc, fr1) \<Rightarrow>
                   (case popArgs argc fr1 of
                      None \<Rightarrow> lpcErr (''CallParent: bad arg count for '' @ name) fr1 vm
                    | Some (args, fr2) \<Rightarrow>
                        (case findParentFunction p name qualifier (vmCache vm) of
                           (None, c) \<Rightarrow>
                             lpcErr ((case qualifier of None \<Rightarrow> ''::'' | Some s \<Rightarrow> s @ ''::'') @ name @
                                     ''(): undefined function in inherited program'') fr2 (vm\<lparr>vmCache := c\<rparr>)
                         | (Some (par, f), c) \<Rightarrow> Invoke par f args obj OLocal (ip fr2 + 2) fr2 (vm\<lparr>vmCache := c\<rparr>)))))"

section \<open>Closures, sscanf and the rest\<close>

definition opPushClosure :: "bool \<Rightarrow> CompiledProgram \<Rightarrow> ref \<Rightarrow> Instruction \<Rightarrow> frame \<Rightarrow> vm \<Rightarrow> outcome" where
  "opPushClosure force p obj ins fr vm =
     (let self = (if force then ''PushEfunClosure'' else ''PushClosure'') in
      case poolAt (stringPool p) (operand ins) of
        None \<Rightarrow> lpcErr (self @ '': bad function name index'') fr vm
      | Some name \<Rightarrow>
          (case popArgs (argCount ins) fr of
             None \<Rightarrow> lpcErr (self @ '': bad bound-arg count for '' @ name) fr vm
           | Some (args, fr1) \<Rightarrow>
               (case newClosure \<lparr>clOwner = Some obj, clFunction = name, clBoundArgs = args, clForceEfun = force,
                                 clUnbound = False, clLambdaParams = [], clLambdaBody = vVoid\<rparr> vm of
                  (r, vm') \<Rightarrow> pushGo (mkValue (VFun (Some r))) fr1 vm')))"

text \<open>
  The assignments of \<^verbatim>\<open>sscanf\<close>, in order; the slots are in the data instructions that follow. Object variables are
  addressed here without the base offset.
\<close>

fun sscanfAssign :: "Instruction list \<Rightarrow> lvalue list \<Rightarrow> ref \<Rightarrow> frame \<Rightarrow> vm \<Rightarrow> (string \<times> frame \<times> vm) + (frame \<times> vm)" where
  "sscanfAssign (slot # slots) (v # vs) obj fr vm =
     (if argCount slot \<noteq> 0 then
        (if operand slot < 0 \<or> length (objVars obj vm) \<le> nat (operand slot)
         then Inl (''Sscanf: bad object variable slot index'', fr, vm)
         else sscanfAssign slots vs obj fr (setObjVar obj (nat (operand slot)) v vm))
      else
        (if operand slot < 0 \<or> length (locals fr) \<le> nat (operand slot)
         then Inl (''Sscanf: bad local slot index'', fr, vm)
         else sscanfAssign slots vs obj (fr\<lparr>locals := (locals fr)[nat (operand slot) := v]\<rparr>) vm))"
| "sscanfAssign _ _ obj fr vm = Inr (fr, vm)"

definition opSscanf :: "vm_env \<Rightarrow> CompiledProgram \<Rightarrow> ref \<Rightarrow> Instruction \<Rightarrow> frame \<Rightarrow> vm \<Rightarrow> outcome" where
  "opSscanf env p obj ins fr vm =
     (if operand ins < 0 then lpcErr ''Sscanf: bad var count'' fr vm
      else
        let n = nat (operand ins) in
        withTwo ''Sscanf'' fr vm (\<lambda>target format fr'.
          case (vdata target, vdata format) of
            (VStr t, VStr f) \<Rightarrow>
              if length (code p) < ip fr' + 1 + n then lpcErr ''Sscanf: truncated var-slot table'' fr' vm
              else
                (case eSscanf env t f n of
                   Inl e \<Rightarrow> Fail e fr' vm
                 | Inr (assigned, matched) \<Rightarrow>
                     (case sscanfAssign (drop (ip fr' + 1) (code p)) assigned obj fr' vm of
                        Inl (msg, fr1, vm1) \<Rightarrow> lpcErr msg fr1 vm1
                      | Inr (fr1, vm1) \<Rightarrow>
                          Go (fr1\<lparr>stk := vInt matched # stk fr1, ip := ip fr1 + 1 + n\<rparr>) vm1))
          | _ \<Rightarrow> lpcErr ''sscanf: first two arguments must be strings'' fr' vm))"

definition allOpCodes :: "OpCode list" where
  "allOpCodes =
    [PushConst, PushInt, PushFloat, PushNil, PushSymbol, PushLocal, StoreLocal, PushObjectVar, StoreObjectVar,
     OpAdd, OpSub, OpMul, OpDiv, OpMod, BitAnd, BitOr, BitXor, Shl, Shr, BitNot, OpEq, OpNeq, OpLt, OpLte, OpGt, OpGte,
     OpNot, Jump, JumpIfFalse, OpCall, CallEfun, CallParent, CallParentQualifierSlot, PushClosure, PushEfunClosure,
     CallApply, ExpandVarargs, MakeArray, MakeMapping, OpIndex, IndexAssign, RangeIndex, OpSscanf, SscanfVarSlot,
     ForeachKeys, PushCatchFrame, PopCatchFrame, TimeExpressionStart, TimeExpressionEnd, OpReturn, OpPop, OpDup, Halt,
     Suspend]"

definition opcodeNumber :: "OpCode \<Rightarrow> nat" where
  "opcodeNumber c = (case find_idx (\<lambda>x. x = c) allOpCodes of Some n \<Rightarrow> n | None \<Rightarrow> 0)"

text \<open>The \<^verbatim>\<open>switch\<close> of \<^verbatim>\<open>VM::run\<close>: \<open>obj\<close> is the object, \<open>base\<close> the offset of its variables for this program.\<close>

definition step :: "vm_env \<Rightarrow> CompiledProgram \<Rightarrow> ref \<Rightarrow> int \<Rightarrow> Instruction \<Rightarrow> frame \<Rightarrow> vm \<Rightarrow> outcome" where
  "step env p obj base ins fr vm =
     (case op ins of
        PushConst \<Rightarrow> opPushConst p ins fr vm
      | PushInt \<Rightarrow> opPushInt ins fr vm
      | PushFloat \<Rightarrow> opPushFloat p ins fr vm
      | PushNil \<Rightarrow> pushGo (mkValue VNil) fr vm
      | PushSymbol \<Rightarrow> opPushSymbol p ins fr vm
      | PushLocal \<Rightarrow> opPushLocal ins fr vm
      | StoreLocal \<Rightarrow> opStoreLocal ins fr vm
      | PushObjectVar \<Rightarrow> opPushObjectVar obj base ins fr vm
      | StoreObjectVar \<Rightarrow> opStoreObjectVar obj base ins fr vm
      | OpEq \<Rightarrow> opEquality OpEq fr vm
      | OpNeq \<Rightarrow> opEquality OpNeq fr vm
      | OpLt \<Rightarrow> opCompare OpLt fr vm
      | OpLte \<Rightarrow> opCompare OpLte fr vm
      | OpGt \<Rightarrow> opCompare OpGt fr vm
      | OpGte \<Rightarrow> opCompare OpGte fr vm
      | OpNot \<Rightarrow> opNot fr vm
      | OpSub \<Rightarrow> opArith OpSub fr vm
      | OpMul \<Rightarrow> opArith OpMul fr vm
      | OpDiv \<Rightarrow> opArith OpDiv fr vm
      | OpMod \<Rightarrow> opArith OpMod fr vm
      | BitAnd \<Rightarrow> opBitAnd fr vm
      | BitOr \<Rightarrow> opBitOr fr vm
      | BitXor \<Rightarrow> opBitXor fr vm
      | Shl \<Rightarrow> opShift Shl fr vm
      | Shr \<Rightarrow> opShift Shr fr vm
      | BitNot \<Rightarrow> opBitNot fr vm
      | ForeachKeys \<Rightarrow> opForeachKeys fr vm
      | Jump \<Rightarrow> opJump p ins fr vm
      | JumpIfFalse \<Rightarrow> opJumpIfFalse p ins fr vm
      | PushCatchFrame \<Rightarrow> opPushCatchFrame p ins fr vm
      | PopCatchFrame \<Rightarrow> opPopCatchFrame fr vm
      | TimeExpressionStart \<Rightarrow> opTimeStart fr vm
      | TimeExpressionEnd \<Rightarrow> opTimeEnd fr vm
      | OpAdd \<Rightarrow> opAdd fr vm
      | ExpandVarargs \<Rightarrow> opExpandVarargs ins fr vm
      | MakeArray \<Rightarrow> opMakeArray ins fr vm
      | MakeMapping \<Rightarrow> opMakeMapping ins fr vm
      | OpIndex \<Rightarrow> opIndex ins fr vm
      | IndexAssign \<Rightarrow> opIndexAssign ins fr vm
      | RangeIndex \<Rightarrow> opRangeIndex ins fr vm
      | OpCall \<Rightarrow> opCall env p obj ins fr vm
      | CallParent \<Rightarrow> opCallParent p obj ins fr vm
      | PushClosure \<Rightarrow> opPushClosure False p obj ins fr vm
      | PushEfunClosure \<Rightarrow> opPushClosure True p obj ins fr vm
      | OpSscanf \<Rightarrow> opSscanf env p obj ins fr vm
      | CallEfun \<Rightarrow> opCallEfun env p ins fr vm
      | OpPop \<Rightarrow> Go (nxt (fr\<lparr>stk := tl (stk fr)\<rparr>)) vm
      | OpDup \<Rightarrow> (case stk fr of [] \<Rightarrow> lpcErr ''Dup: stack underflow'' fr vm | v # _ \<Rightarrow> pushGo v fr vm)
      | OpReturn \<Rightarrow> Stop (case stk fr of [] \<Rightarrow> vVoid | v # _ \<Rightarrow> v) vm
      | Halt \<Rightarrow> Stop vVoid vm
      | _ \<Rightarrow> Fail (VExn (NotImplementedError (''VM::run opcode '' @ to_string (int (opcodeNumber (op ins)))))) fr vm)"


end
