(* ===== verification/Vm_Run.thy ===== *)
theory Vm_Run
  imports Vm_Ops
begin

text \<open>
  The interpreter loop \<^verbatim>\<open>VM::run\<close> with its guards, catch frames and the evaluation budget, and closure calls. The functions take
  fuel, one unit per instruction and per call level; \<^const>\<open>None\<close> means that it ran out.
\<close>

section \<open>Guards\<close>

text \<open>\<^verbatim>\<open>ObjectFrameGuard\<close>: constructor and destructor.\<close>

definition objectChanged :: "ref \<Rightarrow> vm \<Rightarrow> bool" where
  "objectChanged obj vm \<longleftrightarrow> (case callStack vm of [] \<Rightarrow> True | o1 # _ \<Rightarrow> o1 \<noteq> obj)"

definition enterFrame :: "ref \<Rightarrow> string \<Rightarrow> vm \<Rightarrow> vm" where
  "enterFrame obj name vm =
     vm\<lparr>objectChangeStack :=
          (if objectChanged obj vm
           then (case callStack vm of [] \<Rightarrow> None | o1 # _ \<Rightarrow> Some o1) # objectChangeStack vm
           else objectChangeStack vm),
        callStack := obj # callStack vm, functionNameStack := name # functionNameStack vm\<rparr>"

definition leaveFrame :: "bool \<Rightarrow> vm \<Rightarrow> vm" where
  "leaveFrame changed vm =
     vm\<lparr>callStack := tl (callStack vm), functionNameStack := tl (functionNameStack vm),
        objectChangeStack := (if changed then tl (objectChangeStack vm) else objectChangeStack vm)\<rparr>"

text \<open>\<^verbatim>\<open>OriginGuard\<close>, \<^verbatim>\<open>CommandGiverGuard\<close> and \<^verbatim>\<open>DeferFrameGuard\<close>.\<close>

definition pushOrigin :: "Origin \<Rightarrow> vm \<Rightarrow> vm" where
  "pushOrigin org vm = vm\<lparr>originStack := org # originStack vm\<rparr>"

definition popOrigin :: "vm \<Rightarrow> vm" where
  "popOrigin vm = vm\<lparr>originStack := tl (originStack vm)\<rparr>"

definition pushCommandGiver :: "ref option \<Rightarrow> vm \<Rightarrow> vm" where
  "pushCommandGiver g vm = vm\<lparr>commandGiverStack := g # commandGiverStack vm\<rparr>"

definition popCommandGiver :: "vm \<Rightarrow> vm" where
  "popCommandGiver vm = vm\<lparr>commandGiverStack := tl (commandGiverStack vm)\<rparr>"

definition commandGiverOf :: "vm \<Rightarrow> ref option" where
  "commandGiverOf vm = (case commandGiverStack vm of [] \<Rightarrow> None | g # _ \<Rightarrow> g)"

definition pushDefers :: "vm \<Rightarrow> vm" where
  "pushDefers vm = vm\<lparr>deferStack := [] # deferStack vm\<rparr>"

definition popDefers :: "vm \<Rightarrow> DeferEntry list \<times> vm" where
  "popDefers vm = ((case deferStack vm of [] \<Rightarrow> [] | d # _ \<Rightarrow> d), vm\<lparr>deferStack := tl (deferStack vm)\<rparr>)"

definition registerDefer :: "ref option \<Rightarrow> vm \<Rightarrow> vm" where
  "registerDefer c vm =
     (case deferStack vm of
        [] \<Rightarrow> vm
      | d # ds \<Rightarrow> vm\<lparr>deferStack := (d @ [\<lparr>deClosure = c, deCommandGiver = commandGiverOf vm\<rparr>]) # ds\<rparr>)"

section \<open>Entering a function\<close>

text \<open>The offset of the executing program's variables in the object; 0 for the object's own program.\<close>

definition objectVarBase :: "CompiledProgram \<Rightarrow> ref \<Rightarrow> vm \<Rightarrow> vm_exn + int" where
  "objectVarBase p obj vm =
     (case programOf vm obj of
        None \<Rightarrow> Inl VUndef
      | Some q \<Rightarrow>
          if progId p = progId q then Inr 0
          else (case ancestorBaseOffsets q (progId p) of
                  None \<Rightarrow> Inl (VExn (LpcRuntimeError ''internal error: no object-variable base offset recorded for an inherited program''))
                | Some b \<Rightarrow> Inr b))"

text \<open>The first \<open>k\<close> arguments over the default locals.\<close>

definition overlay :: "nat \<Rightarrow> lvalue list \<Rightarrow> lvalue list \<Rightarrow> lvalue list" where
  "overlay k args ls = take (length ls) (take k args) @ drop (min k (length args)) ls"

definition bindLocals :: "FunctionEntry \<Rightarrow> lvalue list \<Rightarrow> vm \<Rightarrow> lvalue list \<times> vm" where
  "bindLocals fn args vm =
     (let dflt = (if vmDialect vm = FluffOS then makeUndefinedNumber else vInt 0);
          ls = replicate (numLocals fn) dflt
      in if isVarargs fn \<and> 0 < numArgs fn then
           let rest = numArgs fn - 1 in
           (case newArray (drop rest args) vm of
              (r, vm') \<Rightarrow> ((overlay rest args ls)[rest := mkValue (VArr (Some r))], vm'))
         else (overlay (length args) args ls, vm))"

section \<open>Catching\<close>

definition resizeStack :: "nat \<Rightarrow> lvalue list \<Rightarrow> lvalue list" where
  "resizeStack d s = (if d \<le> length s then drop (length s - d) s else replicate (d - length s) vVoid @ s)"

definition unwind :: "lvalue \<Rightarrow> frame \<Rightarrow> frame option" where
  "unwind v fr =
     (case catches fr of
        [] \<Rightarrow> None
      | (resumeIp, d) # cs \<Rightarrow> Some (fr\<lparr>stk := v # resizeStack d (stk fr), catches := cs, ip := resumeIp\<rparr>))"

text \<open>
  The two handlers of the loop. A thrown value and a runtime error go to the innermost catch frame; without one, a
  runtime error is rethrown with the file and the function in front. Every other exception passes.
\<close>

definition catchError :: "string \<Rightarrow> string \<Rightarrow> vm_exn \<Rightarrow> frame \<Rightarrow> vm_exn + frame" where
  "catchError file fname e fr =
     (case e of
        VThrown v \<Rightarrow> (case unwind v fr of None \<Rightarrow> Inl e | Some fr' \<Rightarrow> Inr fr')
      | VExn (LpcRuntimeError msg) \<Rightarrow>
          (case unwind (vStr msg) fr of
             None \<Rightarrow> Inl (VExn (LpcRuntimeError (file @ ''::'' @ fname @ ''(): '' @ msg)))
           | Some fr' \<Rightarrow> Inr fr')
      | _ \<Rightarrow> Inl e)"

text \<open>One turn of the loop up to the \<^verbatim>\<open>switch\<close>: the budget is charged before anything else.\<close>

definition chargedStep :: "vm_env \<Rightarrow> CompiledProgram \<Rightarrow> ref \<Rightarrow> int \<Rightarrow> frame \<Rightarrow> vm \<Rightarrow> outcome" where
  "chargedStep env p obj base fr vm =
     (let vm1 = vm\<lparr>evalCost := evalCost vm + 1\<rparr> in
      if evalCost vm1 > maxEvalCost vm1 then Fail (VExn (EvalCostError ''eval cost exceeded'')) fr vm1
      else step env p obj base (code p ! ip fr) fr vm1)"

definition lambdaError :: "string \<Rightarrow> vm_result" where
  "lambdaError msg = Inl (VExn (LpcRuntimeError msg))"

text \<open>The closure tiers after the checks of \<^verbatim>\<open>callClosure\<close>: which function a closure calls.\<close>

definition isSynthesizedLambdaName :: "string \<Rightarrow> bool" where
  "isSynthesizedLambdaName name \<longleftrightarrow> take 8 name = ''$lambda#''"

definition closureTarget :: "vm_env \<Rightarrow> closure \<Rightarrow> ref \<Rightarrow> vm \<Rightarrow> resolution \<times> vm" where
  "closureTarget env c owner vm =
     (if clForceEfun c
      then (case eEfuns env (clFunction c) of Some e \<Rightarrow> (REfun e, vm) | None \<Rightarrow> (RNone, vm))
      else
        (case resolveCall env owner (clFunction c) vm of
           (RFunction q f o1 OLocal, vm1) \<Rightarrow>
             (RFunction q f o1 (if isSynthesizedLambdaName (feName f) then OFunctional else OLocal), vm1)
         | r \<Rightarrow> r))"

section \<open>The interpreter\<close>

definition filenameOf :: "vm \<Rightarrow> ref \<Rightarrow> string" where
  "filenameOf vm r = nameOf vm (Some r)"

definition newFrame :: "FunctionEntry \<Rightarrow> lvalue list \<Rightarrow> frame" where
  "newFrame fn ls = \<lparr>locals = ls, stk = [], delta = 0, ip = entryPoint fn, catches = []\<rparr>"

text \<open>
  The functions of the interpreter call each other; each is a definition over the functions it may call, and
  \<open>interp n\<close> ties the knot with \<open>n\<close> units of fuel.
\<close>

type_synonym vm_answer = "(vm_result \<times> vm) option"

record interp_fns =
  iExec :: "vm_env \<Rightarrow> CompiledProgram \<Rightarrow> string \<Rightarrow> ref \<Rightarrow> int \<Rightarrow> frame \<Rightarrow> vm \<Rightarrow> vm_answer"
  iRun :: "vm_env \<Rightarrow> CompiledProgram \<Rightarrow> FunctionEntry \<Rightarrow> lvalue list \<Rightarrow> ref \<Rightarrow> vm \<Rightarrow> vm_answer"
  iDefers :: "vm_env \<Rightarrow> DeferEntry list \<Rightarrow> vm \<Rightarrow> (bool \<times> vm) option"
  iClosure :: "vm_env \<Rightarrow> ref option \<Rightarrow> lvalue list \<Rightarrow> vm \<Rightarrow> vm_answer"
  iNode :: "vm_env \<Rightarrow> lvalue \<Rightarrow> string list \<Rightarrow> lvalue list \<Rightarrow> vm \<Rightarrow> vm_answer"
  iNodes :: "vm_env \<Rightarrow> lvalue list \<Rightarrow> string list \<Rightarrow> lvalue list \<Rightarrow> vm \<Rightarrow> ((vm_exn + lvalue list) \<times> vm) option"

text \<open>The \<^verbatim>\<open>while\<close> loop of \<^verbatim>\<open>VM::run\<close>.\<close>

definition execBody :: "interp_fns \<Rightarrow> vm_env \<Rightarrow> CompiledProgram \<Rightarrow> string \<Rightarrow> ref \<Rightarrow> int \<Rightarrow> frame \<Rightarrow> vm \<Rightarrow> vm_answer" where
  "execBody I env p fname obj base fr vm =
     (if length (code p) \<le> ip fr then Some (Inr vVoid, vm)
      else
        (case chargedStep env p obj base fr vm of
           Go fr' vm' \<Rightarrow> iExec I env p fname obj base fr' vm'
         | Stop v vm' \<Rightarrow> Some (Inr v, vm')
         | Fail e fr' vm' \<Rightarrow>
             (case catchError (filenameOf vm' obj) fname e fr' of
                Inl e' \<Rightarrow> Some (Inl e', vm')
              | Inr fr'' \<Rightarrow> iExec I env p fname obj base fr'' vm')
         | Invoke q f args o1 org ip' fr' vm' \<Rightarrow>
             (case iRun I env q f args o1 (pushOrigin org vm') of
                None \<Rightarrow> None
              | Some (Inr v, vm1) \<Rightarrow>
                  iExec I env p fname obj base (fr'\<lparr>stk := v # stk fr', ip := ip'\<rparr>) (popOrigin vm1)
              | Some (Inl e, vm1) \<Rightarrow>
                  (case catchError (filenameOf (popOrigin vm1) obj) fname e fr' of
                     Inl e' \<Rightarrow> Some (Inl e', popOrigin vm1)
                   | Inr fr'' \<Rightarrow> iExec I env p fname obj base fr'' (popOrigin vm1)))
         | InvokeEfun e args fr' vm' \<Rightarrow>
             (case e vm' args of
                (Inr v, vm1) \<Rightarrow> iExec I env p fname obj base (nxt (fr'\<lparr>stk := v # stk fr'\<rparr>)) vm1
              | (Inl x, vm1) \<Rightarrow>
                  (case catchError (filenameOf vm1 obj) fname x fr' of
                     Inl e' \<Rightarrow> Some (Inl e', vm1)
                   | Inr fr'' \<Rightarrow> iExec I env p fname obj base fr'' vm1))))"

text \<open>\<^verbatim>\<open>VM::run\<close> around the loop: the guards, the base offset, the locals, and the deferred closures at the end.\<close>

definition runBody :: "interp_fns \<Rightarrow> vm_env \<Rightarrow> CompiledProgram \<Rightarrow> FunctionEntry \<Rightarrow> lvalue list \<Rightarrow> ref \<Rightarrow> vm \<Rightarrow> vm_answer" where
  "runBody I env p fn args obj vm =
     (let changed = objectChanged obj vm;
          vm1 = pushDefers (enterFrame obj (feName fn) vm)
      in case (case objectVarBase p obj vm1 of
                 Inl e \<Rightarrow> Some (Inl e, vm1)
               | Inr base \<Rightarrow>
                   (case bindLocals fn args vm1 of
                      (ls, vm2) \<Rightarrow> iExec I env p (feName fn) obj base (newFrame fn ls) vm2)) of
           None \<Rightarrow> None
         | Some (res, vm3) \<Rightarrow>
             (case popDefers vm3 of
                (pending, vm4) \<Rightarrow>
                  (case iDefers I env (rev pending) vm4 of
                     None \<Rightarrow> None
                   | Some (undef, vm5) \<Rightarrow> Some (if undef then Inl VUndef else res, leaveFrame changed vm5))))"

text \<open>The destructor of \<^verbatim>\<open>DeferFrameGuard\<close>: every exception of a deferred closure is dropped.\<close>

definition defersBody :: "interp_fns \<Rightarrow> vm_env \<Rightarrow> DeferEntry list \<Rightarrow> vm \<Rightarrow> (bool \<times> vm) option" where
  "defersBody I env dl vm =
     (case dl of
        [] \<Rightarrow> Some (False, vm)
      | d # ds \<Rightarrow>
          (case iClosure I env (deClosure d) [] (pushCommandGiver (deCommandGiver d) vm) of
             None \<Rightarrow> None
           | Some (res, vm1) \<Rightarrow>
               (case iDefers I env ds (popCommandGiver vm1) of
                  None \<Rightarrow> None
                | Some (undef, vm2) \<Rightarrow> Some (undef \<or> res = Inl VUndef, vm2))))"

definition closureBody :: "interp_fns \<Rightarrow> vm_env \<Rightarrow> ref option \<Rightarrow> lvalue list \<Rightarrow> vm \<Rightarrow> vm_answer" where
  "closureBody I env cl extra vm =
     (case cl of
        None \<Rightarrow> Some (lambdaError ''evaluate(): not a function value'', vm)
      | Some r \<Rightarrow>
          (case vmClosures vm r of
             None \<Rightarrow> Some (Inl VUndef, vm)
           | Some c \<Rightarrow>
               if clUnbound c then Some (lambdaError ''Uncallable closure'', vm)
               else
                 (case lock (vmHeap vm) (clOwner c) of
                    None \<Rightarrow> Some (lambdaError ''evaluate(): owner of function pointer is destructed'', vm)
                  | Some owner \<Rightarrow>
                      if (case vmHeap vm owner of Some ob \<Rightarrow> destructed ob | None \<Rightarrow> False)
                      then Some (lambdaError ''evaluate(): owner of function pointer is destructed'', vm)
                      else
                        let args = clBoundArgs c @ extra in
                        if vdata (clLambdaBody c) \<noteq> VVoid
                        then iNode I env (clLambdaBody c) (clLambdaParams c)
                               (take (length (clLambdaParams c)) args @
                                replicate (length (clLambdaParams c) - length args) vVoid) vm
                        else
                          (case closureTarget env c owner vm of
                             (RFunction q f o1 org, vm1) \<Rightarrow>
                               (case iRun I env q f args o1 (pushOrigin org vm1) of
                                  None \<Rightarrow> None
                                | Some (res, vm2) \<Rightarrow> Some (res, popOrigin vm2))
                           | (REfun e, vm1) \<Rightarrow>
                               (case e (enterFrame owner (clFunction c) vm1) args of
                                  (res, vm2) \<Rightarrow> Some (res, leaveFrame (objectChanged owner vm1) vm2))
                           | (RNone, vm1) \<Rightarrow>
                               Some (lambdaError ((if clForceEfun c then ''evaluate(): undefined efun: ''
                                                   else ''evaluate(): undefined function or efun: '') @ clFunction c), vm1)
                           | (RUndef, vm1) \<Rightarrow> Some (Inl VUndef, vm1)))))"

definition nodeBody :: "interp_fns \<Rightarrow> vm_env \<Rightarrow> lvalue \<Rightarrow> string list \<Rightarrow> lvalue list \<Rightarrow> vm \<Rightarrow> vm_answer" where
  "nodeBody I env node params args vm =
     (case vdata node of
        VSym s \<Rightarrow>
          (case find_idx (\<lambda>x. x = s) params of
             Some i \<Rightarrow> Some (Inr (args ! i), vm)
           | None \<Rightarrow>
               Some (lambdaError (''unbound_lambda: symbol '' @ [CHR 0x27] @ s @ '' is not one of this lambda'' @ [CHR 0x27] @
                 ''s own declared parameters (global-variable symbol references are not supported)''), vm))
      | VArr a \<Rightarrow>
          (case arrItems vm a of
             [] \<Rightarrow> Some (lambdaError ''unbound_lambda: empty quoted-code call expression'', vm)
           | hd1 # rest \<Rightarrow>
               (case vdata hd1 of
                  VFun (Some c) \<Rightarrow>
                    (case iNodes I env rest params args vm of
                       None \<Rightarrow> None
                     | Some (Inl e, vm1) \<Rightarrow> Some (Inl e, vm1)
                     | Some (Inr vs, vm1) \<Rightarrow> iClosure I env (Some c) vs vm1)
                | _ \<Rightarrow>
                    Some (lambdaError (''unbound_lambda: quoted-code call expression must start with a closure '' @
                      ''(operator/control-flow closures as the call head are not supported)''), vm)))
      | _ \<Rightarrow> Some (Inr node, vm))"

definition nodesBody :: "interp_fns \<Rightarrow> vm_env \<Rightarrow> lvalue list \<Rightarrow> string list \<Rightarrow> lvalue list \<Rightarrow> vm \<Rightarrow> ((vm_exn + lvalue list) \<times> vm) option" where
  "nodesBody I env nodes params args vm =
     (case nodes of
        [] \<Rightarrow> Some (Inr [], vm)
      | x # xs \<Rightarrow>
          (case iNode I env x params args vm of
             None \<Rightarrow> None
           | Some (Inl e, vm1) \<Rightarrow> Some (Inl e, vm1)
           | Some (Inr v, vm1) \<Rightarrow>
               (case iNodes I env xs params args vm1 of
                  None \<Rightarrow> None
                | Some (Inl e, vm2) \<Rightarrow> Some (Inl e, vm2)
                | Some (Inr vs, vm2) \<Rightarrow> Some (Inr (v # vs), vm2))))"

definition outOfFuel :: interp_fns where
  "outOfFuel = \<lparr>iExec = \<lambda>_ _ _ _ _ _ _. None, iRun = \<lambda>_ _ _ _ _ _. None, iDefers = \<lambda>_ _ _. None,
     iClosure = \<lambda>_ _ _ _. None, iNode = \<lambda>_ _ _ _ _. None, iNodes = \<lambda>_ _ _ _ _. None\<rparr>"

primrec interp :: "nat \<Rightarrow> interp_fns" where
  "interp 0 = outOfFuel"
| "interp (Suc n) =
     \<lparr>iExec = execBody (interp n), iRun = runBody (interp n), iDefers = defersBody (interp n),
      iClosure = closureBody (interp n), iNode = nodeBody (interp n), iNodes = nodesBody (interp n)\<rparr>"

definition exec :: "nat \<Rightarrow> vm_env \<Rightarrow> CompiledProgram \<Rightarrow> string \<Rightarrow> ref \<Rightarrow> int \<Rightarrow> frame \<Rightarrow> vm \<Rightarrow> vm_answer" where
  "exec n = iExec (interp n)"

definition run :: "nat \<Rightarrow> vm_env \<Rightarrow> CompiledProgram \<Rightarrow> FunctionEntry \<Rightarrow> lvalue list \<Rightarrow> ref \<Rightarrow> vm \<Rightarrow> vm_answer" where
  "run n = iRun (interp n)"

definition callClosure :: "nat \<Rightarrow> vm_env \<Rightarrow> ref option \<Rightarrow> lvalue list \<Rightarrow> vm \<Rightarrow> vm_answer" where
  "callClosure n = iClosure (interp n)"

end
