(* ===== verification/Vm_Safety.thy ===== *)
theory Vm_Safety
  imports Vm_Run
begin

text \<open>
  What holds of every LPC program on the machine of \<^verbatim>\<open>src/vm/VM.cpp\<close>: what one instruction leaves alone, and that the
  call-tracking stacks are balanced on every way out of a function.
\<close>

section \<open>What one instruction leaves alone\<close>

fun outVm :: "outcome \<Rightarrow> vm" where
  "outVm (Go _ vm) = vm"
| "outVm (Stop _ vm) = vm"
| "outVm (Fail _ _ vm) = vm"
| "outVm (Invoke _ _ _ _ _ _ _ vm) = vm"
| "outVm (InvokeEfun _ _ _ vm) = vm"

definition noLambda :: "vm \<Rightarrow> bool" where
  "noLambda vm \<longleftrightarrow> (\<forall>r c. vmClosures vm r = Some c \<longrightarrow> vdata (clLambdaBody c) = VVoid)"

text \<open>The objects without their variables: what an instruction never writes.\<close>

definition graphOf :: "heap \<Rightarrow> heap" where
  "graphOf h = (\<lambda>r. map_option (\<lambda>ob. ob\<lparr>variables := []\<rparr>) (h r))"

text \<open>The budget, the objects and all call-tracking stacks are the same, and no closure got a lambda body.\<close>

definition sameCore :: "vm \<Rightarrow> vm \<Rightarrow> bool" where
  "sameCore vm vm' \<longleftrightarrow>
     evalCost vm' = evalCost vm \<and> maxEvalCost vm' = maxEvalCost vm \<and>
     callStack vm' = callStack vm \<and> functionNameStack vm' = functionNameStack vm \<and>
     objectChangeStack vm' = objectChangeStack vm \<and> originStack vm' = originStack vm \<and>
     commandGiverStack vm' = commandGiverStack vm \<and> deferStack vm' = deferStack vm \<and>
     verbStack vm' = verbStack vm \<and> driverHooks vm' = driverHooks vm \<and>
     graphOf (vmHeap vm') = graphOf (vmHeap vm) \<and>
     (noLambda vm \<longrightarrow> noLambda vm')"

lemma sameCore_refl [simp]: "sameCore vm vm"
  by (simp add: sameCore_def)

lemma sameCore_trans: "sameCore a b \<Longrightarrow> sameCore b c \<Longrightarrow> sameCore a c"
  by (simp add: sameCore_def)

lemma sameCore_updates [simp]:
  "sameCore vm (vm\<lparr>vmArrays := a\<rparr>)" "sameCore vm (vm\<lparr>vmMaps := m\<rparr>)"
  "sameCore vm (vm\<lparr>vmCache := c\<rparr>)" "sameCore vm (vm\<lparr>vmReads := n\<rparr>)" "sameCore vm (vm\<lparr>timeExpressionStack := t\<rparr>)"
  "sameCore vm (vm\<lparr>vmReads := n, timeExpressionStack := t\<rparr>)" "sameCore vm (vm\<lparr>timeExpressionStack := t, vmReads := n\<rparr>)"
  "sameCore vm (vm\<lparr>vmArrays := a, vmNext := n\<rparr>)" "sameCore vm (vm\<lparr>vmMaps := m, vmNext := n\<rparr>)"
  by (simp_all add: sameCore_def noLambda_def)

lemma outVm_basic [simp]:
  "outVm (lpcErr msg fr vm) = vm" "outVm (pushGo v fr vm) = vm" "outVm (addUnsupported l r fr vm) = vm"
  "outVm (pushNumber b d fr vm) = vm"
  by (simp_all add: lpcErr_def pushGo_def addUnsupported_def pushNumber_def split: option.splits)

lemma sameCore_push [simp]: "sameCore vm (outVm (pushArray xs fr vm))" "sameCore vm (outVm (pushMap m fr vm))"
  by (simp_all add: pushArray_def pushMap_def newArray_def newMap_def)

lemma withTwo_same [intro]: "(\<And>l r fr'. sameCore vm (outVm (f l r fr'))) \<Longrightarrow> sameCore vm (outVm (withTwo nm fr vm f))"
  by (simp add: withTwo_def split: list.splits)

lemma withOne_same [intro]: "(\<And>v fr'. sameCore vm (outVm (f v fr'))) \<Longrightarrow> sameCore vm (outVm (withOne nm fr vm f))"
  by (simp add: withOne_def split: list.splits)

lemma withTarget_same [intro]:
  "(\<And>t i c fr'. sameCore vm (outVm (f t i c fr'))) \<Longrightarrow> sameCore vm (outVm (withTarget nm ins fr vm f))"
  by (simp add: withTarget_def split: list.splits)

lemma graphOf_variables: "graphOf (updObj r (\<lambda>ob. ob\<lparr>variables := f ob\<rparr>) h) = graphOf h"
  by (rule ext) (simp add: graphOf_def updObj_def split: option.splits)

lemma sameCore_setObjVar [simp]: "sameCore vm (setObjVar r n v vm)"
  by (simp add: setObjVar_def sameCore_def noLambda_def graphOf_variables)

named_theorems op_same \<open>an instruction keeps the core of the machine\<close>

lemma simple_ops_same [op_same]:
  "sameCore vm (outVm (opPushConst p i fr vm))" "sameCore vm (outVm (opPushInt i fr vm))"
  "sameCore vm (outVm (opPushFloat p i fr vm))" "sameCore vm (outVm (opPushSymbol p i fr vm))"
  "sameCore vm (outVm (opPushLocal i fr vm))" "sameCore vm (outVm (opStoreLocal i fr vm))"
  "sameCore vm (outVm (opPushObjectVar obj base i fr vm))" "sameCore vm (outVm (opStoreObjectVar obj base i fr vm))"
  by (simp_all add: opPushConst_def opPushInt_def opPushFloat_def opPushSymbol_def opPushLocal_def opStoreLocal_def
      opPushObjectVar_def opStoreObjectVar_def Let_def split: option.splits list.splits)

lemma arith_ops_same [op_same]:
  "sameCore vm (outVm (opEquality c fr vm))" "sameCore vm (outVm (opCompare c fr vm))" "sameCore vm (outVm (opNot fr vm))"
  "sameCore vm (outVm (opBitXor fr vm))" "sameCore vm (outVm (opShift c fr vm))" "sameCore vm (outVm (opBitNot fr vm))"
  unfolding opEquality_def opCompare_def opNot_def opBitXor_def opShift_def opBitNot_def Let_def
  by (rule withTwo_same withOne_same; simp split: option.splits vdata.splits)+

lemma opArith_same [op_same]: "sameCore vm (outVm (opArith c fr vm))"
  unfolding opArith_def
  by (rule withTwo_same) (simp split: option.splits vdata.splits bool.splits)

lemma array_ops_same [op_same]: "sameCore vm (outVm (opBitAnd fr vm))" "sameCore vm (outVm (opBitOr fr vm))"
  unfolding opBitAnd_def opBitOr_def by (rule withTwo_same; simp split: vdata.splits)+

lemma opAdd_same [op_same]: "sameCore vm (outVm (opAdd fr vm))"
  unfolding opAdd_def by (rule withTwo_same) (simp split: vdata.splits option.splits)

lemma jump_ops_same [op_same]:
  "sameCore vm (outVm (opForeachKeys fr vm))" "sameCore vm (outVm (opJump p i fr vm))"
  "sameCore vm (outVm (opJumpIfFalse p i fr vm))" "sameCore vm (outVm (opPushCatchFrame p i fr vm))"
  "sameCore vm (outVm (opPopCatchFrame fr vm))" "sameCore vm (outVm (opTimeStart fr vm))" "sameCore vm (outVm (opTimeEnd fr vm))"
  unfolding opForeachKeys_def opJump_def opJumpIfFalse_def opPushCatchFrame_def opPopCatchFrame_def opTimeStart_def
    opTimeEnd_def readClock_def
  by (simp_all add: withOne_def split: list.splits vdata.splits)

lemma make_ops_same [op_same]:
  "sameCore vm (outVm (opExpandVarargs i fr vm))" "sameCore vm (outVm (opMakeArray i fr vm))"
  "sameCore vm (outVm (opMakeMapping i fr vm))"
  by (simp_all add: opExpandVarargs_def opMakeArray_def opMakeMapping_def Let_def newArray_def
      split: prod.splits option.splits vdata.splits)

lemma index_ops_same [op_same]:
  "sameCore vm (outVm (opIndex i fr vm))" "sameCore vm (outVm (opIndexAssign i fr vm))"
proof -
  have "sameCore vm (outVm (indexArray i a x fr' vm))" "sameCore vm (outVm (indexMap m x c fr' vm))"
    "sameCore vm (outVm (indexString i s x fr' vm))" for a x fr' m c s
    by (simp_all add: indexArray_def indexMap_def indexString_def Let_def split: option.splits vdata.splits sum.splits)
  then show "sameCore vm (outVm (opIndex i fr vm))"
    unfolding opIndex_def by (intro withTarget_same) (simp split: vdata.splits)
  have "sameCore vm (outVm (assignArray a x v fr' vm))" "sameCore vm (outVm (assignMap m x c v fr' vm))" for a x v fr' m c
    by (simp_all add: assignArray_def assignMap_def Let_def split: option.splits vdata.splits sum.splits)
  then have t: "sameCore vm (outVm (withTarget nm i fr' vm (\<lambda>tgt idx colVal fr''.
      case vdata tgt of VArr a \<Rightarrow> assignArray a idx v fr'' vm | VMap m \<Rightarrow> assignMap m idx colVal v fr'' vm
      | _ \<Rightarrow> lpcErr msg fr'' vm)))" for nm fr' v msg
    by (intro withTarget_same) (simp split: vdata.splits)
  show "sameCore vm (outVm (opIndexAssign i fr vm))"
    unfolding opIndexAssign_def using t by (simp split: list.splits)
qed

lemma opRangeIndex_same [op_same]: "sameCore vm (outVm (opRangeIndex i fr vm))"
  by (simp add: opRangeIndex_def Let_def split: list.splits vdata.splits option.splits prod.splits)

lemma lookupIn_cache: "lookupIn p name vm = (r, vm') \<Longrightarrow> \<exists>c. vm' = vm\<lparr>vmCache := c\<rparr>"
  by (auto simp: lookupIn_def split: prod.splits)

lemma lookupIn_same: "lookupIn p name vm = (r, vm') \<Longrightarrow> sameCore vm vm'"
  by (auto dest: lookupIn_cache)

lemma resolveCall_same: "sameCore vm (snd (resolveCall env obj name vm))"
proof (cases "programOf vm obj")
  case (Some p)
  obtain r vm1 where l: "lookupIn p name vm = (r, vm1)" by fastforce
  note c1 = lookupIn_same[OF l]
  show ?thesis
  proof (cases "r = None \<and> vmSimulEfun vm1 \<noteq> None \<and> programOf vm1 (the (vmSimulEfun vm1)) \<noteq> None")
    case True
    then obtain se sp where se: "vmSimulEfun vm1 = Some se" "programOf vm1 se = Some sp" by auto
    obtain r2 vm2 where l2: "lookupIn sp name vm1 = (r2, vm2)" by fastforce
    have "sameCore vm vm2" using c1 lookupIn_same[OF l2] by (rule sameCore_trans)
    with True Some l se l2 show ?thesis by (simp add: resolveCall_def split: option.splits)
  next
    case False
    with Some l c1 show ?thesis by (auto simp: resolveCall_def split: option.splits)
  qed
qed (simp add: resolveCall_def)

lemma call_ops_same [op_same]:
  "sameCore vm (outVm (opCall env p obj i fr vm))" "sameCore vm (outVm (opCallEfun env p i fr vm))"
  "sameCore vm (outVm (opCallParent p obj i fr vm))"
proof -
  have r: "resolveCall env obj name vm = (x, vm1) \<Longrightarrow> sameCore vm vm1" for name x vm1
    using resolveCall_same[of vm env obj name] by simp
  show "sameCore vm (outVm (opCall env p obj i fr vm))"
    by (auto simp: opCall_def split: option.splits prod.splits resolution.splits dest: r)
  show "sameCore vm (outVm (opCallEfun env p i fr vm))" "sameCore vm (outVm (opCallParent p obj i fr vm))"
    by (simp_all add: opCallEfun_def opCallParent_def Let_def split: option.splits prod.splits)
qed

lemma opPushClosure_same [op_same]: "sameCore vm (outVm (opPushClosure b p obj i fr vm))"
  by (simp add: opPushClosure_def Let_def newClosure_def sameCore_def noLambda_def vVoid_def split: option.splits prod.splits)

lemma sscanfAssign_same:
  "case sscanfAssign slots vs obj fr vm of Inl (_, _, vm') \<Rightarrow> sameCore vm vm' | Inr (_, vm') \<Rightarrow> sameCore vm vm'"
proof (induction slots vs obj fr vm rule: sscanfAssign.induct)
  case (1 slot slots v vs obj fr vm)
  then show ?case
    by (auto split: sum.splits intro: sameCore_trans[OF sameCore_setObjVar])
qed simp_all

lemma opSscanf_same [op_same]: "sameCore vm (outVm (opSscanf env p obj i fr vm))"
proof -
  have "sameCore vm (outVm (case sscanfAssign sl as obj fr' vm of
      Inl (msg, fr1, vm1) \<Rightarrow> lpcErr msg fr1 vm1
    | Inr (fr1, vm1) \<Rightarrow> Go (fr1\<lparr>stk := vInt m # stk fr1, ip := ip fr1 + 1 + n\<rparr>) vm1))" for sl as fr' m n
    using sscanfAssign_same[where slots = sl and vs = as and obj = obj and fr = fr' and vm = vm] by (auto split: sum.splits)
  then show ?thesis
    unfolding opSscanf_def Let_def by (auto intro!: withTwo_same split: vdata.splits sum.splits)
qed

lemma step_same: "sameCore vm (outVm (step env p obj base i fr vm))"
  by (cases "op i") (simp_all add: step_def op_same split: list.splits)


section \<open>Relations between the machine before and after a call\<close>

text \<open>A step calls only registered efuns.\<close>

fun outEfun :: "outcome \<Rightarrow> efun option" where
  "outEfun (InvokeEfun e _ _ _) = Some e"
| "outEfun _ = None"

lemma resolveCall_efun: "resolveCall env obj name vm = (REfun e, vm1) \<Longrightarrow> eEfuns env name = Some e"
  by (auto simp: resolveCall_def Let_def split: option.splits prod.splits)

lemma outEfun_basic [simp]:
  "outEfun (lpcErr msg fr vm) = None" "outEfun (pushGo v fr vm) = None" "outEfun (addUnsupported l r fr vm) = None"
  "outEfun (pushNumber b d fr vm) = None" "outEfun (pushArray xs fr vm) = None" "outEfun (pushMap m fr vm) = None"
  by (simp_all add: lpcErr_def pushGo_def addUnsupported_def pushNumber_def pushArray_def pushMap_def
      split: option.splits prod.splits)

lemma with_efun:
  "(\<And>l r fr'. outEfun (f2 l r fr') = None) \<Longrightarrow> outEfun (withTwo nm fr vm f2) = None"
  "(\<And>v fr'. outEfun (f1 v fr') = None) \<Longrightarrow> outEfun (withOne nm fr vm f1) = None"
  "(\<And>t i c fr'. outEfun (f3 t i c fr') = None) \<Longrightarrow> outEfun (withTarget nm ins fr vm f3) = None"
  by (simp_all add: withTwo_def withOne_def withTarget_def split: list.splits)


lemma ops_no_efun:
  "outEfun (opPushConst p i fr vm) = None" "outEfun (opPushInt i fr vm) = None" "outEfun (opPushFloat p i fr vm) = None"
  "outEfun (opPushSymbol p i fr vm) = None" "outEfun (opPushLocal i fr vm) = None" "outEfun (opStoreLocal i fr vm) = None"
  "outEfun (opPushObjectVar obj base i fr vm) = None" "outEfun (opStoreObjectVar obj base i fr vm) = None"
  "outEfun (opJump p i fr vm) = None" "outEfun (opPushCatchFrame p i fr vm) = None" "outEfun (opPopCatchFrame fr vm) = None"
  "outEfun (opTimeStart fr vm) = None" "outEfun (opTimeEnd fr vm) = None" "outEfun (opExpandVarargs i fr vm) = None"
  "outEfun (opMakeArray i fr vm) = None" "outEfun (opMakeMapping i fr vm) = None" "outEfun (opRangeIndex i fr vm) = None"
  "outEfun (opCallParent p obj i fr vm) = None" "outEfun (opPushClosure b p obj i fr vm) = None"
  by (simp_all add: opPushConst_def opPushInt_def opPushFloat_def opPushSymbol_def opPushLocal_def opStoreLocal_def
      opPushObjectVar_def opStoreObjectVar_def opJump_def opPushCatchFrame_def opPopCatchFrame_def opTimeStart_def
      opTimeEnd_def opExpandVarargs_def opMakeArray_def opMakeMapping_def opRangeIndex_def opCallParent_def
      opPushClosure_def Let_def split: option.splits list.splits prod.splits vdata.splits)

lemma stack_ops_no_efun:
  "outEfun (opEquality c fr vm) = None" "outEfun (opCompare c fr vm) = None" "outEfun (opNot fr vm) = None"
  "outEfun (opBitXor fr vm) = None" "outEfun (opShift c fr vm) = None" "outEfun (opBitNot fr vm) = None"
  "outEfun (opArith c fr vm) = None" "outEfun (opBitAnd fr vm) = None" "outEfun (opBitOr fr vm) = None"
  "outEfun (opAdd fr vm) = None" "outEfun (opForeachKeys fr vm) = None" "outEfun (opJumpIfFalse p i fr vm) = None"
  unfolding opEquality_def opCompare_def opNot_def opBitXor_def opShift_def opBitNot_def opArith_def opBitAnd_def
    opBitOr_def opAdd_def opForeachKeys_def opJumpIfFalse_def Let_def
  by (rule with_efun; simp split: option.splits vdata.splits bool.splits)+

lemma index_ops_no_efun: "outEfun (opIndex i fr vm) = None" "outEfun (opIndexAssign i fr vm) = None"
proof -
  have "outEfun (indexArray i a x fr' vm) = None" "outEfun (indexMap m x c fr' vm) = None"
    "outEfun (indexString i s x fr' vm) = None" "outEfun (assignArray a x v fr' vm) = None"
    "outEfun (assignMap m x c v fr' vm) = None" for a x fr' m c s v
    by (simp_all add: indexArray_def indexMap_def indexString_def assignArray_def assignMap_def Let_def
        split: option.splits vdata.splits sum.splits)
  note h = this
  show "outEfun (opIndex i fr vm) = None"
    unfolding opIndex_def by (rule with_efun(3)) (simp add: h split: vdata.splits)
  have "outEfun (withTarget nm i fr' vm (\<lambda>tgt idx colVal fr''.
      case vdata tgt of VArr a \<Rightarrow> assignArray a idx v fr'' vm | VMap m \<Rightarrow> assignMap m idx colVal v fr'' vm
      | _ \<Rightarrow> lpcErr msg fr'' vm)) = None" for nm fr' v msg
    by (rule with_efun(3)) (simp add: h split: vdata.splits)
  then show "outEfun (opIndexAssign i fr vm) = None"
    unfolding opIndexAssign_def by (simp split: list.splits)
qed

lemma opSscanf_no_efun: "outEfun (opSscanf env p obj i fr vm) = None"
  unfolding opSscanf_def Let_def
  by (auto intro!: with_efun(1) split: vdata.splits sum.splits prod.splits)

lemma call_ops_efun:
  "outEfun (opCall env p obj i fr vm) = Some e \<Longrightarrow> e \<in> ran (eEfuns env)"
  "outEfun (opCallEfun env p i fr vm) = Some e \<Longrightarrow> e \<in> ran (eEfuns env)"
  by (auto simp: opCall_def opCallEfun_def ran_def split: option.splits prod.splits resolution.splits
      dest!: resolveCall_efun)

lemma step_efun: "outEfun (step env p obj base i fr vm) = Some e \<Longrightarrow> e \<in> ran (eEfuns env)"
  using call_ops_efun
  by (cases "op i") (simp_all add: step_def ops_no_efun stack_ops_no_efun index_ops_no_efun opSscanf_no_efun split: list.splits)

lemma chargedStep_efun:
  "chargedStep env p obj base fr vm = InvokeEfun e args fr' vm' \<Longrightarrow> \<exists>name. eEfuns env name = Some e"
proof -
  assume a: "chargedStep env p obj base fr vm = InvokeEfun e args fr' vm'"
  have "outEfun (chargedStep env p obj base fr vm) = Some e" by (simp add: a)
  then have "e \<in> ran (eEfuns env)"
    unfolding chargedStep_def Let_def by (auto split: if_splits dest: step_efun)
  then show ?thesis by (auto simp: ran_def)
qed

lemma closureTarget_same: "sameCore vm (snd (closureTarget env c owner vm))"
  using resolveCall_same[of vm env owner "clFunction c"]
  by (auto simp: closureTarget_def split: option.splits prod.splits resolution.splits Origin.splits)

lemma closureTarget_efun: "closureTarget env c owner vm = (REfun e, vm1) \<Longrightarrow> \<exists>name. eEfuns env name = Some e"
  by (auto simp: closureTarget_def split: if_splits option.splits prod.splits resolution.splits Origin.splits
      dest: resolveCall_efun)

lemma bindLocals_same:
  "bindLocals fn args vm = (ls, vm') \<Longrightarrow> sameCore vm vm'"
  by (auto simp: bindLocals_def Let_def newArray_def split: if_splits)

text \<open>An efun, an answer and all functions of the interpreter stay in a relation.\<close>

definition efunsRespect :: "(vm \<Rightarrow> vm \<Rightarrow> bool) \<Rightarrow> vm_env \<Rightarrow> bool" where
  "efunsRespect R env \<longleftrightarrow> (\<forall>name e vm args. eEfuns env name = Some e \<longrightarrow> R vm (snd (e vm args)))"

definition answerIn :: "(vm \<Rightarrow> vm \<Rightarrow> bool) \<Rightarrow> vm \<Rightarrow> ('a \<times> vm) option \<Rightarrow> bool" where
  "answerIn R vm a \<longleftrightarrow> (\<forall>r vm'. a = Some (r, vm') \<longrightarrow> R vm vm')"

definition machineRespects :: "(vm \<Rightarrow> vm \<Rightarrow> bool) \<Rightarrow> vm_env \<Rightarrow> interp_fns \<Rightarrow> bool" where
  "machineRespects R env I \<longleftrightarrow>
     (\<forall>p f ob b fr vm. answerIn R vm (iExec I env p f ob b fr vm)) \<and>
     (\<forall>p f args ob vm. answerIn R vm (iRun I env p f args ob vm)) \<and>
     (\<forall>ds vm. answerIn R vm (iDefers I env ds vm)) \<and>
     (\<forall>c args vm. answerIn R vm (iClosure I env c args vm)) \<and>
     (\<forall>nd ps args vm. answerIn R vm (iNode I env nd ps args vm)) \<and>
     (\<forall>nds ps args vm. answerIn R vm (iNodes I env nds ps args vm))"

text \<open>
  The interface between the interpreter and a claim about every LPC program: a relation that the instructions, the charging of the
  budget and the four guards establish holds between the machine before and after every call.
\<close>

locale machine_relation =
  fixes R :: "vm \<Rightarrow> vm \<Rightarrow> bool"
  assumes R_refl [simp]: "R vm vm"
    and R_trans: "R a b \<Longrightarrow> R b c \<Longrightarrow> R a c"
    and core: "sameCore vm vm' \<Longrightarrow> R vm vm'"
    and cost: "R vm (vm\<lparr>evalCost := evalCost vm + 1\<rparr>)"
    and origin: "R (pushOrigin org vm) vm' \<Longrightarrow> R vm (popOrigin vm')"
    and giver: "R (pushCommandGiver g vm) vm' \<Longrightarrow> R vm (popCommandGiver vm')"
    and objectFrame: "R (enterFrame obj name vm) vm' \<Longrightarrow> R vm (leaveFrame (objectChanged obj vm) vm')"
    and deferFrame: "R (pushDefers vm) vm' \<Longrightarrow> R vm (snd (popDefers vm'))"
begin

lemma answerIn_simps [simp]: "answerIn R vm None" "answerIn R vm (Some (r, vm')) = R vm vm'"
  by (simp_all add: answerIn_def)

lemma answer_trans: "R vm vm' \<Longrightarrow> answerIn R vm' a \<Longrightarrow> answerIn R vm a"
  unfolding answerIn_def by (blast intro: R_trans)

lemma chargedStep_respects: "R vm (outVm (chargedStep env p obj base fr vm))"
  unfolding chargedStep_def Let_def
  by (auto intro: cost R_trans[OF cost core[OF step_same]])

lemma respectsD:
  assumes "machineRespects R env I"
  shows "iExec I env p f ob b fr vm = Some (r, vm') \<Longrightarrow> R vm vm'"
    "iRun I env p fe args ob vm = Some (r, vm') \<Longrightarrow> R vm vm'"
    "iDefers I env ds vm = Some (u, vm') \<Longrightarrow> R vm vm'"
    "iClosure I env c args vm = Some (r, vm') \<Longrightarrow> R vm vm'"
    "iNode I env nd ps args vm = Some (r, vm') \<Longrightarrow> R vm vm'"
    "iNodes I env nds ps args vm = Some (rs, vm') \<Longrightarrow> R vm vm'"
  using assms by (simp_all add: machineRespects_def answerIn_def)


lemma execBody_respects:
  assumes I: "machineRespects R env I" and E: "efunsRespect R env"
  shows "answerIn R vm (execBody I env p fname obj base fr vm)"
proof (cases "length (code p) \<le> ip fr")
  case False
  have go: "answerIn R vm (iExec I env p fname obj base fr' vm')" if "R vm vm'" for fr' vm'
    by (rule answer_trans[OF that]) (use I in \<open>simp add: machineRespects_def\<close>)
  have err: "answerIn R vm (case catchError fl fname e fr' of Inl e' \<Rightarrow> Some (Inl e', vm')
      | Inr fr'' \<Rightarrow> iExec I env p fname obj base fr'' vm')" if "R vm vm'" for fl e fr' vm'
    using that go by (simp split: sum.splits)
  note k = chargedStep_respects[of vm env p obj base fr]
  show ?thesis
  proof (cases "chargedStep env p obj base fr vm")
    case (Invoke q f args o1 org ip' fr' vm')
    have "R vm (popOrigin vm1)" if "iRun I env q f args o1 (pushOrigin org vm') = Some (r, vm1)" for r vm1
      using k Invoke R_trans[OF _ origin[OF respectsD(2)[OF I that]]] by simp
    then show ?thesis using False Invoke go err by (auto simp: execBody_def split: option.splits prod.splits sum.splits)
  next
    case (InvokeEfun e args fr' vm')
    obtain name where n: "eEfuns env name = Some e" using chargedStep_efun[OF InvokeEfun] by blast
    obtain r vm1 where r: "e vm' args = (r, vm1)" by fastforce
    have "R vm' vm1" using E n r unfolding efunsRespect_def by (metis snd_conv)
    then have "R vm vm1" using k InvokeEfun by (auto intro: R_trans)
    then show ?thesis using False InvokeEfun r go err by (cases r) (simp_all add: execBody_def)
  qed (use False k go err in \<open>simp_all add: execBody_def\<close>)
qed (simp add: execBody_def)

lemma runBody_respects:
  assumes I: "machineRespects R env I"
  shows "answerIn R vm (runBody I env p fn args obj vm)"
proof -
  let ?vm1 = "pushDefers (enterFrame obj (feName fn) vm)"
  let ?mid = "case objectVarBase p obj ?vm1 of Inl e \<Rightarrow> Some (Inl e, ?vm1)
      | Inr base \<Rightarrow> (case bindLocals fn args ?vm1 of (ls, vm2) \<Rightarrow> iExec I env p (feName fn) obj base (newFrame fn ls) vm2)"
  have b: "R ?vm1 vm2" if "bindLocals fn args ?vm1 = (ls, vm2)" for ls vm2
    by (rule core[OF bindLocals_same[OF that]])
  have mid: "R ?vm1 vm3" if "?mid = Some (res, vm3)" for res vm3
    using that b respectsD(1)[OF I] by (auto split: sum.splits prod.splits intro: R_trans)
  have post: "R (enterFrame obj (feName fn) vm) (snd (popDefers vm3))" if "R ?vm1 vm3" for vm3
    by (rule deferFrame[OF that])
  show ?thesis
  proof (cases ?mid)
    case None
    then show ?thesis by (simp add: runBody_def Let_def)
  next
    case (Some x)
    obtain res vm3 where x: "x = (res, vm3)" by (cases x)
    obtain pending vm4 where d: "popDefers vm3 = (pending, vm4)" by fastforce
    have k4: "R (enterFrame obj (feName fn) vm) vm4" using post[OF mid] Some x d by simp
    have "R vm (leaveFrame (objectChanged obj vm) vm5)"
      if "iDefers I env (rev pending) vm4 = Some (u, vm5)" for u vm5
      by (rule objectFrame[OF R_trans[OF k4 respectsD(3)[OF I that]]])
    then show ?thesis
      unfolding runBody_def Let_def Some x option.case prod.case d by (auto split: option.splits)
  qed
qed

lemma closureBody_respects:
  assumes I: "machineRespects R env I" and E: "efunsRespect R env"
  shows "answerIn R vm (closureBody I env cl extra vm)"
proof -
  have node: "answerIn R vm (iNode I env nd ps args vm)" for nd ps args using I by (simp add: machineRespects_def)
  have t: "answerIn R vm (case closureTarget env c owner vm of
        (RFunction q f o1 org, vm1) \<Rightarrow>
          (case iRun I env q f args o1 (pushOrigin org vm1) of None \<Rightarrow> None | Some (res, vm2) \<Rightarrow> Some (res, popOrigin vm2))
      | (REfun e, vm1) \<Rightarrow>
          (case e (enterFrame owner (clFunction c) vm1) args of (res, vm2) \<Rightarrow> Some (res, leaveFrame (objectChanged owner vm1) vm2))
      | (RNone, vm1) \<Rightarrow> Some (err, vm1)
      | (RUndef, vm1) \<Rightarrow> Some (Inl VUndef, vm1))" for c owner args err
  proof -
    obtain tg vm1 where tg: "closureTarget env c owner vm = (tg, vm1)" by fastforce
    have k: "R vm vm1" using closureTarget_same[of vm env c owner] tg by (simp add: core)
    show ?thesis
    proof (cases tg)
      case (RFunction q f o1 org)
      have "R vm (popOrigin vm2)" if "iRun I env q f args o1 (pushOrigin org vm1) = Some (r, vm2)" for r vm2
        by (rule R_trans[OF k origin[OF respectsD(2)[OF I that]]])
      then show ?thesis using tg RFunction by (auto split: option.splits)
    next
      case (REfun e)
      obtain name where n: "eEfuns env name = Some e" using closureTarget_efun tg REfun by blast
      obtain r vm2 where r: "e (enterFrame owner (clFunction c) vm1) args = (r, vm2)" by fastforce
      have "R (enterFrame owner (clFunction c) vm1) vm2" using E n r unfolding efunsRespect_def by (metis snd_conv)
      then show ?thesis using tg REfun r R_trans[OF k objectFrame] by simp
    qed (use tg k in simp_all)
  qed
  show ?thesis
    unfolding closureBody_def Let_def using node t by (simp split: option.splits)
qed

lemma interp_respects:
  assumes "efunsRespect R env"
  shows "machineRespects R env (interp n)"
proof (induction n)
  case 0
  show ?case by (simp add: machineRespects_def outOfFuel_def)
next
  case (Suc n)
  let ?I = "interp n"
  have d: "answerIn R vm (defersBody ?I env ds vm)" for ds vm
  proof (cases ds)
    case (Cons d ds')
    have "R vm (popCommandGiver vm1)"
      if "iClosure ?I env (deClosure d) [] (pushCommandGiver (deCommandGiver d) vm) = Some (r, vm1)" for r vm1
      by (rule giver[OF respectsD(4)[OF Suc that]])
    then show ?thesis
      unfolding defersBody_def Cons using respectsD(3)[OF Suc]
      by (auto split: option.splits intro: R_trans)
  qed (simp add: defersBody_def)
  have n: "answerIn R vm (nodeBody ?I env nd ps args vm)" for nd ps args vm
    unfolding nodeBody_def using respectsD(4)[OF Suc] respectsD(6)[OF Suc]
    by (auto simp: answerIn_def split: vdata.splits option.splits list.splits sum.splits) (blast intro: R_trans)
  have ns: "answerIn R vm (nodesBody ?I env nds ps args vm)" for nds ps args vm
    unfolding nodesBody_def using respectsD(5)[OF Suc] respectsD(6)[OF Suc]
    by (auto simp: answerIn_def split: option.splits list.splits sum.splits) (blast intro: R_trans)+
  show ?case
    unfolding machineRespects_def
    by (simp add: execBody_respects[OF Suc assms] runBody_respects[OF Suc] closureBody_respects[OF Suc assms] d n ns)
qed

end

section \<open>The call-tracking stacks are balanced\<close>

text \<open>
  The stacks after a call are those before it. Only the list of deferred closures of the innermost active function may have grown.
\<close>

definition keepsStacks :: "vm \<Rightarrow> vm \<Rightarrow> bool" where
  "keepsStacks vm vm' \<longleftrightarrow>
     callStack vm' = callStack vm \<and> functionNameStack vm' = functionNameStack vm \<and>
     objectChangeStack vm' = objectChangeStack vm \<and> originStack vm' = originStack vm \<and>
     commandGiverStack vm' = commandGiverStack vm \<and> verbStack vm' = verbStack vm \<and>
     tl (deferStack vm') = tl (deferStack vm) \<and> (deferStack vm' = [] \<longleftrightarrow> deferStack vm = [])"

interpretation balanced: machine_relation keepsStacks
  by unfold_locales
    (auto simp: keepsStacks_def sameCore_def pushOrigin_def popOrigin_def pushCommandGiver_def popCommandGiver_def
      enterFrame_def leaveFrame_def pushDefers_def popDefers_def)

section \<open>Every way out of a function restores the stacks\<close>

text \<open>
  C7. A function call leaves the call stack, the function names, the object changes, the origins, the command givers and the verbs as it found
  them, and it leaves no frame of deferred closures behind: on a return, on an error or a thrown value that crosses any number of
  functions, on an exhausted budget, and with errors inside deferred closures. The efuns are only assumed to do the same.
\<close>

theorem vm_run_balanced:
  assumes "efunsRespect keepsStacks env" "run n env p fn args obj vm = Some (res, vm')"
  shows "callStack vm' = callStack vm \<and> functionNameStack vm' = functionNameStack vm \<and>
    objectChangeStack vm' = objectChangeStack vm \<and> originStack vm' = originStack vm \<and>
    commandGiverStack vm' = commandGiverStack vm \<and> verbStack vm' = verbStack vm \<and> length (deferStack vm') = length (deferStack vm)"
proof -
  have k: "keepsStacks vm vm'"
    using balanced.respectsD(2)[OF balanced.interp_respects[OF assms(1)]] assms(2) unfolding run_def by blast
  then have "length (deferStack vm') = length (deferStack vm)"
    by (cases "deferStack vm"; cases "deferStack vm'") (auto simp: keepsStacks_def)
  with k show ?thesis by (simp add: keepsStacks_def)
qed

text \<open>A machine with one object whose program has two functions: \<open>main\<close> catches what \<open>spin\<close> does, and \<open>spin\<close> loops forever.\<close>

definition ins :: "OpCode \<Rightarrow> int \<Rightarrow> Instruction" where
  "ins o1 n = \<lparr>op = o1, operand = n, argCount = 0\<rparr>"

definition exampleProgram :: CompiledProgram where
  "exampleProgram = CompiledProgram 1
     [ins PushCatchFrame 4, ins OpCall 0, ins PopCatchFrame 0, ins OpReturn 0, ins OpReturn 0, ins Jump 5]
     [exampleFn ''main'' 0, exampleFn ''spin'' 5] [''spin''] [] [] [] [] Map.empty"

definition exampleEnv :: vm_env where
  "exampleEnv = \<lparr>eEfuns = [''time'' \<mapsto> (\<lambda>vm args. (Inr (vInt 0), vm))], eSscanf = \<lambda>_ _ _. Inl VUndef\<rparr>"

definition exampleVm :: vm where
  "exampleVm = \<lparr>vmHeap = [0 \<mapsto> newLpcObject ''/a'' 1 0 True 0], vmPrograms = [1 \<mapsto> exampleProgram], vmArrays = Map.empty,
     vmMaps = Map.empty, vmClosures = Map.empty, vmNext = 1, vmCache = (\<lambda>_. Map.empty), vmSimulEfun = None, vmMaster = None,
     vmDialect = FluffOS, vmClock = int, vmReads = 0, evalCost = 0, maxEvalCost = 5, callStack = [], functionNameStack = [],
     objectChangeStack = [], originStack = [ODriver], commandGiverStack = [], deferStack = [], timeExpressionStack = [],
     verbStack = [], driverHooks = replicate 32 vVoid, pendingReplacePrograms = []\<rparr>"

lemma interp_pos:
  assumes "0 < n"
  shows "iExec (interp n) = execBody (interp (n - 1))" "iRun (interp n) = runBody (interp (n - 1))"
    "iDefers (interp n) = defersBody (interp (n - 1))" "iClosure (interp n) = closureBody (interp (n - 1))"
  using assms by (cases n; simp)+

lemmas run_eval = run_def interp_pos runBody_def execBody_def defersBody_def chargedStep_def step_def catchError_def unwind_def
  newFrame_def bindLocals_def overlay_def objectVarBase_def programOf_def enterFrame_def leaveFrame_def objectChanged_def
  pushDefers_def popDefers_def pushOrigin_def popOrigin_def

lemma example_run:
  "map_option fst (run 12 exampleEnv exampleProgram (exampleFn ''main'' 0) [] 0 exampleVm) =
      Some (Inl (VExn (EvalCostError ''eval cost exceeded'')))"
  by (simp add: run_eval exampleFn_def exampleProgram_def exampleVm_def newLpcObject_def ins_def opPushCatchFrame_def
      opCall_def resolveCall_def lookupIn_def opJump_def badTarget_def Let_def nxt_def filenameOf_def nameOf_def
      poolAt_def popArgs_def takeCount_def ownFunction_def to_int32_id cacheEmplace_def del: interp.simps)

theorem vm_run_balanced_witness:
  "\<exists>vm'. run 12 exampleEnv exampleProgram (exampleFn ''main'' 0) [] 0 exampleVm =
     Some (Inl (VExn (EvalCostError ''eval cost exceeded'')), vm') \<and> callStack vm' = [] \<and> originStack vm' = [ODriver]"
proof -
  obtain vm' where r: "run 12 exampleEnv exampleProgram (exampleFn ''main'' 0) [] 0 exampleVm =
      Some (Inl (VExn (EvalCostError ''eval cost exceeded'')), vm')" using example_run by auto
  have "efunsRespect keepsStacks exampleEnv" by (auto simp: efunsRespect_def exampleEnv_def)
  from vm_run_balanced[OF this r] r show ?thesis by (auto simp: exampleVm_def)
qed

end
