(* ===== verification/Vm_Calls.thy ===== *)
theory Vm_Calls
  imports Vm_Safety
begin

text \<open>
  Calls into an object from outside (\<^verbatim>\<open>VM::callFunction\<close> with shadows, master applies, privilege checks), driver hooks and
  program replacement, from \<^verbatim>\<open>src/vm/VM.cpp\<close>. As in \<^verbatim>\<open>Vm_Run\<close>, \<^const>\<open>None\<close> means that the fuel ran out.
\<close>

section \<open>Queries\<close>

definition currentObject :: "vm \<Rightarrow> ref option" where
  "currentObject vm = (case callStack vm of [] \<Rightarrow> None | r # _ \<Rightarrow> Some r)"

definition previousObject :: "int \<Rightarrow> vm \<Rightarrow> ref option" where
  "previousObject idx vm =
     (if idx < 0 \<or> length (objectChangeStack vm) \<le> nat idx then None else objectChangeStack vm ! nat idx)"

definition allPreviousObjects :: "vm \<Rightarrow> ref list" where
  "allPreviousObjects vm = List.map_filter id (objectChangeStack vm)"

definition currentVerb :: "vm \<Rightarrow> string" where
  "currentVerb vm = (case verbStack vm of [] \<Rightarrow> '''' | v # _ \<Rightarrow> v)"

definition isDestructedRef :: "vm \<Rightarrow> ref \<Rightarrow> bool" where
  "isDestructedRef vm r = (case vmHeap vm r of Some ob \<Rightarrow> destructed ob | None \<Rightarrow> False)"

definition shadowedByOf :: "vm \<Rightarrow> ref \<Rightarrow> ref option" where
  "shadowedByOf vm r = (case vmHeap vm r of Some ob \<Rightarrow> lock (vmHeap vm) (shadowedBy ob) | None \<Rightarrow> None)"

definition shadowingOf :: "vm \<Rightarrow> ref \<Rightarrow> ref option" where
  "shadowingOf vm r = (case vmHeap vm r of Some ob \<Rightarrow> lock (vmHeap vm) (shadowing ob) | None \<Rightarrow> None)"

section \<open>Calling a function of an object\<close>

text \<open>Phase 1: out to the last active shadow. A shadow that is the caller itself, or is destructed, stops the walk.\<close>

primrec outermostShadow :: "nat \<Rightarrow> vm \<Rightarrow> ref \<Rightarrow> ref option" where
  "outermostShadow 0 vm r = None"
| "outermostShadow (Suc n) vm r =
     (case shadowedByOf vm r of
        None \<Rightarrow> Some r
      | Some s \<Rightarrow> if Some s \<noteq> currentObject vm \<and> \<not> isDestructedRef vm s then outermostShadow n vm s else Some r)"

text \<open>Phase 2: back in, to the first object whose inherit chain defines the function.\<close>

primrec findInShadows :: "nat \<Rightarrow> string \<Rightarrow> ref \<Rightarrow> vm \<Rightarrow> ((vm_exn + (CompiledProgram \<times> FunctionEntry \<times> ref) option) \<times> vm) option" where
  "findInShadows 0 name r vm = None"
| "findInShadows (Suc n) name r vm =
     (case programOf vm r of
        None \<Rightarrow> Some (Inl VUndef, vm)
      | Some p \<Rightarrow>
          (case lookupIn p name vm of
             (Some (q, f), vm1) \<Rightarrow> Some (Inr (Some (q, f, r)), vm1)
           | (None, vm1) \<Rightarrow>
               (case shadowingOf vm1 r of
                  None \<Rightarrow> Some (Inr None, vm1)
                | Some nx \<Rightarrow> findInShadows n name nx vm1)))"

definition touch :: "ref \<Rightarrow> vm \<Rightarrow> vm" where
  "touch r vm =
     (case readClock vm of
        (now, vm1) \<Rightarrow> vm1\<lparr>vmHeap := updObj r (\<lambda>ob. touchTimeOfRef now (ob\<lparr>resetState := False\<rparr>)) (vmHeap vm1)\<rparr>)"

definition guardedRun :: "nat \<Rightarrow> vm_env \<Rightarrow> CompiledProgram \<Rightarrow> FunctionEntry \<Rightarrow> lvalue list \<Rightarrow> ref \<Rightarrow> Origin \<Rightarrow> vm \<Rightarrow> vm_answer" where
  "guardedRun n env q f args r org vm = map_option (\<lambda>(res, vm'). (res, popOrigin vm')) (run n env q f args r (pushOrigin org vm))"

definition callFunction :: "nat \<Rightarrow> vm_env \<Rightarrow> ref option \<Rightarrow> string \<Rightarrow> lvalue list \<Rightarrow> Origin \<Rightarrow> vm \<Rightarrow> vm_answer" where
  "callFunction n env obj name args org vm =
     (case obj of
        None \<Rightarrow> Some (Inr vVoid, vm)
      | Some r \<Rightarrow>
          if isDestructedRef vm r then Some (Inr vVoid, vm)
          else
            (case outermostShadow n (touch r vm) r of
               None \<Rightarrow> None
             | Some t \<Rightarrow>
                 (case findInShadows n name t (touch r vm) of
                    None \<Rightarrow> None
                  | Some (Inl e, vm1) \<Rightarrow> Some (Inl e, vm1)
                  | Some (Inr None, vm1) \<Rightarrow> Some (Inr vVoid, vm1)
                  | Some (Inr (Some (q, f, t')), vm1) \<Rightarrow> guardedRun n env q f args t' org vm1)))"

definition callFunctionInProgram :: "nat \<Rightarrow> vm_env \<Rightarrow> ref option \<Rightarrow> CompiledProgram \<Rightarrow> string \<Rightarrow> lvalue list \<Rightarrow> vm \<Rightarrow> vm_answer" where
  "callFunctionInProgram n env obj p name args vm =
     (case obj of
        None \<Rightarrow> Some (Inr vVoid, vm)
      | Some r \<Rightarrow>
          (case find (\<lambda>f. feName f = name) (progFunctions p) of
             None \<Rightarrow> Some (Inr vVoid, vm)
           | Some f \<Rightarrow> guardedRun n env p f args r ODriver vm))"

definition functionExists :: "ref option \<Rightarrow> string \<Rightarrow> vm \<Rightarrow> (vm_exn + bool) \<times> vm" where
  "functionExists obj name vm =
     (case obj of
        None \<Rightarrow> (Inr False, vm)
      | Some r \<Rightarrow>
          if isDestructedRef vm r then (Inr False, vm)
          else (case programOf vm r of
                  None \<Rightarrow> (Inl VUndef, vm)
                | Some p \<Rightarrow> (case lookupIn p name vm of (x, vm1) \<Rightarrow> (Inr (x \<noteq> None), vm1))))"

definition vmErr :: "string \<Rightarrow> vm_exn" where
  "vmErr msg = VExn (LpcRuntimeError msg)"

definition applyMaster :: "nat \<Rightarrow> vm_env \<Rightarrow> string \<Rightarrow> lvalue list \<Rightarrow> vm \<Rightarrow> vm_answer" where
  "applyMaster n env name args vm =
     (case vmMaster vm of
        None \<Rightarrow> Some (Inl (vmErr (''applyMaster('' @ name @ ''): master object not loaded'')), vm)
      | Some m \<Rightarrow> callFunction n env (Some m) name args ODriver vm)"

definition privilegeViolation :: "nat \<Rightarrow> vm_env \<Rightarrow> string \<Rightarrow> lvalue list \<Rightarrow> vm \<Rightarrow> ((vm_exn + bool) \<times> vm) option" where
  "privilegeViolation n env what args vm =
     (let caller = currentObject vm; deny = Inl (vmErr (''privilege violation: '' @ what)) in
      if caller \<noteq> None \<and> (caller = vmMaster vm \<or> caller = vmSimulEfun vm) then Some (Inr True, vm)
      else
        (case functionExists (vmMaster vm) ''privilege_violation'' vm of
           (Inl e, vm1) \<Rightarrow> Some (Inl e, vm1)
         | (Inr False, vm1) \<Rightarrow> Some (deny, vm1)
         | (Inr True, vm1) \<Rightarrow>
             (case applyMaster n env ''privilege_violation'' (vStr what # mkValue (VObj caller) # args) vm1 of
                None \<Rightarrow> None
              | Some (Inl e, vm2) \<Rightarrow> Some (Inl e, vm2)
              | Some (Inr v, vm2) \<Rightarrow>
                  (case vdata v of
                     VInt i \<Rightarrow> Some (if sint i < 0 then deny else Inr (0 < sint i), vm2)
                   | _ \<Rightarrow> Some (deny, vm2)))))"

section \<open>Driver hooks\<close>

definition kNumDriverHooks :: int where "kNumDriverHooks = 32"

definition getDriverHook :: "int \<Rightarrow> vm \<Rightarrow> lvalue" where
  "getDriverHook what vm = (if what < 0 \<or> kNumDriverHooks \<le> what then vVoid else driverHooks vm ! nat what)"

definition setDriverHook :: "int \<Rightarrow> lvalue \<Rightarrow> vm \<Rightarrow> vm_exn + vm" where
  "setDriverHook what v vm =
     (if what < 0 \<or> kNumDriverHooks \<le> what
      then Inl (vmErr (''Bad hook number: '' @ to_string what @ '', expected 0..'' @ to_string (kNumDriverHooks - 1)))
      else Inr (vm\<lparr>driverHooks := (driverHooks vm)[nat what := v]\<rparr>))"

definition bindClosure :: "ref \<Rightarrow> ref option \<Rightarrow> vm \<Rightarrow> vm" where
  "bindClosure c bindTo vm =
     (case vmClosures vm c of
        None \<Rightarrow> vm
      | Some cl \<Rightarrow> vm\<lparr>vmClosures := (vmClosures vm)(c \<mapsto> cl\<lparr>clOwner := bindTo, clUnbound := False\<rparr>)\<rparr>)"

definition callDriverHookClosure :: "nat \<Rightarrow> vm_env \<Rightarrow> ref option \<Rightarrow> ref option \<Rightarrow> lvalue list \<Rightarrow> vm \<Rightarrow> vm_answer" where
  "callDriverHookClosure n env c bindTo args vm =
     (case c of
        None \<Rightarrow> Some (Inl (vmErr ''driver hook: not a function value''), vm)
      | Some cr \<Rightarrow> callClosure n env c args (bindClosure cr bindTo vm))"

section \<open>Program replacement\<close>

definition enqueueReplaceProgram :: "ref option \<Rightarrow> CompiledProgram option \<Rightarrow> int \<Rightarrow> string \<Rightarrow> vm \<Rightarrow> vm" where
  "enqueueReplaceProgram ob p off name vm =
     (let entry = \<lparr>prOb = ob, prProgram = p, prOffset = off, prName = name\<rparr> in
      vm\<lparr>pendingReplacePrograms :=
        (case find_idx (\<lambda>e. prOb e = ob) (pendingReplacePrograms vm) of
           Some i \<Rightarrow> (pendingReplacePrograms vm)[i := entry]
         | None \<Rightarrow> pendingReplacePrograms vm @ [entry])\<rparr>)"

text \<open>The variables that remain: the slice of the ancestor's, or a plain truncation when the offset is out of range.\<close>

definition replacedVariables :: "int \<Rightarrow> nat \<Rightarrow> lvalue list \<Rightarrow> lvalue list" where
  "replacedVariables off newCount vars =
     (let o1 = (if off > 0 then nat off else 0) in
      if o1 + newCount \<le> length vars then take newCount (drop o1 vars)
      else take newCount vars @ replicate (newCount - length vars) vVoid)"

definition stopShadowing :: "ref \<Rightarrow> heap \<Rightarrow> heap" where
  "stopShadowing r h =
     (case h r of
        None \<Rightarrow> h
      | Some ob \<Rightarrow>
          (case lock h (shadowing ob) of
             None \<Rightarrow> h
           | Some t \<Rightarrow>
               let mine = lock h (shadowedBy ob);
                   h1 = updObj t (\<lambda>x. x\<lparr>shadowedBy := mine\<rparr>) h;
                   h2 = (case mine of
                           None \<Rightarrow> h1
                         | Some s \<Rightarrow> updObj r (\<lambda>x. x\<lparr>shadowedBy := None\<rparr>) (updObj s (\<lambda>x. x\<lparr>shadowing := Some t\<rparr>) h1))
               in updObj r (\<lambda>x. x\<lparr>shadowing := None\<rparr>) h2))"

definition addSlash :: "string \<Rightarrow> string" where
  "addSlash s = (if s = [] \<or> hd s \<noteq> CHR ''/'' then CHR ''/'' # s else s)"

definition replaceProgramOf :: "PendingReplaceProgram \<Rightarrow> vm \<Rightarrow> vm" where
  "replaceProgramOf e vm =
     (case (prOb e, prProgram e) of
        (Some r, Some p) \<Rightarrow>
          if isDestructedRef vm r then vm
          else
            let h1 = updObj r (\<lambda>x. x\<lparr>variables := replacedVariables (prOffset e) (length (objectVarNames p)) (variables x)\<rparr>) (vmHeap vm);
                h2 = stopShadowing r h1;
                h3 = updObj r (\<lambda>x. x\<lparr>program := progId p, replacedProgramName := Some (addSlash (prName e))\<rparr>) h2
            in vm\<lparr>vmHeap := h3, vmPrograms := (vmPrograms vm)(progId p \<mapsto> p)\<rparr>
      | _ \<Rightarrow> vm)"

definition processPendingReplacePrograms :: "vm \<Rightarrow> vm" where
  "processPendingReplacePrograms vm =
     foldl (\<lambda>v e. replaceProgramOf e v) (vm\<lparr>pendingReplacePrograms := []\<rparr>) (pendingReplacePrograms vm)"

definition resolveMudlibPath :: "string \<Rightarrow> string \<Rightarrow> string" where
  "resolveMudlibPath root path = root @ addSlash path"

end
