(* ===== verification/Vm_World.thy ===== *)
theory Vm_World
  imports Vm_Calls
begin

text \<open>
  Moving objects and dispatching a player's command (\<^verbatim>\<open>VM::moveObject\<close>, \<^verbatim>\<open>VM::dispatchCommand\<close> in \<^verbatim>\<open>src/vm/VM.cpp\<close>), and the
  efuns that read the containment tree (\<^verbatim>\<open>src/efun/EfunTable.cpp\<close>).
\<close>

section \<open>The containment tree\<close>

text \<open>
  The efun \<^verbatim>\<open>set_environment()\<close> on its checked arguments, and the same steps in a move: unlink from the old environment, link at the
  end of the new inventory, clear the reset states.
\<close>

definition environmentOf :: "heap \<Rightarrow> ref \<Rightarrow> ref option" where
  "environmentOf h r = (case h r of None \<Rightarrow> None | Some ob \<Rightarrow> lock h (environment ob))"

definition inventoryOf :: "heap \<Rightarrow> ref \<Rightarrow> ref list" where
  "inventoryOf h r = (case h r of None \<Rightarrow> [] | Some ob \<Rightarrow> inventory ob)"

definition clearReset :: "ref option \<Rightarrow> heap \<Rightarrow> heap" where
  "clearReset dest h = (case dest of None \<Rightarrow> h | Some d \<Rightarrow> updObj d (\<lambda>ob. ob\<lparr>resetState := False\<rparr>) h)"

definition unlink :: "ref \<Rightarrow> heap \<Rightarrow> heap" where
  "unlink item h =
     (case environmentOf h item of
        None \<Rightarrow> h
      | Some old \<Rightarrow> updObj old (\<lambda>ob. ob\<lparr>inventory := removeAll item (inventory ob), resetState := False\<rparr>) h)"

definition setEnv :: "ref \<Rightarrow> ref option \<Rightarrow> heap \<Rightarrow> heap" where
  "setEnv item dest h = updObj item (\<lambda>ob. ob\<lparr>resetState := False, environment := dest\<rparr>) h"

definition linkInto :: "ref \<Rightarrow> ref option \<Rightarrow> heap \<Rightarrow> heap" where
  "linkInto item dest h =
     (case dest of None \<Rightarrow> h | Some d \<Rightarrow> updObj d (\<lambda>ob. ob\<lparr>inventory := inventory ob @ [item]\<rparr>) h)"

definition reparent :: "ref \<Rightarrow> ref option \<Rightarrow> heap \<Rightarrow> heap" where
  "reparent item dest h = linkInto item dest (setEnv item dest (unlink item (clearReset dest h)))"

definition relink :: "ref \<Rightarrow> ref \<Rightarrow> heap \<Rightarrow> heap" where
  "relink item dest h = reparent item (Some dest) h"

text \<open>\<^verbatim>\<open>deep_inventory()\<close>: the recursion follows the inventories; \<^const>\<open>None\<close> when \<open>n\<close> levels are not enough.\<close>

fun collect :: "nat \<Rightarrow> heap \<Rightarrow> ref list \<Rightarrow> ref list option" where
  "collect n h [] = Some []"
| "collect 0 h (x # xs) = None"
| "collect (Suc n) h (x # xs) =
     (case collect n h (inventoryOf h x) of
        None \<Rightarrow> None
      | Some below \<Rightarrow> (case collect (Suc n) h xs of None \<Rightarrow> None | Some rest \<Rightarrow> Some (x # below @ rest)))"

definition deepInventory :: "nat \<Rightarrow> heap \<Rightarrow> ref \<Rightarrow> ref list option" where
  "deepInventory n h r = collect n h (inventoryOf h r)"

section \<open>Moving\<close>

definition kHMoveObject0 :: int where "kHMoveObject0 = 0"
definition kHMoveObject1 :: int where "kHMoveObject1 = 1"
definition kHModifyCommand :: int where "kHModifyCommand = 9"

definition commandsOn :: "vm \<Rightarrow> ref \<Rightarrow> bool" where
  "commandsOn vm r = (case vmHeap vm r of Some ob \<Rightarrow> commandsEnabled ob | None \<Rightarrow> False)"

type_synonym unit_answer = "((vm_exn + unit) \<times> vm) option"

definition ignoreValue :: "vm_answer \<Rightarrow> unit_answer" where
  "ignoreValue a = map_option (\<lambda>(r, vm). (map_sum id (\<lambda>_. ()) r, vm)) a"

text \<open>\<^verbatim>\<open>init()\<close> of \<open>target\<close> with \<open>giver\<close> as the command giver, if \<open>giver\<close> can give commands.\<close>

definition callInit :: "nat \<Rightarrow> vm_env \<Rightarrow> ref \<Rightarrow> ref \<Rightarrow> vm \<Rightarrow> unit_answer" where
  "callInit n env giver target vm =
     (if commandsOn vm giver then
        ignoreValue (map_option (\<lambda>(r, vm'). (r, popCommandGiver vm'))
          (callFunction n env (Some target) ''init'' [] ODriver (pushCommandGiver (Some giver) vm)))
      else Some (Inr (), vm))"

definition andThen :: "unit_answer \<Rightarrow> (vm \<Rightarrow> ((vm_exn + 'a) \<times> vm) option) \<Rightarrow> ((vm_exn + 'a) \<times> vm) option" where
  "andThen a k = (case a of None \<Rightarrow> None | Some (Inl e, vm) \<Rightarrow> Some (Inl e, vm) | Some (Inr _, vm) \<Rightarrow> k vm)"

primrec greetOccupants :: "nat \<Rightarrow> vm_env \<Rightarrow> ref \<Rightarrow> ref list \<Rightarrow> vm \<Rightarrow> unit_answer" where
  "greetOccupants n env item [] vm = Some (Inr (), vm)"
| "greetOccupants n env item (ob # obs) vm =
     (if ob = item then greetOccupants n env item obs vm
      else andThen (callInit n env ob item vm) (\<lambda>vm1.
             andThen (callInit n env item ob vm1) (\<lambda>vm2. greetOccupants n env item obs vm2)))"

definition moveDirect :: "nat \<Rightarrow> vm_env \<Rightarrow> ref \<Rightarrow> ref \<Rightarrow> vm \<Rightarrow> unit_answer" where
  "moveDirect n env item dest vm =
     andThen (callInit n env item dest (vm\<lparr>vmHeap := relink item dest (vmHeap vm)\<rparr>))
       (\<lambda>vm1. greetOccupants n env item (inventoryOf (vmHeap vm1) dest) vm1)"

definition hookClosure :: "int \<Rightarrow> vm \<Rightarrow> ref option" where
  "hookClosure k vm = (case vdata (getDriverHook k vm) of VFun c \<Rightarrow> c | _ \<Rightarrow> None)"

definition moveObject :: "nat \<Rightarrow> vm_env \<Rightarrow> ref option \<Rightarrow> ref option \<Rightarrow> vm \<Rightarrow> unit_answer" where
  "moveObject n env item dest vm =
     (case (item, dest) of
        (Some i, Some d) \<Rightarrow>
          if i = d \<or> isDestructedRef vm i \<or> isDestructedRef vm d then Some (Inr (), vm)
          else
            let args = [mkValue (VObj item), mkValue (VObj dest)] in
            (case hookClosure kHMoveObject1 vm of
               Some c \<Rightarrow> ignoreValue (callDriverHookClosure n env (Some c) item args vm)
             | None \<Rightarrow>
                 (case hookClosure kHMoveObject0 vm of
                    Some c \<Rightarrow> ignoreValue (callDriverHookClosure n env (Some c) (currentObject vm) args vm)
                  | None \<Rightarrow> moveDirect n env i d vm))
      | _ \<Rightarrow> Some (Inr (), vm))"

section \<open>Command dispatch\<close>

definition isBlank :: "char \<Rightarrow> bool" where
  "isBlank c \<longleftrightarrow> c = CHR '' '' \<or> c = CHR 0x09"

definition splitVerbAndArg :: "string \<Rightarrow> string \<times> string option" where
  "splitVerbAndArg line =
     (let s = dropWhile isBlank line;
          rest = dropWhile isBlank (dropWhile (\<lambda>c. \<not> isBlank c) s)
      in (takeWhile (\<lambda>c. \<not> isBlank c) s, if rest = [] then None else Some rest))"

definition trimSpaces :: "string \<Rightarrow> string" where
  "trimSpaces s = rev (dropWhile (\<lambda>c. c = CHR '' '') (rev s))"

text \<open>The \<^verbatim>\<open>H_MODIFY_COMMAND\<close> mapping: the whole trimmed line is the key; the first entry with that key decides.\<close>

definition modifyCommand :: "string \<Rightarrow> vm \<Rightarrow> string" where
  "modifyCommand line vm =
     (case vdata (getDriverHook kHModifyCommand vm) of
        VMap (Some m) \<Rightarrow>
          (case vmMaps vm m of
             None \<Rightarrow> line
           | Some mp \<Rightarrow>
               if trimSpaces line = [] then line
               else (case find (\<lambda>(k, v). vdata k = VStr (trimSpaces line)) (entries mp) of
                       Some (k, v) \<Rightarrow> (case vdata v of VStr s \<Rightarrow> s | _ \<Rightarrow> line)
                     | None \<Rightarrow> line))
      | _ \<Rightarrow> line)"

definition actionMatches :: "string \<Rightarrow> ActionEntry \<Rightarrow> bool" where
  "actionMatches verb e \<longleftrightarrow> (if aeFlag e = 0 then aeVerb e = verb else take (length (aeVerb e)) verb = aeVerb e)"

definition handlerArg :: "string \<Rightarrow> string option \<Rightarrow> ActionEntry \<Rightarrow> lvalue" where
  "handlerArg verb arg e =
     (if aeFlag e = 2 \<and> aeVerb e \<noteq> [] then
        let rest = drop (length (aeVerb e)) verb in
        vStr (case arg of None \<Rightarrow> rest | Some a \<Rightarrow> if rest = [] then a else rest @ '' '' @ a)
      else (case arg of None \<Rightarrow> vVoid | Some a \<Rightarrow> vStr a))"

definition liveOwner :: "vm \<Rightarrow> ActionEntry \<Rightarrow> ref option" where
  "liveOwner vm e =
     (case lock (vmHeap vm) (aeOwner e) of
        None \<Rightarrow> None
      | Some r \<Rightarrow> if isDestructedRef vm r then None else Some r)"

definition callHandler :: "nat \<Rightarrow> vm_env \<Rightarrow> ref \<Rightarrow> string \<Rightarrow> string option \<Rightarrow> ref \<Rightarrow> ActionEntry \<Rightarrow> vm \<Rightarrow> vm_answer" where
  "callHandler n env giver verb arg owner e vm =
     (let vm1 = pushCommandGiver (Some giver) (vm\<lparr>verbStack := verb # verbStack vm\<rparr>);
          org = (if currentObject vm1 = None then ODriver else OEfun)
      in map_option (\<lambda>(r, vm2). (r, popCommandGiver (vm2\<lparr>verbStack := tl (verbStack vm2)\<rparr>)))
           (callFunction n env (Some owner) (aeFunction e) [handlerArg verb arg e] org vm1))"

primrec tryActions :: "nat \<Rightarrow> vm_env \<Rightarrow> ref \<Rightarrow> string \<Rightarrow> string option \<Rightarrow> ActionEntry list \<Rightarrow> vm \<Rightarrow> ((vm_exn + bool) \<times> vm) option" where
  "tryActions n env giver verb arg [] vm = Some (Inr False, vm)"
| "tryActions n env giver verb arg (e # es) vm =
     (if \<not> actionMatches verb e then tryActions n env giver verb arg es vm
      else
        (case liveOwner vm e of
           None \<Rightarrow> tryActions n env giver verb arg es vm
         | Some owner \<Rightarrow>
             (case callHandler n env giver verb arg owner e vm of
                None \<Rightarrow> None
              | Some (Inl x, vm1) \<Rightarrow> Some (Inl x, vm1)
              | Some (Inr v, vm1) \<Rightarrow>
                  if isTruthy v then Some (Inr True, vm1) else tryActions n env giver verb arg es vm1)))"

definition actionsOf :: "vm \<Rightarrow> ref \<Rightarrow> ActionEntry list" where
  "actionsOf vm r = (case vmHeap vm r of Some ob \<Rightarrow> actions ob | None \<Rightarrow> [])"

definition dispatchCommand :: "nat \<Rightarrow> vm_env \<Rightarrow> ref option \<Rightarrow> string \<Rightarrow> vm \<Rightarrow> ((vm_exn + bool) \<times> vm) option" where
  "dispatchCommand n env giver line vm =
     (case giver of
        None \<Rightarrow> Some (Inr False, vm)
      | Some g \<Rightarrow>
          if isDestructedRef vm g then Some (Inr False, vm)
          else
            (case splitVerbAndArg (modifyCommand line vm) of
               (verb, arg) \<Rightarrow>
                 if verb = [] then Some (Inr False, vm)
                 else tryActions n env g verb arg (actionsOf vm g) vm))"

section \<open>Relations between the machine before and after these operations\<close>

lemma findInShadows_same: "findInShadows n name r vm = Some (x, vm') \<Longrightarrow> sameCore vm vm'"
proof (induction n arbitrary: r vm)
  case (Suc n)
  show ?case
  proof (cases "programOf vm r")
    case (Some p)
    obtain l vm1 where l: "lookupIn p name vm = (l, vm1)" by fastforce
    note s = lookupIn_same[OF l]
    show ?thesis
    proof (cases "l = None \<and> shadowingOf vm1 r \<noteq> None")
      case True
      then obtain nx where "shadowingOf vm1 r = Some nx" "l = None" by blast
      then have "findInShadows n name nx vm1 = Some (x, vm')" using Suc.prems Some l by simp
      from sameCore_trans[OF s Suc.IH[OF this]] show ?thesis .
    qed (use Suc.prems Some l s in \<open>auto split: option.splits\<close>)
  qed (use Suc.prems in simp)
qed simp

text \<open>
  The interface above the interpreter: a machine relation that also survives the touched reference time, the binding of a hook
  closure, the verb of a command and the relinking of a moved object.
\<close>

locale world_relation = machine_relation +
  assumes touched: "R vm (touch r vm)"
    and bound: "R vm (bindClosure c b vm)"
    and verb: "R (vm\<lparr>verbStack := v # verbStack vm\<rparr>) vm' \<Longrightarrow> R vm (vm'\<lparr>verbStack := tl (verbStack vm')\<rparr>)"
    and relinked: "item \<in> dom (vmHeap vm) \<Longrightarrow> dest \<in> dom (vmHeap vm) \<Longrightarrow> R vm (vm\<lparr>vmHeap := relink item dest (vmHeap vm)\<rparr>)"
begin

lemma guardedRun_respects:
  assumes "efunsRespect R env"
  shows "answerIn R vm (guardedRun n env q f args r org vm)"
  unfolding guardedRun_def run_def answerIn_def
  using origin[OF respectsD(2)[OF interp_respects[OF assms]]] by (auto simp: map_option_case split: option.splits)

lemma callFunction_respects:
  assumes "efunsRespect R env"
  shows "answerIn R vm (callFunction n env obj name args org vm)"
proof (cases "obj = None \<or> isDestructedRef vm (the obj)")
  case False
  then obtain r where r: "obj = Some r" "\<not> isDestructedRef vm r" by auto
  have sh: "R vm vm1" if "findInShadows n name t (touch r vm) = Some (x, vm1)" for t x vm1
    by (rule R_trans[OF touched core[OF findInShadows_same[OF that]]])
  have gr: "answerIn R vm (guardedRun n env q f args t' org vm1)" if "R vm vm1" for q f t' vm1
    by (rule answer_trans[OF that guardedRun_respects[OF assms]])
  show ?thesis
    unfolding callFunction_def r(1) option.case if_not_P[OF r(2)]
    by (auto split: option.splits sum.splits dest!: sh intro: gr)
qed (cases obj; auto simp: callFunction_def)

lemma hookClosure_respects:
  assumes "efunsRespect R env"
  shows "answerIn R vm (callDriverHookClosure n env c b args vm)"
proof (cases c)
  case (Some r)
  have "answerIn R (bindClosure r b vm) (callClosure n env c args (bindClosure r b vm))"
    unfolding callClosure_def answerIn_def using respectsD(4)[OF interp_respects[OF assms]] by blast
  then show ?thesis using Some answer_trans[OF bound] by (simp add: callDriverHookClosure_def)
qed (simp add: callDriverHookClosure_def)

lemma ignoreValue_respects: "answerIn R vm a \<Longrightarrow> answerIn R vm (ignoreValue a)"
  by (auto simp: ignoreValue_def answerIn_def map_option_case split: option.splits)

lemma callInit_respects:
  assumes "efunsRespect R env"
  shows "answerIn R vm (callInit n env g t vm)"
proof -
  have "answerIn R vm (map_option (\<lambda>(r, vm'). (r, popCommandGiver vm'))
      (callFunction n env (Some t) ''init'' [] ODriver (pushCommandGiver (Some g) vm)))"
    using callFunction_respects[OF assms, of "pushCommandGiver (Some g) vm" n "Some t" "''init''" "[]" ODriver]
    by (auto simp: answerIn_def map_option_case split: option.splits intro: giver)
  then show ?thesis by (simp add: callInit_def ignoreValue_respects)
qed

lemma andThen_respects:
  "answerIn R vm a \<Longrightarrow> (\<And>vm'. answerIn R vm' (k vm')) \<Longrightarrow> answerIn R vm (andThen a k)"
  unfolding andThen_def by (auto split: option.splits sum.splits intro: answer_trans)

lemma greetOccupants_respects:
  assumes "efunsRespect R env"
  shows "answerIn R vm (greetOccupants n env item obs vm)"
proof (induction obs arbitrary: vm)
  case (Cons ob obs)
  then show ?case
    by (auto intro!: andThen_respects callInit_respects[OF assms])
qed simp

lemma moveObject_respects:
  assumes E: "efunsRespect R env" and d: "\<And>i. item = Some i \<Longrightarrow> i \<in> dom (vmHeap vm)" "\<And>i. dest = Some i \<Longrightarrow> i \<in> dom (vmHeap vm)"
  shows "answerIn R vm (moveObject n env item dest vm)"
proof -
  have "answerIn R vm (moveDirect n env i d vm)" if "item = Some i" "dest = Some d" for i d
    unfolding moveDirect_def
    by (rule andThen_respects[OF answer_trans[OF relinked[OF d(1)[OF that(1)] d(2)[OF that(2)]] callInit_respects[OF E]]
          greetOccupants_respects[OF E]])
  then show ?thesis
    unfolding moveObject_def Let_def
    by (auto split: option.splits intro: ignoreValue_respects hookClosure_respects[OF E])
qed

lemma callHandler_respects:
  assumes "efunsRespect R env"
  shows "answerIn R vm (callHandler n env g v arg ow e vm)"
proof -
  have "R vm (popCommandGiver (vm2\<lparr>verbStack := tl (verbStack vm2)\<rparr>))"
    if "R (pushCommandGiver (Some g) (vm\<lparr>verbStack := v # verbStack vm\<rparr>)) vm2" for vm2
  proof -
    have "popCommandGiver (vm2\<lparr>verbStack := tl (verbStack vm2)\<rparr>) =
        (popCommandGiver vm2)\<lparr>verbStack := tl (verbStack (popCommandGiver vm2))\<rparr>"
      by (simp add: popCommandGiver_def)
    with verb[OF giver[OF that]] show ?thesis by simp
  qed
  then show ?thesis
    using callFunction_respects[OF assms, of "pushCommandGiver (Some g) (vm\<lparr>verbStack := v # verbStack vm\<rparr>)"]
    unfolding callHandler_def Let_def answerIn_def by (auto simp: map_option_case split: option.splits)
qed

lemma tryActions_respects:
  assumes "efunsRespect R env"
  shows "answerIn R vm (tryActions n env g v arg es vm)"
proof (induction es arbitrary: vm)
  case (Cons e es)
  have "answerIn R vm (case callHandler n env g v arg ow e vm of None \<Rightarrow> None | Some (Inl x, vm1) \<Rightarrow> Some (Inl x, vm1)
      | Some (Inr w, vm1) \<Rightarrow> if isTruthy w then Some (Inr True, vm1) else tryActions n env g v arg es vm1)" for ow
    using callHandler_respects[OF assms, of vm n g v arg ow e] Cons.IH
    by (auto split: option.splits sum.splits intro: answer_trans)
  then show ?case using Cons.IH by (simp split: option.splits)
qed simp

lemma dispatchCommand_respects:
  assumes "efunsRespect R env"
  shows "answerIn R vm (dispatchCommand n env g line vm)"
  unfolding dispatchCommand_def using tryActions_respects[OF assms] by (simp split: option.splits prod.splits)

end

interpretation balancedWorld: world_relation keepsStacks
  by unfold_locales
    (auto simp: keepsStacks_def touch_def readClock_def bindClosure_def split: option.splits)

end
