(* ===== verification/Efun_Files.thy ===== *)
theory Efun_Files
  imports Efun_Base Preprocess Vm_World "HOL-Library.List_Lexorder" "HOL-Library.Char_ord"
begin

text \<open>
  The efuns of \<^verbatim>\<open>src/efun/EfunTable.cpp\<close> that use files, and the gate \<^verbatim>\<open>checkValidPath\<close> in front of most of them. The operating
  system is a parameter, a record of functions on a state of any type; so is what the master object answers. An efun works on the machine
  together with the state of the system. The theorems say which paths the efuns hand to the system.
\<close>

section \<open>The system and the master object\<close>

text \<open>What \<^verbatim>\<open>stat\<close> tells.\<close>

record file_stat =
  fsIsDir :: bool
  fsIsReg :: bool
  fsSize :: int
  fsMtime :: int

text \<open>
  Each function stands for opening the path and using it: \<open>osRead\<close> is the contents of a file opened for reading, \<open>osWrite\<close> writes a text to a
  file opened with \<^verbatim>\<open>trunc\<close> (true) or \<^verbatim>\<open>app\<close> and tells whether the file could be opened and whether the writing went well, \<open>osSize\<close> the size of a file opened for update and \<open>osWriteAt\<close> a write to it at a position;
  the Boolean results are whether the call succeeded.
\<close>

record 'fs os =
  osStat :: "string \<Rightarrow> 'fs \<Rightarrow> file_stat option"
  osRead :: "string \<Rightarrow> 'fs \<Rightarrow> string option"
  osWrite :: "string \<Rightarrow> bool \<Rightarrow> string \<Rightarrow> 'fs \<Rightarrow> bool \<times> bool \<times> 'fs"
  osSize :: "string \<Rightarrow> 'fs \<Rightarrow> int option"
  osWriteAt :: "string \<Rightarrow> int \<Rightarrow> string \<Rightarrow> 'fs \<Rightarrow> bool \<times> 'fs"
  osList :: "string \<Rightarrow> 'fs \<Rightarrow> string list option"
  osRemove :: "string \<Rightarrow> 'fs \<Rightarrow> bool \<times> 'fs"
  osMkdir :: "string \<Rightarrow> 'fs \<Rightarrow> bool \<times> 'fs"
  osRmdir :: "string \<Rightarrow> 'fs \<Rightarrow> bool \<times> 'fs"
  osRename :: "string \<Rightarrow> string \<Rightarrow> 'fs \<Rightarrow> bool \<times> 'fs"
  osLink :: "string \<Rightarrow> string \<Rightarrow> 'fs \<Rightarrow> bool \<times> 'fs"

text \<open>
  \<open>feApplyMaster\<close> is \<^verbatim>\<open>VM::applyMaster\<close>, \<open>feGlob\<close> the \<^verbatim>\<open>fnmatch\<close> of the C library, \<open>feUidActive\<close> whether the uid model is in use.
\<close>

record 'fs file_env =
  feOs :: "'fs os"
  feRoot :: string
  feUidActive :: bool
  feApplyMaster :: "string \<Rightarrow> lvalue list \<Rightarrow> vm \<times> 'fs \<Rightarrow> vm_result \<times> (vm \<times> 'fs)"
  feGlob :: "string \<Rightarrow> string \<Rightarrow> bool"

type_synonym 'fs file_answer = "vm_result \<times> (vm \<times> 'fs)"

definition fileErr :: "string \<Rightarrow> vm \<times> 'fs \<Rightarrow> 'fs file_answer" where
  "fileErr msg w = (Inl (VExn (LpcRuntimeError msg)), w)"

definition fileInt :: "int \<Rightarrow> vm \<times> 'fs \<Rightarrow> 'fs file_answer" where
  "fileInt i w = (Inr (vInt (word_of_int i)), w)"

section \<open>Legal paths\<close>

text \<open>Reading past the end gives the null character.\<close>

definition chAt :: "string \<Rightarrow> nat \<Rightarrow> char" where
  "chAt s i = (if i < length s then s ! i else CHR 0x00)"

lemma find_sub_bound: "find_sub p s = Some i \<Longrightarrow> p \<noteq> [] \<Longrightarrow> i < length s"
  using find_sub_Some_take[of p s i] by (cases p) auto

text \<open>The walk of \<^verbatim>\<open>legal_path()\<close> in FluffOS, on the rest of the path from \<^verbatim>\<open>p\<close> on.\<close>

function fluffosWalk :: "string \<Rightarrow> bool" where
  "fluffosWalk s =
     (let dots = chAt s 0 = CHR ''.'';
          s1 = (if dots \<and> chAt s 1 = CHR ''.'' then tl s else s) in
      if dots \<and> chAt s 1 = CHR 0x00 then True
      else if dots \<and> chAt s1 1 \<in> {CHR ''/'', CHR 0x00} then False
      else (case find_sub ''/.'' s1 of None \<Rightarrow> True | Some i \<Rightarrow> fluffosWalk (drop (i + 1) s1)))"
  by auto

termination
proof (relation "measure length", goal_cases)
  case (2 s dots s1 i)
  then have "i < length s1" using find_sub_bound by fastforce
  moreover have "length s1 \<le> length s" using 2(2) by simp
  ultimately show ?case by simp
qed simp

declare fluffosWalk.simps [simp del]

definition legalPathFluffos :: "string \<Rightarrow> bool" where
  "legalPathFluffos path \<longleftrightarrow>
     (if path = [] then False
      else if hd path = CHR ''/'' then False
      else if CHR ''#'' \<in> set path then False
      else fluffosWalk path)"

lemma find_from_bound: "find_from P s n = Some p \<Longrightarrow> n \<le> p \<and> p < length s"
  by (auto simp: find_from_def find_idx_Some)

function ldmudWalk :: "string \<Rightarrow> nat \<Rightarrow> bool" where
  "ldmudWalk path start =
     (case find_from (\<lambda>c. c = CHR ''.'') path start of
        None \<Rightarrow> True
      | Some p \<Rightarrow>
          if chAt path (p + 1) \<noteq> CHR ''.'' then ldmudWalk path (p + 1)
          else if chAt path (p + 2) \<in> {CHR 0x00, CHR ''/''} \<and> (p = 0 \<or> path ! (p - 1) = CHR ''/'') then False
          else ldmudWalk path (p + 2))"
  by auto

termination
  by (relation "measure (\<lambda>(path, start). length path - start)") (auto dest: find_from_bound)

declare ldmudWalk.simps [simp del]

definition legalPathLdmud :: "string \<Rightarrow> bool" where
  "legalPathLdmud path \<longleftrightarrow>
     (if CHR '' '' \<in> set path then False
      else if path \<noteq> [] \<and> hd path = CHR ''/'' then False
      else ldmudWalk path 0)"

section \<open>The gate\<close>

definition strOrVoid :: "string option \<Rightarrow> lvalue" where
  "strOrVoid s = (case s of None \<Rightarrow> vVoid | Some x \<Rightarrow> vStr x)"

definition gateArgs :: "'fs file_env \<Rightarrow> vm \<Rightarrow> string \<Rightarrow> string \<Rightarrow> lvalue list" where
  "gateArgs env vm rawPath func =
     (let caller = currentObject vm in
      if vmDialect vm = LdMud then
        (let uidName = (case caller of None \<Rightarrow> None | Some r \<Rightarrow>
               (case vmHeap vm r of None \<Rightarrow> None | Some ob \<Rightarrow> if feUidActive env then euid ob else privs ob)) in
         [vStr rawPath, strOrVoid uidName, vStr func, mkValue (VObj caller)])
      else [vStr rawPath, mkValue (VObj caller), vStr func])"

definition gatedBy :: "string \<Rightarrow> lvalue \<Rightarrow> string option" where
  "gatedBy rawPath answer =
     (case vdata answer of
        VVoid \<Rightarrow> Some rawPath
      | VInt n \<Rightarrow> if n = 0 then None else Some rawPath
      | VStr s \<Rightarrow> Some s
      | _ \<Rightarrow> Some rawPath)"

definition checkPathOf :: "string \<Rightarrow> string" where
  "checkPathOf approved = (if approved \<noteq> [] \<and> hd approved = CHR ''/'' then tl approved else approved)"

text \<open>The legality of a path is only checked when there is a master object.\<close>

definition checkValidPath ::
  "'fs file_env \<Rightarrow> string \<Rightarrow> bool \<Rightarrow> string \<Rightarrow> vm \<times> 'fs \<Rightarrow> (vm_exn + string option) \<times> (vm \<times> 'fs)" where
  "checkValidPath env rawPath writeFlag func w =
     (let vm = fst w in
      if vmMaster vm = None then (Inr (Some rawPath), w)
      else
        (case feApplyMaster env (if writeFlag then ''valid_write'' else ''valid_read'') (gateArgs env vm rawPath func) w of
           (Inl e, w1) \<Rightarrow> (Inl e, w1)
         | (Inr answer, w1) \<Rightarrow>
             (case gatedBy rawPath answer of
                None \<Rightarrow> (Inr None, w1)
              | Some approved \<Rightarrow>
                  let ldmud = (vmDialect (fst w1) = LdMud); checkPath = checkPathOf approved in
                  if (if ldmud then legalPathLdmud checkPath else legalPathFluffos checkPath) then (Inr (Some approved), w1)
                  else if ldmud then
                    (Inl (VExn (LpcRuntimeError (''Illegal path '' @ [CHR 0x27] @ checkPath @ [CHR 0x27] @ '' for '' @ func @ ''() by '' @
                       (case currentObject vm of None \<Rightarrow> ''?'' | Some r \<Rightarrow> (case vmHeap (fst w1) r of None \<Rightarrow> ''?'' | Some ob \<Rightarrow> filename ob))))), w1)
                  else (Inr None, w1))))"

text \<open>What the gated efuns share: the gate, what a denial gives, and the path for the system.\<close>

definition withGate ::
  "'fs file_env \<Rightarrow> string \<Rightarrow> bool \<Rightarrow> string \<Rightarrow> (vm \<times> 'fs \<Rightarrow> 'fs file_answer) \<Rightarrow> (string \<Rightarrow> vm \<times> 'fs \<Rightarrow> 'fs file_answer) \<Rightarrow>
   vm \<times> 'fs \<Rightarrow> 'fs file_answer" where
  "withGate env rawPath writeFlag func denied go w =
     (case checkValidPath env rawPath writeFlag func w of
        (Inl e, w1) \<Rightarrow> (Inl e, w1)
      | (Inr None, w1) \<Rightarrow> denied w1
      | (Inr (Some p), w1) \<Rightarrow> go (resolveMudlibPath (feRoot env) p) w1)"

definition onFs :: "(bool \<times> 'fs \<Rightarrow> int) \<Rightarrow> ('fs \<Rightarrow> bool \<times> 'fs) \<Rightarrow> vm \<times> 'fs \<Rightarrow> 'fs file_answer" where
  "onFs toInt f w = (case f (snd w) of (ok, fs) \<Rightarrow> fileInt (toInt (ok, fs)) (fst w, fs))"

abbreviation "okInt \<equiv> (\<lambda>(ok, _). if ok then 1 else 0 :: int)"
abbreviation "failInt \<equiv> (\<lambda>(ok, _). if ok then 0 else 1 :: int)"

section \<open>Reading and writing\<close>

text \<open>The lines from \<open>start\<close> on, at most \<open>n\<close> of them when \<open>n\<close> is not 0, each with a newline.\<close>

definition readLines :: "nat \<Rightarrow> nat \<Rightarrow> string \<Rightarrow> string" where
  "readLines start n text =
     (let ls = drop (start - 1) (getlines text) in concat (map (\<lambda>l. l @ [lxNl]) (if n > 0 then take n ls else ls)))"

definition efunReadFile :: "'fs file_env \<Rightarrow> lvalue list \<Rightarrow> vm \<times> 'fs \<Rightarrow> 'fs file_answer" where
  "efunReadFile env args w =
     (case strAt args 0 of
        None \<Rightarrow> fileErr ''read_file: expected a string filename argument'' w
      | Some name \<Rightarrow>
          let start = (case intAt args 1 of None \<Rightarrow> 1 | Some n \<Rightarrow> max 1 n);
              numLines = (case intAt args 2 of None \<Rightarrow> 0 | Some n \<Rightarrow> n) in
          if numLines < 0 then fileInt 0 w
          else withGate env name False ''read_file'' (fileInt 0) (\<lambda>path w1.
                 case osStat (feOs env) path (snd w1) of
                   None \<Rightarrow> fileInt 0 w1
                 | Some st \<Rightarrow>
                     if fsIsDir st then fileInt 0 w1
                     else (case osRead (feOs env) path (snd w1) of
                             None \<Rightarrow> fileInt 0 w1
                           | Some text \<Rightarrow>
                               (Inr (vStr (if length args \<le> 1 then text else readLines (nat start) (nat numLines) text)), w1))) w)"

definition efunWriteFile :: "'fs file_env \<Rightarrow> lvalue list \<Rightarrow> vm \<times> 'fs \<Rightarrow> 'fs file_answer" where
  "efunWriteFile env args w =
     (case (strAt args 0, strAt args 1) of
        (Some name, Some text) \<Rightarrow>
          withGate env name True ''write_file'' (fileInt 0)
            (\<lambda>path. onFs okInt (\<lambda>fs. case osWrite (feOs env) path (intAt args 2 = Some 1) text fs of (opened, _, fs1) \<Rightarrow> (opened, fs1))) w
      | _ \<Rightarrow> fileErr ''write_file: expected (string file, string content) arguments'' w)"

definition efunReadBytes :: "'fs file_env \<Rightarrow> lvalue list \<Rightarrow> vm \<times> 'fs \<Rightarrow> 'fs file_answer" where
  "efunReadBytes env args w =
     (case strAt args 0 of
        None \<Rightarrow> fileErr ''read_bytes: expected a string filename argument'' w
      | Some name \<Rightarrow>
          withGate env name False ''read_bytes'' (fileInt 0) (\<lambda>path w1.
            let start0 = (case intAt args 1 of None \<Rightarrow> 0 | Some n \<Rightarrow> n); len0 = (case intAt args 2 of None \<Rightarrow> 0 | Some n \<Rightarrow> n) in
            if len0 < 0 then fileInt 0 w1
            else (case osRead (feOs env) path (snd w1) of
                    None \<Rightarrow> fileInt 0 w1
                  | Some text \<Rightarrow>
                      let sz = int (length text); start = (if start0 < 0 then sz + start0 else start0) in
                      if start < 0 \<or> sz \<le> start then fileInt 0 w1
                      else let len = (if len0 = 0 then sz else len0) in
                        if \<not> int64_range (start + len) then (Inl VUndef, w1)
                        else let n = (if sz < start + len then sz - start else len) in
                          (Inr (vStr (take (nat n) (drop (nat start) text))), w1))) w)"

definition efunWriteBytes :: "'fs file_env \<Rightarrow> lvalue list \<Rightarrow> vm \<times> 'fs \<Rightarrow> 'fs file_answer" where
  "efunWriteBytes env args w =
     (case (strAt args 0, intAt args 1, strAt args 2) of
        (Some name, Some start0, Some text) \<Rightarrow>
          withGate env name True ''write_bytes'' (fileInt 0) (\<lambda>path w1.
            let made = (case osSize (feOs env) path (snd w1) of
                          Some sz \<Rightarrow> (Some sz, snd w1)
                        | None \<Rightarrow> (case osWrite (feOs env) path True [] (snd w1) of
                                     (opened, _, fs) \<Rightarrow> (if opened then osSize (feOs env) path fs else None, fs)));
                w2 = (fst w1, snd made) in
            case fst made of
              None \<Rightarrow> fileInt 0 w2
            | Some sz \<Rightarrow>
                let start = (if start0 < 0 then sz + start0 else start0) in
                if start < 0 \<or> sz < start then fileInt 0 w2
                else onFs okInt (osWriteAt (feOs env) path start text) w2) w
      | _ \<Rightarrow> fileErr ''write_bytes: expected (string, int, string)'' w)"

section \<open>Names and directories\<close>

definition gatedCall ::
  "string \<Rightarrow> string \<Rightarrow> ('fs os \<Rightarrow> string \<Rightarrow> 'fs \<Rightarrow> bool \<times> 'fs) \<Rightarrow> 'fs file_env \<Rightarrow> lvalue list \<Rightarrow> vm \<times> 'fs \<Rightarrow> 'fs file_answer" where
  "gatedCall func msg f env args w =
     (case strAt args 0 of
        None \<Rightarrow> fileErr msg w
      | Some name \<Rightarrow> withGate env name True func (fileInt 0) (\<lambda>path. onFs okInt (f (feOs env) path)) w)"

definition efunRm :: "'fs file_env \<Rightarrow> lvalue list \<Rightarrow> vm \<times> 'fs \<Rightarrow> 'fs file_answer" where
  "efunRm = gatedCall ''rm'' ''rm: expected a string path argument'' osRemove"

definition efunMkdir :: "'fs file_env \<Rightarrow> lvalue list \<Rightarrow> vm \<times> 'fs \<Rightarrow> 'fs file_answer" where
  "efunMkdir = gatedCall ''mkdir'' ''mkdir: expected a string path argument'' osMkdir"

definition efunRmdir :: "'fs file_env \<Rightarrow> lvalue list \<Rightarrow> vm \<times> 'fs \<Rightarrow> 'fs file_answer" where
  "efunRmdir = gatedCall ''rmdir'' ''rmdir: expected a string path argument'' osRmdir"

definition efunRename :: "'fs file_env \<Rightarrow> lvalue list \<Rightarrow> vm \<times> 'fs \<Rightarrow> 'fs file_answer" where
  "efunRename env args w =
     (case (strAt args 0, strAt args 1) of
        (Some a, Some b) \<Rightarrow>
          withGate env a True ''rename_from'' (fileInt 1) (\<lambda>from.
            withGate env b True ''rename_to'' (fileInt 1) (\<lambda>to. onFs failInt (osRename (feOs env) from to))) w
      | _ \<Rightarrow> fileErr ''rename: expected two string arguments'' w)"

definition fileArray :: "lvalue list \<Rightarrow> vm \<times> 'fs \<Rightarrow> 'fs file_answer" where
  "fileArray xs w = (case newArray xs (fst w) of (r, vm1) \<Rightarrow> (Inr (mkValue (VArr (Some r))), (vm1, snd w)))"

text \<open>Entries of a listing, given as name and path: the name, or name, size and time of change.\<close>

definition dirEntry :: "bool \<Rightarrow> 'fs os \<Rightarrow> string \<times> string \<Rightarrow> vm \<times> 'fs \<Rightarrow> lvalue \<times> (vm \<times> 'fs)" where
  "dirEntry wantStat os e w =
     (if \<not> wantStat then (vStr (fst e), w)
      else
        let (sz, mtime) = (case osStat os (snd e) (snd w) of None \<Rightarrow> (0, 0) | Some st \<Rightarrow> (if fsIsDir st then - 2 else fsSize st, fsMtime st)) in
        (case newArray [vStr (fst e), vInt (word_of_int sz), vInt (word_of_int mtime)] (fst w) of
           (r, vm1) \<Rightarrow> (mkValue (VArr (Some r)), (vm1, snd w))))"

primrec dirEntries :: "bool \<Rightarrow> 'fs os \<Rightarrow> (string \<times> string) list \<Rightarrow> lvalue list \<Rightarrow> vm \<times> 'fs \<Rightarrow> 'fs file_answer" where
  "dirEntries wantStat os [] done w = fileArray (rev done) w"
| "dirEntries wantStat os (e # es) done w =
     (case dirEntry wantStat os e w of (v, w1) \<Rightarrow> dirEntries wantStat os es (v # done) w1)"

definition listed :: "(string \<Rightarrow> bool) \<Rightarrow> string \<Rightarrow> string list \<Rightarrow> (string \<times> string) list" where
  "listed want dir names =
     map (\<lambda>n. (n, dir @ ''/'' @ n)) (sort (filter (\<lambda>n. n \<noteq> ''.'' \<and> n \<noteq> ''..'' \<and> want n) names))"

definition listDir :: "'fs file_env \<Rightarrow> bool \<Rightarrow> string \<Rightarrow> vm \<times> 'fs \<Rightarrow> 'fs file_answer" where
  "listDir env wantStat path w =
     (let lastComponent = rev (takeWhile (\<lambda>c. c \<noteq> CHR ''/'') (rev path));
          dirPart = take (length path - length lastComponent - 1) path;
          os = feOs env in
      if \<not> (\<exists>c \<in> set lastComponent. c \<in> {CHR ''*'', CHR ''?'', CHR ''[''})
      then (case osStat os path (snd w) of
              None \<Rightarrow> fileArray [] w
            | Some st \<Rightarrow>
                if fsIsDir st
                then (case osList os path (snd w) of
                        None \<Rightarrow> fileArray [] w
                      | Some names \<Rightarrow> dirEntries wantStat os (listed (\<lambda>_. True) path names) [] w)
                else dirEntries wantStat os [(lastComponent, path)] [] w)
      else (case osStat os dirPart (snd w) of
              None \<Rightarrow> fileArray [] w
            | Some st \<Rightarrow>
                if \<not> fsIsDir st then fileArray [] w
                else (case osList os dirPart (snd w) of
                        None \<Rightarrow> fileArray [] w
                      | Some names \<Rightarrow> dirEntries wantStat os (listed (feGlob env lastComponent) dirPart names) [] w)))"

definition efunGetDir :: "'fs file_env \<Rightarrow> lvalue list \<Rightarrow> vm \<times> 'fs \<Rightarrow> 'fs file_answer" where
  "efunGetDir env args w =
     (case strAt args 0 of
        None \<Rightarrow> fileErr ''get_dir: expected a string path argument'' w
      | Some name \<Rightarrow>
          if 1 < length args \<and> intAt args 1 = None then fileErr ''get_dir: flags argument must be an int'' w
          else withGate env name False ''get_dir'' (fileArray []) (listDir env (intAt args 1 = Some (- 1))) w)"

section \<open>Efuns without the gate\<close>

definition efunFileSize :: "'fs file_env \<Rightarrow> lvalue list \<Rightarrow> vm \<times> 'fs \<Rightarrow> 'fs file_answer" where
  "efunFileSize env args w =
     (case strAt args 0 of
        None \<Rightarrow> fileErr ''file_size: expected a string path argument'' w
      | Some name \<Rightarrow>
          (case osStat (feOs env) (resolveMudlibPath (feRoot env) name) (snd w) of
             None \<Rightarrow> fileInt (- 1) w
           | Some st \<Rightarrow> fileInt (if fsIsDir st then - 2 else fsSize st) w))"

definition efunFileLength :: "'fs file_env \<Rightarrow> lvalue list \<Rightarrow> vm \<times> 'fs \<Rightarrow> 'fs file_answer" where
  "efunFileLength env args w =
     (case strAt args 0 of
        None \<Rightarrow> fileErr ''file_length: expected a string path argument'' w
      | Some name \<Rightarrow>
          let path = resolveMudlibPath (feRoot env) name in
          (case osStat (feOs env) path (snd w) of
             None \<Rightarrow> fileInt (- 1) w
           | Some st \<Rightarrow>
               if fsIsDir st then fileInt (- 2) w
               else (case osRead (feOs env) path (snd w) of
                       None \<Rightarrow> fileInt (- 1) w
                     | Some text \<Rightarrow> fileInt (int (length (filter (\<lambda>c. c = lxNl) text))) w)))"

definition efunStat :: "'fs file_env \<Rightarrow> lvalue list \<Rightarrow> vm \<times> 'fs \<Rightarrow> 'fs file_answer" where
  "efunStat env args w =
     (case strAt args 0 of
        None \<Rightarrow> fileErr ''stat: expected a string path argument'' w
      | Some name \<Rightarrow>
          (case osStat (feOs env) (resolveMudlibPath (feRoot env) name) (snd w) of
             Some st \<Rightarrow>
               if fsIsReg st then fileArray [vInt (word_of_int (fsSize st)), vInt (word_of_int (fsMtime st)), vInt 0] w
               else efunGetDir env (take 2 args) w
           | None \<Rightarrow> efunGetDir env (take 2 args) w))"

definition efunLink :: "'fs file_env \<Rightarrow> lvalue list \<Rightarrow> vm \<times> 'fs \<Rightarrow> 'fs file_answer" where
  "efunLink env args w =
     (case (strAt args 0, strAt args 1) of
        (Some a, Some b) \<Rightarrow> onFs failInt (osLink (feOs env) (resolveMudlibPath (feRoot env) a) (resolveMudlibPath (feRoot env) b)) w
      | _ \<Rightarrow> fileErr ''link: expected two string arguments'' w)"

text \<open>\<^verbatim>\<open>out << in.rdbuf()\<close> sets the fail bit when it inserts no character: copying an empty file gives 0.\<close>

definition efunCp :: "'fs file_env \<Rightarrow> lvalue list \<Rightarrow> vm \<times> 'fs \<Rightarrow> 'fs file_answer" where
  "efunCp env args w =
     (case (strAt args 0, strAt args 1) of
        (Some a, Some b) \<Rightarrow>
          (case osRead (feOs env) (resolveMudlibPath (feRoot env) a) (snd w) of
             None \<Rightarrow> fileInt 0 w
           | Some text \<Rightarrow>
               onFs okInt (\<lambda>fs. case osWrite (feOs env) (resolveMudlibPath (feRoot env) b) True text fs of
                                 (opened, written, fs1) \<Rightarrow> (opened \<and> written \<and> text \<noteq> [], fs1)) w)
      | _ \<Rightarrow> fileErr ''cp: expected (string from, string to) arguments'' w)"


section \<open>Where a path leads\<close>

text \<open>
  The names of a path, and the directory it leads to when no link is followed: the system reads the path up to the first null character,
  passes over empty names and \<^verbatim>\<open>.\<close>, and goes one up at \<^verbatim>\<open>..\<close>.
\<close>

primrec pathNames :: "string \<Rightarrow> string list" where
  "pathNames [] = [[]]"
| "pathNames (c # cs) =
     (if c = CHR ''/'' then [] # pathNames cs else (c # hd (pathNames cs)) # tl (pathNames cs))"

definition cString :: "string \<Rightarrow> string" where
  "cString s = takeWhile (\<lambda>c. c \<noteq> CHR 0x00) s"

definition enterName :: "string list \<Rightarrow> string \<Rightarrow> string list" where
  "enterName at n = (if n = [] \<or> n = ''.'' then at else if n = ''..'' then butlast at else at @ [n])"

definition leadsTo :: "string \<Rightarrow> string list" where
  "leadsTo path = foldl enterName [] (pathNames (cString path))"

definition within :: "string \<Rightarrow> string \<Rightarrow> bool" where
  "within root path \<longleftrightarrow> take (length (leadsTo root)) (leadsTo path) = leadsTo root"

lemma pathNames_ne [simp]: "pathNames s \<noteq> []"
  by (cases s) auto

lemma pathNames_append: "pathNames (a @ CHR ''/'' # b) = pathNames a @ pathNames b"
  by (induction a) (auto simp: hd_append)

lemma pathNames_hd: "\<exists>b. s = hd (pathNames s) @ b \<and> (b = [] \<or> hd b = CHR ''/'')"
proof (induction s)
  case (Cons c cs)
  then obtain b where "cs = hd (pathNames cs) @ b" "b = [] \<or> hd b = CHR ''/''" by blast
  then show ?case by (cases "c = CHR ''/''") auto
qed simp

lemma pathNames_tl:
  "q \<in> set (tl (pathNames s)) \<Longrightarrow> \<exists>a b. s = a @ CHR ''/'' # q @ b \<and> (b = [] \<or> hd b = CHR ''/'')"
proof (induction s)
  case (Cons c cs)
  show ?case
  proof (cases "c = CHR ''/'' \<and> q = hd (pathNames cs)")
    case True
    obtain b where "cs = hd (pathNames cs) @ b" "b = [] \<or> hd b = CHR ''/''" using pathNames_hd by blast
    then have "c # cs = [] @ CHR ''/'' # q @ b \<and> (b = [] \<or> hd b = CHR ''/'')" using True by simp
    then show ?thesis by blast
  next
    case False
    then have "q \<in> set (tl (pathNames cs))"
      using Cons.prems by (cases "pathNames cs") (auto split: if_splits)
    then obtain a b where "cs = a @ CHR ''/'' # q @ b" "b = [] \<or> hd b = CHR ''/''" using Cons.IH by blast
    then have "c # cs = (c # a) @ CHR ''/'' # q @ b \<and> (b = [] \<or> hd b = CHR ''/'')" by simp
    then show ?thesis by blast
  qed
qed simp

text \<open>A name \<^verbatim>\<open>..\<close> that starts at a position.\<close>

definition upAt :: "string \<Rightarrow> nat \<Rightarrow> bool" where
  "upAt s p \<longleftrightarrow> p < length s \<and> s ! p = CHR ''.'' \<and> chAt s (p + 1) = CHR ''.'' \<and> chAt s (p + 2) \<in> {CHR 0x00, CHR ''/''} \<and>
     (p = 0 \<or> s ! (p - 1) = CHR ''/'')"

lemma upAt_app:
  assumes "a = [] \<or> last a = CHR ''/''" "b = [] \<or> hd b = CHR 0x00 \<or> hd b = CHR ''/''"
  shows "upAt (a @ ''..'' @ b) (length a)"
proof -
  have "length a \<noteq> 0 \<longrightarrow> a ! (length a - 1) = CHR ''/''"
    using assms(1) by (cases a rule: rev_cases) auto
  then show ?thesis
    using assms(2) by (cases b; cases "a = []") (auto simp: upAt_def chAt_def nth_append)
qed

lemma dotdot_upAt:
  assumes "''..'' \<in> set (pathNames (cString s))"
  shows "\<exists>p. upAt s p \<and> CHR 0x00 \<notin> set (take p s)"
proof -
  define r where "r = dropWhile (\<lambda>c. c \<noteq> CHR 0x00) s"
  have r: "s = cString s @ r" "r = [] \<or> hd r = CHR 0x00"
    using hd_dropWhile[of "\<lambda>c. c \<noteq> CHR 0x00" s] by (auto simp: r_def cString_def simp del: hd_dropWhile)
  have n: "CHR 0x00 \<notin> set (cString s)" unfolding cString_def by (auto dest: set_takeWhileD)
  obtain a b where ab: "cString s = a @ ''..'' @ b" "a = [] \<or> last a = CHR ''/''" "b = [] \<or> hd b = CHR ''/''"
  proof (cases "hd (pathNames (cString s)) = ''..''")
    case True
    then show ?thesis using pathNames_hd[of "cString s"] that[of "[]"] by auto
  next
    case False
    then have "''..'' \<in> set (tl (pathNames (cString s)))"
      using assms by (cases "pathNames (cString s)") auto
    then obtain a b where "cString s = a @ CHR ''/'' # ''..'' @ b" "b = [] \<or> hd b = CHR ''/''"
      using pathNames_tl by blast
    then show ?thesis using that[of "a @ ''/''" b] by simp
  qed
  have s: "s = a @ ''..'' @ (b @ r)" using r(1) ab(1) by simp
  have "b @ r = [] \<or> hd (b @ r) = CHR 0x00 \<or> hd (b @ r) = CHR ''/''" using ab(3) r(2) by (cases b) auto
  then have "upAt s (length a)" using upAt_app[OF ab(2)] s by metis
  moreover have "CHR 0x00 \<notin> set (take (length a) s)" using s n ab(1) by simp
  ultimately show ?thesis by blast
qed

lemma find_from_Some:
  assumes "find_from P s n = Some p"
  shows "n \<le> p \<and> p < length s \<and> P (s ! p) \<and> (\<forall>q. n \<le> q \<and> q < p \<longrightarrow> \<not> P (s ! q))"
proof -
  obtain i where i: "find_idx P (drop n s) = Some i" "p = n + i" using assms by (auto simp: find_from_def)
  have "i < length (drop n s)" "P (drop n s ! i)" "\<forall>j<i. \<not> P (drop n s ! j)" using i(1) by (auto simp: find_idx_Some)
  moreover have "\<not> P (s ! q)" if "n \<le> q" "q < p" for q
    using calculation(3)[rule_format, of "q - n"] calculation(1) that i(2) by simp
  ultimately show ?thesis using i(2) by auto
qed

lemma all_from_Suc: "(\<forall>q. n \<le> q \<longrightarrow> Q q) \<longleftrightarrow> Q n \<and> (\<forall>q. Suc n \<le> q \<longrightarrow> Q q)"
proof -
  have "n \<le> q \<longleftrightarrow> q = n \<or> Suc n \<le> q" for q by auto
  then show ?thesis by auto
qed

text \<open>The walk of LDMud refuses exactly the paths with such a position.\<close>

lemma ldmudWalk_iff: "ldmudWalk s n \<longleftrightarrow> (\<forall>p. n \<le> p \<longrightarrow> \<not> upAt s p)"
proof (induction s n rule: ldmudWalk.induct)
  case (1 s n)
  show ?case
  proof (cases "find_from (\<lambda>c. c = CHR ''.'') s n")
    case None
    then have none: "\<forall>x \<in> set (drop n s). x \<noteq> CHR ''.''" by (simp add: find_from_def find_idx_None)
    have "s ! p \<noteq> CHR ''.''" if "n \<le> p" "p < length s" for p
      using none that nth_mem[of "p - n" "drop n s"] by simp
    then show ?thesis using None by (auto simp: ldmudWalk.simps[of s n] upAt_def)
  next
    case (Some p)
    have p: "n \<le> p" "p < length s" "s ! p = CHR ''.''" "\<forall>q. n \<le> q \<and> q < p \<longrightarrow> s ! q \<noteq> CHR ''.''"
      using find_from_Some[OF Some] by auto
    have before: "\<not> upAt s q" if "n \<le> q" "q < p" for q using p(4) that by (auto simp: upAt_def)
    have split: "(\<forall>q. n \<le> q \<longrightarrow> \<not> upAt s q) \<longleftrightarrow> \<not> upAt s p \<and> (\<forall>q. p + 1 \<le> q \<longrightarrow> \<not> upAt s q)"
    proof -
      have "(\<forall>q. n \<le> q \<longrightarrow> \<not> upAt s q) \<longleftrightarrow> (\<forall>q. p \<le> q \<longrightarrow> \<not> upAt s q)" using before p(1) by (meson le_trans not_less)
      then show ?thesis using all_from_Suc[of p "\<lambda>q. \<not> upAt s q"] by simp
    qed
    show ?thesis
    proof (cases "chAt s (p + 1) = CHR ''.''")
      case False
      then have "\<not> upAt s p" by (simp add: upAt_def)
      then show ?thesis using 1(1)[OF Some] False Some split by (simp add: ldmudWalk.simps[of s n])
    next
      case True
      have "\<not> upAt s (p + 1)" using p(3) by (simp add: upAt_def)
      then have split2: "(\<forall>q. p + 1 \<le> q \<longrightarrow> \<not> upAt s q) \<longleftrightarrow> (\<forall>q. p + 2 \<le> q \<longrightarrow> \<not> upAt s q)"
        using all_from_Suc[of "p + 1" "\<lambda>q. \<not> upAt s q"] by simp
      show ?thesis
      proof (cases "upAt s p")
        case up: True
        then have "chAt s (p + 2) \<in> {CHR 0x00, CHR ''/''} \<and> (p = 0 \<or> s ! (p - 1) = CHR ''/'')" by (simp add: upAt_def)
        then have "\<not> ldmudWalk s n" using Some True by (simp add: ldmudWalk.simps[of s n])
        then show ?thesis using up p(1) by blast
      next
        case up: False
        then have c: "\<not> (chAt s (p + 2) \<in> {CHR 0x00, CHR ''/''} \<and> (p = 0 \<or> s ! (p - 1) = CHR ''/''))"
          using True p by (auto simp: upAt_def)
        then have "ldmudWalk s n = ldmudWalk s (p + 2)"
          using Some True c by (simp add: ldmudWalk.simps[of s n]) blast
        then show ?thesis using 1(2)[OF Some _ c] True up split split2 by simp
      qed
    qed
  qed
qed

text \<open>The walk of FluffOS refuses every path with such a position in the part the system reads.\<close>

lemma find_sub_least:
  "j + 1 < length s \<Longrightarrow> s ! j = a \<Longrightarrow> s ! (j + 1) = b \<Longrightarrow> \<exists>i. find_sub [a, b] s = Some i \<and> i \<le> j"
proof (induction s arbitrary: j)
  case (Cons x xs)
  show ?case
  proof (cases j)
    case 0
    then show ?thesis using Cons.prems by (cases xs) auto
  next
    case (Suc k)
    then have "\<exists>i. find_sub [a, b] xs = Some i \<and> i \<le> k" using Cons.prems by (intro Cons.IH) auto
    then show ?thesis using Suc by auto
  qed
qed simp

lemma upAt_drop:
  assumes "upAt s p" "k \<le> p"
  shows "upAt (drop k s) (p - k)"
proof -
  obtain m where m: "p = k + m" using assms(2) le_Suc_ex by blast
  have c: "chAt (drop k s) i = chAt s (k + i)" for i by (auto simp: chAt_def)
  have prev: "m \<noteq> 0 \<longrightarrow> drop k s ! (m - 1) = s ! (k + m - 1)" using assms(1) m by (cases m) (auto simp: upAt_def)
  show ?thesis using assms(1) prev unfolding m by (cases m) (auto simp: upAt_def c add.assoc)
qed

lemma fluffosWalk_sound:
  "fluffosWalk s \<Longrightarrow> upAt s p \<Longrightarrow> CHR 0x00 \<in> set (take p s)"
proof (induction s arbitrary: p rule: fluffosWalk.induct)
  case (1 s)
  define s1 where "s1 = (if chAt s 0 = CHR ''.'' \<and> chAt s 1 = CHR ''.'' then tl s else s)"
  define d where "d = (if chAt s 0 = CHR ''.'' \<and> chAt s 1 = CHR ''.'' then 1 else 0 :: nat)"
  have s1: "s1 = drop d s" by (simp add: s1_def d_def drop_Suc)
  note up = "1.prems"(2)
  show ?case
  proof (cases "chAt s 0 = CHR ''.'' \<and> chAt s 1 = CHR 0x00")
    case True
    have "p \<noteq> 0" using up True by (cases p) (auto simp: upAt_def)
    moreover have "p \<noteq> 1" using up True by (auto simp: upAt_def chAt_def split: if_splits)
    ultimately have p: "2 \<le> p" by simp
    then have "1 < length s" "s ! 1 = CHR 0x00" using up True by (auto simp: upAt_def chAt_def split: if_splits)
    then show ?thesis using p by (auto simp: in_set_conv_nth intro!: exI[of _ 1])
  next
    case no0: False
    have nodot: "\<not> (chAt s 0 = CHR ''.'' \<and> chAt s1 1 \<in> {CHR ''/'', CHR 0x00})"
      and rest: "find_sub ''/.'' s1 = None \<or> (\<exists>i. find_sub ''/.'' s1 = Some i \<and> fluffosWalk (drop (i + 1) s1))"
      using "1.prems"(1) no0 unfolding fluffosWalk.simps[of s] Let_def s1_def[symmetric]
      by (auto split: if_splits option.splits)
    have p0: "p \<noteq> 0"
    proof
      assume "p = 0"
      then have "chAt s 0 = CHR ''.''" "chAt s 1 = CHR ''.''" "chAt s 2 \<in> {CHR 0x00, CHR ''/''}"
        using up by (auto simp: upAt_def chAt_def numeral_2_eq_2)
      moreover from this have "chAt s1 1 = chAt s 2" by (cases s) (auto simp: s1_def chAt_def numeral_2_eq_2)
      ultimately show False using nodot by auto
    qed
    then have sl: "s ! (p - 1) = CHR ''/''" "s ! p = CHR ''.''" "p < length s" using up by (auto simp: upAt_def)
    have dp: "d \<le> p - 1"
    proof (cases "d = 0")
      case False
      then have "s ! 0 = CHR ''.''" using sl(3) by (auto simp: d_def chAt_def split: if_splits)
      then have "p \<noteq> 1" using sl(1) by auto
      moreover have "d \<le> 1" by (simp add: d_def)
      ultimately show ?thesis using p0 by linarith
    qed simp
    have "p - 1 - d + 1 < length s1" using sl(3) dp p0 by (simp add: s1)
    then obtain i where i: "find_sub ''/.'' s1 = Some i" "i \<le> p - 1 - d"
      using find_sub_least[of "p - 1 - d" s1 "CHR ''/''" "CHR ''.''"] sl dp p0 by (auto simp: s1)
    have k: "i + 1 + d \<le> p" using i(2) dp p0 by simp
    have e: "drop (i + 1) s1 = drop (i + 1 + d) s" by (simp add: s1)
    have "fluffosWalk (drop (i + 1) s1)" using rest i(1) by simp
    then have "CHR 0x00 \<in> set (take (p - (i + 1 + d)) (drop (i + 1) s1))"
      using "1.IH"[OF refl s1_def, of i "p - (i + 1 + d)"] no0 nodot i(1) upAt_drop[OF up k] e by simp
    then have "CHR 0x00 \<in> set (take (p - (i + 1 + d)) (drop (i + 1 + d) s))" using e by simp
    then have "CHR 0x00 \<in> set (drop (i + 1 + d) (take p s))" by (simp only: drop_take)
    then show ?thesis by (rule in_set_dropD)
  qed
qed

text \<open>What both dialects refuse: a name \<^verbatim>\<open>..\<close> in the part the system reads.\<close>

lemma legal_no_dotdot:
  assumes "legalPathLdmud s \<or> legalPathFluffos s"
  shows "''..'' \<notin> set (pathNames (cString s))"
proof
  assume "''..'' \<in> set (pathNames (cString s))"
  then obtain p where p: "upAt s p" "CHR 0x00 \<notin> set (take p s)" using dotdot_upAt by blast
  show False
    using assms p fluffosWalk_sound[of s p] ldmudWalk_iff[of s 0]
    by (auto simp: legalPathLdmud_def legalPathFluffos_def split: if_splits)
qed

text \<open>Below the root, a path without the name \<^verbatim>\<open>..\<close> stays below it.\<close>

definition below :: "string \<Rightarrow> string \<Rightarrow> bool" where
  "below root path \<longleftrightarrow> path = root \<or> (\<exists>p. path = root @ CHR ''/'' # p \<and> ''..'' \<notin> set (pathNames (cString p)))"

lemma enterName_grows:
  "''..'' \<notin> set ns \<Longrightarrow> foldl enterName at ns = at @ filter (\<lambda>n. n \<noteq> [] \<and> n \<noteq> ''.'') ns"
  by (induction ns arbitrary: at) (auto simp: enterName_def)

lemma cString_append: "CHR 0x00 \<notin> set a \<Longrightarrow> cString (a @ b) = a @ cString b"
  unfolding cString_def by (induction a) auto

lemma cString_slash: "cString (CHR ''/'' # b) = CHR ''/'' # cString b"
  by (simp add: cString_def)

lemma cString_clean: "CHR 0x00 \<notin> set a \<Longrightarrow> cString a = a"
  using cString_append[of a "[]"] by (simp add: cString_def)

lemma below_within:
  assumes "CHR 0x00 \<notin> set root" "below root path"
  shows "within root path"
proof (cases "path = root")
  case False
  then obtain p where p: "path = root @ CHR ''/'' # p" "''..'' \<notin> set (pathNames (cString p))"
    using assms(2) by (auto simp: below_def)
  have "leadsTo path = foldl enterName (leadsTo root) (pathNames (cString p))"
    using assms(1) by (simp add: leadsTo_def p(1) cString_append cString_slash cString_clean pathNames_append)
  then show ?thesis using p(2) by (simp add: within_def enterName_grows)
qed (simp add: within_def)

lemma resolve_below:
  assumes "legalPathLdmud (checkPathOf p) \<or> legalPathFluffos (checkPathOf p)"
  shows "below (feRoot env) (resolveMudlibPath (feRoot env) p)"
    and "resolveMudlibPath (feRoot env) p = feRoot env @ CHR ''/'' # checkPathOf p"
proof -
  show *: "resolveMudlibPath (feRoot env) p = feRoot env @ CHR ''/'' # checkPathOf p"
    by (cases p) (auto simp: resolveMudlibPath_def addSlash_def checkPathOf_def)
  show "below (feRoot env) (resolveMudlibPath (feRoot env) p)" unfolding * using legal_no_dotdot[OF assms] by (auto simp: below_def)
qed

section \<open>The gated efuns stay below the root\<close>

text \<open>Two systems that do the same on the paths with a property.\<close>

definition osSame :: "(string \<Rightarrow> bool) \<Rightarrow> 'fs os \<Rightarrow> 'fs os \<Rightarrow> bool" where
  "osSame P a b \<longleftrightarrow>
     (\<forall>x. P x \<longrightarrow> osStat a x = osStat b x \<and> osRead a x = osRead b x \<and> osWrite a x = osWrite b x \<and> osSize a x = osSize b x \<and>
        osWriteAt a x = osWriteAt b x \<and> osList a x = osList b x \<and> osRemove a x = osRemove b x \<and> osMkdir a x = osMkdir b x \<and>
        osRmdir a x = osRmdir b x \<and> (\<forall>y. P y \<longrightarrow> osRename a x y = osRename b x y \<and> osLink a x y = osLink b x y))"

text \<open>Names in a directory have no slash and no null character, and the master object stays loaded while it answers.\<close>

definition listsNames :: "'fs os \<Rightarrow> bool" where
  "listsNames os \<longleftrightarrow> (\<forall>x fs ns. osList os x fs = Some ns \<longrightarrow> (\<forall>n \<in> set ns. CHR ''/'' \<notin> set n \<and> CHR 0x00 \<notin> set n))"

definition masterStays :: "'fs file_env \<Rightarrow> bool" where
  "masterStays env \<longleftrightarrow> (\<forall>f args w. vmMaster (fst w) \<noteq> None \<longrightarrow> vmMaster (fst (snd (feApplyMaster env f args w))) \<noteq> None)"

lemma osSameD:
  assumes "osSame P a b" "P x"
  shows "osStat a x = osStat b x" "osRead a x = osRead b x" "osWrite a x = osWrite b x" "osSize a x = osSize b x"
    "osWriteAt a x = osWriteAt b x" "osList a x = osList b x" "osRemove a x = osRemove b x" "osMkdir a x = osMkdir b x"
    "osRmdir a x = osRmdir b x" "P y \<Longrightarrow> osRename a x y = osRename b x y"
  using assms by (simp_all add: osSame_def)

abbreviation withOs :: "'fs file_env \<Rightarrow> 'fs os \<Rightarrow> 'fs file_env" where
  "withOs env os \<equiv> env\<lparr>feOs := os\<rparr>"

lemma withOs_fields:
  "feUidActive (withOs env os) = feUidActive env" "feApplyMaster (withOs env os) = feApplyMaster env"
  "feRoot (withOs env os) = feRoot env" "feGlob (withOs env os) = feGlob env" "feOs (withOs env os) = os"
  by simp_all

lemma gateArgs_withOs [simp]: "gateArgs (withOs env os) = gateArgs env"
  unfolding gateArgs_def withOs_fields by (rule refl)

lemma withOs_simps [simp]:
  "checkValidPath (withOs env os) = checkValidPath env"
  unfolding checkValidPath_def withOs_fields gateArgs_withOs by (rule refl)

lemma gate_legal:
  assumes "checkValidPath env raw wr func w = (Inr (Some p), w1)" "vmMaster (fst w) \<noteq> None"
  shows "legalPathLdmud (checkPathOf p) \<or> legalPathFluffos (checkPathOf p)"
  using assms by (auto simp: checkValidPath_def Let_def split: prod.splits sum.splits option.splits if_splits)

lemma gate_master:
  assumes "checkValidPath env raw wr func w = (r, w1)" "vmMaster (fst w) \<noteq> None" "masterStays env"
  shows "vmMaster (fst w1) \<noteq> None"
proof -
  have "w1 = snd (feApplyMaster env (if wr then ''valid_write'' else ''valid_read'') (gateArgs env (fst w) raw func) w)"
    using assms(1,2) by (auto simp: checkValidPath_def Let_def split: prod.splits sum.splits option.splits if_splits)
  then show ?thesis using assms(2,3) unfolding masterStays_def by blast
qed

lemma withGate_same:
  assumes "vmMaster (fst w) \<noteq> None" "masterStays env"
    and "\<forall>p w1. below (feRoot env) (feRoot env @ CHR ''/'' # p) \<longrightarrow> vmMaster (fst w1) \<noteq> None \<longrightarrow>
           go (feRoot env @ CHR ''/'' # p) w1 = go' (feRoot env @ CHR ''/'' # p) w1"
  shows "withGate (withOs env os) raw wr func denied go w = withGate env raw wr func denied go' w"
proof -
  obtain r w1 where c: "checkValidPath env raw wr func w = (r, w1)" by (metis surj_pair)
  show ?thesis
  proof (cases r)
    case (Inr q)
    show ?thesis
    proof (cases q)
      case (Some p)
      then have r: "below (feRoot env) (resolveMudlibPath (feRoot env) p)"
        "resolveMudlibPath (feRoot env) p = feRoot env @ CHR ''/'' # checkPathOf p"
        using gate_legal[of env raw wr func w p w1] c Inr assms(1) resolve_below by blast+
      have "go (resolveMudlibPath (feRoot env) p) w1 = go' (resolveMudlibPath (feRoot env) p) w1"
        using assms(3) gate_master[OF c assms(1,2)] r(1) unfolding r(2) by blast
      then show ?thesis using c Inr Some by (simp add: withGate_def)
    qed (simp add: withGate_def c Inr)
  qed (simp add: withGate_def c)
qed


text \<open>One case for each efun; a renaming passes the gate twice.\<close>

lemma gatedCall_same:
  assumes "vmMaster (fst w) \<noteq> None" "masterStays env" "\<forall>x. below (feRoot env) x \<longrightarrow> f os x = f (feOs env) x"
  shows "gatedCall func msg f (withOs env os) args w = gatedCall func msg f env args w"
proof (cases "strAt args 0")
  case (Some name)
  show ?thesis unfolding gatedCall_def withOs_fields Some option.case
    by (rule withGate_same[OF assms(1,2)]) (simp add: assms(3))
qed (simp add: gatedCall_def)

lemma efunRename_same:
  assumes "vmMaster (fst w) \<noteq> None" "masterStays env" "osSame (below (feRoot env)) os (feOs env)"
  shows "efunRename (withOs env os) args w = efunRename env args w"
proof -
  have "onFs failInt (osRename os x y) w1 = onFs failInt (osRename (feOs env) x y) w1"
    if "below (feRoot env) x" "below (feRoot env) y" for x y and w1 :: "vm \<times> 'a"
    using osSameD(10)[OF assms(3) that] by simp
  then have inner: "withGate (withOs env os) b True ''rename_to'' (fileInt 1) (\<lambda>y. onFs failInt (osRename os x y)) w1 =
      withGate env b True ''rename_to'' (fileInt 1) (\<lambda>y. onFs failInt (osRename (feOs env) x y)) w1"
    if "below (feRoot env) x" "vmMaster (fst w1) \<noteq> None" for x b w1
    using that by (intro withGate_same assms(2)) blast+
  show ?thesis
    unfolding efunRename_def withOs_fields
    by (intro option.case_cong prod.case_cong refl withGate_same assms(1,2) allI impI inner)
qed

lemma efunReadFile_same:
  assumes "vmMaster (fst w) \<noteq> None" "masterStays env" "osSame (below (feRoot env)) os (feOs env)"
  shows "efunReadFile (withOs env os) args w = efunReadFile env args w"
  unfolding efunReadFile_def withOs_fields Let_def
  by (intro option.case_cong prod.case_cong if_cong refl withGate_same assms(1,2) allI impI;
    simp only: osSameD[OF assms(3)] cong: option.case_cong if_cong prod.case_cong)

lemma efunWriteFile_same:
  assumes "vmMaster (fst w) \<noteq> None" "masterStays env" "osSame (below (feRoot env)) os (feOs env)"
  shows "efunWriteFile (withOs env os) args w = efunWriteFile env args w"
  unfolding efunWriteFile_def withOs_fields Let_def
  by (intro option.case_cong prod.case_cong if_cong refl withGate_same assms(1,2) allI impI;
    simp only: osSameD[OF assms(3)] cong: option.case_cong if_cong prod.case_cong)

lemma efunReadBytes_same:
  assumes "vmMaster (fst w) \<noteq> None" "masterStays env" "osSame (below (feRoot env)) os (feOs env)"
  shows "efunReadBytes (withOs env os) args w = efunReadBytes env args w"
  unfolding efunReadBytes_def withOs_fields Let_def
  by (intro option.case_cong prod.case_cong if_cong refl withGate_same assms(1,2) allI impI;
    simp only: osSameD[OF assms(3)] cong: option.case_cong if_cong prod.case_cong)

lemma efunWriteBytes_same:
  assumes "vmMaster (fst w) \<noteq> None" "masterStays env" "osSame (below (feRoot env)) os (feOs env)"
  shows "efunWriteBytes (withOs env os) args w = efunWriteBytes env args w"
  unfolding efunWriteBytes_def withOs_fields Let_def
  by (intro option.case_cong prod.case_cong if_cong refl withGate_same assms(1,2) allI impI;
    simp only: osSameD[OF assms(3)] cong: option.case_cong if_cong prod.case_cong)


text \<open>A listing uses the directory itself or the one above its last name, and the entries it finds there.\<close>

lemma cString_names:
  "pathNames (cString (p @ CHR ''/'' # q)) = (if CHR 0x00 \<in> set p then pathNames (cString p) else pathNames p @ pathNames (cString q))"
proof (cases "CHR 0x00 \<in> set p")
  case True
  then have "cString (p @ CHR ''/'' # q) = cString p" unfolding cString_def by (induction p) auto
  then show ?thesis using True by simp
qed (simp add: cString_append cString_slash pathNames_append)

lemma below_entry:
  assumes "below root path" "CHR ''/'' \<notin> set n" "CHR 0x00 \<notin> set n" "n \<noteq> ''..''"
  shows "below root (path @ ''/'' @ n)"
proof -
  have n: "pathNames n = [n]" using assms(2) by (induction n) auto
  show ?thesis
  proof (cases "path = root")
    case True
    then show ?thesis using assms(3,4) n by (auto simp: below_def cString_clean)
  next
    case False
    then obtain p where p: "path = root @ CHR ''/'' # p" "''..'' \<notin> set (pathNames (cString p))"
      using assms(1) by (auto simp: below_def)
    have "''..'' \<notin> set (pathNames (cString (p @ CHR ''/'' # n)))"
      using p(2) assms(3,4) n by (auto simp: cString_names cString_clean)
    then show ?thesis using p(1) by (auto simp: below_def)
  qed
qed

lemma last_name: "CHR ''/'' \<notin> set q \<Longrightarrow> rev (takeWhile (\<lambda>c. c \<noteq> CHR ''/'') (rev (a @ CHR ''/'' # q))) = q"
proof -
  assume "CHR ''/'' \<notin> set q"
  then have "takeWhile (\<lambda>c. c \<noteq> CHR ''/'') (rev q @ CHR ''/'' # rev a) = rev q" by (subst takeWhile_append2) auto
  then show ?thesis by simp
qed

lemma below_dir:
  assumes "below root (root @ CHR ''/'' # p)"
  defines "l \<equiv> rev (takeWhile (\<lambda>c. c \<noteq> CHR ''/'') (rev (root @ CHR ''/'' # p)))"
  shows "below root (take (length (root @ CHR ''/'' # p) - length l - 1) (root @ CHR ''/'' # p))"
proof (cases "CHR ''/'' \<in> set p")
  case False
  then have "l = p" unfolding l_def by (rule last_name)
  then show ?thesis by (simp add: below_def)
next
  case True
  then obtain a b where ab: "p = a @ CHR ''/'' # b" "CHR ''/'' \<notin> set b" by (meson split_list_last)
  then have "l = b" using last_name[of b "root @ CHR ''/'' # a"] by (simp add: l_def)
  moreover have "''..'' \<notin> set (pathNames (cString p))" using assms(1) by (auto simp: below_def)
  then have "''..'' \<notin> set (pathNames (cString a))"
    using ab(1) by (auto simp: cString_names cString_clean split: if_splits)
  ultimately show ?thesis using ab(1) by (simp add: below_def)
qed

lemma dirEntries_same:
  assumes "osSame (below root) os os'"
  shows "\<forall>e \<in> set es. below root (snd e) \<Longrightarrow> dirEntries st os es acc w = dirEntries st os' es acc w"
proof (induction es arbitrary: acc w)
  case (Cons e es)
  then have "dirEntry st os e w = dirEntry st os' e w" using osSameD(1)[OF assms, of "snd e"] by (simp add: dirEntry_def)
  then show ?case using Cons by (simp split: prod.split)
qed simp

lemma listed_below:
  "below root dir \<Longrightarrow> \<forall>n \<in> set names. CHR ''/'' \<notin> set n \<and> CHR 0x00 \<notin> set n \<Longrightarrow> \<forall>e \<in> set (listed want dir names). below root (snd e)"
  using below_entry[of root dir] by (auto simp: listed_def)


lemma listDir_same:
  assumes "osSame (below (feRoot env)) os (feOs env)" "listsNames (feOs env)" "below (feRoot env) (feRoot env @ CHR ''/'' # p)"
  shows "listDir (withOs env os) st (feRoot env @ CHR ''/'' # p) w = listDir env st (feRoot env @ CHR ''/'' # p) w"
proof -
  let ?path = "feRoot env @ CHR ''/'' # p"
  have one: "dirEntries st os [(n, ?path)] [] w = dirEntries st (feOs env) [(n, ?path)] [] w" for n
    by (rule dirEntries_same[OF assms(1)]) (simp add: assms(3))
  have many: "dirEntries st os (listed want dir names) [] w = dirEntries st (feOs env) (listed want dir names) [] w"
    if "osList (feOs env) dir (snd w) = Some names" "below (feRoot env) dir" for want dir names
  proof (rule dirEntries_same[OF assms(1)], rule listed_below[OF that(2)])
    show "\<forall>n \<in> set names. CHR ''/'' \<notin> set n \<and> CHR 0x00 \<notin> set n" using assms(2) that(1) unfolding listsNames_def by blast
  qed
  show ?thesis
    unfolding listDir_def Let_def withOs_fields osSameD(1,6)[OF assms(1,3)] osSameD(1,6)[OF assms(1) below_dir[OF assms(3)]]
    by (intro if_cong option.case_cong refl one many assms(3) below_dir)
qed

lemma efunGetDir_same:
  assumes "vmMaster (fst w) \<noteq> None" "masterStays env" "osSame (below (feRoot env)) os (feOs env)" "listsNames (feOs env)"
  shows "efunGetDir (withOs env os) args w = efunGetDir env args w"
proof -
  have *: "withGate (withOs env os) raw wr func denied (listDir (withOs env os) st) w = withGate env raw wr func denied (listDir env st) w"
    for raw wr func denied st
    by (rule withGate_same[OF assms(1,2)]) (simp add: listDir_same[OF assms(3,4)])
  show ?thesis unfolding efunGetDir_def * ..
qed

section \<open>Properties\<close>

definition gatedEfuns :: "('fs file_env \<Rightarrow> lvalue list \<Rightarrow> vm \<times> 'fs \<Rightarrow> 'fs file_answer) list" where
  "gatedEfuns = [efunReadFile, efunWriteFile, efunReadBytes, efunWriteBytes, efunRm, efunMkdir, efunRmdir, efunRename, efunGetDir]"

lemma osSame_below:
  "CHR 0x00 \<notin> set root \<Longrightarrow> osSame (within root) a b \<Longrightarrow> osSame (below root) a b"
  unfolding osSame_def using below_within by meson

text \<open>
  C38. The nine efuns \<^verbatim>\<open>read_file\<close>, \<^verbatim>\<open>write_file\<close>, \<^verbatim>\<open>read_bytes\<close>, \<^verbatim>\<open>write_bytes\<close>, \<^verbatim>\<open>rm\<close>, \<^verbatim>\<open>mkdir\<close>,
  \<^verbatim>\<open>rmdir\<close>, \<^verbatim>\<open>rename\<close> and \<^verbatim>\<open>get_dir\<close> are confined to the library: once a master object is loaded, whatever it answers, changing what the
  system does on paths that lead outside the root directory changes nothing in the result of such an efun.
\<close>

theorem gated_efuns_confined:
  assumes "ef \<in> set gatedEfuns"
    and "CHR 0x00 \<notin> set (feRoot env)" "vmMaster (fst w) \<noteq> None" "masterStays env" "listsNames (feOs env)"
    and "osSame (within (feRoot env)) os (feOs env)"
  shows "ef (withOs env os) args w = ef env args w"
proof -
  note same = osSame_below[OF assms(2,6)]
  have "gatedCall func msg f (withOs env os) args w = gatedCall func msg f env args w"
    if "f \<in> {osRemove, osMkdir, osRmdir}" for func msg f
    using that same by (intro gatedCall_same assms(3,4)) (auto simp: osSame_def)
  then have "efunRm (withOs env os) args w = efunRm env args w" "efunMkdir (withOs env os) args w = efunMkdir env args w"
    "efunRmdir (withOs env os) args w = efunRmdir env args w"
    by (simp_all add: efunRm_def efunMkdir_def efunRmdir_def)
  moreover note efunRename_same[OF assms(3,4) same] efunReadFile_same[OF assms(3,4) same] efunWriteFile_same[OF assms(3,4) same]
    efunReadBytes_same[OF assms(3,4) same] efunWriteBytes_same[OF assms(3,4) same] efunGetDir_same[OF assms(3,4) same assms(5)]
  ultimately show ?thesis using assms(1) by (auto simp: gatedEfuns_def)
qed

text \<open>A system with one file outside the root and one inside.\<close>

definition exampleOs :: "string \<Rightarrow> unit os" where
  "exampleOs secret =
     \<lparr>osStat = \<lambda>p fs. if p = ''/lib/a'' then Some \<lparr>fsIsDir = False, fsIsReg = True, fsSize = 2, fsMtime = 0\<rparr> else None,
      osRead = \<lambda>p fs. if p = ''/lib/a'' then Some ''hi'' else if p = ''/lib/../etc/passwd'' then Some secret else None,
      osWrite = \<lambda>p t s fs. (p = ''/lib/a'', True, ()), osSize = \<lambda>p fs. None, osWriteAt = \<lambda>p i s fs. (False, ()),
      osList = \<lambda>p fs. None, osRemove = \<lambda>p fs. (False, ()), osMkdir = \<lambda>p fs. (False, ()), osRmdir = \<lambda>p fs. (False, ()),
      osRename = \<lambda>a b fs. (False, ()), osLink = \<lambda>a b fs. (False, ())\<rparr>"

definition exampleFileEnv :: "string \<Rightarrow> unit file_env" where
  "exampleFileEnv secret =
     \<lparr>feOs = exampleOs secret, feRoot = ''/lib'', feUidActive = False, feApplyMaster = (\<lambda>f args w. (Inr vVoid, w)), feGlob = (\<lambda>p n. False)\<rparr>"

lemma passwd_outside: "\<not> within ''/lib'' ''/lib/../etc/passwd''"
  by code_simp

lemma exampleOs_same: "osSame (within ''/lib'') (exampleOs s) (exampleOs t)"
  using passwd_outside by (auto simp: osSame_def exampleOs_def)

theorem gated_efuns_confined_witness:
  "efunReadFile (withOs (exampleFileEnv ''x'') (exampleOs ''y'')) [vStr ''/a''] (exampleVm\<lparr>vmMaster := Some 0\<rparr>, ()) =
   efunReadFile (exampleFileEnv ''x'') [vStr ''/a''] (exampleVm\<lparr>vmMaster := Some 0\<rparr>, ())"
proof (rule gated_efuns_confined)
  show "osSame (within (feRoot (exampleFileEnv ''x''))) (exampleOs ''y'') (feOs (exampleFileEnv ''x''))"
    by (simp add: exampleFileEnv_def exampleOs_same)
qed (simp_all add: gatedEfuns_def exampleFileEnv_def exampleOs_def masterStays_def listsNames_def)

text \<open>A path argument that leads out of the root directory to any place: as many \<^verbatim>\<open>/..\<close> as the root is deep, and the place.\<close>

definition escapePath :: "string \<Rightarrow> string \<Rightarrow> string" where
  "escapePath root place = concat (replicate (length (leadsTo root)) ''/..'') @ CHR ''/'' # place"

lemma cString_ups: "cString (concat (replicate k ''/..'') @ s) = concat (replicate k ''/..'') @ cString s"
  by (rule cString_append) auto

lemma pathNames_ups: "pathNames (s @ concat (replicate k ''/..'') @ CHR ''/'' # t) = pathNames s @ replicate k ''..'' @ pathNames t"
proof (induction k arbitrary: s)
  case (Suc k)
  have e: "concat (replicate k ''/..'') @ CHR ''/'' # t = CHR ''/'' # (case k of 0 \<Rightarrow> t | Suc j \<Rightarrow> ''..'' @ concat (replicate j ''/..'') @ CHR ''/'' # t)"
    by (cases k) simp_all
  have "pathNames (s @ concat (replicate (Suc k) ''/..'') @ CHR ''/'' # t) = pathNames (s @ CHR ''/'' # ''..'' @ concat (replicate k ''/..'') @ CHR ''/'' # t)"
    by simp
  also have "\<dots> = pathNames s @ pathNames (''..'' @ concat (replicate k ''/..'') @ CHR ''/'' # t)" by (rule pathNames_append)
  also have "pathNames (''..'' @ concat (replicate k ''/..'') @ CHR ''/'' # t) = pathNames ''..'' @ replicate k ''..'' @ pathNames t"
    by (rule Suc.IH)
  finally show ?case by simp
qed (simp add: pathNames_append)

lemma ups_empty: "length at \<le> k \<Longrightarrow> foldl enterName at (replicate k ''..'') = []"
  by (induction k arbitrary: at) (auto simp: enterName_def)

lemma escape_leads:
  assumes "CHR 0x00 \<notin> set root"
  shows "leadsTo (resolveMudlibPath root (escapePath root place)) = leadsTo place"
proof -
  have slash: "addSlash (escapePath root place) = escapePath root place"
    by (cases "length (leadsTo root)") (simp_all add: addSlash_def escapePath_def)
  have c: "cString (root @ escapePath root place) = root @ concat (replicate (length (leadsTo root)) ''/..'') @ CHR ''/'' # cString place"
    using assms by (simp add: escapePath_def cString_append cString_ups cString_slash)
  have r: "foldl enterName [] (pathNames root) = leadsTo root" using assms by (simp add: leadsTo_def cString_clean)
  show ?thesis
    unfolding resolveMudlibPath_def slash leadsTo_def[of "root @ escapePath root place"] c pathNames_ups
    by (simp add: r ups_empty) (simp add: leadsTo_def)
qed

text \<open>
  The efun \<^verbatim>\<open>cp\<close> does not pass the gate. Whatever the root directory and the answers of the master object are, for every two places of the
  system there are path arguments that lead to them, and a copy between these arguments reads the one and writes the other.
\<close>

theorem cp_not_confined:
  assumes "CHR 0x00 \<notin> set (feRoot env)"
    and "osRead (feOs env) (resolveMudlibPath (feRoot env) (escapePath (feRoot env) src)) fs = Some contents" "contents \<noteq> []"
    and "osWrite (feOs env) (resolveMudlibPath (feRoot env) (escapePath (feRoot env) dst)) True contents fs = (True, True, fs')"
  shows "leadsTo (resolveMudlibPath (feRoot env) (escapePath (feRoot env) src)) = leadsTo src \<and>
    leadsTo (resolveMudlibPath (feRoot env) (escapePath (feRoot env) dst)) = leadsTo dst \<and>
    efunCp env [vStr (escapePath (feRoot env) src), vStr (escapePath (feRoot env) dst)] (vm, fs) = (Inr (vInt 1), (vm, fs'))"
  using assms by (simp add: escape_leads efunCp_def strAt_def vStr_def mkValue_def onFs_def fileInt_def)

text \<open>A system that holds texts by path, and a master object that refuses everything.\<close>

definition copyOs :: "(string \<Rightarrow> string option) os" where
  "copyOs =
     \<lparr>osStat = \<lambda>p fs. None, osRead = \<lambda>p fs. fs p, osWrite = \<lambda>p t s fs. (True, True, fs(p \<mapsto> s)), osSize = \<lambda>p fs. None,
      osWriteAt = \<lambda>p i s fs. (False, fs), osList = \<lambda>p fs. None, osRemove = \<lambda>p fs. (False, fs), osMkdir = \<lambda>p fs. (False, fs),
      osRmdir = \<lambda>p fs. (False, fs), osRename = \<lambda>a b fs. (False, fs), osLink = \<lambda>a b fs. (False, fs)\<rparr>"

definition copyEnv :: "(string \<Rightarrow> string option) file_env" where
  "copyEnv =
     \<lparr>feOs = copyOs, feRoot = ''/lib'', feUidActive = False, feApplyMaster = (\<lambda>f args w. (Inr (vInt 0), w)), feGlob = (\<lambda>p n. False)\<rparr>"

theorem cp_not_confined_witness:
  "efunCp copyEnv [vStr ''/../etc/passwd'', vStr ''/../etc/cron.d/x''] (exampleVm\<lparr>vmMaster := Some 0\<rparr>, [''/lib/../etc/passwd'' \<mapsto> ''root''])
   = (Inr (vInt 1), (exampleVm\<lparr>vmMaster := Some 0\<rparr>, [''/lib/../etc/passwd'' \<mapsto> ''root'', ''/lib/../etc/cron.d/x'' \<mapsto> ''root'']))
   \<and> leadsTo ''/lib/../etc/cron.d/x'' = leadsTo ''/etc/cron.d/x''"
proof -
  have e: "escapePath (feRoot copyEnv) ''etc/passwd'' = ''/../etc/passwd''" "escapePath (feRoot copyEnv) ''etc/cron.d/x'' = ''/../etc/cron.d/x''"
    unfolding copyEnv_def file_env.simps by code_simp+
  have r: "resolveMudlibPath (feRoot copyEnv) ''/../etc/passwd'' = ''/lib/../etc/passwd''"
    "resolveMudlibPath (feRoot copyEnv) ''/../etc/cron.d/x'' = ''/lib/../etc/cron.d/x''"
    by (simp_all add: copyEnv_def resolveMudlibPath_def addSlash_def)
  have "leadsTo ''etc/cron.d/x'' = leadsTo ''/etc/cron.d/x''" by code_simp
  then show ?thesis
    using cp_not_confined[of copyEnv "''etc/passwd''" "[''/lib/../etc/passwd'' \<mapsto> ''root'']" "''root''" "''etc/cron.d/x''"
        "[''/lib/../etc/passwd'' \<mapsto> ''root'', ''/lib/../etc/cron.d/x'' \<mapsto> ''root'']" "exampleVm\<lparr>vmMaster := Some 0\<rparr>", unfolded e r]
    by (simp add: copyEnv_def copyOs_def)
qed

text \<open>\<^verbatim>\<open>read_bytes\<close> adds the start and the length before it compares: a length near the largest integer overflows.\<close>

theorem read_bytes_overflow:
  assumes "vmMaster vm = None"
  shows "fst (efunReadBytes (exampleFileEnv ''x'') [vStr ''/a'', vInt 1, vInt 0x7FFFFFFFFFFFFFFF] (vm, ())) = Inl VUndef"
  using assms
  by (simp add: efunReadBytes_def strAt_def intAt_def withGate_def checkValidPath_def resolveMudlibPath_def addSlash_def
      exampleFileEnv_def exampleOs_def int64_range_def vStr_def vInt_def mkValue_def)

text \<open>Before a master object is loaded the gate lets every path through.\<close>

theorem gate_open_without_master:
  "vmMaster (fst w) = None \<Longrightarrow> checkValidPath env raw wr func w = (Inr (Some raw), w)"
  by (simp add: checkValidPath_def)

end
