(* ===== verification/Efun_Strings.thy ===== *)
theory Efun_Strings
  imports Efun_Base
begin

text \<open>
  The efuns of \<^verbatim>\<open>src/efun/EfunTable.cpp\<close> on strings and on the tables of mappings: taking strings apart and joining them, replacing,
  trimming, letter case, edit distance, the UTF-8 conversions and the lookup of paths. A string is the list of its bytes.
\<close>

section \<open>Taking apart and joining\<close>

text \<open>The separators that \<^verbatim>\<open>explode\<close> passes over at the start; \<open>None\<close> when nothing else is left.\<close>

function skipSeparators :: "string \<Rightarrow> string \<Rightarrow> string option" where
  "skipSeparators sep s =
     (if sep \<noteq> [] \<and> take (length sep) s = sep
      then (if length s \<le> length sep then None else skipSeparators sep (drop (length sep) s))
      else Some s)"
  by auto

termination
  by (relation "measure (\<lambda>(sep, s). length s)") (auto intro: diff_less)

declare skipSeparators.simps [simp del]

text \<open>The loop of both efuns; they differ in what they do with the rest behind the last separator.\<close>

function splitLoop :: "(string \<Rightarrow> string list) \<Rightarrow> string \<Rightarrow> string \<Rightarrow> string list" where
  "splitLoop final sep s =
     (case find_sub sep s of
        None \<Rightarrow> final s
      | Some p \<Rightarrow> if sep = [] then final s else take p s # splitLoop final sep (drop (p + length sep) s))"
  by auto

termination
proof (relation "measure (\<lambda>(final, sep, s). length s)", goal_cases)
  case (2 final sep s p)
  then show ?case using find_sub_Some_take[of sep s p] by (cases sep) auto
qed simp

declare splitLoop.simps [simp del]

definition explodeFields :: "string \<Rightarrow> string \<Rightarrow> string list" where
  "explodeFields s sep =
     (if sep = [] then [s]
      else (case skipSeparators sep s of
              None \<Rightarrow> []
            | Some r \<Rightarrow> splitLoop (\<lambda>rest. if rest = [] then [] else [rest]) sep r))"

definition explodeReversible :: "string \<Rightarrow> string \<Rightarrow> string list" where
  "explodeReversible s sep = splitLoop (\<lambda>rest. [rest]) sep s"

definition efunExplode :: efun where
  "efunExplode vm args =
     (case (strAt args 0, strAt args 1) of
        (Some s, Some sep) \<Rightarrow> efArray (map vStr (explodeFields s sep)) vm
      | _ \<Rightarrow> efThrow ''explode: expected (string, string) arguments'' vm)"

definition efunExplodeReversible :: efun where
  "efunExplodeReversible vm args =
     (case (strAt args 0, strAt args 1) of
        (Some s, Some sep) \<Rightarrow>
          if sep = [] then efThrow ''explode_reversible: delimiter must be non-empty'' vm
          else efArray (map vStr (explodeReversible s sep)) vm
      | _ \<Rightarrow> efThrow ''explode_reversible: expected (string, string) arguments'' vm)"

text \<open>Joining takes the strings of the array only.\<close>

fun joinStrings :: "string \<Rightarrow> bool \<Rightarrow> string \<Rightarrow> lvalue list \<Rightarrow> string" where
  "joinStrings sep any result [] = result"
| "joinStrings sep any result (v # vs) =
     (case vdata v of
        VStr s \<Rightarrow> joinStrings sep True ((if any then result @ sep else result) @ s) vs
      | _ \<Rightarrow> joinStrings sep any result vs)"

text \<open>Folding with a function reads the array again at each step; the function may have changed it.\<close>

primrec implodeFold ::
  "(ref \<Rightarrow> lvalue list \<Rightarrow> vm \<Rightarrow> vm_result \<times> vm) \<Rightarrow> ref option \<Rightarrow> ref option \<Rightarrow> nat \<Rightarrow> nat \<Rightarrow> lvalue \<Rightarrow> vm \<Rightarrow> vm_result \<times> vm" where
  "implodeFold call cl arr n 0 acc vm = efValue acc vm"
| "implodeFold call cl arr n (Suc k) acc vm =
     (case cl of
        None \<Rightarrow> efValue (vInt 0) vm
      | Some c \<Rightarrow>
          let xs = arrItems vm arr; i = n - Suc k in
          if length xs \<le> i then (Inl VUndef, vm)
          else (case call c [acc, xs ! i] vm of
                  (Inl e, vm1) \<Rightarrow> (Inl e, vm1)
                | (Inr v, vm1) \<Rightarrow> implodeFold call cl arr n k v vm1))"

definition efunImplode :: "(ref \<Rightarrow> lvalue list \<Rightarrow> vm \<Rightarrow> vm_result \<times> vm) \<Rightarrow> efun" where
  "efunImplode call vm args =
     (case arrAt args 0 of
        None \<Rightarrow> efThrow ''implode: expected (array, string | function[, start]) arguments'' vm
      | Some arr \<Rightarrow>
          if length args < 2 \<or> 3 < length args then efThrow ''implode: expected (array, string | function[, start]) arguments'' vm
          else
            (case (strAt args 1, closureAt args 1) of
               (Some sep, _) \<Rightarrow>
                 if length args = 3 then efThrow ''implode: third argument is illegal with implode(array, string)'' vm
                 else efValue (vStr (joinStrings sep False [] (arrItems vm arr))) vm
             | (None, Some cl) \<Rightarrow>
                 let xs = arrItems vm arr; n = length xs in
                 if length args = 3 then implodeFold call cl arr n n (args ! 2) vm
                 else if n = 0 then efValue (vInt 0) vm
                 else implodeFold call cl arr n (n - 1) (xs ! 0) vm
             | (None, None) \<Rightarrow> efThrow ''implode: second argument must be a string or a function'' vm))"

section \<open>Replacing, trimming, letter case\<close>

text \<open>\<open>cur\<close> counts the matches handled so far, \<open>last = 0\<close> is no upper bound.\<close>

function replaceLoop :: "string \<Rightarrow> string \<Rightarrow> int \<Rightarrow> int \<Rightarrow> int \<Rightarrow> string \<Rightarrow> string" where
  "replaceLoop pat rep lowest highest cur s =
     (case find_sub pat s of
        None \<Rightarrow> s
      | Some p \<Rightarrow>
          if pat = [] then s
          else
            let cur1 = cur + 1; rest = drop (p + length pat) s in
            take p s @ (if lowest \<le> cur1 \<and> (highest = 0 \<or> cur1 \<le> highest) then rep else pat) @
            (if highest \<noteq> 0 \<and> cur1 = highest then rest else replaceLoop pat rep lowest highest cur1 rest))"
  by auto

termination
proof (relation "measure (\<lambda>(pat, rep, lowest, highest, cur, s). length s)", goal_cases)
  case (2 pat rep lowest highest cur s p)
  then show ?case using find_sub_Some_take[of pat s p] by (cases pat) auto
qed simp

declare replaceLoop.simps [simp del]

definition replaceString :: "string \<Rightarrow> string \<Rightarrow> string \<Rightarrow> int \<Rightarrow> int \<Rightarrow> string" where
  "replaceString s pat rep lowest highest =
     (if highest \<noteq> 0 \<and> highest < lowest then s else if pat = [] then s else replaceLoop pat rep lowest highest 0 s)"

definition efunReplaceString :: efun where
  "efunReplaceString vm args =
     (if length args < 3 \<or> 5 < length args
      then efThrow ''replace_string: expected (string str, string pattern, string replacement [, int first [, int last]])'' vm
      else
        (case (strAt args 0, strAt args 1, strAt args 2) of
           (Some s, Some pat, Some rep) \<Rightarrow>
             if length args = 3 then efValue (vStr (replaceString s pat rep 0 0)) vm
             else
               (case intAt args 3 of
                  None \<Rightarrow> efThrow ''Bad argument 4 to replace_string() (expected int)'' vm
                | Some a \<Rightarrow>
                    if length args = 4 then efValue (vStr (replaceString s pat rep 0 a)) vm
                    else (case intAt args 4 of
                            None \<Rightarrow> efThrow ''Bad argument 5 to replace_string() (expected int)'' vm
                          | Some b \<Rightarrow> efValue (vStr (replaceString s pat rep a b)) vm))
         | _ \<Rightarrow> efThrow ''replace_string: expected (string str, string pattern, string replacement [, int first [, int last]])'' vm))"

definition stripSet :: "bool \<Rightarrow> bool \<Rightarrow> string \<Rightarrow> string \<Rightarrow> string" where
  "stripSet fromStart fromEnd charset s =
     (let s1 = (if fromStart then dropWhile (\<lambda>c. c \<in> set charset) s else s) in
      if fromEnd then rev (dropWhile (\<lambda>c. c \<in> set charset) (rev s1)) else s1)"

definition defaultTrimSet :: string where
  "defaultTrimSet = [CHR 0x09, CHR 0x0A, CHR 0x0B, CHR 0x0C, CHR 0x0D, CHR 0x20]"

definition trimEfun :: "bool \<Rightarrow> bool \<Rightarrow> efun" where
  "trimEfun fromStart fromEnd vm args =
     (case strAt args 0 of
        None \<Rightarrow> efThrow ''trim: expected a string argument'' vm
      | Some s \<Rightarrow>
          let given = (case strAt args 1 of None \<Rightarrow> [] | Some cs \<Rightarrow> cs) in
          efValue (vStr (stripSet fromStart fromEnd (if given = [] then defaultTrimSet else given) s)) vm)"

definition lowerChar :: "char \<Rightarrow> char" where
  "lowerChar c = (if 65 \<le> (of_char c :: nat) \<and> (of_char c :: nat) \<le> 90 then char_of ((of_char c :: nat) + 32) else c)"

definition upperChar :: "char \<Rightarrow> char" where
  "upperChar c = (if 97 \<le> (of_char c :: nat) \<and> (of_char c :: nat) \<le> 122 then char_of ((of_char c :: nat) - 32) else c)"

definition efunLowerCase :: efun where
  "efunLowerCase vm args =
     (case strAt args 0 of None \<Rightarrow> efThrow ''lower_case: expected a string argument'' vm | Some s \<Rightarrow> efValue (vStr (map lowerChar s)) vm)"

definition efunUpperCase :: efun where
  "efunUpperCase vm args =
     (case strAt args 0 of None \<Rightarrow> efThrow ''upper_case: expected a string argument'' vm | Some s \<Rightarrow> efValue (vStr (map upperChar s)) vm)"

text \<open>
  A result above the largest size of a string: \<^verbatim>\<open>reserve\<close> or, when the product of the lengths wraps, \<^verbatim>\<open>+=\<close> throws \<^verbatim>\<open>std::length_error\<close>, which is
  no exception of the driver.
\<close>

definition efunRepeatString :: efun where
  "efunRepeatString vm args =
     (case (strAt args 0, intAt args 1) of
        (Some s, Some n) \<Rightarrow>
          if n \<le> 0 \<or> s = [] then efValue (vStr []) vm
          else if 2 ^ 63 - 1 < int (length s) * n then (Inl VUndef, vm)
          else efValue (vStr (concat (replicate (nat n) s))) vm
      | _ \<Rightarrow> efThrow ''repeat_string: expected (string, int) arguments'' vm)"

section \<open>Edit distance\<close>

text \<open>
  One row of costs. \<open>levCells\<close> goes along the longer string with the old costs on the diagonal and above and the new cost on the left.
  The costs are of type \<^verbatim>\<open>int\<close> in the code and at most the length of the longer string.
\<close>

fun levCells :: "char \<Rightarrow> string \<Rightarrow> nat list \<Rightarrow> nat \<Rightarrow> nat \<Rightarrow> nat list" where
  "levCells x (y # ys) (up # row) diag left =
     (let cost = min (left + 1) (min (up + 1) (diag + (if x = y then 0 else 1))) in cost # levCells x ys row up cost)"
| "levCells x ys row diag left = []"

primrec levRows :: "string \<Rightarrow> nat \<Rightarrow> string \<Rightarrow> nat list \<Rightarrow> nat list" where
  "levRows [] i ys row = row"
| "levRows (x # xs) i ys row = levRows xs (Suc i) ys (Suc i # levCells x ys (tl row) (hd row) (Suc i))"

definition stringDifference :: "string \<Rightarrow> string \<Rightarrow> nat" where
  "stringDifference s t =
     (let a = takeWhile (\<lambda>c. c \<noteq> CHR 0x00) s; b = takeWhile (\<lambda>c. c \<noteq> CHR 0x00) t;
          xs = (if length a \<le> length b then a else b); ys = (if length a \<le> length b then b else a) in
      if a = b then 0 else last (levRows xs 0 ys [0..<length ys + 1]))"

definition efunStringDifference :: efun where
  "efunStringDifference vm args =
     (case (strAt args 0, strAt args 1) of
        (Some s, Some t) \<Rightarrow> efValue (vInt (of_nat (stringDifference s t))) vm
      | _ \<Rightarrow> efThrow ''string_difference: expected (string, string)'' vm)"

section \<open>UTF-8\<close>

unbundle bit_operations_syntax

definition badScalar :: "int \<Rightarrow> bool" where
  "badScalar cp \<longleftrightarrow> 0x10FFFF < cp \<or> (0xD800 \<le> cp \<and> cp \<le> 0xDFFF)"

definition byteChar :: "int \<Rightarrow> char" where
  "byteChar b = char_of b"

definition encodeUtf8 :: "int \<Rightarrow> string" where
  "encodeUtf8 cp =
     (if cp < 0 \<or> badScalar cp then []
      else if cp < 0x80 then [byteChar cp]
      else if cp < 0x800 then [byteChar (0xC0 OR drop_bit 6 cp), byteChar (0x80 OR (cp AND 0x3F))]
      else if cp < 0x10000 then
        [byteChar (0xE0 OR drop_bit 12 cp), byteChar (0x80 OR (drop_bit 6 cp AND 0x3F)), byteChar (0x80 OR (cp AND 0x3F))]
      else
        [byteChar (0xF0 OR drop_bit 18 cp), byteChar (0x80 OR (drop_bit 12 cp AND 0x3F)), byteChar (0x80 OR (drop_bit 6 cp AND 0x3F)),
         byteChar (0x80 OR (cp AND 0x3F))])"

text \<open>The value and the number of further bytes that a first byte announces.\<close>

definition leadByte :: "int \<Rightarrow> (int \<times> nat) option" where
  "leadByte c =
     (if c < 0x80 then Some (c, 0)
      else if c AND 0xE0 = 0xC0 then Some (c AND 0x1F, 1)
      else if c AND 0xF0 = 0xE0 then Some (c AND 0x0F, 2)
      else if c AND 0xF8 = 0xF0 then Some (c AND 0x07, 3)
      else None)"

primrec moreBytes :: "int \<Rightarrow> string \<Rightarrow> int option" where
  "moreBytes cp [] = Some cp"
| "moreBytes cp (c # cs) =
     (let cc = (of_char c :: int) in if cc AND 0xC0 \<noteq> 0x80 then None else moreBytes (push_bit 6 cp OR (cc AND 0x3F)) cs)"

definition overlong :: "nat \<Rightarrow> int \<Rightarrow> bool" where
  "overlong extra cp \<longleftrightarrow> (extra = 1 \<and> cp < 0x80) \<or> (extra = 2 \<and> cp < 0x800) \<or> (extra = 3 \<and> cp < 0x10000)"

fun decodeUtf8 :: "string \<Rightarrow> int list" where
  "decodeUtf8 [] = []"
| "decodeUtf8 (c # cs) =
     (case leadByte (of_char c) of
        None \<Rightarrow> decodeUtf8 cs
      | Some (cp0, extra) \<Rightarrow>
          if length cs < extra then decodeUtf8 cs
          else (case moreBytes cp0 (take extra cs) of
                  None \<Rightarrow> decodeUtf8 cs
                | Some cp \<Rightarrow>
                    if overlong extra cp \<or> badScalar cp then decodeUtf8 (drop extra cs)
                    else cp # decodeUtf8 (drop extra cs)))"

definition efunStrToArr :: efun where
  "efunStrToArr vm args =
     (case strAt args 0 of
        None \<Rightarrow> efThrow ''str_to_arr: expected a string argument'' vm
      | Some s \<Rightarrow> efArray (map (\<lambda>cp. vInt (word_of_int cp)) (decodeUtf8 s @ [0])) vm)"

text \<open>A float is cast to an integer, which is undefined out of range.\<close>

fun encodeItems :: "lvalue list \<Rightarrow> vm_exn + string" where
  "encodeItems [] = Inr []"
| "encodeItems (v # vs) =
     (let number = (case vdata v of
                      VInt n \<Rightarrow> Inr (sint n)
                    | VFloat d \<Rightarrow> (case dbl_to_int d of None \<Rightarrow> Inl VUndef | Some i \<Rightarrow> Inr i)
                    | _ \<Rightarrow> Inl (VExn (LpcRuntimeError ''arr_to_str: array element is not an integer'')))
      in (case number of
            Inl e \<Rightarrow> Inl e
          | Inr cp \<Rightarrow> if cp = 0 then Inr [] else map_sum id (\<lambda>s. encodeUtf8 cp @ s) (encodeItems vs)))"

definition efunArrToStr :: efun where
  "efunArrToStr vm args =
     (case arrAt args 0 of
        None \<Rightarrow> efThrow ''arr_to_str: expected an int array argument'' vm
      | Some arr \<Rightarrow> (case encodeItems (arrItems vm arr) of Inl e \<Rightarrow> (Inl e, vm) | Inr s \<Rightarrow> efValue (vStr s) vm))"

section \<open>Mappings\<close>

definition mapOf :: "vm \<Rightarrow> ref option \<Rightarrow> mapping_rec option" where
  "mapOf vm m = (case m of None \<Rightarrow> None | Some r \<Rightarrow> Some (case vmMaps vm r of None \<Rightarrow> emptyMapping | Some t \<Rightarrow> t))"

definition entriesOf :: "vm \<Rightarrow> ref option \<Rightarrow> (lvalue \<times> lvalue) list" where
  "entriesOf vm m = (case mapOf vm m of None \<Rightarrow> [] | Some t \<Rightarrow> entries t)"

definition efunKeys :: "string \<Rightarrow> efun" where
  "efunKeys msg vm args =
     (case mapAt args 0 of None \<Rightarrow> efThrow msg vm | Some m \<Rightarrow> efArray (map fst (entriesOf vm m)) vm)"

definition efunValues :: efun where
  "efunValues vm args =
     (case mapAt args 0 of
        None \<Rightarrow> efThrow ''values: expected a mapping argument'' vm
      | Some m \<Rightarrow> efArray (map snd (entriesOf vm m)) vm)"

definition efunMValues :: efun where
  "efunMValues vm args =
     (case mapAt args 0 of
        None \<Rightarrow> efThrow ''m_values: expected a mapping argument'' vm
      | Some m \<Rightarrow>
          if 1 < length args \<and> intAt args 1 = None then efThrow ''m_values: width column argument must be an int'' vm
          else
            let col = (case intAt args 1 of None \<Rightarrow> 0 | Some c \<Rightarrow> c); w = (case mapOf vm m of None \<Rightarrow> 1 | Some t \<Rightarrow> width t) in
            if col < 0 \<or> w \<le> col
            then efThrow (''Illegal index '' @ to_string col @ '' to m_values(): should be in 0..'' @ to_string (w - 1) @ ''.'') vm
            else (case mapOf vm m of
                    None \<Rightarrow> efArray [] vm
                  | Some t \<Rightarrow>
                      let cells = map (\<lambda>i. getColumn t i col) [0..<length (entries t)] in
                      if None \<in> set cells then (Inl VUndef, vm) else efArray (map the cells) vm))"

text \<open>The loop of \<^verbatim>\<open>map_delete\<close>, at entry \<open>i\<close>.\<close>

function mapDelete :: "lvalue \<Rightarrow> nat \<Rightarrow> mapping_rec \<Rightarrow> mapping_rec option" where
  "mapDelete key i m =
     (if i < length (entries m)
      then if valuesEqual (fst (entries m ! i)) key
           then (case eraseAt m i of None \<Rightarrow> None | Some m1 \<Rightarrow> mapDelete key i m1)
           else mapDelete key (Suc i) m
      else Some m)"
  by auto

termination
  by (relation "measure (\<lambda>(key, i, m). length (entries m) - i)") (auto simp: eraseAt_def Let_def split: if_splits)

declare mapDelete.simps [simp del]

definition efunMapDelete :: efun where
  "efunMapDelete vm args =
     (case mapAt args 0 of
        None \<Rightarrow> efThrow ''map_delete: expected a mapping argument'' vm
      | Some m \<Rightarrow>
          if length args < 2 then efThrow ''map_delete: expected a key argument'' vm
          else (case (m, mapOf vm m) of
                  (Some r, Some t) \<Rightarrow>
                    (case mapDelete (args ! 1) 0 t of
                       None \<Rightarrow> (Inl VUndef, vm)
                     | Some t1 \<Rightarrow> efValue vVoid (vm\<lparr>vmMaps := (vmMaps vm)(r \<mapsto> t1)\<rparr>))
                | _ \<Rightarrow> efValue vVoid vm))"

definition behindName :: "string \<Rightarrow> string" where
  "behindName s = dropWhile (\<lambda>c. c = CHR ''/'') (dropWhile (\<lambda>c. c \<noteq> CHR ''/'') s)"

definition builtWith :: "string \<Rightarrow> string \<Rightarrow> string" where
  "builtWith built s =
     (let built1 = built @ takeWhile (\<lambda>c. c \<noteq> CHR ''/'') s in
      if CHR ''/'' \<in> set s \<and> (behindName s \<noteq> [] \<or> built1 = []) then built1 @ ''/'' else built1)"

lemma skipName_shorter:
  assumes "s \<noteq> []"
  shows "length (behindName s) < length s"
proof (cases s)
  case (Cons c cs)
  have "length (dropWhile P (dropWhile Q cs)) \<le> length cs" for P Q :: "char \<Rightarrow> bool"
    using le_trans[OF length_dropWhile_le length_dropWhile_le] .
  moreover have "length (dropWhile P cs) \<le> length cs" for P :: "char \<Rightarrow> bool" by (rule length_dropWhile_le)
  ultimately show ?thesis using Cons by (auto simp: behindName_def less_Suc_eq_le)
qed (use assms in simp)

text \<open>\<open>matchWalk\<close> is the outer loop of \<^verbatim>\<open>match_path\<close>: the rest of the path, the pre built so far and the last value found.\<close>

definition lookupPath :: "(lvalue \<times> lvalue) list \<Rightarrow> string \<Rightarrow> lvalue option" where
  "lookupPath es pre = map_option snd (find (\<lambda>e. vdata (fst e) = VStr pre) es)"

function matchWalk :: "(lvalue \<times> lvalue) list \<Rightarrow> string \<Rightarrow> string \<Rightarrow> lvalue \<Rightarrow> lvalue" where
  "matchWalk es s built v =
     (if s = [] then v
      else matchWalk es (behindName s) (builtWith built s) (case lookupPath es (builtWith built s) of None \<Rightarrow> v | Some x \<Rightarrow> x))"
  by auto

termination
  by (relation "measure (\<lambda>(es, s, built, v). length s)") (auto simp: skipName_shorter)

declare matchWalk.simps [simp del]

definition efunMatchPath :: efun where
  "efunMatchPath vm args =
     (case (mapAt args 0, strAt args 1) of
        (Some m, Some s) \<Rightarrow> efValue (matchWalk (entriesOf vm m) s [] (vInt 0)) vm
      | _ \<Rightarrow> efThrow ''match_path: expected (mapping, string)'' vm)"

section \<open>Splitting and joining\<close>

text \<open>Joining fields with a separator.\<close>

primrec joined :: "string \<Rightarrow> string list \<Rightarrow> string" where
  "joined sep [] = []"
| "joined sep (f # fs) = (if fs = [] then f else f @ sep @ joined sep fs)"

lemma joinStrings_result: "joinStrings sep b r vs = r @ joinStrings sep b [] vs"
proof (induction vs arbitrary: b r)
  case (Cons v vs)
  show ?case
  proof (cases "\<exists>t. vdata v = VStr t")
    case True
    then obtain t where t: "vdata v = VStr t" by blast
    show ?thesis
      using Cons.IH[of True "(if b then r @ sep else r) @ t"] Cons.IH[of True "(if b then sep else []) @ t"] by (cases b) (simp_all add: t)
  next
    case False
    then show ?thesis using Cons.IH[of b r] by (cases "vdata v") simp_all
  qed
qed simp

lemma vdata_vStr [simp]: "vdata (vStr t) = VStr t"
  by (simp add: vStr_def mkValue_def)

lemma joinStrings_joined:
  "joinStrings sep True [] (map vStr fs) = (if fs = [] then [] else sep @ joined sep fs)"
  "joinStrings sep False [] (map vStr fs) = joined sep fs"
proof -
  show *: "joinStrings sep True [] (map vStr fs) = (if fs = [] then [] else sep @ joined sep fs)" for fs
  proof (induction fs)
    case (Cons f fs)
    then show ?case using joinStrings_result[of sep True "sep @ f" "map vStr fs"] by simp
  qed simp
  show "joinStrings sep False [] (map vStr fs) = joined sep fs"
    using *[of "tl fs"] joinStrings_result[of sep True "hd fs" "map vStr (tl fs)"] by (cases fs) simp_all
qed

lemma splitLoop_ne: "(\<And>r. final r \<noteq> []) \<Longrightarrow> splitLoop final sep s \<noteq> []"
  by (subst splitLoop.simps) (auto split: option.split)

lemma joined_split: "joined sep (splitLoop (\<lambda>r. [r]) sep s) = s"
proof (induction "\<lambda>r :: string. [r]" sep s rule: splitLoop.induct)
  case (1 sep s)
  show ?case
  proof (cases "find_sub sep s")
    case (Some p)
    show ?thesis
    proof (cases "sep = []")
      case False
      have "take p s @ sep @ drop (p + length sep) s = s"
        using find_sub_Some_take[OF Some] by (metis append_take_drop_id drop_drop add.commute)
      moreover have "splitLoop (\<lambda>r. [r]) sep t \<noteq> []" for t by (rule splitLoop_ne) simp
      ultimately show ?thesis using 1[OF Some False] Some False by (simp add: splitLoop.simps[of _ sep s])
    next
      case True
      then show ?thesis using Some splitLoop.simps[of "\<lambda>r. [r]" sep s] by simp
    qed
  qed (simp add: splitLoop.simps[of _ sep s])
qed

text \<open>
  Joining undoes \<^verbatim>\<open>explode_reversible\<close>: for a separator that is not empty, \<^verbatim>\<open>implode\<close> of the array it returns gives the string back, also
  for separators at either end, next to each other or overlapping.
\<close>

theorem explode_implode_roundtrip:
  assumes "sep \<noteq> []"
  shows "\<exists>arr vm1. efunExplodeReversible vm [vStr s, vStr sep] = (Inr (mkValue (VArr (Some arr))), vm1) \<and>
           efunImplode call vm1 [mkValue (VArr (Some arr)), vStr sep] = (Inr (vStr s), vm1)"
proof -
  let ?vm1 = "snd (newArray (map vStr (explodeReversible s sep)) vm)"
  have "efunExplodeReversible vm [vStr s, vStr sep] = (Inr (mkValue (VArr (Some (vmNext vm)))), ?vm1)"
    using assms by (simp add: efunExplodeReversible_def)
  moreover have "efunImplode call ?vm1 [mkValue (VArr (Some (vmNext vm))), vStr sep] = (Inr (vStr s), ?vm1)"
    by (simp add: efunImplode_def joinStrings_joined explodeReversible_def joined_split efValue_def)
  ultimately show ?thesis by blast
qed

theorem explode_implode_roundtrip_witness:
  "\<exists>arr vm1. efunExplodeReversible vm [vStr '',,a,'', vStr '',''] = (Inr (mkValue (VArr (Some arr))), vm1) \<and>
     efunImplode call vm1 [mkValue (VArr (Some arr)), vStr '',''] = (Inr (vStr '',,a,''), vm1)"
  by (rule explode_implode_roundtrip) simp

text \<open>
  What \<^verbatim>\<open>explode\<close> leaves out of the fields of \<^verbatim>\<open>explode_reversible\<close>: the empty ones at the start and one empty one at the end.
\<close>

definition dropLastEmpty :: "string list \<Rightarrow> string list" where
  "dropLastEmpty fs = (if fs \<noteq> [] \<and> last fs = [] then butlast fs else fs)"

lemma splitLoop_plain: "splitLoop (\<lambda>r. if r = [] then [] else [r]) sep s = dropLastEmpty (splitLoop (\<lambda>r. [r]) sep s)"
proof (induction "\<lambda>r :: string. [r]" sep s rule: splitLoop.induct)
  case (1 sep s)
  show ?case
  proof (cases "find_sub sep s = None \<or> sep = []")
    case True
    then show ?thesis by (auto simp: splitLoop.simps[of _ sep s] dropLastEmpty_def split: option.split)
  next
    case False
    then obtain p where p: "find_sub sep s = Some p" "sep \<noteq> []" by auto
    have "splitLoop (\<lambda>r. [r]) sep t \<noteq> []" for t by (rule splitLoop_ne) simp
    then show ?thesis using 1[OF p] p by (simp add: splitLoop.simps[of _ sep s] dropLastEmpty_def)
  qed
qed

lemma find_sub_start: "sep \<noteq> [] \<Longrightarrow> find_sub sep s = Some 0 \<longleftrightarrow> take (length sep) s = sep"
  by (cases s) auto

theorem explode_drops_empty_fields:
  assumes "sep \<noteq> []"
  shows "explodeFields s sep = dropLastEmpty (dropWhile (\<lambda>f. f = []) (explodeReversible s sep))"
proof -
  have "(case skipSeparators sep s of None \<Rightarrow> [] | Some r \<Rightarrow> splitLoop (\<lambda>r. if r = [] then [] else [r]) sep r) =
      dropLastEmpty (dropWhile (\<lambda>f. f = []) (splitLoop (\<lambda>r. [r]) sep s))"
    using assms
  proof (induction sep s rule: skipSeparators.induct)
    case (1 sep s)
    show ?case
    proof (cases "take (length sep) s = sep")
      case start: True
      then have f: "find_sub sep s = Some 0" using 1(2) find_sub_start by blast
      have split: "splitLoop (\<lambda>r. [r]) sep s = [] # splitLoop (\<lambda>r. [r]) sep (drop (length sep) s)"
        using f 1(2) by (simp add: splitLoop.simps[of _ sep s])
      show ?thesis
      proof (cases "length s \<le> length sep")
        case True
        have "splitLoop (\<lambda>r. [r]) sep [] = [[]]" using 1(2) splitLoop.simps[of "\<lambda>r. [r]" sep "[]"] by simp
        moreover have "skipSeparators sep s = None" using True start 1(2) by (subst skipSeparators.simps) simp
        ultimately show ?thesis using True split by (simp add: dropLastEmpty_def)
      next
        case False
        then show ?thesis using 1(1)[OF _ False] start 1(2) split by (simp add: skipSeparators.simps[of sep s])
      qed
    next
      case False
      then have f: "find_sub sep s \<noteq> Some 0" using 1(2) find_sub_start by blast
      have skip: "skipSeparators sep s = Some s" using False by (simp add: skipSeparators.simps[of sep s])
      have "dropWhile (\<lambda>f. f = []) (splitLoop (\<lambda>r. [r]) sep s) = splitLoop (\<lambda>r. [r]) sep s \<or> (s = [] \<and> splitLoop (\<lambda>r. [r]) sep s = [[]])"
      proof (cases "find_sub sep s")
        case None
        then show ?thesis using splitLoop.simps[of "\<lambda>r. [r]" sep s] by (cases s) auto
      next
        case (Some p)
        then have "take p s \<noteq> []" using f find_sub_Some_take[OF Some] 1(2) by (cases s) auto
        then show ?thesis using Some 1(2) splitLoop.simps[of "\<lambda>r. [r]" sep s] by simp
      qed
      then show ?thesis
      proof
        assume d: "dropWhile (\<lambda>f. f = []) (splitLoop (\<lambda>r. [r]) sep s) = splitLoop (\<lambda>r. [r]) sep s"
        show ?thesis unfolding skip option.case d by (rule splitLoop_plain)
      next
        assume "s = [] \<and> splitLoop (\<lambda>r. [r]) sep s = [[]]"
        then have e: "splitLoop (\<lambda>r. [r]) sep s = [[]]" by blast
        show ?thesis unfolding skip option.case splitLoop_plain e by (simp add: dropLastEmpty_def)
      qed
    qed
  qed
  then show ?thesis using assms by (simp add: explodeFields_def explodeReversible_def)
qed

text \<open>Replacing every occurrence is joining the fields with the replacement.\<close>

theorem replace_all_is_join:
  assumes "pat \<noteq> []"
  shows "replaceString s pat rep 0 0 = joined rep (explodeReversible s pat)"
proof -
  have "0 \<le> cur \<Longrightarrow> replaceLoop pat rep 0 0 cur s = joined rep (splitLoop (\<lambda>r. [r]) pat s)" for cur
    using assms
  proof (induction "\<lambda>r :: string. [r]" pat s arbitrary: cur rule: splitLoop.induct)
    case (1 sep s)
    show ?case
    proof (cases "find_sub sep s")
      case (Some p)
      have "splitLoop (\<lambda>r. [r]) sep t \<noteq> []" for t by (rule splitLoop_ne) simp
      then show ?thesis
        using 1(1)[OF Some 1(3), of "cur + 1"] 1(2,3) Some by (simp add: replaceLoop.simps[of sep rep 0 0 cur s] splitLoop.simps[of _ sep s])
    qed (simp add: replaceLoop.simps[of sep rep 0 0 cur s] splitLoop.simps[of _ sep s])
  qed
  then show ?thesis using assms by (simp add: replaceString_def explodeReversible_def)
qed

end
