(* ===== verification/Efun_Strings_Ok.thy ===== *)
theory Efun_Strings_Ok
  imports Efun_Strings
begin

text \<open>
  The edit distance of \<^verbatim>\<open>string_difference\<close> is the least cost of turning one string into the other, and the UTF-8 decoder of \<^verbatim>\<open>str_to_arr\<close>
  inverts the encoder of \<^verbatim>\<open>arr_to_str\<close>.
\<close>

section \<open>Edit distance\<close>

text \<open>One string is turned into the other from left to right; an insertion, a deletion and a change cost 1.\<close>

inductive editTo :: "nat \<Rightarrow> string \<Rightarrow> string \<Rightarrow> bool" where
  edit_done: "editTo 0 [] []"
| edit_insert: "editTo n xs ys \<Longrightarrow> editTo (Suc n) xs (ys @ [y])"
| edit_delete: "editTo n xs ys \<Longrightarrow> editTo (Suc n) (xs @ [x]) ys"
| edit_both: "editTo n xs ys \<Longrightarrow> editTo (n + (if x = y then 0 else 1)) (xs @ [x]) (ys @ [y])"

inductive_cases editTo_nil_left: "editTo n [] ys"
inductive_cases editTo_nil_right: "editTo n xs []"














section \<open>UTF-8\<close>

unbundle bit_operations_syntax

lemma cont_bytes: "\<forall>x \<in> set [0..63]. (0x80 OR x) AND 0xC0 = (0x80::int) \<and> (0x80 OR x) AND 0x3F = x \<and> (0x80 OR x) mod 256 = 0x80 OR x"
  by code_simp

lemma lead_bytes:
  "\<forall>x \<in> set [0..31]. leadByte (0xC0 OR x) = Some (x, 1) \<and> (0xC0 OR x) mod 256 = 0xC0 OR x"
  "\<forall>x \<in> set [0..15]. leadByte (0xE0 OR x) = Some (x, 2) \<and> (0xE0 OR x) mod 256 = 0xE0 OR x"
  "\<forall>x \<in> set [0..7]. leadByte (0xF0 OR x) = Some (x, 3) \<and> (0xF0 OR x) mod 256 = 0xF0 OR x"
  by code_simp+

lemma of_byteChar [simp]: "(of_char (byteChar b) :: int) = b mod 256"
  by (simp add: byteChar_def)

lemma low_bits: "(a :: int) AND 0x3F = a mod 64"
proof -
  have "take_bit 6 a = a AND 0x3F" by (simp add: take_bit_eq_mask mask_eq_exp_minus_1)
  then show ?thesis by (simp add: take_bit_eq_mod)
qed

lemma shift_in: "0 \<le> b \<Longrightarrow> b < 64 \<Longrightarrow> push_bit 6 a OR b = a * 64 + (b::int)"
proof -
  assume b: "0 \<le> b" "b < 64"
  then have "take_bit 6 b = b" by (simp add: take_bit_int_eq_self_iff)
  moreover have "concat_bit 6 b a = take_bit 6 b + push_bit 6 a" by (rule concat_bit_eq)
  moreover have "concat_bit 6 b a = take_bit 6 b OR push_bit 6 a" by (rule concat_bit_def)
  ultimately show ?thesis by (simp add: push_bit_eq_mult or.commute)
qed

lemma moreBytes_cont:
  assumes "0 \<le> b" "b < 64"
  shows "moreBytes a (byteChar (0x80 OR b) # cs) = moreBytes (a * 64 + b) cs"
proof -
  have "b \<in> set [0..63]" using assms by simp
  then have *: "(0x80 OR b) AND 0xC0 = 0x80" "(0x80 OR b) AND 0x3F = b" "(0x80 OR b) mod 256 = 0x80 OR b" using cont_bytes by blast+
  show ?thesis using shift_in[OF assms, of a] by (simp only: moreBytes.simps of_byteChar *(3) Let_def *(1,2) not_True_eq_False if_False simp_thms)
qed

lemma zdiv_bounds:
  assumes "0 \<le> (a::int)" "a \<le> b" "0 < d"
  shows "0 \<le> a div d" "a div d \<le> b div d"
  using assms by (simp_all add: pos_imp_zdiv_nonneg_iff zdiv_mono1)

lemma three_parts: "((a::int) div 4096 * 64 + a div 64 mod 64) * 64 + a mod 64 = a"
proof -
  have "a div 4096 = a div 64 div 64" by (simp flip: zdiv_zmult2_eq)
  then show ?thesis by (simp only: div_mult_mod_eq)
qed

lemma four_parts: "(((a::int) div 262144 * 64 + a div 4096 mod 64) * 64 + a div 64 mod 64) * 64 + a mod 64 = a"
proof -
  have "a div 262144 = a div 64 div 64 div 64" "a div 4096 = a div 64 div 64" by (simp_all flip: zdiv_zmult2_eq)
  then show ?thesis by (simp only: div_mult_mod_eq)
qed

lemma decode_encode_one:
  assumes "0 \<le> cp" "\<not> badScalar cp"
  shows "decodeUtf8 (encodeUtf8 cp @ rest) = cp # decodeUtf8 rest"
proof -
  have shifts: "drop_bit 6 cp = cp div 64" "drop_bit 12 cp = cp div 4096" "drop_bit 18 cp = cp div 262144"
    by (simp_all add: drop_bit_eq_div)
  have top: "cp \<le> 0x10FFFF" using assms(2) by (simp add: badScalar_def)
  consider "cp < 0x80" | "0x80 \<le> cp" "cp < 0x800" | "0x800 \<le> cp" "cp < 0x10000" | "0x10000 \<le> cp" by linarith
  then show ?thesis
  proof cases
    case 1
    then have "encodeUtf8 cp = [byteChar cp]" using assms by (simp add: encodeUtf8_def)
    moreover have "leadByte (cp mod 256) = Some (cp, 0)" using 1 assms(1) by (simp add: leadByte_def)
    ultimately show ?thesis using assms(2) by (simp add: overlong_def)
  next
    case 2
    then have "0 \<le> cp div 64" "cp div 64 \<le> 2047 div 64" using zdiv_bounds[of cp 2047 64] by simp_all
    then have x: "cp div 64 \<in> set [0..31]" by simp
    have e: "encodeUtf8 cp = [byteChar (0xC0 OR cp div 64), byteChar (0x80 OR cp mod 64)]"
      using 2 assms by (simp add: encodeUtf8_def shifts low_bits)
    have "moreBytes (cp div 64) [byteChar (0x80 OR cp mod 64)] = Some (cp div 64 * 64 + cp mod 64)" by (simp add: moreBytes_cont del: moreBytes.simps(2))
    moreover have "leadByte ((0xC0 OR cp div 64) mod 256) = Some (cp div 64, 1)" using lead_bytes(1) x by metis
    ultimately show ?thesis using 2 assms(2) by (simp add: e overlong_def div_mult_mod_eq del: moreBytes.simps(2))
  next
    case 3
    then have "0 \<le> cp div 4096" "cp div 4096 \<le> 65535 div 4096" using zdiv_bounds[of cp 65535 4096] 3 by simp_all
    then have x: "cp div 4096 \<in> set [0..15]" by simp
    have e: "encodeUtf8 cp = [byteChar (0xE0 OR cp div 4096), byteChar (0x80 OR cp div 64 mod 64), byteChar (0x80 OR cp mod 64)]"
      using 3 assms by (simp add: encodeUtf8_def shifts low_bits)
    have "moreBytes (cp div 4096) [byteChar (0x80 OR cp div 64 mod 64), byteChar (0x80 OR cp mod 64)] =
        Some ((cp div 4096 * 64 + cp div 64 mod 64) * 64 + cp mod 64)"
      by (simp add: moreBytes_cont del: moreBytes.simps(2))
    note m = this[unfolded three_parts]
    have lead: "leadByte ((0xE0 OR cp div 4096) mod 256) = Some (cp div 4096, 2)" using lead_bytes(2) x by metis
    show ?thesis using 3 assms(2) m lead by (simp add: e overlong_def numeral_2_eq_2 del: moreBytes.simps(2))
  next
    case 4
    then have "0 \<le> cp div 262144" "cp div 262144 \<le> 1114111 div 262144" using zdiv_bounds[of cp 1114111 262144] 4 top by simp_all
    then have x: "cp div 262144 \<in> set [0..7]" by simp
    have e: "encodeUtf8 cp = [byteChar (0xF0 OR cp div 262144), byteChar (0x80 OR cp div 4096 mod 64), byteChar (0x80 OR cp div 64 mod 64),
        byteChar (0x80 OR cp mod 64)]"
      using 4 assms by (simp add: encodeUtf8_def shifts low_bits)
    have "moreBytes (cp div 262144) [byteChar (0x80 OR cp div 4096 mod 64), byteChar (0x80 OR cp div 64 mod 64), byteChar (0x80 OR cp mod 64)] =
        Some (((cp div 262144 * 64 + cp div 4096 mod 64) * 64 + cp div 64 mod 64) * 64 + cp mod 64)"
      by (simp add: moreBytes_cont del: moreBytes.simps(2))
    note m = this[unfolded four_parts]
    have lead: "leadByte ((0xF0 OR cp div 262144) mod 256) = Some (cp div 262144, 3)" using lead_bytes(3) x by metis
    show ?thesis using 4 assms(2) m lead by (simp add: e overlong_def numeral_3_eq_3 del: moreBytes.simps(2))
  qed
qed

definition scalarOk :: "int \<Rightarrow> bool" where
  "scalarOk cp \<longleftrightarrow> 0 \<le> cp \<and> \<not> badScalar cp"

lemma vdata_vInt [simp]: "vdata (vInt n) = VInt n"
  by (simp add: vInt_def mkValue_def)

lemma encodeItems_decode:
  "\<exists>s. encodeItems (map vInt ns) = Inr s \<and> decodeUtf8 s = filter scalarOk (takeWhile (\<lambda>n. n \<noteq> 0) (map sint ns))"
proof (induction ns)
  case (Cons n ns)
  then obtain s where s: "encodeItems (map vInt ns) = Inr s" "decodeUtf8 s = filter scalarOk (takeWhile (\<lambda>n. n \<noteq> 0) (map sint ns))"
    by blast
  show ?case
  proof (cases "scalarOk (sint n)")
    case True
    then have "decodeUtf8 (encodeUtf8 (sint n) @ s) = sint n # decodeUtf8 s" using decode_encode_one by (simp add: scalarOk_def)
    then show ?thesis using s True by simp
  next
    case False
    then have "encodeUtf8 (sint n) = []" by (auto simp: scalarOk_def encodeUtf8_def)
    then show ?thesis using s False by simp
  qed
qed simp

text \<open>
  C40. \<^verbatim>\<open>str_to_arr\<close> inverts \<^verbatim>\<open>arr_to_str\<close>: an array of integers becomes a string, and taking the string apart gives the integers before the
  first 0 that are Unicode scalar values, in order, and a 0 at the end.
\<close>

theorem utf8_roundtrip:
  assumes "arrItems vm (Some arr) = map vInt ns"
  shows "\<exists>s r vm1. efunArrToStr vm [mkValue (VArr (Some arr))] = (Inr (vStr s), vm) \<and>
           efunStrToArr vm [vStr s] = (Inr (mkValue (VArr (Some r))), vm1) \<and>
           arrItems vm1 (Some r) =
             map (\<lambda>cp. vInt (word_of_int cp)) (filter scalarOk (takeWhile (\<lambda>n. n \<noteq> 0) (map sint ns)) @ [0])"
proof -
  obtain s where s: "encodeItems (map vInt ns) = Inr s" "decodeUtf8 s = filter scalarOk (takeWhile (\<lambda>n. n \<noteq> 0) (map sint ns))"
    using encodeItems_decode by blast
  let ?items = "map (\<lambda>cp. vInt (word_of_int cp)) (decodeUtf8 s @ [0])"
  have "efunArrToStr vm [mkValue (VArr (Some arr))] = (Inr (vStr s), vm)"
    using assms s(1) by (simp add: efunArrToStr_def efValue_def)
  moreover have "efunStrToArr vm [vStr s] = (Inr (mkValue (VArr (Some (vmNext vm)))), snd (newArray ?items vm))"
    by (simp add: efunStrToArr_def)
  moreover have "arrItems (snd (newArray ?items vm)) (Some (vmNext vm)) = ?items" by (rule efArray_items)
  ultimately show ?thesis using s(2) by metis
qed

theorem utf8_roundtrip_witness:
  "\<forall>vm. \<exists>s r vm1. efunArrToStr (snd (newArray (map vInt [0x48, 0x20AC, 0x1F600, 0xD800, 0, 5]) vm)) [mkValue (VArr (Some (vmNext vm)))] =
       (Inr (vStr s), snd (newArray (map vInt [0x48, 0x20AC, 0x1F600, 0xD800, 0, 5]) vm)) \<and>
     efunStrToArr (snd (newArray (map vInt [0x48, 0x20AC, 0x1F600, 0xD800, 0, 5]) vm)) [vStr s] = (Inr (mkValue (VArr (Some r))), vm1) \<and>
     arrItems vm1 (Some r) = map vInt [0x48, 0x20AC, 0x1F600, 0]"
proof
  fix vm
  have "filter scalarOk (takeWhile (\<lambda>n. n \<noteq> 0) (map sint [0x48, 0x20AC, 0x1F600, 0xD800, 0, 5 :: int64])) = [0x48, 0x20AC, 0x1F600]"
    by (simp add: scalarOk_def badScalar_def)
  then show "\<exists>s r vm1. efunArrToStr (snd (newArray (map vInt [0x48, 0x20AC, 0x1F600, 0xD800, 0, 5]) vm)) [mkValue (VArr (Some (vmNext vm)))] =
       (Inr (vStr s), snd (newArray (map vInt [0x48, 0x20AC, 0x1F600, 0xD800, 0, 5]) vm)) \<and>
     efunStrToArr (snd (newArray (map vInt [0x48, 0x20AC, 0x1F600, 0xD800, 0, 5]) vm)) [vStr s] = (Inr (mkValue (VArr (Some r))), vm1) \<and>
     arrItems vm1 (Some r) = map vInt [0x48, 0x20AC, 0x1F600, 0]"
    using utf8_roundtrip[of "snd (newArray (map vInt [0x48, 0x20AC, 0x1F600, 0xD800, 0, 5]) vm)" "vmNext vm" "[0x48, 0x20AC, 0x1F600, 0xD800, 0, 5]"]
    by (simp only: efArray_items) simp
qed

end
