(* ===== verification/Vm_Ends.thy ===== *)
theory Vm_Ends
  imports Vm_Safety
begin

text \<open>
  The evaluation budget of \<^verbatim>\<open>src/vm/VM.cpp\<close> makes every function call end, as long as no efun refills it.
\<close>

section \<open>The evaluation budget makes every run end\<close>

definition budget :: "vm \<Rightarrow> nat" where
  "budget vm = nat (maxEvalCost vm - evalCost vm)"

text \<open>Time has passed on the machine: the budget is not refilled and no closure got a lambda body.\<close>

definition spends :: "vm \<Rightarrow> vm \<Rightarrow> bool" where
  "spends vm vm' \<longleftrightarrow> noLambda vm' \<and> maxEvalCost vm' = maxEvalCost vm \<and> evalCost vm \<le> evalCost vm'"

definition efunsSpend :: "vm_env \<Rightarrow> bool" where
  "efunsSpend env \<longleftrightarrow>
     (\<forall>name e vm args. eEfuns env name = Some e \<longrightarrow> noLambda vm \<longrightarrow> spends vm (snd (e vm args)))"

lemma spends_trans: "spends a b \<Longrightarrow> spends b c \<Longrightarrow> spends a c"
  by (simp add: spends_def)

lemma spends_noLambda: "spends vm vm' \<Longrightarrow> noLambda vm'"
  by (simp add: spends_def)

lemma spends_budget: "spends vm vm' \<Longrightarrow> budget vm' \<le> budget vm"
  by (auto simp: spends_def budget_def)

lemma sameCore_spends: "noLambda vm \<Longrightarrow> sameCore vm vm' \<Longrightarrow> spends vm vm'"
  by (simp add: spends_def sameCore_def)

lemma spends_guards:
  "spends vm (pushOrigin org vm') = spends vm vm'" "spends vm (popOrigin vm') = spends vm vm'"
  "spends vm (pushCommandGiver g vm') = spends vm vm'" "spends vm (popCommandGiver vm') = spends vm vm'"
  "spends vm (enterFrame ob nm vm') = spends vm vm'" "spends vm (leaveFrame ch vm') = spends vm vm'"
  "spends vm (pushDefers vm') = spends vm vm'" "spends vm (snd (popDefers vm')) = spends vm vm'"
  "noLambda (pushOrigin org vm') = noLambda vm'" "noLambda (pushCommandGiver g vm') = noLambda vm'"
  "noLambda (enterFrame ob nm vm') = noLambda vm'" "noLambda (pushDefers vm') = noLambda vm'"
  "budget (pushOrigin org vm') = budget vm'" "budget (pushCommandGiver g vm') = budget vm'"
  "budget (enterFrame ob nm vm') = budget vm'" "budget (pushDefers vm') = budget vm'"
  "budget (popOrigin vm') = budget vm'" "budget (popCommandGiver vm') = budget vm'"
  "budget (leaveFrame ch vm') = budget vm'" "budget (snd (popDefers vm')) = budget vm'"
  "spends (pushOrigin org vm') vm = spends vm' vm" "spends (pushCommandGiver g vm') vm = spends vm' vm"
  "spends (enterFrame ob nm vm') vm = spends vm' vm" "spends (pushDefers vm') vm = spends vm' vm"
  by (simp_all add: spends_def noLambda_def budget_def pushOrigin_def popOrigin_def pushCommandGiver_def
      popCommandGiver_def enterFrame_def leaveFrame_def pushDefers_def popDefers_def)

text \<open>More fuel does not change an answer.\<close>

definition leI :: "vm_env \<Rightarrow> interp_fns \<Rightarrow> interp_fns \<Rightarrow> bool" where
  "leI env I J \<longleftrightarrow>
     (\<forall>p f ob b fr vm r. iExec I env p f ob b fr vm = Some r \<longrightarrow> iExec J env p f ob b fr vm = Some r) \<and>
     (\<forall>p f args ob vm r. iRun I env p f args ob vm = Some r \<longrightarrow> iRun J env p f args ob vm = Some r) \<and>
     (\<forall>ds vm r. iDefers I env ds vm = Some r \<longrightarrow> iDefers J env ds vm = Some r) \<and>
     (\<forall>c args vm r. iClosure I env c args vm = Some r \<longrightarrow> iClosure J env c args vm = Some r) \<and>
     (\<forall>nd ps args vm r. iNode I env nd ps args vm = Some r \<longrightarrow> iNode J env nd ps args vm = Some r) \<and>
     (\<forall>nds ps args vm r. iNodes I env nds ps args vm = Some r \<longrightarrow> iNodes J env nds ps args vm = Some r)"

lemma leID:
  assumes "leI env I J"
  shows "iExec I env p f ob b fr vm = Some r \<Longrightarrow> iExec J env p f ob b fr vm = Some r"
    "iRun I env p fe args ob vm = Some r \<Longrightarrow> iRun J env p fe args ob vm = Some r"
    "iDefers I env ds vm = Some u \<Longrightarrow> iDefers J env ds vm = Some u"
    "iClosure I env c args vm = Some r \<Longrightarrow> iClosure J env c args vm = Some r"
    "iNode I env nd ps args vm = Some r \<Longrightarrow> iNode J env nd ps args vm = Some r"
    "iNodes I env nds ps args vm = Some rs \<Longrightarrow> iNodes J env nds ps args vm = Some rs"
  using assms unfolding leI_def by (simp_all only:)

lemma execBody_mono:
  assumes "leI env I J" "execBody I env p fname obj base fr vm = Some r"
  shows "execBody J env p fname obj base fr vm = Some r"
proof (cases "length (code p) \<le> ip fr")
  case False
  note le = leID[OF assms(1)]
  have err: "(case catchError fl fname e fr' of Inl e' \<Rightarrow> Some (Inl e', vm')
      | Inr fr'' \<Rightarrow> iExec I env p fname obj base fr'' vm') = Some r \<Longrightarrow>
    (case catchError fl fname e fr' of Inl e' \<Rightarrow> Some (Inl e', vm')
      | Inr fr'' \<Rightarrow> iExec J env p fname obj base fr'' vm') = Some r" for fl e fr' vm'
    by (auto split: sum.splits intro: le)
  show ?thesis
  proof (cases "chargedStep env p obj base fr vm")
    case (Invoke q f args o1 org ip' fr' vm')
    then obtain res vm1 where run: "iRun I env q f args o1 (pushOrigin org vm') = Some (res, vm1)"
      using assms(2) False by (auto simp: execBody_def split: option.splits prod.splits)
    with assms(2) False Invoke err le(2)[OF run] show ?thesis
      by (cases res) (auto simp: execBody_def intro: le)
  next
    case (InvokeEfun e args fr' vm')
    obtain res vm1 where e: "e vm' args = (res, vm1)" by fastforce
    with assms(2) False InvokeEfun err show ?thesis by (cases res) (auto simp: execBody_def intro: le)
  qed (use assms(2) False err le in \<open>auto simp: execBody_def\<close>)
qed (use assms(2) in \<open>simp add: execBody_def\<close>)

lemma runBody_mono:
  assumes "leI env I J" "runBody I env p fn args obj vm = Some r"
  shows "runBody J env p fn args obj vm = Some r"
proof -
  note le = leID[OF assms(1)]
  let ?vm1 = "pushDefers (enterFrame obj (feName fn) vm)"
  let ?mid = "\<lambda>K. case objectVarBase p obj ?vm1 of Inl e \<Rightarrow> Some (Inl e, ?vm1)
      | Inr base \<Rightarrow> (case bindLocals fn args ?vm1 of (ls, vm2) \<Rightarrow> iExec K env p (feName fn) obj base (newFrame fn ls) vm2)"
  obtain x where x: "?mid I = Some x"
    using assms(2) unfolding runBody_def Let_def by (cases "?mid I") simp_all
  have xj: "?mid J = Some x" using x by (auto split: sum.splits prod.splits intro: le)
  obtain res vm3 where x': "x = (res, vm3)" by (cases x)
  obtain pending vm4 where d: "popDefers vm3 = (pending, vm4)" by fastforce
  obtain u where u: "iDefers I env (rev pending) vm4 = Some u"
    using assms(2) unfolding runBody_def Let_def x x' option.case prod.case d by (auto split: option.splits)
  show ?thesis
    using assms(2) unfolding runBody_def Let_def x xj x' option.case prod.case d u le(3)[OF u] .
qed

lemma closureBody_mono:
  assumes "leI env I J" "closureBody I env cl extra vm = Some r"
  shows "closureBody J env cl extra vm = Some r"
proof -
  note le = leID[OF assms(1)]
  have t: "(case closureTarget env c owner vm of
        (RFunction q f o1 org, vm1) \<Rightarrow>
          (case iRun I env q f args o1 (pushOrigin org vm1) of None \<Rightarrow> None | Some (res, vm2) \<Rightarrow> Some (res, popOrigin vm2))
      | (REfun e, vm1) \<Rightarrow>
          (case e (enterFrame owner (clFunction c) vm1) args of (res, vm2) \<Rightarrow> Some (res, leaveFrame (objectChanged owner vm1) vm2))
      | (RNone, vm1) \<Rightarrow> Some (err, vm1)
      | (RUndef, vm1) \<Rightarrow> Some (Inl VUndef, vm1)) = Some r \<Longrightarrow>
      (case closureTarget env c owner vm of
        (RFunction q f o1 org, vm1) \<Rightarrow>
          (case iRun J env q f args o1 (pushOrigin org vm1) of None \<Rightarrow> None | Some (res, vm2) \<Rightarrow> Some (res, popOrigin vm2))
      | (REfun e, vm1) \<Rightarrow>
          (case e (enterFrame owner (clFunction c) vm1) args of (res, vm2) \<Rightarrow> Some (res, leaveFrame (objectChanged owner vm1) vm2))
      | (RNone, vm1) \<Rightarrow> Some (err, vm1)
      | (RUndef, vm1) \<Rightarrow> Some (Inl VUndef, vm1)) = Some r" for c owner args err
    by (auto split: prod.splits resolution.splits option.splits dest: le(2))
  show ?thesis
    using assms(2) unfolding closureBody_def Let_def by (auto split: option.splits if_splits intro: t le(5))
qed

lemma defersBody_mono:
  assumes "leI env I J" "defersBody I env ds vm = Some r"
  shows "defersBody J env ds vm = Some r"
proof (cases ds)
  case (Cons d ds')
  note le = leID[OF assms(1)]
  obtain a vm1 where c: "iClosure I env (deClosure d) [] (pushCommandGiver (deCommandGiver d) vm) = Some (a, vm1)"
    using assms(2) Cons by (auto simp: defersBody_def split: option.splits)
  obtain u where u: "iDefers I env ds' (popCommandGiver vm1) = Some u"
    using assms(2) Cons c by (auto simp: defersBody_def split: option.splits)
  show ?thesis using assms(2) unfolding defersBody_def Cons list.case c u le(3)[OF u] le(4)[OF c] option.case prod.case .
qed (use assms(2) in \<open>simp add: defersBody_def\<close>)

lemma nodesBody_mono:
  assumes "leI env I J" "nodesBody I env nds ps args vm = Some r"
  shows "nodesBody J env nds ps args vm = Some r"
proof (cases nds)
  case (Cons x xs)
  note le = leID[OF assms(1)]
  obtain a vm1 where c: "iNode I env x ps args vm = Some (a, vm1)"
    using assms(2) Cons by (auto simp: nodesBody_def split: option.splits)
  show ?thesis
  proof (cases a)
    case (Inl e)
    then show ?thesis using assms(2) Cons c le(5)[OF c] by (simp add: nodesBody_def)
  next
    case (Inr v)
    obtain u where u: "iNodes I env xs ps args vm1 = Some u"
      using assms(2) Cons c Inr by (auto simp: nodesBody_def split: option.splits)
    show ?thesis using assms(2) Cons c le(5)[OF c] Inr u le(6)[OF u] by (simp add: nodesBody_def)
  qed
qed (use assms(2) in \<open>simp add: nodesBody_def\<close>)

lemma nodeBody_mono:
  assumes "leI env I J" "nodeBody I env nd ps args vm = Some r"
  shows "nodeBody J env nd ps args vm = Some r"
proof -
  note le = leID[OF assms(1)]
  have "(case iNodes I env rest ps args vm of None \<Rightarrow> None | Some (Inl e, vm1) \<Rightarrow> Some (Inl e, vm1)
      | Some (Inr vs, vm1) \<Rightarrow> iClosure I env (Some c) vs vm1) = Some r \<Longrightarrow>
    (case iNodes J env rest ps args vm of None \<Rightarrow> None | Some (Inl e, vm1) \<Rightarrow> Some (Inl e, vm1)
      | Some (Inr vs, vm1) \<Rightarrow> iClosure J env (Some c) vs vm1) = Some r" for rest c
  proof (cases "iNodes I env rest ps args vm")
    case (Some u)
    assume "(case iNodes I env rest ps args vm of None \<Rightarrow> None | Some (Inl e, vm1) \<Rightarrow> Some (Inl e, vm1)
      | Some (Inr vs, vm1) \<Rightarrow> iClosure I env (Some c) vs vm1) = Some r"
    with Some le(6)[OF Some] show ?thesis by (auto split: prod.splits sum.splits intro: le(4))
  qed simp
  note call = this
  show ?thesis
  proof (cases "\<exists>a h rest c. vdata nd = VArr a \<and> arrItems vm a = h # rest \<and> vdata h = VFun (Some c)")
    case True
    then obtain a h rest c where "vdata nd = VArr a" "arrItems vm a = h # rest" "vdata h = VFun (Some c)" by blast
    then show ?thesis using assms(2) call by (simp add: nodeBody_def)
  next
    case False
    then show ?thesis
      using assms(2) unfolding nodeBody_def
      by (cases "vdata nd"; simp split: list.splits vdata.splits; fastforce split: option.splits)
  qed
qed

lemma interp_mono_Suc: "leI env (interp n) (interp (Suc n))"
proof (induction n)
  case 0
  show ?case by (simp add: leI_def outOfFuel_def)
next
  case (Suc n)
  note mono = execBody_mono[OF Suc] runBody_mono[OF Suc] defersBody_mono[OF Suc] closureBody_mono[OF Suc]
    nodeBody_mono[OF Suc] nodesBody_mono[OF Suc]
  show ?case
    unfolding leI_def interp.simps(2)[of "Suc n"] using mono by (subst (1 3 5 7 9 11) interp.simps(2)) simp
qed

lemma leI_trans: "leI env I J \<Longrightarrow> leI env J K \<Longrightarrow> leI env I K"
  by (simp add: leI_def)

lemma interp_mono: "n \<le> m \<Longrightarrow> leI env (interp n) (interp m)"
proof (induction m)
  case (Suc m)
  then show ?case
  proof (cases "n = Suc m")
    case True
    then show ?thesis by (simp add: leI_def)
  next
    case False
    with Suc have "leI env (interp n) (interp m)" by simp
    then show ?thesis using interp_mono_Suc by (rule leI_trans)
  qed
qed (simp add: leI_def)

text \<open>From a machine state, the loop, a function call, a closure call and a list of deferred closures come to an end.\<close>

definition execEnds :: "vm_env \<Rightarrow> vm \<Rightarrow> bool" where
  "execEnds env vm \<longleftrightarrow>
     (\<forall>p f ob base fr. \<exists>n r vm'. iExec (interp n) env p f ob base fr vm = Some (r, vm') \<and> spends vm vm' \<and>
        (budget vm' < budget vm \<or> deferStack vm' = deferStack vm))"

definition runEnds :: "vm_env \<Rightarrow> vm \<Rightarrow> bool" where
  "runEnds env vm \<longleftrightarrow>
     (\<forall>p fe args ob. \<exists>n r vm'. iRun (interp n) env p fe args ob vm = Some (r, vm') \<and> spends vm vm')"

definition closureEnds :: "vm_env \<Rightarrow> vm \<Rightarrow> bool" where
  "closureEnds env vm \<longleftrightarrow>
     (\<forall>c args. \<exists>n r vm'. iClosure (interp n) env c args vm = Some (r, vm') \<and> spends vm vm')"

definition defersEnd :: "vm_env \<Rightarrow> vm \<Rightarrow> bool" where
  "defersEnd env vm \<longleftrightarrow>
     (\<forall>ds. \<exists>n u vm'. iDefers (interp n) env ds vm = Some (u, vm') \<and> spends vm vm')"

lemma iExec_Suc: "iExec (interp (Suc n)) = execBody (interp n)"
  and iRun_Suc: "iRun (interp (Suc n)) = runBody (interp n)"
  and iDefers_Suc: "iDefers (interp (Suc n)) = defersBody (interp n)"
  and iClosure_Suc: "iClosure (interp (Suc n)) = closureBody (interp n)"
  by simp_all

lemma chargedStep_limit:
  "maxEvalCost vm \<le> evalCost vm \<Longrightarrow>
   chargedStep env p obj base fr vm = Fail (VExn (EvalCostError ''eval cost exceeded'')) fr (vm\<lparr>evalCost := evalCost vm + 1\<rparr>)"
  by (simp add: chargedStep_def)

lemma chargedStep_spends:
  assumes "noLambda vm" "evalCost vm < maxEvalCost vm"
  shows "spends vm (outVm (chargedStep env p obj base fr vm)) \<and> budget (outVm (chargedStep env p obj base fr vm)) < budget vm"
proof -
  let ?vm1 = "vm\<lparr>evalCost := evalCost vm + 1\<rparr>"
  have nl: "noLambda ?vm1" using assms(1) by (simp add: noLambda_def)
  have s: "spends ?vm1 (outVm (step env p obj base (code p ! ip fr) fr ?vm1))"
    using sameCore_spends[OF nl step_same] .
  have "spends vm ?vm1" "budget ?vm1 < budget vm" using assms nl by (auto simp: spends_def budget_def)
  with s spends_budget[OF s] assms(2) show ?thesis
    by (auto simp: chargedStep_def intro: spends_trans)
qed

text \<open>A continuation that comes to an end with less budget than the machine state has.\<close>

definition endsLower :: "vm \<Rightarrow> (nat \<Rightarrow> vm_answer) \<Rightarrow> bool" where
  "endsLower vm A \<longleftrightarrow> (\<exists>n r vm'. A n = Some (r, vm') \<and> spends vm vm' \<and> budget vm' < budget vm)"

abbreviation handled :: "nat \<Rightarrow> vm_env \<Rightarrow> CompiledProgram \<Rightarrow> string \<Rightarrow> ref \<Rightarrow> int \<Rightarrow> vm_exn \<Rightarrow> frame \<Rightarrow> vm \<Rightarrow> vm_answer" where
  "handled n env p f ob base e fr vm \<equiv>
     (case catchError (filenameOf vm ob) f e fr of
        Inl e' \<Rightarrow> Some (Inl e', vm)
      | Inr fr' \<Rightarrow> iExec (interp n) env p f ob base fr' vm)"

lemma continue_ends:
  assumes "execEnds env vm'" "spends vm vm'" "budget vm' < budget vm"
  shows "endsLower vm (\<lambda>n. iExec (interp n) env p f ob base fr vm')"
    and "endsLower vm (\<lambda>n. handled n env p f ob base e fr vm')"
proof -
  have go: "endsLower vm (\<lambda>n. iExec (interp n) env p f ob base fr' vm')" for fr'
  proof -
    from assms(1) obtain n r vm'' where n: "iExec (interp n) env p f ob base fr' vm' = Some (r, vm'')" "spends vm' vm''"
      unfolding execEnds_def by blast
    then show ?thesis
      unfolding endsLower_def using spends_trans[OF assms(2) n(2)] spends_budget[OF n(2)] assms(3) by fastforce
  qed
  then show "endsLower vm (\<lambda>n. iExec (interp n) env p f ob base fr vm')" .
  show "endsLower vm (\<lambda>n. handled n env p f ob base e fr vm')"
    using go assms(2,3) by (cases "catchError (filenameOf vm' ob) f e fr") (auto simp: endsLower_def)
qed

lemma handled_mono:
  "n \<le> m \<Longrightarrow> handled n env p f ob base e fr vm = Some r \<Longrightarrow> handled m env p f ob base e fr vm = Some r"
  using leID(1)[OF interp_mono[of n m env]] by (auto split: sum.splits)

lemma invoke_ends:
  assumes run: "runEnds env (pushOrigin org vm')" and s: "spends vm vm'" "budget vm' < budget vm"
    and cont: "\<And>vm1. budget vm1 < budget vm \<Longrightarrow> noLambda vm1 \<Longrightarrow> execEnds env vm1"
  shows "endsLower vm (\<lambda>n. case iRun (interp n) env q fe args o1 (pushOrigin org vm') of
       None \<Rightarrow> None
     | Some (Inr v, vm1) \<Rightarrow> iExec (interp n) env p f ob base (fr\<lparr>stk := v # stk fr, ip := ip'\<rparr>) (popOrigin vm1)
     | Some (Inl e, vm1) \<Rightarrow> handled n env p f ob base e fr (popOrigin vm1))"
proof -
  from run obtain n1 r vm1 where r: "iRun (interp n1) env q fe args o1 (pushOrigin org vm') = Some (r, vm1)"
    "spends (pushOrigin org vm') vm1" unfolding runEnds_def by blast
  have s1: "spends vm (popOrigin vm1)" "budget (popOrigin vm1) < budget vm"
    using s r(2) spends_budget[of vm' vm1] by (auto simp: spends_guards intro: spends_trans)
  have ex: "execEnds env (popOrigin vm1)" using cont[OF s1(2) spends_noLambda[OF s1(1)]] .
  have up: "iRun (interp (max n1 n)) env q fe args o1 (pushOrigin org vm') = Some (r, vm1)" for n
    using leID(2)[OF interp_mono r(1)] by simp
  show ?thesis
  proof (cases r)
    case (Inr v)
    obtain n2 r2 vm2 where e: "iExec (interp n2) env p f ob base (fr\<lparr>stk := v # stk fr, ip := ip'\<rparr>) (popOrigin vm1) = Some (r2, vm2)"
      "spends vm vm2" "budget vm2 < budget vm" using continue_ends(1)[OF ex s1] unfolding endsLower_def by blast
    have "iExec (interp (max n1 n2)) env p f ob base (fr\<lparr>stk := v # stk fr, ip := ip'\<rparr>) (popOrigin vm1) = Some (r2, vm2)"
      using leID(1)[OF interp_mono e(1)] by simp
    with up[of n2] Inr e show ?thesis unfolding endsLower_def by (intro exI[of _ "max n1 n2"]) simp
  next
    case (Inl x)
    obtain n2 r2 vm2 where e: "handled n2 env p f ob base x fr (popOrigin vm1) = Some (r2, vm2)"
      "spends vm vm2" "budget vm2 < budget vm" using continue_ends(2)[OF ex s1] unfolding endsLower_def by blast
    have "handled (max n1 n2) env p f ob base x fr (popOrigin vm1) = Some (r2, vm2)"
      by (rule handled_mono[OF _ e(1)]) simp
    with up[of n2] Inl e show ?thesis unfolding endsLower_def by (intro exI[of _ "max n1 n2"]) simp
  qed
qed

lemma exec_ends:
  assumes E: "efunsSpend env" and nl: "noLambda vm"
    and IH: "\<And>vm'. budget vm' < budget vm \<Longrightarrow> noLambda vm' \<Longrightarrow> execEnds env vm' \<and> runEnds env vm'"
  shows "execEnds env vm"
  unfolding execEnds_def
proof (intro allI)
  fix p f ob base fr
  let ?A = "\<lambda>n. execBody (interp n) env p f ob base fr vm"
  have "(\<exists>r vm'. ?A 0 = Some (r, vm') \<and> spends vm vm' \<and> deferStack vm' = deferStack vm) \<or> endsLower vm ?A"
  proof (cases "length (code p) \<le> ip fr \<or> maxEvalCost vm \<le> evalCost vm")
    case True
    have "spends vm vm" "spends vm (vm\<lparr>evalCost := evalCost vm + 1\<rparr>)" using nl by (simp_all add: spends_def noLambda_def)
    with True show ?thesis by (auto simp: execBody_def chargedStep_limit catchError_def)
  next
    case False
    then have ip: "\<not> length (code p) \<le> ip fr" and c: "evalCost vm < maxEvalCost vm" by auto
    note o = chargedStep_spends[OF nl c, of env p ob base fr]
    have ce: "endsLower vm (\<lambda>n. iExec (interp n) env p f ob base fr' vm')" "endsLower vm (\<lambda>n. handled n env p f ob base e fr' vm')"
      if "spends vm vm'" "budget vm' < budget vm" for fr' vm' e
      using continue_ends[OF _ that] IH[OF that(2) spends_noLambda[OF that(1)]] by blast+
    have "endsLower vm ?A"
    proof (cases "chargedStep env p ob base fr vm")
      case (InvokeEfun e args fr' vm')
      obtain name where nm: "eEfuns env name = Some e" using chargedStep_efun[OF InvokeEfun] by blast
      obtain r vm1 where r: "e vm' args = (r, vm1)" by fastforce
      have "spends vm' vm1" using E nm r o InvokeEfun unfolding efunsSpend_def by (metis outVm.simps(5) snd_conv spends_noLambda)
      then have "spends vm vm1" "budget vm1 < budget vm"
        using o InvokeEfun spends_budget[of vm' vm1] by (auto intro: spends_trans)
      from ce[OF this] ip InvokeEfun r show ?thesis by (cases r) (simp_all add: execBody_def)
    next
      case (Invoke q fe args o1 org ip' fr' vm')
      then have s: "spends vm vm'" "budget vm' < budget vm" using o by auto
      have "runEnds env (pushOrigin org vm')" using IH[of "pushOrigin org vm'"] s by (simp add: spends_guards spends_noLambda)
      from invoke_ends[OF this s] IH ip Invoke show ?thesis by (simp add: execBody_def)
    next
      case (Stop v vm')
      with o ip show ?thesis by (auto simp: execBody_def endsLower_def)
    qed (use o ip ce in \<open>auto simp: execBody_def\<close>)
    then show ?thesis ..
  qed
  then show "\<exists>n r vm'. iExec (interp n) env p f ob base fr vm = Some (r, vm') \<and> spends vm vm' \<and>
    (budget vm' < budget vm \<or> deferStack vm' = deferStack vm)"
    unfolding endsLower_def iExec_Suc[symmetric] by blast
qed

text \<open>The part of a function call before the deferred closures run: it ends, and either the budget has shrunk or nothing was deferred.\<close>

lemma run_mid_ends:
  assumes nl: "noLambda vm"
    and ex: "\<And>vm'. budget vm' \<le> budget vm \<Longrightarrow> noLambda vm' \<Longrightarrow> execEnds env vm'"
    and vm1_def: "vm1 = pushDefers (enterFrame obj (feName fn) vm)"
  shows "\<exists>n r vm3. (case objectVarBase p obj vm1 of Inl e \<Rightarrow> Some (Inl e, vm1)
      | Inr base \<Rightarrow> (case bindLocals fn args vm1 of
          (ls, vm2) \<Rightarrow> iExec (interp n) env p (feName fn) obj base (newFrame fn ls) vm2)) = Some (r, vm3) \<and>
      spends vm vm3 \<and> (budget vm3 < budget vm \<or> fst (popDefers vm3) = [])"
proof (cases "objectVarBase p obj vm1")
  case (Inl e)
  have "spends vm vm" using nl by (simp add: spends_def)
  then have "spends vm vm1" "fst (popDefers vm1) = []"
    by (simp add: vm1_def spends_guards, simp add: vm1_def popDefers_def pushDefers_def)
  with Inl show ?thesis by auto
next
  case (Inr base)
  obtain ls vm2 where b: "bindLocals fn args vm1 = (ls, vm2)" by fastforce
  have nl1: "noLambda vm1" using nl by (simp add: vm1_def spends_guards)
  have s: "spends vm1 vm2" using sameCore_spends[OF nl1 bindLocals_same[OF b]] .
  have d2: "deferStack vm2 = [] # deferStack vm"
    using bindLocals_same[OF b] by (simp add: sameCore_def vm1_def pushDefers_def enterFrame_def)
  have b1: "budget vm1 = budget vm" by (simp add: vm1_def spends_guards)
  then have "budget vm2 \<le> budget vm" using spends_budget[OF s] by simp
  from ex[OF this spends_noLambda[OF s]] obtain n r vm3 where
    n: "iExec (interp n) env p (feName fn) obj base (newFrame fn ls) vm2 = Some (r, vm3)" "spends vm2 vm3"
      "budget vm3 < budget vm2 \<or> deferStack vm3 = deferStack vm2"
    unfolding execEnds_def by blast
  have "spends vm vm3" using spends_trans[OF s n(2)] by (simp add: vm1_def spends_guards)
  moreover have "budget vm3 < budget vm \<or> fst (popDefers vm3) = []"
    using n(3) d2 \<open>budget vm2 \<le> budget vm\<close> by (auto simp: popDefers_def)
  ultimately show ?thesis using Inr b n(1) by auto
qed

lemma run_ends:
  assumes nl: "noLambda vm"
    and ex: "\<And>vm'. budget vm' \<le> budget vm \<Longrightarrow> noLambda vm' \<Longrightarrow> execEnds env vm'"
    and de: "\<And>vm'. budget vm' < budget vm \<Longrightarrow> noLambda vm' \<Longrightarrow> defersEnd env vm'"
  shows "runEnds env vm"
  unfolding runEnds_def
proof (intro allI)
  fix p and fn :: FunctionEntry and args obj
  let ?vm1 = "pushDefers (enterFrame obj (feName fn) vm)"
  let ?mid = "\<lambda>n. case objectVarBase p obj ?vm1 of Inl e \<Rightarrow> Some (Inl e, ?vm1)
      | Inr base \<Rightarrow> (case bindLocals fn args ?vm1 of
          (ls, vm2) \<Rightarrow> iExec (interp n) env p (feName fn) obj base (newFrame fn ls) vm2)"
  obtain n1 res vm3 where m: "?mid n1 = Some (res, vm3)" "spends vm vm3"
    "budget vm3 < budget vm \<or> fst (popDefers vm3) = []"
    using run_mid_ends[OF nl ex refl] by blast
  obtain pending vm4 where d: "popDefers vm3 = (pending, vm4)" by fastforce
  have s4: "spends vm vm4" "budget vm4 = budget vm3"
    using m(2) d spends_guards(8)[of vm vm3] spends_guards(20)[of vm3] by simp_all
  have "\<exists>n u vm5. iDefers (interp n) env (rev pending) vm4 = Some (u, vm5) \<and> spends vm4 vm5"
  proof (cases "budget vm3 < budget vm")
    case True
    then have "defersEnd env vm4" using s4 by (intro de) (auto dest: spends_noLambda)
    then show ?thesis unfolding defersEnd_def by blast
  next
    case False
    then have "pending = []" using m(3) d by simp
    then have "iDefers (interp 1) env (rev pending) vm4 = Some (False, vm4)" by (simp add: defersBody_def)
    moreover have "spends vm4 vm4" using s4(1) by (simp add: spends_def)
    ultimately show ?thesis by blast
  qed
  then obtain n2 u vm5 where v: "iDefers (interp n2) env (rev pending) vm4 = Some (u, vm5)" "spends vm4 vm5" by blast
  let ?n = "max n1 n2"
  have m': "?mid ?n = Some (res, vm3)"
    using m(1) leID(1)[OF interp_mono[of n1 ?n]] by (auto split: sum.splits prod.splits)
  have v': "iDefers (interp ?n) env (rev pending) vm4 = Some (u, vm5)" using leID(3)[OF interp_mono v(1)] by simp
  have "iRun (interp (Suc ?n)) env p fn args obj vm =
      Some (if u then Inl VUndef else res, leaveFrame (objectChanged obj vm) vm5)"
    unfolding iRun_Suc runBody_def Let_def m' option.case prod.case d v' ..
  moreover have "spends vm (leaveFrame (objectChanged obj vm) vm5)"
    using spends_trans[OF s4(1) v(2)] by (simp add: spends_guards)
  ultimately show "\<exists>n r vm'. iRun (interp n) env p fn args obj vm = Some (r, vm') \<and> spends vm vm'" by blast
qed

lemma closure_ends:
  assumes E: "efunsSpend env" and nl: "noLambda vm"
    and ru: "\<And>vm'. budget vm' \<le> budget vm \<Longrightarrow> noLambda vm' \<Longrightarrow> runEnds env vm'"
  shows "closureEnds env vm"
  unfolding closureEnds_def
proof (intro allI)
  fix cl args
  have refl: "spends vm vm" using nl by (simp add: spends_def)
  have t: "\<exists>n r vm'. (case closureTarget env c owner vm of
        (RFunction q f o1 org, vm1) \<Rightarrow>
          (case iRun (interp n) env q f as o1 (pushOrigin org vm1) of None \<Rightarrow> None | Some (res, vm2) \<Rightarrow> Some (res, popOrigin vm2))
      | (REfun e, vm1) \<Rightarrow>
          (case e (enterFrame owner (clFunction c) vm1) as of (res, vm2) \<Rightarrow> Some (res, leaveFrame (objectChanged owner vm1) vm2))
      | (RNone, vm1) \<Rightarrow> Some (err, vm1)
      | (RUndef, vm1) \<Rightarrow> Some (Inl VUndef, vm1)) = Some (r, vm') \<and> spends vm vm'" for c owner as err
  proof -
    obtain tg vm1 where tg: "closureTarget env c owner vm = (tg, vm1)" by fastforce
    have s: "spends vm vm1" using sameCore_spends[OF nl closureTarget_same[of vm env c owner]] tg by simp
    show ?thesis
    proof (cases tg)
      case (RFunction q f o1 org)
      have "runEnds env (pushOrigin org vm1)"
        by (rule ru) (use s in \<open>auto simp: spends_guards spends_budget dest: spends_noLambda\<close>)
      then obtain n r vm2 where "iRun (interp n) env q f as o1 (pushOrigin org vm1) = Some (r, vm2)" "spends vm1 vm2"
        unfolding runEnds_def spends_guards by blast
      then show ?thesis using tg RFunction spends_trans[OF s]
        by - (rule exI[of _ n], rule exI[of _ r], rule exI[of _ "popOrigin vm2"], simp add: spends_guards)
    next
      case (REfun e)
      obtain name where nm: "eEfuns env name = Some e" using closureTarget_efun tg REfun by blast
      obtain r vm2 where r: "e (enterFrame owner (clFunction c) vm1) as = (r, vm2)" by fastforce
      have "noLambda (enterFrame owner (clFunction c) vm1)" using s by (simp add: spends_guards spends_noLambda)
      then have "spends (enterFrame owner (clFunction c) vm1) vm2"
        using E nm r unfolding efunsSpend_def by (metis snd_conv)
      then show ?thesis using tg REfun r spends_trans[OF s] by (auto simp: spends_guards)
    qed (use tg s in auto)
  qed
  have "\<exists>n r vm'. closureBody (interp n) env cl args vm = Some (r, vm') \<and> spends vm vm'"
  proof (cases cl)
    case cl: (Some r)
    show ?thesis
    proof (cases "vmClosures vm r")
      case c: (Some c)
      have nb: "\<not> vdata (clLambdaBody c) \<noteq> VVoid" using nl c unfolding noLambda_def by blast
      show ?thesis
      proof (cases "lock (vmHeap vm) (clOwner c)")
        case lk: (Some owner)
        show ?thesis
        proof (cases "clUnbound c \<or> (case vmHeap vm owner of Some ob \<Rightarrow> destructed ob | None \<Rightarrow> False)")
          case True
          with cl c lk refl show ?thesis unfolding closureBody_def by auto
        next
          case False
          then have g: "\<not> clUnbound c" "\<not> (case vmHeap vm owner of Some ob \<Rightarrow> destructed ob | None \<Rightarrow> False)" by blast+
          show ?thesis
            unfolding closureBody_def cl c lk option.case Let_def if_not_P[OF g(1)] if_not_P[OF g(2)] if_not_P[OF nb] by (rule t)
        qed
      qed (use cl c refl in \<open>auto simp: closureBody_def\<close>)
    qed (use cl refl in \<open>auto simp: closureBody_def\<close>)
  qed (use refl in \<open>auto simp: closureBody_def\<close>)
  then show "\<exists>n r vm'. iClosure (interp n) env cl args vm = Some (r, vm') \<and> spends vm vm'"
    unfolding iClosure_Suc[symmetric] by blast
qed

lemma defers_end:
  assumes cl: "\<And>vm'. budget vm' \<le> budget vm \<Longrightarrow> noLambda vm' \<Longrightarrow> closureEnds env vm'" and nl: "noLambda vm"
  shows "defersEnd env vm"
  unfolding defersEnd_def
proof (intro allI)
  fix ds
  show "\<exists>n u vm'. iDefers (interp n) env ds vm = Some (u, vm') \<and> spends vm vm'"
    using assms
  proof (induction ds arbitrary: vm)
    case Nil
    then have "spends vm vm" by (simp add: spends_def)
    moreover have "iDefers (interp 1) env [] vm = Some (False, vm)" by (simp add: defersBody_def)
    ultimately show ?case by blast
  next
    case (Cons d ds)
    let ?vm1 = "pushCommandGiver (deCommandGiver d) vm"
    have "closureEnds env ?vm1" using Cons.prems by (simp add: spends_guards)
    then obtain n1 r vm1 where c: "iClosure (interp n1) env (deClosure d) [] ?vm1 = Some (r, vm1)" "spends vm vm1"
      unfolding closureEnds_def spends_guards by blast
    have s: "spends vm (popCommandGiver vm1)" using c(2) by (simp add: spends_guards)
    obtain n2 u vm2 where v: "iDefers (interp n2) env ds (popCommandGiver vm1) = Some (u, vm2)" "spends (popCommandGiver vm1) vm2"
      using Cons.IH[of "popCommandGiver vm1"] Cons.prems(1) spends_budget[OF s] spends_noLambda[OF s] by force
    let ?n = "max n1 n2"
    have "iClosure (interp ?n) env (deClosure d) [] ?vm1 = Some (r, vm1)" "iDefers (interp ?n) env ds (popCommandGiver vm1) = Some (u, vm2)"
      using leID(4)[OF interp_mono c(1)] leID(3)[OF interp_mono v(1)] by simp_all
    then have "iDefers (interp (Suc ?n)) env (d # ds) vm = Some (u \<or> r = Inl VUndef, vm2)"
      by (simp only: iDefers_Suc defersBody_def list.case option.case prod.case)
    with spends_trans[OF s v(2)] show ?case by blast
  qed
qed

lemma all_end:
  assumes "efunsSpend env"
  shows "noLambda vm \<Longrightarrow> execEnds env vm \<and> runEnds env vm \<and> closureEnds env vm \<and> defersEnd env vm"
proof (induction vm rule: measure_induct_rule[of budget])
  case (less vm)
  have ex: "execEnds env vm'" if "budget vm' \<le> budget vm" "noLambda vm'" for vm'
    using less.IH that by (intro exec_ends[OF assms]) auto
  have ru: "runEnds env vm'" if "budget vm' \<le> budget vm" "noLambda vm'" for vm'
    using less.IH that ex by (intro run_ends) auto
  have cl: "closureEnds env vm'" if "budget vm' \<le> budget vm" "noLambda vm'" for vm'
    using that ru by (intro closure_ends[OF assms]) auto
  show ?case using ex ru cl defers_end[OF cl less.prems] less.prems by simp
qed

text \<open>
  C6. Every function call comes to an end: loops, unbounded recursion, deferred closures that defer again and errors that are caught
  over and over included. The model's fuel is only a bound, and enough of it exists for every call. The conditions are that each efun it
  calls returns (an efun is a total function here) and gives no budget back, and that the machine holds no bodies of
  \<^verbatim>\<open>unbound_lambda\<close>, which are walked without being charged. The driver itself does not see to the first: \<^verbatim>\<open>reset_eval_cost()\<close> and
  \<^verbatim>\<open>set_eval_limit()\<close> refill the budget, and the theory \<^verbatim>\<open>Eval_Limit\<close> has a loop that is never stopped.
\<close>

theorem vm_run_ends:
  assumes "efunsSpend env" "noLambda vm"
  shows "\<exists>n res vm'. run n env p fn args obj vm = Some (res, vm') \<and> evalCost vm \<le> evalCost vm'"
proof -
  have "runEnds env vm" using all_end[OF assms] by blast
  then show ?thesis unfolding runEnds_def run_def spends_def by meson
qed

theorem vm_run_ends_witness:
  "\<exists>n res vm'. run n exampleEnv exampleProgram (exampleFn ''spin'' 5) [] 0 (exampleVm\<lparr>maxEvalCost := 10000000\<rparr>) = Some (res, vm')"
proof -
  have nl: "noLambda (exampleVm\<lparr>maxEvalCost := 10000000\<rparr>)" by (simp add: noLambda_def exampleVm_def)
  have "efunsSpend exampleEnv" by (auto simp: efunsSpend_def spends_def exampleEnv_def)
  from vm_run_ends[OF this nl] show ?thesis by blast
qed

text \<open>
  C10. \<^verbatim>\<open>catch()\<close> does not stop the budget error. Once the budget is used up, no instruction takes effect any more: whatever catch frames
  are active, the next turn of the loop raises \<^verbatim>\<open>EvalCostError\<close> out of the function.
\<close>

theorem eval_limit_not_caught:
  assumes "maxEvalCost vm \<le> evalCost vm" "ip fr < length (code p)"
  shows "exec (Suc n) env p fname obj base fr vm =
    Some (Inl (VExn (EvalCostError ''eval cost exceeded'')), vm\<lparr>evalCost := evalCost vm + 1\<rparr>)"
  using assms by (simp add: exec_def execBody_def chargedStep_limit catchError_def)

theorem eval_limit_not_caught_witness:
  "exec 1 exampleEnv exampleProgram ''main'' 0 0 \<lparr>locals = [], stk = [], delta = 0, ip = 1, catches = [(4, 0)]\<rparr>
     (exampleVm\<lparr>evalCost := 5\<rparr>) =
   Some (Inl (VExn (EvalCostError ''eval cost exceeded'')), exampleVm\<lparr>evalCost := 6\<rparr>)"
  using eval_limit_not_caught[of "exampleVm\<lparr>evalCost := 5\<rparr>" "\<lparr>locals = [], stk = [], delta = 0, ip = 1, catches = [(4, 0)]\<rparr>"
      exampleProgram 0 exampleEnv "''main''" 0 0]
  by (simp add: exampleVm_def exampleProgram_def)

end
