(* ===== verification/Eval_Limit.thy ===== *)
theory Eval_Limit
  imports Vm_Ends Efun_Base
begin

text \<open>
  The efuns that read and change the evaluation budget (\<^verbatim>\<open>set_eval_limit\<close>, \<^verbatim>\<open>reset_eval_cost\<close>, \<^verbatim>\<open>eval_cost\<close> and
  \<^verbatim>\<open>max_eval_cost\<close> of \<^verbatim>\<open>src/efun/EfunTable.cpp\<close>), and what a program can do with them.
\<close>

section \<open>The efuns\<close>

text \<open>The budget is an \<^verbatim>\<open>int64_t\<close> that no run brings near its bounds; a result is cut to this width.\<close>

definition evalLimitDispatch :: "int \<Rightarrow> vm \<Rightarrow> vm_result \<times> vm" where
  "evalLimitDispatch x vm =
     (if x = 0 then efValue (vInt (word_of_int (maxEvalCost vm))) (vm\<lparr>evalCost := 0\<rparr>)
      else if x = -1 then efValue (vInt (word_of_int (maxEvalCost vm - evalCost vm))) vm
      else if x = 1 then efValue (vInt (word_of_int (maxEvalCost vm))) vm
      else efValue (vInt (word_of_int x)) (vm\<lparr>maxEvalCost := x\<rparr>))"

definition efunSetEvalLimit :: "vm \<Rightarrow> lvalue list \<Rightarrow> vm_result \<times> vm" where
  "efunSetEvalLimit vm args =
     (case intAt args 0 of
        None \<Rightarrow> efThrow ''set_eval_limit: expected an int argument'' vm
      | Some x \<Rightarrow> evalLimitDispatch x vm)"

definition efunResetEvalCost :: "vm \<Rightarrow> lvalue list \<Rightarrow> vm_result \<times> vm" where
  "efunResetEvalCost vm args = evalLimitDispatch (case intAt args 0 of None \<Rightarrow> 0 | Some x \<Rightarrow> x) vm"

definition efunEvalCost :: "vm \<Rightarrow> lvalue list \<Rightarrow> vm_result \<times> vm" where
  "efunEvalCost vm args = evalLimitDispatch (case intAt args 0 of None \<Rightarrow> -1 | Some x \<Rightarrow> x) vm"

definition efunMaxEvalCost :: "vm \<Rightarrow> lvalue list \<Rightarrow> vm_result \<times> vm" where
  "efunMaxEvalCost vm args = evalLimitDispatch (case intAt args 0 of None \<Rightarrow> 1 | Some x \<Rightarrow> x) vm"

text \<open>The two queries spend; the others give budget back whatever was left of it.\<close>

lemma eval_queries_spend:
  "noLambda vm \<Longrightarrow> x \<in> {-1, 1} \<Longrightarrow> spends vm (snd (evalLimitDispatch x vm))"
  by (auto simp: evalLimitDispatch_def efValue_def spends_def)

lemma eval_reset_refills:
  "budget (snd (evalLimitDispatch 0 vm)) = nat (maxEvalCost vm)"
  "x \<notin> {-1, 0, 1} \<Longrightarrow> budget (snd (evalLimitDispatch x vm)) = nat (x - evalCost vm)"
  by (auto simp: evalLimitDispatch_def efValue_def budget_def)

section \<open>A loop that is never stopped\<close>

text \<open>The code of \<^verbatim>\<open>while (1) efun::reset_eval_cost();\<close> as a function without arguments.\<close>

definition resetProgram :: CompiledProgram where
  "resetProgram = CompiledProgram 1
     [ins PushInt 1, ins JumpIfFalse 5, ins CallEfun 0, ins OpPop 0, ins Jump 0, ins OpReturn 0]
     [exampleFn ''main'' 0] [''reset_eval_cost''] [] [] [] [] Map.empty"

lemma reset_code: "code resetProgram = [ins PushInt 1, ins JumpIfFalse 5, ins CallEfun 0, ins OpPop 0, ins Jump 0, ins OpReturn 0]"
  by (simp add: resetProgram_def)

lemma reset_step:
  assumes "eEfuns env ''reset_eval_cost'' = Some efunResetEvalCost" "evalCost vm < maxEvalCost vm"
  shows "ip fr = 0 \<Longrightarrow> chargedStep env resetProgram obj base fr vm = Go (fr\<lparr>stk := vInt 1 # stk fr, ip := 1\<rparr>) (vm\<lparr>evalCost := evalCost vm + 1\<rparr>)"
    "ip fr = 1 \<Longrightarrow> stk fr = vInt 1 # vs \<Longrightarrow> chargedStep env resetProgram obj base fr vm = Go (fr\<lparr>stk := vs, ip := 2\<rparr>) (vm\<lparr>evalCost := evalCost vm + 1\<rparr>)"
    "ip fr = 2 \<Longrightarrow> delta fr = 0 \<Longrightarrow> chargedStep env resetProgram obj base fr vm = InvokeEfun efunResetEvalCost [] fr (vm\<lparr>evalCost := evalCost vm + 1\<rparr>)"
    "ip fr = 3 \<Longrightarrow> chargedStep env resetProgram obj base fr vm = Go (fr\<lparr>stk := tl (stk fr), ip := 4\<rparr>) (vm\<lparr>evalCost := evalCost vm + 1\<rparr>)"
    "ip fr = 4 \<Longrightarrow> chargedStep env resetProgram obj base fr vm = Go (fr\<lparr>ip := 0\<rparr>) (vm\<lparr>evalCost := evalCost vm + 1\<rparr>)"
proof -
  have c: "\<not> maxEvalCost vm \<le> evalCost vm" using assms(2) by simp
  note u = chargedStep_def step_def reset_code assms(1) c ins_def Let_def
  show "ip fr = 0 \<Longrightarrow> chargedStep env resetProgram obj base fr vm = Go (fr\<lparr>stk := vInt 1 # stk fr, ip := 1\<rparr>) (vm\<lparr>evalCost := evalCost vm + 1\<rparr>)"
    by (simp add: u opPushInt_def pushGo_def nxt_def)
  show "ip fr = 1 \<Longrightarrow> stk fr = vInt 1 # vs \<Longrightarrow> chargedStep env resetProgram obj base fr vm = Go (fr\<lparr>stk := vs, ip := 2\<rparr>) (vm\<lparr>evalCost := evalCost vm + 1\<rparr>)"
    by (simp add: u opJumpIfFalse_def withOne_def nxt_def isTruthy_def vInt_def mkValue_def)
  show "ip fr = 2 \<Longrightarrow> delta fr = 0 \<Longrightarrow> chargedStep env resetProgram obj base fr vm = InvokeEfun efunResetEvalCost [] fr (vm\<lparr>evalCost := evalCost vm + 1\<rparr>)"
    by (simp add: u opCallEfun_def poolAt_def resetProgram_def takeCount_def popArgs_def to_int32_id)
  show "ip fr = 3 \<Longrightarrow> chargedStep env resetProgram obj base fr vm = Go (fr\<lparr>stk := tl (stk fr), ip := 4\<rparr>) (vm\<lparr>evalCost := evalCost vm + 1\<rparr>)"
    by (simp add: u nxt_def)
  show "ip fr = 4 \<Longrightarrow> chargedStep env resetProgram obj base fr vm = Go (fr\<lparr>ip := 0\<rparr>) (vm\<lparr>evalCost := evalCost vm + 1\<rparr>)"
    by (simp add: u opJump_def badTarget_def)
qed

lemma exec_unfold:
  "ip fr < 6 \<Longrightarrow> chargedStep env resetProgram obj base fr vm = Go fr' vm' \<Longrightarrow>
     iExec (interp (Suc n)) env resetProgram f obj base fr vm = iExec (interp n) env resetProgram f obj base fr' vm'"
  by (simp add: execBody_def reset_code)

lemma reset_loop:
  assumes e: "eEfuns env ''reset_eval_cost'' = Some efunResetEvalCost"
  shows "5 \<le> maxEvalCost vm \<Longrightarrow> evalCost vm \<le> 2 \<Longrightarrow> ip fr = 0 \<Longrightarrow> delta fr = 0 \<Longrightarrow>
    iExec (interp n) env resetProgram f obj base fr vm = None"
proof (induction n arbitrary: fr vm rule: less_induct)
  case (less n)
  let ?E = "\<lambda>n. iExec (interp n) env resetProgram f obj base"
  have none: "?E 0 fr vm = None" for fr vm by (simp add: outOfFuel_def)
  define fr1 where "fr1 = fr\<lparr>stk := vInt 1 # stk fr, ip := 1\<rparr>"
  define fr2 where "fr2 = fr1\<lparr>stk := stk fr, ip := 2\<rparr>"
  define vm3 where "vm3 = vm\<lparr>evalCost := evalCost vm + 1 + 1 + 1\<rparr>"
  define v where "v = vInt (word_of_int (maxEvalCost vm))"
  define fr3 where "fr3 = fr2\<lparr>stk := v # stk fr2, ip := 3\<rparr>"
  have s0: "?E (Suc k) fr vm = ?E k fr1 (vm\<lparr>evalCost := evalCost vm + 1\<rparr>)" for k
    by (rule exec_unfold) (use less.prems reset_step(1)[OF e] in \<open>simp_all add: fr1_def\<close>)
  have s1: "?E (Suc k) fr1 (vm\<lparr>evalCost := evalCost vm + 1\<rparr>) = ?E k fr2 (vm\<lparr>evalCost := evalCost vm + 1 + 1\<rparr>)" for k
    by (rule exec_unfold) (use less.prems reset_step(2)[OF e] in \<open>simp_all add: fr1_def fr2_def\<close>)
  have s2: "?E (Suc k) fr2 (vm\<lparr>evalCost := evalCost vm + 1 + 1\<rparr>) = ?E k fr3 (vm\<lparr>evalCost := 0\<rparr>)" for k
    using less.prems reset_step(3)[OF e, of "vm\<lparr>evalCost := evalCost vm + 1 + 1\<rparr>" fr2]
    by (simp add: execBody_def reset_code fr3_def v_def efunResetEvalCost_def evalLimitDispatch_def efValue_def nxt_def fr2_def fr1_def)
  have s3: "?E (Suc k) fr3 (vm\<lparr>evalCost := 0\<rparr>) = ?E k (fr3\<lparr>stk := stk fr2, ip := 4\<rparr>) (vm\<lparr>evalCost := 1\<rparr>)" for k
    by (rule exec_unfold) (use less.prems reset_step(4)[OF e, of "vm\<lparr>evalCost := 0\<rparr>" fr3] in \<open>simp_all add: fr3_def\<close>)
  have s4: "?E (Suc k) (fr3\<lparr>stk := stk fr2, ip := 4\<rparr>) (vm\<lparr>evalCost := 1\<rparr>) = ?E k (fr3\<lparr>stk := stk fr2, ip := 0\<rparr>) (vm\<lparr>evalCost := 2\<rparr>)" for k
    by (rule exec_unfold) (use less.prems reset_step(5)[OF e, of "vm\<lparr>evalCost := 1\<rparr>" "fr3\<lparr>stk := stk fr2, ip := 4\<rparr>"] in \<open>simp_all\<close>)
  have again: "?E k (fr3\<lparr>stk := stk fr2, ip := 0\<rparr>) (vm\<lparr>evalCost := 2\<rparr>) = None" if "k < n" for k
    by (rule less.IH[OF that]) (use less.prems in \<open>simp_all add: fr3_def fr2_def fr1_def\<close>)
  show ?case
    using s0[of "n - 1"] s1[of "n - 2"] s2[of "n - 3"] s3[of "n - 4"] s4[of "n - 5"] again[of "n - 5"] none
    by (cases "n = 0"; cases "n = 1"; cases "n = 2"; cases "n = 3"; cases "n = 4") (simp_all add: Suc_diff_Suc numeral_eq_Suc del: interp.simps)
qed

text \<open>
  A program can switch the evaluation limit off: nothing guards \<^verbatim>\<open>reset_eval_cost()\<close>, so the function
  \<^verbatim>\<open>while (1) efun::reset_eval_cost();\<close> is never stopped. From every machine with room for five instructions, whatever the limit is,
  no amount of fuel brings a result.
\<close>

theorem reset_eval_cost_never_ends:
  assumes "eEfuns env ''reset_eval_cost'' = Some efunResetEvalCost" "programOf vm obj = Some resetProgram"
    "evalCost vm \<le> 2" "5 \<le> maxEvalCost vm"
  shows "run n env resetProgram (exampleFn ''main'' 0) [] obj vm = None"
proof (cases n)
  case (Suc k)
  let ?vm1 = "pushDefers (enterFrame obj ''main'' vm)"
  obtain ls vm2 where b: "bindLocals (exampleFn ''main'' 0) [] ?vm1 = (ls, vm2)" by fastforce
  have c: "evalCost vm2 = evalCost vm" "maxEvalCost vm2 = maxEvalCost vm"
    using b by (auto simp: bindLocals_def exampleFn_def pushDefers_def enterFrame_def)
  have v: "objectVarBase resetProgram obj ?vm1 = Inr 0"
  proof -
    have "programOf ?vm1 obj = Some resetProgram" using assms(2) by (cases "vmHeap vm obj") (simp_all add: programOf_def pushDefers_def enterFrame_def)
    then show ?thesis by (simp add: objectVarBase_def)
  qed
  have "iExec (interp k) env resetProgram ''main'' obj 0 (newFrame (exampleFn ''main'' 0) ls) vm2 = None"
    by (rule reset_loop[OF assms(1)]) (use assms(3,4) c in \<open>simp_all add: newFrame_def exampleFn_def\<close>)
  then show ?thesis using b v Suc by (simp add: run_def runBody_def exampleFn_def)
qed (simp add: run_def outOfFuel_def)

definition resetEnv :: vm_env where
  "resetEnv = \<lparr>eEfuns = [''reset_eval_cost'' \<mapsto> efunResetEvalCost], eSscanf = \<lambda>_ _ _. Inl VUndef\<rparr>"

definition resetVm :: vm where
  "resetVm = exampleVm\<lparr>vmPrograms := [1 \<mapsto> resetProgram]\<rparr>"

theorem reset_eval_cost_never_ends_witness:
  "\<forall>n. run n resetEnv resetProgram (exampleFn ''main'' 0) [] 0 resetVm = None"
proof -
  have "programOf resetVm 0 = Some resetProgram" by (simp add: programOf_def resetVm_def exampleVm_def newLpcObject_def)
  then show ?thesis using reset_eval_cost_never_ends[of resetEnv resetVm 0] by (simp add: resetEnv_def resetVm_def exampleVm_def)
qed

end
