(* ===== verification/Conn_State.thy ===== *)
theory Conn_State
  imports Lpc_Value
begin

text \<open>
  The state of \<^verbatim>\<open>class Connection\<close> (\<^verbatim>\<open>include/kjdmud/net/Connection.hpp\<close>) as a record, the transport
  calls under it and \<^verbatim>\<open>Connection::send\<close>. The kernel (and OpenSSL) decide how much of a write is
  taken: their successive answers are the list \<^verbatim>\<open>writeAnswers\<close> of the record, and an exhausted list
  stands for a socket that takes everything it is given. \<^verbatim>\<open>wireOut\<close> is the sequence of bytes the
  kernel has accepted.
\<close>

section \<open>The connection record\<close>

datatype TelnetState = TsData | TsIac | TsWill | TsWont | TsDo | TsDont | TsSb | TsSbIac

record PendingInputTo =
  pitObject :: "ref option"
  pitFunction :: lvalue
  pitExtraArgs :: "lvalue list"

text \<open>
  One answer of \<^verbatim>\<open>::write\<close>: a byte count or an errno; with TLS, the return code of
  \<^verbatim>\<open>SSL_write\<close> and the class of \<^verbatim>\<open>SSL_get_error\<close>.
\<close>

datatype errno = EINTR | EAGAIN | EWOULDBLOCK | EIO

datatype ssl_error = SslWantRead | SslWantWrite | SslZeroReturn | SslOther

datatype io_answer = SysAnswer int errno | SslAnswer int ssl_error

record connection =
  fd :: int
  localPort :: int
  ssl :: bool
  useWebSocket :: bool
  wsHandshakeDone :: bool
  telnetOffered :: bool
  wsHttpBuffer :: "byte list"
  wsFrameBuffer :: "byte list"
  wsPendingSend :: "byte list"
  encoding :: string
  gmcpEnabled :: bool
  gmcpEnableNegotiated :: bool
  incomingGmcp :: "byte list list"
  msspNegotiated :: bool
  msdpEnabled :: bool
  msdpEnableNegotiated :: bool
  incomingMsdp :: "(byte list \<times> byte list) list"
  mxpEnabled :: bool
  mspEnabled :: bool
  mspEnableNegotiated :: bool
  zmpEnabled :: bool
  incomingZmp :: "(byte list \<times> byte list list) list"
  inputBuffer :: "byte list"
  boundObject :: "ref option"
  closed :: bool
  pendingInputTo :: "PendingInputTo option"
  pendingNotifyFail :: "lvalue option"
  lastActivityTime :: int
  telnetState :: TelnetState
  sbBuffer :: "byte list"
  echoSuppressed :: bool
  terminalWidth :: int
  terminalHeight :: int
  windowSizeUpdated :: bool
  terminalType :: "byte list"
  terminalTypeUpdated :: bool
  writeAnswers :: "io_answer list"
  wireOut :: "byte list"

text \<open>The constructor \<^verbatim>\<open>Connection(int fd)\<close> with the member initialisers of the class.\<close>

definition newConnection :: "int \<Rightarrow> int \<Rightarrow> connection" where
  "newConnection f now =
    \<lparr>fd = f, localPort = 0, ssl = False, useWebSocket = False, wsHandshakeDone = False,
     telnetOffered = False, wsHttpBuffer = [], wsFrameBuffer = [], wsPendingSend = [],
     encoding = ''utf-8'', gmcpEnabled = False, gmcpEnableNegotiated = False, incomingGmcp = [],
     msspNegotiated = False, msdpEnabled = False, msdpEnableNegotiated = False, incomingMsdp = [],
     mxpEnabled = False, mspEnabled = False, mspEnableNegotiated = False, zmpEnabled = False,
     incomingZmp = [], inputBuffer = [], boundObject = None, closed = False,
     pendingInputTo = None, pendingNotifyFail = None, lastActivityTime = now,
     telnetState = TsData, sbBuffer = [], echoSuppressed = False, terminalWidth = 0,
     terminalHeight = 0, windowSizeUpdated = False, terminalType = [],
     terminalTypeUpdated = False, writeAnswers = [], wireOut = []\<rparr>"

definition bytes_of :: "string \<Rightarrow> byte list" where
  "bytes_of s = map (\<lambda>c. word_of_nat (of_char c)) s"

definition chars_of :: "byte list \<Rightarrow> string" where
  "chars_of bs = map (\<lambda>b. char_of (unat b)) bs"

section \<open>The transport\<close>

text \<open>
  \<^verbatim>\<open>rawWrite\<close> and \<^verbatim>\<open>rawRead\<close> translate an answer into a return code and an errno. A positive
  return code is a byte count; on TLS a wish to wait becomes \<^verbatim>\<open>EAGAIN\<close>, for a read a clean
  shutdown becomes 0, and anything else \<^verbatim>\<open>EIO\<close>.
\<close>

definition rawWrite :: "io_answer \<Rightarrow> int \<times> errno" where
  "rawWrite a = (case a of
     SysAnswer rc e \<Rightarrow> (rc, e)
   | SslAnswer rc err \<Rightarrow>
       if rc > 0 then (rc, EIO)
       else if err = SslWantRead \<or> err = SslWantWrite then (-1, EAGAIN)
       else (-1, EIO))"

definition rawRead :: "io_answer \<Rightarrow> int \<times> errno" where
  "rawRead a = (case a of
     SysAnswer rc e \<Rightarrow> (rc, e)
   | SslAnswer rc err \<Rightarrow>
       if rc > 0 then (rc, EIO)
       else if err = SslWantRead \<or> err = SslWantWrite then (-1, EAGAIN)
       else if err = SslZeroReturn then (0, EIO)
       else (-1, EIO))"

text \<open>
  The write loop of \<^verbatim>\<open>send\<close>: bytes still to write against the pending answers. A kernel never
  reports more bytes than it was offered, so a count is clipped to the bytes left. \<^verbatim>\<open>EINTR\<close>
  retries; every other error and a count of 0 leave the loop and drop what is left.
\<close>

fun sendLoop :: "io_answer list \<Rightarrow> byte list \<Rightarrow> byte list \<times> io_answer list" where
  "sendLoop as [] = ([], as)"
| "sendLoop [] (b # bs) = (b # bs, [])"
| "sendLoop (a # as) (b # bs) =
     (let (n, e) = rawWrite a in
      if n < 0 then (if e = EINTR then sendLoop as (b # bs) else ([], as))
      else if n = 0 then ([], as)
      else let (acc, rest) = sendLoop as (drop (nat n) (b # bs))
           in (take (nat n) (b # bs) @ acc, rest))"

definition writeWire :: "byte list \<Rightarrow> connection \<Rightarrow> connection" where
  "writeWire wire c =
     (let (acc, rest) = sendLoop (writeAnswers c) wire
      in c\<lparr>writeAnswers := rest, wireOut := wireOut c @ acc\<rparr>)"

section \<open>WebSocket frames sent\<close>

definition len_byte :: "nat \<Rightarrow> nat \<Rightarrow> byte" where
  "len_byte n i = word_of_nat (n div 2 ^ (8 * i))"

definition encodeWsFrame :: "byte list \<Rightarrow> byte list" where
  "encodeWsFrame payload =
     (let len = length payload in
      0x81 #
      (if len \<le> 125 then [word_of_nat len]
       else if len \<le> 0xffff then [126, len_byte len 1, len_byte len 0]
       else 127 # map (len_byte len) [7, 6, 5, 4, 3, 2, 1, 0])
      @ payload)"

section \<open>send\<close>

definition send :: "byte list \<Rightarrow> connection \<Rightarrow> connection" where
  "send bs c =
     (if fd c < 0 then c
      else if useWebSocket c \<and> \<not> wsHandshakeDone c
      then c\<lparr>wsPendingSend := wsPendingSend c @ bs\<rparr>
      else writeWire (if useWebSocket c \<and> wsHandshakeDone c then encodeWsFrame bs else bs) c)"

section \<open>Lemmas\<close>

lemma sendLoop_healthy [simp]: "sendLoop [] bs = (bs, [])"
  by (cases bs) simp_all

lemma sendLoop_prefix: "prefix (fst (sendLoop as bs)) bs"
proof (induction as bs rule: sendLoop.induct)
  case (3 a as b bs)
  obtain n e where ne: "rawWrite a = (n, e)" by (cases "rawWrite a")
  obtain acc rest where acc: "sendLoop as (drop (nat n) (b # bs)) = (acc, rest)"
    by (cases "sendLoop as (drop (nat n) (b # bs))")
  have "prefix (take (nat n) (b # bs) @ acc) (b # bs)" if "\<not> n < 0" "n \<noteq> 0"
    using "3.IH"(2)[OF refl ne[symmetric] that(1) that(2)] acc
    by (metis append_take_drop_id fst_conv same_prefix_prefix)
  with 3 ne acc show ?case by (auto simp: Let_def split: prod.splits)
qed simp_all

lemma writeWire_healthy: "writeAnswers c = [] \<Longrightarrow> writeWire w c = c\<lparr>wireOut := wireOut c @ w\<rparr>"
  by (simp add: writeWire_def)

text \<open>Sending touches only the three transport fields.\<close>

definition same_but_transport :: "connection \<Rightarrow> connection \<Rightarrow> bool" where
  "same_but_transport c c' \<longleftrightarrow>
     c' = c\<lparr>wsPendingSend := wsPendingSend c', writeAnswers := writeAnswers c', wireOut := wireOut c'\<rparr>"

lemma send_same_but_transport [simp]: "same_but_transport c (send bs c)"
  by (auto simp: same_but_transport_def send_def writeWire_def Let_def split: prod.splits)

lemma send_frame [simp, conn_frame]:
  "fd (send bs c) = fd c" "localPort (send bs c) = localPort c" "ssl (send bs c) = ssl c"
  "useWebSocket (send bs c) = useWebSocket c" "wsHandshakeDone (send bs c) = wsHandshakeDone c"
  "telnetOffered (send bs c) = telnetOffered c" "wsHttpBuffer (send bs c) = wsHttpBuffer c"
  "wsFrameBuffer (send bs c) = wsFrameBuffer c" "encoding (send bs c) = encoding c"
  "gmcpEnabled (send bs c) = gmcpEnabled c"
  "gmcpEnableNegotiated (send bs c) = gmcpEnableNegotiated c"
  "incomingGmcp (send bs c) = incomingGmcp c" "msspNegotiated (send bs c) = msspNegotiated c"
  "msdpEnabled (send bs c) = msdpEnabled c"
  "msdpEnableNegotiated (send bs c) = msdpEnableNegotiated c"
  "incomingMsdp (send bs c) = incomingMsdp c" "mxpEnabled (send bs c) = mxpEnabled c"
  "mspEnabled (send bs c) = mspEnabled c" "mspEnableNegotiated (send bs c) = mspEnableNegotiated c"
  "zmpEnabled (send bs c) = zmpEnabled c" "incomingZmp (send bs c) = incomingZmp c"
  "inputBuffer (send bs c) = inputBuffer c" "boundObject (send bs c) = boundObject c"
  "closed (send bs c) = closed c" "pendingInputTo (send bs c) = pendingInputTo c"
  "pendingNotifyFail (send bs c) = pendingNotifyFail c"
  "lastActivityTime (send bs c) = lastActivityTime c" "telnetState (send bs c) = telnetState c"
  "sbBuffer (send bs c) = sbBuffer c" "echoSuppressed (send bs c) = echoSuppressed c"
  "terminalWidth (send bs c) = terminalWidth c" "terminalHeight (send bs c) = terminalHeight c"
  "windowSizeUpdated (send bs c) = windowSizeUpdated c"
  "terminalType (send bs c) = terminalType c"
  "terminalTypeUpdated (send bs c) = terminalTypeUpdated c"
  by (simp_all add: send_def writeWire_def Let_def split: prod.splits)

section \<open>Property\<close>

text \<open>
  What \<^verbatim>\<open>send\<close> puts on the wire: nothing on a closed descriptor; before the WebSocket upgrade
  everything is held back, in order, in \<^verbatim>\<open>wsPendingSend\<close>; otherwise a prefix of the (framed) data,
  and all of it when the socket takes every write. No other field of the connection changes.
\<close>

theorem send_wire:
  "same_but_transport c (send bs c) \<and>
   (fd c < 0 \<longrightarrow> send bs c = c) \<and>
   (0 \<le> fd c \<and> useWebSocket c \<and> \<not> wsHandshakeDone c \<longrightarrow>
      wsPendingSend (send bs c) = wsPendingSend c @ bs \<and> wireOut (send bs c) = wireOut c) \<and>
   (0 \<le> fd c \<and> \<not> (useWebSocket c \<and> \<not> wsHandshakeDone c) \<longrightarrow>
      (\<exists>acc. wireOut (send bs c) = wireOut c @ acc \<and>
             prefix acc (if useWebSocket c then encodeWsFrame bs else bs) \<and>
             (writeAnswers c = [] \<longrightarrow> acc = (if useWebSocket c then encodeWsFrame bs else bs))))"
proof -
  have "\<exists>acc. wireOut (writeWire w c) = wireOut c @ acc \<and> prefix acc w \<and>
          (writeAnswers c = [] \<longrightarrow> acc = w)" for w
    using sendLoop_prefix[of "writeAnswers c" w]
    by (cases "sendLoop (writeAnswers c) w") (auto simp: writeWire_def)
  then show ?thesis
    by (intro conjI send_same_but_transport) (auto simp: send_def)
qed

theorem send_wire_witness:
  "wireOut (send [65, 66] ((newConnection 5 0)\<lparr>writeAnswers := [SysAnswer (-1) EINTR, SysAnswer 1 EIO, SysAnswer (-1) EAGAIN]\<rparr>)) = [65]
   \<and> wireOut (send [65, 66] (newConnection 5 0)) = [65, 66]"
  using send_wire[of "newConnection 5 0" "[65, 66]"]
  by (simp add: newConnection_def send_def writeWire_def rawWrite_def)

end
