(* ===== verification/Telnet.thy ===== *)
theory Telnet
  imports Conn_State
begin

text \<open>
  The telnet layer of \<^verbatim>\<open>src/net/Connection.cpp\<close>: escaping of subnegotiation payloads and the
  \<^verbatim>\<open>sendX\<close> operations, option negotiation, subnegotiation, and the byte-level state machine
  \<^verbatim>\<open>processTelnetBytes\<close>. The lemmas show that the state machine takes apart exactly what the
  sending side puts together: escaped text, GMCP, MSDP and ZMP frames in any order.
\<close>

section \<open>Constants\<close>

abbreviation kIac :: byte where "kIac \<equiv> 255"
abbreviation kDont :: byte where "kDont \<equiv> 254"
abbreviation kDo :: byte where "kDo \<equiv> 253"
abbreviation kWont :: byte where "kWont \<equiv> 252"
abbreviation kWill :: byte where "kWill \<equiv> 251"
abbreviation kSb :: byte where "kSb \<equiv> 250"
abbreviation kSe :: byte where "kSe \<equiv> 240"
abbreviation kTelOptEcho :: byte where "kTelOptEcho \<equiv> 1"
abbreviation kTelOptTtype :: byte where "kTelOptTtype \<equiv> 24"
abbreviation kTelOptNaws :: byte where "kTelOptNaws \<equiv> 31"
abbreviation kTelOptGmcp :: byte where "kTelOptGmcp \<equiv> 201"
abbreviation kTelOptMssp :: byte where "kTelOptMssp \<equiv> 70"
abbreviation kTelOptMsdp :: byte where "kTelOptMsdp \<equiv> 69"
abbreviation kTelOptMxp :: byte where "kTelOptMxp \<equiv> 91"
abbreviation kTelOptMsp :: byte where "kTelOptMsp \<equiv> 90"
abbreviation kTelOptZmp :: byte where "kTelOptZmp \<equiv> 93"
abbreviation kTelQualIs :: byte where "kTelQualIs \<equiv> 0"
abbreviation kTelQualSend :: byte where "kTelQualSend \<equiv> 1"
abbreviation kMsspVar :: byte where "kMsspVar \<equiv> 1"
abbreviation kMsspVal :: byte where "kMsspVal \<equiv> 2"
abbreviation kMsdpVar :: byte where "kMsdpVar \<equiv> 1"
abbreviation kMsdpVal :: byte where "kMsdpVal \<equiv> 2"

section \<open>Sending\<close>

fun appendIacEscaped :: "byte list \<Rightarrow> byte list \<Rightarrow> byte list" where
  "appendIacEscaped out [] = out"
| "appendIacEscaped out (c # cs) =
     appendIacEscaped (if c = kIac then out @ [c, kIac] else out @ [c]) cs"

definition gmcpWire :: "byte list \<Rightarrow> byte list" where
  "gmcpWire package = appendIacEscaped [kIac, kSb, kTelOptGmcp] package @ [kIac, kSe]"

definition sendGmcp :: "byte list \<Rightarrow> connection \<Rightarrow> connection" where
  "sendGmcp package c = send (gmcpWire package) c"

definition appendMsspVar :: "byte list \<Rightarrow> byte list \<Rightarrow> byte list \<Rightarrow> byte list" where
  "appendMsspVar out name val =
     appendIacEscaped (appendIacEscaped (out @ [kMsspVar]) name @ [kMsspVal]) val"

definition msspWire :: "byte list \<Rightarrow> int \<Rightarrow> int \<Rightarrow> byte list" where
  "msspWire mudName playerCount uptimeSeconds =
     (let o1 = appendMsspVar [kIac, kSb, kTelOptMssp] (bytes_of ''NAME'') mudName;
          o2 = appendMsspVar o1 (bytes_of ''PLAYERS'') (bytes_of (to_string playerCount));
          o3 = appendMsspVar o2 (bytes_of ''UPTIME'') (bytes_of (to_string uptimeSeconds));
          o4 = appendMsspVar o3 (bytes_of ''CODEBASE'') (bytes_of ''kjdmud'')
      in o4 @ [kIac, kSe])"

definition sendMssp :: "byte list \<Rightarrow> int \<Rightarrow> int \<Rightarrow> connection \<Rightarrow> connection" where
  "sendMssp mudName playerCount uptimeSeconds c =
     send (msspWire mudName playerCount uptimeSeconds) c"

definition msdpWire :: "byte list \<Rightarrow> byte list \<Rightarrow> byte list" where
  "msdpWire varName val =
     appendIacEscaped (appendIacEscaped [kIac, kSb, kTelOptMsdp, kMsdpVar] varName @ [kMsdpVal]) val
     @ [kIac, kSe]"

definition sendMsdp :: "byte list \<Rightarrow> byte list \<Rightarrow> connection \<Rightarrow> connection" where
  "sendMsdp varName val c = send (msdpWire varName val) c"

definition mspWire :: "byte list \<Rightarrow> byte list" where
  "mspWire payload = appendIacEscaped [kIac, kSb, kTelOptMsp] payload @ [kIac, kSe]"

definition sendMspOob :: "byte list \<Rightarrow> connection \<Rightarrow> connection" where
  "sendMspOob payload c = (if \<not> mspEnabled c then c else send (mspWire payload) c)"

definition zmpWire :: "byte list \<Rightarrow> byte list list \<Rightarrow> byte list" where
  "zmpWire command args =
     foldl (\<lambda>out arg. appendIacEscaped out arg @ [0])
           (appendIacEscaped [kIac, kSb, kTelOptZmp] command @ [0]) args
     @ [kIac, kSe]"

definition sendZmp :: "byte list \<Rightarrow> byte list list \<Rightarrow> connection \<Rightarrow> connection" where
  "sendZmp command args c = send (zmpWire command args) c"

definition suppressEcho :: "connection \<Rightarrow> connection" where
  "suppressEcho c =
     (if echoSuppressed c then c
      else send [kIac, kWill, kTelOptEcho] (c\<lparr>echoSuppressed := True\<rparr>))"

definition requestWindowSize :: "connection \<Rightarrow> connection" where
  "requestWindowSize c = send [kIac, kDo, kTelOptNaws] c"

definition requestTerminalType :: "connection \<Rightarrow> connection" where
  "requestTerminalType c = send [kIac, kSb, kTelOptTtype, kTelQualSend, kIac, kSe] c"

definition startRequestTerminalType :: "connection \<Rightarrow> connection" where
  "startRequestTerminalType c = send [kIac, kDo, kTelOptTtype] c"

section \<open>Negotiation\<close>

definition handleNegotiation :: "TelnetState \<Rightarrow> byte \<Rightarrow> connection \<Rightarrow> connection" where
  "handleNegotiation kind opt c =
     (if kind = TsWill then
        if opt = kTelOptEcho \<or> opt = kTelOptNaws then c
        else if opt = kTelOptTtype then requestTerminalType c
        else if opt = kTelOptGmcp then
          (send [kIac, kDo, kTelOptGmcp] c)\<lparr>gmcpEnabled := True, gmcpEnableNegotiated := True\<rparr>
        else if opt = kTelOptMsdp then
          (send [kIac, kDo, kTelOptMsdp] c)\<lparr>msdpEnabled := True, msdpEnableNegotiated := True\<rparr>
        else if opt = kTelOptMxp then
          (send [kIac, kDo, kTelOptMxp] c)\<lparr>mxpEnabled := True\<rparr>
        else if opt = kTelOptMsp then
          (send [kIac, kDo, kTelOptMsp] c)\<lparr>mspEnabled := True, mspEnableNegotiated := True\<rparr>
        else if opt = kTelOptZmp then
          (send [kIac, kDo, kTelOptZmp] c)\<lparr>zmpEnabled := True\<rparr>
        else send [kIac, kDont, opt] c
      else if kind = TsDo then
        if opt = kTelOptEcho then c
        else if opt = kTelOptGmcp then c\<lparr>gmcpEnabled := True, gmcpEnableNegotiated := True\<rparr>
        else if opt = kTelOptMssp then c\<lparr>msspNegotiated := True\<rparr>
        else if opt = kTelOptMsdp then c\<lparr>msdpEnabled := True, msdpEnableNegotiated := True\<rparr>
        else if opt = kTelOptMxp then c\<lparr>mxpEnabled := True\<rparr>
        else if opt = kTelOptMsp then c\<lparr>mspEnabled := True, mspEnableNegotiated := True\<rparr>
        else if opt = kTelOptZmp then c\<lparr>zmpEnabled := True\<rparr>
        else send [kIac, kWont, opt] c
      else c)"

section \<open>Subnegotiation\<close>

text \<open>
  The field loop of the ZMP branch: fields end at a NUL byte. The caller runs it only on payloads
  whose last byte is NUL, so the search never fails there.
\<close>

function zmpFields :: "byte list \<Rightarrow> byte list list" where
  "zmpFields payload =
     (if payload = [] then []
      else case find_idx (\<lambda>b. b = 0) payload of
             Some nul \<Rightarrow> take nul payload # zmpFields (drop (Suc nul) payload)
           | None \<Rightarrow> [payload])"
  by pat_completeness auto
termination
  by (relation "measure length") auto

declare zmpFields.simps [simp del]

definition handleTtype :: "connection \<Rightarrow> connection" where
  "handleTtype c =
     (let sb = sbBuffer c in
      if length sb \<ge> 2 \<and> sb ! 1 = kTelQualIs
      then c\<lparr>terminalType := drop 2 sb, terminalTypeUpdated := True\<rparr> else c)"

definition handleGmcp :: "connection \<Rightarrow> connection" where
  "handleGmcp c =
     (let sb = sbBuffer c;
          c1 = (if length sb > 1 then c\<lparr>incomingGmcp := incomingGmcp c @ [drop 1 sb]\<rparr> else c)
      in c1\<lparr>gmcpEnabled := True\<rparr>)"

definition handleMsdp :: "connection \<Rightarrow> connection" where
  "handleMsdp c =
     (let sb = sbBuffer c;
          c1 = (if length sb > 1 \<and> sb ! 1 = kMsdpVar
                then (let valPos = find_from (\<lambda>b. b = kMsdpVal) sb 2;
                          nm = (case valPos of None \<Rightarrow> drop 2 sb | Some p \<Rightarrow> take (p - 2) (drop 2 sb));
                          vl = (case valPos of None \<Rightarrow> [] | Some p \<Rightarrow> drop (p + 1) sb)
                      in c\<lparr>incomingMsdp := incomingMsdp c @ [(nm, vl)]\<rparr>)
                else c)
      in c1\<lparr>msdpEnabled := True\<rparr>)"

definition handleZmp :: "connection \<Rightarrow> connection" where
  "handleZmp c =
     (let payload = drop 1 (sbBuffer c);
          c1 = (if payload \<noteq> [] \<and> last payload = 0
                then (case zmpFields payload of
                        [] \<Rightarrow> c
                      | cmd # args \<Rightarrow> c\<lparr>incomingZmp := incomingZmp c @ [(cmd, args)]\<rparr>)
                else c)
      in c1\<lparr>zmpEnabled := True\<rparr>)"

definition handleNaws :: "connection \<Rightarrow> connection" where
  "handleNaws c =
     (let sb = sbBuffer c in
      if length sb < 5 then c
      else c\<lparr>terminalWidth := 256 * uint (sb ! 1) + uint (sb ! 2),
             terminalHeight := 256 * uint (sb ! 3) + uint (sb ! 4),
             windowSizeUpdated := True\<rparr>)"

definition handleSubnegotiation :: "connection \<Rightarrow> connection" where
  "handleSubnegotiation c =
     (case sbBuffer c of
        [] \<Rightarrow> c
      | sbOption # _ \<Rightarrow>
          if sbOption = kTelOptTtype then handleTtype c
          else if sbOption = kTelOptGmcp then handleGmcp c
          else if sbOption = kTelOptMsdp then handleMsdp c
          else if sbOption = kTelOptZmp then handleZmp c
          else if sbOption \<noteq> kTelOptNaws then c
          else handleNaws c)"

section \<open>The state machine\<close>

text \<open>
  One byte of \<^verbatim>\<open>processTelnetBytes\<close>: the connection and the plain text collected so far.
\<close>

definition telnetByte :: "connection \<times> byte list \<Rightarrow> byte \<Rightarrow> connection \<times> byte list" where
  "telnetByte s b =
     (case s of (c, plain) \<Rightarrow>
      (case telnetState c of
         TsData \<Rightarrow> if b = kIac then (c\<lparr>telnetState := TsIac\<rparr>, plain) else (c, plain @ [b])
       | TsIac \<Rightarrow>
           if b = kIac then (c\<lparr>telnetState := TsData\<rparr>, plain @ [kIac])
           else if b = kWill then (c\<lparr>telnetState := TsWill\<rparr>, plain)
           else if b = kWont then (c\<lparr>telnetState := TsWont\<rparr>, plain)
           else if b = kDo then (c\<lparr>telnetState := TsDo\<rparr>, plain)
           else if b = kDont then (c\<lparr>telnetState := TsDont\<rparr>, plain)
           else if b = kSb then (c\<lparr>telnetState := TsSb, sbBuffer := []\<rparr>, plain)
           else (c\<lparr>telnetState := TsData\<rparr>, plain)
       | TsWill \<Rightarrow> ((handleNegotiation TsWill b c)\<lparr>telnetState := TsData\<rparr>, plain)
       | TsWont \<Rightarrow> ((handleNegotiation TsWont b c)\<lparr>telnetState := TsData\<rparr>, plain)
       | TsDo \<Rightarrow> ((handleNegotiation TsDo b c)\<lparr>telnetState := TsData\<rparr>, plain)
       | TsDont \<Rightarrow> ((handleNegotiation TsDont b c)\<lparr>telnetState := TsData\<rparr>, plain)
       | TsSb \<Rightarrow>
           if b = kIac then (c\<lparr>telnetState := TsSbIac\<rparr>, plain)
           else (c\<lparr>sbBuffer := sbBuffer c @ [b]\<rparr>, plain)
       | TsSbIac \<Rightarrow>
           if b = kSe then ((handleSubnegotiation c)\<lparr>telnetState := TsData\<rparr>, plain)
           else if b = kIac then (c\<lparr>sbBuffer := sbBuffer c @ [kIac], telnetState := TsSb\<rparr>, plain)
           else (c\<lparr>telnetState := TsData\<rparr>, plain)))"

definition processTelnetBytes :: "byte list \<Rightarrow> connection \<Rightarrow> byte list \<Rightarrow> connection \<times> byte list" where
  "processTelnetBytes raw c plainOut = foldl telnetByte (c, plainOut) raw"

section \<open>Lemmas: escaping and frames\<close>

definition escaped :: "byte list \<Rightarrow> byte list" where
  "escaped d = concat (map (\<lambda>c. if c = kIac then [c, c] else [c]) d)"

lemma escaped_simps [simp]:
  "escaped [] = []"
  "escaped (c # d) = (if c = kIac then c # c # escaped d else c # escaped d)"
  "escaped (d @ e) = escaped d @ escaped e"
  by (simp_all add: escaped_def)

lemma appendIacEscaped_escaped: "appendIacEscaped out d = out @ escaped d"
  by (induction out d rule: appendIacEscaped.induct) auto

lemma telnetState_same [simp]: "telnetState c = s \<Longrightarrow> c\<lparr>telnetState := s\<rparr> = c"
  by (cases c) simp

lemma telnetByte_data [simp]:
  assumes "telnetState c = TsData"
  shows "b \<noteq> kIac \<Longrightarrow> telnetByte (c, p) b = (c, p @ [b])"
    and "telnetByte (c, p) kIac = (c\<lparr>telnetState := TsIac\<rparr>, p)"
  using assms by (simp_all add: telnetByte_def)

lemma telnetByte_iac [simp]:
  assumes "telnetState c = TsIac"
  shows "telnetByte (c, p) kIac = (c\<lparr>telnetState := TsData\<rparr>, p @ [kIac])"
    and "telnetByte (c, p) kSb = (c\<lparr>telnetState := TsSb, sbBuffer := []\<rparr>, p)"
  using assms by (simp_all add: telnetByte_def)

lemma telnetByte_sb [simp]:
  assumes "telnetState c = TsSb"
  shows "b \<noteq> kIac \<Longrightarrow> telnetByte (c, p) b = (c\<lparr>sbBuffer := sbBuffer c @ [b]\<rparr>, p)"
    and "telnetByte (c, p) kIac = (c\<lparr>telnetState := TsSbIac\<rparr>, p)"
  using assms by (simp_all add: telnetByte_def)

lemma telnetByte_sbiac [simp]:
  assumes "telnetState c = TsSbIac"
  shows "telnetByte (c, p) kIac = (c\<lparr>sbBuffer := sbBuffer c @ [kIac], telnetState := TsSb\<rparr>, p)"
    and "telnetByte (c, p) kSe = ((handleSubnegotiation c)\<lparr>telnetState := TsData\<rparr>, p)"
  using assms by (simp_all add: telnetByte_def)

text \<open>Escaped text passes through unchanged; escaped payload bytes collect in the buffer.\<close>

lemma run_escaped_text:
  "telnetState c = TsData \<Longrightarrow> foldl telnetByte (c, p) (escaped d) = (c, p @ d)"
  by (induction d arbitrary: p) simp_all

lemma run_escaped_sb:
  "telnetState c = TsSb \<Longrightarrow>
   foldl telnetByte (c, p) (escaped d) = (c\<lparr>sbBuffer := sbBuffer c @ d\<rparr>, p)"
proof (induction d arbitrary: c)
  case Nil
  then show ?case by simp
next
  case (Cons b d)
  have eq: "c\<lparr>telnetState := TsSbIac, sbBuffer := x, telnetState := TsSb\<rparr> = c\<lparr>sbBuffer := x\<rparr>" for x
    using Cons.prems by (cases c) simp
  show ?case
  proof (cases "b = kIac")
    case True
    with Cons.IH[of "c\<lparr>sbBuffer := sbBuffer c @ [kIac]\<rparr>"] Cons.prems eq show ?thesis by simp
  next
    case False
    with Cons.IH[of "c\<lparr>sbBuffer := sbBuffer c @ [b]\<rparr>"] Cons.prems show ?thesis by simp
  qed
qed

text \<open>A complete subnegotiation frame hands its unescaped bytes to \<^verbatim>\<open>handleSubnegotiation\<close>.\<close>

lemma run_frame:
  assumes "telnetState c = TsData"
  shows "foldl telnetByte (c, p) ([kIac, kSb] @ escaped d @ [kIac, kSe]) =
     ((handleSubnegotiation (c\<lparr>sbBuffer := d, telnetState := TsSbIac\<rparr>))\<lparr>telnetState := TsData\<rparr>, p)"
proof -
  from assms run_escaped_sb[of "c\<lparr>telnetState := TsSb, sbBuffer := []\<rparr>" p d]
  show ?thesis by simp
qed

lemma gmcpWire_frame: "gmcpWire p = [kIac, kSb] @ escaped (kTelOptGmcp # p) @ [kIac, kSe]"
  by (simp add: gmcpWire_def appendIacEscaped_escaped)

lemma msdpWire_frame:
  "msdpWire n v = [kIac, kSb] @ escaped (kTelOptMsdp # kMsdpVar # n @ kMsdpVal # v) @ [kIac, kSe]"
  by (simp add: msdpWire_def appendIacEscaped_escaped)

lemma zmpWire_fold:
  "foldl (\<lambda>out arg. appendIacEscaped out arg @ [0]) out args =
   out @ escaped (concat (map (\<lambda>a. a @ [0]) args))"
  by (induction args arbitrary: out) (simp_all add: appendIacEscaped_escaped)

lemma zmpWire_frame:
  "zmpWire cmd args =
     [kIac, kSb] @ escaped (kTelOptZmp # concat (map (\<lambda>a. a @ [0]) (cmd # args))) @ [kIac, kSe]"
  unfolding zmpWire_def zmpWire_fold by (simp add: appendIacEscaped_escaped)

lemma zmpFields_concat:
  "(\<forall>a\<in>set args. 0 \<notin> set a) \<Longrightarrow> zmpFields (concat (map (\<lambda>a. a @ [0]) args)) = args"
proof (induction args)
  case Nil
  show ?case by (simp add: zmpFields.simps)
next
  case (Cons a args)
  let ?r = "concat (map (\<lambda>a. a @ [0]) args)"
  have "find_idx (\<lambda>b. b = 0) (a @ 0 # ?r) = Some (length a)"
    using Cons.prems by (intro find_idx_hit) auto
  with Cons show ?case by (subst zmpFields.simps) simp
qed

section \<open>Lemmas: what a frame does to the connection\<close>

lemma recv_gmcp:
  assumes "telnetState c = TsData" and "p \<noteq> []"
  shows "foldl telnetByte (c, out) (gmcpWire p) =
    (c\<lparr>sbBuffer := kTelOptGmcp # p, incomingGmcp := incomingGmcp c @ [p], gmcpEnabled := True\<rparr>, out)"
  using assms run_frame[OF assms(1), of out "kTelOptGmcp # p"]
  by (cases c) (simp add: gmcpWire_frame handleSubnegotiation_def handleGmcp_def Let_def)

lemma recv_msdp:
  assumes "telnetState c = TsData" and "kMsdpVal \<notin> set n"
  shows "foldl telnetByte (c, out) (msdpWire n v) =
    (c\<lparr>sbBuffer := kTelOptMsdp # kMsdpVar # n @ kMsdpVal # v,
       incomingMsdp := incomingMsdp c @ [(n, v)], msdpEnabled := True\<rparr>, out)"
proof -
  have "find_from (\<lambda>b. b = kMsdpVal) (kTelOptMsdp # kMsdpVar # n @ kMsdpVal # v) 2 =
        Some (2 + length n)"
    unfolding find_from_def by (simp, subst find_idx_hit) (use assms(2) in auto)
  with assms run_frame[OF assms(1), of out "kTelOptMsdp # kMsdpVar # n @ kMsdpVal # v"]
  show ?thesis
    by (cases c) (simp add: msdpWire_frame handleSubnegotiation_def handleMsdp_def Let_def)
qed

lemma recv_zmp:
  assumes "telnetState c = TsData" and "\<forall>a\<in>set (cmd # args). 0 \<notin> set a"
  shows "foldl telnetByte (c, out) (zmpWire cmd args) =
    (c\<lparr>sbBuffer := kTelOptZmp # concat (map (\<lambda>a. a @ [0]) (cmd # args)),
       incomingZmp := incomingZmp c @ [(cmd, args)], zmpEnabled := True\<rparr>, out)"
proof -
  let ?pl = "concat (map (\<lambda>a. a @ [0::byte]) (cmd # args))"
  have "last ?pl = 0" by (induction args rule: rev_induct) simp_all
  moreover have "?pl \<noteq> []" by simp
  moreover have "zmpFields ?pl = cmd # args" by (rule zmpFields_concat[OF assms(2)])
  ultimately show ?thesis
    using assms(1) run_frame[OF assms(1), of out "kTelOptZmp # ?pl"]
    by (cases c) (simp add: zmpWire_frame handleSubnegotiation_def handleZmp_def Let_def
        del: concat.simps list.map)
qed

section \<open>Lemmas: interleaved streams\<close>

text \<open>What one end writes: plain text and out-of-band frames, in any order.\<close>

datatype stream_item =
    TextItem "byte list"
  | GmcpItem "byte list"
  | MsdpItem "byte list" "byte list"
  | ZmpItem "byte list" "byte list list"

fun itemWire :: "stream_item \<Rightarrow> byte list" where
  "itemWire (TextItem d) = escaped d"
| "itemWire (GmcpItem p) = gmcpWire p"
| "itemWire (MsdpItem n v) = msdpWire n v"
| "itemWire (ZmpItem cmd args) = zmpWire cmd args"

text \<open>
  The payloads the protocols can carry: a GMCP package is not empty, an MSDP variable name holds
  no \<^verbatim>\<open>MSDP_VAL\<close> byte, a ZMP field holds no NUL byte.
\<close>

fun itemOk :: "stream_item \<Rightarrow> bool" where
  "itemOk (TextItem d) = True"
| "itemOk (GmcpItem p) = (p \<noteq> [])"
| "itemOk (MsdpItem n v) = (kMsdpVal \<notin> set n)"
| "itemOk (ZmpItem cmd args) = (\<forall>a\<in>set (cmd # args). 0 \<notin> set a)"

fun texts :: "stream_item list \<Rightarrow> byte list" where
  "texts [] = []"
| "texts (TextItem d # is) = d @ texts is"
| "texts (_ # is) = texts is"

fun gmcps :: "stream_item list \<Rightarrow> byte list list" where
  "gmcps [] = []"
| "gmcps (GmcpItem p # is) = p # gmcps is"
| "gmcps (_ # is) = gmcps is"

fun msdps :: "stream_item list \<Rightarrow> (byte list \<times> byte list) list" where
  "msdps [] = []"
| "msdps (MsdpItem n v # is) = (n, v) # msdps is"
| "msdps (_ # is) = msdps is"

fun zmps :: "stream_item list \<Rightarrow> (byte list \<times> byte list list) list" where
  "zmps [] = []"
| "zmps (ZmpItem c as # is) = (c, as) # zmps is"
| "zmps (_ # is) = zmps is"

lemma run_stream:
  assumes "telnetState c = TsData" and "\<forall>i\<in>set is. itemOk i"
  shows "\<exists>c'. foldl telnetByte (c, out) (concat (map itemWire is)) = (c', out @ texts is) \<and>
    telnetState c' = TsData \<and> incomingGmcp c' = incomingGmcp c @ gmcps is \<and>
    incomingMsdp c' = incomingMsdp c @ msdps is \<and> incomingZmp c' = incomingZmp c @ zmps is \<and>
    wireOut c' = wireOut c"
  using assms
proof (induction "is" arbitrary: c out)
  case Nil
  then show ?case by simp
next
  case (Cons i "is")
  then have ok: "itemOk i" and oks: "\<forall>i\<in>set is. itemOk i" by auto
  note data = \<open>telnetState c = TsData\<close>
  show ?case
  proof (cases i)
    case (TextItem d)
    with Cons.IH[OF data oks, of "out @ d"] show ?thesis
      by (simp add: run_escaped_text[OF data])
  next
    case (GmcpItem p)
    let ?c = "c\<lparr>sbBuffer := kTelOptGmcp # p, incomingGmcp := incomingGmcp c @ [p], gmcpEnabled := True\<rparr>"
    have "foldl telnetByte (c, out) (gmcpWire p) = (?c, out)"
      using recv_gmcp[OF data] ok GmcpItem by simp
    with Cons.IH[of ?c out] data oks GmcpItem show ?thesis by simp
  next
    case (MsdpItem n v)
    let ?c = "c\<lparr>sbBuffer := kTelOptMsdp # kMsdpVar # n @ kMsdpVal # v,
       incomingMsdp := incomingMsdp c @ [(n, v)], msdpEnabled := True\<rparr>"
    have "foldl telnetByte (c, out) (msdpWire n v) = (?c, out)"
      using recv_msdp[OF data] ok MsdpItem by simp
    with Cons.IH[of ?c out] data oks MsdpItem show ?thesis by simp
  next
    case (ZmpItem cmd args)
    let ?c = "c\<lparr>sbBuffer := kTelOptZmp # concat (map (\<lambda>a. a @ [0]) (cmd # args)),
       incomingZmp := incomingZmp c @ [(cmd, args)], zmpEnabled := True\<rparr>"
    have "foldl telnetByte (c, out) (zmpWire cmd args) = (?c, out)"
      by (rule recv_zmp[OF data]) (use ok ZmpItem in simp)
    with Cons.IH[of ?c out] data oks ZmpItem show ?thesis by simp
  qed
qed

section \<open>Lemmas: literal 0xFF bytes and the connection invariant\<close>

definition iacCount :: "byte list \<Rightarrow> nat" where
  "iacCount bs = length (filter (\<lambda>b. b = kIac) bs)"

lemma iacCount_simps [simp]:
  "iacCount [] = 0"
  "iacCount (b # bs) = (if b = kIac then Suc (iacCount bs) else iacCount bs)"
  "iacCount (bs @ cs) = iacCount bs + iacCount cs"
  by (simp_all add: iacCount_def)

text \<open>Half a literal byte is pending while the machine has seen one IAC of a possible pair.\<close>

definition iacPending :: "connection \<Rightarrow> nat" where
  "iacPending c = (if telnetState c = TsIac then 1 else 0)"

lemma telnetByte_iacCount:
  assumes "telnetByte (c, p) b = (c', p')"
  shows "2 * iacCount p' + iacPending c' \<le> 2 * iacCount p + iacPending c + (if b = kIac then 1 else 0)"
    and "prefix p p'"
  using assms
  by (auto simp: telnetByte_def iacPending_def split: TelnetState.splits if_splits)

lemma run_iacCount:
  assumes "foldl telnetByte (c, p) raw = (c', p')"
  shows "2 * iacCount p' + iacPending c' \<le> 2 * iacCount p + iacPending c + iacCount raw \<and> prefix p p'"
  using assms
proof (induction raw arbitrary: c p)
  case Nil
  then show ?case by simp
next
  case (Cons b raw)
  obtain c1 p1 where s: "telnetByte (c, p) b = (c1, p1)" by (cases "telnetByte (c, p) b")
  with Cons.prems have "foldl telnetByte (c1, p1) raw = (c', p')" by simp
  from Cons.IH[OF this] telnetByte_iacCount[OF s] show ?case
    by (auto intro: prefix_order.trans)
qed

text \<open>
  What holds of a connection between bytes: a negotiated protocol whose apply is still to be fired is enabled, the
  terminal size fits 16 bits.
\<close>

definition telnetInv :: "connection \<Rightarrow> bool" where
  "telnetInv c \<longleftrightarrow>
     (gmcpEnableNegotiated c \<longrightarrow> gmcpEnabled c) \<and>
     (msdpEnableNegotiated c \<longrightarrow> msdpEnabled c) \<and>
     (mspEnableNegotiated c \<longrightarrow> mspEnabled c) \<and>
     (incomingGmcp c \<noteq> [] \<longrightarrow> gmcpEnabled c) \<and>
     (incomingMsdp c \<noteq> [] \<longrightarrow> msdpEnabled c) \<and>
     (incomingZmp c \<noteq> [] \<longrightarrow> zmpEnabled c) \<and>
     0 \<le> terminalWidth c \<and> terminalWidth c \<le> 65535 \<and>
     0 \<le> terminalHeight c \<and> terminalHeight c \<le> 65535"

text \<open>Protocol switches only ever go on while bytes are processed.\<close>

definition enabledLe :: "connection \<Rightarrow> connection \<Rightarrow> bool" where
  "enabledLe c c' \<longleftrightarrow>
     (gmcpEnabled c \<longrightarrow> gmcpEnabled c') \<and> (msdpEnabled c \<longrightarrow> msdpEnabled c') \<and>
     (mxpEnabled c \<longrightarrow> mxpEnabled c') \<and> (mspEnabled c \<longrightarrow> mspEnabled c') \<and>
     (zmpEnabled c \<longrightarrow> zmpEnabled c')"

lemma enabledLe_refl [simp]: "enabledLe c c"
  by (simp add: enabledLe_def)

lemma enabledLe_trans: "enabledLe c c' \<Longrightarrow> enabledLe c' c'' \<Longrightarrow> enabledLe c c''"
  by (simp add: enabledLe_def)

lemma handleNegotiation_inv:
  "telnetInv c \<Longrightarrow> telnetInv (handleNegotiation k opt c) \<and> enabledLe c (handleNegotiation k opt c)"
  by (simp add: handleNegotiation_def requestTerminalType_def telnetInv_def enabledLe_def)

lemma naws_bound: "0 \<le> 256 * uint (a :: byte) + uint (b :: byte) \<and> 256 * uint a + uint b \<le> 65535"
  using uint_lt2p[of a] uint_lt2p[of b] by simp

lemma handleSubnegotiation_inv:
  "telnetInv c \<Longrightarrow> telnetInv (handleSubnegotiation c) \<and> enabledLe c (handleSubnegotiation c)"
  by (auto simp: handleSubnegotiation_def handleTtype_def handleGmcp_def handleMsdp_def
      handleZmp_def handleNaws_def Let_def telnetInv_def enabledLe_def naws_bound
      split: list.splits)

lemma telnetInv_state [simp]:
  "telnetInv (c\<lparr>telnetState := t\<rparr>) = telnetInv c"
  "telnetInv (c\<lparr>sbBuffer := b\<rparr>) = telnetInv c"
  "enabledLe c (c'\<lparr>telnetState := t\<rparr>) = enabledLe c c'"
  "enabledLe c (c'\<lparr>sbBuffer := b\<rparr>) = enabledLe c c'"
  by (simp_all add: telnetInv_def enabledLe_def)

lemma telnetByte_inv:
  assumes "telnetInv c" and "telnetByte (c, p) b = (c', p')"
  shows "telnetInv c' \<and> enabledLe c c'"
  using assms handleNegotiation_inv[OF assms(1)] handleSubnegotiation_inv[OF assms(1)]
  by (auto simp: telnetByte_def split: TelnetState.splits if_splits)

lemma run_inv:
  assumes "telnetInv c" and "foldl telnetByte (c, p) raw = (c', p')"
  shows "telnetInv c' \<and> enabledLe c c'"
  using assms
proof (induction raw arbitrary: c p)
  case Nil
  then show ?case by simp
next
  case (Cons b raw)
  obtain c1 p1 where s: "telnetByte (c, p) b = (c1, p1)" by (cases "telnetByte (c, p) b")
  with telnetByte_inv[OF Cons.prems(1) s] Cons.IH[of c1 p1] Cons.prems(2) show ?case
    by (auto intro: enabledLe_trans)
qed



section \<open>Properties\<close>

text \<open>
  C13. The telnet state machine takes apart exactly what the sending operations put together: over
  any interleaving of escaped text and GMCP, MSDP and ZMP frames, the plain text comes out byte for
  byte, every frame arrives once and in order on its own queue, the machine is back in its data
  state, and nothing is written in reply.
\<close>

theorem telnet_demultiplex:
  assumes "telnetState c = TsData" and "\<forall>i\<in>set items. itemOk i"
  shows "\<exists>c'. processTelnetBytes (concat (map itemWire items)) c plain = (c', plain @ texts items) \<and>
    telnetState c' = TsData \<and> incomingGmcp c' = incomingGmcp c @ gmcps items \<and>
    incomingMsdp c' = incomingMsdp c @ msdps items \<and> incomingZmp c' = incomingZmp c @ zmps items \<and>
    wireOut c' = wireOut c"
  using run_stream[OF assms] by (simp add: processTelnetBytes_def)

theorem telnet_demultiplex_witness:
  "\<exists>c'. processTelnetBytes (concat (map itemWire
          [TextItem [255, 10], GmcpItem [255], ZmpItem [97] [[98], []]])) (newConnection 1 0) [] =
        (c', [255, 10]) \<and> incomingGmcp c' = [[255]] \<and> incomingZmp c' = [([97], [[98], []])]"
  using telnet_demultiplex[of "newConnection 1 0"
      "[TextItem [255, 10], GmcpItem [255], ZmpItem [97] [[98], []]]" "[]"]
  by (simp add: newConnection_def) blast



text \<open>
  Raw IAC bytes do not leak into player input: whatever is received, starting between commands,
  the bytes 0xFF that come out as text are at most half of those that came in (each stands for a
  doubled, escaped one), and text already collected is kept.
\<close>

theorem iac_never_leaks:
  assumes "telnetState c \<noteq> TsIac" and "processTelnetBytes raw c plain = (c', plain')"
  shows "\<exists>new. plain' = plain @ new \<and> 2 * iacCount new \<le> iacCount raw"
  using run_iacCount[of c plain raw c' plain'] assms
  by (auto simp: processTelnetBytes_def iacPending_def elim!: prefixE)

theorem iac_never_leaks_witness:
  "\<exists>new. snd (processTelnetBytes [65, 255, 250, 31, 255, 10] (newConnection 1 0) []) = [] @ new \<and>
         2 * iacCount new \<le> 2"
  using iac_never_leaks[of "newConnection 1 0" "[65, 255, 250, 31, 255, 10]" "[]"
      "fst (processTelnetBytes [65, 255, 250, 31, 255, 10] (newConnection 1 0) [])"
      "snd (processTelnetBytes [65, 255, 250, 31, 255, 10] (newConnection 1 0) [])"]
  by (simp add: newConnection_def)

text \<open>
  C15. Processing any bytes keeps the connection invariant (a protocol with a pending apply or with queued
  messages is enabled, the terminal size stays within 0..65535) and never switches a protocol off.
\<close>

theorem telnet_invariant:
  assumes "telnetInv c" and "processTelnetBytes raw c plain = (c', plain')"
  shows "telnetInv c' \<and> enabledLe c c'"
  using run_inv[OF assms(1)] assms(2) by (simp add: processTelnetBytes_def)

theorem telnet_invariant_witness:
  "telnetInv (newConnection 1 0) \<and>
   telnetInv (fst (processTelnetBytes [255, 250, 31, 0, 80, 0, 24, 255, 240] (newConnection 1 0) []))"
proof -
  have "telnetInv (newConnection 1 0)" by (simp add: telnetInv_def newConnection_def)
  with telnet_invariant[OF this, of "[255, 250, 31, 0, 80, 0, 24, 255, 240]" "[]"] show ?thesis
    by (metis prod.collapse)
qed

end
