(* ===== verification/WebSocket.thy ===== *)
theory WebSocket
  imports Telnet
begin

unbundle bit_operations_syntax

text \<open>
  The WebSocket transport of \<^verbatim>\<open>src/net/Connection.cpp\<close>: \<^verbatim>\<open>decodeWsFrames\<close>, \<^verbatim>\<open>headerValue\<close> and
  \<^verbatim>\<open>tryCompleteWebSocketHandshake\<close>. The frame loop is modelled with fuel, because it need not
  end: the size test \<^verbatim>\<open>size < header + len\<close> is computed in 64 bits and can wrap around. The
  properties state when it ends, what it returns, and what a wrapping length does.
\<close>

section \<open>Frame decoding\<close>

abbreviation u64_of_byte :: "byte \<Rightarrow> 64 word" where
  "u64_of_byte b \<equiv> ucast b"

text \<open>
  The length of the frame at the front of the buffer and the offset of the mask, or \<^const>\<open>None\<close> when
  the buffer does not hold the whole length field yet. The buffer holds at least two bytes.
\<close>

definition wsLength :: "byte list \<Rightarrow> (64 word \<times> nat) option" where
  "wsLength buf =
     (let len = u64_of_byte (buf ! 1 AND 0x7f) in
      if len = 126 then
        if length buf < 4 then None
        else Some (push_bit 8 (u64_of_byte (buf ! 2)) OR u64_of_byte (buf ! 3), 4)
      else if len = 127 then
        if length buf < 10 then None
        else Some (foldl (\<lambda>l b. push_bit 8 l OR u64_of_byte b) 0 (take 8 (drop 2 buf)), 10)
      else Some (len, 2))"

definition unmask :: "byte list \<Rightarrow> byte list \<Rightarrow> byte list" where
  "unmask key xs = map (\<lambda>i. xs ! i XOR key ! (i mod 4)) [0..<length xs]"

text \<open>
  One pass of the loop up to the \<^verbatim>\<open>erase\<close>: more bytes are needed, \<^verbatim>\<open>substr\<close> throws, or a frame
  with its opcode, its unmasked data and the buffer after it.
\<close>

datatype ws_frame = NeedMore | SubstrThrows | Frame byte "byte list" "byte list"

definition wsFrame :: "byte list \<Rightarrow> ws_frame" where
  "wsFrame buf =
     (if length buf < 2 then NeedMore
      else
        let opcode = buf ! 0 AND 0x0f;
            masked = (buf ! 1 AND 0x80 \<noteq> 0)
        in case wsLength buf of
             None \<Rightarrow> NeedMore
           | Some (len, maskOff) \<Rightarrow>
               let header = (if masked then maskOff + 4 else maskOff);
                   total = unat (word_of_nat header + len)
               in if length buf < total then NeedMore
                  else case substr buf header (unat len) of
                         Inl _ \<Rightarrow> SubstrThrows
                       | Inr xs \<Rightarrow>
                           Frame opcode
                             (if masked then unmask (take 4 (drop maskOff buf)) xs else xs)
                             (drop total buf))"

text \<open>A single \<^verbatim>\<open>rawWrite\<close> whose result is ignored.\<close>

definition writeOnce :: "byte list \<Rightarrow> connection \<Rightarrow> connection" where
  "writeOnce bs c =
     (case writeAnswers c of
        [] \<Rightarrow> c\<lparr>wireOut := wireOut c @ bs\<rparr>
      | a # as \<Rightarrow> c\<lparr>writeAnswers := as, wireOut := wireOut c @ take (nat (fst (rawWrite a))) bs\<rparr>)"

definition wsPong :: "byte list \<Rightarrow> byte list" where
  "wsPong xs = [0x8a, word_of_nat (if length xs \<le> 125 then length xs else 0)]
              @ (if length xs \<le> 125 then xs else [])"

fun decodeLoop :: "nat \<Rightarrow> connection \<Rightarrow> byte list \<Rightarrow> (connection \<times> byte list) res option" where
  "decodeLoop 0 c payload = None"
| "decodeLoop (Suc fuel) c payload =
     (case wsFrame (wsFrameBuffer c) of
        NeedMore \<Rightarrow> Some (Inr (c, payload))
      | SubstrThrows \<Rightarrow> Some (Inl OutOfRange)
      | Frame opcode xs rest \<Rightarrow>
          let c1 = c\<lparr>wsFrameBuffer := rest\<rparr> in
          if opcode = 0x8 then Some (Inr (c1\<lparr>closed := True\<rparr>, payload))
          else if opcode = 0x9 then decodeLoop fuel (writeOnce (wsPong xs) c1) payload
          else decodeLoop fuel c1
                 (if opcode = 0x1 \<or> opcode = 0x2 \<or> opcode = 0x0 then payload @ xs else payload))"

definition decodeWsFrames :: "nat \<Rightarrow> byte list \<Rightarrow> connection \<Rightarrow> (connection \<times> byte list) res option" where
  "decodeWsFrames fuel incoming c =
     decodeLoop fuel (c\<lparr>wsFrameBuffer := wsFrameBuffer c @ incoming\<rparr>) []"

section \<open>Handshake\<close>

definition tolower :: "byte \<Rightarrow> byte" where
  "tolower b = (if 65 \<le> b \<and> b \<le> 90 then b + 32 else b)"

definition headerValue :: "byte list \<Rightarrow> byte list \<Rightarrow> byte list" where
  "headerValue headers name =
     (case find_sub (map tolower name @ [58]) (map tolower headers) of
        None \<Rightarrow> []
      | Some p0 \<Rightarrow>
          (case find_from (\<lambda>b. b = 58) headers p0 of
             None \<Rightarrow> []
           | Some p1 \<Rightarrow>
               let p = p1 + 1 + length (takeWhile (\<lambda>b. b = 32 \<or> b = 9) (drop (p1 + 1) headers));
                   e = (case find_from (\<lambda>b. b = 13) headers p of
                          Some e \<Rightarrow> e
                        | None \<Rightarrow> (case find_from (\<lambda>b. b = 10) headers p of
                                    Some e \<Rightarrow> e | None \<Rightarrow> length headers))
               in take (e - p) (drop p headers)))"

text \<open>
  The write loop of the 101 response: unlike \<^verbatim>\<open>send\<close>, any error other than \<^verbatim>\<open>EINTR\<close> fails the
  handshake, and a count of 0 is retried.
\<close>

fun responseLoop :: "io_answer list \<Rightarrow> byte list \<Rightarrow> bool \<times> byte list \<times> io_answer list" where
  "responseLoop as [] = (True, [], as)"
| "responseLoop [] (b # bs) = (True, b # bs, [])"
| "responseLoop (a # as) (b # bs) =
     (let (n, e) = rawWrite a in
      if n < 0 then (if e = EINTR then responseLoop as (b # bs) else (False, [], as))
      else let (ok, acc, rest) = responseLoop as (drop (nat n) (b # bs))
           in (ok, take (nat n) (b # bs) @ acc, rest))"

definition crlfcrlf :: "byte list" where
  "crlfcrlf = [13, 10, 13, 10]"

definition wsMagic :: "byte list" where
  "wsMagic = bytes_of ''258EAFA5-E914-47DA-95CA-C5AB0DC85B11''"

definition wsResponse :: "byte list \<Rightarrow> byte list" where
  "wsResponse acc =
     bytes_of ''HTTP/1.1 101 Switching Protocols'' @ [13, 10] @
     bytes_of ''Upgrade: websocket'' @ [13, 10] @
     bytes_of ''Connection: Upgrade'' @ [13, 10] @
     bytes_of ''Sec-WebSocket-Accept: '' @ acc @ crlfcrlf"

text \<open>
  \<^verbatim>\<open>tryCompleteWebSocketHandshake\<close>; \<open>sha1Base64\<close> (OpenSSL) is a parameter. The boolean result is
  returned beside the connection; an exception of the frame decoder escapes.
\<close>

definition tryCompleteWebSocketHandshake ::
  "(byte list \<Rightarrow> byte list) \<Rightarrow> nat \<Rightarrow> connection \<Rightarrow> (connection \<times> bool) res option" where
  "tryCompleteWebSocketHandshake sha1Base64 fuel c =
     (case find_sub crlfcrlf (wsHttpBuffer c) of
        None \<Rightarrow> Some (Inr (c, False))
      | Some e \<Rightarrow>
          let headers = take e (wsHttpBuffer c);
              leftover = drop (e + 4) (wsHttpBuffer c);
              c1 = c\<lparr>wsHttpBuffer := []\<rparr>;
              key = headerValue headers (bytes_of ''Sec-WebSocket-Key'')
          in if key = [] then Some (Inr (c1\<lparr>closed := True\<rparr>, False))
             else
               let (ok, acc, rest) = responseLoop (writeAnswers c1) (wsResponse (sha1Base64 (key @ wsMagic)));
                   c2 = c1\<lparr>writeAnswers := rest, wireOut := wireOut c1 @ acc\<rparr>
               in if \<not> ok then Some (Inr (c2\<lparr>closed := True\<rparr>, False))
                  else
                    let c3 = c2\<lparr>wsHandshakeDone := True\<rparr>;
                        c4 = (if wsPendingSend c3 \<noteq> []
                              then send (wsPendingSend c3) (c3\<lparr>wsPendingSend := []\<rparr>) else c3)
                    in if leftover = [] then Some (Inr (c4, True))
                       else (case decodeWsFrames fuel leftover c4 of
                               None \<Rightarrow> None
                             | Some (Inl x) \<Rightarrow> Some (Inl x)
                             | Some (Inr (c5, plain)) \<Rightarrow>
                                 Some (Inr (c5\<lparr>inputBuffer := inputBuffer c5 @ plain\<rparr>, True))))"

section \<open>Lemmas: lengths\<close>

lemma or_push_bit_8:
  "push_bit 8 l OR u64_of_byte b = l * 256 + u64_of_byte b"
proof -
  have "push_bit 8 l AND u64_of_byte b = 0"
    by (rule bit_eqI) (auto simp: bit_simps dest: bit_imp_le_length)
  then have "push_bit 8 l OR u64_of_byte b = push_bit 8 l + u64_of_byte b"
    by (simp add: disjunctive_add_eq_or)
  then show ?thesis by (simp add: push_bit_eq_mult mult.commute)
qed

lemma unat_len_byte: "unat (len_byte n i) = n div 2 ^ (8 * i) mod 256"
  by (simp add: len_byte_def unat_of_nat)

lemma len_byte_step:
  "word_of_nat (n div 2 ^ (8 * Suc i)) * 256 + u64_of_byte (len_byte n i) =
   (word_of_nat (n div 2 ^ (8 * i)) :: 64 word)"
proof -
  let ?m = "n div 2 ^ (8 * i)"
  have "(2 :: nat) ^ (8 * Suc i) = 2 ^ (8 * i) * 256" by (simp add: power_add)
  then have "n div 2 ^ (8 * Suc i) = ?m div 256" by (simp only: div_mult2_eq)
  then have "n div 2 ^ (8 * Suc i) * 256 + unat (len_byte n i) = ?m"
    by (simp add: unat_len_byte)
  then show ?thesis by (metis of_nat_add of_nat_mult of_nat_numeral of_nat_unat)
qed

abbreviation be_fold :: "64 word \<Rightarrow> byte list \<Rightarrow> 64 word" where
  "be_fold \<equiv> foldl (\<lambda>l b. push_bit 8 l OR u64_of_byte b)"

lemma be_fold_len_bytes:
  "be_fold (word_of_nat (n div 2 ^ (8 * k))) (map (len_byte n) (rev [0..<k])) = word_of_nat n"
proof (induction k)
  case 0
  show ?case by simp
next
  case (Suc k)
  then show ?case by (simp add: or_push_bit_8 len_byte_step del: mult_Suc_right)
qed

lemma fold_len_bytes:
  assumes "n < 2 ^ 64"
  shows "be_fold 0 (map (len_byte n) [7, 6, 5, 4, 3, 2, 1, 0]) = word_of_nat n"
proof -
  have "rev [0..<8] = [7, 6, 5, 4, 3, 2, 1, 0 :: nat]" by (simp add: upt_rec)
  with be_fold_len_bytes[of n 8] assms show ?thesis by simp
qed

section \<open>Lemmas: whole frames\<close>

text \<open>A frame as RFC 6455 lays it out: first byte, length field, optional mask key, payload.\<close>

definition wsLenField :: "bool \<Rightarrow> nat \<Rightarrow> byte list" where
  "wsLenField masked n =
     (let hi = (if masked then 128 else 0) in
      if n \<le> 125 then [word_of_nat n + hi]
      else if n \<le> 0xffff then [126 + hi, len_byte n 1, len_byte n 0]
      else (127 + hi) # map (len_byte n) [7, 6, 5, 4, 3, 2, 1, 0])"

definition wsFrameBytes :: "byte \<Rightarrow> byte list option \<Rightarrow> byte list \<Rightarrow> byte list" where
  "wsFrameBytes b0 key payload =
     b0 # wsLenField (key \<noteq> None) (length payload) @
     (case key of None \<Rightarrow> payload | Some k \<Rightarrow> k @ unmask k payload)"

lemma encodeWsFrame_frame: "encodeWsFrame p = wsFrameBytes 0x81 None p"
  by (simp add: encodeWsFrame_def wsFrameBytes_def wsLenField_def Let_def)

lemma length_unmask [simp]: "length (unmask k xs) = length xs"
  by (simp add: unmask_def)

lemma unmask_unmask [simp]: "unmask k (unmask k xs) = xs"
  by (rule nth_equalityI) (simp_all add: unmask_def xor.assoc)

lemma unat_byte_less: "unat (b :: byte) < 256"
  using unsigned_less[of b] by simp

lemma unat_and_7f: "unat (b AND 0x7f :: byte) = unat b mod 128"
proof -
  have "b AND 0x7f = take_bit 7 b" by (simp add: take_bit_eq_mask mask_eq_exp_minus_1)
  then show ?thesis by (simp add: unsigned_take_bit_eq take_bit_eq_mod[where 'a = nat] del: take_bit_eq_mod)
qed

lemma and_80: "(b AND 0x80 :: byte) \<noteq> 0 \<longleftrightarrow> 128 \<le> unat b"
proof -
  have "b AND 0x80 \<noteq> 0 \<longleftrightarrow> bit b 7"
    using and_exp_eq_0_iff_not_bit[of b 7] by simp
  moreover have "bit b 7 \<longleftrightarrow> odd (unat b div 128)"
    by (simp flip: bit_iff_odd[of _ 7, simplified] add: bit_unsigned_iff)
  moreover note unat_byte_less[of b]
  ultimately show ?thesis by (auto simp: odd_iff_mod_2_eq_one)
qed

lemma lenByte_unat:
  assumes "n < 128"
  shows "unat (word_of_nat n + (if m then 128 else 0) :: byte) = n + (if m then 128 else 0)"
  using assms by (auto simp: unat_word_ariths unat_of_nat)


lemma length_wsLenField:
  "length (wsLenField m n) = (if n \<le> 125 then 1 else if n \<le> 0xffff then 3 else 9)"
  by (simp add: wsLenField_def Let_def)

lemma wsLenField_nonempty [simp]: "wsLenField m n \<noteq> []"
  by (simp add: wsLenField_def Let_def)

lemma wsLenField_mask_bit: "(hd (wsLenField m n) AND 0x80 \<noteq> 0) = m"
  unfolding and_80 by (auto simp: wsLenField_def Let_def unat_word_ariths unat_of_nat)

lemma unat_u64_of_byte [simp]: "unat (u64_of_byte b) = unat b"
  using unat_byte_less[of b] by (simp add: unsigned_ucast_eq take_bit_nat_eq_self)

lemma u64_eq_numeral: "u64_of_byte b = 126 \<longleftrightarrow> unat b = 126" "u64_of_byte b = 127 \<longleftrightarrow> unat b = 127"
  by (simp_all add: word_unat_eq_iff[where 'a = 64])

lemma unat_hd_wsLenField:
  "unat (hd (wsLenField m n) AND 0x7f) = (if n \<le> 125 then n else if n \<le> 0xffff then 126 else 127)"
  unfolding unat_and_7f
  by (auto simp: wsLenField_def Let_def unat_word_ariths unat_of_nat)

lemma two_len_bytes:
  assumes "n \<le> 0xffff"
  shows "push_bit 8 (u64_of_byte (len_byte n 1)) OR u64_of_byte (len_byte n 0) = word_of_nat n"
proof -
  have "n div 2 ^ (8 * Suc 1) = 0" using assms by simp
  with len_byte_step[of n 1] len_byte_step[of n 0] show ?thesis
    by (simp add: or_push_bit_8)
qed

lemma wsLength_field:
  assumes "n < 2 ^ 64"
  shows "wsLength (b0 # wsLenField m n @ rest) = Some (word_of_nat n, 1 + length (wsLenField m n))"
proof -
  have hd: "(wsLenField m n @ rest) ! 0 = hd (wsLenField m n)"
    by (simp add: wsLenField_def Let_def)
  consider (s) "n \<le> 125" | (m) "125 < n" "n \<le> 0xffff" | (l) "0xffff < n" by linarith
  then show ?thesis
  proof cases
    case s
    then have "u64_of_byte (hd (wsLenField m n) AND 0x7f) = word_of_nat n"
      using unat_hd_wsLenField[of m n] by (simp add: word_unat_eq_iff unat_of_nat)
    moreover have "u64_of_byte (hd (wsLenField m n) AND 0x7f) \<noteq> 126"
      and "u64_of_byte (hd (wsLenField m n) AND 0x7f) \<noteq> 127"
      using s unfolding u64_eq_numeral unat_hd_wsLenField by simp_all
    ultimately show ?thesis using s hd
      by (simp add: wsLength_def length_wsLenField Let_def)
  next
    case m
    then have "wsLenField m n = [126 + (if m then 128 else 0), len_byte n 1, len_byte n 0]"
      by (simp add: wsLenField_def Let_def)
    with m hd show ?thesis using two_len_bytes[of n]
      by (simp add: wsLength_def Let_def u64_eq_numeral unat_and_7f unat_word_ariths nth_Cons)
  next
    case l
    then have f: "wsLenField m n = (127 + (if m then 128 else 0)) # map (len_byte n) [7, 6, 5, 4, 3, 2, 1, 0]"
      by (simp add: wsLenField_def Let_def)
    with l hd show ?thesis using fold_len_bytes[OF assms]
      by (simp add: wsLength_def Let_def u64_eq_numeral unat_and_7f unat_word_ariths)
  qed
qed

text \<open>A whole frame at the front of the buffer is taken off whole.\<close>

lemma wsFrame_complete:
  assumes "length payload < 2 ^ 63" and "\<And>k. key = Some k \<Longrightarrow> length k = 4"
  shows "wsFrame (wsFrameBytes b0 key payload @ rest) = Frame (b0 AND 0x0f) payload rest"
proof -
  let ?n = "length payload" let ?L = "wsLenField (key \<noteq> None) ?n"
  let ?h = "1 + length ?L + (if key \<noteq> None then 4 else 0)"
  define mid where "mid = (case key of None \<Rightarrow> payload | Some k \<Rightarrow> k @ unmask k payload)"
  have buf: "wsFrameBytes b0 key payload @ rest = b0 # ?L @ mid @ rest"
    by (simp add: wsFrameBytes_def mid_def)
  have len: "wsLength (b0 # ?L @ mid @ rest) = Some (word_of_nat ?n, 1 + length ?L)"
    using assms(1) by (intro wsLength_field) simp
  have msk: "((b0 # ?L @ mid @ rest) ! 1 AND 0x80 \<noteq> 0) = (key \<noteq> None)"
    using wsLenField_mask_bit[of "key \<noteq> None" ?n]
    by (simp add: wsLenField_def Let_def split: if_splits)
  have h: "?h \<le> 14" by (simp add: length_wsLenField)
  have un: "unat (word_of_nat ?n :: 64 word) = ?n" using assms(1) by (simp add: unat_of_nat)
  have tot: "unat (word_of_nat ?h + word_of_nat ?n :: 64 word) = ?h + ?n"
  proof -
    have "word_of_nat ?h + word_of_nat ?n = (word_of_nat (?h + ?n) :: 64 word)" by simp
    moreover have "?h + ?n < 2 ^ 64" using h assms(1) by simp
    ultimately show ?thesis by (simp only: unat_of_nat) simp
  qed
  show ?thesis
  proof (cases key)
    case None
    with len msk tot un show ?thesis unfolding buf wsFrame_def
      by (simp add: Let_def substr_def mid_def)
  next
    case (Some k)
    with assms(2) have "length k = 4" by simp
    then have d: "drop (5 + length l + j) (b0 # l @ k @ y) = drop j y" for l j y
      by (simp add: numeral_eq_Suc)
    from Some len msk tot un d[of _ 0] d \<open>length k = 4\<close> show ?thesis unfolding buf wsFrame_def
      by (simp add: Let_def substr_def mid_def)
  qed
qed

section \<open>Lemmas: the frame loop\<close>

text \<open>What a run of data frames adds to the payload.\<close>

record client_frame =
  cfFirst :: byte
  cfKey :: "byte list option"
  cfPayload :: "byte list"

definition frameOk :: "client_frame \<Rightarrow> bool" where
  "frameOk f \<longleftrightarrow> cfFirst f AND 0x0f \<in> {0, 1, 2} \<and> length (cfPayload f) < 2 ^ 63 \<and>
                (case cfKey f of None \<Rightarrow> True | Some k \<Rightarrow> length k = 4)"

definition frameBytes :: "client_frame \<Rightarrow> byte list" where
  "frameBytes f = wsFrameBytes (cfFirst f) (cfKey f) (cfPayload f)"

lemma wsFrame_frameBytes:
  "frameOk f \<Longrightarrow> wsFrame (frameBytes f @ rest) = Frame (cfFirst f AND 0x0f) (cfPayload f) rest"
  unfolding frameBytes_def frameOk_def by (intro wsFrame_complete) auto

lemma decodeLoop_frames:
  assumes "\<forall>f\<in>set fs. frameOk f" and "wsFrame rest = NeedMore"
    and "wsFrameBuffer c = concat (map frameBytes fs) @ rest" and "length fs < fuel"
  shows "decodeLoop fuel c pl =
         Some (Inr (c\<lparr>wsFrameBuffer := rest\<rparr>, pl @ concat (map cfPayload fs)))"
  using assms
proof (induction fs arbitrary: c pl fuel)
  case Nil
  then obtain n where "fuel = Suc n" by (cases fuel) auto
  with Nil show ?case by (cases c) simp
next
  case (Cons f fs)
  then obtain n where n: "fuel = Suc n" "length fs < n" by (cases fuel) auto
  let ?rest = "concat (map frameBytes fs) @ rest"
  from Cons.prems have ok: "frameOk f" and buf: "wsFrameBuffer c = frameBytes f @ ?rest" by auto
  from ok have "cfFirst f AND 0x0f \<in> {0, 1, 2}" by (simp add: frameOk_def)
  with Cons.IH[of "c\<lparr>wsFrameBuffer := ?rest\<rparr>" n "pl @ cfPayload f"] Cons.prems n
    wsFrame_frameBytes[OF ok, of ?rest] buf
  show ?case by auto
qed

text \<open>Lengths that do not make the 64-bit sum of header and length wrap around.\<close>

definition noWrap :: "byte list \<Rightarrow> bool" where
  "noWrap buf \<longleftrightarrow> 2 \<le> length buf \<longrightarrow>
     (case wsLength buf of None \<Rightarrow> True | Some (len, _) \<Rightarrow> unat len + 14 < 2 ^ 64)"

lemma wsLength_offset: "wsLength buf = Some (len, off) \<Longrightarrow> 2 \<le> off \<and> off \<le> 10"
  by (auto simp: wsLength_def Let_def split: if_splits)

lemma unat_header_sum:
  assumes "unat len + 14 < 2 ^ 64" and "h \<le> 14"
  shows "unat (word_of_nat h + len :: 64 word) = h + unat len"
  using assms by (simp add: unat_word_ariths unat_of_nat)

lemma wsFrame_total:
  assumes "noWrap buf" and "2 \<le> length buf" and "wsLength buf = Some (len, off)"
    and "h = (if buf ! 1 AND 0x80 \<noteq> 0 then off + 4 else off)"
  shows "unat (word_of_nat h + len :: 64 word) = h + unat len" and "2 \<le> h"
  using assms wsLength_offset[OF assms(3)] unat_header_sum[of len h]
  by (auto simp: noWrap_def)

lemma wsFrame_no_throw:
  assumes "noWrap buf"
  shows "wsFrame buf \<noteq> SubstrThrows"
proof (cases "2 \<le> length buf \<and> wsLength buf \<noteq> None")
  case True
  then obtain len off where "wsLength buf = Some (len, off)" by auto
  with wsFrame_total[OF assms _ this refl] True show ?thesis
    by (simp add: wsFrame_def Let_def substr_def)
next
  case False
  then show ?thesis by (auto simp: wsFrame_def Let_def split: option.splits)
qed

lemma wsFrame_progress:
  assumes "noWrap buf" and "wsFrame buf = Frame opc xs rest"
  shows "\<exists>k\<ge>2. k \<le> length buf \<and> rest = drop k buf"
proof -
  from assms(2) obtain len off where l: "wsLength buf = Some (len, off)" and b: "2 \<le> length buf"
    by (auto simp: wsFrame_def Let_def split: option.splits if_splits)
  define h where "h = (if buf ! 1 AND 0x80 \<noteq> 0 then off + 4 else off)"
  note t = wsFrame_total[OF assms(1) b l h_def]
  from assms(2) l b t(1) have "h + unat len \<le> length buf \<and> rest = drop (h + unat len) buf"
    by (auto simp: wsFrame_def Let_def substr_def h_def split: if_splits)
  with t(2) show ?thesis by (intro exI[of _ "h + unat len"]) auto
qed

text \<open>The buffers that have a frame at their front while the loop takes a buffer apart; a close frame ends the loop.\<close>

inductive frameFront :: "byte list \<Rightarrow> byte list \<Rightarrow> bool" where
  front_here: "frameFront buf buf"
| front_next: "wsFrame buf = Frame opc xs rest \<Longrightarrow> opc \<noteq> 0x8 \<Longrightarrow> frameFront rest b \<Longrightarrow> frameFront buf b"

lemma decodeLoop_terminates:
  assumes "\<And>b. frameFront (wsFrameBuffer c) b \<Longrightarrow> noWrap b" and "length (wsFrameBuffer c) < fuel"
  shows "\<exists>c' pl'. decodeLoop fuel c pl = Some (Inr (c', pl'))"
  using assms
proof (induction fuel arbitrary: c pl)
  case 0
  then show ?case by simp
next
  case (Suc fuel)
  have nw: "noWrap (wsFrameBuffer c)" using Suc.prems(1)[OF front_here] .
  show ?case
  proof (cases "wsFrame (wsFrameBuffer c)")
    case NeedMore
    then show ?thesis by simp
  next
    case SubstrThrows
    with wsFrame_no_throw[OF nw] show ?thesis by simp
  next
    case (Frame opc xs rest)
    from wsFrame_progress[OF nw Frame] obtain k where k: "2 \<le> k" "k \<le> length (wsFrameBuffer c)"
      "rest = drop k (wsFrameBuffer c)" by auto
    have ih: "\<exists>c' pl'. decodeLoop fuel d pl = Some (Inr (c', pl'))" if "wsFrameBuffer d = rest" "opc \<noteq> 0x8" for d pl
    proof (rule Suc.IH)
      show "noWrap b" if "frameFront (wsFrameBuffer d) b" for b
        using Suc.prems(1)[OF front_next[OF Frame]] that \<open>wsFrameBuffer d = rest\<close> \<open>opc \<noteq> 0x8\<close> by simp
      show "length (wsFrameBuffer d) < fuel" using Suc.prems(2) k that(1) by auto
    qed
    have "wsFrameBuffer (writeOnce bs (c\<lparr>wsFrameBuffer := rest\<rparr>)) = rest" for bs
      by (simp add: writeOnce_def split: list.splits)
    with Frame ih show ?thesis by (simp add: Let_def)
  qed
qed

section \<open>Lemmas: a length that wraps\<close>

text \<open>
  Ten bytes: a final text frame, no mask, 64-bit length \<^verbatim>\<open>2^64 - 10\<close>. Header and length add up to 0.
\<close>

definition wrapFrame :: "byte list" where
  "wrapFrame = [0x81, 0x7f, 0xff, 0xff, 0xff, 0xff, 0xff, 0xff, 0xff, 0xf6]"

text \<open>The same with the mask bit set and length \<^verbatim>\<open>2^64 - 14\<close>, cut off before the mask key.\<close>

definition maskedWrapFrame :: "byte list" where
  "maskedWrapFrame = [0x81, 0xff, 0xff, 0xff, 0xff, 0xff, 0xff, 0xff, 0xff, 0xf2]"

lemma wsLength_wrapFrame: "wsLength wrapFrame = Some (- 10, 10)"
  by (simp add: wsLength_def wrapFrame_def or_push_bit_8)

lemma wsFrame_wrapFrame: "wsFrame wrapFrame = Frame 1 [] wrapFrame"
proof -
  have "unat (word_of_nat 10 + (- 10) :: 64 word) = 0" by simp
  moreover have "length wrapFrame = 10" "wrapFrame ! 0 = 0x81" "wrapFrame ! 1 = 0x7f"
    by (simp_all add: wrapFrame_def)
  ultimately show ?thesis
    by (simp add: wsFrame_def wsLength_wrapFrame substr_def Let_def)
qed

lemma decodeLoop_wrapFrame: "wsFrameBuffer c = wrapFrame \<Longrightarrow> decodeLoop fuel c pl = None"
proof (induction fuel arbitrary: c pl)
  case 0
  show ?case by simp
next
  case (Suc fuel)
  then show ?case using wsFrame_wrapFrame by simp
qed

lemma wsFrame_maskedWrapFrame: "wsFrame maskedWrapFrame = SubstrThrows"
proof -
  have "wsLength maskedWrapFrame = Some (- 14, 10)"
    by (simp add: wsLength_def maskedWrapFrame_def or_push_bit_8)
  moreover have "unat (word_of_nat 14 + (- 14) :: 64 word) = 0" by simp
  moreover have "length maskedWrapFrame = 10" "maskedWrapFrame ! 0 = 0x81" "maskedWrapFrame ! 1 = 0xff"
    by (simp_all add: maskedWrapFrame_def)
  ultimately show ?thesis by (simp add: wsFrame_def substr_def Let_def)
qed

section \<open>Properties\<close>

text \<open>
  C16. The frame decoder inverts the frame encoders: whatever mixture of masked and unmasked data
  frames (payloads below \<^verbatim>\<open>2^63\<close> bytes, the frames \<^verbatim>\<open>encodeWsFrame\<close> sends among them) arrives,
  split anywhere from what was buffered before, followed by any incomplete frame, it returns the
  concatenated payloads, keeps the incomplete frame for the next call and changes nothing else.
\<close>

theorem ws_decode_frames:
  assumes "\<forall>f\<in>set fs. frameOk f" and "wsFrame tail = NeedMore"
    and "wsFrameBuffer c @ incoming = concat (map frameBytes fs) @ tail" and "length fs < fuel"
  shows "decodeWsFrames fuel incoming c =
           Some (Inr (c\<lparr>wsFrameBuffer := tail\<rparr>, concat (map cfPayload fs))) \<and>
         (\<forall>p. length p < 2 ^ 63 \<longrightarrow>
            frameOk \<lparr>cfFirst = 0x81, cfKey = None, cfPayload = p\<rparr> \<and>
            frameBytes \<lparr>cfFirst = 0x81, cfKey = None, cfPayload = p\<rparr> = encodeWsFrame p)"
  using decodeLoop_frames[of fs tail "c\<lparr>wsFrameBuffer := wsFrameBuffer c @ incoming\<rparr>" fuel "[]"] assms
  by (simp add: decodeWsFrames_def frameOk_def frameBytes_def encodeWsFrame_frame)

theorem ws_decode_frames_witness:
  "decodeWsFrames 5 (encodeWsFrame [72, 105] @ [0x81]) (newConnection 1 0) =
   Some (Inr ((newConnection 1 0)\<lparr>wsFrameBuffer := [0x81]\<rparr>, [72, 105]))"
  using ws_decode_frames[of "[\<lparr>cfFirst = 0x81, cfKey = None, cfPayload = [72, 105]\<rparr>]" "[0x81]"
      "newConnection 1 0" "encodeWsFrame [72, 105] @ [0x81]" 5]
  by (simp add: newConnection_def frameOk_def frameBytes_def encodeWsFrame_frame wsFrame_def)

text \<open>
  C17. The frame loop returns, without an exception, whenever the length field of no frame it comes to makes \<^verbatim>\<open>header + len\<close> wrap
  around; one more unit of fuel than there are bytes is enough. The payloads of the frames may hold any bytes.
\<close>

theorem ws_decode_terminates:
  assumes "\<And>b. frameFront (wsFrameBuffer c @ incoming) b \<Longrightarrow> noWrap b"
    and "length (wsFrameBuffer c @ incoming) < fuel"
  shows "\<exists>c' payload. decodeWsFrames fuel incoming c = Some (Inr (c', payload))"
  unfolding decodeWsFrames_def by (rule decodeLoop_terminates) (use assms in simp_all)

text \<open>A binary frame whose payload looks like a frame with a length that wraps, and the start of a next frame.\<close>

definition harmlessFrame :: "byte list" where
  "harmlessFrame = [0x82, 10, 0x81, 0x7f, 0xff, 0xff, 0xff, 0xff, 0xff, 0xff, 0xff, 0xf6, 0x89]"

lemma harmless_front: "wsFrame harmlessFrame = Frame 2 [0x81, 0x7f, 0xff, 0xff, 0xff, 0xff, 0xff, 0xff, 0xff, 0xf6] [0x89]"
  by code_simp

theorem ws_decode_terminates_witness:
  "\<exists>c' payload. decodeWsFrames 14 harmlessFrame (newConnection 1 0) = Some (Inr (c', payload))"
proof (rule ws_decode_terminates)
  have b0: "wsFrameBuffer (newConnection 1 0) = []" by (simp add: newConnection_def)
  have last: "wsFrame [0x89] = NeedMore" by code_simp
  fix b
  assume f: "frameFront (wsFrameBuffer (newConnection 1 0) @ harmlessFrame) b"
  have "b = harmlessFrame \<or> frameFront [0x89] b"
    using f unfolding b0 append_Nil by (cases rule: frameFront.cases) (auto simp: harmless_front)
  moreover have "b = [0x89]" if "frameFront [0x89] b"
    using that by (cases rule: frameFront.cases) (auto simp: last)
  ultimately have "b = harmlessFrame \<or> b = [0x89]" by blast
  moreover have "wsLength harmlessFrame = Some (10, 2)" by code_simp
  then have "noWrap harmlessFrame" by (simp add: noWrap_def)
  moreover have "noWrap [0x89]" by (simp add: noWrap_def)
  ultimately show "noWrap b" by blast
qed (simp add: newConnection_def harmlessFrame_def)

text \<open>
  A frame whose 64-bit length makes \<^verbatim>\<open>header + len\<close> wrap to 0 passes the size test. Ten bytes
  from an upgraded client with length \<^verbatim>\<open>2^64 - 10\<close> make the loop erase nothing and run forever (no amount of fuel
  is enough); ten bytes with the mask bit and length \<^verbatim>\<open>2^64 - 14\<close> make \<^verbatim>\<open>substr\<close> throw
  \<^verbatim>\<open>std::out_of_range\<close>, which nothing between \<^verbatim>\<open>pollLines\<close> and \<^verbatim>\<open>main\<close> catches.
\<close>

theorem ws_length_wraparound:
  assumes "wsFrameBuffer c = []"
  shows "(\<forall>fuel. decodeWsFrames fuel wrapFrame c = None) \<and>
         (\<forall>fuel. decodeWsFrames (Suc fuel) maskedWrapFrame c = Some (Inl OutOfRange))"
  using assms by (simp add: decodeWsFrames_def decodeLoop_wrapFrame wsFrame_maskedWrapFrame)

theorem ws_length_wraparound_witness:
  "decodeWsFrames 100 wrapFrame (newConnection 1 0) = None \<and>
   decodeWsFrames 1 maskedWrapFrame (newConnection 1 0) = Some (Inl OutOfRange)"
  using ws_length_wraparound[of "newConnection 1 0"] by (simp add: newConnection_def)

end
