(* ===== verification/Conn_Input.thy ===== *)
theory Conn_Input
  imports WebSocket
begin

text \<open>
  The input side of \<^verbatim>\<open>src/net/Connection.cpp\<close>: \<^verbatim>\<open>pollLines\<close> with its read loop and line splitting,
  the one-shot flags and queues that \<^verbatim>\<open>Server::handleConnection\<close> consumes, and \<^verbatim>\<open>input_to\<close> /
  \<^verbatim>\<open>notify_fail\<close> bookkeeping.
\<close>

section \<open>Reading\<close>

text \<open>
  The answers of successive \<^verbatim>\<open>rawRead\<close> calls with the bytes put into the buffer. An exhausted list
  stands for \<^verbatim>\<open>EAGAIN\<close>. The result is the bytes read and whether the peer is gone.
\<close>

fun readLoop :: "(io_answer \<times> byte list) list \<Rightarrow> byte list \<times> bool" where
  "readLoop [] = ([], False)"
| "readLoop ((a, buf) # rs) =
     (let (n, e) = rawRead a in
      if n > 0 then (let (raw, gone) = readLoop rs in (take (nat n) buf @ raw, gone))
      else if n = 0 then ([], True)
      else if e = EAGAIN \<or> e = EWOULDBLOCK then ([], False)
      else if e = EINTR then readLoop rs
      else ([], True))"

section \<open>Line splitting\<close>

definition stripCr :: "byte list \<Rightarrow> byte list" where
  "stripCr line = (if line \<noteq> [] \<and> last line = 13 then butlast line else line)"

text \<open>
  The line loop: the first newline ends a line; echo switched off by \<^verbatim>\<open>suppressEcho\<close> comes back
  with the first complete line.
\<close>

definition takeLine :: "nat \<Rightarrow> connection \<Rightarrow> connection" where
  "takeLine pos c =
     (let c1 = c\<lparr>inputBuffer := drop (pos + 1) (inputBuffer c)\<rparr> in
      if echoSuppressed c1
      then send [kIac, kWont, kTelOptEcho] (c1\<lparr>echoSuppressed := False\<rparr>)
      else c1)"

lemma inputBuffer_takeLine [simp]: "inputBuffer (takeLine pos c) = drop (pos + 1) (inputBuffer c)"
  by (simp add: takeLine_def Let_def)

function lineLoop :: "connection \<Rightarrow> connection \<times> byte list list" where
  "lineLoop c =
     (case find_idx (\<lambda>b. b = 10) (inputBuffer c) of
        None \<Rightarrow> (c, [])
      | Some pos \<Rightarrow>
          let line = stripCr (take pos (inputBuffer c));
              (c', lines) = lineLoop (takeLine pos c)
          in (c', line # lines))"
  by pat_completeness auto
termination
  by (relation "measure (\<lambda>c. length (inputBuffer c))") (auto simp: find_idx_Some)

declare lineLoop.simps [simp del]

section \<open>pollLines\<close>

definition pollLines ::
  "(byte list \<Rightarrow> byte list) \<Rightarrow> nat \<Rightarrow> (io_answer \<times> byte list) list \<Rightarrow> connection \<Rightarrow>
   (connection \<times> byte list list) res option" where
  "pollLines sha1Base64 fuel reads c =
     (if fd c < 0 then Some (Inr (c, []))
      else
        let (raw, gone) = readLoop reads;
            c1 = (if gone then c\<lparr>closed := True\<rparr> else c);
            finish = (\<lambda>d chunk.
              let (d1, plain) = processTelnetBytes chunk d (inputBuffer d)
              in Some (Inr (lineLoop (d1\<lparr>inputBuffer := plain\<rparr>))))
        in if useWebSocket c1 \<and> \<not> wsHandshakeDone c1 then
             (case tryCompleteWebSocketHandshake sha1Base64 fuel (c1\<lparr>wsHttpBuffer := wsHttpBuffer c1 @ raw\<rparr>) of
                None \<Rightarrow> None
              | Some (Inl x) \<Rightarrow> Some (Inl x)
              | Some (Inr (c2, False)) \<Rightarrow> Some (Inr (c2, []))
              | Some (Inr (c2, True)) \<Rightarrow> finish c2 [])
           else if useWebSocket c1 \<and> wsHandshakeDone c1 \<and> raw \<noteq> [] then
             (case decodeWsFrames fuel raw c1 of
                None \<Rightarrow> None
              | Some (Inl x) \<Rightarrow> Some (Inl x)
              | Some (Inr (c2, chunk)) \<Rightarrow> finish c2 chunk)
           else finish c1 raw)"

section \<open>One-shot flags, queues and pending callbacks\<close>

definition enableWebSocket :: "connection \<Rightarrow> connection" where
  "enableWebSocket c = c\<lparr>useWebSocket := True\<rparr>"

definition transportReady :: "connection \<Rightarrow> bool" where
  "transportReady c \<longleftrightarrow> \<not> useWebSocket c \<or> wsHandshakeDone c"

definition takeTelnetOfferNeeded :: "connection \<Rightarrow> bool \<times> connection" where
  "takeTelnetOfferNeeded c =
     (if \<not> useWebSocket c \<or> \<not> wsHandshakeDone c \<or> telnetOffered c then (False, c)
      else (True, c\<lparr>telnetOffered := True\<rparr>))"

definition takeIncomingGmcp :: "connection \<Rightarrow> byte list list \<times> connection" where
  "takeIncomingGmcp c = (incomingGmcp c, c\<lparr>incomingGmcp := []\<rparr>)"

definition takeGmcpEnableNegotiated :: "connection \<Rightarrow> bool \<times> connection" where
  "takeGmcpEnableNegotiated c = (gmcpEnableNegotiated c, c\<lparr>gmcpEnableNegotiated := False\<rparr>)"

definition takeMsspNegotiated :: "connection \<Rightarrow> bool \<times> connection" where
  "takeMsspNegotiated c = (msspNegotiated c, c\<lparr>msspNegotiated := False\<rparr>)"

definition takeIncomingMsdp :: "connection \<Rightarrow> (byte list \<times> byte list) list \<times> connection" where
  "takeIncomingMsdp c = (incomingMsdp c, c\<lparr>incomingMsdp := []\<rparr>)"

definition takeMsdpEnableNegotiated :: "connection \<Rightarrow> bool \<times> connection" where
  "takeMsdpEnableNegotiated c = (msdpEnableNegotiated c, c\<lparr>msdpEnableNegotiated := False\<rparr>)"

definition takeMspEnableNegotiated :: "connection \<Rightarrow> bool \<times> connection" where
  "takeMspEnableNegotiated c = (mspEnableNegotiated c, c\<lparr>mspEnableNegotiated := False\<rparr>)"

definition takeIncomingZmp :: "connection \<Rightarrow> (byte list \<times> byte list list) list \<times> connection" where
  "takeIncomingZmp c = (incomingZmp c, c\<lparr>incomingZmp := []\<rparr>)"

definition takeWindowSizeUpdate :: "connection \<Rightarrow> bool \<times> connection" where
  "takeWindowSizeUpdate c = (windowSizeUpdated c, c\<lparr>windowSizeUpdated := False\<rparr>)"

definition takeTerminalTypeUpdate :: "connection \<Rightarrow> bool \<times> connection" where
  "takeTerminalTypeUpdate c = (terminalTypeUpdated c, c\<lparr>terminalTypeUpdated := False\<rparr>)"

definition setPendingInputTo :: "ref option \<Rightarrow> lvalue \<Rightarrow> lvalue list \<Rightarrow> connection \<Rightarrow> connection" where
  "setPendingInputTo ob f extra c =
     c\<lparr>pendingInputTo := Some \<lparr>pitObject = ob, pitFunction = f, pitExtraArgs = extra\<rparr>\<rparr>"

definition takePendingInputTo :: "connection \<Rightarrow> PendingInputTo option \<times> connection" where
  "takePendingInputTo c = (pendingInputTo c, c\<lparr>pendingInputTo := None\<rparr>)"

definition takePendingNotifyFail :: "connection \<Rightarrow> lvalue option \<times> connection" where
  "takePendingNotifyFail c = (pendingNotifyFail c, c\<lparr>pendingNotifyFail := None\<rparr>)"

section \<open>Lemmas: lines\<close>

text \<open>The lines of a text and what is left after its last newline, without the connection.\<close>

function linesOf :: "byte list \<Rightarrow> byte list list \<times> byte list" where
  "linesOf buf =
     (case find_idx (\<lambda>b. b = 10) buf of
        None \<Rightarrow> ([], buf)
      | Some pos \<Rightarrow> let (ls, rest) = linesOf (drop (pos + 1) buf) in (take pos buf # ls, rest))"
  by pat_completeness auto
termination
  by (relation "measure length") (auto simp: find_idx_Some)

declare linesOf.simps [simp del]

lemma lineLoop_linesOf:
  "inputBuffer (fst (lineLoop c)) = snd (linesOf (inputBuffer c)) \<and>
   snd (lineLoop c) = map stripCr (fst (linesOf (inputBuffer c)))"
proof (induction c rule: lineLoop.induct)
  case (1 c)
  show ?case
  proof (cases "find_idx (\<lambda>b. b = 10) (inputBuffer c)")
    case None
    then show ?thesis by (simp add: lineLoop.simps[of c] linesOf.simps[of "inputBuffer c"])
  next
    case (Some pos)
    obtain d ls where d: "lineLoop (takeLine pos c) = (d, ls)" by fastforce
    obtain ls' rest where r: "linesOf (drop (pos + 1) (inputBuffer c)) = (ls', rest)" by fastforce
    from "1.IH"[OF Some refl] Some d r show ?thesis
      by (simp add: lineLoop.simps[of c] linesOf.simps[of "inputBuffer c"])
  qed
qed

lemma linesOf_text:
  assumes "linesOf buf = (ls, rest)"
  shows "buf = concat (map (\<lambda>l. l @ [10]) ls) @ rest" and "10 \<notin> set rest" and "\<forall>l\<in>set ls. 10 \<notin> set l"
  using assms
proof (induction buf arbitrary: ls rule: linesOf.induct)
  case (1 buf)
  {
    case 1
    show ?case
    proof (cases "find_idx (\<lambda>b. b = 10) buf")
      case None
      with 1 show ?thesis by (simp add: linesOf.simps[of buf])
    next
      case (Some pos)
      with 1 obtain ls' where ls': "linesOf (drop (pos + 1) buf) = (ls', rest)" and "ls = take pos buf # ls'"
        by (auto simp: linesOf.simps[of buf] split: prod.splits)
      moreover have "buf = take pos buf @ [10] @ drop (pos + 1) buf"
        using id_take_nth_drop[OF find_idx_SomeD(1)[OF Some]] find_idx_SomeD(2)[OF Some] by simp
      ultimately show ?thesis using "1.IH"(1)[OF Some ls'] by simp
    qed
  next
    case 2
    show ?case
    proof (cases "find_idx (\<lambda>b. b = 10) buf")
      case None
      with 2 show ?thesis by (auto simp: linesOf.simps[of buf] find_idx_None)
    next
      case (Some pos)
      with 2 obtain ls' where ls': "linesOf (drop (pos + 1) buf) = (ls', rest)"
        by (auto simp: linesOf.simps[of buf] split: prod.splits)
      with "1.IH"(2)[OF Some ls'] show ?thesis by simp
    qed
  next
    case 3
    show ?case
    proof (cases "find_idx (\<lambda>b. b = 10) buf")
      case None
      with 3 show ?thesis by (auto simp: linesOf.simps[of buf])
    next
      case (Some pos)
      with 3 obtain ls' where ls': "linesOf (drop (pos + 1) buf) = (ls', rest)" and "ls = take pos buf # ls'"
        by (auto simp: linesOf.simps[of buf] split: prod.splits)
      with "1.IH"(3)[OF Some ls'] find_idx_SomeD(3)[OF Some] show ?thesis by auto
    qed
  }
qed

lemma linesOf_append:
  "linesOf (x @ y) =
     (fst (linesOf x) @ fst (linesOf (snd (linesOf x) @ y)), snd (linesOf (snd (linesOf x) @ y)))"
proof (induction x rule: linesOf.induct)
  case (1 x)
  show ?case
  proof (cases "find_idx (\<lambda>b. b = 10) x")
    case None
    then show ?thesis by (simp add: linesOf.simps[of x])
  next
    case (Some pos)
    obtain ls rest where r: "linesOf (drop (pos + 1) x) = (ls, rest)" by fastforce
    have "pos < length x" using Some by (simp add: find_idx_Some)
    moreover have "find_idx (\<lambda>b. b = 10) (x @ y) = Some pos" using Some by (simp add: find_idx_append)
    ultimately show ?thesis
      using "1.IH"[OF Some] r Some by (simp add: linesOf.simps[of x] linesOf.simps[of "x @ y"])
  qed
qed

lemma linesOf_crlf:
  assumes "\<forall>l\<in>set ls. 10 \<notin> set l"
  shows "linesOf (concat (map (\<lambda>l. l @ [10]) ls)) = (ls, [])"
  using assms
proof (induction ls)
  case Nil
  show ?case by (simp add: linesOf.simps)
next
  case (Cons l ls)
  have "find_idx (\<lambda>b. b = 10) (l @ 10 # concat (map (\<lambda>l. l @ [10]) ls)) = Some (length l)"
    using Cons.prems by (intro find_idx_hit) auto
  with Cons show ?case by (subst linesOf.simps) simp
qed

section \<open>Lemmas: what input processing depends on\<close>

text \<open>
  The part of a connection that decides how input is read; the echo state and the transport are not
  in it.
\<close>

definition inputView ::
  "connection \<Rightarrow> TelnetState \<times> byte list \<times> byte list list \<times> (byte list \<times> byte list) list \<times>
   (byte list \<times> byte list list) list" where
  "inputView c = (telnetState c, sbBuffer c, incomingGmcp c, incomingMsdp c, incomingZmp c)"

lemma inputView_frame [simp]:
  "inputView (send bs c) = inputView c"
  "inputView (c\<lparr>inputBuffer := b\<rparr>) = inputView c"
  "inputView (c\<lparr>echoSuppressed := e\<rparr>) = inputView c"
  "inputView (c\<lparr>closed := e\<rparr>) = inputView c"
  by (simp_all add: inputView_def)

lemma inputView_takeLine [simp]: "inputView (takeLine pos c) = inputView c"
  by (simp add: takeLine_def Let_def)

lemma transport_takeLine [simp]:
  "fd (takeLine pos c) = fd c" "useWebSocket (takeLine pos c) = useWebSocket c"
  by (simp_all add: takeLine_def Let_def)

lemma lineLoop_keeps:
  "inputView (fst (lineLoop c)) = inputView c \<and> fd (fst (lineLoop c)) = fd c \<and>
   useWebSocket (fst (lineLoop c)) = useWebSocket c"
proof (induction c rule: lineLoop.induct)
  case (1 c)
  show ?case
  proof (cases "find_idx (\<lambda>b. b = 10) (inputBuffer c)")
    case None
    then show ?thesis by (simp add: lineLoop.simps[of c])
  next
    case (Some pos)
    obtain d ls where "lineLoop (takeLine pos c) = (d, ls)" by fastforce
    with "1.IH"[OF Some refl] Some show ?thesis by (simp add: lineLoop.simps[of c])
  qed
qed

lemma handleNegotiation_view [simp]: "inputView (handleNegotiation k opt c) = inputView c"
  by (simp add: handleNegotiation_def requestTerminalType_def inputView_def)

lemma inputView_state: "inputView c = inputView d \<Longrightarrow> inputView (c\<lparr>telnetState := t\<rparr>) = inputView (d\<lparr>telnetState := t\<rparr>)"
  by (simp add: inputView_def)

lemma handleSubnegotiation_view:
  "inputView c = inputView d \<Longrightarrow> inputView (handleSubnegotiation c) = inputView (handleSubnegotiation d)"
  by (auto simp: handleSubnegotiation_def handleTtype_def handleGmcp_def handleMsdp_def
      handleZmp_def handleNaws_def Let_def inputView_def split: list.splits option.splits)

lemma telnetByte_view:
  assumes "inputView c = inputView d"
  shows "inputView (fst (telnetByte (c, p) b)) = inputView (fst (telnetByte (d, q) b)) \<and>
    (\<exists>new. snd (telnetByte (c, p) b) = p @ new \<and> snd (telnetByte (d, q) b) = q @ new)"
proof -
  have st: "telnetState c = telnetState d" and sb: "sbBuffer c = sbBuffer d"
    using assms by (simp_all add: inputView_def)
  have neg: "inputView ((handleNegotiation k b c)\<lparr>telnetState := TsData\<rparr>) =
        inputView ((handleNegotiation k b d)\<lparr>telnetState := TsData\<rparr>)" for k
    using assms by (intro inputView_state) simp
  have sub: "inputView ((handleSubnegotiation c)\<lparr>telnetState := TsData\<rparr>) =
        inputView ((handleSubnegotiation d)\<lparr>telnetState := TsData\<rparr>)"
    using assms by (intro inputView_state handleSubnegotiation_view)
  show ?thesis
    using assms st sb neg sub
    by (cases "telnetState d") (auto simp: telnetByte_def inputView_def)
qed

lemma run_view:
  assumes "inputView c = inputView d"
  shows "inputView (fst (foldl telnetByte (c, p) raw)) = inputView (fst (foldl telnetByte (d, q) raw)) \<and>
    (\<exists>new. snd (foldl telnetByte (c, p) raw) = p @ new \<and> snd (foldl telnetByte (d, q) raw) = q @ new)"
  using assms
proof (induction raw arbitrary: c d p q)
  case Nil
  then show ?case by simp
next
  case (Cons b raw)
  obtain c1 p1 where c1: "telnetByte (c, p) b = (c1, p1)" by fastforce
  obtain d1 q1 where d1: "telnetByte (d, q) b = (d1, q1)" by fastforce
  from telnetByte_view[OF Cons.prems, of p b q] c1 d1
  obtain new where v: "inputView c1 = inputView d1" and n: "p1 = p @ new" "q1 = q @ new" by auto
  from Cons.IH[OF v, of p1 q1] n c1 d1 show ?case by auto
qed

lemma telnetByte_transport:
  "fd (fst (telnetByte (c, p) b)) = fd c \<and> useWebSocket (fst (telnetByte (c, p) b)) = useWebSocket c \<and>
   inputBuffer (fst (telnetByte (c, p) b)) = inputBuffer c"
  by (auto simp: telnetByte_def handleNegotiation_def requestTerminalType_def handleSubnegotiation_def
      handleTtype_def handleGmcp_def handleMsdp_def handleZmp_def handleNaws_def Let_def
      split: TelnetState.splits list.splits option.splits)

lemma run_transport:
  "fd (fst (foldl telnetByte (c, p) raw)) = fd c \<and>
   useWebSocket (fst (foldl telnetByte (c, p) raw)) = useWebSocket c"
proof (induction raw arbitrary: c p)
  case Nil
  show ?case by simp
next
  case (Cons b raw)
  then show ?case using telnetByte_transport[of c p b] by (cases "telnetByte (c, p) b") simp
qed

section \<open>Lemmas: one poll of a telnet connection\<close>

lemma pollLines_telnet:
  assumes "0 \<le> fd c" and "\<not> useWebSocket c" and "readLoop reads = (raw, False)"
    and "processTelnetBytes raw c (inputBuffer c) = (d, plain)"
  shows "pollLines sha fuel reads c = Some (Inr (lineLoop (d\<lparr>inputBuffer := plain\<rparr>)))"
  using assms by (simp add: pollLines_def)

text \<open>One poll, its text and what stays the same.\<close>

lemma pollLines_telnetE:
  assumes "0 \<le> fd c" and "\<not> useWebSocket c" and "readLoop reads = (raw, False)"
  obtains c' new where
    "pollLines sha fuel reads c = Some (Inr (c', map stripCr (fst (linesOf (inputBuffer c @ new)))))"
    "inputBuffer c' = snd (linesOf (inputBuffer c @ new))"
    "inputView c' = inputView (fst (processTelnetBytes raw c []))"
    "snd (processTelnetBytes raw c []) = new" "fd c' = fd c" "\<not> useWebSocket c'"
proof -
  obtain d plain where p: "processTelnetBytes raw c (inputBuffer c) = (d, plain)" by fastforce
  obtain c' ls where l: "lineLoop (d\<lparr>inputBuffer := plain\<rparr>) = (c', ls)" by fastforce
  from run_view[of c c "inputBuffer c" raw "[]"] p
  obtain new where new: "plain = inputBuffer c @ new" "snd (processTelnetBytes raw c []) = new"
    and v: "inputView d = inputView (fst (processTelnetBytes raw c []))"
    by (auto simp: processTelnetBytes_def)
  show thesis
  proof (rule that[of c' new])
    show "pollLines sha fuel reads c = Some (Inr (c', map stripCr (fst (linesOf (inputBuffer c @ new)))))"
      using pollLines_telnet[OF assms p] l new(1) lineLoop_linesOf[of "d\<lparr>inputBuffer := plain\<rparr>"] by simp
    show "inputBuffer c' = snd (linesOf (inputBuffer c @ new))"
      using l new(1) lineLoop_linesOf[of "d\<lparr>inputBuffer := plain\<rparr>"] by simp
    show "inputView c' = inputView (fst (processTelnetBytes raw c []))"
      using lineLoop_keeps[of "d\<lparr>inputBuffer := plain\<rparr>"] l v by simp
    show "snd (processTelnetBytes raw c []) = new" by (rule new(2))
    show "fd c' = fd c" "\<not> useWebSocket c'"
      using lineLoop_keeps[of "d\<lparr>inputBuffer := plain\<rparr>"] l
        run_transport[of c "inputBuffer c" raw] p assms(2) by (simp_all add: processTelnetBytes_def)
  qed
qed

lemma linesOf_crlf_lines:
  assumes "\<forall>l\<in>set ls. 10 \<notin> set l"
  shows "linesOf (concat (map (\<lambda>l. l @ [13, 10]) ls)) = (map (\<lambda>l. l @ [13]) ls, [])"
  using linesOf_crlf[of "map (\<lambda>l. l @ [13]) ls"] assms by (simp add: comp_def)

text \<open>A smallest upgrade request.\<close>

definition upgradeRequest :: "byte list" where
  "upgradeRequest = bytes_of ''Sec-WebSocket-Key:x'' @ crlfcrlf"

section \<open>Properties\<close>

text \<open>
  C11. How the kernel cuts the input of a telnet connection (one that has not become a WebSocket) into reads does not matter, as long as the
  input does not end: two polls that read \<open>a\<close> and then \<open>b\<close> return,
  together, the lines of one poll that reads both, leave the same unfinished line, the same telnet
  state (also in the middle of a command or a subnegotiation) and the same protocol queues.
\<close>

theorem poll_chunk_invariance:
  assumes "0 \<le> fd c" and "\<not> useWebSocket c"
    and "readLoop r1 = (a, False)" and "readLoop r2 = (b, False)" and "readLoop r = (a @ b, False)"
  shows "\<exists>c1 l1 c2 l2 c'. pollLines sha f r1 c = Some (Inr (c1, l1)) \<and>
    pollLines sha f r2 c1 = Some (Inr (c2, l2)) \<and> pollLines sha f r c = Some (Inr (c', l1 @ l2)) \<and>
    inputBuffer c2 = inputBuffer c' \<and> inputView c2 = inputView c'"
proof -
  obtain c1 n1 where c1: "pollLines sha f r1 c = Some (Inr (c1, map stripCr (fst (linesOf (inputBuffer c @ n1)))))"
    "inputBuffer c1 = snd (linesOf (inputBuffer c @ n1))"
    "inputView c1 = inputView (fst (processTelnetBytes a c []))"
    "snd (processTelnetBytes a c []) = n1" "fd c1 = fd c" "\<not> useWebSocket c1"
    by (rule pollLines_telnetE[OF assms(1-3)])
  obtain c2 n2 where c2: "pollLines sha f r2 c1 = Some (Inr (c2, map stripCr (fst (linesOf (inputBuffer c1 @ n2)))))"
    "inputBuffer c2 = snd (linesOf (inputBuffer c1 @ n2))"
    "inputView c2 = inputView (fst (processTelnetBytes b c1 []))"
    "snd (processTelnetBytes b c1 []) = n2"
    by (rule pollLines_telnetE[of c1 r2 b sha f]) (use assms c1 in auto)
  obtain c' n where c': "pollLines sha f r c = Some (Inr (c', map stripCr (fst (linesOf (inputBuffer c @ n)))))"
    "inputBuffer c' = snd (linesOf (inputBuffer c @ n))"
    "inputView c' = inputView (fst (processTelnetBytes (a @ b) c []))"
    "snd (processTelnetBytes (a @ b) c []) = n"
    by (rule pollLines_telnetE[OF assms(1,2,5)])
  obtain d where d: "foldl telnetByte (c, []) a = (d, n1)"
    using c1(4) by (metis prod.collapse processTelnetBytes_def)
  have "inputView d = inputView c1" using c1(3) d by (simp add: processTelnetBytes_def)
  from run_view[OF this, of n1 b "[]"] c' c2 d
  have n: "n = n1 @ n2" and v: "inputView c' = inputView c2"
    by (auto simp: processTelnetBytes_def)
  show ?thesis
    using c1 c2 c' n v linesOf_append[of "inputBuffer c @ n1" n2] by simp
qed

theorem poll_chunk_invariance_witness:
  "\<exists>c1 l1 c2 l2 c'. pollLines (\<lambda>k. k) 0 [(SysAnswer 2 EIO, [65, 255])] (newConnection 1 0) = Some (Inr (c1, l1)) \<and>
    pollLines (\<lambda>k. k) 0 [(SysAnswer 2 EIO, [255, 10])] c1 = Some (Inr (c2, l2)) \<and>
    pollLines (\<lambda>k. k) 0 [(SysAnswer 4 EIO, [65, 255, 255, 10])] (newConnection 1 0) = Some (Inr (c', l1 @ l2)) \<and>
    inputBuffer c2 = inputBuffer c' \<and> inputView c2 = inputView c'"
  by (rule poll_chunk_invariance[where a = "[65, 255]" and b = "[255, 10]"])
    (simp_all add: newConnection_def rawRead_def)

text \<open>
  C12. End to end on a telnet connection: a client that sends any lines (free of newlines and of a
  trailing carriage return) terminated by CR LF, with 0xFF bytes escaped and with GMCP, MSDP and ZMP frames anywhere
  in between, even inside a line, has exactly these lines returned by \<^verbatim>\<open>pollLines\<close>, every frame queued once in
  order, and no partial line left over.
\<close>

theorem poll_lines_roundtrip:
  assumes "0 \<le> fd c" and "\<not> useWebSocket c" and "telnetState c = TsData" and "inputBuffer c = []"
    and "\<forall>i\<in>set items. itemOk i"
    and "readLoop reads = (concat (map itemWire items), False)"
    and "texts items = concat (map (\<lambda>l. l @ [13, 10]) ls)" and "\<forall>l\<in>set ls. 10 \<notin> set l"
  shows "\<exists>c'. pollLines sha fuel reads c = Some (Inr (c', ls)) \<and> inputBuffer c' = [] \<and>
    incomingGmcp c' = incomingGmcp c @ gmcps items \<and> incomingMsdp c' = incomingMsdp c @ msdps items \<and>
    incomingZmp c' = incomingZmp c @ zmps items"
proof -
  obtain c' new where c': "pollLines sha fuel reads c = Some (Inr (c', map stripCr (fst (linesOf (inputBuffer c @ new)))))"
    "inputBuffer c' = snd (linesOf (inputBuffer c @ new))"
    "inputView c' = inputView (fst (processTelnetBytes (concat (map itemWire items)) c []))"
    "snd (processTelnetBytes (concat (map itemWire items)) c []) = new"
    by (rule pollLines_telnetE[OF assms(1,2,6)])
  from run_stream[OF assms(3,5), of "[]"] c' have "new = texts items"
    and "incomingGmcp c' = incomingGmcp c @ gmcps items" "incomingMsdp c' = incomingMsdp c @ msdps items"
    "incomingZmp c' = incomingZmp c @ zmps items"
    by (auto simp: processTelnetBytes_def inputView_def)
  with c' assms(4,7) linesOf_crlf_lines[OF assms(8)] show ?thesis
    by (simp add: stripCr_def comp_def)
qed

theorem poll_lines_roundtrip_witness:
  "\<exists>c'. pollLines (\<lambda>k. k) 0 [(SysAnswer 11 EIO, [65, 255, 250, 201, 7, 255, 240, 255, 255, 13, 10])]
      (newConnection 1 0) = Some (Inr (c', [[65, 255]])) \<and> incomingGmcp c' = [[7]]"
  using poll_lines_roundtrip[of "newConnection 1 0" "[TextItem [65], GmcpItem [7], TextItem [255, 13, 10]]"
      "[(SysAnswer 11 EIO, [65, 255, 250, 201, 7, 255, 240, 255, 255, 13, 10])]" "[[65, 255]]" "\<lambda>k. k" 0]
  by (auto simp: newConnection_def rawRead_def gmcpWire_def)

text \<open>
  Input that arrives in the same read as the WebSocket upgrade request is decoded into the
  line buffer without passing the telnet state machine: the bytes of a negotiation command come out
  as a player's line, whereas the same frame one read later is taken out of the text.
\<close>

theorem ws_upgrade_leftover_bypasses_telnet:
  "map_option (map_sum id snd) (pollLines (\<lambda>k. k) 3
      [(SysAnswer 29 EIO, upgradeRequest @ encodeWsFrame [kIac, kWill, 1, 10])]
      (enableWebSocket (newConnection 1 0))) = Some (Inr [[kIac, kWill, 1]]) \<and>
   map_option (map_sum id snd) (pollLines (\<lambda>k. k) 3
      [(SysAnswer 6 EIO, encodeWsFrame [kIac, kWill, 1, 10])]
      ((enableWebSocket (newConnection 1 0))\<lparr>wsHandshakeDone := True\<rparr>)) = Some (Inr [[]])"
  by code_simp

end
