(* ===== verification/Registries.thy ===== *)
theory Registries
  imports Lpc_Object Conn_State
begin

text \<open>
  The three driver-wide registries of weak pointers: \<^verbatim>\<open>src/net/InteractiveRegistry.cpp\<close>,
  \<^verbatim>\<open>src/object/LivingNameRegistry.cpp\<close> and \<^verbatim>\<open>src/object/LiveObjectRegistry.cpp\<close>. Each is a vector
  \<^verbatim>\<open>g_registry\<close>; the locale \<open>weak_registry\<close> states the contract of their common \<^verbatim>\<open>remove\<close>
  (expired entries go with the removed object) and of registration, and each registry interprets it.
\<close>

section \<open>The contract\<close>

text \<open>
  \<open>obj_of\<close> is the object of an entry, \<open>rm\<close> the registry's remove, \<open>reg\<close> its registration.
  After a removal no entry of the object is left, live entries of other objects keep their order,
  and a registered entry is there until it is removed.
\<close>

locale weak_registry =
  fixes obj_of :: "'e \<Rightarrow> ref"
    and rm :: "heap \<Rightarrow> ref option \<Rightarrow> 'e list \<Rightarrow> 'e list"
    and reg :: "heap \<Rightarrow> 'e \<Rightarrow> 'e list \<Rightarrow> 'e list"
  assumes rm_null: "rm h None es = es"
    and rm_obj: "rm h (Some r) es = filter (\<lambda>e. obj_of e \<in> dom h \<and> obj_of e \<noteq> r) es"
    and reg_keeps: "\<exists>pre. reg h e es = pre @ [e] \<and>
                      filter (\<lambda>x. obj_of x \<in> dom h \<and> obj_of x \<noteq> obj_of e) pre =
                      filter (\<lambda>x. obj_of x \<in> dom h \<and> obj_of x \<noteq> obj_of e) es"
begin

text \<open>The entries whose object is still alive, in order.\<close>

definition live :: "heap \<Rightarrow> 'e list \<Rightarrow> 'e list" where
  "live h es = filter (\<lambda>e. obj_of e \<in> dom h) es"

lemma rm_gone: "e \<in> set (rm h (Some r) es) \<Longrightarrow> obj_of e \<noteq> r"
  by (simp add: rm_obj)

lemma rm_idem: "rm h o' (rm h o' es) = rm h o' es"
  by (cases o') (simp_all add: rm_null rm_obj)

lemma rm_commute: "rm h (Some r) (rm h (Some s) es) = rm h (Some s) (rm h (Some r) es)"
  by (simp add: rm_obj) (metis (lifting))

lemma live_rm: "live h (rm h (Some r) es) = filter (\<lambda>e. obj_of e \<noteq> r) (live h es)"
  by (simp add: rm_obj live_def) (metis (lifting))

lemma reg_last: "last (reg h e es) = e" "reg h e es \<noteq> []"
  using reg_keeps[of h e es] by auto

lemma rm_reg:
  "rm h (Some (obj_of e)) (reg h e es) = rm h (Some (obj_of e)) es"
proof -
  obtain pre where "reg h e es = pre @ [e]"
    and "filter (\<lambda>x. obj_of x \<in> dom h \<and> obj_of x \<noteq> obj_of e) pre =
         filter (\<lambda>x. obj_of x \<in> dom h \<and> obj_of x \<noteq> obj_of e) es"
    using reg_keeps by blast
  then show ?thesis by (simp add: rm_obj)
qed

end

section \<open>InteractiveRegistry\<close>

type_synonym conn_id = nat

type_synonym interactive_registry = "(ref \<times> conn_id) list"

definition interactiveAdd :: "ref option \<Rightarrow> conn_id \<Rightarrow> interactive_registry \<Rightarrow> interactive_registry" where
  "interactiveAdd ob conn reg = (case ob of None \<Rightarrow> reg | Some r \<Rightarrow> reg @ [(r, conn)])"

definition interactiveRemove :: "heap \<Rightarrow> ref option \<Rightarrow> interactive_registry \<Rightarrow> interactive_registry" where
  "interactiveRemove h ob reg =
     (case ob of None \<Rightarrow> reg
      | Some r \<Rightarrow> filter (\<lambda>e. \<not> (lock h (Some (fst e)) = None \<or> lock h (Some (fst e)) = Some r)) reg)"

definition interactiveAll :: "heap \<Rightarrow> interactive_registry \<Rightarrow> ref list" where
  "interactiveAll h reg = List.map_filter (\<lambda>e. lock h (Some (fst e))) reg"

fun interactiveFind :: "heap \<Rightarrow> ref option \<Rightarrow> interactive_registry \<Rightarrow> conn_id option" where
  "interactiveFind h None reg = None"
| "interactiveFind h (Some r) [] = None"
| "interactiveFind h (Some r) (e # reg) =
     (if lock h (Some (fst e)) = Some r then Some (snd e) else interactiveFind h (Some r) reg)"

section \<open>LivingNameRegistry\<close>

type_synonym living_registry = "(ref \<times> string) list"

definition livingRemove :: "heap \<Rightarrow> ref option \<Rightarrow> living_registry \<Rightarrow> living_registry" where
  "livingRemove h ob reg =
     (case ob of None \<Rightarrow> reg
      | Some r \<Rightarrow> filter (\<lambda>e. \<not> (lock h (Some (fst e)) = None \<or> lock h (Some (fst e)) = Some r)) reg)"

definition livingSet :: "heap \<Rightarrow> ref option \<Rightarrow> string \<Rightarrow> living_registry \<Rightarrow> living_registry" where
  "livingSet h ob name reg =
     (case ob of None \<Rightarrow> reg | Some r \<Rightarrow> livingRemove h (Some r) reg @ [(r, name)])"

text \<open>An entry is skipped when its object is gone, destructed, or not a living.\<close>

definition livingOk :: "heap \<Rightarrow> bool \<Rightarrow> ref \<Rightarrow> bool" where
  "livingOk h requireOnceInteractive r =
     (case h r of None \<Rightarrow> False
      | Some ob \<Rightarrow> \<not> destructed ob \<and> (requireOnceInteractive \<longrightarrow> everInteractive ob) \<and> commandsEnabled ob)"

fun livingFind :: "heap \<Rightarrow> string \<Rightarrow> bool \<Rightarrow> living_registry \<Rightarrow> ref option" where
  "livingFind h name onceInteractive [] = None"
| "livingFind h name onceInteractive (e # reg) =
     (if snd e \<noteq> name then livingFind h name onceInteractive reg
      else if \<not> livingOk h onceInteractive (fst e) then livingFind h name onceInteractive reg
      else Some (fst e))"

definition livingAllWithCommandsEnabled :: "heap \<Rightarrow> living_registry \<Rightarrow> ref list" where
  "livingAllWithCommandsEnabled h reg = map fst (filter (\<lambda>e. livingOk h False (fst e)) reg)"

section \<open>LiveObjectRegistry\<close>

type_synonym live_registry = "ref list"

definition liveAdd :: "ref option \<Rightarrow> live_registry \<Rightarrow> live_registry" where
  "liveAdd ob reg = (case ob of None \<Rightarrow> reg | Some r \<Rightarrow> reg @ [r])"

definition liveRemove :: "heap \<Rightarrow> ref option \<Rightarrow> live_registry \<Rightarrow> live_registry" where
  "liveRemove h ob reg =
     (case ob of None \<Rightarrow> reg
      | Some r \<Rightarrow> filter (\<lambda>w. \<not> (lock h (Some w) = None \<or> lock h (Some w) = Some r)) reg)"

definition liveAll :: "heap \<Rightarrow> live_registry \<Rightarrow> ref list" where
  "liveAll h reg = filter (\<lambda>r. case h r of None \<Rightarrow> False | Some ob \<Rightarrow> \<not> destructed ob) reg"

text \<open>
  \<^verbatim>\<open>releaseAll\<close> at shutdown: the variables and the inventory of every live object are dropped, so that
  cycles of strong references do not keep objects alive, and the registry is emptied.
\<close>

definition releaseObject :: "lpc_object \<Rightarrow> lpc_object" where
  "releaseObject ob =
     ob\<lparr>variables := map (\<lambda>_. mkValue (VInt 0)) (variables ob), inventory := []\<rparr>"

definition releaseAll :: "heap \<Rightarrow> live_registry \<Rightarrow> heap \<times> live_registry" where
  "releaseAll h reg = (foldl (\<lambda>h r. updObj r releaseObject h) h reg, [])"

section \<open>Interpretations\<close>

lemma removal_filter:
  "filter (\<lambda>e. \<not> (lock h (Some (f e)) = None \<or> lock h (Some (f e)) = Some r)) es =
   filter (\<lambda>e. f e \<in> dom h \<and> f e \<noteq> r) es"
  by (intro filter_cong) (auto simp: lock_def)

lemma interactiveRemove_filter:
  "interactiveRemove h (Some r) reg = filter (\<lambda>e. fst e \<in> dom h \<and> fst e \<noteq> r) reg"
  by (simp only: interactiveRemove_def option.case removal_filter)

lemma livingRemove_filter:
  "livingRemove h (Some r) reg = filter (\<lambda>e. fst e \<in> dom h \<and> fst e \<noteq> r) reg"
  by (simp only: livingRemove_def option.case removal_filter)

lemma liveRemove_filter: "liveRemove h (Some r) reg = filter (\<lambda>w. w \<in> dom h \<and> w \<noteq> r) reg"
  by (simp only: liveRemove_def option.case removal_filter)

lemma remove_null [simp]:
  "interactiveRemove h None reg = reg" "livingRemove h None lreg = lreg" "liveRemove h None oreg = oreg"
  by (simp_all add: interactiveRemove_def livingRemove_def liveRemove_def)

interpretation interactive: weak_registry fst interactiveRemove "\<lambda>h e reg. interactiveAdd (Some (fst e)) (snd e) reg"
  by unfold_locales (simp_all add: interactiveRemove_filter interactiveAdd_def)

interpretation living: weak_registry fst livingRemove "\<lambda>h e reg. livingSet h (Some (fst e)) (snd e) reg"
  by unfold_locales (simp_all add: livingRemove_filter livingSet_def)

interpretation liveObjects: weak_registry "\<lambda>r. r" liveRemove "\<lambda>h r reg. liveAdd (Some r) reg"
  by unfold_locales (simp_all add: liveRemove_filter liveAdd_def)

section \<open>Lemmas\<close>

lemma interactiveFind_Some:
  "r \<in> dom h \<Longrightarrow> interactiveFind h (Some r) reg = map_option snd (find (\<lambda>e. fst e = r) reg)"
  by (induction reg) (auto simp: lock_eq_Some)

lemma find_filter_other:
  "r \<noteq> s \<Longrightarrow> r \<in> dom h \<Longrightarrow>
   find (\<lambda>e. fst e = r) (filter (\<lambda>e. fst e \<in> dom h \<and> fst e \<noteq> s) reg) = find (\<lambda>e. fst e = r) reg"
  by (induction reg) auto

lemma find_filter_gone: "find (\<lambda>e. fst e = r) (filter (\<lambda>e. fst e \<in> dom h \<and> fst e \<noteq> r) reg) = None"
  by (induction reg) auto

lemma find_append_last:
  "find P (xs @ [y]) = (case find P xs of Some x \<Rightarrow> Some x | None \<Rightarrow> if P y then Some y else None)"
  by (induction xs) auto

lemma livingFind_conv:
  "livingFind h name b reg = map_option fst (find (\<lambda>e. snd e = name \<and> livingOk h b (fst e)) reg)"
  by (induction reg) auto

text \<open>At most one entry per object: what \<^verbatim>\<open>set\<close> keeps and \<^verbatim>\<open>remove\<close> cannot break.\<close>

definition oneNameEach :: "living_registry \<Rightarrow> bool" where
  "oneNameEach reg \<longleftrightarrow> distinct (map fst reg)"

lemma oneNameEach_remove: "oneNameEach reg \<Longrightarrow> oneNameEach (livingRemove h ob reg)"
  by (cases ob) (simp_all add: oneNameEach_def living.rm_null living.rm_obj distinct_map_filter)

lemma oneNameEach_set: "oneNameEach reg \<Longrightarrow> oneNameEach (livingSet h ob name reg)"
proof (cases ob)
  case (Some r)
  assume "oneNameEach reg"
  then show ?thesis
    using oneNameEach_remove[of reg h "Some r"] living.rm_gone[of _ h r reg] Some
    by (auto simp: livingSet_def oneNameEach_def)
qed (simp add: livingSet_def)

lemma livingFind_sound:
  assumes "livingFind h name b reg = Some r"
  shows "(r, name) \<in> set reg" and "livingOk h b r"
proof -
  obtain e where e: "find (\<lambda>e. snd e = name \<and> livingOk h b (fst e)) reg = Some e" "r = fst e"
    using assms by (auto simp: livingFind_conv)
  then show "(r, name) \<in> set reg" "livingOk h b r" by (auto simp: find_Some_iff)
qed

lemma livingOk_live: "livingOk h b r \<Longrightarrow> r \<in> dom h"
  by (auto simp: livingOk_def split: option.splits)

section \<open>Properties\<close>

text \<open>
  Who is connected: after \<^verbatim>\<open>add\<close> an object that had no connection is found with the new one, after
  \<^verbatim>\<open>remove\<close> it is not found, neither changes what is found for any other live object, removing
  twice is removing once, and \<^verbatim>\<open>all\<close> lists only live objects.
\<close>

theorem interactive_lookup:
  assumes "r \<in> dom h"
  shows "interactiveFind h (Some r) (interactiveRemove h (Some r) reg) = None \<and>
    (interactiveFind h (Some r) reg = None \<longrightarrow> interactiveFind h (Some r) (interactiveAdd (Some r) c reg) = Some c) \<and>
    (\<forall>s. s \<in> dom h \<and> s \<noteq> r \<longrightarrow>
       interactiveFind h (Some s) (interactiveAdd (Some r) c reg) = interactiveFind h (Some s) reg \<and>
       interactiveFind h (Some s) (interactiveRemove h (Some r) reg) = interactiveFind h (Some s) reg) \<and>
    interactiveRemove h (Some r) (interactiveRemove h (Some r) reg) = interactiveRemove h (Some r) reg \<and>
    interactiveRemove h (Some r) (interactiveAdd (Some r) c reg) = interactiveRemove h (Some r) reg \<and>
    set (interactiveAll h reg) \<subseteq> dom h"
proof (intro conjI allI impI)
  show "interactiveFind h (Some r) (interactiveRemove h (Some r) reg) = None"
    using assms by (simp add: interactiveFind_Some interactiveRemove_filter find_filter_gone)
  show "interactiveFind h (Some r) (interactiveAdd (Some r) c reg) = Some c" if "interactiveFind h (Some r) reg = None"
    using assms that by (simp add: interactiveFind_Some interactiveAdd_def find_append_last)
  show "interactiveRemove h (Some r) (interactiveRemove h (Some r) reg) = interactiveRemove h (Some r) reg"
    by (rule interactive.rm_idem)
  show "interactiveRemove h (Some r) (interactiveAdd (Some r) c reg) = interactiveRemove h (Some r) reg"
    using interactive.rm_reg[of h "(r, c)" reg] by simp
  show "set (interactiveAll h reg) \<subseteq> dom h"
    by (auto simp: interactiveAll_def List.map_filter_def lock_def split: if_splits)
next
  fix s
  assume "s \<in> dom h \<and> s \<noteq> r"
  then show "interactiveFind h (Some s) (interactiveAdd (Some r) c reg) = interactiveFind h (Some s) reg"
    and "interactiveFind h (Some s) (interactiveRemove h (Some r) reg) = interactiveFind h (Some s) reg"
    by (simp_all add: interactiveFind_Some interactiveAdd_def interactiveRemove_filter find_append_last
        find_filter_other split: option.splits)
qed

theorem interactive_lookup_witness:
  "interactiveFind [1 \<mapsto> newLpcObject ''/p'' 0 0 True 0] (Some 1)
     (interactiveAdd (Some 1) 7 [(2, 5)]) = Some 7"
  using interactive_lookup[of 1 "[1 \<mapsto> newLpcObject ''/p'' 0 0 True 0]" "[(2, 5)]" 7]
  by (simp add: lock_def)

text \<open>
  Living names: \<^verbatim>\<open>find\<close> only ever answers with an object that carries the name, is live, not
  destructed, a living (and once interactive if asked); after \<^verbatim>\<open>set\<close> the object is found under its new name
  unless an older bearer of that name comes first, never under another name, and every object keeps at most one name.
\<close>

theorem living_name_lookup:
  assumes "oneNameEach reg" and "livingOk h b r"
  shows "oneNameEach (livingSet h (Some r) name reg) \<and>
    livingFind h name b (livingSet h (Some r) name reg) =
      (case livingFind h name b (livingRemove h (Some r) reg) of Some s \<Rightarrow> Some s | None \<Rightarrow> Some r) \<and>
    (\<forall>n b'. n \<noteq> name \<longrightarrow> livingFind h n b' (livingSet h (Some r) name reg) \<noteq> Some r) \<and>
    (\<forall>n b' s. livingFind h n b' reg = Some s \<longrightarrow> (s, n) \<in> set reg \<and> livingOk h b' s)"
proof (intro conjI allI impI)
  show "oneNameEach (livingSet h (Some r) name reg)" using assms(1) by (rule oneNameEach_set)
  show "livingFind h name b (livingSet h (Some r) name reg) =
      (case livingFind h name b (livingRemove h (Some r) reg) of Some s \<Rightarrow> Some s | None \<Rightarrow> Some r)"
    using assms(2) by (simp add: livingSet_def livingFind_conv find_append_last split: option.splits)
next
  fix n b'
  assume "n \<noteq> name"
  show "livingFind h n b' (livingSet h (Some r) name reg) \<noteq> Some r"
  proof
    assume "livingFind h n b' (livingSet h (Some r) name reg) = Some r"
    from livingFind_sound(1)[OF this] \<open>n \<noteq> name\<close> have "(r, n) \<in> set (livingRemove h (Some r) reg)"
      by (simp add: livingSet_def)
    then show False using living.rm_gone by fastforce
  qed
next
  fix n b' s
  assume "livingFind h n b' reg = Some s"
  then show "(s, n) \<in> set reg" "livingOk h b' s" by (rule livingFind_sound)+
qed

theorem living_name_lookup_witness:
  "livingFind [1 \<mapsto> (newLpcObject ''/p'' 0 0 True 0)\<lparr>commandsEnabled := True\<rparr>] ''bob'' False
     (livingSet [1 \<mapsto> (newLpcObject ''/p'' 0 0 True 0)\<lparr>commandsEnabled := True\<rparr>] (Some 1) ''bob'' [(1, ''al'')]) = Some 1"
  using living_name_lookup[of "[(1, ''al'')]"
      "[1 \<mapsto> (newLpcObject ''/p'' 0 0 True 0)\<lparr>commandsEnabled := True\<rparr>]" False 1 "''bob''"]
  by (simp add: oneNameEach_def livingOk_def newLpcObject_def livingRemove_filter)

end
