(* ===== verification/Scheduler.thy ===== *)
theory Scheduler
  imports Registries
begin

text \<open>
  \<^verbatim>\<open>src/scheduler/Scheduler.cpp\<close>: delayed calls, heartbeats, and the reset and clean-up pass. What LPC
  code does when it is called is a parameter: a function from the call and the world to its result
  (a value or an exception) and the world after it; it may use the scheduler, create, destruct and
  free objects. Every call starts with a fresh evaluation budget (\<^verbatim>\<open>vm.resetEvalCost()\<close>), which is part of
  that parameter. Handles are unbounded here: \<^verbatim>\<open>nextHandle_\<close> would need \<^verbatim>\<open>2^63\<close> calls to overflow.
\<close>

section \<open>State\<close>

text \<open>A closure of a delayed call: its identity and the object that owns it.\<close>

type_synonym closure_ref = "nat \<times> ref option"

record CallOutEntry =
  coHandle :: int
  coTarget :: "ref option"
  coFunction :: string
  coClosure :: "closure_ref option"
  coArgs :: "lvalue list"
  dueAt :: int

record HeartbeatEntry =
  hbTarget :: ref
  ticksRemaining :: int

record scheduler =
  callOuts :: "CallOutEntry list"
  heartbeats :: "HeartbeatEntry list"
  lastHeartbeat :: int
  nextHandle :: int

definition newScheduler :: "int \<Rightarrow> scheduler" where
  "newScheduler now = \<lparr>callOuts = [], heartbeats = [], lastHeartbeat = now, nextHandle = 1\<rparr>"

section \<open>Delayed calls\<close>

definition addCallOut :: "CallOutEntry \<Rightarrow> scheduler \<Rightarrow> int \<times> scheduler" where
  "addCallOut e s =
     (nextHandle s, s\<lparr>callOuts := callOuts s @ [e\<lparr>coHandle := nextHandle s\<rparr>], nextHandle := nextHandle s + 1\<rparr>)"

definition remainingSeconds :: "int \<Rightarrow> int \<Rightarrow> int" where
  "remainingSeconds now due = (if due \<le> now then 0 else (due - now) div nsPerSec)"

definition byName :: "heap \<Rightarrow> ref \<Rightarrow> string \<Rightarrow> CallOutEntry \<Rightarrow> bool" where
  "byName h r fn e \<longleftrightarrow> coClosure e = None \<and> lock h (coTarget e) = Some r \<and> coFunction e = fn"

text \<open>The two find loops and the two find-and-erase loops, over the entry test.\<close>

fun findCallOut :: "(CallOutEntry \<Rightarrow> bool) \<Rightarrow> int \<Rightarrow> CallOutEntry list \<Rightarrow> int" where
  "findCallOut P now [] = -1"
| "findCallOut P now (e # es) = (if P e then remainingSeconds now (dueAt e) else findCallOut P now es)"

fun removeCallOut :: "(CallOutEntry \<Rightarrow> bool) \<Rightarrow> int \<Rightarrow> CallOutEntry list \<Rightarrow> int \<times> CallOutEntry list" where
  "removeCallOut P now [] = (-1, [])"
| "removeCallOut P now (e # es) =
     (if P e then (remainingSeconds now (dueAt e), es)
      else (let (n, es') = removeCallOut P now es in (n, e # es')))"

definition removeCallOutByName :: "heap \<Rightarrow> int \<Rightarrow> ref option \<Rightarrow> string \<Rightarrow> scheduler \<Rightarrow> int \<times> scheduler" where
  "removeCallOutByName h now owner fn s =
     (case owner of None \<Rightarrow> (-1, s)
      | Some r \<Rightarrow> (let (n, es) = removeCallOut (byName h r fn) now (callOuts s) in (n, s\<lparr>callOuts := es\<rparr>)))"

definition removeCallOutByHandle :: "int \<Rightarrow> int \<Rightarrow> scheduler \<Rightarrow> int \<times> scheduler" where
  "removeCallOutByHandle now hdl s =
     (let (n, es) = removeCallOut (\<lambda>e. coHandle e = hdl) now (callOuts s) in (n, s\<lparr>callOuts := es\<rparr>))"

definition findCallOutByName :: "heap \<Rightarrow> int \<Rightarrow> ref option \<Rightarrow> string \<Rightarrow> scheduler \<Rightarrow> int" where
  "findCallOutByName h now owner fn s =
     (case owner of None \<Rightarrow> -1 | Some r \<Rightarrow> findCallOut (byName h r fn) now (callOuts s))"

definition findCallOutByHandle :: "int \<Rightarrow> int \<Rightarrow> scheduler \<Rightarrow> int" where
  "findCallOutByHandle now hdl s = findCallOut (\<lambda>e. coHandle e = hdl) now (callOuts s)"

definition callOutOwner :: "heap \<Rightarrow> CallOutEntry \<Rightarrow> ref option" where
  "callOutOwner h e = (case coClosure e of Some c \<Rightarrow> lock h (snd c) | None \<Rightarrow> lock h (coTarget e))"

definition ownerGone :: "heap \<Rightarrow> CallOutEntry \<Rightarrow> bool" where
  "ownerGone h e =
     (case callOutOwner h e of None \<Rightarrow> True
      | Some r \<Rightarrow> (case h r of None \<Rightarrow> True | Some ob \<Rightarrow> destructed ob))"

definition removeAllCallOutsForObject :: "heap \<Rightarrow> ref option \<Rightarrow> scheduler \<Rightarrow> scheduler" where
  "removeAllCallOutsForObject h ob s =
     s\<lparr>callOuts := filter (\<lambda>e. \<not> ((ob \<noteq> None \<and> callOutOwner h e = ob) \<or> ownerGone h e)) (callOuts s)\<rparr>"

section \<open>Heartbeats\<close>

definition setObjectInterval :: "ref \<Rightarrow> int \<Rightarrow> heap \<Rightarrow> heap" where
  "setObjectInterval r n h = updObj r (\<lambda>ob. ob\<lparr>heartbeatInterval := n\<rparr>) h"

fun setTicks :: "heap \<Rightarrow> ref \<Rightarrow> int \<Rightarrow> HeartbeatEntry list \<Rightarrow> HeartbeatEntry list" where
  "setTicks h r n [] = []"
| "setTicks h r n (e # es) =
     (if lock h (Some (hbTarget e)) = Some r then e\<lparr>ticksRemaining := n\<rparr> # es else e # setTicks h r n es)"

definition setHeartbeatInterval :: "ref option \<Rightarrow> int \<Rightarrow> heap \<Rightarrow> scheduler \<Rightarrow> heap \<times> scheduler" where
  "setHeartbeatInterval obj to h s =
     (case obj of None \<Rightarrow> (h, s)
      | Some r \<Rightarrow>
          let isObj = (\<lambda>e. lock h (Some (hbTarget e)) = Some r) in
          if to = 0 then
            (setObjectInterval r 0 h, s\<lparr>heartbeats := snd (eraseFirst isObj (heartbeats s))\<rparr>)
          else if \<exists>e\<in>set (heartbeats s). isObj e then
            (if to < 0 then (h, s)
             else (setObjectInterval r (to_int32 to) h, s\<lparr>heartbeats := setTicks h r (to_int32 to) (heartbeats s)\<rparr>))
          else
            let interval = (if to < 0 then 1 else to_int32 to) in
            (setObjectInterval r interval h,
             s\<lparr>heartbeats := heartbeats s @ [\<lparr>hbTarget = r, ticksRemaining = interval\<rparr>]\<rparr>))"

text \<open>
  The first loop of \<^verbatim>\<open>tickHeartbeats\<close>: expired entries are erased, the counter of every other one is
  decremented, and one that reaches 0 is due and restarted from the object's interval.
\<close>

fun heartbeatPass :: "heap \<Rightarrow> HeartbeatEntry list \<Rightarrow> HeartbeatEntry list \<times> ref list" where
  "heartbeatPass h [] = ([], [])"
| "heartbeatPass h (e # es) =
     (let (es', due) = heartbeatPass h es in
      case h (hbTarget e) of
        None \<Rightarrow> (es', due)
      | Some ob \<Rightarrow>
          let t = to_int32 (ticksRemaining e - 1) in
          if t < 1 then (e\<lparr>ticksRemaining := heartbeatInterval ob\<rparr> # es', hbTarget e # due)
          else (e\<lparr>ticksRemaining := t\<rparr> # es', due))"

section \<open>The world LPC code runs in\<close>

record world =
  wHeap :: heap
  wSched :: scheduler
  wLive :: live_registry
  wHooks :: "int \<Rightarrow> lvalue"

datatype origin = OriginDefault | OriginDriver | OriginInternal

datatype lpc_call =
    CallFunction ref string "lvalue list" origin "ref option option"
  | CallClosure closure_ref "lvalue list"

type_synonym lpc = "lpc_call \<Rightarrow> world \<Rightarrow> lvalue res \<times> world"

text \<open>
  The command giver of a heartbeat: the object at the end of the chain of shadows, if it accepts commands. The
  chain walk ends unless the chain is a cycle.
\<close>

partial_function (option) shadowRoot :: "heap \<Rightarrow> ref \<Rightarrow> ref option" where
  "shadowRoot h r =
     (case h r of None \<Rightarrow> Some r
      | Some ob \<Rightarrow> (case lock h (shadowing ob) of None \<Rightarrow> Some r | Some s \<Rightarrow> shadowRoot h s))"

definition commandGiver :: "heap \<Rightarrow> ref \<Rightarrow> ref option" where
  "commandGiver h r =
     (case h r of None \<Rightarrow> None | Some ob \<Rightarrow> if commandsEnabled ob then Some r else None)"

fun runHeartbeats :: "lpc \<Rightarrow> ref list \<Rightarrow> world \<Rightarrow> (lpc_call list \<times> world) option" where
  "runHeartbeats lpc [] w = Some ([], w)"
| "runHeartbeats lpc (r # rs) w =
     (case shadowRoot (wHeap w) r of
        None \<Rightarrow> None
      | Some g \<Rightarrow>
          let c = CallFunction r ''heart_beat'' [] OriginDefault (Some (commandGiver (wHeap w) g));
              w1 = snd (lpc c w)
          in case runHeartbeats lpc rs w1 of
               None \<Rightarrow> None
             | Some (tr, w2) \<Rightarrow> Some (c # tr, w2))"

definition tickHeartbeats :: "lpc \<Rightarrow> world \<Rightarrow> (lpc_call list \<times> world) option" where
  "tickHeartbeats lpc w =
     (let (hbs, due) = heartbeatPass (wHeap w) (heartbeats (wSched w))
      in runHeartbeats lpc due (w\<lparr>wSched := (wSched w)\<lparr>heartbeats := hbs\<rparr>\<rparr>))"

section \<open>Running delayed calls\<close>

text \<open>The call an entry stands for; a named entry whose target is gone is dropped.\<close>

definition callOf :: "heap \<Rightarrow> CallOutEntry \<Rightarrow> lpc_call option" where
  "callOf h e =
     (case coClosure e of
        Some c \<Rightarrow> Some (CallClosure c (coArgs e))
      | None \<Rightarrow> (case lock h (coTarget e) of
                  None \<Rightarrow> None
                | Some r \<Rightarrow> Some (CallFunction r (coFunction e) (coArgs e) OriginInternal None)))"

fun runCallOuts :: "lpc \<Rightarrow> CallOutEntry list \<Rightarrow> world \<Rightarrow> lpc_call list \<times> world" where
  "runCallOuts lpc [] w = ([], w)"
| "runCallOuts lpc (e # es) w =
     (case callOf (wHeap w) e of
        None \<Rightarrow> runCallOuts lpc es w
      | Some c \<Rightarrow> (let (tr, w') = runCallOuts lpc es (snd (lpc c w)) in (c # tr, w')))"

definition tickCallOuts :: "lpc \<Rightarrow> int \<Rightarrow> world \<Rightarrow> lpc_call list \<times> world" where
  "tickCallOuts lpc now w =
     (let due = filter (\<lambda>e. dueAt e \<le> now) (callOuts (wSched w));
          rest = filter (\<lambda>e. \<not> dueAt e \<le> now) (callOuts (wSched w))
      in runCallOuts lpc due (w\<lparr>wSched := (wSched w)\<lparr>callOuts := rest\<rparr>\<rparr>))"

section \<open>Resets and clean-up\<close>

definition hookFunctionName :: "world \<Rightarrow> int \<Rightarrow> string \<Rightarrow> string" where
  "hookFunctionName w hookNum fallback =
     (case vdata (wHooks w hookNum) of VStr name \<Rightarrow> name | _ \<Rightarrow> fallback)"

definition kHReset :: int where "kHReset = 7"
definition kHCleanUp :: int where "kHCleanUp = 8"
definition kTimeToReset :: int where "kTimeToReset = 1800"
definition kTimeToCleanUp :: int where "kTimeToCleanUp = 3600"

definition updW :: "ref \<Rightarrow> (lpc_object \<Rightarrow> lpc_object) \<Rightarrow> world \<Rightarrow> world" where
  "updW r f w = w\<lparr>wHeap := updObj r f (wHeap w)\<rparr>"

definition goneOrDestructed :: "world \<Rightarrow> ref \<Rightarrow> bool" where
  "goneOrDestructed w r = (case wHeap w r of None \<Rightarrow> True | Some ob \<Rightarrow> destructed ob)"

text \<open>
  The reset half for one object that is not destructed: it returns the calls made, the world and whether reset was
  called in this cycle. \<^verbatim>\<open>functionExists\<close> looks the hook up in the object's program.
\<close>

definition resetObject ::
  "lpc \<Rightarrow> (world \<Rightarrow> ref \<Rightarrow> string \<Rightarrow> bool) \<Rightarrow> int \<Rightarrow> nat \<Rightarrow> ref \<Rightarrow> lpc_object \<Rightarrow> world \<Rightarrow> lpc_call list \<times> world \<times> bool" where
  "resetObject lpc functionExists now rnd r ob w =
     (if \<not> now \<ge> timeReset ob then ([], w, False)
      else if resetState ob then ([], updW r (armReset now kTimeToReset rnd) w, False)
      else
        let w1 = updW r (armReset now kTimeToReset rnd) w;
            fn = hookFunctionName w1 kHReset ''reset'';
            c = CallFunction r fn [] OriginDriver None
        in if functionExists w1 r fn then
             (let w2 = snd (lpc c w1) in
              ([c], if goneOrDestructed w2 r then w2 else updW r (\<lambda>ob. ob\<lparr>resetState := True\<rparr>) w2, True))
           else ([], updW r (\<lambda>ob. (disableReset ob)\<lparr>resetState := True\<rparr>) w1, True))"

definition cleanUpObject :: "lpc \<Rightarrow> ref \<Rightarrow> lpc_object \<Rightarrow> world \<Rightarrow> lpc_call list \<times> world" where
  "cleanUpObject lpc r ob w =
     (let c = CallFunction r (hookFunctionName w kHCleanUp ''clean_up'')
                [mkValue (VInt (if isClone ob then 0 else 1))] OriginDriver None;
          (result, w1) = lpc c w;
          truthy = (case result of Inl _ \<Rightarrow> False | Inr v \<Rightarrow> isTruthy v)
      in ([c], if goneOrDestructed w1 r then w1
               else updW r (\<lambda>ob1. ob1\<lparr>willCleanUp := (if truthy then willCleanUp ob1 else False),
                                      resetState := resetState ob\<rparr>) w1))"

text \<open>
  One object of the pass: whether it is ready for clean-up is decided before its reset; under LDMud a
  reset in the same cycle suppresses it.
\<close>

definition resetAndCleanUp ::
  "lpc \<Rightarrow> (world \<Rightarrow> ref \<Rightarrow> string \<Rightarrow> bool) \<Rightarrow> bool \<Rightarrow> int \<Rightarrow> nat \<Rightarrow> ref \<Rightarrow> world \<Rightarrow> lpc_call list \<times> world" where
  "resetAndCleanUp lpc functionExists ldmud now rnd r w =
     (case wHeap w r of
        None \<Rightarrow> ([], w)
      | Some ob \<Rightarrow>
          if destructed ob then ([], w)
          else
            let ready = (willCleanUp ob \<and> now - timeOfRef ob > kTimeToCleanUp * nsPerSec);
                (tr, w1, resetCalled) = resetObject lpc functionExists now rnd r ob w
            in case wHeap w1 r of
                 None \<Rightarrow> (tr, w1)
               | Some ob1 \<Rightarrow>
                   if destructed ob1 \<or> \<not> ready \<or> (resetCalled \<and> ldmud) then (tr, w1)
                   else let (tr2, w2) = cleanUpObject lpc r ob1 w1 in (tr @ tr2, w2))"

fun resetPass ::
  "lpc \<Rightarrow> (world \<Rightarrow> ref \<Rightarrow> string \<Rightarrow> bool) \<Rightarrow> bool \<Rightarrow> int \<Rightarrow> (ref \<times> nat) list \<Rightarrow> world \<Rightarrow> lpc_call list \<times> world" where
  "resetPass lpc fe ldmud now [] w = ([], w)"
| "resetPass lpc fe ldmud now ((r, rnd) # rs) w =
     (let (tr, w1) = resetAndCleanUp lpc fe ldmud now rnd r w;
          (tr2, w2) = resetPass lpc fe ldmud now rs w1
      in (tr @ tr2, w2))"

text \<open>The pass visits the objects that are live when it starts; \<open>rnds\<close> are the random numbers drawn.\<close>

definition tickResetsAndCleanup ::
  "lpc \<Rightarrow> (world \<Rightarrow> ref \<Rightarrow> string \<Rightarrow> bool) \<Rightarrow> bool \<Rightarrow> int \<Rightarrow> (nat \<Rightarrow> nat) \<Rightarrow> world \<Rightarrow> lpc_call list \<times> world" where
  "tickResetsAndCleanup lpc fe ldmud now rnds w =
     (let objs = liveAll (wHeap w) (wLive w)
      in resetPass lpc fe ldmud now (zip objs (map rnds [0..<length objs])) w)"

section \<open>Lemmas: delayed calls\<close>

lemma removeCallOut_find: "fst (removeCallOut P now es) = findCallOut P now es"
  by (induction es) (auto split: prod.splits)

lemma removeCallOut_eraseFirst: "snd (removeCallOut P now es) = snd (eraseFirst P es)"
  by (induction es) (auto split: prod.splits)

lemma findCallOut_none: "\<forall>e\<in>set es. \<not> P e \<Longrightarrow> findCallOut P now es = -1"
  by (induction es) auto

lemma eraseFirst_set: "set (snd (eraseFirst P es)) \<subseteq> set es"
  by (induction es) (auto split: prod.splits)

lemma eraseFirst_subseq: "subseq (snd (eraseFirst P es)) es"
  by (induction es) (auto split: prod.splits)

text \<open>With distinct keys, erasing the first entry with a key leaves none.\<close>

lemma eraseFirst_distinct:
  "distinct (map f es) \<Longrightarrow> snd (eraseFirst (\<lambda>e. f e = k) es) = filter (\<lambda>e. f e \<noteq> k) es"
proof (induction es)
  case (Cons e es)
  show ?case
  proof (cases "f e = k")
    case True
    with Cons.prems have "\<forall>x\<in>set es. f x \<noteq> k" by (auto simp: image_iff)
    with True show ?thesis by (simp add: filter_id_conv)
  next
    case False
    with Cons show ?thesis by (simp add: case_prod_beta)
  qed
qed simp

section \<open>Lemmas: the invariant of the queues\<close>

text \<open>
  Pending handles are distinct, positive and below the next one; an object has at most one heartbeat.
\<close>

definition schedInv :: "scheduler \<Rightarrow> bool" where
  "schedInv s \<longleftrightarrow>
     distinct (map coHandle (callOuts s)) \<and>
     (\<forall>e\<in>set (callOuts s). 1 \<le> coHandle e \<and> coHandle e < nextHandle s) \<and>
     1 \<le> nextHandle s \<and> distinct (map hbTarget (heartbeats s))"

lemma schedInv_subseq:
  assumes "schedInv s" and "subseq es (callOuts s)"
  shows "schedInv (s\<lparr>callOuts := es\<rparr>)"
proof -
  have "set es \<subseteq> set (callOuts s)" using assms(2) by (rule subseq_set)
  moreover have "distinct (map coHandle es)"
    by (rule subseq_distinct_map[OF assms(2)]) (use assms(1) in \<open>simp add: schedInv_def\<close>)
  ultimately show ?thesis using assms(1) by (auto simp: schedInv_def)
qed

lemma map_hbTarget_setTicks [simp]: "map hbTarget (setTicks h r n es) = map hbTarget es"
  by (induction es) auto

text \<open>
  What LPC code and the driver can do to the scheduler between two points: the public operations, and
  anything that leaves the scheduler alone. A shared pointer handed to an operation points to a live object.
\<close>

inductive sched_step :: "world \<Rightarrow> world \<Rightarrow> bool" where
  step_add: "sched_step w (w\<lparr>wSched := snd (addCallOut e (wSched w))\<rparr>)"
| step_remove_name: "sched_step w (w\<lparr>wSched := snd (removeCallOutByName (wHeap w) now ob fn (wSched w))\<rparr>)"
| step_remove_handle: "sched_step w (w\<lparr>wSched := snd (removeCallOutByHandle now hdl (wSched w))\<rparr>)"
| step_remove_all: "sched_step w (w\<lparr>wSched := removeAllCallOutsForObject (wHeap w) ob (wSched w)\<rparr>)"
| step_heartbeat: "r \<in> dom (wHeap w) \<Longrightarrow> setHeartbeatInterval (Some r) to (wHeap w) (wSched w) = (h, s) \<Longrightarrow>
    sched_step w (w\<lparr>wHeap := h, wSched := s\<rparr>)"
| step_other: "wSched w' = wSched w \<Longrightarrow> sched_step w w'"

inductive_cases sched_stepE: "sched_step w w'"

lemma schedInv_add: "schedInv s \<Longrightarrow> schedInv (snd (addCallOut e s))"
  by (fastforce simp: schedInv_def addCallOut_def)

lemma schedInv_remove: "schedInv s \<Longrightarrow> schedInv (s\<lparr>callOuts := snd (removeCallOut P now (callOuts s))\<rparr>)"
  by (rule schedInv_subseq) (simp_all add: removeCallOut_eraseFirst eraseFirst_subseq)

lemma schedInv_heartbeats:
  "schedInv s \<Longrightarrow> distinct (map hbTarget hs) \<Longrightarrow> schedInv (s\<lparr>heartbeats := hs\<rparr>)"
  by (simp add: schedInv_def)

lemma setHeartbeatInterval_inv:
  assumes "schedInv s" and "r \<in> dom h"
  shows "schedInv (snd (setHeartbeatInterval (Some r) to h s)) \<and>
    nextHandle (snd (setHeartbeatInterval (Some r) to h s)) = nextHandle s"
proof -
  let ?is = "\<lambda>e. lock h (Some (hbTarget e)) = Some r"
  have d: "distinct (map hbTarget (heartbeats s))" using assms(1) by (simp add: schedInv_def)
  have "schedInv (s\<lparr>heartbeats := snd (eraseFirst ?is (heartbeats s))\<rparr>)"
    by (rule schedInv_heartbeats[OF assms(1)]) (rule subseq_distinct_map[OF eraseFirst_subseq d])
  moreover have "schedInv (s\<lparr>heartbeats := setTicks h r n (heartbeats s)\<rparr>)" for n
    by (rule schedInv_heartbeats[OF assms(1)]) (use d in simp)
  moreover have "schedInv (s\<lparr>heartbeats := heartbeats s @ [\<lparr>hbTarget = r, ticksRemaining = n\<rparr>]\<rparr>)"
    if "\<not> (\<exists>e\<in>set (heartbeats s). ?is e)" for n
    by (rule schedInv_heartbeats[OF assms(1)]) (use d that in \<open>auto simp: lock_eq_Some[OF assms(2)]\<close>)
  ultimately show ?thesis
    using assms(1) by (simp add: setHeartbeatInterval_def Let_def)
qed

lemma sched_step_inv:
  assumes "sched_step w w'" and "schedInv (wSched w)"
  shows "schedInv (wSched w') \<and> nextHandle (wSched w) \<le> nextHandle (wSched w')"
  using assms
proof (cases rule: sched_step.cases)
  case (step_add e)
  then show ?thesis using schedInv_add[OF assms(2)] by (simp add: addCallOut_def)
next
  case (step_remove_name now ob fn)
  then show ?thesis
    using assms(2) schedInv_remove[OF assms(2), of _ now]
    by (cases ob) (auto simp: removeCallOutByName_def case_prod_beta)
next
  case (step_remove_handle now hdl)
  then show ?thesis
    using schedInv_remove[OF assms(2), of _ now] by (auto simp: removeCallOutByHandle_def case_prod_beta)
next
  case (step_remove_all ob)
  then show ?thesis
    using schedInv_subseq[OF assms(2)] by (simp add: removeAllCallOutsForObject_def)
next
  case (step_heartbeat r to h s)
  then show ?thesis using setHeartbeatInterval_inv[OF assms(2), of r "wHeap w" to] by simp
next
  case step_other
  then show ?thesis using assms(2) by simp
qed

text \<open>LPC code that reaches the scheduler only through its operations.\<close>

definition lpcUsesScheduler :: "lpc \<Rightarrow> bool" where
  "lpcUsesScheduler lpc \<longleftrightarrow> (\<forall>c w. sched_step\<^sup>*\<^sup>* w (snd (lpc c w)))"

lemma sched_steps_inv:
  assumes "sched_step\<^sup>*\<^sup>* w w'" and "schedInv (wSched w)"
  shows "schedInv (wSched w') \<and> nextHandle (wSched w) \<le> nextHandle (wSched w')"
  using assms
proof (induction rule: rtranclp_induct)
  case (step y z)
  then show ?case using sched_step_inv[of y z] by auto
qed simp

text \<open>Any property that one LPC call keeps is kept by the three loops that make calls.\<close>

lemma runCallOuts_keeps:
  assumes "\<And>c w. P w \<Longrightarrow> P (snd (lpc c w))" and "P w"
  shows "P (snd (runCallOuts lpc es w))"
  using assms(2)
proof (induction es arbitrary: w)
  case (Cons e es)
  then show ?case using assms(1) by (auto simp: case_prod_beta split: option.splits)
qed simp

lemma runHeartbeats_keeps:
  assumes "\<And>c w. P w \<Longrightarrow> P (snd (lpc c w))" and "P w" and "runHeartbeats lpc rs w = Some (tr, w')"
  shows "P w'"
  using assms(2,3)
proof (induction rs arbitrary: w tr)
  case (Cons r rs)
  then show ?case using assms(1) by (auto simp: Let_def split: option.splits prod.splits)
qed simp

section \<open>Lemmas: heartbeat counters\<close>

lemma heartbeatPass_subseq: "subseq (map hbTarget (fst (heartbeatPass h es))) (map hbTarget es)"
  by (induction es) (auto simp: case_prod_beta Let_def split: option.splits)

lemma heartbeatPass_distinct:
  "distinct (map hbTarget es) \<Longrightarrow> distinct (map hbTarget (fst (heartbeatPass h es)))"
  using subseq_distinct_map[OF heartbeatPass_subseq, of "\<lambda>x. x"] by (simp add: comp_def)

text \<open>The counter of one object.\<close>

definition ticksOf :: "ref \<Rightarrow> HeartbeatEntry list \<Rightarrow> int option" where
  "ticksOf r es = map_option ticksRemaining (find (\<lambda>e. hbTarget e = r) es)"

lemma ticksOf_None: "ticksOf r es = None \<longleftrightarrow> r \<notin> hbTarget ` set es"
  by (auto simp: ticksOf_def find_None_iff)

lemma heartbeatPass_due: "r \<in> set (snd (heartbeatPass h es)) \<Longrightarrow> r \<in> hbTarget ` set es"
  by (induction es) (auto simp: case_prod_beta Let_def split: option.splits if_splits)

lemma heartbeatPass_ticks:
  assumes "h r = Some ob" and "ticksOf r es = Some t" and "distinct (map hbTarget es)"
  shows "ticksOf r (fst (heartbeatPass h es)) =
      Some (if to_int32 (t - 1) < 1 then heartbeatInterval ob else to_int32 (t - 1)) \<and>
    (r \<in> set (snd (heartbeatPass h es)) \<longleftrightarrow> to_int32 (t - 1) < 1)"
  using assms(2,3)
proof (induction es)
  case Nil
  then show ?case by (simp add: ticksOf_def)
next
  case (Cons e es)
  show ?case
  proof (cases "hbTarget e = r")
    case True
    with Cons.prems have "t = ticksRemaining e" and "r \<notin> set (snd (heartbeatPass h es))"
      using heartbeatPass_due[of r h es] by (auto simp: ticksOf_def)
    with True assms(1) show ?thesis by (auto simp: ticksOf_def case_prod_beta Let_def)
  next
    case False
    with Cons have "ticksOf r (fst (heartbeatPass h es)) =
        Some (if to_int32 (t - 1) < 1 then heartbeatInterval ob else to_int32 (t - 1)) \<and>
      (r \<in> set (snd (heartbeatPass h es)) \<longleftrightarrow> to_int32 (t - 1) < 1)"
      by (simp add: ticksOf_def)
    with False show ?thesis by (auto simp: ticksOf_def case_prod_beta Let_def split: option.splits)
  qed
qed

lemma last_tick_dvd:
  assumes "1 \<le> (n :: int)"
  shows "int k mod n = n - 1 \<longleftrightarrow> n dvd int (k + 1)"
proof -
  have s: "int (k + 1) mod n = (int k mod n + 1) mod n" by (simp add: mod_simps add.commute)
  have "int k mod n < n" "0 \<le> int k mod n" using assms by simp_all
  then show ?thesis
  proof (cases "int k mod n = n - 1")
    case False
    with \<open>int k mod n < n\<close> \<open>0 \<le> int k mod n\<close> have "(int k mod n + 1) mod n = int k mod n + 1"
      by (intro mod_pos_pos_trivial) linarith+
    with False \<open>0 \<le> int k mod n\<close> s show ?thesis unfolding dvd_eq_mod_eq_0 by linarith
  qed (simp add: dvd_eq_mod_eq_0 s[simplified])
qed

text \<open>The heartbeat list after \<open>k\<close> passes over an unchanged heap.\<close>

definition passes :: "heap \<Rightarrow> nat \<Rightarrow> HeartbeatEntry list \<Rightarrow> HeartbeatEntry list" where
  "passes h k es = ((\<lambda>es. fst (heartbeatPass h es)) ^^ k) es"

lemma passes_ticks:
  assumes "h r = Some ob" and "heartbeatInterval ob = n" and "1 \<le> n" and "n < 2 ^ 31"
    and "distinct (map hbTarget es)" and "ticksOf r es = Some n"
  shows "ticksOf r (passes h k es) = Some (n - int k mod n) \<and> distinct (map hbTarget (passes h k es))"
proof (induction k)
  case 0
  then show ?case using assms by (simp add: passes_def)
next
  case (Suc k)
  let ?t = "n - int k mod n"
  have m: "0 \<le> int k mod n" "int k mod n < n" using assms(3) by simp_all
  have t: "to_int32 (?t - 1) = ?t - 1"
    by (rule to_int32_id) (use m assms(3,4) in linarith)+
  have step: "(if ?t - 1 < 1 then n else ?t - 1) = n - int (Suc k) mod n"
  proof (cases "?t - 1 < 1")
    case True
    with m have e: "int k mod n = n - 1" by linarith
    have "int (Suc k) mod n = (int k mod n + 1) mod n" by (simp add: mod_simps add.commute)
    also have "\<dots> = 0" using e by simp
    finally show ?thesis using True by simp
  next
    case False
    have "int (Suc k) mod n = (int k mod n + 1) mod n" by (simp add: mod_simps add.commute)
    also have "\<dots> = int k mod n + 1" using m False by simp
    finally show ?thesis using False by simp
  qed
  have "passes h (Suc k) es = fst (heartbeatPass h (passes h k es))" by (simp add: passes_def)
  with heartbeatPass_ticks[of h r ob "passes h k es" ?t] heartbeatPass_distinct[of "passes h k es" h] Suc assms t
  show ?case unfolding step[symmetric] by simp
qed

lemma setTicks_ticksOf:
  assumes "r \<in> dom h" and "r \<in> hbTarget ` set es"
  shows "ticksOf r (setTicks h r n es) = Some n"
  using assms(2) by (induction es) (auto simp: ticksOf_def lock_eq_Some[OF assms(1)])

lemma setHeartbeatInterval_ticks:
  assumes "h r = Some ob" and "1 \<le> n" and "n < 2 ^ 31" and "setHeartbeatInterval (Some r) n h s = (h', s')"
  shows "ticksOf r (heartbeats s') = Some n \<and> h' r = Some (ob\<lparr>heartbeatInterval := n\<rparr>)"
proof -
  have d: "r \<in> dom h" using assms(1) by auto
  have i: "to_int32 n = n" by (rule to_int32_id) (use assms(2,3) in linarith)+
  show ?thesis
  proof (cases "\<exists>e\<in>set (heartbeats s). hbTarget e = r")
    case True
    then have "r \<in> hbTarget ` set (heartbeats s)" by auto
    from setTicks_ticksOf[OF d this, of n] True assms i d show ?thesis
      by (auto simp: setHeartbeatInterval_def Let_def lock_eq_Some setObjectInterval_def)
  next
    case False
    then have "find (\<lambda>e. hbTarget e = r) (heartbeats s) = None" by (auto simp: find_None_iff)
    with False assms i d show ?thesis
      by (auto simp: setHeartbeatInterval_def Let_def lock_eq_Some setObjectInterval_def ticksOf_def
          find_append_last)
  qed
qed

section \<open>Lemmas: which calls are made\<close>

lemma runCallOuts_trace:
  assumes "\<And>c w r. r \<in> T \<Longrightarrow> r \<in> dom (wHeap (snd (lpc c w))) \<longleftrightarrow> r \<in> dom (wHeap w)"
    and "\<And>e r. e \<in> set es \<Longrightarrow> coTarget e = Some r \<Longrightarrow> r \<in> T"
    and "\<And>r. r \<in> T \<Longrightarrow> r \<in> dom h \<longleftrightarrow> r \<in> dom (wHeap w)"
  shows "fst (runCallOuts lpc es w) = List.map_filter (callOf h) es"
  using assms(2,3)
proof (induction es arbitrary: w)
  case (Cons e es)
  have "lock (wHeap w) (coTarget e) = lock h (coTarget e)"
  proof (cases "coTarget e")
    case (Some r)
    with Cons.prems(1)[of e r] Cons.prems(2)[of r] show ?thesis by (auto simp: lock_def)
  qed simp
  then have "callOf (wHeap w) e = callOf h e" by (simp only: callOf_def)
  moreover have "fst (runCallOuts lpc es (snd (lpc c w))) = List.map_filter (callOf h) es" for c
    by (rule Cons.IH) (use Cons.prems assms(1) in auto)
  moreover have "fst (runCallOuts lpc es w) = List.map_filter (callOf h) es"
    by (rule Cons.IH) (use Cons.prems in auto)
  ultimately show ?case
    by (cases "callOf h e") (simp_all add: case_prod_beta List.map_filter_simps)
qed (simp add: List.map_filter_simps)

lemma findCallOut_append:
  "findCallOut P now (es @ fs) = (if \<exists>e\<in>set es. P e then findCallOut P now es else findCallOut P now fs)"
  by (induction es) auto

lemma findCallOut_filter_other:
  "(\<And>e. P e \<Longrightarrow> Q e) \<Longrightarrow> findCallOut P now (filter Q es) = findCallOut P now es"
  by (induction es) auto

lemma fresh_handle: "schedInv s \<Longrightarrow> \<forall>e\<in>set (callOuts s). coHandle e \<noteq> nextHandle s"
  by (auto simp: schedInv_def)

lemma resetPass_keeps:
  assumes "\<And>c w. P w \<Longrightarrow> P (snd (lpc c w))" and "\<And>r f w. P w \<Longrightarrow> P (updW r f w)" and "P w"
  shows "P (snd (resetPass lpc fe ld now rs w))"
  using assms(3)
proof (induction rs arbitrary: w)
  case (Cons x rs)
  obtain r rnd where x: "x = (r, rnd)" by fastforce
  have clean: "P (snd (cleanUpObject lpc r ob v))" if "P v" for ob v
    using assms(1,2) that by (simp add: cleanUpObject_def Let_def case_prod_beta)
  have reset: "P (fst (snd (resetObject lpc fe now rnd r ob w)))" for ob
    using assms(1,2) Cons.prems by (simp add: resetObject_def Let_def)
  have "P (snd (resetAndCleanUp lpc fe ld now rnd r w))"
    using Cons.prems clean reset
    by (simp add: resetAndCleanUp_def Let_def case_prod_beta split: option.splits)
  with Cons.IH x show ?case by (simp add: case_prod_beta)
qed simp

lemma wSched_updW [simp]: "wSched (updW r f w) = wSched w"
  by (simp add: updW_def)

section \<open>Properties\<close>

text \<open>
  C18. A tick runs exactly the delayed calls that are due, each once and in the order they were
  made (named calls whose target is gone are dropped), whatever the called LPC code does to the
  scheduler, as long as it does not free the targets. Calls that are not due stay, and if the
  called code leaves the scheduler alone a second tick at the same time runs nothing.
\<close>

theorem call_outs_fire_once:
  assumes "\<And>c w' r. r \<in> T \<Longrightarrow> r \<in> dom (wHeap (snd (lpc c w'))) \<longleftrightarrow> r \<in> dom (wHeap w')"
    and "\<And>e r. e \<in> set (callOuts (wSched w)) \<Longrightarrow> coTarget e = Some r \<Longrightarrow> r \<in> T"
  shows "fst (tickCallOuts lpc now w) =
      List.map_filter (callOf (wHeap w)) (filter (\<lambda>e. dueAt e \<le> now) (callOuts (wSched w))) \<and>
    ((\<forall>c w'. wSched (snd (lpc c w')) = wSched w') \<longrightarrow>
      callOuts (wSched (snd (tickCallOuts lpc now w))) = filter (\<lambda>e. now < dueAt e) (callOuts (wSched w)) \<and>
      fst (tickCallOuts lpc now (snd (tickCallOuts lpc now w))) = [])"
proof (intro conjI impI)
  let ?w = "w\<lparr>wSched := (wSched w)\<lparr>callOuts := filter (\<lambda>e. \<not> dueAt e \<le> now) (callOuts (wSched w))\<rparr>\<rparr>"
  let ?due = "filter (\<lambda>e. dueAt e \<le> now) (callOuts (wSched w))"
  show "fst (tickCallOuts lpc now w) = List.map_filter (callOf (wHeap w)) ?due"
    unfolding tickCallOuts_def Let_def
    by (rule runCallOuts_trace[where T = T]) (use assms in auto)
  assume same: "\<forall>c w'. wSched (snd (lpc c w')) = wSched w'"
  have "wSched (snd (runCallOuts lpc ?due ?w)) = wSched ?w"
    by (rule runCallOuts_keeps[where P = "\<lambda>x. wSched x = wSched ?w"]) (use same in simp_all)
  then show rest: "callOuts (wSched (snd (tickCallOuts lpc now w))) = filter (\<lambda>e. now < dueAt e) (callOuts (wSched w))"
    by (simp add: tickCallOuts_def not_le)
  show "fst (tickCallOuts lpc now (snd (tickCallOuts lpc now w))) = []"
    by (subst tickCallOuts_def) (simp add: rest Let_def not_le)
qed

theorem call_outs_fire_once_witness:
  "fst (tickCallOuts (\<lambda>c w. (Inr (mkValue VVoid), w)) 5
     \<lparr>wHeap = [1 \<mapsto> newLpcObject ''/a'' 0 0 True 0],
      wSched = snd (addCallOut \<lparr>coHandle = 0, coTarget = Some 1, coFunction = ''f'', coClosure = None, coArgs = [], dueAt = 5\<rparr>
                 (newScheduler 0)),
      wLive = [], wHooks = \<lambda>_. mkValue VVoid\<rparr>) = [CallFunction 1 ''f'' [] OriginInternal None]"
proof -
  let ?lpc = "\<lambda>(c :: lpc_call) (w :: world). (Inr (mkValue VVoid) :: lvalue res, w)"
  let ?e = "\<lparr>coHandle = 0, coTarget = Some 1, coFunction = ''f'', coClosure = None, coArgs = [], dueAt = 5\<rparr>"
  let ?w = "\<lparr>wHeap = [1 \<mapsto> newLpcObject ''/a'' 0 0 True 0], wSched = snd (addCallOut ?e (newScheduler 0)),
      wLive = [], wHooks = \<lambda>_. mkValue VVoid\<rparr>"
  have "fst (tickCallOuts ?lpc 5 ?w) =
      List.map_filter (callOf (wHeap ?w)) (filter (\<lambda>e. dueAt e \<le> 5) (callOuts (wSched ?w)))"
    using call_outs_fire_once[of UNIV ?lpc ?w 5] by simp
  then show ?thesis by (simp add: addCallOut_def newScheduler_def callOf_def List.map_filter_simps lock_def)
qed

text \<open>
  Handles: adding a delayed call returns a handle that no pending call has; finding it gives the whole seconds
  left, removing it gives the same answer and puts the queue back as it was, a second removal and a search afterwards
  answer -1, and no other pending handle is affected.
\<close>

theorem call_out_handle_laws:
  assumes "schedInv s" and "addCallOut e s = (hdl, s')"
  shows "hdl \<notin> coHandle ` set (callOuts s) \<and>
    findCallOutByHandle now hdl s' = remainingSeconds now (dueAt e) \<and>
    (\<exists>s''. removeCallOutByHandle now hdl s' = (remainingSeconds now (dueAt e), s'') \<and>
       callOuts s'' = callOuts s \<and> findCallOutByHandle now hdl s'' = -1 \<and>
       removeCallOutByHandle now hdl s'' = (-1, s'')) \<and>
    (\<forall>k. k \<noteq> hdl \<longrightarrow> findCallOutByHandle now k s' = findCallOutByHandle now k s)"
proof -
  let ?e = "e\<lparr>coHandle := hdl\<rparr>"
  have hdl: "hdl = nextHandle s" and s': "callOuts s' = callOuts s @ [?e]"
    using assms(2) by (auto simp: addCallOut_def)
  have fresh: "\<forall>x\<in>set (callOuts s). coHandle x \<noteq> hdl" using fresh_handle[OF assms(1)] hdl by simp
  have find: "findCallOutByHandle now hdl s' = remainingSeconds now (dueAt e)"
    using fresh by (auto simp: findCallOutByHandle_def s' findCallOut_append)
  have other: "findCallOutByHandle now k s' = findCallOutByHandle now k s" if "k \<noteq> hdl" for k
    using that by (auto simp: findCallOutByHandle_def s' findCallOut_append findCallOut_none)
  have remove: "removeCallOutByHandle now hdl s' = (remainingSeconds now (dueAt e), s'\<lparr>callOuts := callOuts s\<rparr>)"
    using find eraseFirst_split[of "callOuts s" "\<lambda>x. coHandle x = hdl" ?e "[]"] fresh
    by (simp add: removeCallOutByHandle_def case_prod_beta removeCallOut_find removeCallOut_eraseFirst
        findCallOutByHandle_def s')
  have gone: "removeCallOutByHandle now hdl (s'\<lparr>callOuts := callOuts s\<rparr>) = (-1, s'\<lparr>callOuts := callOuts s\<rparr>)"
    using eraseFirst_none[of "callOuts s" "\<lambda>x. coHandle x = hdl"] fresh
    by (simp add: removeCallOutByHandle_def case_prod_beta removeCallOut_find removeCallOut_eraseFirst findCallOut_none)
  have none: "findCallOutByHandle now hdl (s'\<lparr>callOuts := callOuts s\<rparr>) = -1"
    using fresh by (simp add: findCallOutByHandle_def findCallOut_none)
  show ?thesis using fresh find other remove gone none by auto
qed

theorem call_out_handle_laws_witness:
  "findCallOutByHandle 0 1 (snd (addCallOut
     \<lparr>coHandle = 0, coTarget = None, coFunction = ''f'', coClosure = None, coArgs = [], dueAt = 3500000000\<rparr> (newScheduler 0))) = 3"
proof -
  let ?e = "\<lparr>coHandle = 0, coTarget = None, coFunction = ''f'', coClosure = None, coArgs = [], dueAt = 3500000000\<rparr>"
  have "schedInv (newScheduler 0)" by (simp add: schedInv_def newScheduler_def)
  from call_out_handle_laws[OF this, of ?e 1 "snd (addCallOut ?e (newScheduler 0))" 0] show ?thesis
    by (simp add: addCallOut_def newScheduler_def remainingSeconds_def nsPerSec_def)
qed

text \<open>
  C19. The queues stay well formed under every tick, whatever LPC code the tick runs, as long as that code
  reaches the scheduler through its operations: pending handles stay distinct and below the next
  one, which never goes down (so a handle is never given out twice), and an object never has two heartbeats.
\<close>

theorem scheduler_invariant:
  assumes "lpcUsesScheduler lpc" and "schedInv (wSched w)"
  shows "schedInv (wSched (snd (tickCallOuts lpc now w))) \<and>
    nextHandle (wSched w) \<le> nextHandle (wSched (snd (tickCallOuts lpc now w))) \<and>
    (\<forall>tr w'. tickHeartbeats lpc w = Some (tr, w') \<longrightarrow>
       schedInv (wSched w') \<and> nextHandle (wSched w) \<le> nextHandle (wSched w')) \<and>
    schedInv (wSched (snd (tickResetsAndCleanup lpc fe ld now rnds w))) \<and>
    nextHandle (wSched w) \<le> nextHandle (wSched (snd (tickResetsAndCleanup lpc fe ld now rnds w)))"
proof -
  let ?P = "\<lambda>x. schedInv (wSched x) \<and> nextHandle (wSched w) \<le> nextHandle (wSched x)"
  have call: "?P (snd (lpc c x))" if "?P x" for c x
    using sched_steps_inv[of x "snd (lpc c x)"] that assms(1) by (force simp: lpcUsesScheduler_def)
  have "?P (snd (tickCallOuts lpc now w))"
    unfolding tickCallOuts_def Let_def
    by (rule runCallOuts_keeps[where P = ?P, OF call])
      (use schedInv_subseq[OF assms(2), of "filter (\<lambda>e. \<not> dueAt e \<le> now) (callOuts (wSched w))"] in simp_all)
  moreover have "?P w'" if "tickHeartbeats lpc w = Some (tr, w')" for tr w'
  proof -
    let ?w = "w\<lparr>wSched := (wSched w)\<lparr>heartbeats := fst (heartbeatPass (wHeap w) (heartbeats (wSched w)))\<rparr>\<rparr>"
    have "schedInv (wSched ?w)"
      using assms(2) heartbeatPass_distinct[of "heartbeats (wSched w)" "wHeap w"] by (simp add: schedInv_def)
    then have "?P ?w" by simp
    moreover have "runHeartbeats lpc (snd (heartbeatPass (wHeap w) (heartbeats (wSched w)))) ?w = Some (tr, w')"
      using that by (simp add: tickHeartbeats_def case_prod_beta)
    ultimately show ?thesis by (rule runHeartbeats_keeps[where P = ?P, rotated 1]) (rule call)
  qed
  moreover have "?P (snd (tickResetsAndCleanup lpc fe ld now rnds w))"
    unfolding tickResetsAndCleanup_def Let_def
    by (rule resetPass_keeps[where P = ?P, OF call]) (use assms(2) in simp_all)
  ultimately show ?thesis by metis
qed

theorem scheduler_invariant_witness:
  "schedInv (wSched (snd (tickCallOuts (\<lambda>c w. (Inr (mkValue VVoid), w)) 5
     \<lparr>wHeap = Map.empty, wSched = newScheduler 0, wLive = [], wHooks = \<lambda>_. mkValue VVoid\<rparr>)))"
  using scheduler_invariant[of "\<lambda>c w. (Inr (mkValue VVoid), w)"
      "\<lparr>wHeap = Map.empty, wSched = newScheduler 0, wLive = [], wHooks = \<lambda>_. mkValue VVoid\<rparr>" 5]
  by (simp add: lpcUsesScheduler_def schedInv_def newScheduler_def)

text \<open>
  The period of a heartbeat: once an interval of \<open>n\<close> ticks is set on a live object
  (1 up to \<^verbatim>\<open>2^31 - 1\<close>), its heart_beat is due exactly on every \<open>n\<close>-th tick after that, for as long as
  neither the object nor the interval changes; setting 0 stops it.
\<close>

theorem heartbeat_period:
  assumes "schedInv s" and "h r = Some ob" and "1 \<le> n" and "n < 2 ^ 31"
    and "setHeartbeatInterval (Some r) n h s = (h', s')"
  shows "(\<forall>k. r \<in> set (snd (heartbeatPass h' (passes h' k (heartbeats s')))) \<longleftrightarrow> n dvd int (k + 1)) \<and>
    (\<forall>h'' s''. setHeartbeatInterval (Some r) 0 h' s' = (h'', s'') \<longrightarrow> r \<notin> hbTarget ` set (heartbeats s''))"
proof (intro conjI allI impI)
  fix k
  let ?t = "n - int k mod n"
  have d: "distinct (map hbTarget (heartbeats s'))"
    using setHeartbeatInterval_inv[OF assms(1), of r h n] assms(2,5) by (simp add: schedInv_def domIff)
  have set: "ticksOf r (heartbeats s') = Some n" "h' r = Some (ob\<lparr>heartbeatInterval := n\<rparr>)"
    using setHeartbeatInterval_ticks[OF assms(2-5)] by auto
  have m: "0 \<le> int k mod n" "int k mod n < n" using assms(3) by simp_all
  have t: "to_int32 (?t - 1) = ?t - 1" by (rule to_int32_id) (use m assms(3,4) in linarith)+
  from passes_ticks[of h' r "ob\<lparr>heartbeatInterval := n\<rparr>" n "heartbeats s'" k] set d assms(3,4)
  have "ticksOf r (passes h' k (heartbeats s')) = Some ?t" "distinct (map hbTarget (passes h' k (heartbeats s')))"
    by simp_all
  with heartbeatPass_ticks[of h' r "ob\<lparr>heartbeatInterval := n\<rparr>" "passes h' k (heartbeats s')" ?t] set(2) t
  have "r \<in> set (snd (heartbeatPass h' (passes h' k (heartbeats s')))) \<longleftrightarrow> int k mod n = n - 1"
    using m by auto
  also have "\<dots> \<longleftrightarrow> n dvd int (k + 1)" by (rule last_tick_dvd[OF assms(3)])
  finally show "r \<in> set (snd (heartbeatPass h' (passes h' k (heartbeats s')))) \<longleftrightarrow> n dvd int (k + 1)" .
next
  fix h'' s''
  assume "setHeartbeatInterval (Some r) 0 h' s' = (h'', s'')"
  moreover have "r \<in> dom h'" using setHeartbeatInterval_ticks[OF assms(2-5)] by auto
  moreover have "distinct (map hbTarget (heartbeats s'))"
    using setHeartbeatInterval_inv[OF assms(1), of r h n] assms(2,5) by (simp add: schedInv_def domIff)
  ultimately show "r \<notin> hbTarget ` set (heartbeats s'')"
    by (auto simp: setHeartbeatInterval_def lock_eq_Some eraseFirst_distinct)
qed

theorem heartbeat_period_witness:
  "\<forall>k. 1 \<in> set (snd (heartbeatPass
        (fst (setHeartbeatInterval (Some 1) 3 [1 \<mapsto> newLpcObject ''/a'' 0 0 True 0] (newScheduler 0)))
        (passes (fst (setHeartbeatInterval (Some 1) 3 [1 \<mapsto> newLpcObject ''/a'' 0 0 True 0] (newScheduler 0))) k
           (heartbeats (snd (setHeartbeatInterval (Some 1) 3 [1 \<mapsto> newLpcObject ''/a'' 0 0 True 0] (newScheduler 0))))))) \<longleftrightarrow>
     3 dvd int (k + 1)"
  using heartbeat_period[of "newScheduler 0" "[1 \<mapsto> newLpcObject ''/a'' 0 0 True 0]" 1 "newLpcObject ''/a'' 0 0 True 0" 3
      "fst (setHeartbeatInterval (Some 1) 3 [1 \<mapsto> newLpcObject ''/a'' 0 0 True 0] (newScheduler 0))"
      "snd (setHeartbeatInterval (Some 1) 3 [1 \<mapsto> newLpcObject ''/a'' 0 0 True 0] (newScheduler 0))"]
  by (simp add: schedInv_def newScheduler_def)

text \<open>
  C20. Intervals are cut to 32 bits: an interval whose low 32 bits are 0, such as \<^verbatim>\<open>2^32\<close>,
  switches the heartbeat flag of the object off while its entry stays in the list, and
  heart_beat is due on every tick from then on.
\<close>

theorem heartbeat_interval_truncation:
  assumes "schedInv s" and "h r = Some ob" and "0 < n" and "n mod 2 ^ 32 = 0"
    and "setHeartbeatInterval (Some r) n h s = (h', s')"
  shows "(\<exists>ob'. h' r = Some ob' \<and> \<not> hasHeartbeat ob') \<and>
    (\<forall>k. r \<in> set (snd (heartbeatPass h' (passes h' k (heartbeats s')))))"
proof -
  have z: "to_int32 n = 0"
  proof -
    have "n mod 4294967296 = 0" using assms(4) by simp
    then have "(n + 2147483648) mod 4294967296 = 2147483648"
      using mod_add_left_eq[of n 4294967296 2147483648] by simp
    then show ?thesis by (simp add: to_int32_def int_word_sint)
  qed
  have dom: "r \<in> dom h" using assms(2) by auto
  have h': "h' r = Some (ob\<lparr>heartbeatInterval := 0\<rparr>)"
    using assms z dom by (auto simp: setHeartbeatInterval_def Let_def setObjectInterval_def split: if_splits)
  have t0: "ticksOf r (heartbeats s') = Some 0"
  proof (cases "r \<in> hbTarget ` set (heartbeats s)")
    case True
    with setTicks_ticksOf[OF dom True, of 0] assms z dom show ?thesis
      by (auto simp: setHeartbeatInterval_def Let_def lock_eq_Some split: if_splits)
  next
    case False
    then have "find (\<lambda>e. hbTarget e = r) (heartbeats s) = None" by (auto simp: find_None_iff)
    with False assms z dom show ?thesis
      by (auto simp: setHeartbeatInterval_def Let_def lock_eq_Some ticksOf_def find_append_last split: if_splits)
  qed
  have d: "distinct (map hbTarget (heartbeats s'))"
    using setHeartbeatInterval_inv[OF assms(1), of r h n] assms(2,5) by (simp add: schedInv_def domIff)
  have m1: "to_int32 (- 1) = - 1" by (simp add: to_int32_id)
  have "ticksOf r (passes h' k (heartbeats s')) = Some 0 \<and> distinct (map hbTarget (passes h' k (heartbeats s')))" for k
  proof (induction k)
    case 0
    then show ?case using t0 d by (simp add: passes_def)
  next
    case (Suc k)
    have "passes h' (Suc k) (heartbeats s') = fst (heartbeatPass h' (passes h' k (heartbeats s')))"
      by (simp add: passes_def)
    with heartbeatPass_ticks[of h' r "ob\<lparr>heartbeatInterval := 0\<rparr>" "passes h' k (heartbeats s')" 0] h'
      heartbeatPass_distinct Suc m1
    show ?case by simp
  qed
  with heartbeatPass_ticks[of h' r "ob\<lparr>heartbeatInterval := 0\<rparr>" "passes h' k (heartbeats s')" 0 for k] m1 h'
  show ?thesis by (simp add: hasHeartbeat_def)
qed

theorem heartbeat_interval_truncation_witness:
  "1 \<in> set (snd (heartbeatPass
        (fst (setHeartbeatInterval (Some 1) 4294967296 [1 \<mapsto> newLpcObject ''/a'' 0 0 True 0] (newScheduler 0)))
        (passes (fst (setHeartbeatInterval (Some 1) 4294967296 [1 \<mapsto> newLpcObject ''/a'' 0 0 True 0] (newScheduler 0))) 9
           (heartbeats (snd (setHeartbeatInterval (Some 1) 4294967296 [1 \<mapsto> newLpcObject ''/a'' 0 0 True 0] (newScheduler 0)))))))"
  using heartbeat_interval_truncation[of "newScheduler 0" "[1 \<mapsto> newLpcObject ''/a'' 0 0 True 0]" 1 "newLpcObject ''/a'' 0 0 True 0" 4294967296
      "fst (setHeartbeatInterval (Some 1) 4294967296 [1 \<mapsto> newLpcObject ''/a'' 0 0 True 0] (newScheduler 0))"
      "snd (setHeartbeatInterval (Some 1) 4294967296 [1 \<mapsto> newLpcObject ''/a'' 0 0 True 0] (newScheduler 0))"]
  by (simp add: schedInv_def newScheduler_def)

text \<open>
  Purging the delayed calls of an object, as destruct does: afterwards no pending call is owned by
  it, by a destructed or by a vanished object, and every call of another living object is
  still there, in its place in the order.
\<close>

theorem purge_call_outs:
  assumes "r \<in> dom h"
  shows "(\<forall>e\<in>set (callOuts (removeAllCallOutsForObject h (Some r) s)).
      \<exists>q ob. callOutOwner h e = Some q \<and> q \<noteq> r \<and> h q = Some ob \<and> \<not> destructed ob) \<and>
    subseq (callOuts (removeAllCallOutsForObject h (Some r) s)) (callOuts s) \<and>
    (\<forall>e q ob. e \<in> set (callOuts s) \<and> callOutOwner h e = Some q \<and> q \<noteq> r \<and> h q = Some ob \<and> \<not> destructed ob \<longrightarrow>
       e \<in> set (callOuts (removeAllCallOutsForObject h (Some r) s)))"
  by (auto simp: removeAllCallOutsForObject_def ownerGone_def split: option.splits)

theorem purge_call_outs_witness:
  "callOuts (removeAllCallOutsForObject [1 \<mapsto> newLpcObject ''/a'' 0 0 True 0] (Some 1)
     (snd (addCallOut \<lparr>coHandle = 0, coTarget = Some 1, coFunction = ''f'', coClosure = None, coArgs = [], dueAt = 5\<rparr>
        (newScheduler 0)))) = []"
  using purge_call_outs[of 1 "[1 \<mapsto> newLpcObject ''/a'' 0 0 True 0]"
      "snd (addCallOut \<lparr>coHandle = 0, coTarget = Some 1, coFunction = ''f'', coClosure = None, coArgs = [], dueAt = 5\<rparr>
        (newScheduler 0))"]
  by (auto simp: addCallOut_def newScheduler_def removeAllCallOutsForObject_def callOutOwner_def lock_def)

text \<open>
  The reset of one object that is not ready for clean-up: before its time nothing
  happens; an object untouched since its last reset is re-armed without a call; otherwise the reset hook is
  called once if the object has it, in a world where the object is already re-armed (15 to 30
  minutes ahead), and an object without the hook is never reset again.
\<close>

theorem reset_schedule:
  fixes now :: int and rnd :: nat
  assumes "wHeap w r = Some ob" and "\<not> destructed ob" and "\<not> willCleanUp ob"
  defines "w1 \<equiv> updW r (armReset now kTimeToReset rnd) w"
    and "fn \<equiv> hookFunctionName w kHReset ''reset''"
  shows "(now < timeReset ob \<longrightarrow> resetAndCleanUp lpc fe ld now rnd r w = ([], w)) \<and>
    (timeReset ob \<le> now \<and> resetState ob \<longrightarrow> resetAndCleanUp lpc fe ld now rnd r w = ([], w1)) \<and>
    (timeReset ob \<le> now \<and> \<not> resetState ob \<and> fe w1 r fn \<longrightarrow>
       fst (resetAndCleanUp lpc fe ld now rnd r w) = [CallFunction r fn [] OriginDriver None]) \<and>
    (timeReset ob \<le> now \<and> \<not> resetState ob \<and> \<not> fe w1 r fn \<longrightarrow>
       fst (resetAndCleanUp lpc fe ld now rnd r w) = [] \<and>
       (\<exists>ob'. wHeap (snd (resetAndCleanUp lpc fe ld now rnd r w)) r = Some ob' \<and> timeReset ob' = timePointMax)) \<and>
    (\<exists>ob1. wHeap w1 r = Some ob1 \<and> resetState ob1 \<and>
       now + 900 * nsPerSec \<le> timeReset ob1 \<and> timeReset ob1 < now + 1800 * nsPerSec)"
proof -
  have hook: "hookFunctionName w1 kHReset ''reset'' = fn"
    by (simp add: w1_def fn_def hookFunctionName_def updW_def)
  have w1: "wHeap w1 r = Some (armReset now kTimeToReset rnd ob)"
    using assms(1) by (simp add: w1_def updW_def)
  have win: "now + 900 * nsPerSec \<le> timeReset (armReset now kTimeToReset rnd ob)"
    "timeReset (armReset now kTimeToReset rnd ob) < now + 1800 * nsPerSec"
    using armReset_window[of kTimeToReset now rnd ob] by (simp_all add: kTimeToReset_def)
  have "resetAndCleanUp lpc fe ld now rnd r w =
      (fst (resetObject lpc fe now rnd r ob w), fst (snd (resetObject lpc fe now rnd r ob w)))"
    using assms(1-3) by (simp add: resetAndCleanUp_def Let_def case_prod_beta split: option.splits)
  moreover have "timeReset ob \<le> now \<Longrightarrow> \<not> resetState ob \<Longrightarrow> \<not> fe w1 r fn \<Longrightarrow>
      wHeap (fst (snd (resetObject lpc fe now rnd r ob w))) r =
      Some ((disableReset (armReset now kTimeToReset rnd ob))\<lparr>resetState := True\<rparr>)"
    using w1 by (simp add: resetObject_def Let_def w1_def[symmetric] hook) (simp add: updW_def)
  moreover have "resetState (armReset now kTimeToReset rnd ob)" by (simp add: armReset_def Let_def)
  ultimately show ?thesis
    using w1 win hook
    by (simp add: disableReset_def) (auto simp: resetObject_def Let_def w1_def[symmetric])
qed

theorem reset_schedule_witness:
  "fst (resetAndCleanUp (\<lambda>c w. (Inr (mkValue VVoid), w)) (\<lambda>w r f. True) False 7 0 1
     \<lparr>wHeap = [1 \<mapsto> newLpcObject ''/a'' 0 0 True 0], wSched = newScheduler 0, wLive = [1],
      wHooks = \<lambda>_. mkValue VVoid\<rparr>) = [CallFunction 1 ''reset'' [] OriginDriver None]"
  using reset_schedule[of "\<lparr>wHeap = [1 \<mapsto> newLpcObject ''/a'' 0 0 True 0], wSched = newScheduler 0, wLive = [1],
      wHooks = \<lambda>_. mkValue VVoid\<rparr>" 1 "newLpcObject ''/a'' 0 0 True 0" 7 "\<lambda>c w. (Inr (mkValue VVoid), w)"
      "\<lambda>w r f. True" False 0]
  by (simp add: newLpcObject_def hookFunctionName_def)

end
