(* ===== verification/Sockets.thy ===== *)
theory Sockets
  imports Registries
begin

text \<open>
  LPC sockets: \<^verbatim>\<open>include/kjdmud/net/LpcSocket.hpp\<close> and \<^verbatim>\<open>src/net/SocketRegistry.cpp\<close>. The
  answers of the operating system are arguments of the operations (a success or an errno), and
  \<^verbatim>\<open>inet_addr\<close> is a parameter. \<^verbatim>\<open>openFds\<close> records the descriptors the registry has opened and not closed:
  erasing a socket closes its descriptor (\<^verbatim>\<open>~LpcSocket\<close>). Handles are counted in 32 bits, as in the code, so their counter can overflow.
\<close>

section \<open>State\<close>

datatype SocketMode = Stream | Datagram | Mud

datatype SocketState = Unbound | Bound | Listen | DataXfer | Closed

record lpc_socket =
  sockHandle :: int
  sockFd :: int
  sockMode :: SocketMode
  sockState :: SocketState
  sockOwner :: "ref option"
  readCallback :: lvalue
  writeCallback :: lvalue
  closeCallback :: lvalue
  released :: bool
  releaseTarget :: "ref option"
  blocked :: bool
  pendingWrite :: string
  acceptPending :: bool
  remoteAddr :: string
  remotePort :: int
  localAddr :: string
  sockLocalPort :: int
  sockSent :: string

definition newLpcSocket :: "int \<Rightarrow> int \<Rightarrow> SocketMode \<Rightarrow> ref option \<Rightarrow> lpc_socket" where
  "newLpcSocket handle f mode owner =
    \<lparr>sockHandle = handle, sockFd = f, sockMode = mode, sockState = Unbound, sockOwner = owner,
     readCallback = mkValue VVoid, writeCallback = mkValue VVoid, closeCallback = mkValue VVoid,
     released = False, releaseTarget = None, blocked = False, pendingWrite = '''', acceptPending = False,
     remoteAddr = '''', remotePort = 0, localAddr = '''', sockLocalPort = 0, sockSent = ''''\<rparr>"

record socket_registry =
  sockets :: "int \<rightharpoonup> lpc_socket"
  nextSock :: int
  openFds :: "int set"

definition emptyRegistry :: socket_registry where
  "emptyRegistry = \<lparr>sockets = Map.empty, nextSock = 0, openFds = {}\<rparr>"

section \<open>Error codes\<close>

abbreviation "SockSuccess \<equiv> (1 :: int)"
abbreviation "ESocket \<equiv> (-1 :: int)"
abbreviation "ESetSockOpt \<equiv> (-2 :: int)"
abbreviation "ENonBlock \<equiv> (-3 :: int)"
abbreviation "EFdRange \<equiv> (-5 :: int)"
abbreviation "EBadF \<equiv> (-6 :: int)"
abbreviation "ESecurity \<equiv> (-7 :: int)"
abbreviation "EIsBound \<equiv> (-8 :: int)"
abbreviation "EAddrInUse \<equiv> (-9 :: int)"
abbreviation "EBind \<equiv> (-10 :: int)"
abbreviation "EModeNotSupp \<equiv> (-12 :: int)"
abbreviation "ENoAddr \<equiv> (-13 :: int)"
abbreviation "EIsConn \<equiv> (-14 :: int)"
abbreviation "EListen \<equiv> (-15 :: int)"
abbreviation "ENotListn \<equiv> (-16 :: int)"
abbreviation "EWouldBlock \<equiv> (-17 :: int)"
abbreviation "EIntr \<equiv> (-18 :: int)"
abbreviation "EAccept \<equiv> (-19 :: int)"
abbreviation "EIsListen \<equiv> (-20 :: int)"
abbreviation "EBadAddr \<equiv> (-21 :: int)"
abbreviation "EAlready \<equiv> (-22 :: int)"
abbreviation "EConnRefused \<equiv> (-23 :: int)"
abbreviation "EConnect \<equiv> (-24 :: int)"
abbreviation "ENotConn \<equiv> (-25 :: int)"
abbreviation "ETypeNotSupp \<equiv> (-26 :: int)"
abbreviation "ESendTo \<equiv> (-27 :: int)"
abbreviation "ESend \<equiv> (-28 :: int)"
abbreviation "ECallback \<equiv> (-29 :: int)"
abbreviation "ESockRlsd \<equiv> (-30 :: int)"
abbreviation "ESockNotRlsd \<equiv> (-31 :: int)"

definition kErrorStrings :: "string list" where
  "kErrorStrings =
    [''Problem creating socket'', ''Problem with setsockopt'', ''Problem setting non-blocking mode'',
     ''No more available efun sockets'', ''Descriptor out of range'', ''Socket is closed'',
     ''Security violation attempted'', ''Socket is already bound'', ''Address already in use'',
     ''Problem with bind'', ''Problem with getsockname'', ''Socket mode not supported'',
     ''Socket not bound to an address'', ''Socket is already connected'', ''Problem with listen'',
     ''Socket not listening'', ''Operation would block'', ''Interrupted system call'',
     ''Problem with accept'', ''Socket is listening'', ''Problem with address format'',
     ''Operation already in progress'', ''Connection refused'', ''Problem with connect'',
     ''Socket not connected'', ''Object type not supported'', ''Problem with sendto'',
     ''Problem with send'', ''Wait for callback'', ''Socket already released'',
     ''Socket not released'', ''Data nested too deeply'']"

definition errorString :: "int \<Rightarrow> string" where
  "errorString error =
     (let index = - (error + 1) in
      if index < 0 \<or> index \<ge> int (length kErrorStrings) then ''socket_error: invalid error number''
      else kErrorStrings ! nat index)"

section \<open>Addresses\<close>

text \<open>\<^verbatim>\<open>std::atoi\<close> within the range of \<^verbatim>\<open>int\<close>: 0 when there is no number.\<close>

definition atoi :: "string \<Rightarrow> int" where
  "atoi s = (case stoll s of Inr v \<Rightarrow> v | Inl _ \<Rightarrow> 0)"

definition parseHostPort :: "string \<Rightarrow> (string \<times> int) option" where
  "parseHostPort name =
     (case find_idx (\<lambda>c. c = CHR '' '') name of
        None \<Rightarrow> None
      | Some sp \<Rightarrow> (let portStr = drop (sp + 1) name in
                    if portStr = '''' then None else Some (take sp name, atoi portStr)))"

text \<open>\<^verbatim>\<open>inet_addr\<close> is a parameter; \<^const>\<open>None\<close> stands for \<^verbatim>\<open>INADDR_NONE\<close>.\<close>

type_synonym inet_addr = "string \<Rightarrow> nat option"

definition buildSockaddr :: "inet_addr \<Rightarrow> string \<Rightarrow> bool" where
  "buildSockaddr inet host \<longleftrightarrow> \<not> (inet host = None \<and> host \<noteq> ''255.255.255.255'')"

section \<open>Operations\<close>

definition putSock :: "int \<Rightarrow> lpc_socket \<Rightarrow> socket_registry \<Rightarrow> socket_registry" where
  "putSock handle s reg = reg\<lparr>sockets := (sockets reg)(handle \<mapsto> s)\<rparr>"

text \<open>Erasing a socket destroys it, which closes its descriptor.\<close>

definition forceRemove :: "int \<Rightarrow> socket_registry \<Rightarrow> socket_registry" where
  "forceRemove handle reg =
     (case sockets reg handle of None \<Rightarrow> reg
      | Some s \<Rightarrow> reg\<lparr>sockets := (sockets reg)(handle := None), openFds := openFds reg - {sockFd s}\<rparr>)"

text \<open>
  The port number of \<^verbatim>\<open>socket_bind\<close> only goes to the operating system and is not an argument here.
\<close>

text \<open>The checks every operation on a handle starts with: the handle exists, is not closed, and belongs to the caller.\<close>

definition guarded ::
  "heap \<Rightarrow> int \<Rightarrow> ref option \<Rightarrow> socket_registry \<Rightarrow> (lpc_socket \<Rightarrow> int \<times> socket_registry) \<Rightarrow> int \<times> socket_registry" where
  "guarded h handle caller reg k =
     (case sockets reg handle of
        None \<Rightarrow> (EFdRange, reg)
      | Some s \<Rightarrow> if sockState s = Closed then (EBadF, reg)
                  else if lock h (sockOwner s) \<noteq> caller then (ESecurity, reg)
                  else k s)"

datatype serrno =
    SeAgain | SeWouldBlock | SeIntr | SeAddrInUse | SeAlready | SeConnRefused | SeInProgress
  | SePerm | SeNetUnreach | SeHostUnreach | SeOther

text \<open>
  \<^verbatim>\<open>g_nextHandle++\<close> on a 32-bit \<^verbatim>\<open>int\<close>. The overflow is undefined in C++; the model goes on at the least integer, as the machine does.
\<close>

definition nextHandle :: "int \<Rightarrow> int" where
  "nextHandle n = to_int32 (n + 1)"

lemma nextHandle_id: "0 \<le> n \<Longrightarrow> n < 2 ^ 31 - 1 \<Longrightarrow> nextHandle n = n + 1"
  using to_int32_id[of "n + 1"] by (simp add: nextHandle_def)

lemma nextHandle_overflow: "nextHandle (2 ^ 31 - 1) = - (2 ^ 31)"
  by (simp add: nextHandle_def to_int32_def)

record create_os =
  osFd :: int
  osSetsockopt :: bool
  osNonBlock :: bool

definition socketCreate :: "create_os \<Rightarrow> int \<Rightarrow> lvalue \<Rightarrow> lvalue \<Rightarrow> ref option \<Rightarrow> socket_registry \<Rightarrow> int \<times> socket_registry" where
  "socketCreate os mode readCb closeCb owner reg =
     (if mode \<noteq> 0 \<and> mode \<noteq> 1 \<and> mode \<noteq> 2 then (EModeNotSupp, reg)
      else if osFd os < 0 then (ESocket, reg)
      else if \<not> osSetsockopt os then (ESetSockOpt, reg)
      else if \<not> osNonBlock os then (ENonBlock, reg)
      else
        let sm = (if mode = 0 then Mud else if mode = 1 then Stream else Datagram);
            handle = nextSock reg;
            s = (newLpcSocket handle (osFd os) sm owner)
                  \<lparr>readCallback := readCb,
                   closeCallback := (if sm \<noteq> Datagram then closeCb else mkValue VVoid)\<rparr>
        in (handle, putSock handle s (reg\<lparr>nextSock := nextHandle (nextSock reg), openFds := insert (osFd os) (openFds reg)\<rparr>)))"

record bind_os =
  osBind :: "serrno option"
  osSockName :: "(string \<times> int) option"

definition socketBind ::
  "inet_addr \<Rightarrow> bind_os \<Rightarrow> string \<Rightarrow> bool \<Rightarrow> int \<Rightarrow> ref option \<Rightarrow> heap \<Rightarrow> socket_registry \<Rightarrow> int \<times> socket_registry" where
  "socketBind inet os addr hasAddr handle caller h reg =
     guarded h handle caller reg (\<lambda>s.
       if sockState s \<noteq> Unbound then (EIsBound, reg)
       else if hasAddr \<and> inet addr = None then (EBadAddr, reg)
       else case osBind os of
              Some e \<Rightarrow> (if e = SeAddrInUse then EAddrInUse else EBind, reg)
            | None \<Rightarrow>
                let s1 = (case osSockName os of
                            Some (a, p) \<Rightarrow> s\<lparr>localAddr := a, sockLocalPort := p\<rparr> | None \<Rightarrow> s)
                in (SockSuccess, putSock handle (s1\<lparr>sockState := Bound\<rparr>) reg))"

definition socketListen :: "bool \<Rightarrow> lvalue \<Rightarrow> int \<Rightarrow> ref option \<Rightarrow> heap \<Rightarrow> socket_registry \<Rightarrow> int \<times> socket_registry" where
  "socketListen osListen callback handle caller h reg =
     guarded h handle caller reg (\<lambda>s.
       if sockMode s = Datagram then (EModeNotSupp, reg)
       else if sockState s = Unbound then (ENoAddr, reg)
       else if sockState s \<noteq> Bound then (EIsConn, reg)
       else if \<not> osListen then (EListen, reg)
       else (SockSuccess, putSock handle (s\<lparr>sockState := Listen, readCallback := callback\<rparr>) reg))"

datatype accept_os = AcceptError serrno | Accepted int string int

text \<open>The socket of an accepted connection: connected, with the mode, the close callback and the local address of the listener.\<close>

definition acceptedSocket ::
  "lpc_socket \<Rightarrow> int \<Rightarrow> int \<Rightarrow> string \<Rightarrow> int \<Rightarrow> lvalue \<Rightarrow> lvalue \<Rightarrow> ref option \<Rightarrow> lpc_socket" where
  "acceptedSocket ls newHandle f peer port readCb writeCb caller =
     (newLpcSocket newHandle f (sockMode ls) caller)
       \<lparr>sockState := DataXfer, readCallback := readCb, writeCallback := writeCb,
        closeCallback := closeCallback ls, remoteAddr := peer, remotePort := port,
        localAddr := localAddr ls, sockLocalPort := sockLocalPort ls\<rparr>"

definition socketAccept ::
  "accept_os \<Rightarrow> lvalue \<Rightarrow> lvalue \<Rightarrow> int \<Rightarrow> ref option \<Rightarrow> heap \<Rightarrow> socket_registry \<Rightarrow> int \<times> socket_registry" where
  "socketAccept os readCb writeCb handle caller h reg =
     guarded h handle caller reg (\<lambda>ls.
       if sockMode ls = Datagram then (EModeNotSupp, reg)
       else if sockState ls \<noteq> Listen then (ENotListn, reg)
       else
         let ls1 = ls\<lparr>acceptPending := False\<rparr>;
             reg1 = putSock handle ls1 reg
         in case os of
              AcceptError e \<Rightarrow>
                (if e = SeAgain \<or> e = SeWouldBlock then EWouldBlock
                 else if e = SeIntr then EIntr else EAccept, reg1)
            | Accepted f peer port \<Rightarrow>
                let newHandle = nextSock reg1;
                    s = acceptedSocket ls1 newHandle f peer port readCb writeCb caller
                in (newHandle, putSock newHandle s
                      (reg1\<lparr>nextSock := nextHandle (nextSock reg1), openFds := insert f (openFds reg1)\<rparr>)))"

definition socketConnect ::
  "inet_addr \<Rightarrow> serrno option \<Rightarrow> string \<Rightarrow> lvalue \<Rightarrow> lvalue \<Rightarrow> int \<Rightarrow> ref option \<Rightarrow> heap \<Rightarrow> socket_registry \<Rightarrow> int \<times> socket_registry" where
  "socketConnect inet os address readCb writeCb handle caller h reg =
     guarded h handle caller reg (\<lambda>s.
       if sockMode s = Datagram then (EModeNotSupp, reg)
       else if sockState s = Listen then (EIsListen, reg)
       else if sockState s = DataXfer then (EIsConn, reg)
       else case parseHostPort address of
              None \<Rightarrow> (EBadAddr, reg)
            | Some (host, port) \<Rightarrow>
                if \<not> buildSockaddr inet host then (EBadAddr, reg)
                else
                  let s1 = s\<lparr>readCallback := readCb, writeCallback := writeCb\<rparr>;
                      failed = (\<lambda>code. (code, putSock handle s1 reg));
                      connected = (SockSuccess, putSock handle
                        (s1\<lparr>sockState := DataXfer, remoteAddr := host, remotePort := port, blocked := True\<rparr>) reg)
                  in case os of
                       None \<Rightarrow> connected
                     | Some SeIntr \<Rightarrow> failed EIntr
                     | Some SeAddrInUse \<Rightarrow> failed EAddrInUse
                     | Some SeAlready \<Rightarrow> failed EAlready
                     | Some SeConnRefused \<Rightarrow> failed EConnRefused
                     | Some SeInProgress \<Rightarrow> connected
                     | Some SePerm \<Rightarrow> connected
                     | Some SeNetUnreach \<Rightarrow> connected
                     | Some SeHostUnreach \<Rightarrow> connected
                     | Some _ \<Rightarrow> failed EConnect)"

text \<open>The answer of \<^verbatim>\<open>sendto\<close> or \<^verbatim>\<open>write\<close>: a count of bytes, or -1 with an errno.\<close>

datatype write_os = Wrote nat | WriteError serrno

definition socketWrite ::
  "inet_addr \<Rightarrow> write_os \<Rightarrow> lvalue \<Rightarrow> string \<Rightarrow> bool \<Rightarrow> int \<Rightarrow> ref option \<Rightarrow> heap \<Rightarrow> socket_registry \<Rightarrow> int \<times> socket_registry" where
  "socketWrite inet os message address hasAddress handle caller h reg =
     guarded h handle caller reg (\<lambda>s.
       case vdata message of
         VStr text \<Rightarrow>
           if sockMode s = Datagram then
             (if \<not> hasAddress then (ENoAddr, reg)
              else case parseHostPort address of
                     None \<Rightarrow> (EBadAddr, reg)
                   | Some (host, port) \<Rightarrow>
                       if \<not> buildSockaddr inet host then (EBadAddr, reg)
                       else (case os of WriteError _ \<Rightarrow> (ESendTo, reg) | Wrote _ \<Rightarrow> (SockSuccess, reg)))
           else if sockState s \<noteq> DataXfer then (ENotConn, reg)
           else if hasAddress then (EBadAddr, reg)
           else if blocked s then (EAlready, reg)
           else if text = '''' then (SockSuccess, reg)
           else (case os of
                   WriteError e \<Rightarrow>
                     if e = SeAgain \<or> e = SeWouldBlock then (EWouldBlock, reg)
                     else if e = SeIntr then (EIntr, reg)
                     else (ESend, forceRemove handle reg)
                 | Wrote n \<Rightarrow>
                     if n = 0 then (ESend, forceRemove handle reg)
                     else if n < length text then
                       (ECallback, putSock handle
                          (s\<lparr>blocked := True, pendingWrite := drop n text, sockSent := sockSent s @ take n text\<rparr>) reg)
                     else (SockSuccess, putSock handle (s\<lparr>sockSent := sockSent s @ text\<rparr>) reg))
       | _ \<Rightarrow> (ETypeNotSupp, reg))"

definition socketClose :: "int \<Rightarrow> ref option \<Rightarrow> heap \<Rightarrow> socket_registry \<Rightarrow> int \<times> socket_registry" where
  "socketClose handle caller h reg =
     guarded h handle caller reg (\<lambda>s. (SockSuccess, forceRemove handle reg))"

definition ownedBy :: "heap \<Rightarrow> ref option \<Rightarrow> lpc_socket \<Rightarrow> bool" where
  "ownedBy h owner s \<longleftrightarrow> lock h (sockOwner s) = owner \<and> sockState s \<noteq> Closed"

definition closeAllOwnedBy :: "heap \<Rightarrow> ref option \<Rightarrow> socket_registry \<Rightarrow> socket_registry" where
  "closeAllOwnedBy h owner reg =
     (case owner of None \<Rightarrow> reg
      | Some r \<Rightarrow> reg\<lparr>sockets := (\<lambda>k. case sockets reg k of None \<Rightarrow> None
                                    | Some s \<Rightarrow> if ownedBy h owner s then None else Some s),
                     openFds := openFds reg - {sockFd s | s k. sockets reg k = Some s \<and> ownedBy h owner s}\<rparr>)"

definition beginRelease :: "ref option \<Rightarrow> int \<Rightarrow> ref option \<Rightarrow> heap \<Rightarrow> socket_registry \<Rightarrow> int \<times> socket_registry" where
  "beginRelease ob handle caller h reg =
     guarded h handle caller reg (\<lambda>s.
       if released s then (ESockRlsd, reg)
       else (SockSuccess, putSock handle (s\<lparr>released := True, releaseTarget := ob\<rparr>) reg))"

definition isReleased :: "int \<Rightarrow> socket_registry \<Rightarrow> bool" where
  "isReleased handle reg = (case sockets reg handle of None \<Rightarrow> False | Some s \<Rightarrow> released s)"

definition cancelRelease :: "int \<Rightarrow> socket_registry \<Rightarrow> socket_registry" where
  "cancelRelease handle reg =
     (case sockets reg handle of None \<Rightarrow> reg
      | Some s \<Rightarrow> putSock handle (s\<lparr>released := False, releaseTarget := None\<rparr>) reg)"

definition socketAcquire ::
  "lvalue \<Rightarrow> lvalue \<Rightarrow> lvalue \<Rightarrow> int \<Rightarrow> ref option \<Rightarrow> heap \<Rightarrow> socket_registry \<Rightarrow> int \<times> socket_registry" where
  "socketAcquire readCb writeCb closeCb handle caller h reg =
     (case sockets reg handle of
        None \<Rightarrow> (EFdRange, reg)
      | Some s \<Rightarrow>
          if sockState s = Closed then (EBadF, reg)
          else if \<not> released s then (ESockNotRlsd, reg)
          else if lock h (releaseTarget s) \<noteq> caller then (ESecurity, reg)
          else (SockSuccess, putSock handle
                 (s\<lparr>released := False, sockOwner := caller, releaseTarget := None, readCallback := readCb,
                    writeCallback := writeCb, closeCallback := closeCb\<rparr>) reg))"

section \<open>Status\<close>

definition modeName :: "SocketMode \<Rightarrow> string" where
  "modeName m = (case m of Stream \<Rightarrow> ''STREAM'' | Datagram \<Rightarrow> ''DATAGRAM'' | Mud \<Rightarrow> ''MUD'')"

definition stateName :: "SocketState \<Rightarrow> string" where
  "stateName s = (case s of Unbound \<Rightarrow> ''UNBOUND'' | Bound \<Rightarrow> ''BOUND'' | Listen \<Rightarrow> ''LISTEN''
                  | DataXfer \<Rightarrow> ''DATA_XFER'' | Closed \<Rightarrow> ''CLOSED'')"

definition addrPort :: "string \<Rightarrow> int \<Rightarrow> string" where
  "addrPort a p = (if a = '''' then '''' else a @ '' '' @ to_string p)"

definition statusOne :: "heap \<Rightarrow> lpc_socket \<Rightarrow> lvalue list" where
  "statusOne h s =
     [mkValue (VInt (word_of_int (sockHandle s))), mkValue (VStr (stateName (sockState s))),
      mkValue (VStr (modeName (sockMode s))), mkValue (VStr (addrPort (localAddr s) (sockLocalPort s))),
      mkValue (VStr (addrPort (remoteAddr s) (remotePort s))),
      (case lock h (sockOwner s) of Some r \<Rightarrow> mkValue (VObj (Some r)) | None \<Rightarrow> mkValue VVoid)]"

section \<open>The contract of an operation on a handle\<close>

text \<open>
  Every operation an LPC object performs on a handle answers an unknown, a closed and a foreign
  handle with its error and no effect, and otherwise touches no other existing socket.
\<close>

locale owner_guarded =
  fixes op :: "int \<Rightarrow> ref option \<Rightarrow> heap \<Rightarrow> socket_registry \<Rightarrow> int \<times> socket_registry"
  assumes op_missing: "sockets reg k = None \<Longrightarrow> op k caller h reg = (EFdRange, reg)"
    and op_closed: "sockets reg k = Some s \<Longrightarrow> sockState s = Closed \<Longrightarrow> op k caller h reg = (EBadF, reg)"
    and op_foreign: "sockets reg k = Some s \<Longrightarrow> sockState s \<noteq> Closed \<Longrightarrow> lock h (sockOwner s) \<noteq> caller \<Longrightarrow>
      op k caller h reg = (ESecurity, reg)"
    and op_frame: "j \<noteq> k \<Longrightarrow> j < nextSock reg \<Longrightarrow> sockets (snd (op k caller h reg)) j = sockets reg j"
    and op_next: "0 \<le> nextSock reg \<Longrightarrow> nextSock reg < 2 ^ 31 - 1 \<Longrightarrow>
      nextSock reg \<le> nextSock (snd (op k caller h reg)) \<and> nextSock (snd (op k caller h reg)) \<le> nextSock reg + 1"
begin

text \<open>An object cannot reach a socket of another one through the operation, whatever handle it names.\<close>

lemma op_isolated:
  assumes "sockets reg j = Some s" and "j < nextSock reg" and "lock h (sockOwner s) \<noteq> caller"
  shows "sockets (snd (op k caller h reg)) j = Some s"
proof (cases "j = k")
  case True
  then show ?thesis using assms op_foreign[of reg k s h caller] op_closed[of reg k s caller h] by (cases "sockState s = Closed") auto
next
  case False
  then show ?thesis using assms op_frame[of j k reg caller h] by simp
qed

lemma op_errors_pure:
  "fst (op k caller h reg) = EFdRange \<or> snd (op k caller h reg) \<noteq> reg \<Longrightarrow>
   (\<exists>s. sockets reg k = Some s \<and> sockState s \<noteq> Closed \<and> lock h (sockOwner s) = caller) \<or>
   op k caller h reg = (EFdRange, reg)"
  using op_missing[of reg k caller h] op_closed[of reg k _ caller h] op_foreign[of reg k _ h caller]
  by (cases "sockets reg k") fastforce+

end

lemma guarded_simps [simp]:
  "sockets reg k = None \<Longrightarrow> guarded h k caller reg f = (EFdRange, reg)"
  "sockets reg k = Some s \<Longrightarrow> sockState s = Closed \<Longrightarrow> guarded h k caller reg f = (EBadF, reg)"
  "sockets reg k = Some s \<Longrightarrow> sockState s \<noteq> Closed \<Longrightarrow> lock h (sockOwner s) \<noteq> caller \<Longrightarrow>
     guarded h k caller reg f = (ESecurity, reg)"
  "sockets reg k = Some s \<Longrightarrow> sockState s \<noteq> Closed \<Longrightarrow> lock h (sockOwner s) = caller \<Longrightarrow> guarded h k caller reg f = f s"
  by (simp_all add: guarded_def)

lemma guarded_keeps:
  assumes "P reg" and "\<And>s. sockets reg k = Some s \<Longrightarrow> sockState s \<noteq> Closed \<Longrightarrow> lock h (sockOwner s) = caller \<Longrightarrow> P (snd (f s))"
  shows "P (snd (guarded h k caller reg f))"
  using assms by (auto simp: guarded_def split: option.splits)

lemma putSock_simps [simp]:
  "sockets (putSock k s reg) = (sockets reg)(k \<mapsto> s)"
  "nextSock (putSock k s reg) = nextSock reg"
  "openFds (putSock k s reg) = openFds reg"
  by (simp_all add: putSock_def)

lemma forceRemove_simps [simp]:
  "sockets (forceRemove k reg) = (sockets reg)(k := None)"
  "nextSock (forceRemove k reg) = nextSock reg"
  by (auto simp: forceRemove_def split: option.splits)

text \<open>What an operation may do to the registry: change one handle, and add one under the next handle.\<close>

definition touches :: "int \<Rightarrow> socket_registry \<Rightarrow> socket_registry \<Rightarrow> bool" where
  "touches k reg reg' \<longleftrightarrow>
     (\<forall>j. j \<noteq> k \<and> j < nextSock reg \<longrightarrow> sockets reg' j = sockets reg j) \<and>
     (0 \<le> nextSock reg \<and> nextSock reg < 2 ^ 31 - 1 \<longrightarrow> nextSock reg \<le> nextSock reg' \<and> nextSock reg' \<le> nextSock reg + 1)"

lemma touches_simps [simp]:
  "touches k reg reg" "touches k reg (putSock k s reg)" "touches k reg (forceRemove k reg)"
  by (simp_all add: touches_def)

lemma touches_guarded:
  assumes "\<And>s. touches k reg (snd (f s))"
  shows "touches k reg (snd (guarded h k caller reg f))"
  by (rule guarded_keeps) (use assms in simp_all)

lemma touches_ops:
  "touches k reg (snd (socketBind inet bos addr hasAddr k caller h reg))"
  "touches k reg (snd (socketListen b cb k caller h reg))"
  "touches k reg (snd (socketAccept aos r w k caller h reg))"
  "touches k reg (snd (socketConnect inet e address r w k caller h reg))"
  "touches k reg (snd (socketWrite inet wos m address hasAddress k caller h reg))"
  "touches k reg (snd (socketClose k caller h reg))"
  "touches k reg (snd (beginRelease ob k caller h reg))"
  unfolding socketBind_def socketListen_def socketAccept_def socketConnect_def socketWrite_def
    socketClose_def beginRelease_def
  by (intro touches_guarded; auto simp: touches_def Let_def nextHandle_id split: option.splits accept_os.splits
        serrno.splits write_os.splits vdata.splits prod.splits)+

lemmas guarded_op_defs = socketBind_def socketListen_def socketAccept_def socketConnect_def
  socketWrite_def socketClose_def beginRelease_def

lemma owner_guardedI:
  assumes "\<And>k caller h reg. \<exists>f. op k caller h reg = guarded h k caller reg f"
    and "\<And>k caller h reg. touches k reg (snd (op k caller h reg))"
  shows "owner_guarded op"
proof
  fix reg k caller h s j
  show "op k caller h reg = (EFdRange, reg)" if "sockets reg k = None"
    using assms(1)[of k caller h reg] that by auto
  show "op k caller h reg = (EBadF, reg)" if "sockets reg k = Some s" "sockState s = Closed"
    using assms(1)[of k caller h reg] that by auto
  show "op k caller h reg = (ESecurity, reg)"
    if "sockets reg k = Some s" "sockState s \<noteq> Closed" "lock h (sockOwner s) \<noteq> caller"
    using assms(1)[of k caller h reg] that by auto
  show "sockets (snd (op k caller h reg)) j = sockets reg j" if "j \<noteq> k" "j < nextSock reg"
    using assms(2)[of k reg caller h] that by (simp add: touches_def)
  show "nextSock reg \<le> nextSock (snd (op k caller h reg)) \<and> nextSock (snd (op k caller h reg)) \<le> nextSock reg + 1"
    if "0 \<le> nextSock reg" "nextSock reg < 2 ^ 31 - 1"
    using assms(2)[of k reg caller h] that by (simp add: touches_def)
qed

interpretation bindOp: owner_guarded "socketBind inet bos addr hasAddr" for inet bos addr hasAddr
  by (rule owner_guardedI, unfold socketBind_def, rule exI, rule refl, fold socketBind_def, rule touches_ops)

interpretation listenOp: owner_guarded "socketListen b cb" for b cb
  by (rule owner_guardedI, unfold socketListen_def, rule exI, rule refl, fold socketListen_def, rule touches_ops)

interpretation acceptOp: owner_guarded "socketAccept aos r w" for aos r w
  by (rule owner_guardedI, unfold socketAccept_def, rule exI, rule refl, fold socketAccept_def, rule touches_ops)

interpretation connectOp: owner_guarded "socketConnect inet e address r w" for inet e address r w
  by (rule owner_guardedI, unfold socketConnect_def, rule exI, rule refl, fold socketConnect_def, rule touches_ops)

interpretation writeOp: owner_guarded "socketWrite inet wos m address hasAddress" for inet wos m address hasAddress
  by (rule owner_guardedI, unfold socketWrite_def, rule exI, rule refl, fold socketWrite_def, rule touches_ops)

interpretation closeOp: owner_guarded socketClose
  by (rule owner_guardedI, unfold socketClose_def, rule exI, rule refl, fold socketClose_def, rule touches_ops)

interpretation releaseOp: owner_guarded "beginRelease ob" for ob
  by (rule owner_guardedI, unfold beginRelease_def, rule exI, rule refl, fold beginRelease_def, rule touches_ops)

section \<open>Operations as data\<close>

text \<open>One call of a socket efun by an LPC object, with the answers of the operating system.\<close>

datatype sock_op =
    OpCreate create_os int lvalue lvalue
  | OpBind bind_os string bool int
  | OpListen bool lvalue int
  | OpAccept accept_os lvalue lvalue int
  | OpConnect "serrno option" string lvalue lvalue int
  | OpWrite write_os lvalue string bool int
  | OpClose int
  | OpRelease "ref option" int
  | OpAcquire lvalue lvalue lvalue int

fun sockExec :: "inet_addr \<Rightarrow> heap \<Rightarrow> ref option \<Rightarrow> sock_op \<Rightarrow> socket_registry \<Rightarrow> int \<times> socket_registry" where
  "sockExec inet h c (OpCreate os m r cl) reg = socketCreate os m r cl c reg"
| "sockExec inet h c (OpBind os a b k) reg = socketBind inet os a b k c h reg"
| "sockExec inet h c (OpListen os cb k) reg = socketListen os cb k c h reg"
| "sockExec inet h c (OpAccept os r w k) reg = socketAccept os r w k c h reg"
| "sockExec inet h c (OpConnect os a r w k) reg = socketConnect inet os a r w k c h reg"
| "sockExec inet h c (OpWrite os m a b k) reg = socketWrite inet os m a b k c h reg"
| "sockExec inet h c (OpClose k) reg = socketClose k c h reg"
| "sockExec inet h c (OpRelease ob k) reg = beginRelease ob k c h reg"
| "sockExec inet h c (OpAcquire r w cl k) reg = socketAcquire r w cl k c h reg"

fun sockRun :: "inet_addr \<Rightarrow> heap \<Rightarrow> (ref option \<times> sock_op) list \<Rightarrow> socket_registry \<Rightarrow> socket_registry" where
  "sockRun inet h [] reg = reg"
| "sockRun inet h ((c, op) # ops) reg = sockRun inet h ops (snd (sockExec inet h c op reg))"

section \<open>Lemmas: the invariant\<close>

text \<open>
  A registered socket: its handle is its key, it is never in the closed state, a datagram socket
  never listens or connects, only a connected socket is blocked, only a blocked one has unsent text, and only a
  released one has somebody to go to.
\<close>

definition sockOk :: "int \<Rightarrow> int \<Rightarrow> lpc_socket \<Rightarrow> bool" where
  "sockOk n k s \<longleftrightarrow>
     sockHandle s = k \<and> 0 \<le> k \<and> k < n \<and> sockState s \<noteq> Closed \<and>
     (sockMode s = Datagram \<longrightarrow> sockState s = Unbound \<or> sockState s = Bound) \<and>
     (blocked s \<longrightarrow> sockState s = DataXfer) \<and> (pendingWrite s \<noteq> [] \<longrightarrow> blocked s) \<and>
     (\<not> released s \<longrightarrow> releaseTarget s = None)"

text \<open>No descriptor is leaked, shared or closed twice: the open ones are exactly those of the sockets.\<close>

definition fdAt :: "socket_registry \<Rightarrow> int \<rightharpoonup> int" where
  "fdAt reg k = map_option sockFd (sockets reg k)"

definition fdsOk :: "socket_registry \<Rightarrow> bool" where
  "fdsOk reg \<longleftrightarrow> openFds reg = ran (fdAt reg) \<and> inj_on (fdAt reg) (dom (fdAt reg))"

definition sockInv :: "socket_registry \<Rightarrow> bool" where
  "sockInv reg \<longleftrightarrow>
     0 \<le> nextSock reg \<and> (\<forall>k s. sockets reg k = Some s \<longrightarrow> sockOk (nextSock reg) k s) \<and> fdsOk reg"

lemma sockInvD: "sockInv reg \<Longrightarrow> sockets reg k = Some s \<Longrightarrow> sockOk (nextSock reg) k s"
  by (simp add: sockInv_def)

lemma fdAt_put: "fdAt (putSock k s reg) = (fdAt reg)(k \<mapsto> sockFd s)"
  by (auto simp: fdAt_def)

lemma fdAt_frame [simp]: "fdAt (reg\<lparr>nextSock := n, openFds := f\<rparr>) = fdAt reg"
  by (auto simp: fdAt_def)

lemma fdsOk_put:
  assumes "fdsOk reg" and "sockets reg k = Some s" and "sockFd s' = sockFd s"
  shows "fdsOk (putSock k s' reg)"
proof -
  have "fdAt (putSock k s' reg) = fdAt reg" using assms by (auto simp: fdAt_def)
  with assms(1) show ?thesis by (simp add: fdsOk_def)
qed

lemma ran_remove_inj: "inj_on m (dom m) \<Longrightarrow> m k = Some v \<Longrightarrow> ran (m(k := None)) = ran m - {v}"
proof -
  assume i: "inj_on m (dom m)" and k: "m k = Some v"
  have "j = k" if "m j = Some v" for j
    using inj_onD[OF i, of j k] that k by auto
  then have "x \<in> ran (m(k := None)) \<longleftrightarrow> x \<in> ran m \<and> x \<noteq> v" for x
    unfolding ran_def mem_Collect_eq fun_upd_apply using k by (metis option.distinct(1) option.inject)
  then show ?thesis by blast
qed

lemma fdsOk_remove:
  assumes "fdsOk reg"
  shows "fdsOk (forceRemove k reg)"
proof (cases "sockets reg k")
  case (Some s)
  have f: "fdAt (forceRemove k reg) = (fdAt reg)(k := None)" by (auto simp: fdAt_def)
  have k: "fdAt reg k = Some (sockFd s)" using Some by (simp add: fdAt_def)
  have "inj_on (fdAt reg) (dom (fdAt reg))" using assms by (simp add: fdsOk_def)
  then have "inj_on ((fdAt reg)(k := None)) (dom ((fdAt reg)(k := None)))"
    by (auto simp: inj_on_def dom_def)
  moreover have "openFds (forceRemove k reg) = openFds reg - {sockFd s}" using Some by (simp add: forceRemove_def)
  ultimately show ?thesis
    using assms ran_remove_inj[OF \<open>inj_on (fdAt reg) (dom (fdAt reg))\<close> k] by (simp add: fdsOk_def f)
qed (use assms in \<open>simp add: forceRemove_def\<close>)

lemma fdsOk_add:
  assumes "fdsOk reg" and "f \<notin> openFds reg" and "sockets reg k = None" and "sockFd s = f"
  shows "fdsOk (putSock k s (reg\<lparr>nextSock := n, openFds := insert f (openFds reg)\<rparr>))"
proof -
  have k: "fdAt reg k = None" using assms(3) by (simp add: fdAt_def)
  have i: "inj_on (fdAt reg) (dom (fdAt reg))" and r: "openFds reg = ran (fdAt reg)"
    using assms(1) by (simp_all add: fdsOk_def)
  have "f \<notin> ran (fdAt reg)" using assms(2) r by simp
  then have "inj_on ((fdAt reg)(k \<mapsto> f)) (dom ((fdAt reg)(k \<mapsto> f)))"
    using i k by (auto simp: inj_on_def ran_def dom_def)
  then show ?thesis using r k assms(4) by (simp add: fdsOk_def fdAt_put)
qed

lemma sockInv_put:
  assumes "sockInv reg" and "sockets reg k = Some s" and "sockFd s' = sockFd s" and "sockOk (nextSock reg) k s'"
  shows "sockInv (putSock k s' reg)"
  using assms fdsOk_put[of reg k s s'] by (simp add: sockInv_def)

lemma sockInv_remove: "sockInv reg \<Longrightarrow> sockInv (forceRemove k reg)"
  using fdsOk_remove[of reg k] by (simp add: sockInv_def)

lemma sockOk_mono: "sockOk n k s \<Longrightarrow> n \<le> m \<Longrightarrow> sockOk m k s"
  by (simp add: sockOk_def)

lemma sockInv_add:
  assumes "sockInv reg" and "nextSock reg < 2 ^ 31 - 1" and "f \<notin> openFds reg" and "sockFd s = f" and "sockOk (nextSock reg + 1) (nextSock reg) s"
  shows "sockInv (putSock (nextSock reg) s (reg\<lparr>nextSock := nextHandle (nextSock reg), openFds := insert f (openFds reg)\<rparr>))"
proof -
  have "sockets reg (nextSock reg) = None"
    using sockInvD[OF assms(1), of "nextSock reg"] by (cases "sockets reg (nextSock reg)") (auto simp: sockOk_def)
  then show ?thesis
    using assms fdsOk_add[of reg f "nextSock reg" s "nextSock reg + 1"]
    by (auto simp: sockInv_def nextHandle_id intro: sockOk_mono[of "nextSock reg"])
qed

text \<open>The operating system hands out descriptors that are not in use.\<close>

fun freshFd :: "sock_op \<Rightarrow> socket_registry \<Rightarrow> bool" where
  "freshFd (OpCreate os m r c) reg = (osFd os \<notin> openFds reg)"
| "freshFd (OpAccept (Accepted f a p) r w k) reg = (f \<notin> openFds reg)"
| "freshFd _ reg = True"

lemma sockOk_updates:
  assumes "sockOk n k s"
  shows "sockState s = Unbound \<Longrightarrow> sockOk n k (s\<lparr>sockState := Bound\<rparr>)"
    and "sockState s = Unbound \<Longrightarrow> sockOk n k (s\<lparr>localAddr := a, sockLocalPort := p, sockState := Bound\<rparr>)"
    and "sockState s = Bound \<Longrightarrow> sockMode s \<noteq> Datagram \<Longrightarrow> sockOk n k (s\<lparr>sockState := Listen, readCallback := r\<rparr>)"
    and "sockOk n k (s\<lparr>acceptPending := b\<rparr>)"
    and "sockOk n k (s\<lparr>readCallback := r, writeCallback := w\<rparr>)"
    and "sockMode s \<noteq> Datagram \<Longrightarrow> sockOk n k
      (s\<lparr>readCallback := r, writeCallback := w, sockState := DataXfer, remoteAddr := a, remotePort := p, blocked := True\<rparr>)"
    and "sockState s = DataXfer \<Longrightarrow> sockOk n k (s\<lparr>blocked := True, pendingWrite := t, sockSent := u\<rparr>)"
    and "sockOk n k (s\<lparr>sockSent := u\<rparr>)"
    and "sockOk n k (s\<lparr>released := True, releaseTarget := ob\<rparr>)"
    and "sockOk n k (s\<lparr>released := False, sockOwner := ob, releaseTarget := None, readCallback := r,
                    writeCallback := w, closeCallback := cl\<rparr>)"
    and "sockOk n k (s\<lparr>released := False, releaseTarget := None\<rparr>)"
  using assms by (auto simp: sockOk_def)

lemma sockOk_accepted:
  "0 \<le> k \<Longrightarrow> k < n \<Longrightarrow> sockMode ls \<noteq> Datagram \<Longrightarrow> sockOk n k (acceptedSocket ls k f peer port r w c)"
  "sockFd (acceptedSocket ls k f peer port r w c) = f"
  by (simp_all add: sockOk_def acceptedSocket_def newLpcSocket_def)

lemma nextSock_pos: "sockInv reg \<Longrightarrow> 0 \<le> nextSock reg"
  by (simp add: sockInv_def)

lemma sockInv_create:
  assumes "sockInv reg" and "nextSock reg < 2 ^ 31 - 1" and "osFd os \<notin> openFds reg"
  shows "sockInv (snd (socketCreate os m r cl c reg))"
  using assms sockInv_add[OF assms] nextSock_pos[OF assms(1)]
  by (simp add: socketCreate_def Let_def newLpcSocket_def sockOk_def)

lemma sockInv_accept:
  assumes "sockInv reg" and "nextSock reg < 2 ^ 31 - 1" and "freshFd (OpAccept os r w k) reg"
  shows "sockInv (snd (socketAccept os r w k c h reg))"
  unfolding socketAccept_def
proof (rule guarded_keeps[where P = sockInv, OF assms(1)])
  fix s
  assume s: "sockets reg k = Some s" "sockState s \<noteq> Closed"
  let ?reg = "putSock k (s\<lparr>acceptPending := False\<rparr>) reg"
  have i: "sockInv ?reg"
    by (rule sockInv_put[OF assms(1) s(1)]) (simp_all add: sockOk_updates sockInvD[OF assms(1) s(1)])
  have pos: "0 \<le> nextSock reg" using assms(1) by (rule nextSock_pos)
  have add: "sockInv (putSock (nextSock reg) x (?reg\<lparr>nextSock := nextHandle (nextSock reg), openFds := insert f (openFds reg)\<rparr>))"
    if "sockFd x = f" "f \<notin> openFds reg" "sockOk (nextSock reg + 1) (nextSock reg) x" for x f
    using sockInv_add[OF i, of f x] that assms(2) by simp
  show "sockInv (snd (if sockMode s = Datagram then (EModeNotSupp, reg)
       else if sockState s \<noteq> Listen then (ENotListn, reg)
       else
         let ls1 = s\<lparr>acceptPending := False\<rparr>;
             reg1 = putSock k ls1 reg
         in case os of
              AcceptError e \<Rightarrow>
                (if e = SeAgain \<or> e = SeWouldBlock then EWouldBlock
                 else if e = SeIntr then EIntr else EAccept, reg1)
            | Accepted f peer port \<Rightarrow>
                let newHandle = nextSock reg1;
                    s = acceptedSocket ls1 newHandle f peer port r w c
                in (newHandle, putSock newHandle s
                      (reg1\<lparr>nextSock := nextHandle (nextSock reg1), openFds := insert f (openFds reg1)\<rparr>))))"
    using assms i by (cases os) (auto simp: Let_def pos intro!: add sockOk_accepted)
qed

lemma sockInv_guarded:
  assumes "sockInv reg"
    and "\<And>s. sockOk (nextSock reg) k s \<Longrightarrow>
      (\<And>s'. sockFd s' = sockFd s \<Longrightarrow> sockOk (nextSock reg) k s' \<Longrightarrow> sockInv (putSock k s' reg)) \<Longrightarrow> sockInv (snd (f s))"
  shows "sockInv (snd (guarded h k c reg f))"
proof (rule guarded_keeps[where P = sockInv, OF assms(1)])
  fix s
  assume "sockets reg k = Some s"
  then show "sockInv (snd (f s))"
    by (intro assms(2)) (use sockInvD[OF assms(1)] sockInv_put[OF assms(1)] in blast)+
qed

lemma sockInv_bind: "sockInv reg \<Longrightarrow> sockInv (snd (socketBind inet bos addr hasAddr k c h reg))"
  unfolding socketBind_def
  by (rule sockInv_guarded) (simp_all add: sockOk_updates Let_def split: option.splits prod.splits)

lemma sockInv_listen: "sockInv reg \<Longrightarrow> sockInv (snd (socketListen b cb k c h reg))"
  unfolding socketListen_def by (rule sockInv_guarded) (simp_all add: sockOk_updates)

lemma sockInv_connect: "sockInv reg \<Longrightarrow> sockInv (snd (socketConnect inet e address r w k c h reg))"
  unfolding socketConnect_def
  by (rule sockInv_guarded) (simp_all add: sockOk_updates Let_def split: option.splits serrno.splits prod.splits)

lemma sockInv_write: "sockInv reg \<Longrightarrow> sockInv (snd (socketWrite inet wos m address hasAddress k c h reg))"
  unfolding socketWrite_def
  by (rule sockInv_guarded)
    (simp_all add: sockOk_updates sockInv_remove split: vdata.splits option.splits write_os.splits prod.splits)

lemma sockInv_close: "sockInv reg \<Longrightarrow> sockInv (snd (socketClose k c h reg))"
  unfolding socketClose_def by (rule sockInv_guarded) (simp_all add: sockInv_remove)

lemma sockInv_release: "sockInv reg \<Longrightarrow> sockInv (snd (beginRelease ob k c h reg))"
  unfolding beginRelease_def by (rule sockInv_guarded) (simp_all add: sockOk_updates)

lemmas sockInv_ops = sockInv_bind sockInv_listen sockInv_connect sockInv_write sockInv_close sockInv_release

lemma sockInv_acquire: "sockInv reg \<Longrightarrow> sockInv (snd (socketAcquire r w cl k c h reg))"
  by (auto simp: socketAcquire_def intro!: sockInv_put sockOk_updates sockInvD split: option.splits)

lemma sockInv_cancel: "sockInv reg \<Longrightarrow> sockInv (cancelRelease k reg)"
  by (auto simp: cancelRelease_def intro!: sockInv_put sockOk_updates sockInvD split: option.splits)

lemma sockInv_closeAll:
  assumes "sockInv reg"
  shows "sockInv (closeAllOwnedBy h ob reg)"
proof (cases ob)
  case (Some r)
  let ?m = "fdAt reg" and ?gone = "\<lambda>k. \<exists>s. sockets reg k = Some s \<and> ownedBy h ob s"
  let ?reg = "closeAllOwnedBy h ob reg"
  have i: "inj_on ?m (dom ?m)" and o: "openFds reg = ran ?m" using assms by (simp_all add: sockInv_def fdsOk_def)
  have f: "fdAt ?reg = (\<lambda>k. if ?gone k then None else ?m k)"
    using Some by (auto simp: fdAt_def closeAllOwnedBy_def fun_eq_iff split: option.splits)
  have j: "inj_on (fdAt ?reg) (dom (fdAt ?reg))"
    using i unfolding f inj_on_def dom_def by (auto split: if_splits)
  have "openFds ?reg = ran (fdAt ?reg)"
  proof -
    have "v \<in> openFds ?reg \<longleftrightarrow> (\<exists>k. ?m k = Some v) \<and> \<not> (\<exists>k. ?gone k \<and> ?m k = Some v)" for v
    proof -
      have o': "v \<in> openFds ?reg \<longleftrightarrow> v \<in> ran ?m \<and> \<not> (\<exists>s k. sockets reg k = Some s \<and> sockFd s = v \<and> ownedBy h ob s)"
        using Some o by (auto simp: closeAllOwnedBy_def)
      have m: "?m k = Some v \<longleftrightarrow> (\<exists>s. sockets reg k = Some s \<and> sockFd s = v)" for k
        by (auto simp: fdAt_def)
      have g: "(\<exists>s k. sockets reg k = Some s \<and> sockFd s = v \<and> ownedBy h ob s) \<longleftrightarrow> (\<exists>k. ?gone k \<and> ?m k = Some v)"
        unfolding m by force
      show ?thesis unfolding o' g by (simp only: ran_def mem_Collect_eq)
    qed
    moreover have "v \<in> ran (fdAt ?reg) \<longleftrightarrow> (\<exists>k. \<not> ?gone k \<and> ?m k = Some v)" for v
      unfolding f ran_def mem_Collect_eq by (metis option.distinct(1))
    moreover have "j = k" if "?m j = Some v" "?m k = Some v" for j k v
      using inj_onD[OF i, of j k] that by auto
    ultimately show ?thesis by blast
  qed
  moreover have "sockOk (nextSock ?reg) k s" if "sockets ?reg k = Some s" for k s
    using that assms Some by (auto simp: closeAllOwnedBy_def sockInv_def split: option.splits if_splits)
  ultimately show ?thesis
    using j assms Some by (simp add: sockInv_def fdsOk_def closeAllOwnedBy_def)
qed (use assms in \<open>simp add: closeAllOwnedBy_def\<close>)

lemma sockInv_empty: "sockInv emptyRegistry"
proof -
  have "fdAt emptyRegistry = Map.empty" by (auto simp: fdAt_def emptyRegistry_def)
  then show ?thesis by (simp add: sockInv_def fdsOk_def) (simp add: emptyRegistry_def)
qed

lemma sockExec_isolated:
  assumes "sockets reg k = Some s" and "k < nextSock reg" and "lock h (sockOwner s) \<noteq> c"
    and "released s \<Longrightarrow> lock h (releaseTarget s) \<noteq> c" and "0 \<le> nextSock reg" and "nextSock reg < 2 ^ 31 - 1"
  shows "sockets (snd (sockExec inet h c op reg)) k = Some s \<and> nextSock reg \<le> nextSock (snd (sockExec inet h c op reg)) \<and>
    nextSock (snd (sockExec inet h c op reg)) \<le> nextSock reg + 1"
proof (cases op)
  case (OpCreate os m r cl)
  then show ?thesis using assms by (simp add: socketCreate_def Let_def nextHandle_id)
next
  case (OpAcquire r w cl j)
  then show ?thesis using assms by (auto simp: socketAcquire_def split: option.splits)
qed (use assms bindOp.op_isolated listenOp.op_isolated acceptOp.op_isolated connectOp.op_isolated
    writeOp.op_isolated closeOp.op_isolated releaseOp.op_isolated bindOp.op_next listenOp.op_next
    acceptOp.op_next connectOp.op_next writeOp.op_next closeOp.op_next releaseOp.op_next in auto)

section \<open>Properties\<close>

text \<open>
  C21. Sockets are private to their owner: whatever sequence of socket efuns other objects call, with whatever
  handles, arguments and answers of the operating system, a socket that is not being released to one of them
  stays exactly as it is: not closed, not rebound, not written to, its callbacks not replaced. The handle counter must have room
  for the sequence: it is a 32-bit integer, and after its overflow a new socket takes the handle of an old one.
\<close>

theorem socket_isolation:
  assumes "sockets reg k = Some s" and "k < nextSock reg" and "0 \<le> nextSock reg" and "nextSock reg + int (length ops) < 2 ^ 31"
    and "\<forall>(c, op)\<in>set ops. c \<noteq> lock h (sockOwner s) \<and> (released s \<longrightarrow> c \<noteq> lock h (releaseTarget s))"
  shows "sockets (sockRun inet h ops reg) k = Some s"
  using assms
proof (induction ops arbitrary: reg)
  case (Cons x ops)
  obtain c op where x: "x = (c, op)" by fastforce
  have "sockets (snd (sockExec inet h c op reg)) k = Some s \<and> nextSock reg \<le> nextSock (snd (sockExec inet h c op reg)) \<and>
      nextSock (snd (sockExec inet h c op reg)) \<le> nextSock reg + 1"
    by (rule sockExec_isolated) (use Cons.prems x in auto)
  with Cons x show ?case by auto
qed simp

theorem socket_isolation_witness:
  "sockets (sockRun (\<lambda>_. None) [1 \<mapsto> newLpcObject ''/a'' 0 0 True 0, 2 \<mapsto> newLpcObject ''/b'' 0 0 True 0]
      [(Some 2, OpClose 0), (Some 2, OpWrite (Wrote 1) (mkValue (VStr ''x'')) '''' False 0)]
      (snd (socketCreate \<lparr>osFd = 9, osSetsockopt = True, osNonBlock = True\<rparr> 1 (mkValue VVoid) (mkValue VVoid) (Some 1) emptyRegistry))) 0
   = Some (newLpcSocket 0 9 Stream (Some 1))"
  by (rule socket_isolation) (simp_all add: socketCreate_def emptyRegistry_def Let_def newLpcSocket_def lock_def nextHandle_id)

text \<open>
  Handing a socket over: after a release only the chosen object can take it; when it does it is the
  owner, with its own callbacks, and every operation of the old owner is answered with the security error and has no effect.
\<close>

theorem socket_handoff:
  assumes "sockets reg k = Some s" and "sockState s \<noteq> Closed" and "sockOwner s = Some a" and "\<not> released s"
    and "a \<in> dom h" and "b \<in> dom h" and "a \<noteq> b"
  defines "reg1 \<equiv> snd (beginRelease (Some b) k (Some a) h reg)"
  shows "fst (beginRelease (Some b) k (Some a) h reg) = SockSuccess \<and>
    (\<forall>c r w cl. c \<noteq> Some b \<longrightarrow> socketAcquire r w cl k c h reg1 = (ESecurity, reg1)) \<and>
    (\<forall>r w cl. \<exists>reg2. socketAcquire r w cl k (Some b) h reg1 = (SockSuccess, reg2) \<and>
       sockets reg2 k = Some (s\<lparr>sockOwner := Some b, releaseTarget := None, readCallback := r, writeCallback := w, closeCallback := cl\<rparr>) \<and>
       socketClose k (Some a) h reg2 = (ESecurity, reg2) \<and>
       (\<forall>inet os m ad ha. socketWrite inet os m ad ha k (Some a) h reg2 = (ESecurity, reg2)) \<and>
       (\<forall>ob. beginRelease ob k (Some a) h reg2 = (ESecurity, reg2)))"
proof -
  have la: "lock h (Some a) = Some a" and lb: "lock h (Some b) = Some b" using assms(5,6) by (auto simp: lock_def)
  have b: "beginRelease (Some b) k (Some a) h reg = (SockSuccess, putSock k (s\<lparr>released := True, releaseTarget := Some b\<rparr>) reg)"
    using assms(1-4) la by (simp add: beginRelease_def)
  have reg1: "reg1 = putSock k (s\<lparr>released := True, releaseTarget := Some b\<rparr>) reg" unfolding reg1_def b by simp
  let ?s = "\<lambda>r w cl. s\<lparr>sockOwner := Some b, releaseTarget := None, readCallback := r, writeCallback := w, closeCallback := cl\<rparr>"
  have acq: "\<exists>reg2. socketAcquire r w cl k (Some b) h reg1 = (SockSuccess, reg2) \<and> sockets reg2 k = Some (?s r w cl)" for r w cl
    using assms(2,4) lb by (simp add: socketAcquire_def reg1)
  have foreign: "op k (Some a) h reg2 = (ESecurity, reg2)"
    if "owner_guarded op" "sockets reg2 k = Some (?s r w cl)" for op reg2 r w cl
    using owner_guarded.op_foreign[OF that] assms(2,7) lb by simp
  have other: "\<forall>c r w cl. c \<noteq> Some b \<longrightarrow> socketAcquire r w cl k c h reg1 = (ESecurity, reg1)"
    using assms(2) lb by (simp add: socketAcquire_def reg1)
  have "fst (beginRelease (Some b) k (Some a) h reg) = SockSuccess" by (simp add: b)
  with other show ?thesis
    using acq foreign[OF closeOp.owner_guarded_axioms] foreign[OF writeOp.owner_guarded_axioms]
      foreign[OF releaseOp.owner_guarded_axioms] by meson
qed

theorem socket_handoff_witness:
  "fst (socketAcquire (mkValue VVoid) (mkValue VVoid) (mkValue VVoid) 0 (Some 2)
      [1 \<mapsto> newLpcObject ''/a'' 0 0 True 0, 2 \<mapsto> newLpcObject ''/b'' 0 0 True 0]
      (snd (beginRelease (Some 2) 0 (Some 1) [1 \<mapsto> newLpcObject ''/a'' 0 0 True 0, 2 \<mapsto> newLpcObject ''/b'' 0 0 True 0]
        (putSock 0 (newLpcSocket 0 9 Stream (Some 1)) emptyRegistry)))) = SockSuccess"
  using socket_handoff[of "putSock 0 (newLpcSocket 0 9 Stream (Some 1)) emptyRegistry" 0 "newLpcSocket 0 9 Stream (Some 1)" 1
      "[1 \<mapsto> newLpcObject ''/a'' 0 0 True 0, 2 \<mapsto> newLpcObject ''/b'' 0 0 True 0]" 2]
  by (simp add: newLpcSocket_def) (metis fst_conv)

text \<open>
  C22. Every socket efun keeps the registry well formed, given that the operating system hands out
  descriptors that are not in use: handles are never reused, a datagram socket never listens or
  connects, unsent text is only kept on a blocked connection, and the open descriptors are exactly those of
  the registered sockets, each of one socket (none is leaked on an error path, none closed twice). So do the
  clean-up operations of the driver. The 32-bit handle counter is not at its largest value yet.
\<close>

theorem socket_registry_invariant:
  assumes "sockInv reg" and "nextSock reg < 2 ^ 31 - 1" and "freshFd op reg"
  shows "sockInv (snd (sockExec inet h c op reg)) \<and> sockInv (closeAllOwnedBy h ob reg) \<and>
    sockInv (forceRemove k reg) \<and> sockInv (cancelRelease k reg) \<and> sockInv emptyRegistry"
proof (intro conjI)
  show "sockInv (snd (sockExec inet h c op reg))"
    using assms
    by (cases op) (simp_all add: sockInv_create sockInv_accept sockInv_ops sockInv_acquire)
  show "sockInv emptyRegistry" by (rule sockInv_empty)
qed (simp_all add: assms sockInv_closeAll sockInv_remove sockInv_cancel)

theorem socket_registry_invariant_witness:
  "sockInv (snd (sockExec (\<lambda>_. None) Map.empty None
     (OpCreate \<lparr>osFd = 9, osSetsockopt = True, osNonBlock = True\<rparr> 1 (mkValue VVoid) (mkValue VVoid)) emptyRegistry))"
proof -
  show ?thesis
    using socket_registry_invariant[OF sockInv_empty, of "OpCreate \<lparr>osFd = 9, osSetsockopt = True, osNonBlock = True\<rparr> 1 (mkValue VVoid) (mkValue VVoid)"
        "\<lambda>_. None" Map.empty None] by (simp add: emptyRegistry_def)
qed

text \<open>
  Writing text on a connected stream: on success everything is with the kernel, on the "wait for callback" answer
  a part is and the rest is kept for later, in either case nothing is lost, duplicated or reordered; a fatal error
  takes the socket out of the registry, and every other error leaves it as it was.
\<close>

theorem socket_write_conserves:
  assumes "sockInv reg" and "sockets reg k = Some s" and "sockMode s \<noteq> Datagram"
    and "socketWrite inet os (mkValue (VStr text)) a ha k c h reg = (rc, reg')"
  shows "(rc = SockSuccess \<or> rc = ECallback \<longrightarrow>
      (\<exists>s'. sockets reg' k = Some s' \<and> sockSent s' @ pendingWrite s' = sockSent s @ text \<and>
         (rc = ECallback \<longleftrightarrow> pendingWrite s' \<noteq> []) \<and> (rc = ECallback \<longleftrightarrow> blocked s'))) \<and>
    (rc = ESend \<longrightarrow> sockets reg' k = None) \<and>
    (rc \<noteq> SockSuccess \<and> rc \<noteq> ECallback \<and> rc \<noteq> ESend \<longrightarrow> reg' = reg)"
proof -
  have ok: "sockOk (nextSock reg) k s" by (rule sockInvD[OF assms(1,2)])
  then have b: "\<not> blocked s \<Longrightarrow> pendingWrite s = []" by (auto simp: sockOk_def)
  have open': "sockState s \<noteq> Closed" using ok by (simp add: sockOk_def)
  show ?thesis
  proof (cases "lock h (sockOwner s) = c")
    case True
    let ?w = "socketWrite inet os (mkValue (VStr text)) a ha k c h reg"
    have e: "?w =
       (if sockState s \<noteq> DataXfer then (ENotConn, reg) else if ha then (EBadAddr, reg)
        else if blocked s then (EAlready, reg) else if text = [] then (SockSuccess, reg)
        else (case os of
                WriteError e \<Rightarrow> if e = SeAgain \<or> e = SeWouldBlock then (EWouldBlock, reg)
                                else if e = SeIntr then (EIntr, reg) else (ESend, forceRemove k reg)
              | Wrote n \<Rightarrow> if n = 0 then (ESend, forceRemove k reg)
                  else if n < length text then (ECallback, putSock k
                          (s\<lparr>blocked := True, pendingWrite := drop n text, sockSent := sockSent s @ take n text\<rparr>) reg)
                  else (SockSuccess, putSock k (s\<lparr>sockSent := sockSent s @ text\<rparr>) reg)))"
      using True assms(2,3) open' by (simp add: socketWrite_def)
    have w: "rc = fst ?w" "reg' = snd ?w" using assms(4) by simp_all
    show ?thesis
    proof (cases "sockState s \<noteq> DataXfer \<or> ha \<or> blocked s \<or> text = []")
      case True
      then show ?thesis unfolding w e using assms(2) b
        by (cases "sockState s = DataXfer"; cases ha; cases "blocked s"; cases "text = []") simp_all
    next
      case False
      then show ?thesis unfolding w e using b by (cases os) simp_all
    qed
  next
    case False
    then have "socketWrite inet os (mkValue (VStr text)) a ha k c h reg = (ESecurity, reg)"
      using writeOp.op_foreign[OF assms(2) open'] by simp
    with assms(4) show ?thesis by simp
  qed
qed

theorem socket_write_conserves_witness:
  "fst (socketWrite (\<lambda>_. None) (Wrote 2) (mkValue (VStr ''abc'')) [] False 0 (Some 1) [1 \<mapsto> newLpcObject ''/a'' 0 0 True 0]
     (putSock 0 ((newLpcSocket 0 9 Stream (Some 1))\<lparr>sockState := DataXfer\<rparr>)
        (emptyRegistry\<lparr>nextSock := 1, openFds := {9}\<rparr>))) = ECallback"
proof -
  let ?s = "(newLpcSocket 0 9 Stream (Some 1))\<lparr>sockState := DataXfer\<rparr>"
  let ?reg = "putSock 0 ?s (emptyRegistry\<lparr>nextSock := 1, openFds := {9}\<rparr>)"
  let ?h = "[1 \<mapsto> newLpcObject ''/a'' 0 0 True 0]"
  have "sockInv ?reg"
    using sockInv_add[OF sockInv_empty, of 9 ?s]
    by (simp add: emptyRegistry_def newLpcSocket_def sockOk_def nextHandle_id)
  moreover have "sockets ?reg 0 = Some ?s" by simp
  moreover have "sockMode ?s \<noteq> Datagram" by (simp add: newLpcSocket_def)
  ultimately show ?thesis
    using socket_write_conserves[of ?reg 0 ?s "\<lambda>_. None" "Wrote 2" "''abc''" "[]" False "Some 1" ?h
        "fst (socketWrite (\<lambda>_. None) (Wrote 2) (mkValue (VStr ''abc'')) [] False 0 (Some 1) ?h ?reg)"
        "snd (socketWrite (\<lambda>_. None) (Wrote 2) (mkValue (VStr ''abc'')) [] False 0 (Some 1) ?h ?reg)"]
    by (simp add: socketWrite_def newLpcSocket_def lock_def)
qed

end
