(* ===== verification/Mud_Frames.thy ===== *)
theory Mud_Frames
  imports Sockets WebSocket
begin

text \<open>
  The framing of MUD-mode sockets: the sending side in the \<^verbatim>\<open>socket_write\<close> efun of
  \<^verbatim>\<open>src/efun/EfunTable.cpp\<close> (a 4-byte length in network order, the saved value, a NUL byte) and the
  receiving side in \<^verbatim>\<open>Server::pollSockets\<close> of \<^verbatim>\<open>src/net/Server.cpp\<close>, which reassembles frames from reads of any
  size. The text of a frame is handed to \<^verbatim>\<open>parseRestoreVariableTopLevel\<close> and the read callback; here the texts are
  the result.
\<close>

section \<open>Sending\<close>

definition htonl :: "nat \<Rightarrow> byte list" where
  "htonl n = map (len_byte n) [3, 2, 1, 0]"

text \<open>The length counts the closing NUL and is cut to 32 bits.\<close>

definition mudFrame :: "byte list \<Rightarrow> byte list" where
  "mudFrame body = htonl ((length body + 1) mod 2 ^ 32) @ body @ [0]"

section \<open>Receiving\<close>

definition kMudMaxByteTransfer :: nat where
  "kMudMaxByteTransfer = 1000000"

definition ntohl :: "byte list \<Rightarrow> nat" where
  "ntohl bs = foldl (\<lambda>a b. 256 * a + unat b) 0 bs"

text \<open>
  The reassembly fields of the socket: whether a header is awaited, the header bytes received so
  far, the announced length and the body bytes received so far.
\<close>

record mud_input =
  waitingForHeader :: bool
  headerGot :: "byte list"
  readLen :: nat
  readGot :: "byte list"

definition newMudInput :: mud_input where
  "newMudInput = \<lparr>waitingForHeader = True, headerGot = [], readLen = 0, readGot = []\<rparr>"

definition stripNuls :: "byte list \<Rightarrow> byte list" where
  "stripNuls p = rev (dropWhile (\<lambda>b. b = 0) (rev p))"

text \<open>
  One pass of the loop's body part: the body bytes of this read are taken; a complete body is delivered and the fields are
  reset. \<open>deliver\<close> continues with the rest of the read.
\<close>

datatype mud_result = MudResult (mudTexts: "byte list list") (mudState: mud_input) (mudClosed: bool)

definition consText :: "byte list \<Rightarrow> mud_result \<Rightarrow> mud_result" where
  "consText t r = MudResult (t # mudTexts r) (mudState r) (mudClosed r)"

definition takeHeader :: "mud_input \<Rightarrow> byte list \<Rightarrow> mud_input \<times> byte list" where
  "takeHeader m bs =
     (let n = 4 - length (headerGot m) in (m\<lparr>headerGot := headerGot m @ take n bs\<rparr>, drop n bs))"

definition takeBody :: "mud_input \<Rightarrow> byte list \<Rightarrow> mud_input \<times> byte list" where
  "takeBody m bs =
     (let n = readLen m - length (readGot m) in (m\<lparr>readGot := readGot m @ take n bs\<rparr>, drop n bs))"

function mudLoop :: "mud_input \<Rightarrow> byte list \<Rightarrow> mud_result" where
  "mudLoop m bs =
     (if bs = [] then MudResult [] m False
      else if waitingForHeader m then
        let (m1, bs1) = takeHeader m bs in
        if length (headerGot m1) < 4 then MudResult [] m1 False
        else
          let len = ntohl (headerGot m1);
              m2 = \<lparr>waitingForHeader = False, headerGot = [], readLen = len, readGot = []\<rparr>
          in if len = 0 \<or> len > kMudMaxByteTransfer then MudResult [] m2 True
             else
               let (m3, bs3) = takeBody m2 bs1 in
               if length (readGot m3) < readLen m3 then MudResult [] m3 False
               else consText (stripNuls (readGot m3)) (mudLoop newMudInput bs3)
      else
        let (m3, bs3) = takeBody m bs in
        if length (readGot m3) < readLen m3 then MudResult [] m3 False
        else consText (stripNuls (readGot m3))
               (mudLoop \<lparr>waitingForHeader = True, headerGot = headerGot m, readLen = 0, readGot = []\<rparr> bs3))"
  by pat_completeness auto
termination
proof (relation "measure (\<lambda>(m, bs). 2 * length bs + (if waitingForHeader m then 0 else 1))", goal_cases)
  case 1
  show ?case by simp
qed (auto simp: takeHeader_def takeBody_def Let_def newMudInput_def split: if_splits)
declare mudLoop.simps [simp del]

section \<open>A byte at a time\<close>

text \<open>The reference: the same protocol as a state machine over single bytes.\<close>

definition mudByte :: "mud_input \<Rightarrow> byte \<Rightarrow> byte list option \<times> mud_input \<times> bool" where
  "mudByte m b =
     (if waitingForHeader m then
        let hg = headerGot m @ [b];
            m2 = \<lparr>waitingForHeader = False, headerGot = [], readLen = ntohl hg, readGot = []\<rparr>
        in if length hg < 4 then (None, m\<lparr>headerGot := hg\<rparr>, False)
           else (None, m2, ntohl hg = 0 \<or> ntohl hg > kMudMaxByteTransfer)
      else
        let g = readGot m @ [b] in
        if length g < readLen m then (None, m\<lparr>readGot := g\<rparr>, False)
        else (Some (stripNuls g), newMudInput, False))"

fun mudFold :: "mud_input \<Rightarrow> byte list \<Rightarrow> mud_result" where
  "mudFold m [] = MudResult [] m False"
| "mudFold m (b # bs) =
     (case mudByte m b of
        (_, m', True) \<Rightarrow> MudResult [] m' True
      | (None, m', False) \<Rightarrow> mudFold m' bs
      | (Some t, m', False) \<Rightarrow> consText t (mudFold m' bs))"

definition mudWf :: "mud_input \<Rightarrow> bool" where
  "mudWf m \<longleftrightarrow>
     length (headerGot m) < 4 \<and> (\<not> waitingForHeader m \<longrightarrow> headerGot m = [] \<and> length (readGot m) < readLen m)"

section \<open>Lemmas\<close>

lemma mudFold_part_header:
  "waitingForHeader m \<Longrightarrow> length (headerGot m) + length bs < 4 \<Longrightarrow>
   mudFold m bs = MudResult [] (m\<lparr>headerGot := headerGot m @ bs\<rparr>) False"
  by (induction bs arbitrary: m) (simp_all add: mudByte_def)

lemma mudFold_header:
  assumes "waitingForHeader m" and "length (headerGot m) + length hs = 4" and "hs \<noteq> []"
  shows "mudFold m (hs @ bs) =
    (let len = ntohl (headerGot m @ hs);
         m2 = \<lparr>waitingForHeader = False, headerGot = [], readLen = len, readGot = []\<rparr>
     in if len = 0 \<or> len > kMudMaxByteTransfer then MudResult [] m2 True else mudFold m2 bs)"
  using assms
proof (induction hs arbitrary: m)
  case (Cons b hs)
  show ?case
  proof (cases "hs = []")
    case True
    with Cons.prems show ?thesis
      by (cases "ntohl (headerGot m @ [b]) = 0 \<or> ntohl (headerGot m @ [b]) > kMudMaxByteTransfer")
        (simp_all add: mudByte_def Let_def)
  next
    case False
    with Cons.prems have "mudByte m b = (None, m\<lparr>headerGot := headerGot m @ [b]\<rparr>, False)"
      by (cases hs) (simp_all add: mudByte_def)
    with Cons.IH[of "m\<lparr>headerGot := headerGot m @ [b]\<rparr>"] Cons.prems False show ?thesis by simp
  qed
qed simp

lemma mudFold_part_body:
  "\<not> waitingForHeader m \<Longrightarrow> length (readGot m) + length bs < readLen m \<Longrightarrow>
   mudFold m bs = MudResult [] (m\<lparr>readGot := readGot m @ bs\<rparr>) False"
  by (induction bs arbitrary: m) (simp_all add: mudByte_def)

lemma mudFold_body:
  assumes "\<not> waitingForHeader m" and "length (readGot m) + length xs = readLen m" and "xs \<noteq> []"
  shows "mudFold m (xs @ bs) = consText (stripNuls (readGot m @ xs)) (mudFold newMudInput bs)"
  using assms
proof (induction xs arbitrary: m)
  case (Cons b xs)
  show ?case
  proof (cases "xs = []")
    case True
    with Cons.prems show ?thesis by (simp add: mudByte_def)
  next
    case False
    with Cons.prems have "mudByte m b = (None, m\<lparr>readGot := readGot m @ [b]\<rparr>, False)"
      by (cases xs) (simp_all add: mudByte_def)
    with Cons.IH[of "m\<lparr>readGot := readGot m @ [b]\<rparr>"] Cons.prems False show ?thesis by simp
  qed
qed simp

lemma mudWf_new: "mudWf newMudInput"
  by (simp add: mudWf_def newMudInput_def)

lemma mudFold_wf: "mudWf m \<Longrightarrow> \<not> mudClosed (mudFold m bs) \<Longrightarrow> mudWf (mudState (mudFold m bs))"
proof (induction bs arbitrary: m)
  case (Cons b bs)
  obtain t m' cl where step: "mudByte m b = (t, m', cl)" by (cases "mudByte m b")
  have "cl = False" using Cons.prems(2) step by (cases cl; cases t) auto
  then have "mudWf m'"
    using Cons.prems(1) step
    by (auto simp: mudByte_def mudWf_def newMudInput_def Let_def split: if_splits)
  with Cons step \<open>cl = False\<close> show ?case by (cases t) (auto simp: consText_def)
qed simp

lemma mudFold_append:
  "mudFold m (a @ b) =
     (let r = mudFold m a; r' = mudFold (mudState r) b in
      if mudClosed r then r else MudResult (mudTexts r @ mudTexts r') (mudState r') (mudClosed r'))"
proof (induction a arbitrary: m)
  case Nil
  show ?case by simp
next
  case (Cons x a)
  obtain t m' cl where step: "mudByte m x = (t, m', cl)" by (cases "mudByte m x")
  with Cons[of m'] show ?case by (cases cl; cases t) (auto simp: consText_def Let_def)
qed

text \<open>The loop over a read computes what the byte machine computes.\<close>

lemma takeBody_fold:
  assumes "\<not> waitingForHeader m" and "headerGot m = []" and "length (readGot m) < readLen m"
  shows "mudFold m bs =
    (let (m3, bs3) = takeBody m bs in
     if length (readGot m3) < readLen m3 then MudResult [] m3 False
     else consText (stripNuls (readGot m3)) (mudFold newMudInput bs3))"
proof -
  let ?n = "readLen m - length (readGot m)"
  show ?thesis
  proof (cases "length bs < ?n")
    case True
    then have "length (readGot m) + length bs < readLen m" by simp
    then show ?thesis using assms mudFold_part_body[of m bs] by (simp add: takeBody_def Let_def)
  next
    case False
    then have "bs = take ?n bs @ drop ?n bs" "length (readGot m) + length (take ?n bs) = readLen m" "take ?n bs \<noteq> []"
      using assms(3) by auto
    with mudFold_body[OF assms(1), of "take ?n bs" "drop ?n bs"] assms(3) show ?thesis
      by (simp add: takeBody_def Let_def)
  qed
qed

lemma mudLoop_fold: "mudWf m \<Longrightarrow> mudLoop m bs = mudFold m bs"
proof (induction m bs rule: mudLoop.induct)
  case (1 m bs)
  show ?case
  proof (cases "bs = []")
    case True
    then show ?thesis by (simp add: mudLoop.simps)
  next
    case nonempty: False
    show ?thesis
    proof (cases "waitingForHeader m")
      case False
      have wf: "headerGot m = []" "length (readGot m) < readLen m" using "1.prems" False by (auto simp: mudWf_def)
      obtain m3 bs3 where b: "takeBody m bs = (m3, bs3)" by fastforce
      have n: "\<lparr>waitingForHeader = True, headerGot = headerGot m, readLen = 0, readGot = []\<rparr> = newMudInput"
        using wf by (simp add: newMudInput_def)
      have "mudLoop newMudInput bs3 = mudFold newMudInput bs3" if "\<not> length (readGot m3) < readLen m3"
        using "1.IH"(2)[OF nonempty False b[symmetric] refl that] n mudWf_new by simp
      with takeBody_fold[OF False wf, of bs] nonempty False b n show ?thesis by (simp add: mudLoop.simps[of m bs])
    next
      case True
      let ?k = "4 - length (headerGot m)"
      have lt: "length (headerGot m) < 4" using "1.prems" by (simp add: mudWf_def)
      show ?thesis
      proof (cases "length bs < ?k")
        case short: True
        then have "length (headerGot m) + length bs < 4" by simp
        then show ?thesis using mudFold_part_header[OF True, of bs] nonempty True short
          by (simp add: mudLoop.simps[of m bs] takeHeader_def Let_def)
      next
        case False
        let ?h = "headerGot m @ take ?k bs"
        let ?m2 = "\<lparr>waitingForHeader = False, headerGot = [], readLen = ntohl ?h, readGot = []\<rparr>"
        have h: "takeHeader m bs = (m\<lparr>headerGot := ?h\<rparr>, drop ?k bs)" by (simp add: takeHeader_def Let_def)
        have four: "length (headerGot m) + length (take ?k bs) = 4" "take ?k bs \<noteq> []" using False lt by auto
        have f: "mudFold m bs = (if ntohl ?h = 0 \<or> ntohl ?h > kMudMaxByteTransfer then MudResult [] ?m2 True
            else mudFold ?m2 (drop ?k bs))"
          using mudFold_header[OF True four, of "drop ?k bs"] by (simp add: Let_def)
        show ?thesis
        proof (cases "ntohl ?h = 0 \<or> ntohl ?h > kMudMaxByteTransfer")
          case bad: True
          then show ?thesis unfolding f using nonempty True four h by (simp add: mudLoop.simps[of m bs])
        next
          case good: False
          obtain m3 bs3 where b: "takeBody ?m2 (drop ?k bs) = (m3, bs3)" by fastforce
          have "mudLoop newMudInput bs3 = mudFold newMudInput bs3" if "\<not> length (readGot m3) < readLen m3"
            using "1.IH"(1)[OF nonempty True h[symmetric] refl] b four good that mudWf_new by simp
          with good takeBody_fold[of ?m2 "drop ?k bs"] b show ?thesis
            unfolding f using nonempty True four h by (simp add: mudLoop.simps[of m bs])
        qed
      qed
    qed
  qed
qed

lemma ntohl_fold:
  "foldl (\<lambda>a b. 256 * a + unat b) (n div 2 ^ (8 * k)) (map (len_byte n) (rev [0..<k])) = n"
proof (induction k)
  case 0
  show ?case by simp
next
  case (Suc k)
  have "(2 :: nat) ^ (8 * Suc k) = 2 ^ (8 * k) * 256" by (simp add: power_add)
  then have "n div 2 ^ (8 * Suc k) = n div 2 ^ (8 * k) div 256" by (simp only: div_mult2_eq)
  then have "256 * (n div 2 ^ (8 * Suc k)) + unat (len_byte n k) = n div 2 ^ (8 * k)"
    by (simp add: unat_len_byte)
  with Suc show ?case by (simp del: mult_Suc_right)
qed

lemma ntohl_htonl: "n < 2 ^ 32 \<Longrightarrow> ntohl (htonl n) = n"
proof -
  assume "n < 2 ^ 32"
  moreover have "rev [0..<4] = [3, 2, 1, 0 :: nat]" by (simp add: upt_rec)
  ultimately show ?thesis using ntohl_fold[of n 4] by (simp add: ntohl_def htonl_def)
qed

lemma stripNuls_frame: "body = [] \<or> last body \<noteq> 0 \<Longrightarrow> stripNuls (body @ [0]) = body"
  by (cases body rule: rev_cases) (simp_all add: stripNuls_def)

lemma mudFold_frame:
  assumes "length body + 1 \<le> kMudMaxByteTransfer" and "body = [] \<or> last body \<noteq> 0"
  shows "mudFold newMudInput (mudFrame body @ rest) = consText body (mudFold newMudInput rest)"
proof -
  let ?n = "length body + 1"
  have small: "?n < 2 ^ 32" using assms(1) by (simp add: kMudMaxByteTransfer_def)
  let ?m2 = "\<lparr>waitingForHeader = False, headerGot = [], readLen = ?n, readGot = []\<rparr>"
  have "mudFold newMudInput (htonl ?n @ (body @ [0]) @ rest) = mudFold ?m2 ((body @ [0]) @ rest)"
    using mudFold_header[of newMudInput "htonl ?n" "(body @ [0]) @ rest"] ntohl_htonl[OF small] assms(1)
    by (simp add: newMudInput_def htonl_def Let_def)
  also have "\<dots> = consText (stripNuls (body @ [0])) (mudFold newMudInput rest)"
    using mudFold_body[of ?m2 "body @ [0]" rest] by simp
  finally show ?thesis using small by (simp add: mudFrame_def stripNuls_frame[OF assms(2)])
qed

lemma mudFold_frames:
  "(\<forall>b\<in>set bodies. length b + 1 \<le> kMudMaxByteTransfer \<and> (b = [] \<or> last b \<noteq> 0)) \<Longrightarrow>
   mudFold newMudInput (concat (map mudFrame bodies)) = MudResult bodies newMudInput False"
  by (induction bodies) (simp_all add: mudFold_frame consText_def)

section \<open>Properties\<close>

text \<open>A sequence of reads of one socket: the loop runs on each, from the fields the last one left, until the connection is closed.\<close>

fun mudReads :: "mud_input \<Rightarrow> byte list list \<Rightarrow> mud_result" where
  "mudReads m [] = MudResult [] m False"
| "mudReads m (r # rs) =
     (let x = mudLoop m r; y = mudReads (mudState x) rs in
      if mudClosed x then x else MudResult (mudTexts x @ mudTexts y) (mudState y) (mudClosed y))"

lemma mudReads_fold: "mudWf m \<Longrightarrow> mudReads m rs = mudFold m (concat rs)"
proof (induction rs arbitrary: m)
  case (Cons r rs)
  have "mudReads (mudState (mudFold m r)) rs = mudFold (mudState (mudFold m r)) (concat rs)" if "\<not> mudClosed (mudFold m r)"
    using Cons.IH mudFold_wf[OF Cons.prems that] by blast
  then show ?case by (simp add: mudLoop_fold[OF Cons.prems] mudFold_append Let_def)
qed simp

text \<open>
  C23. MUD messages survive the network: whatever messages (up to a million bytes with the NUL, not ending in a
  NUL) are framed by \<^verbatim>\<open>socket_write\<close> and however the stream is cut into reads, any number of them and of any size, also
  inside a length field, the receiver delivers exactly these messages, in order, keeps the connection open and ends up
  waiting for the next header.
\<close>

theorem mud_frames_roundtrip:
  assumes "\<forall>b\<in>set bodies. length b + 1 \<le> kMudMaxByteTransfer \<and> (b = [] \<or> last b \<noteq> 0)"
    and "concat reads = concat (map mudFrame bodies)"
  shows "mudReads newMudInput reads = MudResult bodies newMudInput False"
  unfolding mudReads_fold[OF mudWf_new] assms(2) by (rule mudFold_frames[OF assms(1)])

theorem mud_frames_roundtrip_witness:
  "mudReads newMudInput [[0, 0], [0], [3, 104, 105, 0, 0, 0], [0, 1, 0]] = MudResult [[104, 105], []] newMudInput False"
  using mud_frames_roundtrip[of "[[104, 105], []]" "[[0, 0], [0], [3, 104, 105, 0, 0, 0], [0, 1, 0]]"]
  by (simp add: kMudMaxByteTransfer_def mudFrame_def htonl_def len_byte_def)

end
