(* ===== verification/Save_Variable.thy ===== *)
theory Save_Variable
  imports Lpc_Value
begin

text \<open>
  \<^verbatim>\<open>src/vm/SaveVariable.cpp\<close>: writing LPC values as text and reading them back, the format of
  \<^verbatim>\<open>save_object\<close>, \<^verbatim>\<open>save_variable\<close> and MUD sockets. Values are trees here: arrays and mappings by
  content (a null array or mapping is an empty one; a cyclic value has no text). The readers
  work on the rest of the text, \<^verbatim>\<open>s\<close> from \<^verbatim>\<open>pos\<close> on. The reader of nested values need not end on text
  that the writer did not produce: it takes fuel, and \<^const>\<open>None\<close> means that the fuel was not enough.
\<close>

section \<open>Values\<close>

text \<open>
  A mapping has a width and rows of a key, the first column and the extra columns (one fewer than
  the width). \<open>SOther\<close> stands for the kinds the writer skips: objects, closures, symbols, buffers, nil.
\<close>

datatype sval =
    SVoid
  | SInt int
  | SFloat double
  | SStr string
  | SArr "sval list"
  | SMap nat "(sval \<times> sval \<times> sval list) list"
  | SOther

abbreviation "chQuote \<equiv> CHR 0x22"
abbreviation "chBackslash \<equiv> CHR 0x5C"
abbreviation "chCr \<equiv> CHR 0x0D"
abbreviation "chNl \<equiv> CHR 0x0A"

section \<open>Writing\<close>

fun writeChar :: "char \<Rightarrow> string" where
  "writeChar c =
     (if c = chQuote \<or> c = chBackslash then [chBackslash, c]
      else if c = chNl then [chCr] else [c])"

declare writeChar.simps [simp del]

text \<open>The buffer of the number formatter holds 63 characters; \<^verbatim>\<open>snprintf\<close> cuts the rest off.\<close>

definition writeFloat :: "double \<Rightarrow> string" where
  "writeFloat d = take 63 (fmt_f d)"

fun writeRealSaveValue :: "sval \<Rightarrow> string" where
  "writeRealSaveValue SVoid = ''0''"
| "writeRealSaveValue (SInt i) = to_string i"
| "writeRealSaveValue (SFloat d) = writeFloat d"
| "writeRealSaveValue (SStr s) = [chQuote] @ concat (map writeChar s) @ [chQuote]"
| "writeRealSaveValue (SArr vs) = ''({'' @ concat (map (\<lambda>v. writeRealSaveValue v @ '','') vs) @ ''})''"
| "writeRealSaveValue (SMap w rows) =
     ''(['' @ concat (map (\<lambda>(k, v, ex). writeRealSaveValue k @ '':'' @ writeRealSaveValue v @
                                     concat (map (\<lambda>x. '';'' @ writeRealSaveValue x) ex) @ '','') rows) @ ''])''"
| "writeRealSaveValue SOther = ''''"

section \<open>Reading nested values\<close>

fun parseRealSaveString :: "string \<Rightarrow> string \<times> string" where
  "parseRealSaveString [] = ([], [])"
| "parseRealSaveString (c # cs) =
     (if c = chQuote then ([], cs)
      else if c = chBackslash then
        (case cs of [] \<Rightarrow> ([c], []) | d # ds \<Rightarrow> (let (r, rest) = parseRealSaveString ds in (d # r, rest)))
      else let (r, rest) = parseRealSaveString cs in ((if c = chCr then chNl else c) # r, rest))"

text \<open>The longest sign, digits, point and digits; a point makes it a float.\<close>

definition numberToken :: "string \<Rightarrow> string \<times> bool \<times> string" where
  "numberToken s =
     (let sg = (if s \<noteq> [] \<and> hd s = CHR ''-'' then ''-'' else '''');
          s1 = drop (length sg) s;
          ip = takeWhile isdigit s1;
          s2 = drop (length ip) s1
      in if s2 \<noteq> [] \<and> hd s2 = CHR ''.''
         then let fp = takeWhile isdigit (tl s2) in (sg @ ip @ ''.'' @ fp, True, drop (length fp) (tl s2))
         else (sg @ ip, False, s2))"

definition numberValue :: "string \<Rightarrow> bool \<Rightarrow> sval res" where
  "numberValue token isFloat =
     (if isFloat then res_bind (stod token) (\<lambda>d. Inr (SFloat d))
      else res_bind (stoll token) (\<lambda>i. Inr (SInt i)))"

definition parseRealSaveNumber :: "string \<Rightarrow> (sval \<times> string) res" where
  "parseRealSaveNumber s =
     (case numberToken s of (token, isFloat, rest) \<Rightarrow> res_bind (numberValue token isFloat) (\<lambda>v. Inr (v, rest)))"

text \<open>Results that may run out of fuel.\<close>

definition fuel_bind :: "'a res option \<Rightarrow> ('a \<Rightarrow> 'b res option) \<Rightarrow> 'b res option" where
  "fuel_bind m f = (case m of None \<Rightarrow> None | Some (Inl e) \<Rightarrow> Some (Inl e) | Some (Inr x) \<Rightarrow> f x)"

definition skipChar :: "char \<Rightarrow> string \<Rightarrow> string" where
  "skipChar c s = (if s \<noteq> [] \<and> hd s = c then tl s else s)"

text \<open>
  The width of a mapping is that of its widest row; shorter rows are filled up with 0.
\<close>

definition mapWidth :: "(sval \<times> sval \<times> sval list) list \<Rightarrow> nat" where
  "mapWidth rows = foldl (\<lambda>w (k, v, ex). max w (1 + length ex)) 1 rows"

definition buildMap :: "(sval \<times> sval \<times> sval list) list \<Rightarrow> sval" where
  "buildMap rows =
     (let w = mapWidth rows in
      SMap w (map (\<lambda>(k, v, ex). (k, v, ex @ replicate (w - 1 - length ex) (SInt 0))) rows))"

fun parseRealSaveValue :: "nat \<Rightarrow> string \<Rightarrow> (sval \<times> string) res option"
  and arrayLoop :: "nat \<Rightarrow> string \<Rightarrow> (sval list \<times> string) res option"
  and mapLoop :: "nat \<Rightarrow> string \<Rightarrow> ((sval \<times> sval \<times> sval list) list \<times> string) res option"
  and extraLoop :: "nat \<Rightarrow> string \<Rightarrow> (sval list \<times> string) res option" where
  "parseRealSaveValue 0 s = None"
| "parseRealSaveValue (Suc f) s =
     (case s of
        [] \<Rightarrow> Some (Inr (SInt 0, []))
      | c # cs \<Rightarrow>
          if c = chQuote then (let (t, rest) = parseRealSaveString cs in Some (Inr (SStr t, rest)))
          else if c = CHR ''('' then
            (case cs of
               [] \<Rightarrow> Some (Inl (LpcRuntimeError ''restore_object: class-typed save data is not supported''))
             | d # ds \<Rightarrow>
                 if d = CHR ''{'' then
                   fuel_bind (arrayLoop f ds) (\<lambda>(vs, rest). Some (Inr (SArr vs, skipChar (CHR '')'') (drop 1 rest))))
                 else if d = CHR ''['' then
                   fuel_bind (mapLoop f ds) (\<lambda>(rows, rest). Some (Inr (buildMap rows, skipChar (CHR '')'') (drop 1 rest))))
                 else Some (Inl (LpcRuntimeError ''restore_object: class-typed save data is not supported'')))
          else if c = CHR ''-'' \<or> isdigit c then Some (parseRealSaveNumber s)
          else Some (Inr (SInt 0, s)))"
| "arrayLoop 0 s = None"
| "arrayLoop (Suc f) s =
     (if s = [] \<or> hd s = CHR ''}'' then Some (Inr ([], s))
      else if hd s = CHR '','' then
        fuel_bind (arrayLoop f (tl s)) (\<lambda>(vs, rest). Some (Inr (SInt 0 # vs, rest)))
      else
        fuel_bind (parseRealSaveValue f s) (\<lambda>(v, r).
          fuel_bind (arrayLoop f (skipChar (CHR '','') r)) (\<lambda>(vs, rest). Some (Inr (v # vs, rest)))))"
| "mapLoop 0 s = None"
| "mapLoop (Suc f) s =
     (if s = [] \<or> hd s = CHR '']'' then Some (Inr ([], s))
      else
        fuel_bind (parseRealSaveValue f s) (\<lambda>(k, r1).
          fuel_bind (parseRealSaveValue f (skipChar (CHR '':'') r1)) (\<lambda>(v, r2).
            fuel_bind (extraLoop f r2) (\<lambda>(ex, r3).
              fuel_bind (mapLoop f (skipChar (CHR '','') r3)) (\<lambda>(rows, rest).
                Some (Inr ((k, v, ex) # rows, rest)))))))"
| "extraLoop 0 s = None"
| "extraLoop (Suc f) s =
     (if s \<noteq> [] \<and> hd s = CHR '';'' then
        fuel_bind (parseRealSaveValue f (tl s)) (\<lambda>(v, r).
          fuel_bind (extraLoop f r) (\<lambda>(vs, rest). Some (Inr (v # vs, rest))))
      else Some (Inr ([], s)))"

section \<open>Reading at the top level\<close>

definition illegalString :: exn where
  "illegalString = LpcRuntimeError ''restore_variable(): Illegal string format.''"

definition illegalNumber :: exn where
  "illegalNumber = LpcRuntimeError ''restore_variable(): Illegal numeric format.''"

fun restoreString :: "string \<Rightarrow> (string \<times> string) res" where
  "restoreString [] = Inl illegalString"
| "restoreString (c # cs) =
     (if c = chQuote then Inr ([], cs)
      else if c = chBackslash then
        (case cs of [] \<Rightarrow> Inl illegalString
         | d # ds \<Rightarrow> res_bind (restoreString ds) (\<lambda>(r, rest). Inr ((if d = chCr then chNl else d) # r, rest)))
      else res_bind (restoreString cs) (\<lambda>(r, rest). Inr ((if c = chCr then chNl else c) # r, rest)))"

text \<open>A top-level string must end with its closing quote.\<close>

definition parseRestoreVariableString :: "string \<Rightarrow> sval res" where
  "parseRestoreVariableString s =
     res_bind (restoreString s) (\<lambda>(r, rest). if rest \<noteq> [] then Inl illegalString else Inr (SStr r))"

definition parseRestoreVariableNumber :: "string \<Rightarrow> sval res" where
  "parseRestoreVariableNumber s =
     (if hd s = CHR ''-'' \<and> (tl s = [] \<or> \<not> isdigit (hd (tl s))) then Inl illegalNumber
      else (case numberToken s of (token, isFloat, rest) \<Rightarrow> numberValue token isFloat))"

definition parseRestoreVariableTopLevel :: "nat \<Rightarrow> string \<Rightarrow> sval res option" where
  "parseRestoreVariableTopLevel fuel s =
     (if s = [] then Some (Inr (SInt 0))
      else if hd s = chQuote then Some (parseRestoreVariableString (tl s))
      else if hd s = CHR ''-'' \<or> isdigit (hd s) then Some (parseRestoreVariableNumber s)
      else fuel_bind (parseRealSaveValue fuel s) (\<lambda>(v, rest). Some (Inr v)))"

section \<open>Lemmas: strings and numbers\<close>

lemma fuel_bind_simps [simp]:
  "fuel_bind None f = None"
  "fuel_bind (Some (Inl e)) f = Some (Inl e)"
  "fuel_bind (Some (Inr x)) f = f x"
  by (simp_all add: fuel_bind_def)

lemma parseRealSaveString_write:
  "chCr \<notin> set s \<Longrightarrow> parseRealSaveString (concat (map writeChar s) @ chQuote # rest) = (s, rest)"
  by (induction s) (auto simp: writeChar.simps)

lemma restoreString_write:
  "chCr \<notin> set s \<Longrightarrow> restoreString (concat (map writeChar s) @ chQuote # rest) = Inr (s, rest)"
  by (induction s) (auto simp: writeChar.simps)

text \<open>What may follow a value inside an array or a mapping.\<close>

definition delim :: "string \<Rightarrow> bool" where
  "delim rest \<longleftrightarrow> rest = [] \<or> hd rest \<in> {CHR '','', CHR '':'', CHR '';'', CHR ''}'', CHR '']''}"

lemma delim_simps [simp]:
  "delim (CHR '','' # r)" "delim (CHR '':'' # r)" "delim (CHR '';'' # r)" "delim (CHR ''}'' # r)" "delim (CHR '']'' # r)"
  "delim []"
  by (simp_all add: delim_def)

lemma delim_cases:
  "delim rest \<Longrightarrow> rest = [] \<or>
   (\<exists>c cs. rest = c # cs \<and> c \<noteq> chQuote \<and> c \<noteq> CHR ''('' \<and> c \<noteq> CHR ''-'' \<and> \<not> isdigit c)"
  by (cases rest) (auto simp: delim_def isdigit_def)

lemma delim_number: "delim rest \<Longrightarrow> rest = [] \<or> (\<not> isdigit (hd rest) \<and> hd rest \<noteq> CHR ''.'')"
  by (auto simp: delim_def isdigit_def)

lemma takeWhile_digits:
  assumes "\<forall>c\<in>set ds. isdigit c" and "rest = [] \<or> \<not> isdigit (hd rest)"
  shows "takeWhile isdigit (ds @ rest) = ds"
  using assms by (cases rest) (auto simp: takeWhile_append)

lemma numberToken_int:
  assumes "sg = [] \<or> sg = ''-''" and "ds \<noteq> []" and "\<forall>c\<in>set ds. isdigit c" and "delim rest"
  shows "numberToken (sg @ ds @ rest) = (sg @ ds, False, rest)"
proof -
  have t: "takeWhile isdigit (ds @ rest) = ds"
    by (rule takeWhile_digits) (use assms delim_number in auto)
  have h: "hd (ds @ rest) \<noteq> CHR ''-''" using assms(2,3) isdigit_props(2)[of "hd ds"] by (cases ds) auto
  have d: "rest = [] \<or> hd rest \<noteq> CHR ''.''" using delim_number[OF assms(4)] by auto
  from assms(1) show ?thesis
  proof
    assume "sg = []"
    with t h d show ?thesis by (auto simp: numberToken_def Let_def)
  next
    assume "sg = ''-''"
    with t d show ?thesis by (auto simp: numberToken_def Let_def)
  qed
qed

lemma numberToken_float:
  assumes "sg = [] \<or> sg = ''-''" and "ds \<noteq> []" and "\<forall>c\<in>set ds. isdigit c" and "\<forall>c\<in>set fs. isdigit c"
    and "delim rest"
  shows "numberToken (sg @ ds @ CHR ''.'' # fs @ rest) = (sg @ ds @ CHR ''.'' # fs, True, rest)"
proof -
  have p: "\<not> isdigit (CHR ''.'')" by (simp add: isdigit_def)
  have t: "takeWhile isdigit (ds @ CHR ''.'' # fs @ rest) = ds"
    by (rule takeWhile_digits) (use assms(3) p in auto)
  have u: "takeWhile isdigit (fs @ rest) = fs"
    by (rule takeWhile_digits) (use assms(4,5) delim_number in auto)
  have h: "hd (ds @ CHR ''.'' # fs @ rest) \<noteq> CHR ''-''"
    using assms(2,3) isdigit_props(2)[of "hd ds"] by (cases ds) auto
  from assms(1) show ?thesis
  proof
    assume "sg = []"
    with t u h show ?thesis by (auto simp: numberToken_def Let_def)
  next
    assume "sg = ''-''"
    with t u show ?thesis by (auto simp: numberToken_def Let_def)
  qed
qed

lemma to_string_shape:
  obtains sg ds where "to_string i = sg @ ds" "sg = [] \<or> sg = ''-''" "ds \<noteq> []" "\<forall>c\<in>set ds. isdigit c"
proof (cases "i < 0")
  case True
  then show thesis using that[of "''-''" "nat_to_string (nat (- i))"] by (simp add: to_string_def nat_to_string_digits)
next
  case False
  then show thesis using that[of "[]" "nat_to_string (nat i)"] by (simp add: to_string_def nat_to_string_digits)
qed

lemma isdigit_zero [simp]: "isdigit (CHR ''0'')"
  by (simp add: isdigit_def)

lemma pad_left_digits: "\<forall>c\<in>set s. isdigit c \<Longrightarrow> \<forall>c\<in>set (pad_left n (CHR ''0'') s). isdigit c"
  by (auto simp: pad_left_def)

lemma fmt_f_shape:
  assumes "dbl_is_finite d"
  obtains sg ds fs where "fmt_f d = sg @ ds @ CHR ''.'' # fs" "sg = [] \<or> sg = ''-''" "ds \<noteq> []"
    "\<forall>c\<in>set ds. isdigit c" "\<forall>c\<in>set fs. isdigit c"
proof -
  obtain p q where pq: "dbl_ratio d = (p, q)" by fastforce
  let ?n = "div_round (p * 10 ^ 6) q"
  have nan: "\<not> dbl_is_nan d" using assms by (simp add: dbl_is_nan_def dbl_is_finite_def)
  show thesis
  proof (rule that)
    show "fmt_f d = (if dbl_sign d then ''-'' else []) @ nat_to_string (?n div 10 ^ 6) @
        CHR ''.'' # pad_left 6 (CHR ''0'') (nat_to_string (?n mod 10 ^ 6))"
      using assms nan pq by (simp add: fmt_f_def Let_def)
  qed (auto simp: nat_to_string_digits pad_left_def)
qed

section \<open>Lemmas: reading back what was written\<close>

text \<open>
  Values that survive: integers of 64 bits, strings without carriage returns, finite floats whose
  text fits the buffer, mappings whose rows have the width of the mapping.
\<close>

fun svalOk :: "sval \<Rightarrow> bool" where
  "svalOk SVoid = True"
| "svalOk (SInt i) = int64_range i"
| "svalOk (SFloat d) = (dbl_is_finite d \<and> length (fmt_f d) \<le> 63 \<and> \<not> isl (stod (fmt_f d)))"
| "svalOk (SStr s) = (chCr \<notin> set s)"
| "svalOk (SArr vs) = (\<forall>v\<in>set vs. svalOk v)"
| "svalOk (SMap w rows) =
     (1 \<le> w \<and> (\<forall>(k, v, ex)\<in>set rows. svalOk k \<and> svalOk v \<and> length ex = w - 1 \<and> (\<forall>x\<in>set ex. svalOk x)))"
| "svalOk SOther = True"

text \<open>What is read: void and unsaved kinds become 0, a float is what its six decimals say, an empty mapping has width 1.\<close>

fun reread :: "sval \<Rightarrow> sval" where
  "reread SVoid = SInt 0"
| "reread (SInt i) = SInt i"
| "reread (SFloat d) = SFloat (case stod (fmt_f d) of Inr x \<Rightarrow> x | Inl _ \<Rightarrow> 0)"
| "reread (SStr s) = SStr s"
| "reread (SArr vs) = SArr (map reread vs)"
| "reread (SMap w rows) =
     SMap (if rows = [] then 1 else w) (map (\<lambda>(k, v, ex). (reread k, reread v, map reread ex)) rows)"
| "reread SOther = SInt 0"

fun fuelFor :: "sval \<Rightarrow> nat" where
  "fuelFor (SArr vs) = 2 + sum_list (map (\<lambda>v. Suc (fuelFor v)) vs)"
| "fuelFor (SMap w rows) =
     2 + sum_list (map (\<lambda>(k, v, ex). Suc (fuelFor k) + Suc (fuelFor v) + Suc (sum_list (map (\<lambda>x. Suc (fuelFor x)) ex))) rows)"
| "fuelFor _ = 1"

lemma write_head:
  assumes "svalOk v" and "v \<noteq> SOther"
  obtains c cs where "writeRealSaveValue v = c # cs" "c = chQuote \<or> c = CHR ''('' \<or> c = CHR ''-'' \<or> isdigit c"
proof (cases v)
  case (SInt i)
  obtain sg ds where "to_string i = sg @ ds" "sg = [] \<or> sg = ''-''" "ds \<noteq> []" "\<forall>c\<in>set ds. isdigit c"
    by (rule to_string_shape)
  then show thesis using that SInt by (cases ds) auto
next
  case (SFloat d)
  then have "dbl_is_finite d" using assms(1) by simp
  then obtain sg ds fs where "fmt_f d = sg @ ds @ CHR ''.'' # fs" "sg = [] \<or> sg = ''-''" "ds \<noteq> []" "\<forall>c\<in>set ds. isdigit c"
    by (rule fmt_f_shape)
  then show thesis using that SFloat by (cases ds) (auto simp: writeFloat_def)
qed (use assms that in auto)

lemma head_not_delim:
  assumes "c = chQuote \<or> c = CHR ''('' \<or> c = CHR ''-'' \<or> isdigit c"
  shows "c \<noteq> CHR '',''" "c \<noteq> CHR ''}''" "c \<noteq> CHR '']''"
  using assms by (auto simp: isdigit_def)

text \<open>The statement of the round trip for one value.\<close>

definition readsBack :: "sval \<Rightarrow> bool" where
  "readsBack v \<longleftrightarrow> (\<forall>f rest. fuelFor v \<le> f \<longrightarrow> delim rest \<longrightarrow>
     parseRealSaveValue f (writeRealSaveValue v @ rest) = Some (Inr (reread v, rest)))"

lemma readsBackD:
  "readsBack v \<Longrightarrow> fuelFor v \<le> f \<Longrightarrow> delim rest \<Longrightarrow>
   parseRealSaveValue f (writeRealSaveValue v @ rest) = Some (Inr (reread v, rest))"
  by (simp add: readsBack_def)

lemma fuelFor_pos: "1 \<le> fuelFor v"
  by (cases v) simp_all

lemma arrayLoop_write:
  assumes "\<forall>v\<in>set vs. svalOk v \<and> readsBack v" and "1 + sum_list (map (\<lambda>v. Suc (fuelFor v)) vs) \<le> f"
  shows "arrayLoop f (concat (map (\<lambda>v. writeRealSaveValue v @ '','') vs) @ CHR ''}'' # rest) =
    Some (Inr (map reread vs, CHR ''}'' # rest))"
  using assms
proof (induction vs arbitrary: f)
  case Nil
  then show ?case by (cases f) simp_all
next
  case (Cons v vs)
  from Cons.prems(2) obtain g where f: "f = Suc g" by (cases f) simp_all
  with Cons.prems(2) have g: "fuelFor v \<le> g" "1 + sum_list (map (\<lambda>v. Suc (fuelFor v)) vs) \<le> g" by simp_all
  let ?r = "concat (map (\<lambda>v. writeRealSaveValue v @ '','') vs) @ CHR ''}'' # rest"
  have ih: "arrayLoop g ?r = Some (Inr (map reread vs, CHR ''}'' # rest))"
    by (rule Cons.IH) (use Cons.prems g in auto)
  show ?case
  proof (cases "v = SOther")
    case True
    with ih f show ?thesis by simp
  next
    case False
    with Cons.prems(1) obtain c cs where w: "writeRealSaveValue v = c # cs"
      "c = chQuote \<or> c = CHR ''('' \<or> c = CHR ''-'' \<or> isdigit c" by (auto elim: write_head)
    have "parseRealSaveValue g (writeRealSaveValue v @ CHR '','' # ?r) = Some (Inr (reread v, CHR '','' # ?r))"
      by (rule readsBackD) (use Cons.prems(1) g in auto)
    with ih f w head_not_delim[OF w(2)] show ?thesis by (simp add: skipChar_def)
  qed
qed

lemma extraLoop_write:
  assumes "\<forall>x\<in>set ex. readsBack x" and "1 + sum_list (map (\<lambda>x. Suc (fuelFor x)) ex) \<le> f"
  shows "extraLoop f (concat (map (\<lambda>x. '';'' @ writeRealSaveValue x) ex) @ CHR '','' # rest) =
    Some (Inr (map reread ex, CHR '','' # rest))"
  using assms
proof (induction ex arbitrary: f)
  case Nil
  then show ?case by (cases f) simp_all
next
  case (Cons x ex)
  from Cons.prems(2) obtain g where f: "f = Suc g" by (cases f) simp_all
  with Cons.prems(2) have g: "fuelFor x \<le> g" "1 + sum_list (map (\<lambda>x. Suc (fuelFor x)) ex) \<le> g" by simp_all
  let ?r = "concat (map (\<lambda>x. '';'' @ writeRealSaveValue x) ex) @ CHR '','' # rest"
  have "delim ?r" by (cases ex) simp_all
  then have "parseRealSaveValue g (writeRealSaveValue x @ ?r) = Some (Inr (reread x, ?r))"
    by (intro readsBackD) (use Cons.prems(1) g in auto)
  moreover have "extraLoop g ?r = Some (Inr (map reread ex, CHR '','' # rest))"
    by (rule Cons.IH) (use Cons.prems g in auto)
  ultimately show ?case using f by simp
qed

abbreviation writeRow :: "sval \<times> sval \<times> sval list \<Rightarrow> string" where
  "writeRow \<equiv> \<lambda>(k, v, ex). writeRealSaveValue k @ '':'' @ writeRealSaveValue v @
                concat (map (\<lambda>x. '';'' @ writeRealSaveValue x) ex) @ '',''"

abbreviation rowFuel :: "sval \<times> sval \<times> sval list \<Rightarrow> nat" where
  "rowFuel \<equiv> \<lambda>(k, v, ex). Suc (fuelFor k) + Suc (fuelFor v) + Suc (sum_list (map (\<lambda>x. Suc (fuelFor x)) ex))"

lemma mapLoop_write:
  assumes "\<forall>(k, v, ex)\<in>set rows. svalOk k \<and> readsBack k \<and> readsBack v \<and> (\<forall>x\<in>set ex. readsBack x)"
    and "1 + sum_list (map rowFuel rows) \<le> f"
  shows "mapLoop f (concat (map writeRow rows) @ CHR '']'' # rest) =
    Some (Inr (map (\<lambda>(k, v, ex). (reread k, reread v, map reread ex)) rows, CHR '']'' # rest))"
  using assms
proof (induction rows arbitrary: f)
  case Nil
  then show ?case by (cases f) simp_all
next
  case (Cons row rows)
  obtain k v ex where row: "row = (k, v, ex)" by (cases row)
  from Cons.prems(2) obtain g where f: "f = Suc g" by (cases f) simp_all
  with Cons.prems(2) row have g: "fuelFor k \<le> g" "fuelFor v \<le> g"
    "1 + sum_list (map (\<lambda>x. Suc (fuelFor x)) ex) \<le> g" "1 + sum_list (map rowFuel rows) \<le> g" by simp_all
  let ?r = "concat (map writeRow rows) @ CHR '']'' # rest"
  let ?e = "concat (map (\<lambda>x. '';'' @ writeRealSaveValue x) ex) @ CHR '','' # ?r"
  have ok: "svalOk k" "readsBack k" "readsBack v" "\<forall>x\<in>set ex. readsBack x" using Cons.prems(1) row by auto
  have key: "parseRealSaveValue g (writeRealSaveValue k @ CHR '':'' # writeRealSaveValue v @ ?e) =
      Some (Inr (reread k, CHR '':'' # writeRealSaveValue v @ ?e))"
    by (rule readsBackD) (use ok g in auto)
  have "delim ?e" by (cases ex) simp_all
  then have val: "parseRealSaveValue g (writeRealSaveValue v @ ?e) = Some (Inr (reread v, ?e))"
    by (intro readsBackD) (use ok g in auto)
  have ex: "extraLoop g ?e = Some (Inr (map reread ex, CHR '','' # ?r))"
    by (rule extraLoop_write) (use ok g in auto)
  have ih: "mapLoop g ?r = Some (Inr (map (\<lambda>(k, v, ex). (reread k, reread v, map reread ex)) rows, CHR '']'' # rest))"
    by (rule Cons.IH) (use Cons.prems g in auto)
  have "hd (writeRealSaveValue k @ CHR '':'' # writeRealSaveValue v @ ?e) \<noteq> CHR '']''"
  proof (cases "k = SOther")
    case False
    with ok(1) obtain c cs where "writeRealSaveValue k = c # cs"
      "c = chQuote \<or> c = CHR ''('' \<or> c = CHR ''-'' \<or> isdigit c" by (auto elim: write_head)
    then show ?thesis using head_not_delim(3)[of c] by simp
  qed simp
  with key val ex ih f row show ?case by (simp add: skipChar_def)
qed

lemma mapWidth_uniform:
  assumes "\<forall>(k, v, ex)\<in>set rows. length ex = w - 1" and "1 \<le> w"
  shows "mapWidth rows = (if rows = [] then 1 else w)"
proof -
  have "foldl (\<lambda>w (k, v, ex). max w (1 + length ex)) n rows = (if rows = [] then n else max n w)" for n
    using assms(1) by (induction rows arbitrary: n) (use assms(2) in auto)
  then show ?thesis using assms(2) by (simp add: mapWidth_def)
qed

lemma buildMap_uniform:
  assumes "\<forall>(k, v, ex)\<in>set rows. length ex = w - 1" and "1 \<le> w"
  shows "buildMap rows = SMap (if rows = [] then 1 else w) rows"
proof -
  have "map (\<lambda>(k, v, ex). (k, v, ex @ replicate (w - 1 - length ex) (SInt 0))) rows = rows"
    using assms(1) by (induction rows) auto
  then show ?thesis using assms mapWidth_uniform[OF assms] by (cases rows) (auto simp: buildMap_def Let_def)
qed

lemma readsBackI:
  assumes "\<And>g rest. fuelFor v \<le> Suc g \<Longrightarrow> delim rest \<Longrightarrow>
    parseRealSaveValue (Suc g) (writeRealSaveValue v @ rest) = Some (Inr (reread v, rest))"
  shows "readsBack v"
  unfolding readsBack_def
proof (intro allI impI)
  fix f rest
  assume "fuelFor v \<le> f" and "delim rest"
  moreover obtain g where "f = Suc g" using \<open>fuelFor v \<le> f\<close> fuelFor_pos[of v] by (cases f) simp_all
  ultimately show "parseRealSaveValue f (writeRealSaveValue v @ rest) = Some (Inr (reread v, rest))"
    using assms by simp
qed

text \<open>A number token in front of a delimiter.\<close>

lemma parse_number:
  assumes "numberToken (t @ rest) = (t, isf, rest)" and "numberValue t isf = Inr v"
    and "t = c # cs" and "c = CHR ''-'' \<or> isdigit c"
  shows "parseRealSaveValue (Suc g) (t @ rest) = Some (Inr (v, rest))"
proof -
  have "c \<noteq> chQuote" "c \<noteq> CHR ''(''" using assms(4) by (auto simp: isdigit_def)
  moreover have "parseRealSaveNumber (t @ rest) = Inr (v, rest)" using assms(1,2) by (simp add: parseRealSaveNumber_def)
  ultimately show ?thesis using assms(3,4) by simp
qed

text \<open>The three kinds that are written as numbers.\<close>

definition isNumber :: "sval \<Rightarrow> bool" where
  "isNumber v \<longleftrightarrow> (case v of SVoid \<Rightarrow> True | SInt _ \<Rightarrow> True | SFloat _ \<Rightarrow> True | _ \<Rightarrow> False)"

definition numberShape :: "string \<Rightarrow> bool" where
  "numberShape t \<longleftrightarrow> (\<exists>sg ds more. t = sg @ ds @ more \<and> (sg = [] \<or> sg = ''-'') \<and> ds \<noteq> [] \<and> (\<forall>c\<in>set ds. isdigit c))"

lemma numberShape_head:
  "numberShape t \<Longrightarrow> \<exists>c cs. t = c # cs \<and> (isdigit c \<or> (c = CHR ''-'' \<and> cs \<noteq> [] \<and> isdigit (hd cs)))"
  unfolding numberShape_def by (elim exE conjE disjE; rename_tac sg ds more; case_tac ds) auto

lemma to_string_number:
  assumes "int64_range i"
  shows "numberShape (to_string i)" "delim rest \<Longrightarrow> numberToken (to_string i @ rest) = (to_string i, False, rest)"
    "numberValue (to_string i) False = Inr (SInt i)"
proof -
  obtain sg ds where s: "to_string i = sg @ ds" "sg = [] \<or> sg = ''-''" "ds \<noteq> []" "\<forall>c\<in>set ds. isdigit c"
    by (rule to_string_shape)
  then show "numberShape (to_string i)" unfolding numberShape_def by (intro exI[of _ sg] exI[of _ ds] exI[of _ "[]"]) simp
  show "numberToken (to_string i @ rest) = (to_string i, False, rest)" if "delim rest"
    using numberToken_int[OF s(2-4) that] s(1) by simp
  show "numberValue (to_string i) False = Inr (SInt i)"
    using stoll_to_string[of i "[]"] assms by (simp add: numberValue_def)
qed

lemma fmt_f_number:
  assumes "svalOk (SFloat d)"
  shows "numberShape (fmt_f d)" "delim rest \<Longrightarrow> numberToken (fmt_f d @ rest) = (fmt_f d, True, rest)"
    "numberValue (fmt_f d) True = Inr (reread (SFloat d))"
proof -
  have fin: "dbl_is_finite d" using assms by simp
  obtain sg ds fs where s: "fmt_f d = sg @ ds @ CHR ''.'' # fs" "sg = [] \<or> sg = ''-''" "ds \<noteq> []"
    "\<forall>c\<in>set ds. isdigit c" "\<forall>c\<in>set fs. isdigit c" by (rule fmt_f_shape[OF fin])
  then show "numberShape (fmt_f d)"
    unfolding numberShape_def by (intro exI[of _ sg] exI[of _ ds] exI[of _ "CHR ''.'' # fs"]) simp
  show "numberToken (fmt_f d @ rest) = (fmt_f d, True, rest)" if "delim rest"
    using numberToken_float[OF s(2-5) that] s(1) by simp
  show "numberValue (fmt_f d) True = Inr (reread (SFloat d))"
    using assms by (cases "stod (fmt_f d)") (simp_all add: numberValue_def)
qed

lemma write_number:
  assumes "svalOk v" and "isNumber v"
  shows "\<exists>isf. numberShape (writeRealSaveValue v) \<and>
    (\<forall>rest. delim rest \<longrightarrow> numberToken (writeRealSaveValue v @ rest) = (writeRealSaveValue v, isf, rest)) \<and>
    numberValue (writeRealSaveValue v) isf = Inr (reread v)"
proof (cases v)
  case SVoid
  have z: "to_string 0 = ''0''" by code_simp
  have r: "int64_range 0" by (simp add: int64_range_def)
  show ?thesis by (rule exI[of _ False]) (use to_string_number[OF r] SVoid z in simp)
next
  case (SInt i)
  then show ?thesis by (intro exI[of _ False]) (use to_string_number[of i] assms(1) in simp)
next
  case (SFloat d)
  have "writeFloat d = fmt_f d" using assms(1) SFloat by (simp add: writeFloat_def)
  then show ?thesis by (intro exI[of _ True]) (use fmt_f_number[of d] assms(1) SFloat in simp)
qed (use assms(2) in \<open>simp_all add: isNumber_def\<close>)

lemma readsBack_number: "svalOk v \<Longrightarrow> isNumber v \<Longrightarrow> readsBack v"
proof (rule readsBackI)
  fix g rest
  assume v: "svalOk v" "isNumber v" and d: "delim rest"
  obtain isf where n: "numberShape (writeRealSaveValue v)"
    "\<And>rest. delim rest \<Longrightarrow> numberToken (writeRealSaveValue v @ rest) = (writeRealSaveValue v, isf, rest)"
    "numberValue (writeRealSaveValue v) isf = Inr (reread v)" using write_number[OF v] by blast
  from numberShape_head[OF n(1)] obtain c cs where c: "writeRealSaveValue v = c # cs" "c = CHR ''-'' \<or> isdigit c" by blast
  from parse_number[OF n(2)[OF d] n(3) c]
  show "parseRealSaveValue (Suc g) (writeRealSaveValue v @ rest) = Some (Inr (reread v, rest))" .
qed

lemma topLevel_number:
  assumes "svalOk v" and "isNumber v"
  shows "parseRestoreVariableTopLevel fuel (writeRealSaveValue v) = Some (Inr (reread v))"
proof -
  obtain isf where n: "numberShape (writeRealSaveValue v)"
    "\<And>rest. delim rest \<Longrightarrow> numberToken (writeRealSaveValue v @ rest) = (writeRealSaveValue v, isf, rest)"
    "numberValue (writeRealSaveValue v) isf = Inr (reread v)" using write_number[OF assms] by blast
  from numberShape_head[OF n(1)] obtain c cs where c: "writeRealSaveValue v = c # cs"
    "isdigit c \<or> (c = CHR ''-'' \<and> cs \<noteq> [] \<and> isdigit (hd cs))" by blast
  have "c \<noteq> chQuote" using c(2) by (auto simp: isdigit_def)
  moreover have "isdigit c \<Longrightarrow> c \<noteq> CHR ''-''" by (auto simp: isdigit_def)
  ultimately show ?thesis
    using c n(2)[of "[]"] n(3) by (auto simp: parseRestoreVariableTopLevel_def parseRestoreVariableNumber_def)
qed

lemma readsBack_array:
  assumes "\<forall>v\<in>set vs. svalOk v \<and> readsBack v"
  shows "readsBack (SArr vs)"
proof (rule readsBackI)
  fix g rest
  assume "fuelFor (SArr vs) \<le> Suc g"
  then have "arrayLoop g (concat (map (\<lambda>v. writeRealSaveValue v @ '','') vs) @ CHR ''}'' # CHR '')'' # rest) =
      Some (Inr (map reread vs, CHR ''}'' # CHR '')'' # rest))"
    by (intro arrayLoop_write[OF assms]) simp
  then show "parseRealSaveValue (Suc g) (writeRealSaveValue (SArr vs) @ rest) = Some (Inr (reread (SArr vs), rest))"
    by (simp add: skipChar_def)
qed

lemma readsBack_map:
  assumes "svalOk (SMap w rows)"
    and "\<forall>(k, v, ex)\<in>set rows. readsBack k \<and> readsBack v \<and> (\<forall>x\<in>set ex. readsBack x)"
  shows "readsBack (SMap w rows)"
proof (rule readsBackI)
  fix g rest
  assume "fuelFor (SMap w rows) \<le> Suc g"
  then have fuel: "1 + sum_list (map rowFuel rows) \<le> g" by simp
  have rows: "\<forall>(k, v, ex)\<in>set rows. svalOk k \<and> readsBack k \<and> readsBack v \<and> (\<forall>x\<in>set ex. readsBack x)"
    using assms by auto
  note loop = mapLoop_write[OF rows fuel, of "CHR '')'' # rest"]
  let ?rows = "map (\<lambda>(k, v, ex). (reread k, reread v, map reread ex)) rows"
  have "buildMap ?rows = SMap (if ?rows = [] then 1 else w) ?rows"
    by (rule buildMap_uniform) (use assms(1) in auto)
  with loop show "parseRealSaveValue (Suc g) (writeRealSaveValue (SMap w rows) @ rest) = Some (Inr (reread (SMap w rows), rest))"
    by (simp add: skipChar_def)
qed

lemma write_reads_back: "svalOk v \<Longrightarrow> readsBack v"
proof (induction v rule: writeRealSaveValue.induct)
  case (4 s)
  then show ?case by (intro readsBackI) (simp add: parseRealSaveString_write)
next
  case (5 vs)
  then show ?case by (intro readsBack_array) auto
next
  case (6 w rows)
  show ?case
  proof (rule readsBack_map[OF 6(4)], clarify)
    fix k v ex
    assume r: "(k, v, ex) \<in> set rows"
    from 6(4) have "\<forall>(k, v, ex)\<in>set rows. svalOk k \<and> svalOk v \<and> (\<forall>x\<in>set ex. svalOk x)" by auto
    from bspec[OF this r] have ok: "svalOk k" "svalOk v" "\<forall>x\<in>set ex. svalOk x" by simp_all
    then show "readsBack k \<and> readsBack v \<and> (\<forall>x\<in>set ex. readsBack x)"
      using 6(1)[OF r refl refl] 6(2)[OF r refl refl] 6(3)[OF r refl refl] by simp
  qed
next
  case 7
  show ?case
  proof (rule readsBackI)
    fix g rest
    assume "delim rest"
    from delim_cases[OF this]
    show "parseRealSaveValue (Suc g) (writeRealSaveValue SOther @ rest) = Some (Inr (reread SOther, rest))"
      by (elim disjE exE conjE) simp_all
  qed
qed (simp_all add: readsBack_number isNumber_def)

section \<open>Lemmas: text the reader does not get past\<close>

text \<open>A character that starts no value and ends no array: the reader returns 0 and stays where it is.\<close>

definition stuckChar :: "char \<Rightarrow> bool" where
  "stuckChar c \<longleftrightarrow>
     c \<noteq> chQuote \<and> c \<noteq> CHR ''('' \<and> c \<noteq> CHR ''-'' \<and> \<not> isdigit c \<and> c \<noteq> CHR '','' \<and> c \<noteq> CHR ''}''"

lemma arrayLoop_stuck: "stuckChar c \<Longrightarrow> arrayLoop f (c # cs) = None"
proof (induction f rule: less_induct)
  case (less f)
  show ?case
  proof (cases f)
    case (Suc g)
    have "parseRealSaveValue g (c # cs) = None \<or> parseRealSaveValue g (c # cs) = Some (Inr (SInt 0, c # cs))"
      using less.prems by (cases g) (simp_all add: stuckChar_def)
    moreover have "arrayLoop g (c # cs) = None" using less.IH[of g] less.prems Suc by simp
    ultimately show ?thesis using Suc less.prems by (auto simp: stuckChar_def skipChar_def)
  qed simp
qed

section \<open>Properties\<close>

text \<open>
  C24. Saving and restoring: for every value of integers, strings without carriage returns, finite floats
  that fit the buffer, arrays and mappings nested in any way, restoring the saved text returns, and gives
  the value back (floats as their six decimals, unsaved kinds as 0); the fuel is at most the size of the value.
\<close>

theorem save_restore_roundtrip:
  assumes "svalOk v" and "fuelFor v \<le> fuel"
  shows "parseRestoreVariableTopLevel fuel (writeRealSaveValue v) = Some (Inr (reread v))"
proof -
  have whole: "parseRealSaveValue fuel (writeRealSaveValue v) = Some (Inr (reread v, []))"
    using readsBackD[OF write_reads_back[OF assms(1)] assms(2), of "[]"] by simp
  show ?thesis
  proof (cases "v = SOther")
    case True
    then show ?thesis by (simp add: parseRestoreVariableTopLevel_def)
  next
    case False
    show ?thesis
    proof (cases "isNumber v")
      case True
      with assms(1) show ?thesis by (rule topLevel_number)
    next
      case nn: False
      show ?thesis
      proof (cases v)
        case (SStr s)
        with assms(1) restoreString_write[of s "[]"] show ?thesis
          by (simp add: parseRestoreVariableTopLevel_def parseRestoreVariableString_def)
      qed (use whole nn False in \<open>simp_all add: parseRestoreVariableTopLevel_def isdigit_def isNumber_def\<close>)
    qed
  qed
qed
theorem save_restore_roundtrip_witness:
  "parseRestoreVariableTopLevel 20 (writeRealSaveValue
     (SArr [SInt (-5), SStr [CHR ''a'', chQuote, chNl], SMap 2 [(SStr ''k'', SInt 1, [SOther])]])) =
   Some (Inr (SArr [SInt (-5), SStr [CHR ''a'', chQuote, chNl], SMap 2 [(SStr ''k'', SInt 1, [SInt 0])]]))"
  using save_restore_roundtrip[of "SArr [SInt (-5), SStr [CHR ''a'', chQuote, chNl], SMap 2 [(SStr ''k'', SInt 1, [SOther])]]" 20]
  by (simp add: int64_range_def)

text \<open>
  C25. The reader does not return on an array whose next element starts with a character it does not know: it reads 0
  without moving on, forever (no amount of fuel is enough). The writer itself produces such text: an array that holds an
  infinite float is saved as \<^verbatim>\<open>({inf,})\<close>.
\<close>

theorem restore_array_diverges:
  assumes "stuckChar c"
  shows "(\<forall>fuel. parseRestoreVariableTopLevel fuel (''({'' @ c # cs) = None) \<and>
    writeRealSaveValue (SArr [SFloat 0x7FF0000000000000]) = ''({inf,})'' \<and>
    (\<forall>fuel. parseRestoreVariableTopLevel fuel ''({inf,})'' = None)"
proof -
  have top: "parseRestoreVariableTopLevel fuel (''({'' @ d # ds) = None" if "stuckChar d" for fuel d ds
    using arrayLoop_stuck[OF that, of _ ds] by (cases fuel) (simp_all add: parseRestoreVariableTopLevel_def isdigit_def)
  have "stuckChar (CHR ''i'')" by (simp add: stuckChar_def isdigit_def)
  then have "\<forall>fuel. parseRestoreVariableTopLevel fuel ''({inf,})'' = None" using top[of "CHR ''i''" _ "''nf,})''"] by simp
  moreover have "writeRealSaveValue (SArr [SFloat 0x7FF0000000000000]) = ''({inf,})''"
    by (simp add: writeFloat_def fmt_f_def dbl_is_nan_def dbl_is_finite_def dbl_exp_def dbl_frac_def dbl_sign_def)
  ultimately show ?thesis using top[OF assms] by blast
qed

theorem restore_array_diverges_witness:
  "stuckChar (CHR ''x'') \<and> parseRestoreVariableTopLevel 1000 ''({x'' = None"
proof -
  have "stuckChar (CHR ''x'')" by (simp add: stuckChar_def isdigit_def)
  with restore_array_diverges[OF this, of "[]"] show ?thesis by simp
qed

end
