(* ===== verification/Lexer_Print.thy ===== *)
theory Lexer_Print
  imports Lexer
begin

text \<open>
  Printing tokens back to source text: the reference printer below writes every token so that the lexer of
  \<^verbatim>\<open>src/compiler/Lexer.cpp\<close> reads it again, and tokens separated by blanks lex to themselves. The printer is a
  specification, not code of the repository.
\<close>

section \<open>The printer\<close>

definition escapeChar :: "char \<Rightarrow> string" where
  "escapeChar c =
     (if c = lxNl then [lxBackslash, CHR ''n'']
      else if c = lxTab then [lxBackslash, CHR ''t'']
      else if c = lxQuote \<or> c = lxBackslash then [lxBackslash, c]
      else [c])"

definition printTok :: "token \<Rightarrow> string" where
  "printTok t =
     (case tokType t of
        StringTok \<Rightarrow> [lxQuote] @ concat (map escapeChar (tokText t)) @ [lxQuote]
      | QuotedSymbol \<Rightarrow> lxTick # tokText t
      | _ \<Rightarrow> tokText t)"

definition printToks :: "token list \<Rightarrow> string" where
  "printToks ts = concat (map (\<lambda>t. printTok t @ '' '') ts)"

definition atLine :: "int \<Rightarrow> token \<Rightarrow> token" where
  "atLine l t = t\<lparr>tokLine := l\<rparr>"

section \<open>Each kind of token reads back\<close>

text \<open>A token that the lexer can have produced, read back in front of a blank.\<close>

definition rereads :: "LpcDialect \<Rightarrow> token \<Rightarrow> bool" where
  "rereads d t \<longleftrightarrow>
     (\<forall>rest m. skipWhitespaceAndComments (printTok t @ CHR '' '' # rest) m = (printTok t @ CHR '' '' # rest, m) \<and>
        lexToken d (printTok t @ CHR '' '' # rest) m = Inr (atLine m t, CHR '' '' # rest, m))"

lemma atLine_mkTok [simp]: "atLine m (mkTok k s l) = mkTok k s m"
  by (simp add: atLine_def mkTok_def)

lemma printTok_mkTok [simp]:
  "printTok (mkTok Ident s l) = s" "printTok (mkTok Keyword s l) = s" "printTok (mkTok Number s l) = s"
  "printTok (mkTok SymbolTok s l) = s" "printTok (mkTok QuotedSymbol s l) = lxTick # s"
  "printTok (mkTok StringTok s l) = [lxQuote] @ concat (map escapeChar s) @ [lxQuote]"
  by (simp_all add: printTok_def mkTok_def)

lemma stringBody_escape:
  "stringBody (concat (map escapeChar v) @ lxQuote # r) l = Some (v, r, l)"
  by (induction v) (simp_all add: escapeChar_def unescape_def adv_def)

lemma rereads_string: "rereads d (mkTok StringTok v l)"
  unfolding rereads_def
  by (simp add: lexToken_def peek_def identStart_def isalpha_def isdigit_def lexString_def stringBody_escape)

lemma blank_not [simp]: "\<not> identChar (CHR '' '')" "\<not> isdigit (CHR '' '')" "\<not> isxdigit (CHR '' '')"
  by (simp_all add: identChar_def isalpha_def isdigit_def isxdigit_def)

lemma while_append_blank:
  assumes "\<forall>x\<in>set w. P x" "\<not> P (CHR '' '')"
  shows "takeWhile P (w @ CHR '' '' # rest) = w" "dropWhile P (w @ CHR '' '' # rest) = CHR '' '' # rest"
  using assms by (induction w) auto

lemma skip_none:
  assumes "c \<noteq> CHR '' ''" "c \<noteq> lxTab" "c \<noteq> lxCr" "c \<noteq> lxNl" "c \<noteq> CHR ''/''"
  shows "skipWhitespaceAndComments (c # s) m = (c # s, m)"
  using assms by simp

lemma identStart_char:
  assumes "identStart c"
  shows "identChar c" "\<not> isdigit c"
    "c \<noteq> CHR '' ''" "c \<noteq> lxTab" "c \<noteq> lxCr" "c \<noteq> lxNl" "c \<noteq> CHR ''/''"
  using assms by (auto simp: identStart_def identChar_def isalpha_def isdigit_def)

lemma isdigit_char:
  assumes "isdigit c"
  shows "\<not> identStart c" "c \<noteq> CHR '' ''" "c \<noteq> lxTab" "c \<noteq> lxCr" "c \<noteq> lxNl" "c \<noteq> CHR ''/''" "c \<noteq> CHR ''.''"
  using assms by (auto simp: identStart_def isalpha_def isdigit_def)

lemma rereads_ident:
  assumes "identStart (peek s)" and "lexIdentOrKeyword d s l = Inr (t, r, l')"
  shows "rereads d t"
proof -
  let ?w = "takeWhile identChar s"
  obtain c cs where w: "?w = c # cs" and c: "identStart c"
    using assms(1) identStart_char(1)[OF assms(1)] by (cases s) (auto simp: peek_def identStart_def isalpha_def)
  have all: "\<forall>x\<in>set ?w. identChar x" by (auto dest: set_takeWhileD)
  have t: "t = mkTok (if ?w \<in> set kKeywords \<or> (d = DGD \<and> ?w \<in> set kDgdOnlyKeywords) then Keyword else Ident) ?w l"
    using assms(2) by (auto simp: lexIdentOrKeyword_def Let_def)
  have p: "printTok t = ?w" unfolding t by simp
  have skip: "skipWhitespaceAndComments (?w @ CHR '' '' # rest) m = (?w @ CHR '' '' # rest, m)" for rest m
    unfolding w append_Cons by (rule skip_none) (use identStart_char[OF c] in simp_all)
  have "lexToken d (?w @ CHR '' '' # rest) m = lexIdentOrKeyword d (?w @ CHR '' '' # rest) m" for rest m
    by (simp add: lexToken_def w c peek_def)
  then have "lexToken d (?w @ CHR '' '' # rest) m = Inr (atLine m t, CHR '' '' # rest, m)" for rest m
    by (simp add: lexIdentOrKeyword_def Let_def while_append_blank[OF all] t)
  with skip show ?thesis unfolding rereads_def p by blast
qed

lemma rereads_digits:
  assumes "w \<noteq> []" "\<forall>x\<in>set w. isdigit x"
  shows "rereads d (mkTok Number w l)"
proof -
  obtain c cs where w: "w = c # cs" using assms(1) by (cases w) auto
  have c: "isdigit c" using assms(2) w by simp
  have "skipWhitespaceAndComments (w @ CHR '' '' # rest) m = (w @ CHR '' '' # rest, m)" for rest m
    unfolding w append_Cons by (rule skip_none) (use isdigit_char[OF c] in simp_all)
  moreover have "lexToken d (w @ CHR '' '' # rest) m = lexNumber (w @ CHR '' '' # rest) m" for rest m
    by (simp add: lexToken_def w peek_def c isdigit_char(1)[OF c])
  moreover have "lexNumber (w @ CHR '' '' # rest) m = Inr (mkTok Number w m, CHR '' '' # rest, m)" for rest m
    by (simp add: lexNumber_def Let_def while_append_blank[OF assms(2)] peek_def)
  ultimately show ?thesis by (simp add: rereads_def)
qed

lemma hex_not_digit: "x = CHR ''x'' \<or> x = CHR ''X'' \<Longrightarrow> \<not> isdigit x"
  by (auto simp: isdigit_def)

lemma rereads_hex:
  assumes "x = CHR ''x'' \<or> x = CHR ''X''" "hs \<noteq> []" "\<forall>y\<in>set hs. isxdigit y"
  shows "rereads d (mkTok Number (CHR ''0'' # x # hs) l)"
proof -
  obtain h hs' where hs: "hs = h # hs'" using assms(2) by (cases hs) auto
  have z: "isdigit (CHR ''0'')" "\<not> identStart (CHR ''0'')" by (simp_all add: isdigit_def identStart_def isalpha_def)
  have h: "isxdigit h" using assms(3) hs by simp
  have wh: "takeWhile isxdigit (hs @ CHR '' '' # rest) = hs" "dropWhile isxdigit (hs @ CHR '' '' # rest) = CHR '' '' # rest"
    for rest by (rule while_append_blank[OF assms(3)], simp)+
  have "lexNumber (CHR ''0'' # x # hs @ CHR '' '' # rest) m =
      Inr (mkTok Number (CHR ''0'' # x # hs) m, CHR '' '' # rest, m)" for rest m
    using assms(1) h wh[of rest] hex_not_digit[OF assms(1)] z(1)
    by (simp add: lexNumber_def Let_def peek_def hs)
  moreover have "lexToken d (CHR ''0'' # x # hs @ CHR '' '' # rest) m = lexNumber (CHR ''0'' # x # hs @ CHR '' '' # rest) m" for rest m
    by (simp add: lexToken_def peek_def z)
  ultimately show ?thesis by (simp add: rereads_def)
qed

lemma rereads_float:
  assumes "\<forall>y\<in>set ds. isdigit y" "fs \<noteq> []" "\<forall>y\<in>set fs. isdigit y"
  shows "rereads d (mkTok Number (ds @ CHR ''.'' # fs) l)"
proof -
  obtain f fs' where fs: "fs = f # fs'" using assms(2) by (cases fs) auto
  have f: "isdigit f" using assms(3) fs by simp
  have dot: "\<not> isdigit (CHR ''.'')" "\<not> identStart (CHR ''.'')" by (simp_all add: isdigit_def identStart_def isalpha_def)
  let ?s = "\<lambda>rest. ds @ CHR ''.'' # fs @ CHR '' '' # rest"
  have wf: "takeWhile isdigit (fs @ CHR '' '' # rest) = fs" "dropWhile isdigit (fs @ CHR '' '' # rest) = CHR '' '' # rest"
    for rest by (rule while_append_blank[OF assms(3)], simp)+
  have wd: "takeWhile isdigit (?s rest) = ds" "dropWhile isdigit (?s rest) = CHR ''.'' # fs @ CHR '' '' # rest" for rest
    using assms(1) dot(1) by (induction ds) auto
  have num: "lexNumber (?s rest) m = Inr (mkTok Number (ds @ CHR ''.'' # fs) m, CHR '' '' # rest, m)" for rest m
    unfolding lexNumber_def Let_def wd by (simp add: peek_def wf) (simp add: fs f)
  have skip: "skipWhitespaceAndComments (?s rest) m = (?s rest, m) \<and> lexToken d (?s rest) m = lexNumber (?s rest) m" for rest m
  proof (cases ds)
    case Nil
    then show ?thesis by (simp add: lexToken_def peek_def dot fs f)
  next
    case (Cons c cs)
    then have c: "isdigit c" using assms(1) by simp
    show ?thesis
      unfolding Cons append_Cons
      by (intro conjI skip_none) (use isdigit_char[OF c] c in \<open>simp_all add: lexToken_def peek_def\<close>)
  qed
  then show ?thesis unfolding rereads_def by (simp add: num)
qed

lemma rereads_number:
  assumes "lexNumber s l = Inr (t, r, l')" "s \<noteq> []" "isdigit (hd s) \<or> (hd s = CHR ''.'' \<and> isdigit (peek (tl s)))"
  shows "rereads d t"
proof -
  let ?w = "takeWhile isdigit s" and ?r = "dropWhile isdigit s"
  have drop1: "drop 1 x = tl x" for x :: string by (cases x) auto
  have ds: "\<forall>y\<in>set ?w. isdigit y" by (auto dest: set_takeWhileD)
  have ne: "takeWhile P z \<noteq> []" if "P (peek z)" "\<not> P (CHR 0x00)" for P and z :: string
    using that by (cases z) (auto simp: peek_def)
  have all: "\<forall>y\<in>set (takeWhile P z). P y" for P and z :: string by (auto dest: set_takeWhileD)
  have nul: "\<not> isdigit (CHR 0x00)" "\<not> isxdigit (CHR 0x00)" by (simp_all add: isdigit_def isxdigit_def)
  show ?thesis
  proof (cases "?w = ''0'' \<and> (peek ?r = CHR ''x'' \<or> peek ?r = CHR ''X'') \<and> isxdigit (peek (tl ?r))")
    case True
    then have "t = mkTok Number (CHR ''0'' # peek ?r # takeWhile isxdigit (tl ?r)) l"
      using assms(1) unfolding lexNumber_def Let_def drop1 if_P[OF True] by auto
    then show ?thesis using True by (simp add: rereads_hex ne nul all)
  next
    case hex: False
    show ?thesis
    proof (cases "peek ?r = CHR ''.'' \<and> isdigit (peek (tl ?r))")
      case True
      then have "t = mkTok Number (?w @ CHR ''.'' # takeWhile isdigit (tl ?r)) l"
        using assms(1) unfolding lexNumber_def Let_def drop1 if_not_P[OF hex] if_P[OF True] by auto
      then show ?thesis using True by (simp add: rereads_float ne nul all)
    next
      case False
      have "t = mkTok Number ?w l"
        using assms(1) unfolding lexNumber_def Let_def drop1 if_not_P[OF hex] if_not_P[OF False] by auto
      moreover have "?w \<noteq> []"
        using False assms(2,3) by (cases s) (auto simp: peek_def isdigit_def[of "CHR ''.''"])
      ultimately show ?thesis by (simp add: rereads_digits ds)
    qed
  qed
qed


lemma rereads_char:
  assumes "lexChar s l = Inr (t, r, l')"
  shows "rereads d t"
proof -
  obtain n :: nat where t: "t = mkTok Number (to_string (int n)) l"
    using assms by (auto simp: lexChar_def Let_def split: list.splits if_splits)
  have "to_string (int n) \<noteq> [] \<and> (\<forall>x\<in>set (to_string (int n)). isdigit x)"
    by (simp add: to_string_def nat_to_string_digits)
  then show ?thesis unfolding t by (intro rereads_digits) simp_all
qed

lemma rereads_lambda:
  assumes "lexLambdaParam s l = Inr (t, r, l')"
  shows "rereads d t"
proof -
  have skip: "skipWhitespaceAndComments (CHR ''$'' # x) m = (CHR ''$'' # x, m)" for x m by simp
  have disp: "lexToken d (CHR ''$'' # x) m = lexLambdaParam (CHR ''$'' # x) m" for x m
    by (simp add: lexToken_def peek_def identStart_def isalpha_def isdigit_def)
  let ?w = "takeWhile isdigit (tl s)"
  have all: "\<forall>y\<in>set ?w. isdigit y" by (auto dest: set_takeWhileD)
  show ?thesis
  proof (cases "isdigit (peek (tl s))")
    case False
    then have t: "t = mkTok SymbolTok ''$'' l" using assms by (auto simp: lexLambdaParam_def Let_def)
    show ?thesis unfolding rereads_def t
      by (simp only: printTok_mkTok append_Cons append_Nil skip disp atLine_mkTok)
        (simp add: lexLambdaParam_def peek_def)
  next
    case True
    then have t: "t = mkTok Ident (CHR ''$'' # ?w) l" using assms by (auto simp: lexLambdaParam_def Let_def)
    have p: "isdigit (peek (?w @ x))" for x using True by (cases "tl s") (auto simp: peek_def isdigit_def)
    show ?thesis unfolding rereads_def t
      by (simp only: printTok_mkTok append_Cons append_Nil skip disp atLine_mkTok)
        (simp add: lexLambdaParam_def p while_append_blank[OF all])
  qed
qed

lemma rereads_quote:
  assumes "lexQuote s l = Inr (t, r, l')"
  shows "rereads LdMud t"
proof (cases "tl s \<noteq> [] \<and> identStart (hd (tl s)) \<and>
    \<not> (length (takeWhile identChar (tl s)) = 1 \<and> dropWhile identChar (tl s) \<noteq> [] \<and>
       hd (dropWhile identChar (tl s)) = lxTick)")
  case True
  let ?w = "takeWhile identChar (tl s)"
  have all: "\<forall>x\<in>set ?w. identChar x" by (auto dest: set_takeWhileD)
  obtain c cs where w: "?w = c # cs" "identStart c"
    using True identStart_char(1) by (cases "tl s") auto
  have t: "t = mkTok QuotedSymbol ?w l"
    using assms unfolding lexQuote_def Let_def if_P[OF True] by auto
  have "lexToken LdMud (lxTick # ?w @ CHR '' '' # rest) m = lexQuote (lxTick # ?w @ CHR '' '' # rest) m" for rest m
    by (simp add: lexToken_def peek_def identStart_def isalpha_def isdigit_def)
  moreover have "lexQuote (lxTick # ?w @ CHR '' '' # rest) m = Inr (mkTok QuotedSymbol ?w m, CHR '' '' # rest, m)" for rest m
    unfolding lexQuote_def Let_def list.sel while_append_blank[OF all blank_not(1)]
    using w by simp
  ultimately show ?thesis unfolding rereads_def t by simp
next
  case False
  then show ?thesis
    using assms unfolding lexQuote_def Let_def if_not_P[OF False] by (intro rereads_char)
qed

lemma rereads_hash: "lexHashQuote s l = Inr (t, r, l') \<Longrightarrow> rereads LdMud t"
  by (auto simp: lexHashQuote_def rereads_def lexToken_def peek_def identStart_def isalpha_def isdigit_def)

lemma rereads_heredoc: "lexHeredoc s l = Inr (t, r, l') \<Longrightarrow> rereads d t"
  by (auto simp: lexHeredoc_def Let_def rereads_string split: if_splits option.splits)

definition kTwoCharSymbols :: "string list" where
  "kTwoCharSymbols =
    [''->'', ''::'', ''++'', ''--'', ''+='', ''-='', ''*='', ''/='', ''%='', ''|='', ''&='', ''^='',
     ''=='', ''!='', ''<<'', ''>>'', ''<='', ''>='', ''||'', ''&&'', ''..'']"

definition kThreeCharSymbols :: "string list" where
  "kThreeCharSymbols = [''<<='', ''>>='', ''...'']"

lemma symbolLength_munch:
  "symbolLength s =
     (if take 3 s \<in> set kThreeCharSymbols then 3 else if take 2 s \<in> set kTwoCharSymbols then 2 else 1)"
proof (cases s)
  case (Cons c cs)
  have c3: "take 3 s \<in> set kThreeCharSymbols \<longleftrightarrow>
      (c = CHR ''<'' \<and> take 2 cs = ''<='') \<or> (c = CHR ''>'' \<and> take 2 cs = ''>='') \<or> (c = CHR ''.'' \<and> take 2 cs = ''..'')"
    by (simp add: Cons kThreeCharSymbols_def numeral_3_eq_3 numeral_2_eq_2)
  have pks: "peek cs = x \<longleftrightarrow> take 1 cs = [x]" "peek (drop 1 cs) = y \<and> peek cs = x \<longleftrightarrow> take 2 cs = [x, y]"
    if "x \<noteq> CHR 0x00" "y \<noteq> CHR 0x00" for x y
    using that by (cases cs; cases "tl cs"; auto simp: peek_def numeral_2_eq_2)+
  consider "c = CHR ''-''" | "c = CHR '':''" | "c = CHR ''+''" | "c = CHR ''*''" | "c = CHR ''/''" | "c = CHR ''%''"
    | "c = CHR ''|''" | "c = CHR ''&''" | "c = CHR ''^''" | "c = CHR ''=''" | "c = CHR ''!''" | "c = CHR ''<''"
    | "c = CHR ''>''" | "c = CHR ''.''"
    | "c \<notin> set ''-:+*/%|&^=!<>.''" by auto
  then show ?thesis
  proof cases
    case 15
    then show ?thesis by (simp add: Cons symbolLength_def peek_def kThreeCharSymbols_def kTwoCharSymbols_def numeral_3_eq_3 numeral_2_eq_2)
  qed (cases cs; cases "tl cs";
      simp add: Cons symbolLength_def peek_def kThreeCharSymbols_def kTwoCharSymbols_def numeral_3_eq_3 numeral_2_eq_2 Let_def)+
qed (simp add: symbolLength_def peek_def kThreeCharSymbols_def kTwoCharSymbols_def)

lemma symbolLength_reread:
  assumes "s \<noteq> []"
  shows "symbolLength (take (symbolLength s) s @ CHR '' '' # rest) = symbolLength s"
    and "length (take (symbolLength s) s) = symbolLength s"
proof -
  obtain c cs where s: "s = c # cs" using assms by (cases s) auto
  have two: "length w = 2 \<and> take 3 (w @ CHR '' '' # rest) \<notin> set kThreeCharSymbols" if "w \<in> set kTwoCharSymbols" for w
    using that by (auto simp: kTwoCharSymbols_def kThreeCharSymbols_def)
  have three: "length w = 3" if "w \<in> set kThreeCharSymbols" for w
    using that by (auto simp: kThreeCharSymbols_def)
  have one: "c # CHR '' '' # z \<notin> set kThreeCharSymbols" "[c, CHR '' ''] \<notin> set kTwoCharSymbols" for z
    by (auto simp: kTwoCharSymbols_def kThreeCharSymbols_def)
  let ?goal = "symbolLength (take (symbolLength s) s @ CHR '' '' # rest) = symbolLength s
       \<and> length (take (symbolLength s) s) = symbolLength s"
  consider "take 3 s \<in> set kThreeCharSymbols" "symbolLength s = 3"
    | "take 2 s \<in> set kTwoCharSymbols" "symbolLength s = 2" | "symbolLength s = 1"
    using symbolLength_munch[of s]
    by (cases "take 3 s \<in> set kThreeCharSymbols"; cases "take 2 s \<in> set kTwoCharSymbols") auto
  then have ?goal
  proof cases
    case 1
    have "take 3 (take 3 s @ CHR '' '' # rest) = take 3 s" using three[OF 1(1)] by simp
    then have "symbolLength (take 3 s @ CHR '' '' # rest) = 3" using 1(1) by (simp add: symbolLength_munch)
    then show ?thesis using three[OF 1(1)] 1(2) by (simp del: length_take)
  next
    case 2
    have "take 2 (take 2 s @ CHR '' '' # rest) = take 2 s" using two[OF 2(1)] by simp
    then have "symbolLength (take 2 s @ CHR '' '' # rest) = 2"
      using 2(1) two[OF 2(1)] by (simp add: symbolLength_munch)
    then show ?thesis using two[OF 2(1)] 2(2) by (simp del: length_take)
  next
    case 3
    have "symbolLength (c # CHR '' '' # rest) = 1"
      unfolding symbolLength_munch[of "c # CHR '' '' # rest"] using one by (simp add: numeral_3_eq_3 numeral_2_eq_2)
    with 3 show ?thesis by (simp add: s)
  qed
  then show "symbolLength (take (symbolLength s) s @ CHR '' '' # rest) = symbolLength s"
    "length (take (symbolLength s) s) = symbolLength s" by blast+
qed

lemma rereads_symbol:
  assumes "symbolStart (peek s)" "\<not> (peek s = CHR ''.'' \<and> isdigit (peek (drop 1 s)))" "lexSymbol s l = Inr (t, r, l')"
  shows "rereads d t"
proof -
  let ?w = "take (symbolLength s) s"
  obtain c cs where s: "s = c # cs" using assms(1) by (cases s) (auto simp: symbolStart_def peek_def)
  have c: "symbolStart c" using assms(1) s by (simp add: peek_def)
  have len: "symbolLength (?w @ CHR '' '' # rest) = symbolLength s" "length ?w = symbolLength s" for rest
    by (rule symbolLength_reread, simp add: s)+
  obtain n where n: "symbolLength s = Suc n" using symbolLength_range[of s] by (cases "symbolLength s") auto
  have w: "?w = c # take n cs" using s n by simp
  have t: "t = mkTok SymbolTok ?w l" using assms(3) by (auto simp: lexSymbol_def Let_def)
  have lex: "lexSymbol (?w @ CHR '' '' # rest) m = Inr (mkTok SymbolTok ?w m, CHR '' '' # rest, m)" for rest m
    unfolding lexSymbol_def Let_def len(1)[of rest] using len(2) by (simp del: length_take)
  have nxt: "peek (take n cs @ CHR '' '' # rest) = (if n = 0 \<or> cs = [] then CHR '' '' else peek cs)" for rest
    by (cases n; cases cs) (auto simp: peek_def)
  have nodig: "\<not> (c = CHR ''.'' \<and> isdigit (peek (take n cs @ CHR '' '' # rest)))" for rest
    using assms(2) s by (auto simp: nxt peek_def[of "c # cs"])
  have nocom: "\<not> (c = CHR ''/'' \<and> (peek (take n cs @ CHR '' '' # rest) = CHR ''/'' \<or> peek (take n cs @ CHR '' '' # rest) = CHR ''*''))" for rest
  proof
    assume a: "c = CHR ''/'' \<and> (peek (take n cs @ CHR '' '' # rest) = CHR ''/'' \<or> peek (take n cs @ CHR '' '' # rest) = CHR ''*'')"
    then have "n \<noteq> 0" "cs \<noteq> []" "peek cs = CHR ''/'' \<or> peek cs = CHR ''*''" by (auto simp: nxt split: if_splits)
    then have "symbolLength s = 1" using a s by (auto simp: symbolLength_def Let_def peek_def)
    with \<open>n \<noteq> 0\<close> n show False by simp
  qed
  have ws: "c \<noteq> CHR '' ''" "c \<noteq> lxTab" "c \<noteq> lxCr" "c \<noteq> lxNl" using c by (auto simp: symbolStart_def)
  have disp: "\<not> identStart c" "\<not> isdigit c" "c \<noteq> lxQuote" "c \<noteq> lxTick" "c \<noteq> CHR ''#''" "c \<noteq> CHR ''@''" "c \<noteq> CHR ''$''"
    using c by (auto simp: symbolStart_def identStart_def isalpha_def isdigit_def)
  have "skipWhitespaceAndComments (?w @ CHR '' '' # rest) m = (?w @ CHR '' '' # rest, m)" for rest m
    unfolding w append_Cons using ws nocom[of rest] by auto
  moreover have "lexToken d (?w @ CHR '' '' # rest) m = lexSymbol (?w @ CHR '' '' # rest) m" for rest m
  proof -
    have "peek (?w @ CHR '' '' # rest) = c" "drop 1 (?w @ CHR '' '' # rest) = take n cs @ CHR '' '' # rest"
      unfolding w by (simp_all add: peek_def)
    then show ?thesis unfolding lexToken_def Let_def using disp c nodig[of rest] by auto
  qed
  ultimately show ?thesis unfolding rereads_def t by (simp add: lex del: length_take)
qed

lemma lexToken_rereads:
  assumes "s \<noteq> []" "lexToken d s l = Inr (t, r, l')"
  shows "rereads d t"
proof -
  have p: "peek s = hd s" using assms(1) by (rule peek_eq_hd)
  have d1: "drop 1 s = tl s" using assms(1) by (cases s) simp_all
  note kinds = rereads_ident rereads_char rereads_quote rereads_hash rereads_heredoc
    rereads_lambda rereads_symbol
  have str: "lexString s l = Inr (t, r, l') \<Longrightarrow> rereads d t"
    by (auto simp: lexString_def rereads_string split: option.splits)
  consider "identStart (peek s)" "lexIdentOrKeyword d s l = Inr (t, r, l')"
    | "lexNumber s l = Inr (t, r, l')" "isdigit (hd s) \<or> (hd s = CHR ''.'' \<and> isdigit (peek (tl s)))"
    | "lexString s l = Inr (t, r, l')"
    | "d = LdMud" "lexQuote s l = Inr (t, r, l')"
    | "lexChar s l = Inr (t, r, l')"
    | "d = LdMud" "lexHashQuote s l = Inr (t, r, l')"
    | "lexHeredoc s l = Inr (t, r, l')"
    | "lexLambdaParam s l = Inr (t, r, l')"
    | "symbolStart (peek s)" "\<not> (peek s = CHR ''.'' \<and> isdigit (peek (drop 1 s)))" "lexSymbol s l = Inr (t, r, l')"
    using assms(2) unfolding lexToken_def Let_def by (auto simp: p d1[simplified] split: if_splits)
  then show ?thesis
  proof cases
    case 2
    then show ?thesis using assms(1) by (intro rereads_number[of s l t r l'])
  qed (simp_all add: kinds str)
qed

section \<open>The round trip\<close>

text \<open>The printed tokens lex to the same tokens, all on the line the text starts on.\<close>

lemma tokenizeFrom_print:
  assumes "\<forall>t\<in>set ts. rereads d t"
  shows "tokenizeFrom d (printToks ts) m = Inr (map (atLine m) ts @ [mkTok EndTok [] m])"
    and "tokenizeFrom d (CHR '' '' # printToks ts) m = Inr (map (atLine m) ts @ [mkTok EndTok [] m])"
proof -
  have "tokenizeFrom d (printToks ts) m = Inr (map (atLine m) ts @ [mkTok EndTok [] m]) \<and>
        tokenizeFrom d (CHR '' '' # printToks ts) m = Inr (map (atLine m) ts @ [mkTok EndTok [] m])"
    using assms
  proof (induction ts)
    case Nil
    show ?case by (simp add: printToks_def tokenizeFrom_next(1)[of _ _ "[]" m] adv_def)
  next
    case (Cons t ts)
    let ?s = "printTok t @ CHR '' '' # printToks ts"
    have p: "printToks (t # ts) = ?s" by (simp add: printToks_def)
    have rr: "skipWhitespaceAndComments ?s m = (?s, m)"
      "lexToken d ?s m = Inr (atLine m t, CHR '' '' # printToks ts, m)"
      using Cons.prems by (simp_all add: rereads_def)
    have ws: "skipWhitespaceAndComments (CHR '' '' # ?s) m = (?s, m)" using rr(1) by (simp add: adv_def)
    have ne: "?s \<noteq> []" by simp
    show ?case
      unfolding p tokenizeFrom_next(3)[OF rr(1) ne rr(2)] tokenizeFrom_next(3)[OF ws ne rr(2)]
      using Cons by (simp add: res_bind_def)
  qed
  then show "tokenizeFrom d (printToks ts) m = Inr (map (atLine m) ts @ [mkTok EndTok [] m])"
    "tokenizeFrom d (CHR '' '' # printToks ts) m = Inr (map (atLine m) ts @ [mkTok EndTok [] m])" by simp_all
qed

lemma tokenizeFrom_rereads:
  "tokenizeFrom d s l = Inr toks \<Longrightarrow>
   \<exists>ts m. toks = ts @ [mkTok EndTok [] m] \<and> (\<forall>t\<in>set ts. rereads d t)"
proof (induction d s l arbitrary: toks rule: tokenizeFrom.induct)
  case (1 d s l)
  obtain r l1 where sk: "skipWhitespaceAndComments s l = (r, l1)" by fastforce
  show ?case
  proof (cases "r = []")
    case True
    then have "toks = [] @ [mkTok EndTok [] l1]" using "1.prems" tokenizeFrom_next(1)[OF sk, of d] by simp
    then show ?thesis by (metis empty_iff list.set(1))
  next
    case False
    then obtain t r2 l2 ts where lx: "lexToken d r l1 = Inr (t, r2, l2)"
      and ts: "tokenizeFrom d r2 l2 = Inr ts" and toks: "toks = t # ts"
      using tokenizeFrom_Cons[OF sk False "1.prems"] by metis
    from "1.IH"[OF sk[symmetric] False lx refl refl ts] obtain us m where
      us: "ts = us @ [mkTok EndTok [] m]" "\<forall>t\<in>set us. rereads d t" by blast
    have "rereads d t" using False lx by (rule lexToken_rereads)
    with us toks show ?thesis by (intro exI[of _ "t # us"] exI[of _ m]) simp
  qed
qed

text \<open>
  C27. Whatever source text the lexer accepts, its tokens printed one after the other with blanks between
  them (string literals, character literals and heredocs as escaped string literals and numbers)
  lex again to the same tokens, in the same order and with the same kinds and texts, in every dialect: the token stream
  loses nothing the lexer itself would need.
\<close>

theorem tokenize_print_roundtrip:
  assumes "tokenize d src = Inr toks"
  shows "tokenize d (printToks (butlast toks)) = Inr (map (atLine 1) toks)"
proof -
  obtain ts m where ts: "toks = ts @ [mkTok EndTok [] m]" "\<forall>t\<in>set ts. rereads d t"
    using tokenizeFrom_rereads assms unfolding tokenize_def by blast
  show ?thesis unfolding tokenize_def using tokenizeFrom_print(1)[OF ts(2), of 1] ts(1) by simp
qed


text \<open>
  The symbol scanner, written in the source as a cascade of lookahead tests, is a longest-match scanner:
  the symbol it returns is a prefix of the text, in the symbol table or a single character,
  and no symbol of the table that the text starts with is longer.
\<close>

theorem lexSymbol_longest_match:
  assumes "s \<noteq> []"
  shows "\<exists>w r. lexSymbol s l = Inr (mkTok SymbolTok w l, r, l) \<and> s = w @ r \<and>
     (length w = 1 \<or> w \<in> set (kTwoCharSymbols @ kThreeCharSymbols)) \<and>
     (\<forall>v\<in>set (kTwoCharSymbols @ kThreeCharSymbols). take (length v) s = v \<longrightarrow> length v \<le> length w)"
proof -
  let ?w = "take (symbolLength s) s"
  have two: "\<forall>v\<in>set kTwoCharSymbols. length v = 2" and three: "\<forall>v\<in>set kThreeCharSymbols. length v = 3"
    by (simp_all add: kTwoCharSymbols_def kThreeCharSymbols_def)
  have len: "length ?w = symbolLength s" using assms by (rule symbolLength_reread(2))
  have tab: "symbolLength s = 1 \<or> ?w \<in> set (kTwoCharSymbols @ kThreeCharSymbols)"
    by (simp add: symbolLength_munch[of s])
  have "length v \<le> symbolLength s" if v: "v \<in> set (kTwoCharSymbols @ kThreeCharSymbols)" "take (length v) s = v" for v
    using v two three symbolLength_munch[of s] by auto
  with len tab show ?thesis
    by - (rule exI[of _ ?w], rule exI[of _ "drop (symbolLength s) s"], simp add: lexSymbol_def Let_def del: length_take)
qed

theorem lexSymbol_longest_match_witness:
  "\<exists>w r. lexSymbol ''>>=1'' 3 = Inr (mkTok SymbolTok w 3, r, 3) \<and> ''>>=1'' = w @ r \<and>
     (length w = 1 \<or> w \<in> set (kTwoCharSymbols @ kThreeCharSymbols)) \<and>
     (\<forall>v\<in>set (kTwoCharSymbols @ kThreeCharSymbols). take (length v) ''>>=1'' = v \<longrightarrow> length v \<le> length w)"
  by (rule lexSymbol_longest_match) simp

definition exampleSource :: string where
  "exampleSource = ''int x'' @ [lxNl] @ ''/* '' @ [lxNl] @ '' */ x->f('' @ [lxQuote] @ ''a'' @ [lxBackslash] @ ''n'' @ [lxQuote] @ '', 0x1f);''"

lemma exampleSource_tokens:
  "tokenize FluffOS exampleSource =
     Inr [mkTok Keyword ''int'' 1, mkTok Ident ''x'' 1, mkTok Ident ''x'' 3, mkTok SymbolTok ''->'' 3,
          mkTok Ident ''f'' 3, mkTok SymbolTok ''('' 3, mkTok StringTok (''a'' @ [lxNl]) 3, mkTok SymbolTok '','' 3,
          mkTok Number ''0x1f'' 3, mkTok SymbolTok '')'' 3, mkTok SymbolTok '';'' 3, mkTok EndTok [] 3]"
  by code_simp


theorem tokenize_print_roundtrip_witness:
  "\<exists>toks. length toks = 12 \<and> tokenize FluffOS exampleSource = Inr toks \<and>
     tokenize FluffOS (printToks (butlast toks)) = Inr (map (atLine 1) toks)"
  using tokenize_print_roundtrip[OF exampleSource_tokens] exampleSource_tokens
  by (intro exI[of _ "[mkTok Keyword ''int'' 1, mkTok Ident ''x'' 1, mkTok Ident ''x'' 3, mkTok SymbolTok ''->'' 3,
          mkTok Ident ''f'' 3, mkTok SymbolTok ''('' 3, mkTok StringTok (''a'' @ [lxNl]) 3, mkTok SymbolTok '','' 3,
          mkTok Number ''0x1f'' 3, mkTok SymbolTok '')'' 3, mkTok SymbolTok '';'' 3, mkTok EndTok [] 3]"]) simp


end
