(* ===== verification/Containment.thy ===== *)
theory Containment
  imports Vm_World
begin

text \<open>
  The containment tree under moves: environment pointers and inventories agree, moves change one parent, and
  \<^verbatim>\<open>deep_inventory()\<close> lists the contents as long as nothing is moved into its own contents.
\<close>

section \<open>Environments and inventories agree\<close>

definition containsOk :: "heap \<Rightarrow> bool" where
  "containsOk h \<longleftrightarrow> (\<forall>r. distinct (inventoryOf h r) \<and> (\<forall>x. x \<in> set (inventoryOf h r) \<longleftrightarrow> environmentOf h x = Some r))"

lemma inventoryOf_steps:
  "inventoryOf (clearReset dest h) r = inventoryOf h r"
  "inventoryOf (setEnv item dest h) r = inventoryOf h r"
  "inventoryOf (unlink item h) r = (if environmentOf h item = Some r then removeAll item (inventoryOf h r) else inventoryOf h r)"
  by (auto simp: inventoryOf_def clearReset_def setEnv_def unlink_def updObj_def split: option.splits)

lemma inventoryOf_linkInto:
  "dest = None \<or> the dest \<in> dom h \<Longrightarrow>
   inventoryOf (linkInto item dest h) r = (if dest = Some r then inventoryOf h r @ [item] else inventoryOf h r)"
  by (auto simp: inventoryOf_def linkInto_def updObj_def split: option.splits)

lemma dom_steps [simp]:
  "dom (clearReset dest h) = dom h" "dom (unlink item h) = dom h" "dom (setEnv item dest h) = dom h" "dom (linkInto item dest h) = dom h"
  by (auto simp: clearReset_def unlink_def setEnv_def linkInto_def split: option.splits)

lemma lock_dom: "dom h = dom h' \<Longrightarrow> lock h w = lock h' w"
  unfolding lock_def by (auto split: option.splits)

lemma environmentOf_steps:
  "environmentOf (clearReset dest h) x = environmentOf h x"
  "environmentOf (unlink item h) x = environmentOf h x"
  "environmentOf (linkInto item dest h) x = environmentOf h x"
proof -
  have *: "environmentOf h' x = environmentOf h x"
    if "dom h' = dom h" "map_option environment (h' x) = map_option environment (h x)" for h'
    using that lock_dom[OF that(1)] by (auto simp: environmentOf_def split: option.splits)
  have e: "map_option environment (clearReset dest h x) = map_option environment (h x)"
    "map_option environment (unlink item h x) = map_option environment (h x)"
    "map_option environment (linkInto item dest h x) = map_option environment (h x)"
    by (auto simp: clearReset_def unlink_def linkInto_def updObj_def split: option.splits)
  show "environmentOf (clearReset dest h) x = environmentOf h x" by (rule *) (simp_all add: e)
  show "environmentOf (unlink item h) x = environmentOf h x" by (rule *) (simp_all add: e)
  show "environmentOf (linkInto item dest h) x = environmentOf h x" by (rule *) (simp_all add: e)
qed

lemma environmentOf_setEnv:
  assumes "item \<in> dom h" "dest = None \<or> the dest \<in> dom h"
  shows "environmentOf (setEnv item dest h) x = (if x = item then dest else environmentOf h x)"
proof -
  have l: "lock (setEnv item dest h) w = lock h w" for w by (rule lock_dom) simp
  have a: "setEnv item dest h x = (if x = item then map_option (\<lambda>ob. ob\<lparr>resetState := False, environment := dest\<rparr>) (h x) else h x)"
    by (simp add: setEnv_def updObj_def split: option.splits)
  have "lock h dest = dest" using assms(2) by (cases dest) (auto simp: lock_def)
  with assms(1) show ?thesis unfolding environmentOf_def l a by auto
qed

lemma environmentOf_reparent:
  assumes "item \<in> dom h" "dest = None \<or> the dest \<in> dom h"
  shows "environmentOf (reparent item dest h) x = (if x = item then dest else environmentOf h x)"
  using assms by (simp add: reparent_def environmentOf_steps environmentOf_setEnv)

lemma inventoryOf_reparent:
  assumes "containsOk h" "dest = None \<or> the dest \<in> dom h"
  shows "inventoryOf (reparent item dest h) r = removeAll item (inventoryOf h r) @ (if dest = Some r then [item] else [])"
proof -
  have "item \<notin> set (inventoryOf h r)" if "environmentOf h item \<noteq> Some r"
    using assms(1) that by (simp add: containsOk_def)
  then show ?thesis
    using assms(2) by (simp add: reparent_def inventoryOf_linkInto inventoryOf_steps environmentOf_steps)
qed

lemma containsOk_reparent:
  assumes "containsOk h" "item \<in> dom h" "dest = None \<or> the dest \<in> dom h"
  shows "containsOk (reparent item dest h)"
  unfolding containsOk_def inventoryOf_reparent[OF assms(1,3)] environmentOf_reparent[OF assms(2,3)]
  using assms(1) by (auto simp: containsOk_def distinct_removeAll)

lemma environmentOf_dom: "environmentOf h x = Some r \<Longrightarrow> x \<in> dom h \<and> r \<in> dom h"
  by (auto simp: environmentOf_def lock_def split: option.splits if_splits)

section \<open>What a move does to the tree\<close>

text \<open>The abstract state: which object contains which. A move changes one entry.\<close>

definition parents :: "heap \<Rightarrow> ref \<rightharpoonup> ref" where
  "parents h = environmentOf h"

definition insideRel :: "heap \<Rightarrow> (ref \<times> ref) set" where
  "insideRel h = {(x, r). environmentOf h x = Some r}"


lemma parents_reparent:
  assumes "item \<in> dom h" "dest = None \<or> the dest \<in> dom h"
  shows "parents (reparent item dest h) = (parents h)(item := dest)"
  by (rule ext) (simp add: parents_def environmentOf_reparent[OF assms])

lemma insideRel_reparent:
  assumes "item \<in> dom h" "dest = None \<or> the dest \<in> dom h"
  shows "insideRel (reparent item dest h) = {(x, r) \<in> insideRel h. x \<noteq> item} \<union> {(item, r) | r. dest = Some r}"
  by (auto simp: insideRel_def environmentOf_reparent[OF assms] split: if_splits)

text \<open>A move keeps the tree free of cycles unless the destination is inside the moved object.\<close>

lemma acyclic_reparent:
  assumes "acyclic (insideRel h)" "item \<in> dom h" "d \<in> dom h" "(d, item) \<notin> (insideRel h)\<^sup>*"
  shows "acyclic (insideRel (reparent item (Some d) h))"
proof -
  let ?S = "{(x, r) \<in> insideRel h. x \<noteq> item}"
  have s: "?S \<subseteq> insideRel h" by auto
  have "acyclic ?S" using acyclic_subset[OF assms(1) s] .
  moreover have "(d, item) \<notin> ?S\<^sup>*" using assms(4) rtrancl_mono[OF s] by blast
  moreover have "insideRel (reparent item (Some d) h) = insert (item, d) ?S"
    using insideRel_reparent[of item h "Some d"] assms(2,3) by auto
  ultimately show ?thesis by (simp add: acyclic_insert)
qed

lemma finite_insideRel: "finite (dom h) \<Longrightarrow> finite (insideRel h)"
  by (rule finite_subset[of _ "dom h \<times> dom h"]) (auto simp: insideRel_def dest: environmentOf_dom)

section \<open>\<^verbatim>\<open>deep_inventory()\<close>\<close>

lemma collect_mono: "collect n h xs = Some ys \<Longrightarrow> n \<le> m \<Longrightarrow> collect m h xs = Some ys"
proof (induction n h xs arbitrary: m ys rule: collect.induct)
  case (3 n h x xs)
  obtain m' where m: "m = Suc m'" "n \<le> m'" using 3(4) by (cases m) auto
  from 3(3) obtain b r where b: "collect n h (inventoryOf h x) = Some b" "collect (Suc n) h xs = Some r" "ys = x # b @ r"
    by (auto split: option.splits)
  have "collect m' h (inventoryOf h x) = Some b" using "3.IH"(1)[OF b(1) m(2)] .
  moreover have "collect (Suc m') h xs = Some r" by (rule "3.IH"(2)[OF b(1) b(2)]) (use m in simp)
  ultimately show ?case unfolding m(1) b(3) collect.simps by simp
qed simp_all

lemma collect_list:
  assumes "\<And>x. x \<in> set xs \<Longrightarrow> \<exists>n ys. collect n h (inventoryOf h x) = Some ys"
  shows "\<exists>n ys. collect n h xs = Some ys"
  using assms
proof (induction xs)
  case (Cons x xs)
  obtain n1 ys1 where 1: "collect n1 h (inventoryOf h x) = Some ys1" using Cons.prems by force
  obtain n2 ys2 where 2: "collect n2 h xs = Some ys2" using Cons by force
  let ?n = "Suc (max n1 n2)"
  have "collect (max n1 n2) h (inventoryOf h x) = Some ys1" "collect ?n h xs = Some ys2"
    using collect_mono[OF 1] collect_mono[OF 2, of ?n] by auto
  then have "collect ?n h (x # xs) = Some (x # ys1 @ ys2)" by simp
  then show ?case by blast
qed (auto intro: exI[of _ 0])

text \<open>With no cycle the recursion ends, and it lists what is inside, each object once.\<close>

lemma collect_ends:
  assumes "finite (dom h)" "acyclic (insideRel h)" "containsOk h"
  shows "\<exists>n ys. deepInventory n h r = Some ys"
proof -
  have "wf (insideRel h)" using finite_acyclic_wf[OF finite_insideRel[OF assms(1)] assms(2)] .
  then show ?thesis
  proof (induction r rule: wf_induct_rule)
    case (less r)
    have "\<exists>n ys. collect n h (inventoryOf h x) = Some ys" if "x \<in> set (inventoryOf h r)" for x
      using less[of x] that assms(3) unfolding deepInventory_def containsOk_def insideRel_def by blast
    then show ?case unfolding deepInventory_def by (rule collect_list)
  qed
qed


lemma inside_step: "containsOk h \<Longrightarrow> x \<in> set (inventoryOf h r) \<longleftrightarrow> (x, r) \<in> insideRel h"
  by (simp add: containsOk_def insideRel_def)

lemma inside_contents:
  "containsOk h \<Longrightarrow> {y. (y, x) \<in> (insideRel h)\<^sup>*} = insert x {y. \<exists>z\<in>set (inventoryOf h x). (y, z) \<in> (insideRel h)\<^sup>*}"
  by (auto simp: inside_step intro: rtrancl_into_rtrancl) (metis inside_step rtranclE)

lemma collect_set:
  "collect n h xs = Some ys \<Longrightarrow> containsOk h \<Longrightarrow> set ys = {y. \<exists>x\<in>set xs. (y, x) \<in> (insideRel h)\<^sup>*}"
proof (induction n h xs arbitrary: ys rule: collect.induct)
  case (3 n h x xs)
  from 3(3) obtain b r where b: "collect n h (inventoryOf h x) = Some b" "collect (Suc n) h xs = Some r" "ys = x # b @ r"
    by (auto split: option.splits)
  show ?case
    using "3.IH"(1)[OF b(1) 3(4)] "3.IH"(2)[OF b(1,2) 3(4)] inside_contents[OF 3(4), of x] b(3) by auto
qed simp_all

lemma siblings_apart:
  assumes "acyclic (insideRel h)" "environmentOf h x = Some r" "environmentOf h y = Some r" "x \<noteq> y"
  shows "(x, y) \<notin> (insideRel h)\<^sup>*"
proof
  assume "(x, y) \<in> (insideRel h)\<^sup>*"
  then have "(r, y) \<in> (insideRel h)\<^sup>*" using assms(2,4) by (auto simp: insideRel_def elim: converse_rtranclE)
  moreover have "(y, r) \<in> insideRel h" using assms(3) by (simp add: insideRel_def)
  ultimately have "(r, r) \<in> (insideRel h)\<^sup>+" by (rule rtrancl_into_trancl1)
  with assms(1) show False by (simp add: acyclic_def)
qed

lemma single_valued_insideRel: "single_valued (insideRel h)"
  by (simp add: single_valued_def insideRel_def)

lemma collect_distinct:
  "collect n h xs = Some ys \<Longrightarrow> containsOk h \<Longrightarrow> acyclic (insideRel h) \<Longrightarrow> distinct xs \<Longrightarrow>
   (\<And>x. x \<in> set xs \<Longrightarrow> environmentOf h x = Some p) \<Longrightarrow> distinct ys"
proof (induction n h xs arbitrary: ys p rule: collect.induct)
  case (3 n h x xs)
  note c = 3(4) and ac = 3(5) and di = 3(6) and en = 3(7)
  from 3(3) obtain b r where b: "collect n h (inventoryOf h x) = Some b" "collect (Suc n) h xs = Some r" "ys = x # b @ r"
    by (auto split: option.splits)
  have "distinct b" by (rule "3.IH"(1)[OF b(1) c ac, of x]) (use c in \<open>auto simp: containsOk_def\<close>)
  moreover have "distinct r" by (rule "3.IH"(2)[OF b(1,2) c ac, of p]) (use di en in auto)
  moreover have "x \<notin> set b"
  proof
    assume "x \<in> set b"
    then obtain z where "(z, x) \<in> insideRel h" "(x, z) \<in> (insideRel h)\<^sup>*"
      using collect_set[OF b(1) c] inside_step[OF c] by auto
    then show False using ac by (auto simp: acyclic_def dest: rtrancl_into_trancl1)
  qed
  moreover have apart: "(x, z) \<notin> (insideRel h)\<^sup>*" "(z, x) \<notin> (insideRel h)\<^sup>*" if "z \<in> set xs" for z
    using that di en siblings_apart[OF ac, of x p z] siblings_apart[OF ac, of z p x] by auto
  moreover have "set (x # b) \<inter> set r = {}"
  proof (rule ccontr)
    assume "set (x # b) \<inter> set r \<noteq> {}"
    moreover have "set (x # b) = {y. (y, x) \<in> (insideRel h)\<^sup>*}"
      using collect_set[OF b(1) c] inside_contents[OF c, of x] by simp
    ultimately obtain y z where y: "(y, x) \<in> (insideRel h)\<^sup>*" "(y, z) \<in> (insideRel h)\<^sup>*" "z \<in> set xs"
      using collect_set[OF b(2) c] by blast
    from single_valued_confluent[OF single_valued_insideRel y(1,2)] apart[OF y(3)] show False by blast
  qed
  ultimately show ?case unfolding b(3) by auto
qed simp_all

text \<open>
  C31. \<^verbatim>\<open>deep_inventory()\<close> ends and lists exactly what is inside the object, directly or through other objects, each object once, as long
  as environments and inventories agree and nothing is inside itself.
\<close>

theorem deep_inventory_exact:
  assumes "finite (dom h)" "containsOk h" "acyclic (insideRel h)"
  shows "\<exists>n xs. deepInventory n h r = Some xs \<and> distinct xs \<and> set xs = {x. (x, r) \<in> (insideRel h)\<^sup>+}"
proof -
  obtain n xs where x: "deepInventory n h r = Some xs" using collect_ends[OF assms(1,3,2)] by blast
  then have c: "collect n h (inventoryOf h r) = Some xs" by (simp add: deepInventory_def)
  have "distinct xs" by (rule collect_distinct[OF c assms(2,3)]) (use assms(2) in \<open>auto simp: containsOk_def\<close>)
  moreover have "set xs = {x. (x, r) \<in> (insideRel h)\<^sup>+}"
    using collect_set[OF c assms(2)] by (auto simp: inside_step[OF assms(2)] trancl_unfold_right)
  ultimately show ?thesis using x by blast
qed

text \<open>Three objects: a room with a bag in it, and a coin in the bag.\<close>

definition exampleObject :: "ref option \<Rightarrow> ref list \<Rightarrow> lpc_object" where
  "exampleObject e things = (newLpcObject ''/a'' 1 0 True 0)\<lparr>environment := e, inventory := things\<rparr>"

definition exampleRoom :: heap where
  "exampleRoom = [0 \<mapsto> exampleObject None [1], 1 \<mapsto> exampleObject (Some 0) [2], 2 \<mapsto> exampleObject (Some 1) []]"

lemma exampleRoom_env: "environmentOf exampleRoom x = (if x = 1 then Some 0 else if x = 2 then Some 1 else None)"
  by (simp add: environmentOf_def exampleRoom_def exampleObject_def lock_def newLpcObject_def)

lemma exampleRoom_inv: "inventoryOf exampleRoom r = (if r = 0 then [1] else if r = 1 then [2] else [])"
  by (simp add: inventoryOf_def exampleRoom_def exampleObject_def newLpcObject_def)

lemma exampleRoom_ok: "containsOk exampleRoom" "finite (dom exampleRoom)" "acyclic (insideRel exampleRoom)"
proof -
  show "containsOk exampleRoom" by (auto simp: containsOk_def exampleRoom_env exampleRoom_inv)
  show "finite (dom exampleRoom)" by (simp add: exampleRoom_def)
  have "insideRel exampleRoom \<subseteq> {(x, y). y < x}"
    by (auto simp: insideRel_def exampleRoom_env split: if_splits)
  moreover have "acyclic {(x::nat, y). y < x}"
    using wf_acyclic[OF wf_less] acyclic_converse[of "{(x::nat, y). x < y}"] by (simp add: converse_unfold)
  ultimately show "acyclic (insideRel exampleRoom)" by (rule acyclic_subset[rotated])
qed

theorem deep_inventory_exact_witness:
  "\<exists>n xs. deepInventory n exampleRoom 0 = Some xs \<and> distinct xs \<and> set xs = {x. (x, 0) \<in> (insideRel exampleRoom)\<^sup>+}"
  using deep_inventory_exact[OF exampleRoom_ok(2,1,3)] .

section \<open>Moves\<close>

definition keepsContained :: "vm \<Rightarrow> vm \<Rightarrow> bool" where
  "keepsContained vm vm' \<longleftrightarrow> (containsOk (vmHeap vm) \<longrightarrow> containsOk (vmHeap vm'))"

lemma tree_pointwise:
  assumes e: "\<And>r. map_option environment (h' r) = map_option environment (h r)"
    and i: "\<And>r. map_option inventory (h' r) = map_option inventory (h r)"
  shows "environmentOf h' x = environmentOf h x" "inventoryOf h' x = inventoryOf h x"
proof -
  have "h' r = None \<longleftrightarrow> h r = None" for r using e[of r] by (cases "h r"; cases "h' r") auto
  then have "dom h' = dom h" by (auto simp: dom_def)
  with e[of x] show "environmentOf h' x = environmentOf h x"
    by (cases "h x"; cases "h' x") (auto simp: environmentOf_def intro: lock_dom)
  show "inventoryOf h' x = inventoryOf h x"
    using i[of x] by (cases "h x"; cases "h' x") (auto simp: inventoryOf_def)
qed

lemma graph_tree:
  assumes "graphOf h' = graphOf h"
  shows "environmentOf h' x = environmentOf h x" "inventoryOf h' x = inventoryOf h x"
proof -
  have g: "map_option (\<lambda>ob. ob\<lparr>variables := []\<rparr>) (h' r) = map_option (\<lambda>ob. ob\<lparr>variables := []\<rparr>) (h r)" for r
    using fun_cong[OF assms, of r] by (simp add: graphOf_def)
  have "map_option environment (h' r) = map_option environment (h r)" "map_option inventory (h' r) = map_option inventory (h r)" for r
    using arg_cong[OF g[of r], of "map_option environment"] arg_cong[OF g[of r], of "map_option inventory"]
    by (simp_all add: option.map_comp comp_def)
  then show "environmentOf h' x = environmentOf h x" "inventoryOf h' x = inventoryOf h x" by (rule tree_pointwise)+
qed

lemma containsOk_touch: "containsOk (vmHeap (touch r vm)) = containsOk (vmHeap vm)"
proof -
  have "map_option environment (vmHeap (touch r vm) x) = map_option environment (vmHeap vm x)"
    "map_option inventory (vmHeap (touch r vm) x) = map_option inventory (vmHeap vm x)" for x
    by (simp_all add: touch_def readClock_def updObj_def touchTimeOfRef_def split: option.splits)
  note t = tree_pointwise[OF this]
  show ?thesis by (simp add: containsOk_def t)
qed

interpretation containedWorld: world_relation keepsContained
proof unfold_locales
  fix vm vm' :: vm
  assume "sameCore vm vm'"
  then have g: "graphOf (vmHeap vm') = graphOf (vmHeap vm)" by (simp add: sameCore_def)
  then show "keepsContained vm vm'" by (simp add: keepsContained_def containsOk_def graph_tree[OF g])
qed (auto simp: keepsContained_def containsOk_touch bindClosure_def containsOk_reparent relink_def
      pushOrigin_def popOrigin_def pushCommandGiver_def popCommandGiver_def enterFrame_def leaveFrame_def pushDefers_def popDefers_def
      split: option.splits)

text \<open>
  The efun \<^verbatim>\<open>set_environment()\<close>, which a move hook of the mudlib calls for the move itself. A reference without an object has no
  counterpart in the driver, whose pointers hold their objects.
\<close>

definition setEnvironmentTo :: "ref \<Rightarrow> ref option \<Rightarrow> vm \<Rightarrow> vm_result \<times> vm" where
  "setEnvironmentTo item dest vm =
     (if vmHeap vm item = None \<or> (case dest of None \<Rightarrow> False | Some d \<Rightarrow> vmHeap vm d = None) then (Inl VUndef, vm)
      else (Inr vVoid, vm\<lparr>vmHeap := reparent item dest (vmHeap vm)\<rparr>))"

definition efunSetEnvironment :: "vm \<Rightarrow> lvalue list \<Rightarrow> vm_result \<times> vm" where
  "efunSetEnvironment vm args =
     (case args of
        [] \<Rightarrow> (Inl (vmErr ''set_environment() requires at least 1 argument''), vm)
      | a # rest \<Rightarrow>
          (case vdata a of
             VObj (Some item) \<Rightarrow>
               (case rest of
                  [] \<Rightarrow> setEnvironmentTo item None vm
                | d # _ \<Rightarrow>
                    (case vdata d of
                       VVoid \<Rightarrow> setEnvironmentTo item None vm
                     | VObj (Some dest) \<Rightarrow> setEnvironmentTo item (Some dest) vm
                     | _ \<Rightarrow> (Inl (vmErr ''Bad argument 2 to set_environment()''), vm)))
           | _ \<Rightarrow> (Inl (vmErr ''Bad argument 1 to set_environment()''), vm)))"

lemma setEnvironmentTo_keeps: "keepsContained vm (snd (setEnvironmentTo item dest vm))"
proof -
  have "containsOk (reparent item dest (vmHeap vm))"
    if "containsOk (vmHeap vm)" "\<not> (vmHeap vm item = None \<or> (case dest of None \<Rightarrow> False | Some d \<Rightarrow> vmHeap vm d = None))"
    using that by (intro containsOk_reparent) (auto split: option.splits)
  then show ?thesis by (simp add: setEnvironmentTo_def keepsContained_def)
qed

lemma efunSetEnvironment_keeps: "keepsContained vm (snd (efunSetEnvironment vm args))"
proof -
  have same: "keepsContained vm vm" by (simp add: keepsContained_def)
  show ?thesis
    unfolding efunSetEnvironment_def
    by (auto simp: same setEnvironmentTo_keeps split: list.split vdata.split option.split)
qed

text \<open>
  C28. Moving an object keeps the containment tree consistent, through everything that runs on the way: the driver hooks and their calls of
  \<^verbatim>\<open>set_environment()\<close>, the \<^verbatim>\<open>init()\<close> calls of the destination and of every occupant, and errors in any of them. Every object is
  in the inventory of its environment and of no other object, exactly once. The condition is that no other efun of the environment breaks
  this; \<^verbatim>\<open>restore_state()\<close>, which clears inventories without unlinking who is in them, is not to be among them.
\<close>

theorem move_object_containment:
  assumes efuns: "\<forall>name e. eEfuns env name = Some e \<longrightarrow> e = efunSetEnvironment \<or> (\<forall>vm args. keepsContained vm (snd (e vm args)))"
    and "containsOk (vmHeap vm)" "item \<in> dom (vmHeap vm)" "dest \<in> dom (vmHeap vm)"
    "moveObject n env (Some item) (Some dest) vm = Some (res, vm')"
  shows "containsOk (vmHeap vm')"
proof -
  have "efunsRespect keepsContained env" using efuns efunSetEnvironment_keeps unfolding efunsRespect_def by metis
  from containedWorld.moveObject_respects[OF this, of "Some item" vm "Some dest" n] show ?thesis
    using assms(2-5) by (auto simp: answerIn_def keepsContained_def)
qed

text \<open>Without hooks and without command givers around, a move runs no LPC code.\<close>

definition quietMove :: "vm \<Rightarrow> ref \<Rightarrow> ref \<Rightarrow> bool" where
  "quietMove vm item dest \<longleftrightarrow>
     hookClosure kHMoveObject0 vm = None \<and> hookClosure kHMoveObject1 vm = None \<and> \<not> isDestructedRef vm item \<and> \<not> isDestructedRef vm dest \<and>
     (\<forall>r ob. vmHeap vm r = Some ob \<longrightarrow> \<not> commandsEnabled ob)"

lemma reparent_fields:
  "map_option commandsEnabled (reparent item dest h r) = map_option commandsEnabled (h r)"
proof -
  have u: "map_option commandsEnabled (updObj k f h r) = map_option commandsEnabled (h r)"
    if "\<And>ob. commandsEnabled (f ob) = commandsEnabled ob" for k f h
    using that by (simp add: updObj_def split: option.splits)
  have "map_option commandsEnabled (clearReset dest h r) = map_option commandsEnabled (h r)"
    "map_option commandsEnabled (unlink item h r) = map_option commandsEnabled (h r)"
    "map_option commandsEnabled (setEnv item dest h r) = map_option commandsEnabled (h r)"
    "map_option commandsEnabled (linkInto item dest h r) = map_option commandsEnabled (h r)" for h
    unfolding clearReset_def unlink_def setEnv_def linkInto_def by (cases dest; simp add: u split: option.split)+
  then show ?thesis by (simp add: reparent_def)
qed

lemma quiet_commands:
  assumes "quietMove vm item dest"
  shows "\<not> commandsOn (vm\<lparr>vmHeap := relink item dest (vmHeap vm)\<rparr>) r"
proof -
  have "map_option commandsEnabled (relink item dest (vmHeap vm) r) = map_option commandsEnabled (vmHeap vm r)"
    by (simp add: relink_def reparent_fields)
  with assms show ?thesis
    by (cases "vmHeap vm r"; cases "relink item dest (vmHeap vm) r") (auto simp: quietMove_def commandsOn_def)
qed

lemma greet_quiet: "(\<And>r. \<not> commandsOn vm r) \<Longrightarrow> greetOccupants n env item obs vm = Some (Inr (), vm)"
  by (induction obs) (auto simp: callInit_def andThen_def)

lemma quiet_move:
  assumes "quietMove vm item dest" "item \<noteq> dest"
  shows "moveObject n env (Some item) (Some dest) vm = Some (Inr (), vm\<lparr>vmHeap := relink item dest (vmHeap vm)\<rparr>)"
proof -
  note q = quiet_commands[OF assms(1)]
  have "moveDirect n env item dest vm = Some (Inr (), vm\<lparr>vmHeap := relink item dest (vmHeap vm)\<rparr>)"
    by (simp add: moveDirect_def callInit_def q andThen_def greet_quiet[OF q])
  with assms show ?thesis by (simp add: moveObject_def quietMove_def)
qed

text \<open>
  C29. The pointer structure implements a map from objects to their containers. A move that runs no LPC code (no move hook, no object that can
  give commands) is the update of one entry of that map; the
  inventories read it backwards, with the moved object last in its new container and the others in their old order; and the tree
  stays free of cycles when the destination is not inside the moved object.
\<close>

theorem move_refines_parent_map:
  assumes "containsOk (vmHeap vm)" "item \<in> dom (vmHeap vm)" "dest \<in> dom (vmHeap vm)" "item \<noteq> dest" "quietMove vm item dest"
  shows "\<exists>vm'. moveObject n env (Some item) (Some dest) vm = Some (Inr (), vm') \<and>
    parents (vmHeap vm') = (parents (vmHeap vm))(item \<mapsto> dest) \<and>
    (\<forall>r. set (inventoryOf (vmHeap vm') r) = {x. parents (vmHeap vm') x = Some r}) \<and>
    (\<forall>r. inventoryOf (vmHeap vm') r = removeAll item (inventoryOf (vmHeap vm) r) @ (if r = dest then [item] else [])) \<and>
    (acyclic (insideRel (vmHeap vm)) \<longrightarrow> (dest, item) \<notin> (insideRel (vmHeap vm))\<^sup>* \<longrightarrow> acyclic (insideRel (vmHeap vm')))"
proof -
  let ?h = "vmHeap vm" and ?h' = "relink item dest (vmHeap vm)"
  have "containsOk ?h'" using assms(1-3) by (simp add: relink_def containsOk_reparent)
  then have "\<forall>r. set (inventoryOf ?h' r) = {x. parents ?h' x = Some r}" by (auto simp: containsOk_def parents_def)
  moreover have "parents ?h' = (parents ?h)(item \<mapsto> dest)" using assms(2,3) by (simp add: relink_def parents_reparent)
  moreover have "\<forall>r. inventoryOf ?h' r = removeAll item (inventoryOf ?h r) @ (if r = dest then [item] else [])"
    using assms(1,3) by (auto simp: relink_def inventoryOf_reparent)
  moreover have "acyclic (insideRel ?h) \<longrightarrow> (dest, item) \<notin> (insideRel ?h)\<^sup>* \<longrightarrow> acyclic (insideRel ?h')"
    using acyclic_reparent assms(2,3) by (simp add: relink_def)
  ultimately show ?thesis using quiet_move[OF assms(5,4)] by simp
qed

text \<open>
  C30. Nothing stops a container from being moved into its own contents. When it is, the containment pointers form a cycle, and
  \<^verbatim>\<open>deep_inventory()\<close> of the container recurses without end: no recursion depth is enough.
\<close>

theorem move_into_own_contents:
  assumes "containsOk (vmHeap vm)" "item \<noteq> dest" "quietMove vm item dest" "environmentOf (vmHeap vm) dest = Some item"
  shows "\<exists>vm'. moveObject n env (Some item) (Some dest) vm = Some (Inr (), vm') \<and> \<not> acyclic (insideRel (vmHeap vm')) \<and>
    (\<forall>depth. deepInventory depth (vmHeap vm') item = None)"
proof -
  let ?h' = "relink item dest (vmHeap vm)"
  have d: "item \<in> dom (vmHeap vm)" "dest \<in> dom (vmHeap vm)" using environmentOf_dom[OF assms(4)] by auto
  have c: "containsOk ?h'" using assms(1) d by (simp add: relink_def containsOk_reparent)
  have e: "environmentOf ?h' item = Some dest" "environmentOf ?h' dest = Some item"
    using d assms(2,4) by (simp_all add: relink_def environmentOf_reparent)
  then have cyc: "(item, dest) \<in> insideRel ?h'" "(dest, item) \<in> insideRel ?h'" by (simp_all add: insideRel_def)
  then have "(item, item) \<in> (insideRel ?h')\<^sup>+" by (rule trancl_into_trancl[OF r_into_trancl])
  then have na: "\<not> acyclic (insideRel ?h')" by (auto simp: acyclic_def)
  have n: "collect k ?h' xs = None" if "item \<in> set xs \<or> dest \<in> set xs" for k xs
    using that
  proof (induction k ?h' xs rule: collect.induct)
    case (3 k x xs)
    have "dest \<in> set (inventoryOf ?h' item)" "item \<in> set (inventoryOf ?h' dest)" using c e by (simp_all add: containsOk_def)
    with 3 show ?case by (cases "collect k ?h' (inventoryOf ?h' x)") (auto split: option.splits)
  qed auto
  have "dest \<in> set (inventoryOf ?h' item)" using c e by (simp add: containsOk_def)
  then have "deepInventory k ?h' item = None" for k by (simp add: deepInventory_def n)
  with na quiet_move[OF assms(3,2)] show ?thesis by simp
qed

definition exampleRoomVm :: vm where
  "exampleRoomVm = exampleVm\<lparr>vmHeap := exampleRoom\<rparr>"

lemma exampleRoom_quiet: "quietMove exampleRoomVm item dest"
  by (auto simp: quietMove_def exampleRoomVm_def exampleVm_def hookClosure_def getDriverHook_def kHMoveObject0_def kHMoveObject1_def
      kNumDriverHooks_def isDestructedRef_def exampleRoom_def exampleObject_def newLpcObject_def vVoid_def mkValue_def split: if_splits)

lemma exampleRoom_contained: "containsOk (vmHeap exampleRoomVm)" "0 \<in> dom (vmHeap exampleRoomVm)" "2 \<in> dom (vmHeap exampleRoomVm)"
  using exampleRoom_ok(1) by (simp_all add: exampleRoomVm_def exampleVm_def exampleRoom_def)

text \<open>A room whose mudlib moves by the hook \<^verbatim>\<open>set_driver_hook(H_MOVE_OBJECT1, #'set_environment)\<close>.\<close>

definition hookEnv :: vm_env where
  "hookEnv = exampleEnv\<lparr>eEfuns := [''set_environment'' \<mapsto> efunSetEnvironment, ''time'' \<mapsto> (\<lambda>vm args. (Inr (vInt 0), vm))]\<rparr>"

definition hookVm :: vm where
  "hookVm = exampleRoomVm\<lparr>driverHooks := (replicate 32 vVoid)[1 := mkValue (VFun (Some 7))],
     vmClosures := [7 \<mapsto> \<lparr>clOwner = None, clFunction = ''set_environment'', clBoundArgs = [], clForceEfun = True, clUnbound = True,
       clLambdaParams = [], clLambdaBody = vVoid\<rparr>]\<rparr>"

lemma hook_move:
  "\<exists>vm'. moveObject 1 hookEnv (Some 2) (Some 0) hookVm = Some (Inr (), vm') \<and> vmHeap vm' = reparent 2 (Some 0) exampleRoom"
proof -
  have hook: "hookClosure kHMoveObject1 hookVm = Some 7"
    by (simp add: hookClosure_def getDriverHook_def kHMoveObject1_def kNumDriverHooks_def hookVm_def exampleRoomVm_def mkValue_def)
  have heap: "vmHeap hookVm = exampleRoom" by (simp add: hookVm_def exampleRoomVm_def)
  have alive: "\<exists>ob. exampleRoom r = Some ob \<and> \<not> destructed ob" if "r \<in> {0, 2}" for r
    using that by (auto simp: exampleRoom_def exampleObject_def newLpcObject_def)
  obtain a b where ab: "exampleRoom 0 = Some a" "\<not> destructed a" "exampleRoom 2 = Some b" "\<not> destructed b"
    using alive[of 0] alive[of 2] by auto
  define args where "args = [mkValue (VObj (Some 2)), mkValue (VObj (Some 0))]"
  define cl where "cl = \<lparr>clOwner = Some (2 :: ref), clFunction = ''set_environment'', clBoundArgs = [], clForceEfun = True, clUnbound = False,
       clLambdaParams = [], clLambdaBody = vVoid\<rparr>"
  have cl: "clOwner cl = Some 2" "\<not> clUnbound cl" "clBoundArgs cl = []" "vdata (clLambdaBody cl) = VVoid" "clFunction cl = ''set_environment''"
    by (simp_all add: cl_def vVoid_def mkValue_def)
  define vm1 where "vm1 = bindClosure 7 (Some 2) hookVm"
  have vm1: "vmClosures vm1 7 = Some cl" "vmHeap vm1 = exampleRoom"
    by (simp_all add: vm1_def bindClosure_def hookVm_def cl_def exampleRoomVm_def)
  have target: "closureTarget hookEnv cl 2 vm1 = (REfun efunSetEnvironment, vm1)" by (simp add: closureTarget_def cl_def hookEnv_def)
  have moved: "efunSetEnvironment (enterFrame 2 ''set_environment'' vm1) args =
      (Inr vVoid, (enterFrame 2 ''set_environment'' vm1)\<lparr>vmHeap := reparent 2 (Some 0) exampleRoom\<rparr>)"
    by (simp add: efunSetEnvironment_def args_def mkValue_def setEnvironmentTo_def enterFrame_def vm1 ab)
  have "closureBody outOfFuel hookEnv (Some 7) args vm1 = Some (Inr vVoid,
      leaveFrame (objectChanged 2 vm1) ((enterFrame 2 ''set_environment'' vm1)\<lparr>vmHeap := reparent 2 (Some 0) exampleRoom\<rparr>))"
    by (simp add: closureBody_def vm1 lock_def ab target cl moved)
  then have "callDriverHookClosure 1 hookEnv (Some 7) (Some 2) args hookVm = Some (Inr vVoid,
      leaveFrame (objectChanged 2 vm1) ((enterFrame 2 ''set_environment'' vm1)\<lparr>vmHeap := reparent 2 (Some 0) exampleRoom\<rparr>))"
    by (simp add: callDriverHookClosure_def callClosure_def vm1_def)
  then show ?thesis
    by (simp add: moveObject_def hook isDestructedRef_def heap ab flip: args_def) (simp add: ignoreValue_def leaveFrame_def)
qed

theorem move_object_containment_witness:
  "\<exists>vm'. moveObject 1 hookEnv (Some 2) (Some 0) hookVm = Some (Inr (), vm') \<and> environmentOf (vmHeap vm') 2 = Some 0 \<and> containsOk (vmHeap vm')"
proof -
  obtain vm' where m: "moveObject 1 hookEnv (Some 2) (Some 0) hookVm = Some (Inr (), vm')" "vmHeap vm' = reparent 2 (Some 0) exampleRoom"
    using hook_move by blast
  have efuns: "\<forall>name e. eEfuns hookEnv name = Some e \<longrightarrow> e = efunSetEnvironment \<or> (\<forall>vm args. keepsContained vm (snd (e vm args)))"
    by (auto simp: hookEnv_def keepsContained_def split: if_splits)
  have heap: "vmHeap hookVm = exampleRoom" by (simp add: hookVm_def exampleRoomVm_def)
  have "containsOk (vmHeap vm')"
    using move_object_containment[OF efuns _ _ _ m(1)] exampleRoom_contained exampleRoom_ok(1)
    by (simp add: heap exampleRoomVm_def)
  moreover have "environmentOf (vmHeap vm') 2 = Some 0"
    using m(2) environmentOf_reparent[of 2 exampleRoom "Some 0" 2] exampleRoom_contained(2,3) by (simp add: exampleRoomVm_def)
  ultimately show ?thesis using m(1) by blast
qed

theorem move_refines_parent_map_witness:
  "\<exists>vm'. moveObject 1 exampleEnv (Some 2) (Some 0) exampleRoomVm = Some (Inr (), vm') \<and>
     inventoryOf (vmHeap vm') 0 = [1, 2] \<and> inventoryOf (vmHeap vm') 1 = []"
  using move_refines_parent_map[OF exampleRoom_contained(1,3,2) _ exampleRoom_quiet, of 1 exampleEnv]
  by (auto simp: exampleRoomVm_def exampleVm_def exampleRoom_inv)

theorem move_into_own_contents_witness:
  "\<exists>vm'. moveObject 1 exampleEnv (Some 1) (Some 2) exampleRoomVm = Some (Inr (), vm') \<and> deepInventory 1000 (vmHeap vm') 1 = None"
  using move_into_own_contents[OF exampleRoom_contained(1) _ exampleRoom_quiet, of 1 2 1 exampleEnv]
  by (auto simp: exampleRoomVm_def exampleVm_def exampleRoom_env)

end
