(* ===== verification/Dispatch.thy ===== *)
theory Dispatch
  imports Vm_World
begin

text \<open>
  Which function a call into an object runs when shadows are in the way, and which action handlers a command runs.
\<close>

section \<open>Shadows\<close>

definition activeShadow :: "vm \<Rightarrow> ref \<Rightarrow> bool" where
  "activeShadow vm s \<longleftrightarrow> Some s \<noteq> currentObject vm \<and> \<not> isDestructedRef vm s"

text \<open>The active shadows of an object, innermost first, and what an object shadows, outermost first.\<close>

fun outward :: "vm \<Rightarrow> ref \<Rightarrow> ref list \<Rightarrow> bool" where
  "outward vm r [] \<longleftrightarrow> (case shadowedByOf vm r of None \<Rightarrow> True | Some s \<Rightarrow> \<not> activeShadow vm s)"
| "outward vm r (s # ss) \<longleftrightarrow> shadowedByOf vm r = Some s \<and> activeShadow vm s \<and> outward vm s ss"

fun inward :: "vm \<Rightarrow> ref \<Rightarrow> ref list \<Rightarrow> bool" where
  "inward vm r [] \<longleftrightarrow> shadowingOf vm r = None"
| "inward vm r (s # ss) \<longleftrightarrow> shadowingOf vm r = Some s \<and> inward vm s ss"

text \<open>The reference: the first object of a list whose inherit tree defines the function.\<close>

fun firstDefining :: "vm \<Rightarrow> ref list \<Rightarrow> string \<Rightarrow> (CompiledProgram \<times> FunctionEntry \<times> ref) option" where
  "firstDefining vm [] name = None"
| "firstDefining vm (t # ts) name =
     (case programOf vm t of
        None \<Rightarrow> None
      | Some p \<Rightarrow> (case firstDefinition (linearised p) name of Some (q, f) \<Rightarrow> Some (q, f, t) | None \<Rightarrow> firstDefining vm ts name))"

lemma outermostShadow_last:
  "outward vm r ss \<Longrightarrow> length ss < n \<Longrightarrow> outermostShadow n vm r = Some (last (r # ss))"
proof (induction ss arbitrary: r n)
  case Nil
  then show ?case by (cases n) (auto simp: activeShadow_def split: option.splits)
next
  case (Cons s ss)
  then show ?case by (cases n) (auto simp: activeShadow_def)
qed

lemma cache_irrelevant:
  "programOf (vm\<lparr>vmCache := c\<rparr>) r = programOf vm r" "shadowingOf (vm\<lparr>vmCache := c\<rparr>) r = shadowingOf vm r"
  by (simp_all add: programOf_def shadowingOf_def split: option.splits)

lemma firstDefining_cache: "firstDefining (vm\<lparr>vmCache := c\<rparr>) ts name = firstDefining vm ts name"
  by (induction ts) (simp_all add: cache_irrelevant split: option.splits)

lemma inward_cache: "inward (vm\<lparr>vmCache := c\<rparr>) r ts = inward vm r ts"
  by (induction ts arbitrary: r) (simp_all add: cache_irrelevant)

lemma findInShadows_first:
  assumes U: "closedUniverse U"
  shows "inward vm r ts \<Longrightarrow> length ts < n \<Longrightarrow> coherent U (vmCache vm) \<Longrightarrow>
      (\<And>t. t \<in> set (r # ts) \<Longrightarrow> \<exists>p\<in>U. programOf vm t = Some p) \<Longrightarrow>
    \<exists>vm'. findInShadows n name r vm = Some (Inr (firstDefining vm (r # ts) name), vm')"
proof (induction ts arbitrary: r n vm)
  case Nil
  then obtain m where n: "n = Suc m" by (cases n) auto
  obtain p where p: "p \<in> U" "programOf vm r = Some p" using Nil.prems(4)[of r] by auto
  obtain l c where l: "findFunctionInChain p name (vmCache vm) = (l, c)" by fastforce
  have "l = firstDefinition (linearised p) name" using find_chain_correct(1)[OF U p(1) Nil.prems(3), of name] l by simp
  then show ?case
    using Nil.prems(1) p(2) l n by (auto simp: lookupIn_def cache_irrelevant split: option.splits)
next
  case (Cons t ts)
  then obtain m where n: "n = Suc m" "length ts < m" by (cases n) auto
  obtain p where p: "p \<in> U" "programOf vm r = Some p" using Cons.prems(4)[of r] by auto
  obtain l c where l: "findFunctionInChain p name (vmCache vm) = (l, c)" by fastforce
  have lc: "l = firstDefinition (linearised p) name" "coherent U c"
    using find_chain_correct(1)[OF U p(1) Cons.prems(3), of name] l by simp_all
  show ?case
  proof (cases l)
    case None
    obtain vm' where "findInShadows m name t (vm\<lparr>vmCache := c\<rparr>) = Some (Inr (firstDefining (vm\<lparr>vmCache := c\<rparr>) (t # ts) name), vm')"
      using Cons.IH[of "vm\<lparr>vmCache := c\<rparr>" t m] Cons.prems(1,4) n(2) lc(2) by (auto simp: inward_cache cache_irrelevant)
    then show ?thesis
      using Cons.prems(1) p(2) l n(1) lc(1) None by (simp add: lookupIn_def cache_irrelevant firstDefining_cache del: firstDefining.simps(2))
        (simp add: firstDefining.simps(2)[of _ r])
  next
    case (Some qf)
    then show ?thesis using p(2) l n(1) lc(1) by (cases qf) (simp add: lookupIn_def)
  qed
qed

lemma touch_irrelevant:
  "currentObject (touch r vm) = currentObject vm" "isDestructedRef (touch r vm) s = isDestructedRef vm s"
  "shadowedByOf (touch r vm) s = shadowedByOf vm s" "shadowingOf (touch r vm) s = shadowingOf vm s"
  "programOf (touch r vm) s = programOf vm s" "vmCache (touch r vm) = vmCache vm"
proof -
  define f where "f = (\<lambda>ob. touchTimeOfRef (vmClock vm (vmReads vm)) (ob\<lparr>resetState := False\<rparr>))"
  have h: "vmHeap (touch r vm) = updObj r f (vmHeap vm)" by (simp add: touch_def readClock_def f_def)
  have f: "destructed (f ob) = destructed ob" "shadowedBy (f ob) = shadowedBy ob" "shadowing (f ob) = shadowing ob"
    "program (f ob) = program ob" for ob by (simp_all add: f_def touchTimeOfRef_def)
  have u: "(case updObj r f h s of None \<Rightarrow> a | Some ob \<Rightarrow> g ob) = (case h s of None \<Rightarrow> a | Some ob \<Rightarrow> g ob)"
    if "\<And>ob. g (f ob) = g ob" for g a and h :: heap
    using that by (cases "s = r"; cases "h s") (auto simp: updObj_def split: option.splits)
  show "currentObject (touch r vm) = currentObject vm" "vmCache (touch r vm) = vmCache vm"
    by (simp_all add: touch_def readClock_def currentObject_def)
  show "isDestructedRef (touch r vm) s = isDestructedRef vm s" unfolding isDestructedRef_def h by (rule u) (simp add: f)
  show "shadowedByOf (touch r vm) s = shadowedByOf vm s" unfolding shadowedByOf_def h lock_updObj by (rule u) (simp add: f)
  show "shadowingOf (touch r vm) s = shadowingOf vm s" unfolding shadowingOf_def h lock_updObj by (rule u) (simp add: f)
  have "vmPrograms (touch r vm) = vmPrograms vm" by (simp add: touch_def readClock_def)
  then show "programOf (touch r vm) s = programOf vm s" unfolding programOf_def h by (simp only:) (rule u, simp add: f)
qed

lemma touch_chains:
  "outward (touch r vm) s ss = outward vm s ss" "inward (touch r vm) s ss = inward vm s ss"
  "firstDefining (touch r vm) ss name = firstDefining vm ss name"
proof -
  show "outward (touch r vm) s ss = outward vm s ss"
    by (induction ss arbitrary: s) (simp_all add: touch_irrelevant activeShadow_def split: option.splits)
  show "inward (touch r vm) s ss = inward vm s ss"
    by (induction ss arbitrary: s) (simp_all add: touch_irrelevant)
  show "firstDefining (touch r vm) ss name = firstDefining vm ss name"
    by (induction ss) (simp_all add: touch_irrelevant split: option.splits)
qed

text \<open>
  C32. A call into an object runs the definition of its outermost active shadow; where that one does not define the function, the next
  object inwards is asked, down to the object itself. What counts is the definition, not the value it returns. A destructed
  shadow, and a shadow that is itself the caller, is passed over together with everything outside it. When no object of the
  chain defines the function, nothing runs and the call returns void.
\<close>

theorem call_through_shadows:
  assumes "\<not> isDestructedRef vm r" "outward vm r ss" "inward vm (last (r # ss)) ts" "length ss < n" "length ts < n"
    "closedUniverse U" "coherent U (vmCache vm)" "\<forall>t\<in>set (last (r # ss) # ts). \<exists>p\<in>U. programOf vm t = Some p"
  shows "\<exists>vm'. sameCore (touch r vm) vm' \<and> callFunction n env (Some r) name args org vm =
    (case firstDefining vm (last (r # ss) # ts) name of
       None \<Rightarrow> Some (Inr vVoid, vm')
     | Some (q, f, t) \<Rightarrow> guardedRun n env q f args t org vm')"
proof -
  let ?t = "last (r # ss)"
  have o: "outermostShadow n (touch r vm) r = Some ?t"
    by (rule outermostShadow_last) (use assms(2,4) in \<open>simp_all add: touch_chains\<close>)
  obtain vm' where f: "findInShadows n name ?t (touch r vm) = Some (Inr (firstDefining vm (?t # ts) name), vm')"
    using findInShadows_first[OF assms(6), of "touch r vm" ?t ts n name] assms(3,5,7,8)
    by (auto simp: touch_chains touch_irrelevant simp del: firstDefining.simps)
  show ?thesis
    using assms(1) o f findInShadows_same[OF f]
    by (auto simp: callFunction_def simp del: firstDefining.simps split: option.splits)
qed

text \<open>A room whose \<^verbatim>\<open>create\<close> is shadowed by object 1, while its \<^verbatim>\<open>query\<close> is not.\<close>

definition shadowProgram :: CompiledProgram where
  "shadowProgram = CompiledProgram 3 [] [exampleFn ''create'' 0] [] [] [] [] [] Map.empty"

definition shadowVm :: vm where
  "shadowVm = exampleVm\<lparr>vmHeap := [0 \<mapsto> (newLpcObject ''/room'' 1 0 True 0)\<lparr>shadowedBy := Some 1\<rparr>,
       1 \<mapsto> (newLpcObject ''/shadow'' 3 0 True 0)\<lparr>shadowing := Some 0\<rparr>],
     vmPrograms := [1 \<mapsto> exampleBase, 3 \<mapsto> shadowProgram]\<rparr>"

theorem call_through_shadows_witness:
  "\<exists>vm'. callFunction 2 exampleEnv (Some 0) ''query'' [] ODriver shadowVm =
     guardedRun 2 exampleEnv exampleBase (exampleFn ''query'' 3) [] 0 ODriver vm'"
proof -
  have u: "closedUniverse {exampleBase, shadowProgram}"
    by (auto simp: closedUniverse_def exampleBase_def shadowProgram_def)
  have c: "coherent {exampleBase, shadowProgram} (vmCache shadowVm)" by (simp add: coherent_def shadowVm_def exampleVm_def)
  note d = shadowVm_def exampleVm_def newLpcObject_def
  have 0: "\<not> isDestructedRef shadowVm 0" by (simp add: isDestructedRef_def d)
  have 1: "outward shadowVm 0 [1]"
    by (simp add: shadowedByOf_def activeShadow_def currentObject_def isDestructedRef_def lock_def d)
  have 2: "inward shadowVm (last [0, 1]) [0]" by (simp add: shadowingOf_def lock_def d)
  have 3: "\<forall>t\<in>set (last [0, 1] # [0]). \<exists>p\<in>{exampleBase, shadowProgram}. programOf shadowVm t = Some p"
    by (simp add: programOf_def d)
  have "firstDefining shadowVm [1, 0] ''query'' = Some (exampleBase, exampleFn ''query'' 3, 0)"
    by (simp add: programOf_def d exampleBase_def shadowProgram_def ownFunction_def exampleFn_def)
  with call_through_shadows[OF 0 1 2 _ _ u c 3, of 2 exampleEnv "''query''" "[]" ODriver] show ?thesis by auto
qed

section \<open>Commands\<close>

lemma dropWhile_blanks: "\<forall>c\<in>set bs. isBlank c \<Longrightarrow> dropWhile isBlank (bs @ s) = dropWhile isBlank s"
  by (induction bs) auto

lemma split_line:
  assumes "\<forall>c\<in>set lead. isBlank c" "v \<noteq> []" "\<forall>c\<in>set v. \<not> isBlank c" "sep \<noteq> []" "\<forall>c\<in>set sep. isBlank c" "a \<noteq> []" "\<not> isBlank (hd a)"
  shows "splitVerbAndArg (lead @ v @ sep @ a) = (v, Some a)"
proof -
  obtain v1 vs where v: "v = v1 # vs" using assms(2) by (cases v) auto
  have "dropWhile isBlank (lead @ v @ sep @ a) = v @ sep @ a" using assms(1,3) v by (simp add: dropWhile_blanks)
  moreover have "takeWhile (\<lambda>c. \<not> isBlank c) (v @ sep @ a) = v" "dropWhile (\<lambda>c. \<not> isBlank c) (v @ sep @ a) = sep @ a"
    using assms(3,4,5) by (cases sep; simp)+
  moreover have "dropWhile isBlank (sep @ a) = a" using assms(5,6,7) by (cases a) (simp_all add: dropWhile_blanks)
  ultimately show ?thesis using assms(6) unfolding splitVerbAndArg_def Let_def by presburger
qed

lemma tryActions_skip:
  "\<forall>a\<in>set pre. \<not> actionMatches v a \<or> liveOwner vm a = None \<Longrightarrow>
   tryActions n env g v arg (pre @ es) vm = tryActions n env g v arg es vm"
  by (induction pre) auto

text \<open>
  A command line is split at the first run of blanks, and the first action, newest first, that matches the verb and whose owner
  is alive handles it, with the rest of the line as the argument: when its handler returns a true value the command is done and
  no other handler runs; only when the value is false are the older actions tried. Whatever the handlers do, errors included, the
  verb, the command giver and all other tracking stacks are afterwards what they were.
\<close>

theorem dispatch_first_match:
  assumes line: "\<forall>c\<in>set lead. isBlank c" "v \<noteq> []" "\<forall>c\<in>set v. \<not> isBlank c" "sep \<noteq> []" "\<forall>c\<in>set sep. isBlank c" "a \<noteq> []" "\<not> isBlank (hd a)"
    and hook: "vdata (getDriverHook kHModifyCommand vm) = VVoid"
    and g: "\<not> isDestructedRef vm g" "actionsOf vm g = pre @ e # post"
    and pre: "\<forall>x\<in>set pre. \<not> actionMatches v x \<or> liveOwner vm x = None"
    and e: "actionMatches v e" "liveOwner vm e = Some ow"
    and efuns: "efunsRespect keepsStacks env"
    and call: "callHandler n env g v (Some a) ow e vm = Some (r, vm1)"
  shows "dispatchCommand n env (Some g) (lead @ v @ sep @ a) vm =
      (case r of
         Inl x \<Rightarrow> Some (Inl x, vm1)
       | Inr w \<Rightarrow> if isTruthy w then Some (Inr True, vm1) else tryActions n env g v (Some a) post vm1) \<and>
    (\<forall>res vm'. dispatchCommand n env (Some g) (lead @ v @ sep @ a) vm = Some (res, vm') \<longrightarrow> keepsStacks vm vm')"
proof
  have m: "modifyCommand line' vm = line'" for line' using hook by (simp add: modifyCommand_def)
  show "dispatchCommand n env (Some g) (lead @ v @ sep @ a) vm =
      (case r of Inl x \<Rightarrow> Some (Inl x, vm1)
       | Inr w \<Rightarrow> if isTruthy w then Some (Inr True, vm1) else tryActions n env g v (Some a) post vm1)"
    using g(1) line(2) e call
    by (simp add: dispatchCommand_def m split_line[OF line] g(2) tryActions_skip[OF pre] split: sum.splits)
  show "\<forall>res vm'. dispatchCommand n env (Some g) (lead @ v @ sep @ a) vm = Some (res, vm') \<longrightarrow> keepsStacks vm vm'"
    using balancedWorld.dispatchCommand_respects[OF efuns, of vm n "Some g"] unfolding answerIn_def by blast
qed

definition commandVm :: vm where
  "commandVm = exampleVm\<lparr>vmHeap := [0 \<mapsto> (newLpcObject ''/player'' 1 0 True 0)\<lparr>actions :=
     [\<lparr>aeVerb = ''say'', aeFunction = ''nothing'', aeOwner = Some 7, aeFlag = 0\<rparr>,
      \<lparr>aeVerb = ''say'', aeFunction = ''nothing'', aeOwner = Some 0, aeFlag = 0\<rparr>]\<rparr>]\<rparr>"

lemma commandVm_call:
  "map_option fst (callHandler 3 exampleEnv 0 ''say'' (Some ''hello'') 0
     \<lparr>aeVerb = ''say'', aeFunction = ''nothing'', aeOwner = Some 0, aeFlag = 0\<rparr> commandVm) = Some (Inr vVoid)"
  by (simp add: commandVm_def exampleVm_def newLpcObject_def callHandler_def callFunction_def Let_def isDestructedRef_def
      pushCommandGiver_def touch_def readClock_def updObj_def touchTimeOfRef_def numeral_3_eq_3 shadowedByOf_def
      programOf_def lookupIn_def exampleProgram_def ownFunction_def exampleFn_def shadowingOf_def)

theorem dispatch_first_match_witness:
  "\<exists>vm1. dispatchCommand 3 exampleEnv (Some 0) '' say hello'' commandVm = Some (Inr False, vm1) \<and> verbStack vm1 = []"
proof -
  let ?e = "\<lparr>aeVerb = ''say'', aeFunction = ''nothing'', aeOwner = Some 0, aeFlag = 0\<rparr>"
  let ?d = "\<lparr>aeVerb = ''say'', aeFunction = ''nothing'', aeOwner = Some 7, aeFlag = 0\<rparr>"
  obtain vm1 where c: "callHandler 3 exampleEnv 0 ''say'' (Some ''hello'') 0 ?e commandVm = Some (Inr vVoid, vm1)"
    using commandVm_call by auto
  note d = commandVm_def exampleVm_def newLpcObject_def
  have "dispatchCommand 3 exampleEnv (Some 0) ('' '' @ ''say'' @ '' '' @ ''hello'') commandVm =
      (case Inr vVoid of Inl x \<Rightarrow> Some (Inl x, vm1)
       | Inr w \<Rightarrow> if isTruthy w then Some (Inr True, vm1) else tryActions 3 exampleEnv 0 ''say'' (Some ''hello'') [] vm1) \<and>
    (\<forall>res vm'. dispatchCommand 3 exampleEnv (Some 0) ('' '' @ ''say'' @ '' '' @ ''hello'') commandVm = Some (res, vm') \<longrightarrow>
      keepsStacks commandVm vm')"
    by (rule dispatch_first_match[where pre = "[?d]" and e = ?e and ow = 0, OF _ _ _ _ _ _ _ _ _ _ _ _ _ _ c])
      (auto simp: isBlank_def getDriverHook_def kHModifyCommand_def kNumDriverHooks_def vVoid_def mkValue_def isDestructedRef_def
        actionsOf_def actionMatches_def liveOwner_def lock_def efunsRespect_def exampleEnv_def keepsStacks_def d)
  then show ?thesis by (auto simp: isTruthy_def vVoid_def mkValue_def keepsStacks_def commandVm_def exampleVm_def)
qed

end
