(* ===== verification/Ast.thy ===== *)
theory Ast
  imports Lpc_Value
begin

text \<open>
  The syntax tree of \<^verbatim>\<open>include/kjdmud/compiler/Ast.hpp\<close>. A pointer that may be null is an option; a pointer to the base class is a
  value of \<open>ast\<close>, a pointer to a \<^verbatim>\<open>Block\<close> is a \<open>block\<close>.
\<close>

datatype BinOp =
    BinEq | BinNeq | BinLt | BinLte | BinGt | BinGte | BinAdd | BinOr | BinAnd | BinSub | BinMul | BinDiv | BinMod
  | BinBitAnd | BinBitOr | BinBitXor | BinShl | BinShr

datatype UnaryOp = UnNot | UnNeg | UnBitNot

datatype IncDecOp = Inc | Dec

record Param =
  paType :: string
  paName :: string
  paIsArray :: bool

record foreach_vars =
  fvName :: string
  fvDeclare :: bool
  fvHasValue :: bool
  fvValueName :: string
  fvDeclareValue :: bool
  fvClassType :: string
  fvValueClassType :: string

datatype (plugins only: code size) ast =
    StringLiteral string
  | IntLiteral int64
  | FloatLiteral double
  | NilLiteral
  | SymbolLiteralExpr string
  | VarRefExpr string
  | BinaryExpr BinOp ast ast
  | CommaExpr ast ast
  | UnaryExpr UnaryOp ast
  | TernaryExpr ast ast ast
  | CallExpr string "ast list" "bool list" bool bool string
  | CallOtherExpr ast ast "ast list" "bool list"
  | SscanfExpr ast ast "string list" "ast option list"
  | CatchExpr ast
  | ClosureLiteralExpr string "ast list" bool
  | InlineLambdaExpr "ast list" int "ast list"
  | LambdaParamExpr int bool
  | ExprStmt ast
  | ReturnStmt "ast option"
  | VarDeclStmt string bool string "ast option"
  | AssignStmt string ast
  | AssignExpr string ast bool BinOp
  | IncDecExpr IncDecOp bool string "ast option" "ast option" "ast option"
  | ArrayLiteralExpr "ast list" "bool list"
  | MappingLiteralExpr "(ast \<times> ast list) list"
  | MemberNameMarker string
  | TypeCastExpr string ast
  | NewClassExpr string "(string \<times> ast) list"
  | IndexExpr ast ast "ast option" bool bool "ast option"
  | IndexAssignStmt ast ast ast bool BinOp "ast option"
  | IndexAssignExpr ast ast ast bool BinOp "ast option"
  | BlockNode block
  | TimeExpressionExpr block
  | IfStmt ast block "block option"
  | WhileStmt ast block
  | DoWhileStmt ast block
  | ForStmt "ast option" "ast option" "ast option" block
  | BreakStmt
  | ContinueStmt
  | CaseLabel "ast option" "ast option"
  | SwitchStmt ast "ast list"
  | ForeachStmt foreach_vars ast block
  | AnonFunctionExpr "Param list" bool block
and block = Block "ast list" bool

record FunctionDecl =
  fdReturnType :: string
  fdReturnIsArray :: bool
  fdName :: string
  fdParams :: "Param list"
  fdIsVarargs :: bool
  fdBody :: "block option"

record ObjectVarDecl =
  ovType :: string
  ovIsArray :: bool
  ovName :: string
  ovIsPrivate :: bool
  ovInitializer :: "ast option"

record ClassDeclStmt =
  cdName :: string
  cdMembers :: "string list"

record Program =
  prFunctions :: "FunctionDecl list"
  prObjectVars :: "ObjectVarDecl list"
  prInherits :: "string list"
  prClasses :: "ClassDeclStmt list"

end
