(* ===== verification/CodeGen.thy ===== *)
theory CodeGen
  imports Ast Bytecode
begin

text \<open>
  The code generator of \<^verbatim>\<open>src/compiler/CodeGen.cpp\<close>. Its members are a record; a member function that emits code is a function from
  that state to an error or a new state. The functions that walk the tree are one recursion over the syntax tree that gives, for
  every node, the code of the node as an expression, as a statement and as the target of an indexed write.
\<close>

section \<open>State\<close>

datatype cg_error = CgErr string | CgUndef

datatype VarKind = VkLocal | VkObjectVar

record LoopContext =
  breakJumps :: "nat list"
  continueJumps :: "nat list"
  isSwitch :: bool

record codegen =
  outCode :: "Instruction list"
  outFunctions :: "FunctionEntry list"
  outStrings :: "string list"
  outFloats :: "double list"
  cgLocals :: "string \<rightharpoonup> int"
  nextLocalSlot :: int
  localScopeStack :: "string list list"
  cgObjectVars :: "string \<rightharpoonup> int"
  classDefs :: "string \<rightharpoonup> string list"
  localClassTypes :: "string \<rightharpoonup> string"
  objectVarClassTypes :: "string \<rightharpoonup> string"
  loopStack :: "LoopContext list"
  foreachCounter :: int
  switchCounter :: int
  indexAssignCounter :: int
  pendingLambdas :: "(string \<times> ast list \<times> int \<times> nat) list"
  nextLambdaId :: int
  currentLambdaBoundValueCount :: nat
  pendingAnonFuncs :: "(string \<times> Param list \<times> bool \<times> block) list"
  nextAnonFuncId :: int

type_synonym cgm = "codegen \<Rightarrow> cg_error + codegen"

section \<open>Sequencing\<close>

definition cgFail :: "string \<Rightarrow> cgm" where
  "cgFail msg cg = Inl (CgErr msg)"

definition cgDone :: cgm where
  "cgDone cg = Inr cg"

definition cgThen :: "cgm \<Rightarrow> cgm \<Rightarrow> cgm" where
  "cgThen a b cg = (case a cg of Inl e \<Rightarrow> Inl e | Inr cg' \<Rightarrow> b cg')"

fun cgSeq :: "cgm list \<Rightarrow> cgm" where
  "cgSeq [] = cgDone"
| "cgSeq (a # as) = cgThen a (cgSeq as)"

definition cgOpt :: "cgm option \<Rightarrow> cgm" where
  "cgOpt a = (case a of None \<Rightarrow> cgDone | Some m \<Rightarrow> m)"

section \<open>Pools, variables and jumps\<close>

definition instr :: "OpCode \<Rightarrow> int \<Rightarrow> int \<Rightarrow> Instruction" where
  "instr o1 n k = \<lparr>op = o1, operand = n, argCount = k\<rparr>"

definition emitI :: "OpCode \<Rightarrow> int \<Rightarrow> int \<Rightarrow> cgm" where
  "emitI o1 n k cg = Inr (cg\<lparr>outCode := outCode cg @ [instr o1 n k]\<rparr>)"

definition internString :: "string \<Rightarrow> (int \<Rightarrow> cgm) \<Rightarrow> cgm" where
  "internString s k cg =
     (case find_idx (\<lambda>x. x = s) (outStrings cg) of
        Some i \<Rightarrow> k (int i) cg
      | None \<Rightarrow> k (int (length (outStrings cg))) (cg\<lparr>outStrings := outStrings cg @ [s]\<rparr>))"

text \<open>The comparison is the one of the C++ type: a NaN never equals itself, so it gets a new entry each time; -0.0 equals 0.0.\<close>

definition internFloat :: "double \<Rightarrow> (int \<Rightarrow> cgm) \<Rightarrow> cgm" where
  "internFloat d k cg =
     (case find_idx (\<lambda>x. dbl_eq x d) (outFloats cg) of
        Some i \<Rightarrow> k (int i) cg
      | None \<Rightarrow> k (int (length (outFloats cg))) (cg\<lparr>outFloats := outFloats cg @ [d]\<rparr>))"

definition resolveVariable :: "string \<Rightarrow> (VarKind \<Rightarrow> int \<Rightarrow> cgm) \<Rightarrow> cgm" where
  "resolveVariable name k cg =
     (case cgLocals cg name of
        Some s \<Rightarrow> k VkLocal s cg
      | None \<Rightarrow>
          (case cgObjectVars cg name of
             Some s \<Rightarrow> k VkObjectVar s cg
           | None \<Rightarrow> Inl (CgErr (''codegen: undeclared variable '' @ [CHR 0x22] @ name @ [CHR 0x22]))))"

definition pushVar :: "VarKind \<Rightarrow> OpCode" where
  "pushVar k = (if k = VkLocal then PushLocal else PushObjectVar)"

definition storeVar :: "VarKind \<Rightarrow> OpCode" where
  "storeVar k = (if k = VkLocal then StoreLocal else StoreObjectVar)"

definition classText :: "string \<Rightarrow> string option" where
  "classText t = (if take 6 t = ''class:'' then Some (drop 6 t) else None)"

definition declareLocal :: "string \<Rightarrow> string \<Rightarrow> (int \<Rightarrow> cgm) \<Rightarrow> cgm" where
  "declareLocal name typeText k cg =
     (let slot = nextLocalSlot cg; cg1 = cg\<lparr>nextLocalSlot := slot + 1\<rparr> in
      if name = [] then k slot cg1
      else if cgLocals cg name \<noteq> None
      then Inl (CgErr (''codegen: variable '' @ [CHR 0x22] @ name @ [CHR 0x22] @ '' already declared in this scope''))
      else
        k slot (cg1\<lparr>cgLocals := (cgLocals cg)(name \<mapsto> slot),
          localClassTypes := (case classText typeText of None \<Rightarrow> localClassTypes cg | Some c \<Rightarrow> (localClassTypes cg)(name \<mapsto> c)),
          localScopeStack := (case localScopeStack cg of [] \<Rightarrow> [] | sc # scs \<Rightarrow> (sc @ [name]) # scs)\<rparr>))"

definition emitJumpPlaceholder :: "OpCode \<Rightarrow> (nat \<Rightarrow> cgm) \<Rightarrow> cgm" where
  "emitJumpPlaceholder o1 k cg = k (length (outCode cg)) (cg\<lparr>outCode := outCode cg @ [instr o1 (-1) 0]\<rparr>)"

definition patchJumpTo :: "nat \<Rightarrow> nat \<Rightarrow> cgm" where
  "patchJumpTo i target cg = Inr (cg\<lparr>outCode := (outCode cg)[i := (outCode cg ! i)\<lparr>operand := to_int32 (int target)\<rparr>]\<rparr>)"

definition patchJumpToHere :: "nat \<Rightarrow> cgm" where
  "patchJumpToHere i cg = patchJumpTo i (length (outCode cg)) cg"

definition patchAll :: "nat list \<Rightarrow> nat \<Rightarrow> cgm" where
  "patchAll is target = cgSeq (map (\<lambda>i. patchJumpTo i target) is)"

definition patchAllToHere :: "nat list \<Rightarrow> cgm" where
  "patchAllToHere is cg = patchAll is (length (outCode cg)) cg"

section \<open>Classes\<close>

definition resolveClassMemberIndex :: "string \<Rightarrow> string \<Rightarrow> codegen \<Rightarrow> cg_error + int" where
  "resolveClassMemberIndex className memberName cg =
     (case classDefs cg className of
        None \<Rightarrow> Inl (CgErr (''codegen: undefined class '' @ [CHR 0x22] @ className @ [CHR 0x22]))
      | Some ms \<Rightarrow>
          (case find_idx (\<lambda>m. m = memberName) ms of
             Some i \<Rightarrow> Inr (int i)
           | None \<Rightarrow> Inl (CgErr (''codegen: class '' @ [CHR 0x22] @ className @ [CHR 0x22] @ '' has no member '' @
                         [CHR 0x22] @ memberName @ [CHR 0x22]))))"

definition isMemberName :: "ast \<Rightarrow> bool" where
  "isMemberName a = (case a of MemberNameMarker _ \<Rightarrow> True | _ \<Rightarrow> False)"

fun staticClassTypeOf :: "codegen \<Rightarrow> ast \<Rightarrow> string" where
  "staticClassTypeOf cg (TypeCastExpr c _) = c"
| "staticClassTypeOf cg (IndexExpr t i re _ _ _) =
     (if re \<noteq> None \<or> isMemberName i then '''' else staticClassTypeOf cg t)"
| "staticClassTypeOf cg (VarRefExpr n) =
     (case localClassTypes cg n of
        Some c \<Rightarrow> c
      | None \<Rightarrow> (case objectVarClassTypes cg n of Some c \<Rightarrow> c | None \<Rightarrow> ''''))"
| "staticClassTypeOf cg _ = ''''"

text \<open>The index of \<open>target[index]\<close>, or of \<open>target->member\<close> for a class value. \<open>ic\<close> is the code of the index expression.\<close>

definition emitIndexValue :: "ast \<Rightarrow> ast \<Rightarrow> cgm \<Rightarrow> cgm" where
  "emitIndexValue target index ic cg =
     (case index of
        MemberNameMarker m \<Rightarrow>
          if staticClassTypeOf cg target = []
          then Inl (CgErr (''codegen: cannot resolve '' @ [CHR 0x22] @ ''->'' @ m @ [CHR 0x22] @ '': the target'' @ [CHR 0x27] @
                 ''s static class type is not known here (only a variable declared with a real '' @ [CHR 0x22] @
                 ''class <Name>'' @ [CHR 0x22] @ '' type resolves)''))
          else (case resolveClassMemberIndex (staticClassTypeOf cg target) m cg of
                  Inl e \<Rightarrow> Inl e
                | Inr i \<Rightarrow> emitI PushInt i 0 cg)
      | _ \<Rightarrow> ic cg)"

section \<open>Expressions\<close>

definition binaryOp :: "BinOp \<Rightarrow> OpCode option" where
  "binaryOp b = (case b of
      BinEq \<Rightarrow> Some OpEq | BinNeq \<Rightarrow> Some OpNeq | BinLt \<Rightarrow> Some OpLt | BinLte \<Rightarrow> Some OpLte | BinGt \<Rightarrow> Some OpGt | BinGte \<Rightarrow> Some OpGte
    | BinAdd \<Rightarrow> Some OpAdd | BinSub \<Rightarrow> Some OpSub | BinMul \<Rightarrow> Some OpMul | BinDiv \<Rightarrow> Some OpDiv | BinMod \<Rightarrow> Some OpMod
    | BinBitAnd \<Rightarrow> Some BitAnd | BinBitOr \<Rightarrow> Some BitOr | BinBitXor \<Rightarrow> Some BitXor | BinShl \<Rightarrow> Some Shl | BinShr \<Rightarrow> Some Shr
    | BinOr \<Rightarrow> None | BinAnd \<Rightarrow> None)"

definition compoundOp :: "BinOp \<Rightarrow> OpCode option" where
  "compoundOp b = (case b of
      BinAdd \<Rightarrow> Some OpAdd | BinSub \<Rightarrow> Some OpSub | BinMul \<Rightarrow> Some OpMul | BinDiv \<Rightarrow> Some OpDiv | BinMod \<Rightarrow> Some OpMod
    | BinBitOr \<Rightarrow> Some BitOr | BinBitAnd \<Rightarrow> Some BitAnd | BinBitXor \<Rightarrow> Some BitXor | BinShl \<Rightarrow> Some Shl | BinShr \<Rightarrow> Some Shr
    | _ \<Rightarrow> None)"

definition emitCompoundOp :: "BinOp \<Rightarrow> cgm" where
  "emitCompoundOp b =
     (case compoundOp b of None \<Rightarrow> cgFail ''codegen: unsupported compound assignment operator'' | Some o1 \<Rightarrow> emitI o1 0 0)"

definition emitBinaryExpr :: "BinOp \<Rightarrow> cgm \<Rightarrow> cgm \<Rightarrow> cgm" where
  "emitBinaryExpr b left right =
     cgSeq [left, right, case binaryOp b of None \<Rightarrow> cgFail ''codegen: unknown BinOp'' | Some o1 \<Rightarrow> emitI o1 0 0]"

definition emitLogicalExpr :: "BinOp \<Rightarrow> cgm \<Rightarrow> cgm \<Rightarrow> cgm" where
  "emitLogicalExpr b left right =
     cgSeq [left, emitI OpDup 0 0,
       emitJumpPlaceholder JumpIfFalse (\<lambda>jf.
         if b = BinOr then
           emitJumpPlaceholder Jump (\<lambda>je.
             cgSeq [patchJumpToHere jf, emitI OpPop 0 0, right, patchJumpToHere je])
         else cgSeq [emitI OpPop 0 0, right, patchJumpToHere jf])]"

definition emitTernaryExpr :: "cgm \<Rightarrow> cgm \<Rightarrow> cgm \<Rightarrow> cgm" where
  "emitTernaryExpr c t e =
     cgSeq [c, emitJumpPlaceholder JumpIfFalse (\<lambda>jf.
       cgSeq [t, emitJumpPlaceholder Jump (\<lambda>je. cgSeq [patchJumpToHere jf, e, patchJumpToHere je])])]"

definition emitCatchExpr :: "cgm \<Rightarrow> cgm" where
  "emitCatchExpr g =
     emitJumpPlaceholder PushCatchFrame (\<lambda>cf. cgSeq [g, emitI OpPop 0 0, emitI PopCatchFrame 0 0, patchJumpToHere cf])"

definition emitTimeExpressionExpr :: "cgm \<Rightarrow> cgm" where
  "emitTimeExpressionExpr body = cgSeq [emitI TimeExpressionStart 0 0, body, emitI TimeExpressionEnd 0 0]"

definition emitAssignExpr :: "string \<Rightarrow> cgm \<Rightarrow> bool \<Rightarrow> BinOp \<Rightarrow> cgm" where
  "emitAssignExpr name value isCompound b =
     resolveVariable name (\<lambda>k slot.
       cgSeq [if isCompound then cgSeq [emitI (pushVar k) slot 0, value, emitCompoundOp b] else value,
         emitI OpDup 0 0, emitI (storeVar k) slot 0])"

text \<open>\<open>idx\<close> is the code that pushes the target and the index, \<open>col\<close> the code of the column.\<close>

definition tempLocal :: "string \<Rightarrow> (int \<Rightarrow> cgm) \<Rightarrow> cgm" where
  "tempLocal pre k cg =
     declareLocal (pre @ to_string (indexAssignCounter cg)) '''' k (cg\<lparr>indexAssignCounter := indexAssignCounter cg + 1\<rparr>)"

definition columnFlag :: "'a option \<Rightarrow> int" where
  "columnFlag c = (if c = None then 0 else 4)"

definition emitIncDecIndexed :: "IncDecOp \<Rightarrow> bool \<Rightarrow> cgm \<Rightarrow> cgm option \<Rightarrow> cgm" where
  "emitIncDecIndexed d pre idx col =
     tempLocal ''$idxassign#'' (\<lambda>oldSlot. tempLocal ''$idxassign#'' (\<lambda>newSlot.
       cgSeq [idx, cgOpt col, emitI OpIndex 0 (columnFlag col), emitI StoreLocal oldSlot 0,
         emitI PushLocal oldSlot 0, emitI PushInt 1 0, emitI (if d = Inc then OpAdd else OpSub) 0 0, emitI StoreLocal newSlot 0,
         idx, cgOpt col, emitI PushLocal newSlot 0, emitI IndexAssign 0 (columnFlag col),
         emitI PushLocal (if pre then newSlot else oldSlot) 0]))"

definition emitIncDecVar :: "IncDecOp \<Rightarrow> bool \<Rightarrow> string \<Rightarrow> cgm" where
  "emitIncDecVar d pre name =
     resolveVariable name (\<lambda>k slot.
       let delta1 = emitI (if d = Inc then OpAdd else OpSub) 0 0 in
       if pre
       then cgSeq [emitI (pushVar k) slot 0, emitI PushInt 1 0, delta1, emitI OpDup 0 0, emitI (storeVar k) slot 0]
       else cgSeq [emitI (pushVar k) slot 0, emitI OpDup 0 0, emitI PushInt 1 0, delta1, emitI (storeVar k) slot 0])"

text \<open>\<open>n\<close> starts at the number of elements and is counted down before each of them.\<close>

fun emitSpreadFrom :: "int \<Rightarrow> bool list \<Rightarrow> cgm" where
  "emitSpreadFrom n [] = cgDone"
| "emitSpreadFrom n (b # bs) = cgThen (if b then emitI ExpandVarargs (n - 1) 0 else cgDone) (emitSpreadFrom (n - 1) bs)"

definition emitSpreadExpansions :: "bool list \<Rightarrow> cgm" where
  "emitSpreadExpansions bs = emitSpreadFrom (int (length bs)) bs"

definition emitCallExpr :: "string \<Rightarrow> cgm list \<Rightarrow> bool list \<Rightarrow> bool \<Rightarrow> bool \<Rightarrow> string \<Rightarrow> cgm" where
  "emitCallExpr callee args spread forceEfun parentCall qualifier =
     (let argc = to_int32 (int (length args)) in
      cgSeq [cgSeq args, emitSpreadExpansions spread,
        internString callee (\<lambda>c.
          if parentCall then
            (if qualifier = [] then cgSeq [emitI CallParent c argc, emitI CallParentQualifierSlot (-1) 0]
             else internString qualifier (\<lambda>q. cgSeq [emitI CallParent c argc, emitI CallParentQualifierSlot q 0]))
          else emitI (if forceEfun then CallEfun else OpCall) c argc)])"

definition emitCallOtherExpr :: "cgm \<Rightarrow> cgm \<Rightarrow> cgm list \<Rightarrow> bool list \<Rightarrow> cgm" where
  "emitCallOtherExpr target fn args spread =
     cgSeq [target, fn, cgSeq args, emitSpreadExpansions spread,
       internString ''call_other'' (\<lambda>c. emitI CallEfun c (to_int32 (2 + int (length args))))]"

text \<open>
  The slot table of \<^verbatim>\<open>sscanf\<close>. An indexed output gets a hidden local, written back after the match; \<open>write\<close> is that code.
\<close>

fun emitSscanfSlots :: "string list \<Rightarrow> (int \<Rightarrow> cgm) option list \<Rightarrow> cgm list \<Rightarrow> cgm" where
  "emitSscanfSlots (n # ns) (w # ws) writes =
     (case w of
        Some write \<Rightarrow>
          tempLocal ''$sscanf_out#'' (\<lambda>slot.
            cgThen (emitI SscanfVarSlot slot 0) (emitSscanfSlots ns ws (writes @ [write slot])))
      | None \<Rightarrow>
          resolveVariable n (\<lambda>k slot.
            cgThen (emitI SscanfVarSlot slot (if k = VkObjectVar then 1 else 0)) (emitSscanfSlots ns ws writes)))"
| "emitSscanfSlots [] ws writes = cgSeq writes"
| "emitSscanfSlots (n # ns) [] writes = (\<lambda>cg. Inl CgUndef)"

definition emitSscanfExpr :: "cgm \<Rightarrow> cgm \<Rightarrow> string list \<Rightarrow> (int \<Rightarrow> cgm) option list \<Rightarrow> cgm" where
  "emitSscanfExpr target fmt names ws =
     cgSeq [target, fmt, emitI OpSscanf (to_int32 (int (length names))) 0, emitSscanfSlots names ws []]"

definition emitIndexAssignStmt :: "cgm \<Rightarrow> cgm \<Rightarrow> bool \<Rightarrow> BinOp \<Rightarrow> cgm option \<Rightarrow> cgm" where
  "emitIndexAssignStmt idx value isCompound b col =
     (if isCompound then
        cgSeq [idx, cgOpt col, idx, cgOpt col, emitI OpIndex 0 (columnFlag col), value, emitCompoundOp b,
          emitI IndexAssign 0 (columnFlag col)]
      else cgSeq [idx, cgOpt col, value, emitI IndexAssign 0 (columnFlag col)])"

definition emitIndexAssignExpr :: "cgm \<Rightarrow> cgm \<Rightarrow> bool \<Rightarrow> BinOp \<Rightarrow> cgm option \<Rightarrow> cgm" where
  "emitIndexAssignExpr idx value isCompound b col =
     tempLocal ''$idxassign#'' (\<lambda>slot.
       cgSeq [if isCompound
              then cgSeq [idx, cgOpt col, emitI OpIndex 0 (columnFlag col), value, emitCompoundOp b]
              else value,
         emitI StoreLocal slot 0, idx, cgOpt col, emitI PushLocal slot 0, emitI IndexAssign 0 (columnFlag col),
         emitI PushLocal slot 0])"

text \<open>\<^verbatim>\<open>new(class C, field: value, ...)\<close>: the members in the order of the declaration, then a check of the field names.\<close>

definition emitNewClass :: "string \<Rightarrow> (string \<times> cgm) list \<Rightarrow> cgm" where
  "emitNewClass className inits cg =
     (case classDefs cg className of
        None \<Rightarrow> Inl (CgErr (''codegen: undefined class '' @ [CHR 0x22] @ className @ [CHR 0x22]))
      | Some ms \<Rightarrow>
          cgSeq [cgSeq (map (\<lambda>m. case map_of inits m of Some a \<Rightarrow> a | None \<Rightarrow> emitI PushInt 0 0) ms),
            (case find (\<lambda>(f, _). f \<notin> set ms) inits of
               Some (f, _) \<Rightarrow> cgFail (''codegen: class '' @ [CHR 0x22] @ className @ [CHR 0x22] @ '' has no member '' @ [CHR 0x22] @ f @ [CHR 0x22])
             | None \<Rightarrow> cgDone),
            emitI MakeArray 1 (to_int32 (int (length ms)))] cg)"

definition emitMappingLiteral :: "(cgm \<times> cgm list) list \<Rightarrow> cgm" where
  "emitMappingLiteral es =
     (let width = (case es of [] \<Rightarrow> 1 | (_, vs) # _ \<Rightarrow> max 1 (int (length vs))) in
      cgThen (cgSeq (map (\<lambda>(k, vs). cgThen k (cgSeq vs)) es)) (emitI MakeMapping width (to_int32 (int (length es)))))"

definition emitIndexExpr :: "cgm \<Rightarrow> cgm option \<Rightarrow> bool \<Rightarrow> bool \<Rightarrow> cgm option \<Rightarrow> cgm" where
  "emitIndexExpr idx rangeEnd fromEnd rangeEndFromEnd col =
     (let flags = (if fromEnd then 1 else 0) in
      case rangeEnd of
        Some r \<Rightarrow> cgSeq [idx, r, emitI RangeIndex 0 (flags + (if rangeEndFromEnd then 2 else 0))]
      | None \<Rightarrow> cgSeq [idx, cgOpt col, emitI OpIndex 0 (flags + columnFlag col)])"

definition emitClosureLiteral :: "string \<Rightarrow> cgm list \<Rightarrow> bool \<Rightarrow> cgm" where
  "emitClosureLiteral fn args forceEfun =
     cgThen (cgSeq args)
       (internString fn (\<lambda>i. emitI (if forceEfun then PushEfunClosure else PushClosure) i (to_int32 (int (length args)))))"

definition emitLambdaParam :: "int \<Rightarrow> bool \<Rightarrow> cgm" where
  "emitLambdaParam i isBound cg =
     emitI PushLocal (if isBound then i else i + int (currentLambdaBoundValueCount cg)) 0 cg"

definition emitInlineLambda :: "ast list \<Rightarrow> int \<Rightarrow> cgm list \<Rightarrow> cgm" where
  "emitInlineLambda body params bounds =
     cgThen (cgSeq bounds) (\<lambda>cg.
       let name = ''$lambda#'' @ to_string (nextLambdaId cg) in
       internString name (\<lambda>i. emitI PushClosure i (to_int32 (int (length bounds))))
         (cg\<lparr>nextLambdaId := nextLambdaId cg + 1, pendingLambdas := pendingLambdas cg @ [(name, body, params, length bounds)]\<rparr>))"

definition emitAnonFunction :: "Param list \<Rightarrow> bool \<Rightarrow> block \<Rightarrow> cgm" where
  "emitAnonFunction ps va body cg =
     (let name = ''$anonfunc#'' @ to_string (nextAnonFuncId cg) in
      internString name (\<lambda>i. emitI PushClosure i 0)
        (cg\<lparr>nextAnonFuncId := nextAnonFuncId cg + 1, pendingAnonFuncs := pendingAnonFuncs cg @ [(name, ps, va, body)]\<rparr>))"

section \<open>Statements\<close>

definition emitReturnStmt :: "cgm option \<Rightarrow> cgm" where
  "emitReturnStmt e = cgThen (cgOpt e) (emitI OpReturn 0 0)"

definition emitVarDeclStmt :: "string \<Rightarrow> string \<Rightarrow> cgm option \<Rightarrow> cgm" where
  "emitVarDeclStmt typeText name e =
     declareLocal name typeText (\<lambda>slot. case e of None \<Rightarrow> cgDone | Some a \<Rightarrow> cgThen a (emitI StoreLocal slot 0))"

definition emitAssignStmt :: "string \<Rightarrow> cgm \<Rightarrow> cgm" where
  "emitAssignStmt name value = resolveVariable name (\<lambda>k slot. cgThen value (emitI (storeVar k) slot 0))"

definition emitIfStmt :: "cgm \<Rightarrow> cgm \<Rightarrow> cgm option \<Rightarrow> cgm" where
  "emitIfStmt c t e =
     cgThen c (emitJumpPlaceholder JumpIfFalse (\<lambda>jf.
       cgThen t
         (case e of
            Some el \<Rightarrow> emitJumpPlaceholder Jump (\<lambda>je. cgSeq [patchJumpToHere jf, el, patchJumpToHere je])
          | None \<Rightarrow> patchJumpToHere jf)))"

text \<open>A loop body runs in a context of its own, which collects the placeholders of its \<^verbatim>\<open>break\<close> and \<^verbatim>\<open>continue\<close> statements.\<close>

definition here :: "(nat \<Rightarrow> cgm) \<Rightarrow> cgm" where
  "here k cg = k (length (outCode cg)) cg"

definition pushLoop :: "bool \<Rightarrow> cgm" where
  "pushLoop sw cg = Inr (cg\<lparr>loopStack := \<lparr>breakJumps = [], continueJumps = [], isSwitch = sw\<rparr> # loopStack cg\<rparr>)"

definition popLoop :: "(LoopContext \<Rightarrow> cgm) \<Rightarrow> cgm" where
  "popLoop k cg = (case loopStack cg of [] \<Rightarrow> Inl CgUndef | c # cs \<Rightarrow> k c (cg\<lparr>loopStack := cs\<rparr>))"

definition withLoop :: "cgm \<Rightarrow> (LoopContext \<Rightarrow> cgm) \<Rightarrow> cgm" where
  "withLoop body k = cgSeq [pushLoop False, body, popLoop k]"

definition jumpTo :: "nat \<Rightarrow> cgm" where
  "jumpTo t = emitI Jump (to_int32 (int t)) 0"

definition emitWhileStmt :: "cgm \<Rightarrow> cgm \<Rightarrow> cgm" where
  "emitWhileStmt c body =
     here (\<lambda>top. cgThen c (emitJumpPlaceholder JumpIfFalse (\<lambda>jf.
       withLoop body (\<lambda>ctx. cgSeq [patchAll (continueJumps ctx) top, jumpTo top, patchJumpToHere jf, patchAllToHere (breakJumps ctx)]))))"

definition emitDoWhileStmt :: "cgm \<Rightarrow> cgm \<Rightarrow> cgm" where
  "emitDoWhileStmt c body =
     here (\<lambda>start. withLoop body (\<lambda>ctx.
       cgSeq [patchAllToHere (continueJumps ctx), c, emitJumpPlaceholder JumpIfFalse (\<lambda>jf.
         cgSeq [jumpTo start, patchJumpToHere jf, patchAllToHere (breakJumps ctx)])]))"

definition openScope :: cgm where
  "openScope cg = Inr (cg\<lparr>localScopeStack := [] # localScopeStack cg\<rparr>)"

definition closeScope :: cgm where
  "closeScope cg =
     (case localScopeStack cg of
        [] \<Rightarrow> Inl CgUndef
      | names # rest \<Rightarrow>
          Inr (cg\<lparr>localScopeStack := rest, cgLocals := (\<lambda>x. if x \<in> set names then None else cgLocals cg x),
                  localClassTypes := (\<lambda>x. if x \<in> set names then None else localClassTypes cg x)\<rparr>))"

definition emitForStmt :: "cgm \<Rightarrow> cgm option \<Rightarrow> cgm \<Rightarrow> cgm \<Rightarrow> cgm" where
  "emitForStmt ini c upd body =
     cgSeq [openScope, ini,
       here (\<lambda>top.
         let loop = (\<lambda>exits. withLoop body (\<lambda>ctx.
               cgSeq [patchAllToHere (continueJumps ctx), upd, jumpTo top, patchAllToHere exits, patchAllToHere (breakJumps ctx)]))
         in case c of
              None \<Rightarrow> loop []
            | Some cond \<Rightarrow> cgThen cond (emitJumpPlaceholder JumpIfFalse (\<lambda>jf. loop [jf]))),
       closeScope]"

definition foreachVar :: "bool \<Rightarrow> string \<Rightarrow> string \<Rightarrow> (VarKind \<Rightarrow> int \<Rightarrow> cgm) \<Rightarrow> cgm" where
  "foreachVar declare name classType k =
     (if declare then declareLocal name (if classType = [] then '''' else ''class:'' @ classType) (k VkLocal)
      else resolveVariable name k)"

definition emitForeachStmt :: "foreach_vars \<Rightarrow> cgm \<Rightarrow> cgm \<Rightarrow> cgm" where
  "emitForeachStmt fv coll body =
     cgThen openScope (\<lambda>cg.
       let n = to_string (foreachCounter cg) in
       cgSeq [declareLocal (''$foreach_orig_'' @ n) '''' (\<lambda>orig.
         cgSeq [coll, emitI StoreLocal orig 0,
           declareLocal (''$foreach_iter_'' @ n) '''' (\<lambda>iter.
             cgSeq [emitI PushLocal orig 0, emitI ForeachKeys 0 0, emitI StoreLocal iter 0,
               declareLocal (''$foreach_idx_'' @ n) '''' (\<lambda>idx.
                 cgSeq [emitI PushInt 0 0, emitI StoreLocal idx 0,
                   here (\<lambda>top.
                     cgSeq [emitI PushLocal idx 0, emitI PushLocal iter 0,
                       internString ''sizeof'' (\<lambda>i. emitI OpCall i 1), emitI OpLt 0 0,
                       emitJumpPlaceholder JumpIfFalse (\<lambda>jf.
                         foreachVar (fvDeclare fv) (fvName fv) (fvClassType fv) (\<lambda>kk ks.
                           cgSeq [emitI PushLocal iter 0, emitI PushLocal idx 0, emitI OpIndex 0 0, emitI (storeVar kk) ks 0,
                             (if fvHasValue fv
                              then foreachVar (fvDeclareValue fv) (fvValueName fv) (fvValueClassType fv) (\<lambda>vk vs.
                                     cgSeq [emitI PushLocal orig 0, emitI (pushVar kk) ks 0, emitI OpIndex 0 0, emitI (storeVar vk) vs 0])
                              else cgDone),
                             withLoop body (\<lambda>ctx.
                               cgSeq [patchAllToHere (continueJumps ctx), emitI PushLocal idx 0, emitI PushInt 1 0, emitI OpAdd 0 0,
                                 emitI StoreLocal idx 0, jumpTo top, patchJumpToHere jf, patchAllToHere (breakJumps ctx)])]))])])])]),
         closeScope]
       (cg\<lparr>foreachCounter := foreachCounter cg + 1\<rparr>))"

text \<open>
  \<^verbatim>\<open>switch\<close> in two passes. The first emits a comparison and a placeholder per label and remembers which body position each placeholder
  is for; the second emits the statements in order and patches the placeholders at their labels. A body element is a label, with the
  code of its value and of the end of its range, or a statement.
\<close>

datatype switch_item = SwDefault | SwCase cgm "cgm option" | SwStmt cgm

fun emitSwitchTests :: "int \<Rightarrow> switch_item list \<Rightarrow> nat option list \<Rightarrow> (nat option list \<Rightarrow> cgm) \<Rightarrow> cgm" where
  "emitSwitchTests subj [] jumps k = k jumps"
| "emitSwitchTests subj (SwDefault # is) jumps k = emitSwitchTests subj is (jumps @ [None]) k"
| "emitSwitchTests subj (SwStmt _ # is) jumps k = emitSwitchTests subj is (jumps @ [None]) k"
| "emitSwitchTests subj (SwCase v None # is) jumps k =
     cgSeq [emitI PushLocal subj 0, v, emitI OpEq 0 0, emitI OpNot 0 0,
       emitJumpPlaceholder JumpIfFalse (\<lambda>j. emitSwitchTests subj is (jumps @ [Some j]) k)]"
| "emitSwitchTests subj (SwCase v (Some r) # is) jumps k =
     cgSeq [emitI PushLocal subj 0, v, emitI OpGte 0 0, emitI OpDup 0 0,
       emitJumpPlaceholder JumpIfFalse (\<lambda>low.
         cgSeq [emitI OpPop 0 0, emitI PushLocal subj 0, r, emitI OpLte 0 0, patchJumpToHere low, emitI OpNot 0 0,
           emitJumpPlaceholder JumpIfFalse (\<lambda>j. emitSwitchTests subj is (jumps @ [Some j]) k)])]"

text \<open>The last \<^verbatim>\<open>default:\<close> label is the one that counts.\<close>

fun emitSwitchBody :: "nat \<Rightarrow> nat option \<Rightarrow> nat \<Rightarrow> switch_item list \<Rightarrow> nat option list \<Rightarrow> cgm" where
  "emitSwitchBody i dflt noMatch (it # its) (j # js) =
     cgSeq [(case j of Some p \<Rightarrow> patchJumpToHere p | None \<Rightarrow> cgDone),
       (if dflt = Some i then patchJumpToHere noMatch else (case it of SwStmt a \<Rightarrow> a | _ \<Rightarrow> cgDone)),
       emitSwitchBody (Suc i) dflt noMatch its js]"
| "emitSwitchBody i dflt noMatch _ _ = cgDone"

fun isDefault :: "switch_item \<Rightarrow> bool" where
  "isDefault SwDefault = True"
| "isDefault _ = False"

definition lastDefault :: "switch_item list \<Rightarrow> nat option" where
  "lastDefault its = find (\<lambda>i. isDefault (its ! i)) (rev [0..<length its])"

definition emitSwitchStmt :: "cgm \<Rightarrow> switch_item list \<Rightarrow> cgm" where
  "emitSwitchStmt subject its cg =
     declareLocal (''$switch_subj_'' @ to_string (switchCounter cg)) '''' (\<lambda>subj.
       cgSeq [subject, emitI StoreLocal subj 0,
         emitSwitchTests subj its [] (\<lambda>jumps.
           emitJumpPlaceholder Jump (\<lambda>noMatch.
             cgSeq [pushLoop True, emitSwitchBody 0 (lastDefault its) noMatch its jumps,
               (if lastDefault its = None then patchJumpToHere noMatch else cgDone),
               popLoop (\<lambda>ctx. patchAllToHere (breakJumps ctx))]))])
       (cg\<lparr>switchCounter := switchCounter cg + 1\<rparr>)"

definition emitBreakStmt :: cgm where
  "emitBreakStmt cg =
     (case loopStack cg of
        [] \<Rightarrow> Inl (CgErr ''codegen: break statement outside of a loop'')
      | c # cs \<Rightarrow>
          emitJumpPlaceholder Jump (\<lambda>j cg1. Inr (cg1\<lparr>loopStack := c\<lparr>breakJumps := breakJumps c @ [j]\<rparr> # cs\<rparr>)) cg)"

definition emitContinueStmt :: cgm where
  "emitContinueStmt cg =
     (case find_idx (\<lambda>c. \<not> isSwitch c) (loopStack cg) of
        None \<Rightarrow> Inl (CgErr ''codegen: continue statement outside of a loop'')
      | Some i \<Rightarrow>
          emitJumpPlaceholder Jump (\<lambda>j cg1.
            Inr (cg1\<lparr>loopStack := (loopStack cg)[i := (loopStack cg ! i)\<lparr>continueJumps := continueJumps (loopStack cg ! i) @ [j]\<rparr>]\<rparr>)) cg)"

definition scoped :: "cgm \<Rightarrow> cgm" where
  "scoped body = cgSeq [openScope, body, closeScope]"


section \<open>The walk over the tree\<close>

text \<open>
  What the walk knows of a node: its code as an expression and as a statement, as the first and the third part of a \<^verbatim>\<open>for\<close>, as an
  element of a \<^verbatim>\<open>switch\<close> body, and as an indexed output of \<^verbatim>\<open>sscanf\<close>.
\<close>

record node_code =
  nExpr :: cgm
  nStmt :: cgm
  nInit :: cgm
  nUpdate :: cgm
  nSwitch :: switch_item
  nWrite :: "int \<Rightarrow> cgm"

definition unsupportedExpr :: cgm where
  "unsupportedExpr = cgFail ''codegen: unsupported expression kind this slice''"

definition unsupportedStmt :: cgm where
  "unsupportedStmt = cgFail ''codegen: unsupported statement kind this slice''"

definition discard :: "cgm \<Rightarrow> cgm" where
  "discard e = cgThen e (emitI OpPop 0 0)"

definition exprNode :: "cgm \<Rightarrow> node_code" where
  "exprNode e = \<lparr>nExpr = e, nStmt = unsupportedStmt, nInit = discard e, nUpdate = discard e, nSwitch = SwStmt unsupportedStmt,
     nWrite = \<lambda>_ _. Inl CgUndef\<rparr>"

definition stmtNode :: "cgm \<Rightarrow> node_code" where
  "stmtNode s = \<lparr>nExpr = unsupportedExpr, nStmt = s, nInit = discard unsupportedExpr, nUpdate = discard unsupportedExpr,
     nSwitch = SwStmt s, nWrite = \<lambda>_ _. Inl CgUndef\<rparr>"

definition indexPair :: "ast \<Rightarrow> ast \<Rightarrow> cgm \<Rightarrow> cgm \<Rightarrow> cgm" where
  "indexPair t i tc ic = cgThen tc (emitIndexValue t i ic)"

definition emitUnary :: "UnaryOp \<Rightarrow> cgm \<Rightarrow> cgm" where
  "emitUnary u e =
     (case u of
        UnNot \<Rightarrow> cgSeq [e, emitI OpNot 0 0]
      | UnBitNot \<Rightarrow> cgSeq [e, emitI BitNot 0 0]
      | UnNeg \<Rightarrow> cgSeq [emitI PushInt 0 0, e, emitI OpSub 0 0])"

primrec emitNode :: "ast \<Rightarrow> node_code" and emitBlk :: "block \<Rightarrow> cgm" where
  "emitNode (StringLiteral s) = exprNode (internString s (\<lambda>i. emitI PushConst i 0))"
| "emitNode (IntLiteral v) = exprNode (emitI PushInt (to_int32 (sint v)) 0)"
| "emitNode (FloatLiteral d) = exprNode (internFloat d (\<lambda>i. emitI PushFloat i 0))"
| "emitNode NilLiteral = exprNode (emitI PushNil 0 0)"
| "emitNode (SymbolLiteralExpr s) = exprNode (internString s (\<lambda>i. emitI PushSymbol i 0))"
| "emitNode (VarRefExpr n) = exprNode (resolveVariable n (\<lambda>k s. emitI (pushVar k) s 0))"
| "emitNode (BinaryExpr b l r) =
     exprNode (if b = BinOr \<or> b = BinAnd then emitLogicalExpr b (nExpr (emitNode l)) (nExpr (emitNode r))
               else emitBinaryExpr b (nExpr (emitNode l)) (nExpr (emitNode r)))"
| "emitNode (CommaExpr l r) = exprNode (cgSeq [nExpr (emitNode l), emitI OpPop 0 0, nExpr (emitNode r)])"
| "emitNode (UnaryExpr u e) = exprNode (emitUnary u (nExpr (emitNode e)))"
| "emitNode (TernaryExpr c t e) = exprNode (emitTernaryExpr (nExpr (emitNode c)) (nExpr (emitNode t)) (nExpr (emitNode e)))"
| "emitNode (CallExpr callee args spread fe pc q) =
     exprNode (emitCallExpr callee (map (\<lambda>a. nExpr (emitNode a)) args) spread fe pc q)"
| "emitNode (CallOtherExpr t f args spread) =
     exprNode (emitCallOtherExpr (nExpr (emitNode t)) (nExpr (emitNode f)) (map (\<lambda>a. nExpr (emitNode a)) args) spread)"
| "emitNode (SscanfExpr t f names targets) =
     exprNode (emitSscanfExpr (nExpr (emitNode t)) (nExpr (emitNode f)) names
       (map (map_option (\<lambda>a. nWrite (emitNode a))) targets))"
| "emitNode (CatchExpr g) = exprNode (emitCatchExpr (nExpr (emitNode g)))"
| "emitNode (ClosureLiteralExpr fn args fe) = exprNode (emitClosureLiteral fn (map (\<lambda>a. nExpr (emitNode a)) args) fe)"
| "emitNode (InlineLambdaExpr body n bounds) = exprNode (emitInlineLambda body n (map (\<lambda>a. nExpr (emitNode a)) bounds))"
| "emitNode (LambdaParamExpr i b) = exprNode (emitLambdaParam i b)"
| "emitNode (ExprStmt e) = stmtNode (discard (nExpr (emitNode e)))"
| "emitNode (ReturnStmt e) = stmtNode (emitReturnStmt (map_option (\<lambda>a. nExpr (emitNode a)) e))"
| "emitNode (VarDeclStmt ty isArr n e) =
     (stmtNode (emitVarDeclStmt ty n (map_option (\<lambda>a. nExpr (emitNode a)) e)))
       \<lparr>nInit := emitVarDeclStmt ty n (map_option (\<lambda>a. nExpr (emitNode a)) e)\<rparr>"
| "emitNode (AssignStmt n e) = stmtNode (emitAssignStmt n (nExpr (emitNode e)))"
| "emitNode (AssignExpr n e c b) = exprNode (emitAssignExpr n (nExpr (emitNode e)) c b)"
| "emitNode (IncDecExpr d pre n t k c) =
     exprNode (case (map_option (\<lambda>a. (a, nExpr (emitNode a))) t, map_option (\<lambda>a. (a, nExpr (emitNode a))) k) of
                 (None, _) \<Rightarrow> emitIncDecVar d pre n
               | (Some (t1, tc), Some (k1, kc)) \<Rightarrow>
                   emitIncDecIndexed d pre (indexPair t1 k1 tc kc) (map_option (\<lambda>a. nExpr (emitNode a)) c)
               | (Some _, None) \<Rightarrow> (\<lambda>cg. Inl CgUndef))"
| "emitNode (ArrayLiteralExpr es spread) =
     exprNode (cgSeq [cgSeq (map (\<lambda>a. nExpr (emitNode a)) es), emitSpreadExpansions spread, emitI MakeArray 0 (to_int32 (int (length es)))])"
| "emitNode (MappingLiteralExpr es) =
     exprNode (emitMappingLiteral (map (map_prod (\<lambda>a. nExpr (emitNode a)) (map (\<lambda>a. nExpr (emitNode a)))) es))"
| "emitNode (MemberNameMarker m) = exprNode unsupportedExpr"
| "emitNode (TypeCastExpr c e) = exprNode (nExpr (emitNode e))"
| "emitNode (NewClassExpr c inits) = exprNode (emitNewClass c (map (map_prod id (\<lambda>a. nExpr (emitNode a))) inits))"
| "emitNode (IndexExpr t i re fe ree c) =
     (exprNode (emitIndexExpr (indexPair t i (nExpr (emitNode t)) (nExpr (emitNode i))) (map_option (\<lambda>a. nExpr (emitNode a)) re) fe ree
        (map_option (\<lambda>a. nExpr (emitNode a)) c)))
       \<lparr>nWrite := \<lambda>slot. cgSeq [nExpr (emitNode t), nExpr (emitNode i), cgOpt (map_option (\<lambda>a. nExpr (emitNode a)) c),
          emitI PushLocal slot 0, emitI IndexAssign 0 (columnFlag c)]\<rparr>"
| "emitNode (IndexAssignStmt t i v cp b c) =
     stmtNode (emitIndexAssignStmt (indexPair t i (nExpr (emitNode t)) (nExpr (emitNode i))) (nExpr (emitNode v)) cp b
       (map_option (\<lambda>a. nExpr (emitNode a)) c))"
| "emitNode (IndexAssignExpr t i v cp b c) =
     exprNode (emitIndexAssignExpr (indexPair t i (nExpr (emitNode t)) (nExpr (emitNode i))) (nExpr (emitNode v)) cp b
       (map_option (\<lambda>a. nExpr (emitNode a)) c))"
| "emitNode (BlockNode b) =
     (stmtNode (if (case b of Block _ real \<Rightarrow> real) then scoped (emitBlk b) else emitBlk b))
       \<lparr>nInit := scoped (emitBlk b), nUpdate := scoped (emitBlk b)\<rparr>"
| "emitNode (TimeExpressionExpr b) = exprNode (emitTimeExpressionExpr (scoped (emitBlk b)))"
| "emitNode (IfStmt c t e) =
     stmtNode (emitIfStmt (nExpr (emitNode c)) (scoped (emitBlk t)) (map_option (\<lambda>b. scoped (emitBlk b)) e))"
| "emitNode (WhileStmt c b) = stmtNode (emitWhileStmt (nExpr (emitNode c)) (scoped (emitBlk b)))"
| "emitNode (DoWhileStmt c b) = stmtNode (emitDoWhileStmt (nExpr (emitNode c)) (scoped (emitBlk b)))"
| "emitNode (ForStmt i c u b) =
     stmtNode (emitForStmt (cgOpt (map_option (\<lambda>a. nInit (emitNode a)) i)) (map_option (\<lambda>a. nExpr (emitNode a)) c)
       (cgOpt (map_option (\<lambda>a. nUpdate (emitNode a)) u)) (scoped (emitBlk b)))"
| "emitNode BreakStmt = stmtNode emitBreakStmt"
| "emitNode ContinueStmt = stmtNode emitContinueStmt"
| "emitNode (CaseLabel v r) =
     (stmtNode unsupportedStmt)
       \<lparr>nSwitch := (case map_option (\<lambda>a. nExpr (emitNode a)) v of
                      None \<Rightarrow> SwDefault
                    | Some vc \<Rightarrow> SwCase vc (map_option (\<lambda>a. nExpr (emitNode a)) r))\<rparr>"
| "emitNode (SwitchStmt s body) = stmtNode (emitSwitchStmt (nExpr (emitNode s)) (map (\<lambda>a. nSwitch (emitNode a)) body))"
| "emitNode (ForeachStmt fv c b) = stmtNode (emitForeachStmt fv (nExpr (emitNode c)) (scoped (emitBlk b)))"
| "emitNode (AnonFunctionExpr ps va b) = exprNode (emitAnonFunction ps va b)"
| "emitBlk (Block ss real) = cgSeq (map (\<lambda>a. nStmt (emitNode a)) ss)"

definition emitExpr :: "ast \<Rightarrow> cgm" where
  "emitExpr a = nExpr (emitNode a)"

definition emitStatement :: "ast \<Rightarrow> cgm" where
  "emitStatement a = nStmt (emitNode a)"

definition emitBlock :: "block \<Rightarrow> cgm" where
  "emitBlock b = scoped (emitBlk b)"


section \<open>Functions and programs\<close>

definition newCodegen :: codegen where
  "newCodegen = \<lparr>outCode = [], outFunctions = [], outStrings = [], outFloats = [], cgLocals = Map.empty, nextLocalSlot = 0,
     localScopeStack = [], cgObjectVars = Map.empty, classDefs = Map.empty, localClassTypes = Map.empty,
     objectVarClassTypes = Map.empty, loopStack = [], foreachCounter = 0, switchCounter = 0, indexAssignCounter = 0,
     pendingLambdas = [], nextLambdaId = 0, currentLambdaBoundValueCount = 0, pendingAnonFuncs = [], nextAnonFuncId = 0\<rparr>"

text \<open>What is reset between two functions. The class types of the locals are not.\<close>

definition resetFunction :: "codegen \<Rightarrow> codegen" where
  "resetFunction cg = cg\<lparr>cgLocals := Map.empty, nextLocalSlot := 0, localScopeStack := [], loopStack := [],
     foreachCounter := 0, switchCounter := 0, indexAssignCounter := 0\<rparr>"

text \<open>The fields of a function entry are narrow: the entry point has 32 bits, the counts have 8.\<close>

definition functionEntry :: "string \<Rightarrow> nat \<Rightarrow> int \<Rightarrow> int \<Rightarrow> bool \<Rightarrow> FunctionEntry" where
  "functionEntry name start args slots va =
     \<lparr>feName = name, entryPoint = start mod 2 ^ 32, numArgs = nat (args mod 256), numLocals = nat (slots mod 256),
      isAsync = False, isVarargs = va\<rparr>"

definition emitFunction :: "string \<Rightarrow> int \<Rightarrow> bool \<Rightarrow> cgm \<Rightarrow> cgm" where
  "emitFunction name args va body cg =
     (case cgThen body (emitI OpReturn 0 0) cg of
        Inl e \<Rightarrow> Inl e
      | Inr cg' \<Rightarrow>
          Inr (cg'\<lparr>outFunctions := outFunctions cg' @ [functionEntry name (length (outCode cg)) args (nextLocalSlot cg') va]\<rparr>))"

definition declareParams :: "Param list \<Rightarrow> cgm" where
  "declareParams ps = cgSeq (map (\<lambda>p. declareLocal (paName p) (paType p) (\<lambda>_. cgDone)) ps)"

fun lambdaBody :: "cgm list \<Rightarrow> cgm" where
  "lambdaBody [] = cgDone"
| "lambdaBody [e] = e"
| "lambdaBody (e # es) = cgThen (discard e) (lambdaBody es)"

definition emitLambda :: "string \<times> ast list \<times> int \<times> nat \<Rightarrow> cgm" where
  "emitLambda l cg =
     (case l of
        (name, body, params, bounds) \<Rightarrow>
          emitFunction name params False (lambdaBody (map emitExpr body))
            ((resetFunction cg)\<lparr>currentLambdaBoundValueCount := bounds, nextLocalSlot := int bounds + params\<rparr>))"

definition emitAnon :: "string \<times> Param list \<times> bool \<times> block \<Rightarrow> cgm" where
  "emitAnon a cg =
     (case a of
        (name, ps, va, body) \<Rightarrow>
          cgThen (declareParams ps) (emitFunction name (int (length ps)) va (emitBlock body)) (resetFunction cg))"

text \<open>The queues are walked by index while the bodies add to them; \<^const>\<open>None\<close> when \<open>n\<close> entries are not enough.\<close>

primrec lambdaLoop :: "nat \<Rightarrow> nat \<Rightarrow> codegen \<Rightarrow> (cg_error + codegen) option" where
  "lambdaLoop 0 i cg = None"
| "lambdaLoop (Suc n) i cg =
     (if length (pendingLambdas cg) \<le> i then Some (Inr (cg\<lparr>pendingLambdas := []\<rparr>))
      else (case emitLambda (pendingLambdas cg ! i) cg of Inl e \<Rightarrow> Some (Inl e) | Inr cg' \<Rightarrow> lambdaLoop n (Suc i) cg'))"

primrec anonLoop :: "nat \<Rightarrow> nat \<Rightarrow> codegen \<Rightarrow> (cg_error + codegen) option" where
  "anonLoop 0 i cg = None"
| "anonLoop (Suc n) i cg =
     (if length (pendingAnonFuncs cg) \<le> i then Some (Inr (cg\<lparr>pendingAnonFuncs := []\<rparr>))
      else (case emitAnon (pendingAnonFuncs cg ! i) cg of Inl e \<Rightarrow> Some (Inl e) | Inr cg' \<Rightarrow> anonLoop n (Suc i) cg'))"

definition emitPendingLambdas :: "nat \<Rightarrow> codegen \<Rightarrow> (cg_error + codegen) option" where
  "emitPendingLambdas n cg = lambdaLoop n 0 cg"

definition emitPendingAnonFuncs :: "nat \<Rightarrow> codegen \<Rightarrow> (cg_error + codegen) option" where
  "emitPendingAnonFuncs n cg = anonLoop n 0 cg"

definition cgNext :: "(cg_error + codegen) option \<Rightarrow> (codegen \<Rightarrow> (cg_error + codegen) option) \<Rightarrow> (cg_error + codegen) option" where
  "cgNext a k = (case a of None \<Rightarrow> None | Some (Inl e) \<Rightarrow> Some (Inl e) | Some (Inr cg) \<Rightarrow> k cg)"

primrec drain :: "nat \<Rightarrow> codegen \<Rightarrow> (cg_error + codegen) option" where
  "drain 0 cg = None"
| "drain (Suc n) cg =
     (if pendingLambdas cg = [] \<and> pendingAnonFuncs cg = [] then Some (Inr cg)
      else cgNext (emitPendingLambdas (Suc n) cg) (\<lambda>cg1. cgNext (emitPendingAnonFuncs (Suc n) cg1) (drain n)))"

definition emitFunctionDecl :: "nat \<Rightarrow> FunctionDecl \<Rightarrow> codegen \<Rightarrow> (cg_error + codegen) option" where
  "emitFunctionDecl n f cg =
     (case fdBody f of
        None \<Rightarrow> Some (Inr cg)
      | Some b \<Rightarrow>
          cgNext (Some (cgThen (declareParams (fdParams f)) (emitFunction (fdName f) (int (length (fdParams f))) (fdIsVarargs f) (emitBlock b))
                          (resetFunction cg)))
            (drain n))"

primrec emitFunctionDecls :: "nat \<Rightarrow> FunctionDecl list \<Rightarrow> codegen \<Rightarrow> (cg_error + codegen) option" where
  "emitFunctionDecls n [] cg = Some (Inr cg)"
| "emitFunctionDecls n (f # fs) cg = cgNext (emitFunctionDecl n f cg) (emitFunctionDecls n fs)"

text \<open>The object variables: slots after the inherited ones; a private variable is visible to children only as a slot.\<close>

definition declareObjectVar :: "ObjectVarDecl \<Rightarrow> codegen \<times> string list \<times> (int \<times> ast) list \<Rightarrow> codegen \<times> string list \<times> (int \<times> ast) list" where
  "declareObjectVar d st =
     (case st of
        (cg, names, inits) \<Rightarrow>
          let slot = int (length names) in
          (cg\<lparr>cgObjectVars := (cgObjectVars cg)(ovName d \<mapsto> slot),
              objectVarClassTypes := (case classText (ovType d) of None \<Rightarrow> objectVarClassTypes cg
                                      | Some c \<Rightarrow> (objectVarClassTypes cg)(ovName d \<mapsto> c))\<rparr>,
           names @ [if ovIsPrivate d then ''$private#'' @ to_string slot else ovName d],
           (case ovInitializer d of None \<Rightarrow> inits | Some e \<Rightarrow> inits @ [(slot, e)])))"

definition inheritVars :: "string list \<Rightarrow> string \<rightharpoonup> int" where
  "inheritVars names = map_of (rev (zip names (map int [0..<length names])))"

definition emitInitializers :: "nat \<Rightarrow> (int \<times> ast) list \<Rightarrow> codegen \<Rightarrow> (cg_error + codegen) option" where
  "emitInitializers n inits cg =
     (if inits = [] then Some (Inr cg)
      else
        cgNext (Some (emitFunction ''$objvarinit'' 0 False
                  (cgSeq (map (\<lambda>(slot, e). cgThen (emitExpr e) (emitI StoreObjectVar slot 0)) inits)) (resetFunction cg)))
          (emitPendingLambdas n))"

definition generate :: "nat \<Rightarrow> nat \<Rightarrow> Program \<Rightarrow> string list \<Rightarrow> (cg_error + CompiledProgram) option" where
  "generate n pid prog inherited =
     (let cg0 = newCodegen\<lparr>classDefs := map_of (rev (map (\<lambda>c. (cdName c, cdMembers c)) (prClasses prog))),
                          cgObjectVars := inheritVars inherited\<rparr>
      in case fold declareObjectVar (prObjectVars prog) (cg0, inherited, []) of
           (cg1, names, inits) \<Rightarrow>
             map_option (map_sum id (\<lambda>cg. CompiledProgram pid (outCode cg) (outFunctions cg) (outStrings cg) (outFloats cg) names
                 (prInherits prog) [] Map.empty))
               (cgNext (emitInitializers n inits cg1) (emitFunctionDecls n (prFunctions prog))))"


end
