(* ===== verification/CodeGen_Ok.thy ===== *)
theory CodeGen_Ok
  imports CodeGen
begin

text \<open>
  The code that \<^verbatim>\<open>CodeGen::generate\<close> produces is well formed: every jump and every catch frame has a target inside the code, and every
  string, float and object variable index is inside its table. The proof is a small calculus for the emitting functions, with the
  jump instructions that still have to be patched as holes.
\<close>

section \<open>Well-formed instructions\<close>

definition isJump :: "Instruction \<Rightarrow> bool" where
  "isJump i \<longleftrightarrow> op i \<in> {Jump, JumpIfFalse, PushCatchFrame}"

definition usesString :: "OpCode \<Rightarrow> bool" where
  "usesString o1 \<longleftrightarrow> o1 \<in> {PushConst, PushSymbol, OpCall, CallEfun, CallParent, PushClosure, PushEfunClosure}"

text \<open>The operand is valid for tables of these sizes; a jump target is a position up to the end of the code, cut to 32 bits.\<close>

definition okInstr :: "nat \<Rightarrow> nat \<Rightarrow> nat \<Rightarrow> nat \<Rightarrow> Instruction \<Rightarrow> bool" where
  "okInstr L S F V i \<longleftrightarrow>
     (isJump i \<longrightarrow> (\<exists>t\<le>L. operand i = to_int32 (int t))) \<and>
     (usesString (op i) \<longrightarrow> 0 \<le> operand i \<and> operand i < int S) \<and>
     (op i = CallParentQualifierSlot \<longrightarrow> -1 \<le> operand i \<and> operand i < int S) \<and>
     (op i = PushFloat \<longrightarrow> 0 \<le> operand i \<and> operand i < int F) \<and>
     (op i \<in> {PushObjectVar, StoreObjectVar} \<or> op i = SscanfVarSlot \<and> argCount i \<noteq> 0 \<longrightarrow> 0 \<le> operand i \<and> operand i < int V)"

lemma okInstr_mono: "okInstr L S F V i \<Longrightarrow> L \<le> L' \<Longrightarrow> S \<le> S' \<Longrightarrow> F \<le> F' \<Longrightarrow> okInstr L' S' F' V i"
proof -
  assume a: "okInstr L S F V i" "L \<le> L'" "S \<le> S'" "F \<le> F'"
  have "\<exists>t\<le>L'. operand i = to_int32 (int t)" if "isJump i"
    using a(1,2) that unfolding okInstr_def by (meson order_trans)
  moreover have "x < int S \<Longrightarrow> x < int S'" "x < int F \<Longrightarrow> x < int F'" for x using a(3,4) by simp_all
  ultimately show ?thesis using a(1) unfolding okInstr_def by blast
qed

definition okIn :: "nat \<Rightarrow> codegen \<Rightarrow> Instruction \<Rightarrow> bool" where
  "okIn V cg i = okInstr (length (outCode cg)) (length (outStrings cg)) (length (outFloats cg)) V i"

section \<open>Holes\<close>

definition jumpsOf :: "LoopContext \<Rightarrow> nat set" where
  "jumpsOf c = set (breakJumps c) \<union> set (continueJumps c)"

definition pend :: "LoopContext list \<Rightarrow> nat set" where
  "pend ls = (\<Union>c\<in>set ls. jumpsOf c)"

text \<open>Only a loop collects \<^verbatim>\<open>continue\<close> statements.\<close>

definition okLoop :: "LoopContext \<Rightarrow> bool" where
  "okLoop c \<longleftrightarrow> set (breakJumps c) \<inter> set (continueJumps c) = {} \<and> (isSwitch c \<longrightarrow> continueJumps c = [])"

definition cgInv :: "nat \<Rightarrow> codegen \<Rightarrow> bool" where
  "cgInv V cg \<longleftrightarrow>
     (\<forall>i\<in>pend (loopStack cg). i < length (outCode cg) \<and> isJump (outCode cg ! i)) \<and>
     (\<forall>c\<in>set (loopStack cg). okLoop c) \<and>
     (\<forall>n s. cgObjectVars cg n = Some s \<longrightarrow> 0 \<le> s \<and> s < int V)"

definition loopGrows :: "nat \<Rightarrow> LoopContext \<Rightarrow> LoopContext \<Rightarrow> bool" where
  "loopGrows lo c c' \<longleftrightarrow> isSwitch c' = isSwitch c \<and> jumpsOf c \<subseteq> jumpsOf c' \<and> (\<forall>i\<in>jumpsOf c' - jumpsOf c. lo \<le> i)"

definition bigger :: "codegen \<Rightarrow> codegen \<Rightarrow> bool" where
  "bigger cg cg' \<longleftrightarrow>
     length (outCode cg) \<le> length (outCode cg') \<and> length (outStrings cg) \<le> length (outStrings cg') \<and>
     length (outFloats cg) \<le> length (outFloats cg') \<and> cgObjectVars cg' = cgObjectVars cg \<and> outFunctions cg' = outFunctions cg \<and>
     list_all2 (loopGrows (length (outCode cg))) (loopStack cg) (loopStack cg')"

text \<open>What lies between two states: old code is unchanged, new code is well formed except for the holes.\<close>

definition ext :: "nat \<Rightarrow> nat set \<Rightarrow> codegen \<Rightarrow> codegen \<Rightarrow> bool" where
  "ext V H cg0 cg \<longleftrightarrow>
     bigger cg0 cg \<and> take (length (outCode cg0)) (outCode cg) = outCode cg0 \<and>
     (\<forall>i. length (outCode cg0) \<le> i \<longrightarrow> i < length (outCode cg) \<longrightarrow>
        okIn V cg (outCode cg ! i) \<or> i \<in> H \<union> pend (loopStack cg)) \<and>
     (\<forall>i\<in>H. length (outCode cg0) \<le> i \<and> i < length (outCode cg) \<and> isJump (outCode cg ! i))"

text \<open>Facts that stay true while code is emitted.\<close>

datatype cg_fact = Target nat | StrIdx int | FltIdx int | ObjSlot int

fun holds :: "nat \<Rightarrow> codegen \<Rightarrow> cg_fact \<Rightarrow> bool" where
  "holds V cg (Target t) \<longleftrightarrow> t \<le> length (outCode cg)"
| "holds V cg (StrIdx i) \<longleftrightarrow> 0 \<le> i \<and> i < int (length (outStrings cg))"
| "holds V cg (FltIdx i) \<longleftrightarrow> 0 \<le> i \<and> i < int (length (outFloats cg))"
| "holds V cg (ObjSlot s) \<longleftrightarrow> 0 \<le> s \<and> s < int V"

lemma holds_bigger: "holds V cg f \<Longrightarrow> bigger cg cg' \<Longrightarrow> holds V cg' f"
  by (cases f) (auto simp: bigger_def)

lemma loops_refl [simp]: "list_all2 (loopGrows lo) ls ls"
  by (rule list_all2_refl) (simp add: loopGrows_def)

lemma loopGrows_refl [simp]: "loopGrows lo c c"
  by (simp add: loopGrows_def)

lemma bigger_refl [simp]: "bigger cg cg"
  by (simp add: bigger_def)

lemma loopGrows_trans: "loopGrows lo a b \<Longrightarrow> loopGrows lo' b c \<Longrightarrow> lo \<le> lo' \<Longrightarrow> loopGrows lo a c"
  unfolding loopGrows_def by (meson Diff_iff order_trans subset_trans)

lemma bigger_trans:
  assumes "bigger a b" "bigger b c"
  shows "bigger a c"
proof -
  have "list_all2 (loopGrows (length (outCode a))) (loopStack a) (loopStack c)"
  proof (rule list_all2_trans)
    show "list_all2 (loopGrows (length (outCode a))) (loopStack a) (loopStack b)"
      "list_all2 (loopGrows (length (outCode b))) (loopStack b) (loopStack c)"
      using assms by (simp_all add: bigger_def)
    show "loopGrows (length (outCode a)) x z" if "loopGrows (length (outCode a)) x y" "loopGrows (length (outCode b)) y z" for x y z
      using that loopGrows_trans assms(1) unfolding bigger_def by blast
  qed
  with assms show ?thesis by (simp add: bigger_def)
qed

text \<open>
  The judgement: with holes \<open>H\<close> and facts \<open>T\<close> before, the action leaves at most the holes \<open>H'\<close>.
\<close>

definition emits :: "nat \<Rightarrow> nat set \<Rightarrow> cg_fact set \<Rightarrow> cgm \<Rightarrow> nat set \<Rightarrow> bool" where
  "emits V H T a H' \<longleftrightarrow>
     (\<forall>cg0 cg cg'. cgInv V cg \<longrightarrow> ext V H cg0 cg \<longrightarrow> (\<forall>f\<in>T. holds V cg f) \<longrightarrow> a cg = Inr cg' \<longrightarrow>
        cgInv V cg' \<and> ext V H' cg0 cg' \<and> bigger cg cg')"

definition good :: "nat \<Rightarrow> cgm \<Rightarrow> bool" where
  "good V a \<longleftrightarrow> (\<forall>H T. emits V H T a H)"

lemma goodD [simp]: "good V a \<Longrightarrow> emits V H T a H"
  by (simp add: good_def)

named_theorems emits_rules \<open>rules of the calculus\<close>

lemma emits_done [emits_rules]: "H = H' \<Longrightarrow> emits V H T cgDone H'"
  by (simp add: emits_def cgDone_def)

lemma emits_fail [emits_rules]: "emits V H T (cgFail msg) H'" "emits V H T (\<lambda>cg. Inl e) H'"
  by (simp_all add: emits_def cgFail_def)

lemma emits_then:
  assumes "emits V H T a H1" "emits V H1 T b H2"
  shows "emits V H T (cgThen a b) H2"
  unfolding emits_def
proof (intro allI impI)
  fix cg0 cg cg'
  assume i: "cgInv V cg" and e: "ext V H cg0 cg" and t: "\<forall>f\<in>T. holds V cg f" and r: "cgThen a b cg = Inr cg'"
  then obtain cg1 where a: "a cg = Inr cg1" "b cg1 = Inr cg'" by (auto simp: cgThen_def split: sum.splits)
  have 1: "cgInv V cg1 \<and> ext V H1 cg0 cg1 \<and> bigger cg cg1" using assms(1) i e t a(1) unfolding emits_def by blast
  then have "\<forall>f\<in>T. holds V cg1 f" using t holds_bigger by blast
  with 1 assms(2) a(2) have "cgInv V cg' \<and> ext V H2 cg0 cg' \<and> bigger cg1 cg'" unfolding emits_def by blast
  with 1 show "cgInv V cg' \<and> ext V H2 cg0 cg' \<and> bigger cg cg'" using bigger_trans by blast
qed

lemma emits_good_then [emits_rules]: "good V a \<Longrightarrow> emits V H T b H' \<Longrightarrow> emits V H T (cgThen a b) H'"
  by (rule emits_then[OF goodD])

text \<open>An action that only touches the fields the judgement does not look at.\<close>

lemma ext_cong:
  assumes "outCode cg' = outCode cg" "outStrings cg' = outStrings cg" "outFloats cg' = outFloats cg" "loopStack cg' = loopStack cg"
    "cgObjectVars cg' = cgObjectVars cg \<and> outFunctions cg' = outFunctions cg"
  shows "ext V H cg0 cg' = ext V H cg0 cg" "cgInv V cg' = cgInv V cg" "bigger cg cg'"
  using assms by (simp_all add: ext_def cgInv_def bigger_def okIn_def)

lemma emits_silent:
  assumes "\<And>cg cg'. a cg = Inr cg' \<Longrightarrow> outCode cg' = outCode cg \<and> outStrings cg' = outStrings cg \<and> outFloats cg' = outFloats cg \<and>
      loopStack cg' = loopStack cg \<and> cgObjectVars cg' = cgObjectVars cg \<and> outFunctions cg' = outFunctions cg"
  shows "good V a"
  unfolding good_def emits_def using assms ext_cong by blast

lemma pend_append_code:
  "cgInv V cg \<Longrightarrow> i \<in> pend (loopStack cg) \<Longrightarrow> (outCode cg @ xs) ! i = outCode cg ! i"
  by (auto simp: cgInv_def nth_append)

text \<open>Appending one instruction, either well formed or a hole.\<close>

lemma ext_append:
  assumes i: "cgInv V cg" and e: "ext V H cg0 cg" and cg': "cg' = cg\<lparr>outCode := outCode cg @ [x]\<rparr>"
    and h: "okIn V cg' x \<and> H' = H \<or> isJump x \<and> H' = insert (length (outCode cg)) H"
  shows "cgInv V cg' \<and> ext V H' cg0 cg' \<and> bigger cg cg'"
proof (intro conjI)
  have b: "bigger cg cg'" by (simp add: bigger_def cg')
  then show "bigger cg cg'" .
  show "cgInv V cg'" using i by (auto simp: cgInv_def cg' nth_append less_Suc_eq)
  have lo: "length (outCode cg0) \<le> length (outCode cg)" using e by (simp add: ext_def bigger_def)
  have m: "okIn V cg' y" if "okIn V cg y" for y
    using that b unfolding okIn_def bigger_def by (blast intro: okInstr_mono)
  show "ext V H' cg0 cg'"
    unfolding ext_def
  proof (intro conjI allI impI ballI)
    show "bigger cg0 cg'" using e b bigger_trans unfolding ext_def by blast
    show "take (length (outCode cg0)) (outCode cg') = outCode cg0" using e lo by (simp add: ext_def cg')
  next
    fix j assume j: "length (outCode cg0) \<le> j" "j < length (outCode cg')"
    show "okIn V cg' (outCode cg' ! j) \<or> j \<in> H' \<union> pend (loopStack cg')"
    proof (cases "j = length (outCode cg)")
      case True
      then show ?thesis using h by (auto simp: cg' nth_append)
    next
      case False
      then have jl: "j < length (outCode cg)" using j(2) by (simp add: cg')
      then have "okIn V cg (outCode cg ! j) \<or> j \<in> H \<union> pend (loopStack cg)" using e j(1) unfolding ext_def by blast
      then show ?thesis using m h jl by (auto simp: cg' nth_append)
    qed
  next
    fix j assume "j \<in> H'"
    then show "length (outCode cg0) \<le> j" "j < length (outCode cg')" "isJump (outCode cg' ! j)"
      using h e lo unfolding ext_def cg' by (auto simp: nth_append less_Suc_eq)
  qed
qed

definition plainOp :: "OpCode \<Rightarrow> bool" where
  "plainOp o1 \<longleftrightarrow> \<not> usesString o1 \<and>
     o1 \<notin> {Jump, JumpIfFalse, PushCatchFrame, CallParentQualifierSlot, PushFloat, PushObjectVar, StoreObjectVar, SscanfVarSlot}"

lemma emits_I:
  assumes "\<And>cg. (\<forall>f\<in>T. holds V cg f) \<Longrightarrow> okIn V cg (instr o1 n k)"
  shows "emits V H T (emitI o1 n k) H"
  unfolding emits_def emitI_def
proof (intro allI impI)
  fix cg0 cg cg'
  assume i: "cgInv V cg" and e: "ext V H cg0 cg" and t: "\<forall>f\<in>T. holds V cg f"
    and r: "Inr (cg\<lparr>outCode := outCode cg @ [instr o1 n k]\<rparr>) = (Inr cg' :: cg_error + codegen)"
  have "bigger cg cg'" using r by (auto simp: bigger_def)
  then have "okIn V cg' (instr o1 n k)" using assms[of cg'] t holds_bigger by blast
  then show "cgInv V cg' \<and> ext V H cg0 cg' \<and> bigger cg cg'" using ext_append[OF i e] r by blast
qed

lemma emits_plain [emits_rules]: "plainOp o1 \<Longrightarrow> emits V H T (emitI o1 n k) H"
  by (rule emits_I) (auto simp: plainOp_def okIn_def okInstr_def instr_def isJump_def)

lemma plain_ops [simp]:
  "plainOp PushInt" "plainOp PushNil" "plainOp PushLocal" "plainOp StoreLocal" "plainOp OpAdd" "plainOp OpSub" "plainOp OpMul"
  "plainOp OpDiv" "plainOp OpMod" "plainOp BitAnd" "plainOp BitOr" "plainOp BitXor" "plainOp Shl" "plainOp Shr" "plainOp BitNot"
  "plainOp OpEq" "plainOp OpNeq" "plainOp OpLt" "plainOp OpLte" "plainOp OpGt" "plainOp OpGte" "plainOp OpNot" "plainOp ExpandVarargs"
  "plainOp MakeArray" "plainOp MakeMapping" "plainOp OpIndex" "plainOp IndexAssign" "plainOp RangeIndex" "plainOp OpSscanf"
  "plainOp ForeachKeys" "plainOp PopCatchFrame" "plainOp TimeExpressionStart" "plainOp TimeExpressionEnd" "plainOp OpReturn"
  "plainOp OpPop" "plainOp OpDup"
  by (simp_all add: plainOp_def usesString_def)

lemma good_plain [simp, intro]: "plainOp o1 \<Longrightarrow> good V (emitI o1 n k)"
  by (simp add: good_def emits_plain)

lemma good_fail [simp, intro]: "good V (cgFail msg)" "good V (\<lambda>cg. Inl e)"
  by (simp_all add: good_def emits_fail)

lemma good_done [simp, intro]: "good V cgDone"
  by (simp add: good_def emits_done)

lemma good_then [simp, intro]: "good V a \<Longrightarrow> good V b \<Longrightarrow> good V (cgThen a b)"
  unfolding good_def by (blast intro: emits_then)

lemma good_seq [intro]: "(\<And>a. a \<in> set as \<Longrightarrow> good V a) \<Longrightarrow> good V (cgSeq as)"
  by (induction as) auto

lemma good_opt [intro]: "(\<And>a. m = Some a \<Longrightarrow> good V a) \<Longrightarrow> good V (cgOpt m)"
  by (cases m) (auto simp: cgOpt_def)

lemma emits_string [emits_rules]: "usesString o1 \<Longrightarrow> StrIdx n \<in> T \<Longrightarrow> emits V H T (emitI o1 n k) H"
  by (rule emits_I) (force simp: usesString_def okIn_def okInstr_def instr_def isJump_def)

lemma emits_qualifier [emits_rules]:
  "n = -1 \<or> StrIdx n \<in> T \<Longrightarrow> emits V H T (emitI CallParentQualifierSlot n k) H"
  by (rule emits_I) (force simp: usesString_def okIn_def okInstr_def instr_def isJump_def)

lemma emits_float [emits_rules]: "FltIdx n \<in> T \<Longrightarrow> emits V H T (emitI PushFloat n k) H"
  by (rule emits_I) (force simp: usesString_def okIn_def okInstr_def instr_def isJump_def)

lemma emits_var [emits_rules]:
  "k = VkLocal \<or> ObjSlot n \<in> T \<Longrightarrow> emits V H T (emitI (pushVar k) n c) H"
  "k = VkLocal \<or> ObjSlot n \<in> T \<Longrightarrow> emits V H T (emitI (storeVar k) n c) H"
  by (rule emits_I, force simp: usesString_def okIn_def okInstr_def instr_def isJump_def pushVar_def storeVar_def)+

lemma emits_slot [emits_rules]:
  "c = 0 \<or> ObjSlot n \<in> T \<Longrightarrow> emits V H T (emitI SscanfVarSlot n c) H"
  by (rule emits_I) (force simp: usesString_def okIn_def okInstr_def instr_def isJump_def)

lemma emits_jumpTo [emits_rules]: "Target t \<in> T \<Longrightarrow> emits V H T (jumpTo t) H"
  unfolding jumpTo_def by (rule emits_I) (force simp: usesString_def okIn_def okInstr_def instr_def isJump_def)

lemma emits_placeholder [emits_rules]:
  assumes "o1 \<in> {Jump, JumpIfFalse, PushCatchFrame}" "\<And>j. j \<notin> H \<Longrightarrow> emits V (insert j H) T (A j) H'"
  shows "emits V H T (emitJumpPlaceholder o1 A) H'"
  unfolding emits_def
proof (intro allI impI)
  fix cg0 cg cg'
  assume i: "cgInv V cg" and e: "ext V H cg0 cg" and t: "\<forall>f\<in>T. holds V cg f" and r: "emitJumpPlaceholder o1 A cg = Inr cg'"
  let ?j = "length (outCode cg)" and ?cg = "cg\<lparr>outCode := outCode cg @ [instr o1 (-1) 0]\<rparr>"
  have j: "?j \<notin> H" using e unfolding ext_def by blast
  have "isJump (instr o1 (-1) 0)" using assms(1) by (simp add: isJump_def instr_def)
  then have 1: "cgInv V ?cg \<and> ext V (insert ?j H) cg0 ?cg \<and> bigger cg ?cg" using ext_append[OF i e] by blast
  then have "\<forall>f\<in>T. holds V ?cg f" using t holds_bigger by blast
  with 1 r assms(2)[OF j] have "cgInv V cg' \<and> ext V H' cg0 cg' \<and> bigger ?cg cg'"
    unfolding emits_def emitJumpPlaceholder_def by blast
  with 1 show "cgInv V cg' \<and> ext V H' cg0 cg' \<and> bigger cg cg'" using bigger_trans by blast
qed

text \<open>Patching a hole.\<close>

lemma emits_patch:
  assumes "j \<in> H" "Target t \<in> T"
  shows "emits V H T (patchJumpTo j t) (H - {j})"
  unfolding emits_def patchJumpTo_def
proof (intro allI impI)
  fix cg0 cg cg'
  assume i: "cgInv V cg" and e: "ext V H cg0 cg" and t: "\<forall>f\<in>T. holds V cg f"
    and r: "Inr (cg\<lparr>outCode := (outCode cg)[j := (outCode cg ! j)\<lparr>operand := to_int32 (int t)\<rparr>]\<rparr>) = (Inr cg' :: cg_error + codegen)"
  let ?x = "(outCode cg ! j)\<lparr>operand := to_int32 (int t)\<rparr>"
  have cg': "cg' = cg\<lparr>outCode := (outCode cg)[j := ?x]\<rparr>" using r by simp
  have j: "length (outCode cg0) \<le> j" "j < length (outCode cg)" "isJump (outCode cg ! j)" using e assms(1) unfolding ext_def by blast+
  have len: "length (outCode cg') = length (outCode cg)" and same: "okIn V cg' y = okIn V cg y" for y by (simp_all add: cg' okIn_def)
  have jmp: "isJump (outCode cg' ! k) = isJump (outCode cg ! k)" for k
    using j(2) by (simp add: cg' nth_list_update isJump_def)
  have "t \<le> length (outCode cg)" using t assms(2) by force
  then have okx: "okIn V cg' (outCode cg' ! j)"
    using j by (auto simp: cg' okIn_def okInstr_def isJump_def usesString_def)
  have nth: "outCode cg' ! k = outCode cg ! k" if "k \<noteq> j" for k using that by (simp add: cg')
  show "cgInv V cg' \<and> ext V (H - {j}) cg0 cg' \<and> bigger cg cg'"
  proof (intro conjI)
    show b: "bigger cg cg'" by (simp add: bigger_def cg')
    show "cgInv V cg'" using i by (auto simp: cgInv_def len jmp) (simp_all add: cg')
    show "ext V (H - {j}) cg0 cg'"
      unfolding ext_def
    proof (intro conjI allI impI ballI)
      show "bigger cg0 cg'" using e b bigger_trans unfolding ext_def by blast
      show "take (length (outCode cg0)) (outCode cg') = outCode cg0" using e j(1) by (simp add: ext_def cg' take_update_cancel)
    next
      fix k assume k: "length (outCode cg0) \<le> k" "k < length (outCode cg')"
      show "okIn V cg' (outCode cg' ! k) \<or> k \<in> (H - {j}) \<union> pend (loopStack cg')"
      proof (cases "k = j")
        case False
        have "okIn V cg (outCode cg ! k) \<or> k \<in> H \<union> pend (loopStack cg)" using e k len unfolding ext_def by simp
        then show ?thesis using False nth same by (auto simp: cg')
      qed (simp add: okx)
    next
      fix k assume "k \<in> H - {j}"
      then show "length (outCode cg0) \<le> k" "k < length (outCode cg')" "isJump (outCode cg' ! k)"
        using e unfolding ext_def len jmp by blast+
    qed
  qed
qed

lemma emits_dep:
  assumes "\<And>cg. emits V H (F cg \<union> T) (A cg) H'" "\<And>cg f. f \<in> F cg \<Longrightarrow> holds V cg f"
  shows "emits V H T (\<lambda>cg. A cg cg) H'"
  unfolding emits_def using assms unfolding emits_def by (meson Un_iff)

lemma emits_here [emits_rules]:
  assumes "\<And>t. emits V H (insert (Target t) T) (A t) H'"
  shows "emits V H T (here A) H'"
proof -
  have "here A = (\<lambda>cg. A (length (outCode cg)) cg)" by (rule ext) (simp add: here_def)
  then show ?thesis
    using emits_dep[where F = "\<lambda>cg. {Target (length (outCode cg))}" and A = "\<lambda>cg. A (length (outCode cg))"] assms by simp
qed

lemma here_patch: "patchJumpToHere j = here (patchJumpTo j)" "patchAllToHere js = here (patchAll js)"
  by (simp_all add: fun_eq_iff patchJumpToHere_def patchAllToHere_def here_def)

lemma emits_patchHere [emits_rules]: "j \<in> H \<Longrightarrow> H' = H - {j} \<Longrightarrow> emits V H T (patchJumpToHere j) H'"
  unfolding here_patch by (simp add: emits_here emits_patch)

lemma emits_patchHere_then [emits_rules]:
  "j \<in> H \<Longrightarrow> emits V (H - {j}) T b H' \<Longrightarrow> emits V H T (cgThen (patchJumpToHere j) b) H'"
  by (rule emits_then[OF emits_patchHere]) auto

lemma emits_repatch:
  assumes "j \<in> H" "Target t \<in> T"
  shows "emits V H T (patchJumpTo j t) H"
  unfolding emits_def
proof (intro allI impI)
  fix cg0 cg cg'
  assume i: "cgInv V cg" and e: "ext V H cg0 cg" and t: "\<forall>f\<in>T. holds V cg f" and r: "patchJumpTo j t cg = Inr cg'"
  have 1: "cgInv V cg' \<and> ext V (H - {j}) cg0 cg' \<and> bigger cg cg'"
    using emits_patch[OF assms] i e t r unfolding emits_def by blast
  have "length (outCode cg0) \<le> j \<and> j < length (outCode cg') \<and> isJump (outCode cg' ! j)"
    using e assms(1) r unfolding ext_def patchJumpTo_def by (auto simp: isJump_def)
  then have "ext V H cg0 cg'" using 1 unfolding ext_def by blast
  with 1 show "cgInv V cg' \<and> ext V H cg0 cg' \<and> bigger cg cg'" by blast
qed

lemma emits_patchAll:
  "set js \<subseteq> H \<Longrightarrow> Target t \<in> T \<Longrightarrow> emits V H T (patchAll js t) (H - set js)"
proof (induction js arbitrary: H)
  case Nil
  then show ?case by (simp add: patchAll_def emits_done)
next
  case (Cons j js)
  show ?case
  proof (cases "j \<in> set js")
    case False
    then have "emits V (H - {j}) T (patchAll js t) (H - {j} - set js)"
      using Cons.prems by (intro Cons.IH) auto
    then have "emits V H T (cgThen (patchJumpTo j t) (patchAll js t)) (H - {j} - set js)"
      by (rule emits_then[OF emits_patch, rotated 2]) (use Cons.prems in auto)
    moreover have "H - {j} - set js = H - set (j # js)" by auto
    ultimately show ?thesis by (simp add: patchAll_def)
  next
    case True
    have "emits V H T (patchJumpTo j t) H"
      by (rule emits_repatch) (use Cons.prems in auto)
    from emits_then[OF this Cons.IH] True Cons.prems show ?thesis by (simp add: patchAll_def insert_absorb)
  qed
qed

lemma emits_patchAll_then [emits_rules]:
  "set js \<subseteq> H \<Longrightarrow> Target t \<in> T \<Longrightarrow> emits V (H - set js) T b H' \<Longrightarrow> emits V H T (cgThen (patchAll js t) b) H'"
  by (rule emits_then[OF emits_patchAll])

lemma emits_patchAllHere [emits_rules]: "set js \<subseteq> H \<Longrightarrow> H' = H - set js \<Longrightarrow> emits V H T (patchAllToHere js) H'"
  unfolding here_patch by (simp add: emits_here emits_patchAll)

lemma emits_patchAllHere_then [emits_rules]:
  "set js \<subseteq> H \<Longrightarrow> emits V (H - set js) T b H' \<Longrightarrow> emits V H T (cgThen (patchAllToHere js) b) H'"
  by (rule emits_then[OF emits_patchAllHere]) auto

text \<open>Pools and variables.\<close>

lemma emits_internString [emits_rules]:
  assumes "\<And>i. emits V H (insert (StrIdx i) T) (A i) H'"
  shows "emits V H T (internString s A) H'"
  unfolding emits_def
proof (intro allI impI)
  fix cg0 cg cg'
  assume i: "cgInv V cg" and e: "ext V H cg0 cg" and t: "\<forall>f\<in>T. holds V cg f" and r: "internString s A cg = Inr cg'"
  show "cgInv V cg' \<and> ext V H' cg0 cg' \<and> bigger cg cg'"
  proof (cases "find_idx (\<lambda>x. x = s) (outStrings cg)")
    case (Some k)
    then have "\<forall>f\<in>insert (StrIdx (int k)) T. holds V cg f" using t by (auto simp: find_idx_Some)
    with Some r i e assms[of "int k"] show ?thesis unfolding emits_def internString_def by simp
  next
    case None
    let ?k = "int (length (outStrings cg))" and ?cg = "cg\<lparr>outStrings := outStrings cg @ [s]\<rparr>"
    have b: "bigger cg ?cg" by (simp add: bigger_def)
    then have t': "\<forall>f\<in>insert (StrIdx ?k) T. holds V ?cg f" using t holds_bigger by auto
    have m: "okIn V ?cg y" if "okIn V cg y" for y using that b unfolding okIn_def bigger_def by (blast intro: okInstr_mono)
    have "ext V H cg0 ?cg" using e m bigger_trans[OF _ b] unfolding ext_def by auto
    moreover have "cgInv V ?cg" using i by (simp add: cgInv_def)
    ultimately have "cgInv V cg' \<and> ext V H' cg0 cg' \<and> bigger ?cg cg'"
      using assms[of ?k] t' r None unfolding emits_def internString_def by simp
    then show ?thesis using bigger_trans[OF b] by blast
  qed
qed

lemma emits_internFloat [emits_rules]:
  assumes "\<And>i. emits V H (insert (FltIdx i) T) (A i) H'"
  shows "emits V H T (internFloat d A) H'"
  unfolding emits_def
proof (intro allI impI)
  fix cg0 cg cg'
  assume i: "cgInv V cg" and e: "ext V H cg0 cg" and t: "\<forall>f\<in>T. holds V cg f" and r: "internFloat d A cg = Inr cg'"
  show "cgInv V cg' \<and> ext V H' cg0 cg' \<and> bigger cg cg'"
  proof (cases "find_idx (\<lambda>x. dbl_eq x d) (outFloats cg)")
    case (Some k)
    then have "\<forall>f\<in>insert (FltIdx (int k)) T. holds V cg f" using t by (auto simp: find_idx_Some)
    with Some r i e assms[of "int k"] show ?thesis unfolding emits_def internFloat_def by simp
  next
    case None
    let ?k = "int (length (outFloats cg))" and ?cg = "cg\<lparr>outFloats := outFloats cg @ [d]\<rparr>"
    have b: "bigger cg ?cg" by (simp add: bigger_def)
    then have t': "\<forall>f\<in>insert (FltIdx ?k) T. holds V ?cg f" using t holds_bigger by auto
    have m: "okIn V ?cg y" if "okIn V cg y" for y using that b unfolding okIn_def bigger_def by (blast intro: okInstr_mono)
    have "ext V H cg0 ?cg" using e m bigger_trans[OF _ b] unfolding ext_def by auto
    moreover have "cgInv V ?cg" using i by (simp add: cgInv_def)
    ultimately have "cgInv V cg' \<and> ext V H' cg0 cg' \<and> bigger ?cg cg'"
      using assms[of ?k] t' r None unfolding emits_def internFloat_def by simp
    then show ?thesis using bigger_trans[OF b] by blast
  qed
qed

lemma emits_resolve [emits_rules]:
  assumes "\<And>s. emits V H T (A VkLocal s) H'" "\<And>s. emits V H (insert (ObjSlot s) T) (A VkObjectVar s) H'"
  shows "emits V H T (resolveVariable n A) H'"
  unfolding emits_def
proof (intro allI impI)
  fix cg0 cg cg'
  assume i: "cgInv V cg" and e: "ext V H cg0 cg" and t: "\<forall>f\<in>T. holds V cg f" and r: "resolveVariable n A cg = Inr cg'"
  show "cgInv V cg' \<and> ext V H' cg0 cg' \<and> bigger cg cg'"
  proof (cases "cgLocals cg n")
    case (Some s)
    then show ?thesis using assms(1)[of s] i e t r unfolding emits_def resolveVariable_def by simp
  next
    case None
    then obtain s where s: "cgObjectVars cg n = Some s" "A VkObjectVar s cg = Inr cg'"
      using r by (auto simp: resolveVariable_def split: option.splits)
    then have "\<forall>f\<in>insert (ObjSlot s) T. holds V cg f" using t i by (auto simp: cgInv_def)
    then show ?thesis using assms(2)[of s] i e s(2) unfolding emits_def by blast
  qed
qed

lemma emits_update:
  assumes "\<And>cg. emits V H T (A cg) H'"
    "\<And>cg. outCode (F cg) = outCode cg \<and> outStrings (F cg) = outStrings cg \<and> outFloats (F cg) = outFloats cg \<and>
      loopStack (F cg) = loopStack cg \<and> cgObjectVars (F cg) = cgObjectVars cg \<and> outFunctions (F cg) = outFunctions cg"
  shows "emits V H T (\<lambda>cg. A cg (F cg)) H'"
  unfolding emits_def
proof (intro allI impI)
  fix cg0 cg cg'
  assume i: "cgInv V cg" and e: "ext V H cg0 cg" and t: "\<forall>f\<in>T. holds V cg f" and r: "A cg (F cg) = Inr cg'"
  have f: "ext V H cg0 (F cg) = ext V H cg0 cg" "cgInv V (F cg) = cgInv V cg" "bigger cg (F cg)"
    using ext_cong[of "F cg" cg] assms(2)[of cg] by auto
  have "\<forall>x\<in>T. holds V (F cg) x" using t holds_bigger[OF _ f(3)] by blast
  then have "cgInv V cg' \<and> ext V H' cg0 cg' \<and> bigger (F cg) cg'"
    using assms(1)[of cg] i e r f unfolding emits_def by blast
  then show "cgInv V cg' \<and> ext V H' cg0 cg' \<and> bigger cg cg'" using bigger_trans[OF f(3)] by blast
qed

lemma emits_declare [emits_rules]:
  assumes "\<And>s. emits V H T (A s) H'"
  shows "emits V H T (declareLocal n ty A) H'"
proof -
  have k: "emits V H T (\<lambda>cg. A (nextLocalSlot cg) (F cg)) H'"
    if "\<And>cg. outCode (F cg) = outCode cg \<and> outStrings (F cg) = outStrings cg \<and> outFloats (F cg) = outFloats cg \<and>
      loopStack (F cg) = loopStack cg \<and> cgObjectVars (F cg) = cgObjectVars cg \<and> outFunctions (F cg) = outFunctions cg" for F
    by (rule emits_update[where A = "\<lambda>cg. A (nextLocalSlot cg)"]) (use assms that in auto)
  show ?thesis
    unfolding emits_def
  proof (intro allI impI)
    fix cg0 cg cg'
    assume a: "cgInv V cg" "ext V H cg0 cg" "\<forall>f\<in>T. holds V cg f" and r: "declareLocal n ty A cg = Inr cg'"
    obtain F where F: "\<And>cg. outCode (F cg) = outCode cg \<and> outStrings (F cg) = outStrings cg \<and> outFloats (F cg) = outFloats cg \<and>
      loopStack (F cg) = loopStack cg \<and> cgObjectVars (F cg) = cgObjectVars cg \<and> outFunctions (F cg) = outFunctions cg" "A (nextLocalSlot cg) (F cg) = Inr cg'"
    proof (cases "n = []")
      case True
      show ?thesis
        by (rule that[of "\<lambda>cg. cg\<lparr>nextLocalSlot := nextLocalSlot cg + 1\<rparr>"]) (use r True in \<open>simp_all add: declareLocal_def Let_def\<close>)
    next
      case False
      show ?thesis
        by (rule that[of "\<lambda>cg. cg\<lparr>nextLocalSlot := nextLocalSlot cg + 1, cgLocals := (cgLocals cg)(n \<mapsto> nextLocalSlot cg),
          localClassTypes := (case classText ty of None \<Rightarrow> localClassTypes cg | Some c \<Rightarrow> (localClassTypes cg)(n \<mapsto> c)),
          localScopeStack := (case localScopeStack cg of [] \<Rightarrow> [] | sc # scs \<Rightarrow> (sc @ [n]) # scs)\<rparr>"])
          (use r False in \<open>simp_all add: declareLocal_def Let_def split: if_splits\<close>)
    qed
    from k[OF F(1)] a F(2) show "cgInv V cg' \<and> ext V H' cg0 cg' \<and> bigger cg cg'" unfolding emits_def by blast
  qed
qed

lemma emits_temp [emits_rules]: "(\<And>s. emits V H T (A s) H') \<Longrightarrow> emits V H T (tempLocal p A) H'"
  unfolding tempLocal_def by (rule emits_update) (auto intro: emits_declare)

lemma good_scope [simp, intro]: "good V openScope" "good V closeScope"
  by (rule emits_silent, auto simp: openScope_def closeScope_def split: list.splits)+

lemma good_scoped [simp, intro]: "good V a \<Longrightarrow> good V (scoped a)"
  by (simp add: scoped_def)

text \<open>
  A loop body in a context of its own; afterwards the placeholders of its \<^verbatim>\<open>break\<close> and \<^verbatim>\<open>continue\<close> statements are holes.
\<close>

lemma pend_Cons [simp]: "pend (c # cs) = jumpsOf c \<union> pend cs"
  by (simp add: pend_def)

lemma ext_push:
  assumes "ext V H cg0 cg" "jumpsOf c = {}"
  shows "ext V H (cg0\<lparr>loopStack := c # loopStack cg0\<rparr>) (cg\<lparr>loopStack := c # loopStack cg\<rparr>)"
  using assms by (auto simp: ext_def bigger_def loopGrows_def okIn_def)

lemma cgThen_done [simp]: "cgThen a cgDone = a"
  by (auto simp: fun_eq_iff cgThen_def cgDone_def split: sum.splits)

lemma cgThen_assoc: "cgThen (cgThen a b) c = cgThen a (cgThen b c)"
  by (auto simp: fun_eq_iff cgThen_def split: sum.splits)

lemma holds_loops [simp]: "holds V (cg\<lparr>loopStack := ls\<rparr>) f = holds V cg f"
  by (cases f) simp_all

lemma ext_pop:
  assumes i: "cgInv V cg2" and e0: "ext V H cg0 cg" and e: "ext V H1 (cg0\<lparr>loopStack := c # loopStack cg0\<rparr>) cg2"
    and b: "bigger (cg\<lparr>loopStack := c # loopStack cg\<rparr>) cg2" and c: "jumpsOf c = {}"
    and l: "loopStack cg2 = c2 # cs" and cg3: "cg3 = cg2\<lparr>loopStack := cs\<rparr>"
  shows "cgInv V cg3" "ext V (H1 \<union> jumpsOf c2) cg0 cg3" "bigger cg cg3" "jumpsOf c2 \<inter> H = {}"
proof -
  have lo: "\<And>i. i \<in> jumpsOf c2 \<Longrightarrow> length (outCode cg) \<le> i" using b c l by (auto simp: bigger_def loopGrows_def)
  show "cgInv V cg3" using i l by (simp add: cgInv_def cg3)
  show b3: "bigger cg cg3" using b l by (simp add: bigger_def cg3)
  have h: "\<And>i. i \<in> H \<Longrightarrow> i < length (outCode cg)" using e0 by (auto simp: ext_def)
  show "jumpsOf c2 \<inter> H = {}" using lo h by fastforce
  have le: "length (outCode cg0) \<le> length (outCode cg)" "bigger cg0 cg" using e0 by (simp_all add: ext_def bigger_def)
  have j2: "length (outCode cg0) \<le> i \<and> i < length (outCode cg3) \<and> isJump (outCode cg3 ! i)" if "i \<in> jumpsOf c2" for i
    using that lo[OF that] le i l by (auto simp: cgInv_def cg3)
  have "okIn V cg3 y = okIn V cg2 y" for y by (simp add: okIn_def cg3)
  then show "ext V (H1 \<union> jumpsOf c2) cg0 cg3"
    using e l j2 bigger_trans[OF le(2) b3] unfolding ext_def by (auto simp: cg3)
qed

lemma emits_loop:
  assumes body: "emits V H T body H1" and H1: "H1 \<subseteq> H"
    and cont: "\<And>ctx. jumpsOf ctx \<inter> H1 = {} \<Longrightarrow> jumpsOf ctx \<inter> H = {} \<Longrightarrow> okLoop ctx \<Longrightarrow> isSwitch ctx = sw \<Longrightarrow>
      emits V (H1 \<union> jumpsOf ctx) T (k ctx) H'"
  shows "emits V H T (cgThen (pushLoop sw) (cgThen body (popLoop k))) H'"
  unfolding emits_def
proof (intro allI impI)
  fix cg0 cg cg'
  assume i: "cgInv V cg" and e: "ext V H cg0 cg" and t: "\<forall>f\<in>T. holds V cg f"
    and r: "cgThen (pushLoop sw) (cgThen body (popLoop k)) cg = Inr cg'"
  define c where "c = \<lparr>breakJumps = [], continueJumps = [], isSwitch = sw\<rparr>"
  define p where "p = cg\<lparr>loopStack := c # loopStack cg\<rparr>"
  have cj: "jumpsOf c = {}" "okLoop c" "isSwitch c = sw" by (simp_all add: c_def jumpsOf_def okLoop_def)
  obtain cg2 where b: "body p = Inr cg2" "popLoop k cg2 = Inr cg'"
    using r by (auto simp: cgThen_def pushLoop_def c_def p_def split: sum.splits)
  have "cgInv V p" "\<forall>f\<in>T. holds V p f" using i t cj by (simp_all add: cgInv_def p_def)
  then have 2: "cgInv V cg2" "ext V H1 (cg0\<lparr>loopStack := c # loopStack cg0\<rparr>) cg2" "bigger p cg2"
    using body ext_push[OF e cj(1)] b(1) unfolding emits_def p_def by blast+
  obtain c2 cs where l: "loopStack cg2 = c2 # cs" using 2(3) by (auto simp: bigger_def p_def list_all2_Cons1)
  have 3: "cgInv V (cg2\<lparr>loopStack := cs\<rparr>)" "ext V (H1 \<union> jumpsOf c2) cg0 (cg2\<lparr>loopStack := cs\<rparr>)"
    "bigger cg (cg2\<lparr>loopStack := cs\<rparr>)" "jumpsOf c2 \<inter> H = {}"
    using ext_pop[OF 2(1) e 2(2) _ cj(1) l refl] 2(3) by (simp_all add: p_def)
  have "okLoop c2" "isSwitch c2 = sw" using 2 l cj by (auto simp: cgInv_def bigger_def p_def loopGrows_def)
  moreover have "\<forall>f\<in>T. holds V (cg2\<lparr>loopStack := cs\<rparr>) f" using t 3(3) holds_bigger by blast
  moreover have "k c2 (cg2\<lparr>loopStack := cs\<rparr>) = Inr cg'" using b(2) l by (simp add: popLoop_def)
  ultimately have "cgInv V cg' \<and> ext V H' cg0 cg' \<and> bigger (cg2\<lparr>loopStack := cs\<rparr>) cg'"
    using cont[of c2] 3 H1 unfolding emits_def by blast
  with 3(3) show "cgInv V cg' \<and> ext V H' cg0 cg' \<and> bigger cg cg'" using bigger_trans by blast
qed

text \<open>A placeholder that goes into a loop context.\<close>

lemma ext_defer:
  assumes i: "cgInv V cg" and e: "ext V H cg0 cg" and j: "j = length (outCode cg)"
    and cg1: "cg1 = cg\<lparr>outCode := outCode cg @ [instr Jump (-1) 0], loopStack := ls\<rparr>"
    and p: "pend ls = insert j (pend (loopStack cg))" and ok: "\<forall>c\<in>set ls. okLoop c"
    and g: "list_all2 (loopGrows j) (loopStack cg) ls"
  shows "cgInv V cg1 \<and> ext V H cg0 cg1 \<and> bigger cg cg1"
proof -
  define ca where "ca = cg\<lparr>outCode := outCode cg @ [instr Jump (-1) 0]\<rparr>"
  have "cgInv V ca \<and> ext V (insert j H) cg0 ca \<and> bigger cg ca"
    by (rule ext_append[OF i e]) (auto simp: ca_def isJump_def instr_def j)
  then have 1: "cgInv V ca" "ext V (insert j H) cg0 ca" by auto
  have b: "bigger cg cg1" using g by (simp add: bigger_def cg1 j)
  have "bigger cg0 cg1" using e b bigger_trans unfolding ext_def by blast
  moreover have "okIn V cg1 y = okIn V ca y" for y by (simp add: okIn_def cg1 ca_def)
  ultimately have "ext V H cg0 cg1" using 1(2) p unfolding ext_def by (auto simp: cg1 ca_def)
  moreover have "cgInv V cg1" using 1(1) p ok by (auto simp: cgInv_def cg1 ca_def isJump_def instr_def j)
  ultimately show ?thesis using b by blast
qed

lemma good_break [simp, intro]: "good V emitBreakStmt"
  unfolding good_def emits_def
proof (intro allI impI)
  fix H T cg0 cg cg'
  assume i: "cgInv V cg" and e: "ext V H cg0 cg" and r: "emitBreakStmt cg = Inr cg'"
  obtain c cs where l: "loopStack cg = c # cs"
      and cg': "cg' = cg\<lparr>outCode := outCode cg @ [instr Jump (-1) 0], loopStack := c\<lparr>breakJumps := breakJumps c @ [length (outCode cg)]\<rparr> # cs\<rparr>"
    using r by (auto simp: emitBreakStmt_def emitJumpPlaceholder_def split: list.splits)
  have "length (outCode cg) \<notin> pend (loopStack cg)" using i by (auto simp: cgInv_def)
  then show "cgInv V cg' \<and> ext V H cg0 cg' \<and> bigger cg cg'"
    using i by (intro ext_defer[OF i e refl cg']) (auto simp: l jumpsOf_def loopGrows_def okLoop_def cgInv_def)
qed

lemma pend_update:
  "n < length ls \<Longrightarrow> jumpsOf c = insert j (jumpsOf (ls ! n)) \<Longrightarrow> pend (ls[n := c]) = insert j (pend ls)"
proof (induction ls arbitrary: n)
  case (Cons a ls)
  then show ?case by (cases n) auto
qed simp

lemma loops_update:
  "n < length ls \<Longrightarrow> loopGrows lo (ls ! n) c \<Longrightarrow> list_all2 (loopGrows lo) ls (ls[n := c])"
proof (induction ls arbitrary: n)
  case (Cons a ls)
  then show ?case by (cases n) auto
qed simp

lemma good_continue [simp, intro]: "good V emitContinueStmt"
  unfolding good_def emits_def
proof (intro allI impI)
  fix H T cg0 cg cg'
  assume i: "cgInv V cg" and e: "ext V H cg0 cg" and r: "emitContinueStmt cg = Inr cg'"
  define upd where "upd n = (loopStack cg ! n)\<lparr>continueJumps := continueJumps (loopStack cg ! n) @ [length (outCode cg)]\<rparr>" for n
  obtain n where f: "find_idx (\<lambda>c. \<not> isSwitch c) (loopStack cg) = Some n"
      and cg': "cg' = cg\<lparr>outCode := outCode cg @ [instr Jump (-1) 0], loopStack := (loopStack cg)[n := upd n]\<rparr>"
    using r by (auto simp: emitContinueStmt_def emitJumpPlaceholder_def upd_def split: option.splits)
  have n: "n < length (loopStack cg)" "\<not> isSwitch (loopStack cg ! n)" using f by (auto simp: find_idx_Some)
  then have m: "loopStack cg ! n \<in> set (loopStack cg)" by simp
  have fresh: "length (outCode cg) \<notin> jumpsOf (loopStack cg ! n)" using i m by (auto simp: cgInv_def pend_def)
  have u: "jumpsOf (upd n) = insert (length (outCode cg)) (jumpsOf (loopStack cg ! n))" by (auto simp: upd_def jumpsOf_def)
  have "okLoop (upd n)" using i m fresh n(2) by (auto simp: cgInv_def okLoop_def upd_def jumpsOf_def)
  then have ok: "\<forall>c\<in>set ((loopStack cg)[n := upd n]). okLoop c"
    using i set_update_subset_insert[of "loopStack cg" n "upd n"] unfolding cgInv_def by blast
  show "cgInv V cg' \<and> ext V H cg0 cg' \<and> bigger cg cg'"
    by (rule ext_defer[OF i e refl cg' pend_update[OF n(1) u] ok loops_update[OF n(1)]])
      (use u in \<open>auto simp: loopGrows_def upd_def\<close>)
qed

section \<open>Expressions and statements\<close>

lemma good_compound [simp, intro]: "good V (emitCompoundOp b)"
  by (auto simp: emitCompoundOp_def compoundOp_def split: BinOp.splits)

lemma good_binary [simp, intro]: "good V l \<Longrightarrow> good V r \<Longrightarrow> good V (emitBinaryExpr b l r)"
  by (auto simp: emitBinaryExpr_def binaryOp_def split: BinOp.splits)

lemma goodI: "(\<And>H T. emits V H T a H) \<Longrightarrow> good V a"
  by (simp add: good_def)

lemma emits_if: "(b \<Longrightarrow> emits V H T a H') \<Longrightarrow> (\<not> b \<Longrightarrow> emits V H T c H') \<Longrightarrow> emits V H T (if b then a else c) H'"
  by simp

lemma emits_option:
  "(m = None \<Longrightarrow> emits V H T a H') \<Longrightarrow> (\<And>x. m = Some x \<Longrightarrow> emits V H T (f x) H') \<Longrightarrow>
   emits V H T (case m of None \<Rightarrow> a | Some x \<Rightarrow> f x) H'"
  by (simp split: option.split)

lemma emits_keep_then: "emits V H T a H \<Longrightarrow> emits V H T b H' \<Longrightarrow> emits V H T (cgThen a b) H'"
  by (rule emits_then)

lemmas emits_intro = goodI emits_if emits_option emits_placeholder emits_patchHere_then emits_patchAllHere_then emits_patchAll_then
  emits_patchHere emits_patchAllHere emits_internString emits_internFloat emits_resolve emits_here emits_declare emits_temp
  emits_jumpTo emits_var emits_slot emits_qualifier emits_float emits_string emits_keep_then emits_done

lemmas emit_steps = cgSeq.simps cgThen_done cgThen_assoc

lemma good_logical [simp, intro]: "good V l \<Longrightarrow> good V r \<Longrightarrow> good V (emitLogicalExpr b l r)"
  unfolding emitLogicalExpr_def emit_steps by ((simp; fail) | rule emits_intro | (auto; fail))+

lemma good_ternary [simp, intro]: "good V c \<Longrightarrow> good V t \<Longrightarrow> good V e \<Longrightarrow> good V (emitTernaryExpr c t e)"
  unfolding emitTernaryExpr_def emit_steps by ((simp; fail) | rule emits_intro | (auto; fail))+

lemma good_catch [simp, intro]: "good V g \<Longrightarrow> good V (emitCatchExpr g)"
  unfolding emitCatchExpr_def emit_steps by ((simp; fail) | rule emits_intro | (auto; fail))+

lemma good_time [simp, intro]: "good V b \<Longrightarrow> good V (emitTimeExpressionExpr b)"
  unfolding emitTimeExpressionExpr_def emit_steps by simp

lemma good_assign [simp, intro]: "good V v \<Longrightarrow> good V (emitAssignExpr n v c b)"
  unfolding emitAssignExpr_def emit_steps by ((simp; fail) | rule emits_intro | (auto; fail))+

lemma good_if [simp]: "(b \<Longrightarrow> good V a) \<Longrightarrow> (\<not> b \<Longrightarrow> good V c) \<Longrightarrow> good V (if b then a else c)"
  by simp

lemma good_incdec_indexed [simp, intro]:
  "good V idx \<Longrightarrow> good V (cgOpt col) \<Longrightarrow> good V (emitIncDecIndexed d pre idx col)"
  unfolding emitIncDecIndexed_def emit_steps by ((simp; fail) | rule emits_intro | (auto; fail))+

lemma good_incdec_var [simp, intro]: "good V (emitIncDecVar d pre n)"
  unfolding emitIncDecVar_def emit_steps Let_def by ((simp; fail) | rule emits_intro | (auto; fail))+

lemma good_spread [simp, intro]: "good V (emitSpreadExpansions bs)"
proof -
  have "good V (emitSpreadFrom n bs)" for n by (induction bs arbitrary: n) auto
  then show ?thesis by (simp add: emitSpreadExpansions_def)
qed

lemma uses_string_ops [simp]:
  "usesString PushConst" "usesString PushSymbol" "usesString OpCall" "usesString CallEfun" "usesString CallParent"
  "usesString PushClosure" "usesString PushEfunClosure"
  by (simp_all add: usesString_def)

lemma good_call [simp, intro]: "good V (cgSeq args) \<Longrightarrow> good V (emitCallExpr f args sp fe pc q)"
  unfolding emitCallExpr_def emit_steps Let_def by ((simp; fail) | rule emits_intro | (auto; fail))+

lemma good_call_other [simp, intro]:
  "good V t \<Longrightarrow> good V f \<Longrightarrow> good V (cgSeq args) \<Longrightarrow> good V (emitCallOtherExpr t f args sp)"
  unfolding emitCallOtherExpr_def emit_steps by ((simp; fail) | rule emits_intro | (auto; fail))+

lemma emits_sscanf_slots:
  "(\<And>w s. Some w \<in> set ws \<Longrightarrow> good V (w s)) \<Longrightarrow> (\<And>a. a \<in> set writes \<Longrightarrow> good V a) \<Longrightarrow>
   emits V H T (emitSscanfSlots ns ws writes) H"
proof (induction ns ws writes arbitrary: T rule: emitSscanfSlots.induct)
  case (1 n ns w ws writes)
  show ?case
  proof (cases w)
    case None
    have "emits V H T' (emitSscanfSlots ns ws writes) H" for T' by (rule "1.IH"(1)[OF None]) (use "1.prems" in auto)
    with None show ?thesis by (simp, intro emits_resolve emits_keep_then emits_slot) simp_all
  next
    case (Some wr)
    have "emits V H T' (emitSscanfSlots ns ws (writes @ [wr s])) H" for T' s
      by (rule "1.IH"(2)[OF Some]) (use "1.prems" Some in auto)
    with Some show ?thesis by (simp, intro emits_temp emits_keep_then emits_slot) simp_all
  qed
next
  case (2 ws writes)
  then show ?case using good_seq[of writes V] by simp
qed (simp add: emits_fail)

lemma good_sscanf [simp]:
  "good V t \<Longrightarrow> good V f \<Longrightarrow> (\<And>w s. Some w \<in> set ws \<Longrightarrow> good V (w s)) \<Longrightarrow> good V (emitSscanfExpr t f ns ws)"
  unfolding emitSscanfExpr_def emit_steps by (rule goodI, rule emits_good_then, assumption, rule emits_good_then, assumption,
    rule emits_good_then, simp, rule emits_sscanf_slots) auto

lemma good_index_assign_stmt [simp, intro]:
  "good V idx \<Longrightarrow> good V v \<Longrightarrow> good V (cgOpt col) \<Longrightarrow> good V (emitIndexAssignStmt idx v cp b col)"
  unfolding emitIndexAssignStmt_def emit_steps by simp

lemma good_index_assign_expr [simp, intro]:
  "good V idx \<Longrightarrow> good V v \<Longrightarrow> good V (cgOpt col) \<Longrightarrow> good V (emitIndexAssignExpr idx v cp b col)"
  unfolding emitIndexAssignExpr_def emit_steps by ((simp; fail) | rule emits_intro | (auto; fail))+

lemma good_read:
  assumes "\<And>cg. good V (A cg)"
  shows "good V (\<lambda>cg. A cg cg)"
  by (rule goodI, rule emits_dep[where F = "\<lambda>_. {}"]) (use assms in auto)

lemma good_local:
  assumes "\<And>cg cg'. f cg = Inr cg' \<Longrightarrow> \<exists>a. a cg = Inr cg' \<and> good V a"
  shows "good V f"
  unfolding good_def emits_def using assms unfolding good_def emits_def by blast

lemma good_new_class [simp]:
  assumes "\<And>n a. (n, a) \<in> set inits \<Longrightarrow> good V a"
  shows "good V (emitNewClass c inits)"
proof (rule good_local)
  fix cg cg' assume r: "emitNewClass c inits cg = Inr cg'"
  then obtain ms where ms: "classDefs cg c = Some ms" by (auto simp: emitNewClass_def split: option.splits)
  have m: "good V (case map_of inits m of Some a \<Rightarrow> a | None \<Rightarrow> emitI PushInt 0 0)" for m
    using assms map_of_SomeD[of inits m] by (auto split: option.split)
  define A where "A = cgSeq [cgSeq (map (\<lambda>m. case map_of inits m of Some a \<Rightarrow> a | None \<Rightarrow> emitI PushInt 0 0) ms),
    (case find (\<lambda>(f, _). f \<notin> set ms) inits of
       Some (f, _) \<Rightarrow> cgFail (''codegen: class '' @ [CHR 0x22] @ c @ [CHR 0x22] @ '' has no member '' @ [CHR 0x22] @ f @ [CHR 0x22])
     | None \<Rightarrow> cgDone),
    emitI MakeArray 1 (to_int32 (int (length ms)))]"
  have "good V (cgSeq (map (\<lambda>m. case map_of inits m of Some a \<Rightarrow> a | None \<Rightarrow> emitI PushInt 0 0) ms))"
    by (rule good_seq) (use m in auto)
  then have "good V A" unfolding A_def emit_steps by (auto split: option.split)
  moreover have "A cg = Inr cg'" using r unfolding emitNewClass_def ms option.case A_def .
  ultimately show "\<exists>a. a cg = Inr cg' \<and> good V a" by blast
qed

lemma good_mapping [simp]:
  "(\<And>k vs. (k, vs) \<in> set es \<Longrightarrow> good V k \<and> (\<forall>v\<in>set vs. good V v)) \<Longrightarrow> good V (emitMappingLiteral es)"
  unfolding emitMappingLiteral_def Let_def by (fastforce intro!: good_then good_seq)

lemma good_index [simp, intro]:
  "good V idx \<Longrightarrow> (\<And>a. re = Some a \<Longrightarrow> good V a) \<Longrightarrow> good V (cgOpt col) \<Longrightarrow> good V (emitIndexExpr idx re fe ree col)"
  unfolding emitIndexExpr_def emit_steps Let_def by (simp split: option.split)

lemma good_closure [simp, intro]: "good V (cgSeq args) \<Longrightarrow> good V (emitClosureLiteral f args fe)"
  unfolding emitClosureLiteral_def emit_steps by ((simp; fail) | rule emits_intro | (auto; fail))+

lemma good_lambda_param [simp, intro]: "good V (emitLambdaParam i b)"
  using good_read[of V "\<lambda>cg. emitI PushLocal (if b then i else i + int (currentLambdaBoundValueCount cg)) 0"]
  by (simp add: emitLambdaParam_def[abs_def])

lemma good_update:
  assumes "\<And>cg. good V (A cg)"
    "\<And>cg. outCode (F cg) = outCode cg \<and> outStrings (F cg) = outStrings cg \<and> outFloats (F cg) = outFloats cg \<and>
      loopStack (F cg) = loopStack cg \<and> cgObjectVars (F cg) = cgObjectVars cg \<and> outFunctions (F cg) = outFunctions cg"
  shows "good V (\<lambda>cg. A cg (F cg))"
  by (rule goodI, rule emits_update) (use assms in auto)

lemma good_closure_name [simp, intro]: "good V (internString s (\<lambda>i. emitI PushClosure i n))"
  by (rule goodI) (rule emits_intro | simp)+

lemma good_inline_lambda [simp, intro]: "good V (cgSeq bs) \<Longrightarrow> good V (emitInlineLambda body n bs)"
  unfolding emitInlineLambda_def Let_def by (rule good_then, assumption, rule good_update) auto

lemma good_anon_function [simp, intro]: "good V (emitAnonFunction ps va b)"
  unfolding emitAnonFunction_def[abs_def] Let_def by (rule good_update) auto

lemma good_return [simp, intro]: "good V (cgOpt e) \<Longrightarrow> good V (emitReturnStmt e)"
  unfolding emitReturnStmt_def by simp

lemma good_var_decl [simp, intro]: "good V (cgOpt e) \<Longrightarrow> good V (emitVarDeclStmt ty n e)"
  unfolding emitVarDeclStmt_def cgOpt_def by (rule goodI, rule emits_declare) (simp split: option.splits)

lemma good_assign_stmt [simp, intro]: "good V v \<Longrightarrow> good V (emitAssignStmt n v)"
  unfolding emitAssignStmt_def by ((simp; fail) | rule emits_intro | (auto; fail))+

lemma good_if_stmt [simp, intro]: "good V c \<Longrightarrow> good V t \<Longrightarrow> good V (cgOpt e) \<Longrightarrow> good V (emitIfStmt c t e)"
  unfolding emitIfStmt_def emit_steps cgOpt_def by ((simp; fail) | rule emits_intro | (auto; fail))+

lemma emits_withLoop:
  assumes "good V body"
    and "\<And>ctx. set (breakJumps ctx) \<inter> H = {} \<Longrightarrow> set (continueJumps ctx) \<inter> H = {} \<Longrightarrow>
      set (breakJumps ctx) \<inter> set (continueJumps ctx) = {} \<Longrightarrow>
      emits V (H \<union> set (breakJumps ctx) \<union> set (continueJumps ctx)) T (k ctx) H'"
  shows "emits V H T (withLoop body k) H'"
  unfolding withLoop_def emit_steps
proof (rule emits_loop)
  fix ctx assume "jumpsOf ctx \<inter> H = {}" "okLoop ctx"
  then show "emits V (H \<union> jumpsOf ctx) T (k ctx) H'"
    using assms(2)[of ctx] by (auto simp: jumpsOf_def okLoop_def Int_Un_distrib2 Un_assoc)
qed (use assms(1) in auto)

lemma good_while [simp, intro]: "good V c \<Longrightarrow> good V b \<Longrightarrow> good V (emitWhileStmt c b)"
  unfolding emitWhileStmt_def emit_steps by ((simp; fail) | rule emits_intro emits_withLoop | (auto; fail))+

lemma good_do_while [simp, intro]: "good V c \<Longrightarrow> good V b \<Longrightarrow> good V (emitDoWhileStmt c b)"
  unfolding emitDoWhileStmt_def emit_steps by ((simp; fail) | rule emits_intro emits_withLoop | (auto; fail))+

lemma good_for [simp, intro]:
  "good V i \<Longrightarrow> (\<And>a. c = Some a \<Longrightarrow> good V a) \<Longrightarrow> good V u \<Longrightarrow> good V b \<Longrightarrow> good V (emitForStmt i c u b)"
  unfolding emitForStmt_def emit_steps Let_def by ((simp; fail) | rule emits_intro emits_withLoop | (auto; fail))+

lemma emits_foreachVar [emits_rules]:
  assumes "\<And>s. emits V H T (A VkLocal s) H'" "\<And>s. emits V H (insert (ObjSlot s) T) (A VkObjectVar s) H'"
  shows "emits V H T (foreachVar d n c A) H'"
  unfolding foreachVar_def by (auto intro!: emits_declare emits_resolve assms)

lemma emits_plain_then: "plainOp o1 \<Longrightarrow> emits V H T b H' \<Longrightarrow> emits V H T (cgThen (emitI o1 n k) b) H'"
  by (rule emits_good_then[OF good_plain])

lemma emits_foreach_value:
  "kk = VkLocal \<or> ObjSlot ks \<in> T \<Longrightarrow>
   emits V H T (if b then foreachVar d n c (\<lambda>vk vs. cgThen (emitI PushLocal orig 0) (cgThen (emitI (pushVar kk) ks 0)
      (cgThen (emitI OpIndex 0 0) (emitI (storeVar vk) vs 0)))) else cgDone) H"
  by (intro emits_if emits_foreachVar emits_keep_then emits_var) auto

lemma emits_foreach_tail:
  assumes "good V b" "j \<notin> H" "Target tp \<in> T"
  shows "emits V (insert j H) T (withLoop b (\<lambda>ctx. cgThen (patchAllToHere (continueJumps ctx)) (cgThen (emitI PushLocal idx 0)
     (cgThen (emitI PushInt 1 0) (cgThen (emitI OpAdd 0 0) (cgThen (emitI StoreLocal idx 0) (cgThen (jumpTo tp)
     (cgThen (patchJumpToHere j) (patchAllToHere (breakJumps ctx)))))))))) H"
  using assms(2,3)
  by (intro emits_withLoop[OF assms(1)] emits_patchAllHere_then emits_patchHere_then emits_patchAllHere emits_keep_then emits_jumpTo) auto

lemma emits_foreach_step:
  assumes "good V b" "j \<notin> H" "Target tp \<in> T"
  shows "emits V (insert j H) T (foreachVar d n c (\<lambda>kk ks.
     cgThen (emitI PushLocal iter 0) (cgThen (emitI PushLocal idx 0) (cgThen (emitI OpIndex 0 0) (cgThen (emitI (storeVar kk) ks 0)
     (cgThen (if hv then foreachVar d' n' c' (\<lambda>vk vs. cgThen (emitI PushLocal orig 0) (cgThen (emitI (pushVar kk) ks 0)
        (cgThen (emitI OpIndex 0 0) (emitI (storeVar vk) vs 0)))) else cgDone)
     (withLoop b (\<lambda>ctx. cgThen (patchAllToHere (continueJumps ctx)) (cgThen (emitI PushLocal idx 0)
     (cgThen (emitI PushInt 1 0) (cgThen (emitI OpAdd 0 0) (cgThen (emitI StoreLocal idx 0) (cgThen (jumpTo tp)
     (cgThen (patchJumpToHere j) (patchAllToHere (breakJumps ctx)))))))))))))))) H"
  using assms
  apply (intro emits_foreachVar)
   apply (rule emits_plain_then, simp, rule emits_plain_then, simp, rule emits_plain_then, simp)
   apply (rule emits_keep_then, rule emits_var, simp)
   apply (rule emits_keep_then, rule emits_foreach_value, simp)
   apply (simp add: emits_foreach_tail)
  apply (rule emits_plain_then, simp, rule emits_plain_then, simp, rule emits_plain_then, simp)
  apply (rule emits_keep_then, rule emits_var, simp)
  apply (rule emits_keep_then, rule emits_foreach_value, simp)
  apply (simp add: emits_foreach_tail)
  done

lemma good_foreach [simp, intro]:
  assumes "good V coll" "good V b"
  shows "good V (emitForeachStmt fv coll b)"
  unfolding emitForeachStmt_def Let_def emit_steps
  apply (rule good_then[OF good_scope(1)], rule good_update, rule good_then[OF _ good_scope(2)], rule goodI)
   apply (rule emits_declare, rule emits_good_then[OF assms(1)], rule emits_plain_then, simp)
   apply (rule emits_declare, (rule emits_plain_then, simp)+)
   apply (rule emits_declare, (rule emits_plain_then, simp)+)
   apply (rule emits_here, (rule emits_plain_then, simp)+)
   apply (rule emits_keep_then, rule emits_internString, rule emits_string, simp, simp)
   apply (rule emits_plain_then, simp, rule emits_placeholder, simp)
   apply (rule emits_foreach_step[OF assms(2)], assumption, simp)
  apply simp
  done

text \<open>The \<^verbatim>\<open>switch\<close>: the placeholders of the tests are holes until the second pass reaches their labels.\<close>

fun okItem :: "nat \<Rightarrow> switch_item \<Rightarrow> bool" where
  "okItem V SwDefault \<longleftrightarrow> True"
| "okItem V (SwCase v r) \<longleftrightarrow> good V v \<and> (\<forall>a. r = Some a \<longrightarrow> good V a)"
| "okItem V (SwStmt a) \<longleftrightarrow> good V a"

definition jumpSet :: "nat option list \<Rightarrow> nat set" where
  "jumpSet js = {j. Some j \<in> set js}"

fun distinctJumps :: "nat option list \<Rightarrow> bool" where
  "distinctJumps [] \<longleftrightarrow> True"
| "distinctJumps (None # js) \<longleftrightarrow> distinctJumps js"
| "distinctJumps (Some j # js) \<longleftrightarrow> Some j \<notin> set js \<and> distinctJumps js"

lemma jumpSet_simps [simp]:
  "jumpSet [] = {}" "jumpSet (None # js) = jumpSet js" "jumpSet (Some j # js) = insert j (jumpSet js)"
  "jumpSet (js @ ks) = jumpSet js \<union> jumpSet ks"
  by (auto simp: jumpSet_def)

lemma distinctJumps_append [simp]:
  "distinctJumps (js @ ks) \<longleftrightarrow> distinctJumps js \<and> distinctJumps ks \<and> jumpSet js \<inter> jumpSet ks = {}"
  by (induction js rule: distinctJumps.induct) (auto simp: jumpSet_def)

lemma emits_switch_tests:
  assumes "\<forall>it\<in>set its. okItem V it" "H = H0 \<union> jumpSet jumps" "H0 \<inter> jumpSet jumps = {}" "distinctJumps jumps"
    and "\<And>js H. length js = length jumps + length its \<Longrightarrow> H = H0 \<union> jumpSet js \<Longrightarrow> H0 \<inter> jumpSet js = {} \<Longrightarrow> distinctJumps js \<Longrightarrow>
      emits V H T (k js) H'"
  shows "emits V H T (emitSwitchTests subj its jumps k) H'"
  using assms
proof (induction subj its jumps k arbitrary: H rule: emitSwitchTests.induct)
  case (4 subj v "is" jumps k)
  have a: "emits V (insert j H) T (emitSwitchTests subj is (jumps @ [Some j]) k) H'" if "j \<notin> H" for j
    by (rule "4.IH") (use "4.prems" that in \<open>auto simp: jumpSet_def\<close>)
  have g: "good V v" using "4.prems"(1) by simp
  show ?case unfolding emitSwitchTests.simps emit_steps by ((simp add: g; fail) | rule emits_intro a | (auto; fail))+
next
  case (5 subj v r "is" jumps k)
  have a: "emits V (insert j H) T (emitSwitchTests subj is (jumps @ [Some j]) k) H'" if "j \<notin> H" for j
    by (rule "5.IH") (use "5.prems" that in \<open>auto simp: jumpSet_def\<close>)
  have g: "good V v" "good V r" using "5.prems"(1) by simp_all
  have d: "insert low H - {low} = H" if "low \<notin> H" for low using that by simp
  show ?case unfolding emitSwitchTests.simps emit_steps
    by ((simp add: g; fail) | rule emits_intro a | (simp add: d; rule emits_intro a) | (auto; fail))+
qed (auto simp: jumpSet_def)

definition defaultHole :: "nat \<Rightarrow> nat option \<Rightarrow> nat \<Rightarrow> nat set" where
  "defaultHole i dflt n = (if \<exists>d. dflt = Some d \<and> i \<le> d then {n} else {})"

lemma defaultHole_empty [simp]: "(\<And>d. dflt = Some d \<Longrightarrow> d < i) \<Longrightarrow> defaultHole i dflt n = {}"
  unfolding defaultHole_def using leD by (metis (full_types))

lemma emits_patchMaybe:
  "jumpSet [j] \<subseteq> H \<Longrightarrow> emits V H T (case j of Some p \<Rightarrow> patchJumpToHere p | None \<Rightarrow> cgDone) (H - jumpSet [j])"
  by (cases j) (auto simp: emits_done emits_patchHere)

lemma emits_switch_body:
  assumes "length its = length js" "\<forall>it\<in>set its. okItem V it" "distinctJumps js" "H0 \<inter> jumpSet js = {}" "n \<notin> jumpSet js"
    and "\<And>d. dflt = Some d \<Longrightarrow> d < i + length its \<and> n \<notin> H0"
  shows "emits V (H0 \<union> jumpSet js \<union> defaultHole i dflt n) T (emitSwitchBody i dflt n its js) H0"
  using assms
proof (induction i dflt n its js rule: emitSwitchBody.induct)
  case (1 i dflt n it its j js)
  let ?H = "H0 \<union> jumpSet (j # js) \<union> defaultHole i dflt n" and ?H1 = "H0 \<union> jumpSet js \<union> defaultHole i dflt n"
    and ?H2 = "H0 \<union> jumpSet js \<union> defaultHole (Suc i) dflt n"
  have j: "jumpSet [j] \<inter> (H0 \<union> jumpSet js) = {}" "jumpSet (j # js) = jumpSet [j] \<union> jumpSet js" "n \<notin> jumpSet [j]"
    using "1.prems" by (cases j; auto simp: jumpSet_def)+
  have "?H - jumpSet [j] = ?H1" using j by (auto simp: defaultHole_def)
  then have a: "emits V ?H T (case j of Some p \<Rightarrow> patchJumpToHere p | None \<Rightarrow> cgDone) ?H1"
    using emits_patchMaybe[of j ?H V T] j(2) by auto
  have s: "good V (case it of SwStmt a \<Rightarrow> a | _ \<Rightarrow> cgDone)" using "1.prems"(2) by (auto split: switch_item.split)
  have b: "emits V ?H1 T (if dflt = Some i then patchJumpToHere n else (case it of SwStmt a \<Rightarrow> a | _ \<Rightarrow> cgDone)) ?H2"
  proof (cases "dflt = Some i")
    case True
    then show ?thesis using "1.prems"(5,6) by (intro emits_if emits_patchHere) (auto simp: defaultHole_def jumpSet_def)
  next
    case False
    then have "?H2 = ?H1" by (auto simp: defaultHole_def Suc_le_eq le_less)
    then show ?thesis using False goodD[OF s] by simp
  qed
  have c: "emits V ?H2 T (emitSwitchBody (Suc i) dflt n its js) H0"
  proof (rule "1.IH")
    show "distinctJumps js" "H0 \<inter> jumpSet js = {}" "n \<notin> jumpSet js" using "1.prems" by (cases j; auto simp: jumpSet_def)+
  qed (use "1.prems" in auto)
  from emits_then[OF a emits_then[OF b c]] show ?case by simp
qed (auto simp: emits_done defaultHole_empty)

lemma lastDefault_less: "lastDefault its = Some d \<Longrightarrow> d < length its"
  by (auto simp: lastDefault_def find_Some_iff rev_nth)

lemma good_switch [simp]:
  assumes "good V s" "\<forall>it\<in>set its. okItem V it"
  shows "good V (emitSwitchStmt s its)"
  unfolding emitSwitchStmt_def[abs_def]
proof (rule good_update, rule goodI, rule emits_declare)
  fix cg :: codegen and H T subj
  have loop: "emits V (insert n (H \<union> jumpSet js)) T (cgSeq [pushLoop True, emitSwitchBody 0 (lastDefault its) n its js,
      (if lastDefault its = None then patchJumpToHere n else cgDone), popLoop (\<lambda>ctx. patchAllToHere (breakJumps ctx))]) H"
    if js: "length js = length its" "H \<inter> jumpSet js = {}" "distinctJumps js" and n: "n \<notin> H \<union> jumpSet js" for js n
  proof -
    let ?rest = "if lastDefault its = None then {n} else {}"
    have "emits V (H \<union> ?rest \<union> jumpSet js \<union> defaultHole 0 (lastDefault its) n) T (emitSwitchBody 0 (lastDefault its) n its js) (H \<union> ?rest)"
      by (rule emits_switch_body) (use js n assms(2) lastDefault_less in \<open>auto split: if_splits\<close>)
    moreover have "H \<union> ?rest \<union> jumpSet js \<union> defaultHole 0 (lastDefault its) n = insert n (H \<union> jumpSet js)"
      by (auto simp: defaultHole_def)
    moreover have "emits V (H \<union> ?rest) T (if lastDefault its = None then patchJumpToHere n else cgDone) H"
      using n by (intro emits_if emits_patchHere emits_done) auto
    ultimately have b: "emits V (insert n (H \<union> jumpSet js)) T (cgThen (emitSwitchBody 0 (lastDefault its) n its js)
        (if lastDefault its = None then patchJumpToHere n else cgDone)) H"
      using emits_then by simp
    have "emits V (insert n (H \<union> jumpSet js)) T (cgThen (pushLoop True) (cgThen (cgThen (emitSwitchBody 0 (lastDefault its) n its js)
        (if lastDefault its = None then patchJumpToHere n else cgDone)) (popLoop (\<lambda>ctx. patchAllToHere (breakJumps ctx))))) H"
    proof (rule emits_loop[OF b])
      fix ctx assume c: "jumpsOf ctx \<inter> H = {}" "okLoop ctx" "isSwitch ctx = True"
      then show "emits V (H \<union> jumpsOf ctx) T (patchAllToHere (breakJumps ctx)) H"
        by (intro emits_patchAllHere) (auto simp: okLoop_def jumpsOf_def)
    qed auto
    then show ?thesis by (simp add: cgThen_assoc)
  qed
  have tests: "emits V H T (emitSwitchTests subj its [] (\<lambda>jumps. emitJumpPlaceholder Jump (\<lambda>noMatch.
             cgSeq [pushLoop True, emitSwitchBody 0 (lastDefault its) noMatch its jumps,
               (if lastDefault its = None then patchJumpToHere noMatch else cgDone),
               popLoop (\<lambda>ctx. patchAllToHere (breakJumps ctx))]))) H"
  proof (rule emits_switch_tests[OF assms(2), of H H])
    fix js Ha assume "length js = length [] + length its" "Ha = H \<union> jumpSet js" "H \<inter> jumpSet js = {}" "distinctJumps js"
    then show "emits V Ha T (emitJumpPlaceholder Jump (\<lambda>noMatch.
             cgSeq [pushLoop True, emitSwitchBody 0 (lastDefault its) noMatch its js,
               (if lastDefault its = None then patchJumpToHere noMatch else cgDone),
               popLoop (\<lambda>ctx. patchAllToHere (breakJumps ctx))])) H"
      using loop[of js] by (intro emits_placeholder) auto
  qed (simp_all add: jumpSet_def)
  show "emits V H T (cgSeq [s, emitI StoreLocal subj 0, emitSwitchTests subj its [] (\<lambda>jumps. emitJumpPlaceholder Jump (\<lambda>noMatch.
             cgSeq [pushLoop True, emitSwitchBody 0 (lastDefault its) noMatch its jumps,
               (if lastDefault its = None then patchJumpToHere noMatch else cgDone),
               popLoop (\<lambda>ctx. patchAllToHere (breakJumps ctx))]))]) H"
    unfolding cgSeq.simps(2)[of s] cgSeq.simps(2)[of "emitI StoreLocal subj 0"] cgSeq.simps(2)[of "emitSwitchTests _ _ _ _"] cgSeq.simps(1) cgThen_done
    by (rule emits_good_then[OF assms(1)], rule emits_plain_then[OF _ tests]) simp
qed simp

section \<open>The whole tree\<close>

definition goodNode :: "nat \<Rightarrow> node_code \<Rightarrow> bool" where
  "goodNode V n \<longleftrightarrow> good V (nExpr n) \<and> good V (nStmt n) \<and> good V (nInit n) \<and> good V (nUpdate n) \<and> okItem V (nSwitch n) \<and>
     (\<forall>s. good V (nWrite n s))"

lemma goodNodeD [simp]:
  assumes "goodNode V n"
  shows "good V (nExpr n)" "good V (nStmt n)" "good V (nInit n)" "good V (nUpdate n)" "okItem V (nSwitch n)" "good V (nWrite n s)"
  using assms by (simp_all add: goodNode_def)

lemma good_discard [simp, intro]: "good V a \<Longrightarrow> good V (discard a)"
  by (simp add: discard_def)

lemma good_unsupported [simp]: "good V unsupportedExpr" "good V unsupportedStmt"
  by (simp_all add: unsupportedExpr_def unsupportedStmt_def)

lemma goodNode_expr [simp]: "good V e \<Longrightarrow> goodNode V (exprNode e)"
  by (simp add: goodNode_def exprNode_def)

lemma goodNode_stmt [simp]: "good V e \<Longrightarrow> goodNode V (stmtNode e)"
  by (simp add: goodNode_def stmtNode_def)

lemma good_index_value [simp, intro]: "good V ic \<Longrightarrow> good V (emitIndexValue t i ic)"
  unfolding emitIndexValue_def[abs_def]
proof (cases i)
  fix m assume ic: "good V ic" and i: "i = MemberNameMarker m"
  show "good V (\<lambda>cg. case i of
        MemberNameMarker m \<Rightarrow>
          if staticClassTypeOf cg t = []
          then Inl (CgErr (''codegen: cannot resolve '' @ [CHR 0x22] @ ''->'' @ m @ [CHR 0x22] @ '': the target'' @ [CHR 0x27] @
                 ''s static class type is not known here (only a variable declared with a real '' @ [CHR 0x22] @
                 ''class <Name>'' @ [CHR 0x22] @ '' type resolves)''))
          else (case resolveClassMemberIndex (staticClassTypeOf cg t) m cg of
                  Inl e \<Rightarrow> Inl e
                | Inr i \<Rightarrow> emitI PushInt i 0 cg)
      | _ \<Rightarrow> ic cg)" (is "good V ?f")
  proof (rule good_local)
    fix cg cg' assume "?f cg = Inr cg'"
    then obtain n where "emitI PushInt n 0 cg = Inr cg'" by (auto simp: i split: sum.splits if_splits)
    then show "\<exists>a. a cg = Inr cg' \<and> good V a" using good_plain[of PushInt] by auto
  qed
qed simp_all

lemma good_index_pair [simp, intro]: "good V tc \<Longrightarrow> good V ic \<Longrightarrow> good V (indexPair t i tc ic)"
  by (simp add: indexPair_def)

lemma good_unary [simp, intro]: "good V e \<Longrightarrow> good V (emitUnary u e)"
  by (simp add: emitUnary_def split: UnaryOp.split)

lemma good_map_seq [simp]: "(\<And>x. x \<in> set xs \<Longrightarrow> good V (f x)) \<Longrightarrow> good V (cgSeq (map f xs))"
  by (rule good_seq) auto

lemma good_map_opt [simp]: "(\<And>x. m = Some x \<Longrightarrow> good V (f x)) \<Longrightarrow> good V (cgOpt (map_option f m))"
  by (cases m) auto

lemma goodNode_updates [simp]:
  "goodNode V n \<Longrightarrow> good V a \<Longrightarrow> goodNode V (n\<lparr>nInit := a\<rparr>)"
  "goodNode V n \<Longrightarrow> good V a \<Longrightarrow> goodNode V (n\<lparr>nUpdate := a\<rparr>)"
  "goodNode V n \<Longrightarrow> okItem V it \<Longrightarrow> goodNode V (n\<lparr>nSwitch := it\<rparr>)"
  "goodNode V n \<Longrightarrow> (\<And>s. good V (w s)) \<Longrightarrow> goodNode V (n\<lparr>nWrite := w\<rparr>)"
  by (simp_all add: goodNode_def del: goodNodeD)

lemma good_writes:
  assumes "\<And>a. Some a \<in> set ts \<Longrightarrow> goodNode V (emitNode a)" "Some w \<in> set (map (map_option (\<lambda>a. nWrite (emitNode a))) ts)"
  shows "good V (w s)"
proof -
  obtain m where m: "m \<in> set ts" "map_option (\<lambda>a. nWrite (emitNode a)) m = Some w" using assms(2) by (metis (no_types, lifting) image_iff list.set_map)
  then obtain a where "m = Some a" "w = nWrite (emitNode a)" by auto
  with m assms(1) show ?thesis by simp
qed

lemma good_leaves [simp]:
  "good V (internString s (\<lambda>i. emitI PushConst i 0))" "good V (internString s (\<lambda>i. emitI PushSymbol i 0))"
  "good V (internFloat d (\<lambda>i. emitI PushFloat i 0))" "good V (resolveVariable n (\<lambda>k v. emitI (pushVar k) v 0))"
  by (rule goodI, rule emits_internString, rule emits_string, simp, simp)
    (rule goodI, rule emits_internString, rule emits_string, simp, simp, rule goodI, rule emits_internFloat, rule emits_float, simp,
      rule goodI, intro emits_resolve emits_var, simp_all)

lemma goodNode_emit:
  fixes a :: ast and b :: block
  shows "goodNode V (emitNode a)" and "good V (emitBlk b)"
proof (induction a and b)
  case (SscanfExpr t f names targets)
  have w: "good V (w s)" if "Some w \<in> set (map (map_option (\<lambda>a. nWrite (emitNode a))) targets)" for w s
    by (rule good_writes[OF _ that]) (use SscanfExpr in auto)
  have "good V (emitSscanfExpr (nExpr (emitNode t)) (nExpr (emitNode f)) names (map (map_option (\<lambda>a. nWrite (emitNode a))) targets))"
    by (rule good_sscanf) (use SscanfExpr w in simp_all)
  then show ?case by simp
next
  case (VarDeclStmt ty isArr n e)
  then have "good V (emitVarDeclStmt ty n (map_option (\<lambda>a. nExpr (emitNode a)) e))" by (intro good_var_decl good_map_opt) auto
  then show ?case by simp
next
  case (IncDecExpr d pre n t k c)
  then have "good V (cgOpt (map_option (\<lambda>a. nExpr (emitNode a)) c))" by (intro good_map_opt) auto
  with IncDecExpr show ?case by (cases t; cases k) simp_all
next
  case (MappingLiteralExpr es)
  have "good V (emitMappingLiteral (map (map_prod (\<lambda>a. nExpr (emitNode a)) (map (\<lambda>a. nExpr (emitNode a)))) es))"
    by (rule good_mapping) (use MappingLiteralExpr in fastforce)
  then show ?case by simp
next
  case (NewClassExpr c inits)
  have "good V (emitNewClass c (map (map_prod id (\<lambda>a. nExpr (emitNode a))) inits))"
    by (rule good_new_class) (use NewClassExpr in fastforce)
  then show ?case by simp
next
  case (IndexExpr t i re fe ree c)
  then have "good V (emitIndexExpr (indexPair t i (nExpr (emitNode t)) (nExpr (emitNode i))) (map_option (\<lambda>a. nExpr (emitNode a)) re) fe ree
        (map_option (\<lambda>a. nExpr (emitNode a)) c))"
    by (intro good_index) auto
  with IndexExpr show ?case by simp
next
  case (BlockNode b)
  then show ?case by simp
next
  case (ForStmt i c u b)
  then have "good V (emitForStmt (cgOpt (map_option (\<lambda>a. nInit (emitNode a)) i)) (map_option (\<lambda>a. nExpr (emitNode a)) c)
       (cgOpt (map_option (\<lambda>a. nUpdate (emitNode a)) u)) (scoped (emitBlk b)))"
    by (intro good_for) auto
  then show ?case by simp
next
  case (CaseLabel v r)
  then show ?case by (cases v; cases r) auto
next
  case (SwitchStmt s body)
  then have "good V (emitSwitchStmt (nExpr (emitNode s)) (map (\<lambda>a. nSwitch (emitNode a)) body))"
    by (intro good_switch) auto
  then show ?case by simp
qed simp_all

section \<open>Programs\<close>

lemma good_emitExpr [simp]: "good V (emitExpr a)" and good_emitStatement [simp]: "good V (emitStatement a)"
  and good_emitBlock [simp]: "good V (emitBlock b)"
  by (simp_all add: emitExpr_def emitStatement_def emitBlock_def goodNode_emit)

text \<open>Between two functions: no open loop, every instruction is well formed and no target is the end of the code.\<close>

definition topInv :: "nat \<Rightarrow> codegen \<Rightarrow> bool" where
  "topInv V cg \<longleftrightarrow>
     (\<forall>x\<in>set (outCode cg). okInstr (length (outCode cg) - 1) (length (outStrings cg)) (length (outFloats cg)) V x) \<and>
     (\<forall>n s. cgObjectVars cg n = Some s \<longrightarrow> 0 \<le> s \<and> s < int V) \<and>
     (\<forall>f\<in>set (outFunctions cg). \<exists>st<length (outCode cg). entryPoint f = st mod 2 ^ 32)"

lemma ext_refl: "ext V {} cg cg"
  by (simp add: ext_def)

lemma good_from_empty:
  assumes "good V a" "loopStack cg = []" "topInv V cg" "a cg = Inr cg'"
  shows "ext V {} cg cg'" "loopStack cg' = []" "bigger cg cg'"
proof -
  have "cgInv V cg" using assms(2,3) by (simp add: cgInv_def topInv_def pend_def)
  then have "cgInv V cg' \<and> ext V {} cg cg' \<and> bigger cg cg'"
    using assms(1,4) ext_refl unfolding good_def emits_def by blast
  then show "ext V {} cg cg'" "bigger cg cg'" "loopStack cg' = []" using assms(2) by (auto simp: bigger_def)
qed

lemma topInv_function:
  assumes g: "good V body" and l: "loopStack cg = []" and t: "topInv V cg" and r: "emitFunction name args va body cg = Inr cg'"
  shows "topInv V cg'"
proof -
  obtain cg1 where b: "body cg = Inr cg1"
    and cg': "cg' = cg1\<lparr>outCode := outCode cg1 @ [instr OpReturn 0 0],
        outFunctions := outFunctions cg1 @ [functionEntry name (length (outCode cg)) args (nextLocalSlot cg1) va]\<rparr>"
    using r by (auto simp: emitFunction_def cgThen_def emitI_def split: sum.splits)
  note e = good_from_empty[OF g l t b]
  let ?L = "length (outCode cg1)" and ?S = "length (outStrings cg1)" and ?F = "length (outFloats cg1)"
  have le: "length (outCode cg) \<le> ?L" "length (outStrings cg) \<le> ?S" "length (outFloats cg) \<le> ?F" "outFunctions cg1 = outFunctions cg"
      "cgObjectVars cg1 = cgObjectVars cg" using e(3) by (simp_all add: bigger_def)
  have old: "okInstr ?L ?S ?F V x" if "x \<in> set (outCode cg)" for x
    using t that le by (auto simp: topInv_def intro: okInstr_mono)
  have "okInstr ?L ?S ?F V (outCode cg1 ! i)" if "i < ?L" for i
  proof (cases "i < length (outCode cg)")
    case True
    have "take (length (outCode cg)) (outCode cg1) = outCode cg" using e(1) by (simp add: ext_def)
    then have "outCode cg1 ! i = outCode cg ! i" using True by (metis nth_take)
    with True old show ?thesis by simp
  next
    case False
    then show ?thesis using e(1,2) that by (auto simp: ext_def okIn_def pend_def)
  qed
  then have "\<forall>x\<in>set (outCode cg1). okInstr ?L ?S ?F V x" by (auto simp: in_set_conv_nth)
  moreover have "okInstr ?L ?S ?F V (instr OpReturn 0 0)" by (simp add: okInstr_def instr_def isJump_def usesString_def)
  moreover have "\<exists>st<Suc ?L. entryPoint f = st mod 2 ^ 32" if f: "f \<in> set (outFunctions cg')" for f
  proof (cases "f \<in> set (outFunctions cg)")
    case True
    with t obtain st where "st < length (outCode cg)" "entryPoint f = st mod 2 ^ 32" by (auto simp: topInv_def)
    then show ?thesis using le(1) by (intro exI[of _ st]) auto
  next
    case False
    then have "entryPoint f = length (outCode cg) mod 2 ^ 32" using f le(4) by (auto simp: cg' functionEntry_def)
    then show ?thesis using le(1) by (intro exI[of _ "length (outCode cg)"]) auto
  qed
  ultimately show ?thesis using t le(5) by (simp add: topInv_def cg')
qed

lemma topInv_cong:
  "outCode cg' = outCode cg \<Longrightarrow> outStrings cg' = outStrings cg \<Longrightarrow> outFloats cg' = outFloats cg \<Longrightarrow> cgObjectVars cg' = cgObjectVars cg \<Longrightarrow>
   outFunctions cg' = outFunctions cg \<Longrightarrow> topInv V cg' = topInv V cg"
  by (simp add: topInv_def)

lemma good_lambda_body: "(\<And>a. a \<in> set es \<Longrightarrow> good V a) \<Longrightarrow> good V (lambdaBody es)"
  by (induction es rule: lambdaBody.induct) auto

lemma topInv_lambda:
  assumes t: "topInv V cg" and r: "emitLambda l cg = Inr cg'"
  shows "topInv V cg'"
proof -
  obtain name body params bounds where l: "l = (name, body, params, bounds)" by (cases l) auto
  let ?cg = "(resetFunction cg)\<lparr>currentLambdaBoundValueCount := bounds, nextLocalSlot := int bounds + params\<rparr>"
  have "topInv V ?cg" "loopStack ?cg = []" using t by (simp_all add: resetFunction_def topInv_def)
  moreover have "good V (lambdaBody (map emitExpr body))" by (rule good_lambda_body) auto
  ultimately show ?thesis using r topInv_function[of V "lambdaBody (map emitExpr body)" ?cg name params False cg']
    by (simp add: emitLambda_def l)
qed

lemma declareLocal_silent:
  "declareLocal n ty (\<lambda>_. cgDone) cg = Inr cg' \<Longrightarrow>
   outCode cg' = outCode cg \<and> outStrings cg' = outStrings cg \<and> outFloats cg' = outFloats cg \<and> cgObjectVars cg' = cgObjectVars cg \<and>
   outFunctions cg' = outFunctions cg \<and> loopStack cg' = loopStack cg"
  by (auto simp: declareLocal_def cgDone_def Let_def split: if_splits)

lemma declareParams_silent:
  "declareParams ps cg = Inr cg' \<Longrightarrow>
   outCode cg' = outCode cg \<and> outStrings cg' = outStrings cg \<and> outFloats cg' = outFloats cg \<and> cgObjectVars cg' = cgObjectVars cg \<and>
   outFunctions cg' = outFunctions cg \<and> loopStack cg' = loopStack cg"
proof (induction ps arbitrary: cg)
  case Nil
  then show ?case by (simp add: declareParams_def cgDone_def)
next
  case (Cons p ps)
  then obtain cg1 where 1: "declareLocal (paName p) (paType p) (\<lambda>_. cgDone) cg = Inr cg1" "declareParams ps cg1 = Inr cg'"
    by (auto simp: declareParams_def cgThen_def split: sum.splits)
  show ?case using declareLocal_silent[OF 1(1)] Cons.IH[OF 1(2)] by simp
qed

lemma topInv_declared_function:
  assumes t: "topInv V cg" and r: "cgThen (declareParams ps) (emitFunction name n va (emitBlock b)) (resetFunction cg) = Inr cg'"
  shows "topInv V cg'"
proof -
  obtain cg1 where 1: "declareParams ps (resetFunction cg) = Inr cg1" "emitFunction name n va (emitBlock b) cg1 = Inr cg'"
    using r by (auto simp: cgThen_def split: sum.splits)
  have "topInv V cg1" "loopStack cg1 = []"
    using t declareParams_silent[OF 1(1)] by (simp_all add: resetFunction_def topInv_def)
  then show ?thesis using topInv_function[OF good_emitBlock _ _ 1(2)] by blast
qed

lemma topInv_anon: "topInv V cg \<Longrightarrow> emitAnon a cg = Inr cg' \<Longrightarrow> topInv V cg'"
  by (auto simp: emitAnon_def split: prod.splits intro: topInv_declared_function)

definition topOk :: "nat \<Rightarrow> (cg_error + codegen) option \<Rightarrow> bool" where
  "topOk V r \<longleftrightarrow> (\<forall>cg. r = Some (Inr cg) \<longrightarrow> topInv V cg)"

lemma topOk_simps [simp]: "topOk V None" "topOk V (Some (Inl e))" "topOk V (Some (Inr cg)) = topInv V cg"
  by (simp_all add: topOk_def)

lemma topOk_next: "topOk V a \<Longrightarrow> (\<And>cg. topInv V cg \<Longrightarrow> topOk V (k cg)) \<Longrightarrow> topOk V (cgNext a k)"
  by (auto simp: cgNext_def topOk_def split: option.splits sum.splits)

lemma topOk_lambdaLoop: "topInv V cg \<Longrightarrow> topOk V (lambdaLoop n i cg)"
proof (induction n arbitrary: i cg)
  case (Suc n)
  show ?case
  proof (cases "length (pendingLambdas cg) \<le> i")
    case True
    then show ?thesis using Suc.prems by (simp add: topInv_def)
  next
    case False
    then show ?thesis using Suc topInv_lambda by (auto split: sum.split)
  qed
qed simp

lemma topOk_anonLoop: "topInv V cg \<Longrightarrow> topOk V (anonLoop n i cg)"
proof (induction n arbitrary: i cg)
  case (Suc n)
  show ?case
  proof (cases "length (pendingAnonFuncs cg) \<le> i")
    case True
    then show ?thesis using Suc.prems by (simp add: topInv_def)
  next
    case False
    then show ?thesis using Suc topInv_anon by (auto split: sum.split)
  qed
qed simp

lemma topOk_drain: "topInv V cg \<Longrightarrow> topOk V (drain n cg)"
  by (induction n arbitrary: cg)
    (auto simp: emitPendingLambdas_def emitPendingAnonFuncs_def simp del: lambdaLoop.simps anonLoop.simps
      intro!: topOk_next topOk_lambdaLoop topOk_anonLoop)

lemma topOk_decls: "topInv V cg \<Longrightarrow> topOk V (emitFunctionDecls n fs cg)"
proof (induction fs arbitrary: cg)
  case (Cons f fs)
  have "topOk V (emitFunctionDecl n f cg)"
    using Cons.prems
    by (auto simp: emitFunctionDecl_def topOk_def[of V "Some _"] split: option.split intro!: topOk_next topOk_drain
        intro: topInv_declared_function)
  then show ?case using Cons.IH by (auto intro: topOk_next)
qed simp

lemma good_store_init [simp]: "0 \<le> slot \<Longrightarrow> slot < int V \<Longrightarrow> good V (emitI StoreObjectVar slot 0)"
  by (rule goodI, rule emits_I) (simp add: okIn_def okInstr_def instr_def isJump_def usesString_def)

lemma topOk_initializers:
  assumes "topInv V cg" "\<forall>(slot, e)\<in>set inits. 0 \<le> slot \<and> slot < int V"
  shows "topOk V (emitInitializers n inits cg)"
proof -
  let ?body = "cgSeq (map (\<lambda>(slot, e). cgThen (emitExpr e) (emitI StoreObjectVar slot 0)) inits)"
  have g: "good V ?body" using assms(2) by (intro good_map_seq) auto
  have r: "topInv V (resetFunction cg)" "loopStack (resetFunction cg) = []"
    using assms(1) by (simp_all add: resetFunction_def topInv_def)
  have "topOk V (Some (emitFunction ''$objvarinit'' 0 False ?body (resetFunction cg)))"
    unfolding topOk_def using topInv_function[OF g r(2,1)] by blast
  then show ?thesis using assms(1) by (auto simp: emitInitializers_def emitPendingLambdas_def intro!: topOk_next topOk_lambdaLoop)
qed

definition declInv :: "codegen \<times> string list \<times> (int \<times> ast) list \<Rightarrow> bool" where
  "declInv st \<longleftrightarrow>
     (case st of
        (cg, names, inits) \<Rightarrow>
          outCode cg = [] \<and> outFunctions cg = [] \<and>
          (\<forall>n s. cgObjectVars cg n = Some s \<longrightarrow> 0 \<le> s \<and> s < int (length names)) \<and>
          (\<forall>(slot, e)\<in>set inits. 0 \<le> slot \<and> slot < int (length names)))"

lemma declInv_step: "declInv st \<Longrightarrow> declInv (declareObjectVar d st)"
  by (cases st) (fastforce simp: declInv_def declareObjectVar_def Let_def split: option.splits if_splits)

lemma declInv_fold: "declInv st \<Longrightarrow> declInv (fold declareObjectVar ds st)"
proof (induction ds arbitrary: st)
  case (Cons d ds)
  from Cons.IH[OF declInv_step[OF Cons.prems]] show ?case by simp
qed simp

lemma inheritVars_range: "inheritVars names n = Some s \<Longrightarrow> 0 \<le> s \<and> s < int (length names)"
  by (auto simp: inheritVars_def dest!: map_of_SomeD set_zip_rightD)

text \<open>
  What the interpreter relies on: a jump or a catch frame has its target inside the code, an operand that selects a string, a float
  or an object variable is inside its table, and a function starts inside the code.
\<close>

definition wellFormed :: "CompiledProgram \<Rightarrow> bool" where
  "wellFormed p \<longleftrightarrow>
     (\<forall>i\<in>set (code p).
        (op i \<in> {Jump, JumpIfFalse, PushCatchFrame} \<longrightarrow> 0 \<le> operand i \<and> operand i < int (length (code p))) \<and>
        (op i \<in> {PushConst, PushSymbol, OpCall, CallEfun, CallParent, PushClosure, PushEfunClosure} \<longrightarrow>
           0 \<le> operand i \<and> operand i < int (length (stringPool p))) \<and>
        (op i = CallParentQualifierSlot \<longrightarrow> -1 \<le> operand i \<and> operand i < int (length (stringPool p))) \<and>
        (op i = PushFloat \<longrightarrow> 0 \<le> operand i \<and> operand i < int (length (floatPool p))) \<and>
        (op i \<in> {PushObjectVar, StoreObjectVar} \<or> op i = SscanfVarSlot \<and> argCount i \<noteq> 0 \<longrightarrow>
           0 \<le> operand i \<and> operand i < int (length (objectVarNames p)))) \<and>
     (\<forall>f\<in>set (progFunctions p). entryPoint f < length (code p))"

lemma okInstr_wellFormed:
  assumes "topInv V cg" "length (outCode cg) < 2 ^ 31" "x \<in> set (outCode cg)" "isJump x"
  shows "0 \<le> operand x \<and> operand x < int (length (outCode cg))"
proof -
  obtain t where t: "t \<le> length (outCode cg) - 1" "operand x = to_int32 (int t)"
    using assms unfolding topInv_def okInstr_def by blast
  moreover have "0 < length (outCode cg)" using assms(3) by (cases "outCode cg") auto
  ultimately show ?thesis using assms(2) to_int32_id[of "int t"] by (cases "length (outCode cg)") auto
qed

lemma topInv_wellFormed:
  assumes "topInv (length names) cg" "length (outCode cg) < 2 ^ 31"
  shows "wellFormed (CompiledProgram pid (outCode cg) (outFunctions cg) (outStrings cg) (outFloats cg) names ins [] m)"
proof -
  have "entryPoint f < length (outCode cg)" if "f \<in> set (outFunctions cg)" for f
    using assms that by (fastforce simp: topInv_def)
  moreover note okInstr_wellFormed[OF assms]
  ultimately show ?thesis using assms(1) unfolding wellFormed_def topInv_def okInstr_def usesString_def isJump_def by simp
qed

lemma map_sum_Inr: "map_sum f g x = Inr y \<longleftrightarrow> (\<exists>z. x = Inr z \<and> y = g z)"
  by (cases x) auto

lemma declare_names: "fold declareObjectVar ds (cg, names, inits) = (cg', names', inits') \<Longrightarrow> \<exists>own. names' = names @ own"
proof (induction ds arbitrary: cg names inits)
  case (Cons d ds)
  obtain c ns xs where d: "declareObjectVar d (cg, names, inits) = (c, ns, xs)" by (cases "declareObjectVar d (cg, names, inits)")
  then obtain own where "ns = names @ own" by (auto simp: declareObjectVar_def Let_def)
  with Cons.IH[of c ns xs] Cons.prems d show ?case by auto
qed simp

text \<open>A generated program and the state of the generator it was taken from.\<close>

lemma generated_from:
  assumes "generate n pid prog inherited = Some (Inr p)"
  obtains cg own where "topInv (length (inherited @ own)) cg"
    "p = CompiledProgram pid (outCode cg) (outFunctions cg) (outStrings cg) (outFloats cg) (inherited @ own) (prInherits prog) [] Map.empty"
proof -
  define cg0 where "cg0 = newCodegen\<lparr>classDefs := map_of (rev (map (\<lambda>c. (cdName c, cdMembers c)) (prClasses prog))),
                          cgObjectVars := inheritVars inherited\<rparr>"
  obtain cg1 names inits where f: "fold declareObjectVar (prObjectVars prog) (cg0, inherited, []) = (cg1, names, inits)"
    by (cases "fold declareObjectVar (prObjectVars prog) (cg0, inherited, [])") auto
  obtain own where own: "names = inherited @ own" using declare_names[OF f] by blast
  have "declInv (cg0, inherited, [])" using inheritVars_range by (simp add: declInv_def cg0_def newCodegen_def)
  then have d: "declInv (cg1, names, inits)" using declInv_fold f by metis
  let ?V = "length names"
  obtain cg where cg: "cgNext (emitInitializers n inits cg1) (emitFunctionDecls n (prFunctions prog)) = Some (Inr cg)"
    and p: "p = CompiledProgram pid (outCode cg) (outFunctions cg) (outStrings cg) (outFloats cg) names (prInherits prog) [] Map.empty"
    using assms f unfolding generate_def cg0_def[symmetric] Let_def
    by (auto simp: map_sum_Inr)
  have "topInv ?V cg1" using d by (simp add: topInv_def declInv_def)
  moreover have "\<forall>(slot, e)\<in>set inits. 0 \<le> slot \<and> slot < int ?V" using d by (simp add: declInv_def)
  ultimately have "topOk ?V (cgNext (emitInitializers n inits cg1) (emitFunctionDecls n (prFunctions prog)))"
    by (intro topOk_next topOk_initializers topOk_decls)
  then have "topInv ?V cg" using cg by simp
  then show thesis using that p own by simp
qed

text \<open>
  C2. Whatever syntax tree \<^verbatim>\<open>CodeGen::generate\<close> is given, a program it produces is well formed, as long as it has less than
  \<open>2 ^ 31\<close> instructions: no placeholder of a jump is left unpatched, whatever the nesting of loops, \<^verbatim>\<open>switch\<close>, \<^verbatim>\<open>break\<close>,
  \<^verbatim>\<open>continue\<close>, short-circuit operators and \<^verbatim>\<open>catch\<close>; every target lies inside the code, every pool index inside its
  pool and every index of an object variable inside the variables of the program. The slots of local variables are not covered: the code
  keeps their number in 8 bits, so a function with more than 255 of them gets a frame that is too small.
\<close>

theorem generated_code_well_formed:
  assumes "generate n pid prog inherited = Some (Inr p)" "length (code p) < 2 ^ 31"
  shows "wellFormed p"
  by (rule generated_from[OF assms(1)]) (use assms(2) in \<open>simp add: topInv_wellFormed\<close>)

text \<open>A function with an object variable, a loop with \<^verbatim>\<open>break\<close> and \<^verbatim>\<open>continue\<close>, a \<^verbatim>\<open>switch\<close> and a lambda.\<close>

definition demoProgram :: Program where
  "demoProgram =
     \<lparr>prFunctions = [\<lparr>fdReturnType = ''string'', fdReturnIsArray = False, fdName = ''f'', fdParams = [\<lparr>paType = ''int'', paName = ''n'', paIsArray = False\<rparr>], fdIsVarargs = False,
        fdBody = Some (Block
          [WhileStmt (BinaryExpr BinAnd (VarRefExpr ''n'') (VarRefExpr ''total''))
             (Block [SwitchStmt (VarRefExpr ''n'')
                 [CaseLabel (Some (IntLiteral 1)) None, BreakStmt, CaseLabel None None, ContinueStmt],
               AssignStmt ''total'' (InlineLambdaExpr [LambdaParamExpr 0 False] 1 [])] True),
           ReturnStmt (Some (StringLiteral ''done''))] True)\<rparr>],
      prObjectVars = [\<lparr>ovType = ''int'', ovIsArray = False, ovName = ''total'', ovIsPrivate = True, ovInitializer = Some (IntLiteral 7)\<rparr>],
      prInherits = [], prClasses = []\<rparr>"

lemmas cg_run = generate_def newCodegen_def inheritVars_def emitInitializers_def cgNext_def emitFunctionDecl_def resetFunction_def
  declareParams_def cgThen_def cgDone_def cgOpt_def emitFunction_def functionEntry_def emitI_def instr_def emitBlock_def scoped_def
  openScope_def closeScope_def emitExpr_def exprNode_def stmtNode_def discard_def internString_def internFloat_def
  declareLocal_def classText_def resolveVariable_def emitReturnStmt_def emitWhileStmt_def withLoop_def pushLoop_def popLoop_def here_def
  jumpTo_def patchAll_def patchAllToHere_def patchJumpTo_def patchJumpToHere_def emitJumpPlaceholder_def emitBreakStmt_def
  emitContinueStmt_def emitSwitchStmt_def lastDefault_def emitAssignStmt_def emitInlineLambda_def emitLambdaParam_def emitLogicalExpr_def
  declareObjectVar_def emitPendingLambdas_def emitPendingAnonFuncs_def emitLambda_def pushVar_def storeVar_def Let_def

lemmas cg_fuel = drain.simps(2)[of "pred_numeral k" for k, folded numeral_eq_Suc]
  lambdaLoop.simps(2)[of "pred_numeral k" for k, folded numeral_eq_Suc] anonLoop.simps(2)[of "pred_numeral k" for k, folded numeral_eq_Suc]

lemma demo_compiles: "\<exists>p. generate 4 1 demoProgram [''inherited''] = Some (Inr p) \<and> length (code p) < 100"
  by (simp add: demoProgram_def cg_run cg_fuel)

theorem generated_code_well_formed_witness:
  "\<exists>p. generate 4 1 demoProgram [''inherited''] = Some (Inr p) \<and> wellFormed p"
proof -
  obtain p where p: "generate 4 1 demoProgram [''inherited''] = Some (Inr p)" "length (code p) < 100" using demo_compiles by blast
  have "length (code p) < 2 ^ 31" using p(2) by simp
  from generated_code_well_formed[OF p(1) this] p(1) show ?thesis by blast
qed

end
