(* ===== verification/Parser_Core.thy ===== *)
theory Parser_Core
  imports Ast Lexer
begin

text \<open>
  The state of the parser of \<^verbatim>\<open>src/compiler/Parser.cpp\<close>, its token access, and the sequencing of its steps. The state holds the
  tokens from \<^verbatim>\<open>pos_\<close> on and the last token, which is what \<^verbatim>\<open>peek\<close> reads beyond the end. A step gives a value and the new
  state, the exception the parser throws, or \<^const>\<open>None\<close> when a loop has used up its fuel.
\<close>

section \<open>State and steps\<close>

record pstate =
  psRest :: "token list"
  psLast :: token
  psDialect :: LpcDialect
  lambdaParamMaxStack :: "int list"
  lambdaBoundValuesStack :: "ast list list"

type_synonym 'a pm = "pstate \<Rightarrow> ('a \<times> pstate) res option"

definition psRet :: "'a \<Rightarrow> 'a pm" where
  "psRet x st = Some (Inr (x, st))"

definition psBind :: "'a pm \<Rightarrow> ('a \<Rightarrow> 'b pm) \<Rightarrow> 'b pm" where
  "psBind m f st =
     (case m st of
        None \<Rightarrow> None
      | Some (Inl e) \<Rightarrow> Some (Inl e)
      | Some (Inr (x, st')) \<Rightarrow> f x st')"

definition psSeq :: "'a pm \<Rightarrow> 'b pm \<Rightarrow> 'b pm" where
  "psSeq m k = psBind m (\<lambda>_. k)"

definition psIf :: "(pstate \<Rightarrow> bool) \<Rightarrow> 'a pm \<Rightarrow> 'a pm \<Rightarrow> 'a pm" where
  "psIf c a b st = (if c st then a st else b st)"

definition psThrow :: "exn \<Rightarrow> 'a pm" where
  "psThrow e st = Some (Inl e)"

definition psLift :: "'a res \<Rightarrow> 'a pm" where
  "psLift r st = (case r of Inl e \<Rightarrow> Some (Inl e) | Inr x \<Rightarrow> Some (Inr (x, st)))"

text \<open>A loop: the body says whether it goes round again.\<close>

primrec psLoop :: "nat \<Rightarrow> ('a \<Rightarrow> ('a \<times> bool) pm) \<Rightarrow> 'a \<Rightarrow> 'a pm" where
  "psLoop 0 body x = (\<lambda>st. None)"
| "psLoop (Suc n) body x = psBind (body x) (\<lambda>(y, again). if again then psLoop n body y else psRet y)"

section \<open>Tokens\<close>

definition atEnd :: "pstate \<Rightarrow> bool" where
  "atEnd st = (case psRest st of [] \<Rightarrow> True | t # _ \<Rightarrow> tokType t = EndTok)"

definition peekAt :: "nat \<Rightarrow> pstate \<Rightarrow> token" where
  "peekAt k st = (if k < length (psRest st) then psRest st ! k else psLast st)"

definition peekTok :: "pstate \<Rightarrow> token" where
  "peekTok st = peekAt 0 st"

definition advance :: "token pm" where
  "advance st = Some (Inr (peekTok st, if atEnd st then st else st\<lparr>psRest := tl (psRest st)\<rparr>))"

definition check :: "TokenType \<Rightarrow> pstate \<Rightarrow> bool" where
  "check ty st \<longleftrightarrow> \<not> atEnd st \<and> tokType (peekTok st) = ty"

text \<open>Only symbols and keywords match by their text.\<close>

definition checkText :: "string \<Rightarrow> pstate \<Rightarrow> bool" where
  "checkText s st \<longleftrightarrow>
     \<not> atEnd st \<and> (tokType (peekTok st) = SymbolTok \<or> tokType (peekTok st) = Keyword) \<and> tokText (peekTok st) = s"

definition quoted :: "string \<Rightarrow> string" where
  "quoted s = [CHR 0x22] @ s @ [CHR 0x22]"

definition here_text :: "pstate \<Rightarrow> string" where
  "here_text st = '' at line '' @ to_string (tokLine (peekTok st)) @ '' (got '' @ quoted (tokText (peekTok st)) @ '')''"

definition expect :: "TokenType \<Rightarrow> string \<Rightarrow> token pm" where
  "expect ty ctx =
     psIf (check ty) advance
       (\<lambda>st. psThrow (LpcRuntimeError (''parse error: expected token type in '' @ ctx @ here_text st)) st)"

definition expectText :: "string \<Rightarrow> string \<Rightarrow> token pm" where
  "expectText s ctx =
     psIf (checkText s) advance
       (\<lambda>st. psThrow (LpcRuntimeError (''parse error: expected '' @ quoted s @ '' in '' @ ctx @ here_text st)) st)"

definition expectName :: "string \<Rightarrow> string pm" where
  "expectName ctx = psBind (expect Ident ctx) (\<lambda>t. psRet (tokText t))"

definition advanceText :: "string pm" where
  "advanceText = psBind advance (\<lambda>t. psRet (tokText t))"

text \<open>\<open>item , item , ...\<close>; with a closing text, a comma may stand before it.\<close>

definition commaList :: "nat \<Rightarrow> string option \<Rightarrow> 'a pm \<Rightarrow> 'a list pm" where
  "commaList n close elem =
     psLoop n (\<lambda>xs. psBind elem (\<lambda>x.
       psIf (checkText '','')
         (psSeq advance
           (psIf (\<lambda>st. case close of None \<Rightarrow> False | Some s \<Rightarrow> checkText s st)
             (psRet (xs @ [x], False)) (psRet (xs @ [x], True))))
         (psRet (xs @ [x], False)))) []"

section \<open>Types and modifiers\<close>

definition nonTypeKeywords :: "string list" where
  "nonTypeKeywords =
    [''return'', ''if'', ''else'', ''while'', ''for'', ''do'', ''inherit'', ''break'', ''continue'',
     ''foreach'', ''in'', ''switch'', ''case'', ''default'',
     ''static'', ''private'', ''public'', ''protected'', ''nomask'', ''varargs'', ''atomic'', ''nil'']"

definition isTypeKeyword :: "token \<Rightarrow> bool" where
  "isTypeKeyword t \<longleftrightarrow> tokType t = Keyword \<and> tokText t \<notin> set nonTypeKeywords"

definition modifierKeywords :: "string list" where
  "modifierKeywords = [''static'', ''private'', ''public'', ''protected'', ''nomask'', ''varargs'']"

definition isModifierKeyword :: "LpcDialect \<Rightarrow> token \<Rightarrow> bool" where
  "isModifierKeyword d t \<longleftrightarrow>
     tokType t = Keyword \<and> (tokText t \<in> set modifierKeywords \<or> d = DGD \<and> tokText t = ''atomic'')"

definition isArrayWord :: "pstate \<Rightarrow> bool" where
  "isArrayWord st \<longleftrightarrow> check Ident st \<and> tokText (peekTok st) = ''array''"

definition consumeArrayMarker :: "bool pm" where
  "consumeArrayMarker =
     psIf (checkText ''*'') (psSeq advance (psRet True))
       (psIf isArrayWord (psSeq advance (psRet True)) (psRet False))"

definition startsClassType :: "pstate \<Rightarrow> bool" where
  "startsClassType st \<longleftrightarrow>
     psDialect st = FluffOS \<and> check Ident st \<and> tokText (peekTok st) = ''class'' \<and> tokType (peekAt 1 st) = Ident"

definition startsType :: "pstate \<Rightarrow> bool" where
  "startsType st \<longleftrightarrow>
     (if check Keyword st \<and> isTypeKeyword (peekTok st) \<and> tokText (peekAt 1 st) = ''::'' then False
      else if check Keyword st \<and> isTypeKeyword (peekTok st) then True
      else if startsClassType st then True
      else if isArrayWord st
      then tokType (peekAt 1 st) = Ident \<or> tokType (peekAt 1 st) = SymbolTok \<and> tokText (peekAt 1 st) = ''*''
      else False)"

definition parseTypeToken :: "string \<Rightarrow> (string \<times> bool) pm" where
  "parseTypeToken ctx =
     psIf startsClassType
       (psSeq advance (psBind advanceText (\<lambda>c. psBind consumeArrayMarker (\<lambda>arr. psRet (''class:'' @ c, arr)))))
       (psIf isArrayWord
         (psSeq advance (psRet (''mixed'', True)))
         (psBind (expect Keyword ctx) (\<lambda>t. psBind consumeArrayMarker (\<lambda>arr. psRet (tokText t, arr)))))"

section \<open>Parameters, declaration heads and classes\<close>

definition parseParam :: "Param pm" where
  "parseParam =
     psBind (parseTypeToken ''function parameter type'') (\<lambda>(ty, arr).
       psIf (check Ident)
         (psBind advanceText (\<lambda>n. psRet \<lparr>paType = ty, paName = n, paIsArray = arr\<rparr>))
         (psRet \<lparr>paType = ty, paName = [], paIsArray = arr\<rparr>))"

definition parseParamList :: "nat \<Rightarrow> (Param list \<times> bool) pm" where
  "parseParamList n =
     psIf (checkText '')'') (psRet ([], False))
       (psBind (commaList n None parseParam) (\<lambda>ps.
         psIf (checkText ''...'') (psSeq advance (psRet (ps, True))) (psRet (ps, False))))"

record DeclPrefix =
  dpType :: string
  dpIsArray :: bool
  dpName :: string
  dpIsPrivate :: bool

definition parseModifiers :: "nat \<Rightarrow> bool pm" where
  "parseModifiers n =
     psLoop n (\<lambda>priv.
       psIf (\<lambda>st. check Keyword st \<and> isModifierKeyword (psDialect st) (peekTok st))
         (psBind advanceText (\<lambda>t. psRet (priv \<or> t = ''private'', True)))
         (psRet (priv, False))) False"

definition parseDeclPrefix :: "nat \<Rightarrow> string \<Rightarrow> DeclPrefix pm" where
  "parseDeclPrefix n ctx =
     psBind (parseModifiers n) (\<lambda>priv.
     psBind
       (psIf startsClassType
         (psSeq advance (psBind advanceText (\<lambda>c. psBind consumeArrayMarker (\<lambda>arr. psRet (''class:'' @ c, arr)))))
         (psIf isArrayWord
           (psSeq advance (psRet (''mixed'', True)))
           (psIf (check Keyword)
             (psBind advanceText (\<lambda>t. psBind consumeArrayMarker (\<lambda>arr. psRet (t, arr))))
             (psRet (''mixed'', False))))) (\<lambda>(ty, arr).
     psBind (expectName (ctx @ '' name'')) (\<lambda>name.
       psRet \<lparr>dpType = ty, dpIsArray = arr, dpName = name, dpIsPrivate = priv\<rparr>)))"

text \<open>One member line of a class: only the names are kept.\<close>

definition parseClassMembers :: "nat \<Rightarrow> string list pm" where
  "parseClassMembers n =
     psSeq (parseTypeToken ''class member type'')
       (psBind (commaList n None (psSeq consumeArrayMarker (expectName ''class member name''))) (\<lambda>ms.
         psSeq (expectText '';'' ''class member declaration'') (psRet ms)))"

definition parseClassDecl :: "nat \<Rightarrow> ClassDeclStmt pm" where
  "parseClassDecl n =
     psBind (expectName ''class declaration name'') (\<lambda>name.
     psSeq (expectText ''{'' ''class declaration body'')
     (psBind (psLoop n (\<lambda>ms.
         psIf (checkText ''}'') (psRet (ms, False))
           (psIf atEnd (psThrow (LpcRuntimeError ''parse error: unterminated class declaration''))
             (psBind (parseClassMembers n) (\<lambda>more. psRet (ms @ more, True))))) []) (\<lambda>ms.
     psSeq (expectText ''}'' ''class declaration body'') (psRet \<lparr>cdName = name, cdMembers = ms\<rparr>))))"

definition parseInheritPathString :: "nat \<Rightarrow> string pm" where
  "parseInheritPathString n =
     psBind (expect StringTok ''inherit statement path'') (\<lambda>t.
       psLoop n (\<lambda>s.
         psIf (check StringTok) (psBind advanceText (\<lambda>u. psRet (s @ u, True)))
           (psIf (checkText ''+'')
             (psSeq advance
               (psBind (expect StringTok ''inherit statement path (string concatenation)'') (\<lambda>u. psRet (s @ tokText u, True))))
             (psRet (s, False)))) (tokText t))"

definition parseInheritStatement :: "nat \<Rightarrow> string pm" where
  "parseInheritStatement n =
     psSeq (expectText ''inherit'' ''inherit statement'')
       (psBind (parseInheritPathString n) (\<lambda>path. psSeq (expectText '';'' ''inherit statement'') (psRet path)))"

section \<open>Numbers\<close>

text \<open>\<^verbatim>\<open>std::stoll\<close> in base 16 on a text that starts with \<open>0x\<close>, and \<^verbatim>\<open>std::stoi\<close>.\<close>

definition hexval :: "char \<Rightarrow> nat" where
  "hexval c = (let n = (of_char c :: nat) in if isdigit c then n - 48 else if n < 97 then n - 55 else n - 87)"

definition stollHex :: "string \<Rightarrow> int res" where
  "stollHex s =
     (let v = int (foldl (\<lambda>a c. 16 * a + hexval c) 0 (takeWhile isxdigit (drop 2 s))) in
      if int64_range v then Inr v else Inl OutOfRange)"

definition stoi :: "string \<Rightarrow> int res" where
  "stoi s = res_bind (stoll s) (\<lambda>v. if - (2 ^ 31) \<le> v \<and> v < 2 ^ 31 then Inr v else Inl OutOfRange)"

definition isHexText :: "string \<Rightarrow> bool" where
  "isHexText s \<longleftrightarrow> 2 < length s \<and> s ! 0 = CHR ''0'' \<and> (s ! 1 = CHR ''x'' \<or> s ! 1 = CHR ''X'')"

definition numberLiteral :: "string \<Rightarrow> ast res" where
  "numberLiteral s =
     (if CHR ''.'' \<in> set s then res_bind (stod s) (\<lambda>d. Inr (FloatLiteral d))
      else res_bind (if isHexText s then stollHex s else stoll s) (\<lambda>v. Inr (IntLiteral (word_of_int v))))"

end
