(* ===== verification/Parser.thy ===== *)
theory Parser
  imports Parser_Core
begin

text \<open>
  The recursive-descent parser of \<^verbatim>\<open>src/compiler/Parser.cpp\<close>. Every parsing function is a definition over a record of the
  functions it calls after it has consumed a token; \<open>parserAt n\<close> ties the knot \<open>n\<close> levels deep. The functions that only call the
  next level of precedence call it directly.
\<close>

section \<open>Calls to other levels\<close>

record parsers =
  psFuel :: nat
  recExpr :: "ast pm"
  recUnary :: "ast pm"
  recStatement :: "ast pm"
  recBlock :: "block pm"

definition spreadElem :: "parsers \<Rightarrow> (ast \<times> bool) pm" where
  "spreadElem p =
     psBind (recExpr p) (\<lambda>e. psIf (checkText ''...'') (psSeq advance (psRet (e, True))) (psRet (e, False)))"

text \<open>The spread flags are kept only when there is a spread.\<close>

definition spreadFlags :: "(ast \<times> bool) list \<Rightarrow> bool list" where
  "spreadFlags es = (if True \<in> set (map snd es) then map snd es else [])"

definition parseArgList :: "parsers \<Rightarrow> (ast list \<times> bool list) pm" where
  "parseArgList p =
     psIf (checkText '')'') (psRet ([], []))
       (psBind (commaList (psFuel p) (Some '')'') (spreadElem p)) (\<lambda>es. psRet (map fst es, spreadFlags es)))"

definition parseCommaExpr :: "parsers \<Rightarrow> ast pm" where
  "parseCommaExpr p =
     psBind (recExpr p) (psLoop (psFuel p) (\<lambda>left.
       psIf (checkText '','')
         (psSeq advance (psBind (recExpr p) (\<lambda>right. psRet (CommaExpr left right, True))))
         (psRet (left, False))))"

section \<open>Primary expressions\<close>

text \<open>\<open>name(args)\<close> from the opening parenthesis on.\<close>

definition callArgs :: "parsers \<Rightarrow> string \<Rightarrow> (ast list \<times> bool list) pm" where
  "callArgs p ctx =
     psSeq (expectText ''('' ctx) (psBind (parseArgList p) (\<lambda>args. psSeq (expectText '')'' ctx) (psRet args)))"

definition parseQualifiedParentCall :: "parsers \<Rightarrow> string \<Rightarrow> ast pm" where
  "parseQualifiedParentCall p qualifier =
     psSeq advance (psBind (expectName ''qualifier:: function name'') (\<lambda>fn.
       psBind (callArgs p ''qualifier:: call arguments'') (\<lambda>(args, sp). psRet (CallExpr fn args sp False True qualifier))))"

definition parseStringLiteral :: "parsers \<Rightarrow> ast pm" where
  "parseStringLiteral p =
     psBind advanceText (\<lambda>s.
       psBind (psLoop (psFuel p) (\<lambda>v.
           psIf (check StringTok) (psBind advanceText (\<lambda>u. psRet (v @ u, True))) (psRet (v, False))) s)
         (\<lambda>v. psRet (StringLiteral v)))"

definition parseNumberLiteral :: "ast pm" where
  "parseNumberLiteral = psBind advanceText (\<lambda>s. psLift (numberLiteral s))"

text \<open>\<^verbatim>\<open>$(expr)\<close>: the value goes to the innermost lambda.\<close>

definition pushBoundValue :: "ast \<Rightarrow> nat pm" where
  "pushBoundValue e st =
     (case lambdaBoundValuesStack st of
        [] \<Rightarrow> Some (Inr (0, st))
      | vs # rest \<Rightarrow> Some (Inr (length vs, st\<lparr>lambdaBoundValuesStack := (vs @ [e]) # rest\<rparr>)))"

definition parseBoundValue :: "parsers \<Rightarrow> ast pm" where
  "parseBoundValue p =
     psIf (\<lambda>st. lambdaBoundValuesStack st = []) (psThrow (LpcRuntimeError ''$(...) illegal outside of function pointer''))
       (psSeq advance (psSeq advance
         (psBind (parseCommaExpr p) (\<lambda>e.
           psSeq (expectText '')'' ''$(...) bound value'')
             (psBind (pushBoundValue e) (\<lambda>slot. psRet (LambdaParamExpr (int slot) True)))))))"

definition mappingEntry :: "parsers \<Rightarrow> (ast \<times> ast list) pm" where
  "mappingEntry p =
     psBind (recExpr p) (\<lambda>k. psSeq (expectText '':'' ''mapping literal entry'')
       (psBind (recExpr p) (\<lambda>v. psBind (psLoop (psFuel p) (\<lambda>vs.
           psIf (\<lambda>st. psDialect st = LdMud \<and> checkText '';'' st)
             (psSeq advance (psBind (recExpr p) (\<lambda>w. psRet (vs @ [w], True))))
             (psRet (vs, False))) [v]) (\<lambda>vs. psRet (k, vs)))))"

text \<open>All entries have the width of the first; the test comes right after each entry.\<close>

definition mappingEntries :: "parsers \<Rightarrow> (ast \<times> ast list) list pm" where
  "mappingEntries p =
     psLoop (psFuel p) (\<lambda>es.
       psBind (mappingEntry p) (\<lambda>e.
         if es \<noteq> [] \<and> length (snd e) \<noteq> length (snd (hd es))
         then psThrow (LpcRuntimeError ''Inconsistent number of values in mapping literal'')
         else psIf (checkText '','')
           (psSeq advance (psIf (checkText '']'') (psRet (es @ [e], False)) (psRet (es @ [e], True))))
           (psRet (es @ [e], False)))) []"

definition parseMappingLiteral :: "parsers \<Rightarrow> ast pm" where
  "parseMappingLiteral p =
     psSeq advance (psSeq advance
       (psBind (psIf (checkText '']'') (psRet []) (mappingEntries p)) (\<lambda>es.
         psSeq (expectText '']'' ''mapping literal'') (psSeq (expectText '')'' ''mapping literal'') (psRet (MappingLiteralExpr es))))))"

definition parseHashQuote :: "ast pm" where
  "parseHashQuote =
     psSeq advance
       (psIf (\<lambda>st. check Ident st \<and> tokText (peekTok st) = ''efun'' \<and> tokText (peekAt 1 st) = ''::'')
         (psSeq advance (psSeq advance
           (psBind (expectName (''closure literal function name after #'' @ [CHR 0x27] @ ''efun::'')) (\<lambda>n. psRet (ClosureLiteralExpr n [] True)))))
         (psBind (expectName (''closure literal function name after #'' @ [CHR 0x27])) (\<lambda>n. psRet (ClosureLiteralExpr n [] False))))"

definition bareClosureName :: "pstate \<Rightarrow> bool" where
  "bareClosureName st \<longleftrightarrow>
     tokType (peekAt 2 st) = Ident \<and> tokText (peekAt 2 st) \<noteq> [] \<and> tokText (peekAt 2 st) ! 0 \<noteq> CHR ''$'' \<and>
     tokType (peekAt 3 st) = SymbolTok \<and> (tokText (peekAt 3 st) = '','' \<or> tokText (peekAt 3 st) = '':'')"

definition closeClosure :: "'a \<Rightarrow> 'a pm" where
  "closeClosure a = psSeq (expectText '':'' ''closure literal'') (psSeq (expectText '')'' ''closure literal'') (psRet a))"

definition parseBareClosure :: "parsers \<Rightarrow> ast pm" where
  "parseBareClosure p =
     psSeq advance (psSeq advance
       (psBind (expectName ''closure literal function name'') (\<lambda>n.
         psBind (psIf (checkText '','') (psSeq advance (commaList (psFuel p) None (recExpr p))) (psRet [])) (\<lambda>args.
           closeClosure (ClosureLiteralExpr n args False)))))"

definition openLambda :: "unit pm" where
  "openLambda st =
     Some (Inr ((), st\<lparr>lambdaParamMaxStack := 0 # lambdaParamMaxStack st, lambdaBoundValuesStack := [] # lambdaBoundValuesStack st\<rparr>))"

text \<open>What the lambda has collected; both stacks are popped.\<close>

definition takeLambda :: "(int \<times> ast list) pm" where
  "takeLambda st =
     Some (Inr ((case lambdaParamMaxStack st of [] \<Rightarrow> 0 | n # _ \<Rightarrow> n, case lambdaBoundValuesStack st of [] \<Rightarrow> [] | b # _ \<Rightarrow> b),
       st\<lparr>lambdaParamMaxStack := tl (lambdaParamMaxStack st), lambdaBoundValuesStack := tl (lambdaBoundValuesStack st)\<rparr>))"

definition parseInlineLambda :: "parsers \<Rightarrow> ast pm" where
  "parseInlineLambda p =
     psSeq advance (psSeq advance (psSeq openLambda
       (psBind (commaList (psFuel p) None (recExpr p)) (\<lambda>body.
         psBind takeLambda (\<lambda>(n, bounds). closeClosure (InlineLambdaExpr body n bounds))))))"

definition parseAnonFunction :: "parsers \<Rightarrow> ast pm" where
  "parseAnonFunction p =
     psSeq advance (psSeq advance
       (psBind (parseParamList (psFuel p)) (\<lambda>(ps, va).
         psSeq (expectText '')'' ''anonymous function parameters'')
           (psBind (recBlock p) (\<lambda>b. psRet (AnonFunctionExpr ps va b))))))"

definition parsePointerCall :: "parsers \<Rightarrow> ast pm" where
  "parsePointerCall p =
     psSeq advance (psSeq advance
       (psBind (recExpr p) (\<lambda>f.
         psSeq (expectText '')'' ''function pointer call'')
           (psBind (callArgs p ''function pointer call'') (\<lambda>(args, sp).
             psRet (CallExpr ''evaluate'' (f # args) (if sp = [] then [] else False # sp) True False []))))))"

definition parseArrayLiteral :: "parsers \<Rightarrow> ast pm" where
  "parseArrayLiteral p =
     psSeq advance (psSeq advance
       (psBind (psIf (checkText ''}'') (psRet []) (commaList (psFuel p) (Some ''}'') (spreadElem p))) (\<lambda>es.
         psSeq (expectText ''}'' ''array literal'') (psSeq (expectText '')'' ''array literal'')
           (psRet (ArrayLiteralExpr (map fst es) (spreadFlags es)))))))"

definition parseParenthesized :: "parsers \<Rightarrow> ast pm" where
  "parseParenthesized p =
     psSeq advance (psBind (parseCommaExpr p) (\<lambda>e. psSeq (expectText '')'' ''parenthesized expression'') (psRet e)))"

definition parseParentCall :: "parsers \<Rightarrow> ast pm" where
  "parseParentCall p =
     psSeq advance (psBind (expectName ''::name function name'') (\<lambda>fn.
       psBind (callArgs p ''::name call arguments'') (\<lambda>(args, sp). psRet (CallExpr fn args sp False True []))))"

section \<open>Identifiers\<close>

definition noteParam :: "int \<Rightarrow> unit pm" where
  "noteParam n st =
     (case lambdaParamMaxStack st of
        [] \<Rightarrow> Some (Inr ((), st))
      | m # rest \<Rightarrow> Some (Inr ((), st\<lparr>lambdaParamMaxStack := max m n # rest\<rparr>)))"

definition parseLambdaParam :: "string \<Rightarrow> ast pm" where
  "parseLambdaParam name =
     psIf (\<lambda>st. lambdaParamMaxStack st = [])
       (psThrow (LpcRuntimeError (''$var illegal outside of function pointer ('' @ quoted name @ '' used outside a '' @
          quoted ''(: ... :)'' @ '' lambda body)'')))
       (psBind (psLift (stoi (tl name))) (\<lambda>n.
         if n < 1 then psThrow (LpcRuntimeError (''In function parameter '' @ name @ '', num must be >= 1''))
         else psSeq (noteParam n) (psRet (LambdaParamExpr (n - 1) False))))"

definition fieldInit :: "parsers \<Rightarrow> (string \<times> ast) pm" where
  "fieldInit p =
     psBind (expectName ''class field initializer name'') (\<lambda>f.
       psSeq (expectText '':'' ''class field initializer'') (psBind (recExpr p) (\<lambda>v. psRet (f, v))))"

definition parseNewClass :: "parsers \<Rightarrow> ast pm" where
  "parseNewClass p =
     psSeq advance (psSeq advance
       (psBind (expectName ''new(class ...) class name'') (\<lambda>c.
         psBind (psIf (checkText '')'') (psRet []) (commaList (psFuel p) None (fieldInit p))) (\<lambda>inits.
           psSeq (expectText '')'' ''new(class ...) construction'') (psRet (NewClassExpr c inits))))))"

definition parseEfunCall :: "parsers \<Rightarrow> ast pm" where
  "parseEfunCall p =
     psSeq advance (psBind (expectName ''efun:: function name'') (\<lambda>fn.
       psBind (callArgs p ''efun:: call arguments'') (\<lambda>(args, sp). psRet (CallExpr fn args sp True False []))))"

definition parseCatch :: "parsers \<Rightarrow> ast pm" where
  "parseCatch p =
     psSeq advance (psBind (parseCommaExpr p) (\<lambda>e. psSeq (expectText '')'' ''catch expression'') (psRet (CatchExpr e))))"

text \<open>The outputs of \<^verbatim>\<open>sscanf\<close>, from argument number \<open>i\<close> on: a variable or an indexed target.\<close>

definition sscanfOutput :: "nat \<Rightarrow> ast \<Rightarrow> (string \<times> ast option) res" where
  "sscanfOutput i a =
     (case a of
        VarRefExpr n \<Rightarrow> Inr (n, None)
      | IndexExpr t k re fe ree c \<Rightarrow>
          if re \<noteq> None
          then Inl (LpcRuntimeError (''sscanf: output argument '' @ to_string (int i - 1) @ '' cannot be a range expression''))
          else Inr ([], Some a)
      | _ \<Rightarrow> Inl (LpcRuntimeError (''sscanf: output argument '' @ to_string (int i - 1) @
          '' must be a plain variable name or an indexed lvalue like arr[i] (sscanf'' @ [CHR 0x27] @
          ''s output arguments are implicit lvalues in real LPC, there is no '' @ quoted ''&var'' @ '' reference syntax)'')))"

fun sscanfOutputs :: "nat \<Rightarrow> ast list \<Rightarrow> (string \<times> ast option) list res" where
  "sscanfOutputs i [] = Inr []"
| "sscanfOutputs i (a # as) =
     res_bind (sscanfOutput i a) (\<lambda>x. res_bind (sscanfOutputs (Suc i) as) (\<lambda>xs. Inr (x # xs)))"

definition mkSscanf :: "ast list \<Rightarrow> bool list \<Rightarrow> ast res" where
  "mkSscanf args sp =
     (case args of
        target # fmt # outs \<Rightarrow>
          if True \<in> set sp
          then Inl (LpcRuntimeError (''sscanf: argument spread ('' @ quoted ''...'' @ '') is not valid on an lvalue output list''))
          else res_bind (sscanfOutputs 2 outs) (\<lambda>os. Inr (SscanfExpr target fmt (map fst os) (map snd os)))
      | _ \<Rightarrow> Inl (LpcRuntimeError ''sscanf requires at least (string, format) arguments''))"

definition mkCallOther :: "ast list \<Rightarrow> bool list \<Rightarrow> ast res" where
  "mkCallOther args sp =
     (case args of
        target # fn # rest \<Rightarrow>
          if sp \<noteq> [] \<and> (sp ! 0 \<or> sp ! 1)
          then Inl (LpcRuntimeError (''call_other: the target/function argument cannot be spread ('' @ quoted ''...'' @ '')''))
          else Inr (CallOtherExpr target fn rest (drop 2 sp))
      | _ \<Rightarrow> Inl (LpcRuntimeError ''call_other requires at least (target, function) arguments''))"

definition parseNamedCall :: "parsers \<Rightarrow> string \<Rightarrow> ast pm" where
  "parseNamedCall p name =
     psSeq advance (psBind (parseArgList p) (\<lambda>(args, sp).
       psSeq (expectText '')'' ''call arguments'')
         (psLift (if name = ''sscanf'' then mkSscanf args sp
                  else if name = ''call_other'' then mkCallOther args sp
                  else Inr (CallExpr name args sp False False [])))))"

definition parseIdentifier :: "parsers \<Rightarrow> ast pm" where
  "parseIdentifier p =
     psBind advanceText (\<lambda>name.
       if name \<noteq> [] \<and> hd name = CHR ''$'' then parseLambdaParam name
       else
         psIf (\<lambda>st. name = ''new'' \<and> psDialect st = FluffOS \<and> checkText ''('' st \<and> tokText (peekAt 1 st) = ''class'') (parseNewClass p)
         (psIf (\<lambda>st. name = ''efun'' \<and> checkText ''::'' st) (parseEfunCall p)
         (psIf (\<lambda>st. name \<noteq> ''efun'' \<and> checkText ''::'' st) (parseQualifiedParentCall p name)
         (psIf (\<lambda>st. name = ''catch'' \<and> checkText ''('' st) (parseCatch p)
         (psIf (\<lambda>st. name = ''time_expression'' \<and> checkText ''{'' st) (psBind (recBlock p) (\<lambda>b. psRet (TimeExpressionExpr b)))
         (psIf (\<lambda>st. \<not> checkText ''('' st) (psRet (VarRefExpr name)) (parseNamedCall p name)))))))"

definition nextIs :: "string \<Rightarrow> string \<Rightarrow> pstate \<Rightarrow> bool" where
  "nextIs a b st \<longleftrightarrow> checkText a st \<and> tokText (peekAt 1 st) = b"

definition parsePrimary :: "parsers \<Rightarrow> ast pm" where
  "parsePrimary p =
     psIf (check StringTok) (parseStringLiteral p)
     (psIf (check Number) parseNumberLiteral
     (psIf (\<lambda>st. check Keyword st \<and> tokText (peekTok st) = ''nil'' \<and> psDialect st = DGD) (psSeq advance (psRet NilLiteral))
     (psIf (check QuotedSymbol) (psBind advanceText (\<lambda>s. psRet (SymbolLiteralExpr s)))
     (psIf (nextIs ''$'' ''('') (parseBoundValue p)
     (psIf (nextIs ''('' ''['') (parseMappingLiteral p)
     (psIf (\<lambda>st. checkText (CHR ''#'' # [CHR 0x27]) st \<and> psDialect st = LdMud) parseHashQuote
     (psIf (nextIs ''('' '':'') (psIf bareClosureName (parseBareClosure p) (parseInlineLambda p))
     (psIf (\<lambda>st. check Keyword st \<and> tokText (peekTok st) = ''function'' \<and> tokText (peekAt 1 st) = ''('') (parseAnonFunction p)
     (psIf (\<lambda>st. check Keyword st \<and> isTypeKeyword (peekTok st) \<and> tokText (peekAt 1 st) = ''::'')
        (psBind advanceText (parseQualifiedParentCall p))
     (psIf (nextIs ''('' ''*'') (parsePointerCall p)
     (psIf (nextIs ''('' ''{'') (parseArrayLiteral p)
     (psIf (checkText ''('') (parseParenthesized p)
     (psIf (checkText ''::'') (parseParentCall p)
     (psIf (check Ident) (parseIdentifier p)
       (\<lambda>st. psThrow (LpcRuntimeError (''parse error: expected expression'' @ here_text st)) st)))))))))))))))"

section \<open>Postfix operators\<close>

definition parseArrow :: "parsers \<Rightarrow> ast \<Rightarrow> ast pm" where
  "parseArrow p e =
     psSeq advance (psBind (expectName ''call_other operator function name'') (\<lambda>name.
       psIf (\<lambda>st. psDialect st = FluffOS \<and> \<not> checkText ''('' st)
         (psRet (IndexExpr e (MemberNameMarker name) None False False None))
         (psBind (callArgs p ''call_other operator arguments'') (\<lambda>(args, sp).
           psRet (CallOtherExpr e (StringLiteral name) args sp)))))"

definition fromEnd :: "bool pm" where
  "fromEnd = psIf (checkText ''<'') (psSeq advance (psRet True)) (psRet False)"

text \<open>The end of a range; an open end is the largest index the interpreter clamps to.\<close>

definition parseRangeEnd :: "parsers \<Rightarrow> (ast \<times> bool) pm" where
  "parseRangeEnd p =
     psIf (checkText '']'') (psRet (IntLiteral 2000000000, False))
       (psBind fromEnd (\<lambda>fe. psBind (recExpr p) (\<lambda>e. psRet (e, fe))))"

definition parseIndex :: "parsers \<Rightarrow> ast \<Rightarrow> ast pm" where
  "parseIndex p e =
     psSeq advance (psBind fromEnd (\<lambda>fe.
     psBind (psIf (\<lambda>st. psDialect st = LdMud) (recExpr p) (parseCommaExpr p)) (\<lambda>start.
     psBind
       (psIf (\<lambda>st. checkText '','' st \<and> psDialect st = LdMud)
         (psSeq advance (psBind (recExpr p) (\<lambda>c. psRet (None, False, Some c))))
         (psIf (checkText ''..'')
           (psSeq advance (psBind (parseRangeEnd p) (\<lambda>(r, re). psRet (Some r, re, None))))
           (psRet (None, False, None)))) (\<lambda>(range, rangeFe, col).
     psSeq (expectText '']'' ''index expression'') (psRet (IndexExpr e start range fe rangeFe col))))))"

text \<open>\<^verbatim>\<open>++\<close> and \<^verbatim>\<open>--\<close> apply to a variable or an index that is not a range.\<close>

definition incDecOn :: "IncDecOp \<Rightarrow> bool \<Rightarrow> ast \<Rightarrow> ast option" where
  "incDecOn d pre e =
     (case e of
        VarRefExpr n \<Rightarrow> Some (IncDecExpr d pre n None None None)
      | IndexExpr t k None fe ree c \<Rightarrow> Some (IncDecExpr d pre [] (Some t) (Some k) c)
      | _ \<Rightarrow> None)"

definition atLineText :: "pstate \<Rightarrow> string" where
  "atLineText st = '' at line '' @ to_string (tokLine (peekTok st))"

definition postfixIncDec :: "ast \<Rightarrow> ast pm" where
  "postfixIncDec e =
     psIf (\<lambda>st. checkText ''++'' st \<or> checkText ''--'' st)
       (\<lambda>st. (case incDecOn (if checkText ''++'' st then Inc else Dec) False e of
                Some x \<Rightarrow> psSeq advance (psRet x) st
              | None \<Rightarrow> psThrow (LpcRuntimeError (''parse error: postfix '' @ tokText (peekTok st) @
                          '' target must be a simple variable name or indexed target'' @ atLineText st)) st))
       (psRet e)"

definition parsePostfix :: "parsers \<Rightarrow> ast pm" where
  "parsePostfix p =
     psBind (parsePrimary p) (\<lambda>e.
       psBind (psLoop (psFuel p) (\<lambda>e.
           psIf (checkText ''->'') (psBind (parseArrow p e) (\<lambda>x. psRet (x, True)))
             (psIf (checkText ''['') (psBind (parseIndex p e) (\<lambda>x. psRet (x, True)))
               (psRet (e, False)))) e) postfixIncDec)"

section \<open>Unary operators, casts and assignments\<close>

definition backTo :: "pstate \<Rightarrow> pstate \<Rightarrow> pstate" where
  "backTo saved st = st\<lparr>psRest := psRest saved\<rparr>"

text \<open>A cast \<open>(type)\<close> or \<open>(type *)\<close> is read and forgotten; \<^const>\<open>None\<close> when it is none, with the position restored.\<close>

definition typeCast :: "bool pm" where
  "typeCast st =
     (if checkText ''('' st \<and> tokType (peekAt 1 st) = Keyword \<and> isTypeKeyword (peekAt 1 st)
      then psSeq advance (psSeq advance (psSeq (psIf (checkText ''*'') (psSeq advance (psRet ())) (psRet ()))
             (psIf (checkText '')'') (psSeq advance (psRet True)) (\<lambda>st'. Some (Inr (False, backTo st st')))))) st
      else Some (Inr (False, st)))"

definition classCast :: "(string \<times> bool) option pm" where
  "classCast st =
     (if psDialect st = FluffOS \<and> checkText ''('' st \<and> tokType (peekAt 1 st) = Ident \<and> tokText (peekAt 1 st) = ''class'' \<and>
         tokType (peekAt 2 st) = Ident
      then psSeq advance (psSeq advance (psBind advanceText (\<lambda>c.
             psBind (psIf (checkText ''*'') (psSeq advance (psRet True)) (psRet False)) (\<lambda>star.
               psIf (checkText '')'') (psSeq advance (psRet (Some (c, star)))) (\<lambda>st'. Some (Inr (None, backTo st st'))))))) st
      else Some (Inr (None, st)))"

definition kCompoundOps :: "(string \<times> BinOp) list" where
  "kCompoundOps =
    [(''+='', BinAdd), (''-='', BinSub), (''*='', BinMul), (''/='', BinDiv), (''%='', BinMod),
     (''|='', BinBitOr), (''&='', BinBitAnd), (''^='', BinBitXor), (''<<='', BinShl), (''>>='', BinShr)]"

text \<open>The assignment operator at this place, if there is one: compound or not, and its operation.\<close>

definition assignOp :: "pstate \<Rightarrow> (bool \<times> BinOp) option" where
  "assignOp st =
     (if checkText ''='' st then Some (False, BinAdd)
      else (case find (\<lambda>(s, b). checkText s st) kCompoundOps of None \<Rightarrow> None | Some (s, b) \<Rightarrow> Some (True, b)))"

definition assignTo :: "parsers \<Rightarrow> ast \<Rightarrow> bool \<Rightarrow> BinOp \<Rightarrow> ast pm" where
  "assignTo p e cp b =
     (case e of
        VarRefExpr n \<Rightarrow> psSeq advance (psBind (recExpr p) (\<lambda>v. psRet (AssignExpr n v cp b)))
      | IndexExpr t k None fe ree c \<Rightarrow> psSeq advance (psBind (recExpr p) (\<lambda>v. psRet (IndexAssignExpr t k v cp b c)))
      | _ \<Rightarrow> (\<lambda>st. psThrow (LpcRuntimeError (''parse error: assignment target must be a simple variable name or indexed target'' @ atLineText st)) st))"

definition prefixIncDec :: "parsers \<Rightarrow> IncDecOp \<Rightarrow> ast pm" where
  "prefixIncDec p d =
     psSeq advance (psBind (recUnary p) (\<lambda>e.
       (case incDecOn d True e of
          Some x \<Rightarrow> psRet x
        | None \<Rightarrow> (\<lambda>st. psThrow (LpcRuntimeError (''parse error: prefix '' @ (if d = Inc then ''++'' else ''--'') @
                     '' target must be a simple variable name or indexed target'' @ atLineText st)) st))))"

definition parseOperand :: "parsers \<Rightarrow> ast pm" where
  "parseOperand p =
     psBind (parsePostfix p) (\<lambda>e st. (case assignOp st of None \<Rightarrow> psRet e st | Some (cp, b) \<Rightarrow> assignTo p e cp b st))"

definition parsePrefixed :: "parsers \<Rightarrow> ast pm" where
  "parsePrefixed p =
     psIf (checkText ''!'') (psSeq advance (psBind (recUnary p) (\<lambda>e. psRet (UnaryExpr UnNot e))))
     (psIf (checkText ''-'') (psSeq advance (psBind (recUnary p) (\<lambda>e. psRet (UnaryExpr UnNeg e))))
     (psIf (checkText ''~'') (psSeq advance (psBind (recUnary p) (\<lambda>e. psRet (UnaryExpr UnBitNot e))))
     (psIf (checkText ''++'') (prefixIncDec p Inc)
     (psIf (checkText ''--'') (prefixIncDec p Dec)
       (parseOperand p)))))"

definition parseClassCast :: "parsers \<Rightarrow> ast pm" where
  "parseClassCast p =
     psBind classCast (\<lambda>cast. (case cast of
         Some (c, star) \<Rightarrow> psBind (recUnary p) (\<lambda>e. psRet (if star then e else TypeCastExpr c e))
       | None \<Rightarrow> parsePrefixed p))"

definition parseUnary :: "parsers \<Rightarrow> ast pm" where
  "parseUnary p = psBind typeCast (\<lambda>isCast. if isCast then recUnary p else parseClassCast p)"

section \<open>Binary operators\<close>

text \<open>One level of left-associative operators over the next tighter level.\<close>

definition binaryLevel :: "nat \<Rightarrow> (string \<times> BinOp) list \<Rightarrow> ast pm \<Rightarrow> ast pm" where
  "binaryLevel n ops next =
     psBind next (psLoop n (\<lambda>left st.
       (case find (\<lambda>(s, b). checkText s st) ops of
          None \<Rightarrow> psRet (left, False) st
        | Some (s, b) \<Rightarrow> psSeq advance (psBind next (\<lambda>right. psRet (BinaryExpr b left right, True))) st)))"

definition parseMultiplicative :: "parsers \<Rightarrow> ast pm" where
  "parseMultiplicative p = binaryLevel (psFuel p) [(''*'', BinMul), (''/'', BinDiv), (''%'', BinMod)] (parseUnary p)"

definition parseAdditive :: "parsers \<Rightarrow> ast pm" where
  "parseAdditive p = binaryLevel (psFuel p) [(''+'', BinAdd), (''-'', BinSub)] (parseMultiplicative p)"

definition parseShift :: "parsers \<Rightarrow> ast pm" where
  "parseShift p = binaryLevel (psFuel p) [(''<<'', BinShl), (''>>'', BinShr)] (parseAdditive p)"

definition parseComparison :: "parsers \<Rightarrow> ast pm" where
  "parseComparison p =
     binaryLevel (psFuel p) [(''<'', BinLt), (''<='', BinLte), (''>'', BinGt), (''>='', BinGte)] (parseShift p)"

definition parseEquality :: "parsers \<Rightarrow> ast pm" where
  "parseEquality p = binaryLevel (psFuel p) [(''=='', BinEq), (''!='', BinNeq)] (parseComparison p)"

definition parseBitAnd :: "parsers \<Rightarrow> ast pm" where
  "parseBitAnd p = binaryLevel (psFuel p) [(''&'', BinBitAnd)] (parseEquality p)"

definition parseBitXor :: "parsers \<Rightarrow> ast pm" where
  "parseBitXor p = binaryLevel (psFuel p) [(''^'', BinBitXor)] (parseBitAnd p)"

definition parseBitOr :: "parsers \<Rightarrow> ast pm" where
  "parseBitOr p = binaryLevel (psFuel p) [(''|'', BinBitOr)] (parseBitXor p)"

definition parseLogicalAnd :: "parsers \<Rightarrow> ast pm" where
  "parseLogicalAnd p = binaryLevel (psFuel p) [(''&&'', BinAnd)] (parseBitOr p)"

definition parseLogicalOr :: "parsers \<Rightarrow> ast pm" where
  "parseLogicalOr p = binaryLevel (psFuel p) [(''||'', BinOr)] (parseLogicalAnd p)"

definition parseTernary :: "parsers \<Rightarrow> ast pm" where
  "parseTernary p =
     psBind (parseLogicalOr p) (\<lambda>c.
       psIf (checkText ''?'')
         (psSeq advance (psBind (recExpr p) (\<lambda>t. psSeq (expectText '':'' ''ternary expression'')
           (psBind (recExpr p) (\<lambda>e. psRet (TernaryExpr c t e))))))
         (psRet c))"

definition parseExpr :: "parsers \<Rightarrow> ast pm" where
  "parseExpr p = parseTernary p"

section \<open>Statements\<close>

text \<open>\<open>, expr , expr ...\<close> after a first statement: an unscoped block of them.\<close>

definition commaTail :: "parsers \<Rightarrow> ast \<Rightarrow> ast pm" where
  "commaTail p first =
     psBind (psLoop (psFuel p) (\<lambda>ss.
         psIf (checkText '','') (psSeq advance (psBind (recExpr p) (\<lambda>e. psRet (ss @ [ExprStmt e], True)))) (psRet (ss, False))) [first])
       (\<lambda>ss. psRet (BlockNode (Block ss False)))"

definition parseCommaExprChain :: "parsers \<Rightarrow> ast pm" where
  "parseCommaExprChain p = psBind (recExpr p) (\<lambda>e. psIf (checkText '','') (commaTail p (ExprStmt e)) (psRet e))"

definition continueStatementCommaChain :: "parsers \<Rightarrow> ast \<Rightarrow> ast pm" where
  "continueStatementCommaChain p first = psIf (checkText '','') (commaTail p first) (psRet first)"

definition closeStatement :: "string \<Rightarrow> ast \<Rightarrow> ast pm" where
  "closeStatement ctx a = psSeq (expectText '';'' ctx) (psRet a)"

definition parseReturnStatement :: "parsers \<Rightarrow> ast pm" where
  "parseReturnStatement p =
     psSeq (expectText ''return'' ''return statement'')
       (psBind (psIf (checkText '';'') (psRet None) (psBind (parseCommaExpr p) (\<lambda>e. psRet (Some e)))) (\<lambda>e.
         closeStatement ''return statement'' (ReturnStmt e)))"

definition parseSingleVarDecl :: "parsers \<Rightarrow> string \<Rightarrow> bool \<Rightarrow> ast pm" where
  "parseSingleVarDecl p ty arr =
     psBind (expectName ''variable declaration name'') (\<lambda>n.
       psIf (checkText ''='')
         (psSeq advance (psBind (recExpr p) (\<lambda>e. psRet (VarDeclStmt ty arr n (Some e)))))
         (psRet (VarDeclStmt ty arr n None)))"

definition parseVarDeclStatement :: "parsers \<Rightarrow> ast pm" where
  "parseVarDeclStatement p =
     psBind (parseTypeToken ''variable declaration type'') (\<lambda>(ty, arr).
     psBind (parseSingleVarDecl p ty arr) (\<lambda>first.
       psIf (\<lambda>st. \<not> checkText '','' st) (closeStatement ''variable declaration'' first)
         (psBind (psLoop (psFuel p) (\<lambda>ss.
             psIf (checkText '','')
               (psSeq advance (psBind consumeArrayMarker (\<lambda>arr'. psBind (parseSingleVarDecl p ty arr') (\<lambda>d. psRet (ss @ [d], True)))))
               (psRet (ss, False))) [first])
           (\<lambda>ss. closeStatement ''variable declaration'' (BlockNode (Block ss False))))))"

definition parseAssignStatement :: "parsers \<Rightarrow> ast pm" where
  "parseAssignStatement p =
     psBind (expectName ''assignment target'') (\<lambda>n. psSeq (expectText ''='' ''assignment'')
       (psBind (recExpr p) (\<lambda>v. psBind (continueStatementCommaChain p (AssignStmt n v)) (closeStatement ''assignment statement''))))"

definition parseBranch :: "parsers \<Rightarrow> block pm" where
  "parseBranch p = psIf (checkText ''{'') (recBlock p) (psBind (recStatement p) (\<lambda>s. psRet (Block [s] False)))"

text \<open>\<open>( condition )\<close>\<close>

definition parseCondition :: "parsers \<Rightarrow> string \<Rightarrow> ast pm" where
  "parseCondition p ctx =
     psSeq (expectText ''('' ctx) (psBind (parseCommaExpr p) (\<lambda>c. psSeq (expectText '')'' ctx) (psRet c)))"

definition parseIfStatement :: "parsers \<Rightarrow> ast pm" where
  "parseIfStatement p =
     psSeq (expectText ''if'' ''if statement'')
       (psBind (parseCondition p ''if condition'') (\<lambda>c. psBind (parseBranch p) (\<lambda>t.
         psIf (checkText ''else'') (psSeq advance (psBind (parseBranch p) (\<lambda>e. psRet (IfStmt c t (Some e)))))
           (psRet (IfStmt c t None)))))"

definition parseWhileStatement :: "parsers \<Rightarrow> ast pm" where
  "parseWhileStatement p =
     psSeq (expectText ''while'' ''while statement'')
       (psBind (parseCondition p ''while condition'') (\<lambda>c. psBind (parseBranch p) (\<lambda>b. psRet (WhileStmt c b))))"

definition parseDoWhileStatement :: "parsers \<Rightarrow> ast pm" where
  "parseDoWhileStatement p =
     psSeq (expectText ''do'' ''do-while statement'')
       (psBind (parseBranch p) (\<lambda>b. psSeq (expectText ''while'' ''do-while statement'')
         (psBind (parseCondition p ''do-while condition'') (\<lambda>c. closeStatement ''do-while statement'' (DoWhileStmt c b)))))"

definition optUntil :: "string \<Rightarrow> 'a pm \<Rightarrow> 'a option pm" where
  "optUntil s m = psIf (checkText s) (psRet None) (psBind m (\<lambda>x. psRet (Some x)))"

definition parseForStatement :: "parsers \<Rightarrow> ast pm" where
  "parseForStatement p =
     psSeq (expectText ''for'' ''for statement'') (psSeq (expectText ''('' ''for statement'')
       (psBind (optUntil '';''
           (psIf startsType
             (psBind (parseTypeToken ''for statement init clause'') (\<lambda>(ty, arr). parseSingleVarDecl p ty arr))
             (parseCommaExprChain p))) (\<lambda>ini. psSeq (expectText '';'' ''for statement init clause'')
       (psBind (optUntil '';'' (parseCommaExpr p)) (\<lambda>c. psSeq (expectText '';'' ''for statement condition clause'')
       (psBind (optUntil '')'' (parseCommaExprChain p)) (\<lambda>u. psSeq (expectText '')'' ''for statement update clause'')
         (psBind (parseBranch p) (\<lambda>b. psRet (ForStmt ini c u b))))))))))"

definition parseBreakStatement :: "ast pm" where
  "parseBreakStatement = psSeq (expectText ''break'' ''break statement'') (closeStatement ''break statement'' BreakStmt)"

definition parseContinueStatement :: "ast pm" where
  "parseContinueStatement =
     psSeq (expectText ''continue'' ''continue statement'') (closeStatement ''continue statement'' ContinueStmt)"

text \<open>Name, whether it is declared here, and its class.\<close>

definition parseForeachVar :: "(string \<times> bool \<times> string) pm" where
  "parseForeachVar =
     psIf startsType
       (psBind (parseTypeToken ''foreach variable type'') (\<lambda>(ty, arr).
         psBind (expectName ''foreach variable name'') (\<lambda>n.
           psRet (n, True, if take 6 ty = ''class:'' then drop 6 ty else []))))
       (psBind (expectName ''foreach variable name'') (\<lambda>n. psRet (n, False, [])))"

definition parseForeachStatement :: "parsers \<Rightarrow> ast pm" where
  "parseForeachStatement p =
     psSeq (expectText ''foreach'' ''foreach statement'') (psSeq (expectText ''('' ''foreach statement'')
       (psBind parseForeachVar (\<lambda>(n1, d1, c1).
        psBind (psIf (checkText '','') (psSeq advance (psBind parseForeachVar (\<lambda>v. psRet (Some v)))) (psRet None)) (\<lambda>second.
        psSeq (expectText ''in'' ''foreach statement'') (psBind (recExpr p) (\<lambda>coll.
        psSeq (expectText '')'' ''foreach statement'') (psBind (parseBranch p) (\<lambda>b.
          psRet (ForeachStmt
            (case second of
               None \<Rightarrow> \<lparr>fvName = n1, fvDeclare = d1, fvHasValue = False, fvValueName = [], fvDeclareValue = False,
                         fvClassType = c1, fvValueClassType = []\<rparr>
             | Some (n2, d2, c2) \<Rightarrow> \<lparr>fvName = n1, fvDeclare = d1, fvHasValue = True, fvValueName = n2, fvDeclareValue = d2,
                         fvClassType = c1, fvValueClassType = c2\<rparr>) coll b)))))))))"

definition parseCaseLabel :: "parsers \<Rightarrow> ast pm" where
  "parseCaseLabel p =
     psSeq advance (psBind (recExpr p) (\<lambda>v.
       psBind (psIf (checkText ''..'') (psSeq advance (psBind (recExpr p) (\<lambda>r. psRet (Some r)))) (psRet None)) (\<lambda>r.
         psSeq (expectText '':'' ''case label'') (psRet (CaseLabel (Some v) r)))))"

text \<open>Statements up to the closing brace.\<close>

definition untilBrace :: "nat \<Rightarrow> string \<Rightarrow> ast pm \<Rightarrow> ast list pm" where
  "untilBrace n msg elem =
     psLoop n (\<lambda>ss.
       psIf (checkText ''}'') (psRet (ss, False))
         (psIf atEnd (psThrow (LpcRuntimeError msg)) (psBind elem (\<lambda>s. psRet (ss @ [s], True))))) []"

definition parseSwitchStatement :: "parsers \<Rightarrow> ast pm" where
  "parseSwitchStatement p =
     psSeq (expectText ''switch'' ''switch statement'')
       (psBind (parseCondition p ''switch statement subject'') (\<lambda>subject.
         psSeq (expectText ''{'' ''switch statement body'')
           (psBind (untilBrace (psFuel p) ''parse error: unterminated switch statement''
               (psIf (checkText ''case'') (parseCaseLabel p)
                 (psIf (checkText ''default'')
                   (psSeq advance (psSeq (expectText '':'' ''default label'') (psRet (CaseLabel None None))))
                   (recStatement p)))) (\<lambda>body.
             psSeq (expectText ''}'' ''switch statement body'') (psRet (SwitchStmt subject body))))))"

definition parseBlock :: "parsers \<Rightarrow> block pm" where
  "parseBlock p =
     psSeq (expectText ''{'' ''function body'')
       (psBind (untilBrace (psFuel p) ''parse error: unterminated block'' (recStatement p)) (\<lambda>ss.
         psSeq (expectText ''}'' ''function body'') (psRet (Block ss True))))"

text \<open>An indexed assignment as a statement; when there is none, the position goes back, but not the two stacks of the lambdas.\<close>

definition parseIndexedAssign :: "parsers \<Rightarrow> ast option pm" where
  "parseIndexedAssign p st =
     psBind (parsePostfix p) (\<lambda>e st'.
       (case (e, assignOp st') of
          (IndexExpr t k re fe ree c, Some (cp, b)) \<Rightarrow>
            psSeq advance (psBind (recExpr p) (\<lambda>v.
              psBind (continueStatementCommaChain p (IndexAssignStmt t k v cp b c)) (\<lambda>s.
                psBind (closeStatement ''indexed assignment statement'' s) (\<lambda>x. psRet (Some x))))) st'
        | _ \<Rightarrow> Some (Inr (None, backTo st st')))) st"

definition parseExprStatement :: "parsers \<Rightarrow> ast pm" where
  "parseExprStatement p =
     psBind (parseExpr p) (\<lambda>e. psBind (continueStatementCommaChain p (ExprStmt e)) (closeStatement ''expression statement''))"

definition identThen :: "string list \<Rightarrow> pstate \<Rightarrow> bool" where
  "identThen ss st \<longleftrightarrow> check Ident st \<and> tokType (peekAt 1 st) = SymbolTok \<and> tokText (peekAt 1 st) \<in> set ss"

definition parseStatement :: "parsers \<Rightarrow> ast pm" where
  "parseStatement p =
     psIf (checkText '';'') (psSeq advance (psRet (BlockNode (Block [] True))))
     (psIf (checkText ''{'') (psBind (parseBlock p) (\<lambda>b. psRet (BlockNode b)))
     (psIf (checkText ''if'') (parseIfStatement p)
     (psIf (checkText ''while'') (parseWhileStatement p)
     (psIf (checkText ''do'') (parseDoWhileStatement p)
     (psIf (checkText ''for'') (parseForStatement p)
     (psIf (checkText ''foreach'') (parseForeachStatement p)
     (psIf (checkText ''switch'') (parseSwitchStatement p)
     (psIf (checkText ''return'') (parseReturnStatement p)
     (psIf (checkText ''break'') parseBreakStatement
     (psIf (checkText ''continue'') parseContinueStatement
     (psIf startsType (parseVarDeclStatement p)
     (psIf (identThen [''='']) (parseAssignStatement p)
     (psIf (identThen [''['', ''->''])
        (psBind (parseIndexedAssign p) (\<lambda>r. (case r of Some s \<Rightarrow> psRet s | None \<Rightarrow> parseExprStatement p)))
        (parseExprStatement p))))))))))))))"

section \<open>The knot\<close>

definition parserOver :: "parsers \<Rightarrow> parsers" where
  "parserOver p =
     \<lparr>psFuel = Suc (psFuel p), recExpr = parseExpr p, recUnary = parseUnary p, recStatement = parseStatement p, recBlock = parseBlock p\<rparr>"

primrec parserAt :: "nat \<Rightarrow> parsers" where
  "parserAt 0 = \<lparr>psFuel = 0, recExpr = \<lambda>st. None, recUnary = \<lambda>st. None, recStatement = \<lambda>st. None, recBlock = \<lambda>st. None\<rparr>"
| "parserAt (Suc n) = parserOver (parserAt n)"

lemma psFuel_parserAt [simp]: "psFuel (parserAt n) = n"
  by (induction n) (simp_all add: parserOver_def)

section \<open>Programs\<close>

definition parseFunctionRest :: "parsers \<Rightarrow> DeclPrefix \<Rightarrow> FunctionDecl pm" where
  "parseFunctionRest p pre =
     psSeq (expectText ''('' ''function declaration parameters'')
       (psBind (parseParamList (psFuel p)) (\<lambda>(ps, va). psSeq (expectText '')'' ''function declaration parameters'')
         (psBind (psIf (checkText '';'') (psSeq advance (psRet None)) (psBind (parseBlock p) (\<lambda>b. psRet (Some b)))) (\<lambda>body.
           psRet \<lparr>fdReturnType = dpType pre, fdReturnIsArray = dpIsArray pre, fdName = dpName pre, fdParams = ps,
                  fdIsVarargs = va, fdBody = body\<rparr>))))"

definition objectVarInit :: "parsers \<Rightarrow> ast option pm" where
  "objectVarInit p = psIf (checkText ''='') (psSeq advance (psBind (recExpr p) (\<lambda>e. psRet (Some e)))) (psRet None)"

definition parseObjectVarDeclRest :: "parsers \<Rightarrow> DeclPrefix \<Rightarrow> ObjectVarDecl list pm" where
  "parseObjectVarDeclRest p pre =
     psBind (objectVarInit p) (\<lambda>i1.
       psBind (psLoop (psFuel p) (\<lambda>ds.
           psIf (checkText '','')
             (psSeq advance (psBind consumeArrayMarker (\<lambda>arr.
               psBind (expectName ''object variable declaration name'') (\<lambda>n. psBind (objectVarInit p) (\<lambda>i.
                 psRet (ds @ [\<lparr>ovType = dpType pre, ovIsArray = arr, ovName = n, ovIsPrivate = dpIsPrivate pre, ovInitializer = i\<rparr>], True))))))
             (psRet (ds, False)))
           [\<lparr>ovType = dpType pre, ovIsArray = dpIsArray pre, ovName = dpName pre, ovIsPrivate = dpIsPrivate pre, ovInitializer = i1\<rparr>]) (\<lambda>ds.
         psSeq (expectText '';'' ''object variable declaration'') (psRet ds)))"

text \<open>How many modifier keywords come next; at the end \<^verbatim>\<open>peekAt\<close> goes on reading the last token.\<close>

definition modifiersAhead :: "nat \<Rightarrow> nat pm" where
  "modifiersAhead n =
     psLoop n (\<lambda>k. psIf (\<lambda>st. isModifierKeyword (psDialect st) (peekAt k st)) (psRet (k + 1, True)) (psRet (k, False))) 0"

definition advanceBy :: "nat \<Rightarrow> unit pm" where
  "advanceBy k st = Some (Inr ((), st\<lparr>psRest := drop k (psRest st)\<rparr>))"

definition inheritAhead :: "nat \<Rightarrow> pstate \<Rightarrow> bool" where
  "inheritAhead k st \<longleftrightarrow> 0 < k \<and> tokText (peekAt k st) = ''inherit''"

definition classDeclAhead :: "nat \<Rightarrow> pstate \<Rightarrow> bool" where
  "classDeclAhead k st \<longleftrightarrow>
     psDialect st = FluffOS \<and> tokType (peekAt k st) = Ident \<and> tokText (peekAt k st) = ''class'' \<and>
     tokType (peekAt (k + 1) st) = Ident \<and> tokText (peekAt (k + 2) st) = ''{''"

definition addInherit :: "parsers \<Rightarrow> Program \<Rightarrow> Program pm" where
  "addInherit p prog =
     psBind (parseInheritStatement (psFuel p)) (\<lambda>path. psRet (prog\<lparr>prInherits := prInherits prog @ [path]\<rparr>))"

definition addClass :: "parsers \<Rightarrow> Program \<Rightarrow> Program pm" where
  "addClass p prog = psBind (parseClassDecl (psFuel p)) (\<lambda>c. psRet (prog\<lparr>prClasses := prClasses prog @ [c]\<rparr>))"

definition addDeclaration :: "parsers \<Rightarrow> Program \<Rightarrow> Program pm" where
  "addDeclaration p prog =
     psBind (parseDeclPrefix (psFuel p) ''top-level declaration'') (\<lambda>pre.
       psIf (checkText ''('')
         (psBind (parseFunctionRest p pre) (\<lambda>f. psRet (prog\<lparr>prFunctions := prFunctions prog @ [f]\<rparr>)))
         (psBind (parseObjectVarDeclRest p pre) (\<lambda>ds. psRet (prog\<lparr>prObjectVars := prObjectVars prog @ ds\<rparr>))))"

definition parseTopLevel :: "parsers \<Rightarrow> Program \<Rightarrow> Program pm" where
  "parseTopLevel p prog =
     psIf (checkText ''inherit'') (addInherit p prog)
       (psBind (modifiersAhead (psFuel p)) (\<lambda>k.
         psIf (inheritAhead k) (psSeq (advanceBy k) (addInherit p prog))
         (psIf (classDeclAhead k) (psSeq (advanceBy (k + 1)) (addClass p prog))
           (addDeclaration p prog))))"

definition parseProgram :: "parsers \<Rightarrow> Program pm" where
  "parseProgram p =
     psLoop (psFuel p) (\<lambda>prog. psIf atEnd (psRet (prog, False)) (psBind (parseTopLevel p prog) (\<lambda>q. psRet (q, True))))
       \<lparr>prFunctions = [], prObjectVars = [], prInherits = [], prClasses = []\<rparr>"

definition newParser :: "token list \<Rightarrow> LpcDialect \<Rightarrow> pstate" where
  "newParser toks d =
     \<lparr>psRest = toks, psLast = (case toks of [] \<Rightarrow> mkTok EndTok [] 0 | _ \<Rightarrow> last toks), psDialect = d,
      lambdaParamMaxStack = [], lambdaBoundValuesStack = []\<rparr>"

definition parseTokens :: "nat \<Rightarrow> token list \<Rightarrow> LpcDialect \<Rightarrow> Program res option" where
  "parseTokens n toks d = map_option (map_sum id fst) (parseProgram (parserAt n) (newParser toks d))"

end
