(* ===== verification/Parser_Ends.thy ===== *)
theory Parser_Ends
  imports Parser
begin

text \<open>
  The parser ends on every token list that ends with a token that is no keyword, as the lexer's lists do: with more fuel than tokens no loop and no call runs out. The proof is a calculus of steps
  that says which of them consume a token; a locale holds what one level of the knot may assume about the next.
\<close>

section \<open>Consuming steps\<close>

definition tokensLeft :: "pstate \<Rightarrow> nat" where
  "tokensLeft st = length (psRest st)"

text \<open>
  Started with less than \<open>n\<close> tokens in a state that satisfies \<open>P\<close>, the step ends, keeps the last token and leaves no more tokens
  than before; when its value satisfies \<open>q\<close>, it leaves fewer.
\<close>

definition ends :: "(pstate \<Rightarrow> bool) \<Rightarrow> ('a \<Rightarrow> bool) \<Rightarrow> nat \<Rightarrow> 'a pm \<Rightarrow> bool" where
  "ends P q n m \<longleftrightarrow>
     (\<forall>st. P st \<longrightarrow> tokType (psLast st) \<noteq> Keyword \<and> tokensLeft st < n \<longrightarrow>
        (\<exists>r. m st = Some r \<and>
           (\<forall>x st'. r = Inr (x, st') \<longrightarrow> psLast st' = psLast st \<and> tokensLeft st' \<le> tokensLeft st \<and> (q x \<longrightarrow> tokensLeft st' < tokensLeft st))))"

abbreviation "anyState \<equiv> \<lambda>_::pstate. True"
abbreviation "eats \<equiv> ends anyState (\<lambda>_. True)"
abbreviation "stays \<equiv> ends anyState (\<lambda>_. False)"


lemma ends_weaken: "ends P q n m \<Longrightarrow> (\<And>st. P' st \<Longrightarrow> P st) \<Longrightarrow> (\<And>x. q' x \<Longrightarrow> q x) \<Longrightarrow> k \<le> n \<Longrightarrow> ends P' q' k m"
  unfolding ends_def by (meson order_less_le_trans)

lemma ends_ret: "\<not> q x \<Longrightarrow> ends P q n (psRet x)"
  by (simp add: ends_def psRet_def)

lemma ends_throw: "ends P q n (psThrow e)" "ends P q n (\<lambda>st. psThrow (f st) st)"
  by (simp_all add: ends_def psThrow_def)

lemma ends_lift: "\<not> q (projr r) \<Longrightarrow> ends P q n (psLift r)"
  by (cases r) (simp_all add: ends_def psLift_def)

lemma ends_bind:
  assumes "ends P q1 n m" "\<And>x. q1 x \<Longrightarrow> stays (n - 1) (f x)" "\<And>x. \<not> q1 x \<Longrightarrow> ends anyState q n (f x)"
  shows "ends P q n (psBind m f)"
  unfolding ends_def
proof (intro allI impI)
  fix st assume st: "P st" "tokType (psLast st) \<noteq> Keyword \<and> tokensLeft st < n"
  then obtain r where r: "m st = Some r"
    "\<And>x st'. r = Inr (x, st') \<Longrightarrow> psLast st' = psLast st \<and> tokensLeft st' \<le> tokensLeft st \<and> (q1 x \<longrightarrow> tokensLeft st' < tokensLeft st)"
    using assms(1) unfolding ends_def by blast
  show "\<exists>r. psBind m f st = Some r \<and>
      (\<forall>x st'. r = Inr (x, st') \<longrightarrow> psLast st' = psLast st \<and> tokensLeft st' \<le> tokensLeft st \<and> (q x \<longrightarrow> tokensLeft st' < tokensLeft st))"
  proof (cases r)
    case (Inl e)
    then show ?thesis using r by (simp add: psBind_def)
  next
    case (Inr xs)
    obtain x st1 where x: "r = Inr (x, st1)" using Inr by (cases xs) auto
    have b: "psBind m f st = f x st1" using r(1) x by (simp add: psBind_def)
    show ?thesis
    proof (cases "q1 x")
      case True
      then have "psLast st1 = psLast st" "tokensLeft st1 < n - 1" "tokensLeft st1 < tokensLeft st" using r(2)[OF x] st(2) by auto
      then show ?thesis using assms(2)[OF True, unfolded ends_def, rule_format, of st1] b st(2) by fastforce
    next
      case False
      then have "psLast st1 = psLast st" "tokensLeft st1 < n" "tokensLeft st1 \<le> tokensLeft st" using r(2)[OF x] st(2) by auto
      then show ?thesis using assms(3)[OF False, unfolded ends_def, rule_format, of st1] b st(2) by fastforce
    qed
  qed
qed

lemma ends_eat_bind: "ends P (\<lambda>_. True) n m \<Longrightarrow> (\<And>x. stays (n - 1) (f x)) \<Longrightarrow> ends P q n (psBind m f)"
  by (rule ends_bind[where ?q1.0 = "\<lambda>_. True"]) auto

lemma ends_stay_bind: "ends P (\<lambda>_. False) n m \<Longrightarrow> (\<And>x. ends anyState q n (f x)) \<Longrightarrow> ends P q n (psBind m f)"
  by (rule ends_bind[where ?q1.0 = "\<lambda>_. False"]) auto

lemma ends_if: "ends (\<lambda>st. P st \<and> c st) q n a \<Longrightarrow> ends (\<lambda>st. P st \<and> \<not> c st) q n b \<Longrightarrow> ends P q n (psIf c a b)"
  by (simp add: ends_def psIf_def)

lemma ends_loop:
  assumes "\<And>x. ends anyState snd n (body x)" "n \<le> k"
  shows "ends P (\<lambda>_. False) n (psLoop k body x)"
  using assms
proof (induction k arbitrary: n x P)
  case 0
  then show ?case by (simp add: ends_def)
next
  case (Suc k)
  have "ends P snd n (body x)" using Suc.prems(1)[of x] by (rule ends_weaken) auto
  moreover have "stays (n - 1) (if again then psLoop k body y else psRet y)" for y again
  proof -
    have "stays (n - 1) (psLoop k body y)"
      by (rule Suc.IH, rule ends_weaken[OF Suc.prems(1)]) (use Suc.prems(2) in auto)
    then show ?thesis by (simp add: ends_ret)
  qed
  ultimately show ?case
    by (simp, intro ends_bind[where ?q1.0 = snd]) (auto simp: ends_ret split: prod.splits elim: back_subst)
qed

section \<open>Token access\<close>

lemma not_atEnd: "\<not> atEnd st \<Longrightarrow> psRest st \<noteq> []"
  by (auto simp: atEnd_def)

lemma check_not_atEnd [simp, dest]: "check ty st \<Longrightarrow> \<not> atEnd st"
  by (simp add: check_def)

lemma checkText_not_atEnd [simp, dest]: "checkText s st \<Longrightarrow> \<not> atEnd st"
  by (simp add: checkText_def)

lemma ends_advance: "(\<And>st. P st \<Longrightarrow> \<not> atEnd st) \<Longrightarrow> ends P q n advance"
  unfolding ends_def advance_def tokensLeft_def using not_atEnd by fastforce

lemma stays_advance: "ends P (\<lambda>_. False) n advance"
  by (simp add: ends_def advance_def tokensLeft_def)

lemma ends_expect: "ends P q n (expect ty ctx)" "ends P q n (expectText s ctx)"
  by (auto simp: expect_def expectText_def intro!: ends_if ends_advance ends_throw)

lemma ends_expectName: "ends P q n (expectName ctx)"
  unfolding expectName_def by (rule ends_eat_bind[OF ends_expect(1)]) (simp add: ends_ret)

lemma ends_advanceText: "(\<And>st. P st \<Longrightarrow> \<not> atEnd st) \<Longrightarrow> ends P q n advanceText"
  unfolding advanceText_def by (rule ends_eat_bind[OF ends_advance]) (auto intro: ends_ret)

lemma stays_advanceText: "ends P (\<lambda>_. False) n advanceText"
  unfolding advanceText_def by (rule ends_stay_bind[OF stays_advance]) (auto intro: ends_ret)

lemma ends_seq: "ends P (\<lambda>_. True) n m \<Longrightarrow> stays (n - 1) k \<Longrightarrow> ends P q n (psSeq m k)"
  unfolding psSeq_def by (rule ends_eat_bind)

lemma stays_seq: "ends P (\<lambda>_. False) n m \<Longrightarrow> ends anyState q n k \<Longrightarrow> ends P q n (psSeq m k)"
  unfolding psSeq_def by (rule ends_stay_bind)

lemmas ends_rules =
  ends_if ends_loop ends_throw ends_ret ends_lift
  ends_seq[OF ends_expect(1)] ends_seq[OF ends_expect(2)] ends_seq[OF ends_advance] stays_seq[OF stays_advance]
  ends_eat_bind[OF ends_expect(1)] ends_eat_bind[OF ends_expectName] ends_eat_bind[OF ends_advanceText] ends_stay_bind[OF stays_advanceText]
  ends_expect ends_expectName ends_advanceText

lemma ends_commaList:
  assumes "n \<le> k" "ends anyState (\<lambda>_. False) n elem"
  shows "ends P (\<lambda>_. False) n (commaList k close elem)"
  unfolding commaList_def by (rule ends_rules ends_stay_bind[OF assms(2)] | simp add: assms)+

section \<open>Types, parameters, declarations\<close>

lemma ends_arrayMarker: "ends P (\<lambda>_. False) n consumeArrayMarker"
  unfolding consumeArrayMarker_def by (rule ends_rules | auto simp: isArrayWord_def)+

lemma startsClassType_not_atEnd [simp, dest]: "startsClassType st \<Longrightarrow> \<not> atEnd st"
  by (auto simp: startsClassType_def)

lemma isArrayWord_not_atEnd [simp, dest]: "isArrayWord st \<Longrightarrow> \<not> atEnd st"
  by (auto simp: isArrayWord_def)

lemma ends_typeToken: "ends P q n (parseTypeToken ctx)"
  unfolding parseTypeToken_def by (rule ends_rules ends_stay_bind[OF ends_arrayMarker] | auto)+

lemma ends_param: "ends P q n parseParam"
  unfolding parseParam_def by (rule ends_rules ends_eat_bind[OF ends_typeToken] | auto split: prod.split)+

lemma ends_paramList: "n \<le> k \<Longrightarrow> ends P (\<lambda>_. False) n (parseParamList k)"
  unfolding parseParamList_def by (rule ends_rules ends_stay_bind[OF ends_commaList] ends_param | auto)+

lemma ends_modifiers: "n \<le> k \<Longrightarrow> ends P (\<lambda>_. False) n (parseModifiers k)"
  unfolding parseModifiers_def by (rule ends_rules | auto)+

lemma ends_declPrefix: "n \<le> k \<Longrightarrow> ends P q n (parseDeclPrefix k ctx)"
  unfolding parseDeclPrefix_def
  by (rule ends_rules ends_stay_bind[OF ends_modifiers] ends_stay_bind ends_stay_bind[OF ends_arrayMarker] | auto split: prod.split)+

lemma ends_classMembers: "n \<le> Suc k \<Longrightarrow> ends P q n (parseClassMembers k)"
  unfolding parseClassMembers_def
  by (rule ends_rules ends_seq[OF ends_typeToken] ends_stay_bind[OF ends_commaList] stays_seq[OF ends_arrayMarker] | auto)+

lemma ends_classDecl: "n \<le> Suc k \<Longrightarrow> ends P q n (parseClassDecl k)"
  unfolding parseClassDecl_def
  by (rule ends_rules ends_stay_bind[OF ends_loop] ends_eat_bind[OF ends_classMembers] | auto)+

lemma ends_inheritPath: "n \<le> Suc k \<Longrightarrow> ends P q n (parseInheritPathString k)"
  unfolding parseInheritPathString_def by (rule ends_rules | auto)+

lemma ends_inherit: "n \<le> k \<Longrightarrow> ends P q n (parseInheritStatement k)"
  unfolding parseInheritStatement_def by (rule ends_rules ends_eat_bind[OF ends_inheritPath] | auto)+

section \<open>One level of the knot\<close>

text \<open>
  The functions of one level, when the next level ends on fewer tokens. The bound of the loops is the number of tokens.
\<close>

locale parser_level =
  fixes p :: parsers and n :: nat
  assumes fuel: "psFuel p = n"
    and expr: "m \<le> n - 1 \<Longrightarrow> ends P q1 m (recExpr p)"
    and unary: "m \<le> n - 1 \<Longrightarrow> ends P q1 m (recUnary p)"
    and statement: "m \<le> n - 1 \<Longrightarrow> ends P q1 m (recStatement p)"
    and blk: "m \<le> n - 1 \<Longrightarrow> ends P q2 m (recBlock p)"
begin

lemmas level = fuel expr unary statement blk ends_eat_bind[OF expr] ends_eat_bind[OF unary] ends_eat_bind[OF statement]
  ends_eat_bind[OF blk]

lemma spreadElem: "m \<le> n - 1 \<Longrightarrow> ends P q m (spreadElem p)"
  unfolding spreadElem_def by (rule ends_rules ends_eat_bind[OF expr] | auto)+

lemma argList: "m \<le> n - 1 \<Longrightarrow> ends P (\<lambda>_. False) m (parseArgList p)"
  unfolding parseArgList_def fuel
  by (rule ends_rules ends_stay_bind[OF ends_commaList] spreadElem | auto)+

lemma commaExpr: "m \<le> n - 1 \<Longrightarrow> ends P q m (parseCommaExpr p)"
  unfolding parseCommaExpr_def fuel by (rule ends_rules ends_eat_bind[OF expr] | auto)+

lemma callArgs: "m \<le> n \<Longrightarrow> ends P q m (callArgs p ctx)"
  unfolding callArgs_def by (rule ends_rules ends_stay_bind[OF argList] | auto)+

lemma qualifiedCall: "m \<le> n \<Longrightarrow> ends P (\<lambda>_. False) m (parseQualifiedParentCall p c)"
  unfolding parseQualifiedParentCall_def by (rule ends_rules ends_eat_bind[OF callArgs] | auto split: prod.split)+

end

text \<open>Steps that only touch the stacks of the lambdas.\<close>

lemma ends_stacks:
  "ends P (\<lambda>_. False) n (pushBoundValue e)" "ends P (\<lambda>_. False) n openLambda" "ends P (\<lambda>_. False) n takeLambda"
  "ends P (\<lambda>_. False) n (noteParam i)"
  by (auto simp: ends_def tokensLeft_def pushBoundValue_def openLambda_def takeLambda_def noteParam_def split: list.split)

lemma ends_closeClosure: "ends P q n (closeClosure a)"
  unfolding closeClosure_def by (rule ends_rules | auto)+

lemma ends_hashQuote: "(\<And>st. P st \<Longrightarrow> \<not> atEnd st) \<Longrightarrow> ends P q n parseHashQuote"
  unfolding parseHashQuote_def by (rule ends_rules | auto)+

lemma ends_number: "(\<And>st. P st \<Longrightarrow> \<not> atEnd st) \<Longrightarrow> ends P q n parseNumberLiteral"
  unfolding parseNumberLiteral_def by (rule ends_rules | auto)+

lemma ends_lambdaParam: "ends P (\<lambda>_. False) n (parseLambdaParam name)"
  unfolding parseLambdaParam_def by (rule ends_rules ends_stay_bind[OF ends_lift] stays_seq[OF ends_stacks(4)] | auto)+

lemma nextIs_not_atEnd [dest]: "nextIs a b st \<Longrightarrow> \<not> atEnd st"
  by (auto simp: nextIs_def)

context parser_level
begin

lemma stringLiteral: "(\<And>st. P st \<Longrightarrow> \<not> atEnd st) \<Longrightarrow> m \<le> n \<Longrightarrow> ends P q m (parseStringLiteral p)"
  unfolding parseStringLiteral_def fuel by (rule ends_rules ends_stay_bind[OF ends_loop] | auto)+

lemma boundValue: "(\<And>st. P st \<Longrightarrow> \<not> atEnd st) \<Longrightarrow> m \<le> n \<Longrightarrow> ends P q m (parseBoundValue p)"
  unfolding parseBoundValue_def by (rule ends_rules ends_eat_bind[OF commaExpr] ends_stay_bind[OF ends_stacks(1)] | auto)+

lemma mappingEntry: "m \<le> n - 1 \<Longrightarrow> ends P q m (mappingEntry p)"
  unfolding mappingEntry_def fuel by (rule ends_rules ends_eat_bind[OF expr] ends_stay_bind[OF ends_loop] | auto)+

lemma mappingEntries: "m \<le> n - 1 \<Longrightarrow> ends P (\<lambda>_. False) m (mappingEntries p)"
  unfolding mappingEntries_def fuel by (rule ends_rules ends_eat_bind[OF mappingEntry] | auto)+

lemma mappingLiteral: "(\<And>st. P st \<Longrightarrow> \<not> atEnd st) \<Longrightarrow> m \<le> n \<Longrightarrow> ends P q m (parseMappingLiteral p)"
  unfolding parseMappingLiteral_def by (rule ends_rules ends_stay_bind[OF ends_if] mappingEntries | auto)+

lemma bareClosure: "(\<And>st. P st \<Longrightarrow> \<not> atEnd st) \<Longrightarrow> m \<le> n \<Longrightarrow> ends P q m (parseBareClosure p)"
  unfolding parseBareClosure_def fuel
  by (rule ends_rules ends_stay_bind[OF ends_if] ends_commaList expr ends_closeClosure | auto)+

lemma inlineLambda: "(\<And>st. P st \<Longrightarrow> \<not> atEnd st) \<Longrightarrow> m \<le> n \<Longrightarrow> ends P q m (parseInlineLambda p)"
  unfolding parseInlineLambda_def fuel
  by (rule ends_rules stays_seq[OF ends_stacks(2)] ends_stay_bind[OF ends_commaList] ends_stay_bind[OF ends_stacks(3)] expr ends_closeClosure
      | auto split: prod.split)+

lemma anonFunction: "(\<And>st. P st \<Longrightarrow> \<not> atEnd st) \<Longrightarrow> m \<le> n \<Longrightarrow> ends P q m (parseAnonFunction p)"
  unfolding parseAnonFunction_def fuel
  by (rule ends_rules ends_stay_bind[OF ends_paramList] ends_eat_bind[OF blk] | auto split: prod.split)+

lemma pointerCall: "(\<And>st. P st \<Longrightarrow> \<not> atEnd st) \<Longrightarrow> m \<le> n \<Longrightarrow> ends P q m (parsePointerCall p)"
  unfolding parsePointerCall_def by (rule ends_rules ends_eat_bind[OF expr] ends_eat_bind[OF callArgs] | auto split: prod.split)+

lemma arrayLiteral: "(\<And>st. P st \<Longrightarrow> \<not> atEnd st) \<Longrightarrow> m \<le> n \<Longrightarrow> ends P q m (parseArrayLiteral p)"
  unfolding parseArrayLiteral_def fuel by (rule ends_rules ends_stay_bind[OF ends_if] ends_commaList spreadElem | auto)+

lemma parenthesized: "(\<And>st. P st \<Longrightarrow> \<not> atEnd st) \<Longrightarrow> m \<le> n \<Longrightarrow> ends P q m (parseParenthesized p)"
  unfolding parseParenthesized_def by (rule ends_rules ends_eat_bind[OF commaExpr] | auto)+

lemma parentCall: "(\<And>st. P st \<Longrightarrow> \<not> atEnd st) \<Longrightarrow> m \<le> n \<Longrightarrow> ends P q m (parseParentCall p)"
  unfolding parseParentCall_def by (rule ends_rules ends_eat_bind[OF callArgs] | auto split: prod.split)+

lemma fieldInit: "m \<le> n - 1 \<Longrightarrow> ends P q m (fieldInit p)"
  unfolding fieldInit_def by (rule ends_rules ends_eat_bind[OF expr] | auto)+

lemma newClass: "m \<le> n - 1 \<Longrightarrow> ends P (\<lambda>_. False) m (parseNewClass p)"
  unfolding parseNewClass_def fuel by (rule ends_rules ends_stay_bind[OF ends_if] ends_commaList fieldInit | auto)+

lemma efunCall: "m \<le> n - 1 \<Longrightarrow> ends P (\<lambda>_. False) m (parseEfunCall p)"
  unfolding parseEfunCall_def by (rule ends_rules ends_eat_bind[OF callArgs] | auto split: prod.split)+

lemma catchExpr: "m \<le> n - 1 \<Longrightarrow> ends P (\<lambda>_. False) m (parseCatch p)"
  unfolding parseCatch_def by (rule ends_rules ends_eat_bind[OF commaExpr] | auto)+

lemma namedCall: "m \<le> n - 1 \<Longrightarrow> ends P (\<lambda>_. False) m (parseNamedCall p name)"
  unfolding parseNamedCall_def
  by (rule stays_seq[OF stays_advance], rule ends_stay_bind[OF argList]) (auto split: prod.split intro!: ends_rules)

lemma identExpr: "(\<And>st. P st \<Longrightarrow> \<not> atEnd st) \<Longrightarrow> m \<le> n \<Longrightarrow> ends P q m (parseIdentifier p)"
  unfolding parseIdentifier_def
  by (rule ends_rules ends_lambdaParam newClass efunCall qualifiedCall catchExpr namedCall ends_eat_bind[OF blk] | auto)+

lemma primary: "m \<le> n \<Longrightarrow> ends P q m (parsePrimary p)"
  unfolding parsePrimary_def
  by (rule ends_rules stringLiteral ends_number boundValue mappingLiteral ends_hashQuote bareClosure inlineLambda anonFunction
      ends_eat_bind[OF ends_advanceText qualifiedCall] pointerCall arrayLiteral parenthesized parentCall identExpr | auto)+

end

section \<open>Postfix, unary and binary operators\<close>

text \<open>A step that looks at the state first.\<close>

lemma ends_pointwise: "(\<And>st. P st \<Longrightarrow> \<exists>g. f st = g st \<and> ends (\<lambda>s. s = st) q n g) \<Longrightarrow> ends P q n f"
  unfolding ends_def by metis

lemma assignOp_not_atEnd: "assignOp st = Some x \<Longrightarrow> \<not> atEnd st"
  by (auto simp: assignOp_def find_Some_iff split: if_splits option.splits)

lemma ends_typeCast: "ends P (\<lambda>b. b) n typeCast"
  unfolding ends_def typeCast_def
  by (auto simp: psSeq_def psBind_def advance_def psIf_def psRet_def tokensLeft_def backTo_def dest!: not_atEnd split: if_splits)

lemma ends_classCast: "ends P (\<lambda>c. c \<noteq> None) n classCast"
  unfolding ends_def classCast_def
  by (auto simp: psSeq_def psBind_def advance_def advanceText_def psIf_def psRet_def tokensLeft_def backTo_def dest!: not_atEnd split: if_splits)

lemma ends_fromEnd: "ends P (\<lambda>_. False) n fromEnd"
  unfolding fromEnd_def by (rule ends_rules | auto)+

lemma ends_postfixIncDec: "ends P (\<lambda>_. False) n (postfixIncDec e)"
  by (auto simp: ends_def postfixIncDec_def psSeq_def psBind_def psIf_def psRet_def psThrow_def advance_def tokensLeft_def split: option.splits)

context parser_level
begin

lemma arrow: "(\<And>st. P st \<Longrightarrow> \<not> atEnd st) \<Longrightarrow> m \<le> n \<Longrightarrow> ends P q m (parseArrow p e)"
  unfolding parseArrow_def by (rule ends_rules ends_eat_bind[OF callArgs] | auto split: prod.split)+

lemma rangeEnd: "m \<le> n - 1 \<Longrightarrow> ends P (\<lambda>_. False) m (parseRangeEnd p)"
  unfolding parseRangeEnd_def by (rule ends_rules ends_stay_bind[OF ends_fromEnd] ends_eat_bind[OF expr] | auto)+

lemma index: "(\<And>st. P st \<Longrightarrow> \<not> atEnd st) \<Longrightarrow> m \<le> n \<Longrightarrow> ends P q m (parseIndex p e)"
  unfolding parseIndex_def
  by (rule ends_rules ends_stay_bind[OF ends_fromEnd] ends_stay_bind[OF ends_if] ends_stay_bind[OF rangeEnd] ends_eat_bind[OF expr]
      expr commaExpr | auto split: prod.split)+

lemma postfix: "m \<le> n \<Longrightarrow> ends P q m (parsePostfix p)"
  unfolding parsePostfix_def fuel
  by (rule ends_rules ends_eat_bind[OF primary] ends_stay_bind[OF ends_loop] ends_eat_bind[OF arrow] ends_eat_bind[OF index]
      ends_postfixIncDec | auto)+

lemma assignTo: "(\<And>st. P st \<Longrightarrow> \<not> atEnd st) \<Longrightarrow> m \<le> n \<Longrightarrow> ends P q m (assignTo p e cp b)"
  unfolding assignTo_def
  by (auto split: ast.split option.split intro!: ends_throw ends_seq[OF ends_advance] ends_eat_bind[OF expr] ends_ret)

lemma operand: "m \<le> n \<Longrightarrow> ends P q m (parseOperand p)"
  unfolding parseOperand_def
proof (rule ends_eat_bind[OF postfix], assumption)
  fix e assume m: "m \<le> n"
  show "stays (m - 1) (\<lambda>st. case assignOp st of None \<Rightarrow> psRet e st | Some (cp, b) \<Rightarrow> assignTo p e cp b st)"
  proof (rule ends_pointwise)
    fix st
    show "\<exists>g. (case assignOp st of None \<Rightarrow> psRet e st | Some (cp, b) \<Rightarrow> assignTo p e cp b st) = g st \<and>
        ends (\<lambda>s. s = st) (\<lambda>_. False) (m - 1) g"
    proof (cases "assignOp st")
      case None
      then show ?thesis by (intro exI[of _ "psRet e"]) (simp add: ends_ret)
    next
      case (Some x)
      obtain cp b where x: "x = (cp, b)" by (cases x)
      have "ends (\<lambda>s. s = st) (\<lambda>_. False) (m - 1) (assignTo p e cp b)"
        using assignOp_not_atEnd[OF Some] m by (intro assignTo) auto
      then show ?thesis using Some x by (intro exI[of _ "assignTo p e cp b"]) simp
    qed
  qed
qed

lemma prefixIncDec: "(\<And>st. P st \<Longrightarrow> \<not> atEnd st) \<Longrightarrow> m \<le> n \<Longrightarrow> ends P q m (prefixIncDec p d)"
  unfolding prefixIncDec_def
  by (auto split: option.split intro!: ends_throw ends_seq[OF ends_advance] ends_eat_bind[OF unary] ends_ret)

end

lemma ends_find_op:
  assumes "\<And>s b. (s, b) \<in> set ops \<Longrightarrow> ends (\<lambda>st. P st \<and> checkText s st) q n (A s b)" "ends P q n B"
  shows "ends P q n (\<lambda>st. case find (\<lambda>(s, b). checkText s st) ops of None \<Rightarrow> B st | Some (s, b) \<Rightarrow> A s b st)"
proof (rule ends_pointwise)
  fix st assume P: "P st"
  show "\<exists>g. (case find (\<lambda>(s, b). checkText s st) ops of None \<Rightarrow> B st | Some (s, b) \<Rightarrow> A s b st) = g st \<and> ends (\<lambda>s. s = st) q n g"
  proof (cases "find (\<lambda>(s, b). checkText s st) ops")
    case None
    have "ends (\<lambda>s. s = st) q n B" using assms(2) by (rule ends_weaken) (use P in auto)
    then show ?thesis using None by (intro exI[of _ B]) simp
  next
    case (Some x)
    obtain s b where x: "x = (s, b)" by (cases x)
    then have "(s, b) \<in> set ops" "checkText s st" using Some by (auto simp: find_Some_iff) (metis nth_mem)
    with assms(1) have "ends (\<lambda>s. s = st) q n (A s b)" by (blast intro: ends_weaken[OF _ _ _ order_refl] P)
    then show ?thesis using Some x by (intro exI[of _ "A s b"]) simp
  qed
qed

lemma ends_binaryLevel:
  assumes "n \<le> k" "\<And>P q m. m \<le> n \<Longrightarrow> ends P q m next"
  shows "ends P q n (binaryLevel k ops next)"
  unfolding binaryLevel_def
proof (rule ends_eat_bind[OF assms(2)], simp, rule ends_loop)
  fix left
  show "ends anyState snd (n - 1) (\<lambda>st. case find (\<lambda>(s, b). checkText s st) ops of None \<Rightarrow> psRet (left, False) st
      | Some (s, b) \<Rightarrow> psSeq advance (psBind next (\<lambda>right. psRet (BinaryExpr b left right, True))) st)"
    by (rule ends_find_op) (auto intro!: ends_ret ends_seq[OF ends_advance] ends_eat_bind[OF assms(2)])
qed (use assms(1) in simp)

context parser_level
begin

lemma prefixed: "m \<le> n \<Longrightarrow> ends P q m (parsePrefixed p)"
  unfolding parsePrefixed_def by (rule ends_rules ends_eat_bind[OF unary] prefixIncDec operand | auto)+

lemma classCasted: "m \<le> n \<Longrightarrow> ends P q m (parseClassCast p)"
  unfolding parseClassCast_def
  by (rule ends_bind[OF ends_classCast]) (auto split: prod.split option.split intro!: ends_eat_bind[OF unary] ends_ret prefixed)

lemma unaryLevel: "m \<le> n \<Longrightarrow> ends P q m (parseUnary p)"
  unfolding parseUnary_def by (rule ends_bind[OF ends_typeCast]) (auto intro: unary classCasted)

lemma multiplicativeLevel: "m \<le> n \<Longrightarrow> ends P q m (parseMultiplicative p)"
  unfolding parseMultiplicative_def fuel by (rule ends_binaryLevel) (auto intro: unaryLevel)

lemma additiveLevel: "m \<le> n \<Longrightarrow> ends P q m (parseAdditive p)"
  unfolding parseAdditive_def fuel by (rule ends_binaryLevel) (auto intro: multiplicativeLevel)

lemma shiftLevel: "m \<le> n \<Longrightarrow> ends P q m (parseShift p)"
  unfolding parseShift_def fuel by (rule ends_binaryLevel) (auto intro: additiveLevel)

lemma comparisonLevel: "m \<le> n \<Longrightarrow> ends P q m (parseComparison p)"
  unfolding parseComparison_def fuel by (rule ends_binaryLevel) (auto intro: shiftLevel)

lemma equalityLevel: "m \<le> n \<Longrightarrow> ends P q m (parseEquality p)"
  unfolding parseEquality_def fuel by (rule ends_binaryLevel) (auto intro: comparisonLevel)

lemma bitAndLevel: "m \<le> n \<Longrightarrow> ends P q m (parseBitAnd p)"
  unfolding parseBitAnd_def fuel by (rule ends_binaryLevel) (auto intro: equalityLevel)

lemma bitXorLevel: "m \<le> n \<Longrightarrow> ends P q m (parseBitXor p)"
  unfolding parseBitXor_def fuel by (rule ends_binaryLevel) (auto intro: bitAndLevel)

lemma bitOrLevel: "m \<le> n \<Longrightarrow> ends P q m (parseBitOr p)"
  unfolding parseBitOr_def fuel by (rule ends_binaryLevel) (auto intro: bitXorLevel)

lemma logicalAndLevel: "m \<le> n \<Longrightarrow> ends P q m (parseLogicalAnd p)"
  unfolding parseLogicalAnd_def fuel by (rule ends_binaryLevel) (auto intro: bitOrLevel)

lemma logicalOrLevel: "m \<le> n \<Longrightarrow> ends P q m (parseLogicalOr p)"
  unfolding parseLogicalOr_def fuel by (rule ends_binaryLevel) (auto intro: logicalAndLevel)

lemma exprLevel: "m \<le> n \<Longrightarrow> ends P q m (parseExpr p)"
  unfolding parseExpr_def parseTernary_def by (rule ends_rules ends_eat_bind[OF logicalOrLevel] ends_eat_bind[OF expr] | auto)+

end

section \<open>Statements\<close>

lemma ends_closeStatement: "ends P q n (closeStatement ctx a)"
  unfolding closeStatement_def by (rule ends_rules | auto)+

lemma ends_break: "ends P q n parseBreakStatement" "ends P q n parseContinueStatement"
  unfolding parseBreakStatement_def parseContinueStatement_def by (rule ends_rules ends_closeStatement | auto)+

lemma ends_foreachVar: "ends P q n parseForeachVar"
  unfolding parseForeachVar_def by (rule ends_rules ends_eat_bind[OF ends_typeToken] | auto split: prod.split)+

lemma ends_optUntil: "ends anyState (\<lambda>_. False) n m \<Longrightarrow> ends P (\<lambda>_. False) n (optUntil s m)"
  unfolding optUntil_def by (rule ends_rules ends_stay_bind | auto elim: ends_weaken)+

lemma ends_untilBrace:
  assumes "n \<le> k" "\<And>P. ends P (\<lambda>_. True) n elem"
  shows "ends P (\<lambda>_. False) n (untilBrace k msg elem)"
  unfolding untilBrace_def by (rule ends_rules ends_eat_bind[OF assms(2)] | auto simp: assms(1))+

context parser_level
begin

lemma commaTailLevel: "m \<le> n - 1 \<Longrightarrow> ends P (\<lambda>_. False) m (commaTail p a)"
  unfolding commaTail_def fuel by (rule ends_stay_bind[OF ends_loop] ends_rules ends_eat_bind[OF expr] | auto)+

lemma commaChain: "m \<le> n - 1 \<Longrightarrow> ends P (\<lambda>_. False) m (parseCommaExprChain p)"
  unfolding parseCommaExprChain_def by (rule ends_rules ends_eat_bind[OF expr] commaTailLevel | auto)+

lemma continueChain: "m \<le> n - 1 \<Longrightarrow> ends P (\<lambda>_. False) m (continueStatementCommaChain p a)"
  unfolding continueStatementCommaChain_def by (rule ends_rules commaTailLevel | auto)+

lemma returnStatement: "m \<le> n \<Longrightarrow> ends P q m (parseReturnStatement p)"
  unfolding parseReturnStatement_def
  by (rule ends_rules ends_stay_bind[OF ends_if] ends_eat_bind[OF commaExpr] ends_closeStatement | auto)+

lemma singleVarDecl: "m \<le> n \<Longrightarrow> ends P q m (parseSingleVarDecl p ty arr)"
  unfolding parseSingleVarDecl_def by (rule ends_rules ends_eat_bind[OF expr] | auto)+

lemma varDeclStatement: "m \<le> n \<Longrightarrow> ends P q m (parseVarDeclStatement p)"
  unfolding parseVarDeclStatement_def fuel
  by (rule ends_rules ends_eat_bind[OF ends_typeToken] ends_eat_bind[OF singleVarDecl] ends_stay_bind[OF ends_loop]
      ends_stay_bind[OF ends_arrayMarker] ends_closeStatement | auto split: prod.split)+

lemma assignStatement: "m \<le> n \<Longrightarrow> ends P q m (parseAssignStatement p)"
  unfolding parseAssignStatement_def
  by (rule ends_rules ends_eat_bind[OF expr] ends_stay_bind[OF continueChain] ends_closeStatement | auto)+

lemma branch: "m \<le> n - 1 \<Longrightarrow> ends P q m (parseBranch p)"
  unfolding parseBranch_def by (rule ends_rules blk ends_eat_bind[OF statement] | auto)+

lemma condition: "m \<le> n \<Longrightarrow> ends P q m (parseCondition p ctx)"
  unfolding parseCondition_def by (rule ends_rules ends_eat_bind[OF commaExpr] | auto)+

lemma ifStatement: "m \<le> n \<Longrightarrow> ends P q m (parseIfStatement p)"
  unfolding parseIfStatement_def by (rule ends_rules ends_eat_bind[OF condition] ends_eat_bind[OF branch] | auto)+

lemma whileStatement: "m \<le> n \<Longrightarrow> ends P q m (parseWhileStatement p)"
  unfolding parseWhileStatement_def by (rule ends_rules ends_eat_bind[OF condition] ends_eat_bind[OF branch] | auto)+

lemma doWhileStatement: "m \<le> n \<Longrightarrow> ends P q m (parseDoWhileStatement p)"
  unfolding parseDoWhileStatement_def
  by (rule ends_rules ends_eat_bind[OF condition] ends_eat_bind[OF branch] ends_closeStatement | auto)+

lemma forStatement: "m \<le> n \<Longrightarrow> ends P q m (parseForStatement p)"
  unfolding parseForStatement_def
  by (rule ends_rules ends_stay_bind[OF ends_optUntil] ends_eat_bind[OF ends_typeToken] singleVarDecl commaChain commaExpr
      ends_eat_bind[OF branch] | auto split: prod.split)+

lemma foreachStatement: "m \<le> n \<Longrightarrow> ends P q m (parseForeachStatement p)"
  unfolding parseForeachStatement_def
  by (rule ends_rules ends_eat_bind[OF ends_foreachVar] ends_stay_bind[OF ends_if] ends_eat_bind[OF expr] ends_eat_bind[OF branch]
      | auto split: prod.split)+

lemma caseLabel: "(\<And>st. P st \<Longrightarrow> \<not> atEnd st) \<Longrightarrow> m \<le> n \<Longrightarrow> ends P q m (parseCaseLabel p)"
  unfolding parseCaseLabel_def by (rule ends_rules ends_eat_bind[OF expr] ends_stay_bind[OF ends_if] | auto)+

lemma switchStatement: "m \<le> n \<Longrightarrow> ends P q m (parseSwitchStatement p)"
  unfolding parseSwitchStatement_def fuel
  by (rule ends_rules ends_eat_bind[OF condition] ends_stay_bind[OF ends_untilBrace] caseLabel statement | auto)+

lemma blockLevel: "m \<le> n \<Longrightarrow> ends P q m (parseBlock p)"
  unfolding parseBlock_def fuel by (rule ends_rules ends_stay_bind[OF ends_untilBrace] statement | auto)+

lemma exprStatement: "m \<le> n \<Longrightarrow> ends P q m (parseExprStatement p)"
  unfolding parseExprStatement_def by (rule ends_rules ends_eat_bind[OF exprLevel] ends_stay_bind[OF continueChain] ends_closeStatement | auto)+

end

context parser_level
begin

lemma indexedTail:
  "m \<le> n - 1 \<Longrightarrow> stays m (psSeq advance (psBind (recExpr p) (\<lambda>v.
     psBind (continueStatementCommaChain p (IndexAssignStmt t k v cp b c)) (\<lambda>s.
       psBind (closeStatement ''indexed assignment statement'' s) (\<lambda>x. psRet (Some x))))))"
  by (rule stays_seq[OF stays_advance], rule ends_eat_bind[OF expr], simp, rule ends_stay_bind[OF continueChain], simp,
      rule ends_eat_bind[OF ends_closeStatement], rule ends_ret) simp

lemma indexedAssign:
  assumes "m \<le> n"
  shows "ends P (\<lambda>r. r \<noteq> None) m (parseIndexedAssign p)"
  unfolding ends_def
proof (intro allI impI)
  fix st assume st: "P st" "tokType (psLast st) \<noteq> Keyword \<and> tokensLeft st < m"
  have "ends P (\<lambda>_. True) m (parsePostfix p)" using postfix[OF assms] .
  then obtain r where r: "parsePostfix p st = Some r" "\<And>x st'. r = Inr (x, st') \<Longrightarrow> psLast st' = psLast st \<and> tokensLeft st' < tokensLeft st"
    using st unfolding ends_def by blast
  show "\<exists>r. parseIndexedAssign p st = Some r \<and> (\<forall>x st'. r = Inr (x, st') \<longrightarrow>
      psLast st' = psLast st \<and> tokensLeft st' \<le> tokensLeft st \<and> (x \<noteq> None \<longrightarrow> tokensLeft st' < tokensLeft st))"
  proof (cases r)
    case (Inl e)
    then show ?thesis using r(1) by (simp add: parseIndexedAssign_def psBind_def)
  next
    case (Inr xs)
    obtain e st1 where e: "r = Inr (e, st1)" using Inr by (cases xs) auto
    have bk: "tokensLeft (backTo st st1) = tokensLeft st" "psLast (backTo st st1) = psLast st1" by (simp_all add: tokensLeft_def backTo_def)
    show ?thesis
    proof (cases "\<exists>t k re fe ree c cp b. e = IndexExpr t k re fe ree c \<and> assignOp st1 = Some (cp, b)")
      case False
      then have "parseIndexedAssign p st = Some (Inr (None, backTo st st1))"
        using r(1) e by (auto simp: parseIndexedAssign_def psBind_def split: ast.split option.split)
      then show ?thesis using bk r(2)[OF e] by simp
    next
      case True
      then obtain t k re fe ree c cp b where idx: "e = IndexExpr t k re fe ree c" "assignOp st1 = Some (cp, b)" by blast
      let ?X = "psSeq advance (psBind (recExpr p) (\<lambda>v.
        psBind (continueStatementCommaChain p (IndexAssignStmt t k v cp b c)) (\<lambda>s.
          psBind (closeStatement ''indexed assignment statement'' s) (\<lambda>x. psRet (Some x)))))"
      have X: "parseIndexedAssign p st = ?X st1" using r(1) e idx by (simp add: parseIndexedAssign_def psBind_def[of "parsePostfix p"])
      have lt: "psLast st1 = psLast st \<and> tokensLeft st1 < tokensLeft st" using r(2) e by blast
      have "stays (m - 1) ?X" by (rule indexedTail) (use assms in simp)
      moreover have "tokType (psLast st1) \<noteq> Keyword \<and> tokensLeft st1 < m - 1" using lt st(2) by auto
      ultimately obtain r2 where "?X st1 = Some r2" "\<And>x st'. r2 = Inr (x, st') \<Longrightarrow> psLast st' = psLast st1 \<and> tokensLeft st' \<le> tokensLeft st1"
        unfolding ends_def by blast
      then show ?thesis unfolding X using lt by fastforce
    qed
  qed
qed

lemma statementLevel: "m \<le> n \<Longrightarrow> ends P q m (parseStatement p)"
  unfolding parseStatement_def
  by (rule ends_rules ends_eat_bind[OF blockLevel] ifStatement whileStatement doWhileStatement forStatement foreachStatement
      switchStatement returnStatement ends_break varDeclStatement assignStatement ends_bind[OF indexedAssign] exprStatement
      | auto split: option.split)+

end

lemma parser_level_0: "parser_level (parserAt 0) 0"
  by standard (simp_all add: ends_def)

lemma parser_level_Suc:
  assumes "parser_level p n"
  shows "parser_level (parserOver p) (Suc n)"
  using parser_level.exprLevel[OF assms] parser_level.unaryLevel[OF assms] parser_level.statementLevel[OF assms]
    parser_level.blockLevel[OF assms] parser_level.fuel[OF assms]
  by unfold_locales (simp_all add: parserOver_def)

lemma parser_level_at: "parser_level (parserAt n) n"
  by (induction n) (simp_all only: parserAt.simps parser_level_0[simplified] parser_level_Suc)

interpretation knot: parser_level "parserAt n" n for n
  by (rule parser_level_at)

section \<open>Programs\<close>

lemma ends_advanceBy: "ends P (\<lambda>_. False) n (advanceBy k)"
  by (simp add: ends_def advanceBy_def tokensLeft_def)

text \<open>The count of modifiers stops at the last token, which is no keyword.\<close>

lemma modifiersAhead_loop:
  assumes "tokType (psLast st) \<noteq> Keyword" "tokensLeft st < n + k" "k \<le> tokensLeft st"
  shows "\<exists>j. psLoop n (\<lambda>k. psIf (\<lambda>st. isModifierKeyword (psDialect st) (peekAt k st)) (psRet (k + 1, True)) (psRet (k, False))) k st =
      Some (Inr (j, st))"
  using assms(2,3)
proof (induction n arbitrary: k)
  case 0
  then show ?case by simp
next
  case (Suc n)
  show ?case
  proof (cases "isModifierKeyword (psDialect st) (peekAt k st)")
    case True
    then have "k < tokensLeft st" using assms(1) by (auto simp: isModifierKeyword_def peekAt_def tokensLeft_def split: if_splits)
    then show ?thesis using Suc.IH[of "Suc k"] Suc.prems True by (simp add: psBind_def psIf_def psRet_def)
  next
    case False
    then show ?thesis by (simp add: psBind_def psIf_def psRet_def)
  qed
qed

lemma ends_modifiersAhead: "ends P (\<lambda>_. False) n (modifiersAhead n)"
  unfolding ends_def modifiersAhead_def using modifiersAhead_loop[where k = 0] by fastforce

context parser_level
begin

lemma functionRest: "m \<le> n \<Longrightarrow> ends P q m (parseFunctionRest p pre)"
  unfolding parseFunctionRest_def fuel
  by (rule ends_rules ends_stay_bind[OF ends_paramList] ends_stay_bind[OF ends_if] ends_eat_bind[OF blockLevel]
      | auto split: prod.split)+

lemma objectVarInitLevel: "m \<le> n \<Longrightarrow> ends P (\<lambda>_. False) m (objectVarInit p)"
  unfolding objectVarInit_def by (rule ends_rules ends_eat_bind[OF expr] | auto)+

lemma objectVarRest: "m \<le> n \<Longrightarrow> ends P (\<lambda>_. False) m (parseObjectVarDeclRest p pre)"
  unfolding parseObjectVarDeclRest_def fuel
  by (rule ends_rules ends_stay_bind[OF objectVarInitLevel] ends_stay_bind[OF ends_loop] ends_stay_bind[OF ends_arrayMarker] | auto)+

end

context parser_level
begin

lemma addLevels:
  assumes "m \<le> n"
  shows "ends P q m (addInherit p prog)" "ends P q m (addClass p prog)" "ends P q m (addDeclaration p prog)"
  unfolding addInherit_def addClass_def addDeclaration_def fuel using assms
  by (intro ends_eat_bind[OF ends_inherit] ends_eat_bind[OF ends_classDecl] ends_eat_bind[OF ends_declPrefix] ends_if
      ends_eat_bind[OF functionRest] ends_stay_bind[OF objectVarRest]; simp add: ends_ret)+

lemma topLevel: "m \<le> n \<Longrightarrow> ends P q m (parseTopLevel p prog)"
  unfolding parseTopLevel_def fuel
  by (intro ends_if ends_stay_bind[OF ends_weaken[OF ends_modifiersAhead]] stays_seq[OF ends_advanceBy] addLevels) auto

lemma programLevel: "m \<le> n \<Longrightarrow> ends P (\<lambda>_. False) m (parseProgram p)"
  unfolding parseProgram_def fuel by (rule ends_rules ends_eat_bind[OF topLevel] | auto)+

end

lemma parseTokens_ends:
  assumes "toks \<noteq> []" "tokType (last toks) \<noteq> Keyword"
  shows "\<exists>r. parseTokens (Suc (length toks)) toks d = Some r"
proof -
  have "ends anyState (\<lambda>_. False) (Suc (length toks)) (parseProgram (parserAt (Suc (length toks))))"
    by (rule knot.programLevel) simp
  moreover have "tokType (psLast (newParser toks d)) \<noteq> Keyword \<and> tokensLeft (newParser toks d) < Suc (length toks)"
    using assms by (cases toks) (simp_all add: tokensLeft_def newParser_def)
  ultimately obtain r where "parseProgram (parserAt (Suc (length toks))) (newParser toks d) = Some r"
    unfolding ends_def by blast
  then show ?thesis by (simp add: parseTokens_def)
qed

text \<open>
  C8. The parser ends on every list of tokens, well formed or not, that ends with a token which is no keyword: one more unit of fuel
  than there are tokens is enough for every loop and every nested call, so \<^verbatim>\<open>parseProgram\<close> gives a program or throws.
\<close>

theorem parse_terminates:
  assumes "toks \<noteq> []" "tokType (last toks) \<noteq> Keyword"
  shows "\<exists>r. parseTokens (Suc (length toks)) toks d = Some r"
  using assms by (rule parseTokens_ends)

theorem parse_terminates_witness:
  "\<exists>r. parseTokens 4 [mkTok Keyword ''int'' 1, mkTok SymbolTok ''('' 1, mkTok EndTok [] 1] FluffOS = Some r"
  using parse_terminates[of "[mkTok Keyword ''int'' 1, mkTok SymbolTok ''('' 1, mkTok EndTok [] 1]" FluffOS]
  by (simp add: mkTok_def numeral_eq_Suc)

end
