(* ===== verification/Parser_Grammar.thy ===== *)
theory Parser_Grammar
  imports Parser
begin

text \<open>
  The grammar of expressions, as derivation predicates over token lists and syntax trees, and the proof that the recursive-descent
  parser of \<^verbatim>\<open>src/compiler/Parser.cpp\<close> reads every phrase of it to its tree: precedences, associativity and the extent of
  assignments are those of the grammar. The grammar is a specification, not code of the repository. It leaves out the literals of
  functions (closures, lambdas, anonymous functions), mappings, \<^verbatim>\<open>new\<close>, \<^verbatim>\<open>sscanf\<close> and \<^verbatim>\<open>time_expression\<close>.
\<close>

section \<open>Tokens and precedences\<close>

definition sym :: "string \<Rightarrow> token \<Rightarrow> bool" where
  "sym s t \<longleftrightarrow> tokType t = SymbolTok \<and> tokText t = s"

text \<open>Names that the parser treats specially in front of a parenthesis, a brace or two colons.\<close>

definition reservedNames :: "string list" where
  "reservedNames = [''new'', ''efun'', ''catch'', ''time_expression'', ''sscanf'', ''call_other'', ''class'']"

definition plainName :: "token \<Rightarrow> bool" where
  "plainName t \<longleftrightarrow> tokType t = Ident \<and> tokText t \<notin> set reservedNames \<and> (tokText t \<noteq> [] \<longrightarrow> hd (tokText t) \<noteq> CHR ''$'')"

text \<open>
  Precedences: 0 is an expression, 1 to 10 the binary operators from the loosest on, 11 a unary expression, 12 a postfix
  expression and 13 one without a trailing increment.
\<close>

definition levelOps :: "nat \<Rightarrow> (string \<times> BinOp) list" where
  "levelOps k =
     (if k = 1 then [(''||'', BinOr)]
      else if k = 2 then [(''&&'', BinAnd)]
      else if k = 3 then [(''|'', BinBitOr)]
      else if k = 4 then [(''^'', BinBitXor)]
      else if k = 5 then [(''&'', BinBitAnd)]
      else if k = 6 then [(''=='', BinEq), (''!='', BinNeq)]
      else if k = 7 then [(''<'', BinLt), (''<='', BinLte), (''>'', BinGt), (''>='', BinGte)]
      else if k = 8 then [(''<<'', BinShl), (''>>'', BinShr)]
      else if k = 9 then [(''+'', BinAdd), (''-'', BinSub)]
      else if k = 10 then [(''*'', BinMul), (''/'', BinDiv), (''%'', BinMod)]
      else [])"

definition unaryOps :: "(string \<times> UnaryOp) list" where
  "unaryOps = [(''!'', UnNot), (''-'', UnNeg), (''~'', UnBitNot)]"

definition incDecOps :: "(string \<times> IncDecOp) list" where
  "incDecOps = [(''++'', Inc), (''--'', Dec)]"

text \<open>The assignment operators, and the tree of an assignment to a variable or to an index that is not a range.\<close>

definition assignOps :: "(string \<times> bool \<times> BinOp) list" where
  "assignOps = (''='', False, BinAdd) # map (\<lambda>(s, b). (s, True, b)) kCompoundOps"

definition assignTree :: "ast \<Rightarrow> ast \<Rightarrow> bool \<Rightarrow> BinOp \<Rightarrow> ast option" where
  "assignTree e v cp b =
     (case e of
        VarRefExpr n \<Rightarrow> Some (AssignExpr n v cp b)
      | IndexExpr t k None fe ree c \<Rightarrow> Some (IndexAssignExpr t k v cp b c)
      | _ \<Rightarrow> None)"

section \<open>The grammar\<close>

text \<open>
  \<open>phrase d opn k ts e\<close>: the tokens \<open>ts\<close> are a phrase of precedence \<open>k\<close> with the tree \<open>e\<close>. A phrase is open when it ends in an
  assignment or a conditional, which take everything that follows up to the end of the expression; an open phrase is no left operand.
\<close>

inductive phrase :: "LpcDialect \<Rightarrow> bool \<Rightarrow> nat \<Rightarrow> token list \<Rightarrow> ast \<Rightarrow> bool"
  and commas :: "LpcDialect \<Rightarrow> token list \<Rightarrow> ast \<Rightarrow> bool"
  and elem :: "LpcDialect \<Rightarrow> token list \<Rightarrow> ast \<times> bool \<Rightarrow> bool"
  and elems :: "LpcDialect \<Rightarrow> token list \<Rightarrow> (ast \<times> bool) list \<Rightarrow> bool"
  and args :: "LpcDialect \<Rightarrow> token list \<Rightarrow> (ast \<times> bool) list \<Rightarrow> bool"
  for d where
  number: "tokType t = Number \<Longrightarrow> numberLiteral (tokText t) = Inr e \<Longrightarrow> phrase d False 13 [t] e"
| strings: "ts \<noteq> [] \<Longrightarrow> \<forall>t\<in>set ts. tokType t = StringTok \<Longrightarrow> phrase d False 13 ts (StringLiteral (concat (map tokText ts)))"
| quotedSym: "tokType t = QuotedSymbol \<Longrightarrow> phrase d False 13 [t] (SymbolLiteralExpr (tokText t))"
| nil: "d = DGD \<Longrightarrow> tokType t = Keyword \<Longrightarrow> tokText t = ''nil'' \<Longrightarrow> phrase d False 13 [t] NilLiteral"
| variable: "plainName t \<Longrightarrow> phrase d False 13 [t] (VarRefExpr (tokText t))"
| paren: "sym ''('' a \<Longrightarrow> commas d ts e \<Longrightarrow> tokText (hd ts) \<notin> {''['', '':'', ''*'', ''{''} \<Longrightarrow> sym '')'' z \<Longrightarrow>
    phrase d False 13 (a # ts @ [z]) e"
| array: "sym ''('' a \<Longrightarrow> sym ''{'' b \<Longrightarrow> args d ts es \<Longrightarrow> sym ''}'' y \<Longrightarrow> sym '')'' z \<Longrightarrow>
    phrase d False 13 (a # b # ts @ [y, z]) (ArrayLiteralExpr (map fst es) (spreadFlags es))"
| call: "plainName n \<Longrightarrow> sym ''('' a \<Longrightarrow> args d ts es \<Longrightarrow> sym '')'' z \<Longrightarrow>
    phrase d False 13 (n # a # ts @ [z]) (CallExpr (tokText n) (map fst es) (spreadFlags es) False False [])"
| efunCall: "tokType u = Ident \<Longrightarrow> tokText u = ''efun'' \<Longrightarrow> sym ''::'' c \<Longrightarrow> tokType n = Ident \<Longrightarrow> sym ''('' a \<Longrightarrow> args d ts es \<Longrightarrow>
    sym '')'' z \<Longrightarrow> phrase d False 13 (u # c # n # a # ts @ [z]) (CallExpr (tokText n) (map fst es) (spreadFlags es) True False [])"
| parentCall: "sym ''::'' c \<Longrightarrow> tokType n = Ident \<Longrightarrow> sym ''('' a \<Longrightarrow> args d ts es \<Longrightarrow> sym '')'' z \<Longrightarrow>
    phrase d False 13 (c # n # a # ts @ [z]) (CallExpr (tokText n) (map fst es) (spreadFlags es) False True [])"
| qualifiedCall: "plainName q \<Longrightarrow> sym ''::'' c \<Longrightarrow> tokType n = Ident \<Longrightarrow> sym ''('' a \<Longrightarrow> args d ts es \<Longrightarrow> sym '')'' z \<Longrightarrow>
    phrase d False 13 (q # c # n # a # ts @ [z]) (CallExpr (tokText n) (map fst es) (spreadFlags es) False True (tokText q))"
| catch: "tokType n = Ident \<Longrightarrow> tokText n = ''catch'' \<Longrightarrow> sym ''('' a \<Longrightarrow> commas d ts e \<Longrightarrow> sym '')'' z \<Longrightarrow>
    phrase d False 13 (n # a # ts @ [z]) (CatchExpr e)"
| send: "phrase d False 13 ts e \<Longrightarrow> sym ''->'' w \<Longrightarrow> tokType n = Ident \<Longrightarrow> sym ''('' a \<Longrightarrow> args d us es \<Longrightarrow> sym '')'' z \<Longrightarrow>
    phrase d False 13 (ts @ w # n # a # us @ [z]) (CallOtherExpr e (StringLiteral (tokText n)) (map fst es) (spreadFlags es))"
| field: "d = FluffOS \<Longrightarrow> phrase d False 13 ts e \<Longrightarrow> sym ''->'' w \<Longrightarrow> tokType n = Ident \<Longrightarrow>
    phrase d False 13 (ts @ [w, n]) (IndexExpr e (MemberNameMarker (tokText n)) None False False None)"
| index: "phrase d False 13 ts e \<Longrightarrow> sym ''['' a \<Longrightarrow> commas d us i \<Longrightarrow> d \<noteq> LdMud \<Longrightarrow> sym '']'' z \<Longrightarrow>
    phrase d False 13 (ts @ a # us @ [z]) (IndexExpr e i None False False None)"
| indexLd: "phrase d False 13 ts e \<Longrightarrow> sym ''['' a \<Longrightarrow> phrase d opn 0 us i \<Longrightarrow> d = LdMud \<Longrightarrow> sym '']'' z \<Longrightarrow>
    phrase d False 13 (ts @ a # us @ [z]) (IndexExpr e i None False False None)"
| range: "phrase d False 13 ts e \<Longrightarrow> sym ''['' a \<Longrightarrow> phrase d opn 0 us i \<Longrightarrow> sym ''..'' r \<Longrightarrow> phrase d opn' 0 vs j \<Longrightarrow> sym '']'' z \<Longrightarrow>
    phrase d False 13 (ts @ a # us @ r # vs @ [z]) (IndexExpr e i (Some j) False False None)"
| chain: "phrase d False 13 ts e \<Longrightarrow> phrase d False 12 ts e"
| postInc: "phrase d False 13 ts e \<Longrightarrow> sym s t \<Longrightarrow> (s, o1) \<in> set incDecOps \<Longrightarrow> incDecOn o1 False e = Some x \<Longrightarrow>
    phrase d False 12 (ts @ [t]) x"
| postfix: "phrase d False 12 ts e \<Longrightarrow> phrase d False 11 ts e"
| preInc: "sym s t \<Longrightarrow> (s, o1) \<in> set incDecOps \<Longrightarrow> phrase d opn 11 ts e \<Longrightarrow> incDecOn o1 True e = Some x \<Longrightarrow> phrase d opn 11 (t # ts) x"
| unary: "sym s t \<Longrightarrow> (s, u) \<in> set unaryOps \<Longrightarrow> phrase d opn 11 ts e \<Longrightarrow> phrase d opn 11 (t # ts) (UnaryExpr u e)"
| cast: "sym ''('' a \<Longrightarrow> isTypeKeyword ty \<Longrightarrow> sym '')'' z \<Longrightarrow> phrase d opn 11 ts e \<Longrightarrow> phrase d opn 11 (a # ty # z # ts) e"
| castArray: "sym ''('' a \<Longrightarrow> isTypeKeyword ty \<Longrightarrow> sym ''*'' m \<Longrightarrow> sym '')'' z \<Longrightarrow> phrase d opn 11 ts e \<Longrightarrow>
    phrase d opn 11 (a # ty # m # z # ts) e"
| assign: "phrase d False 12 ts e \<Longrightarrow> sym s t \<Longrightarrow> (s, cp, b) \<in> set assignOps \<Longrightarrow> phrase d opn 0 us v \<Longrightarrow> assignTree e v cp b = Some x \<Longrightarrow>
    phrase d True 11 (ts @ t # us) x"
| binary: "phrase d False k ts l \<Longrightarrow> sym s t \<Longrightarrow> (s, b) \<in> set (levelOps k) \<Longrightarrow> phrase d opn (Suc k) us r \<Longrightarrow>
    phrase d opn k (ts @ t # us) (BinaryExpr b l r)"
| tighter: "phrase d opn (Suc k) ts e \<Longrightarrow> 1 \<le> k \<Longrightarrow> k \<le> 10 \<Longrightarrow> phrase d opn k ts e"
| simple: "phrase d opn 1 ts e \<Longrightarrow> phrase d opn 0 ts e"
| conditional: "phrase d False 1 ts c \<Longrightarrow> sym ''?'' q \<Longrightarrow> phrase d o1 0 us t \<Longrightarrow> sym '':'' m \<Longrightarrow> phrase d o2 0 vs e \<Longrightarrow>
    phrase d True 0 (ts @ q # us @ m # vs) (TernaryExpr c t e)"
| comma1: "phrase d opn 0 ts e \<Longrightarrow> commas d ts e"
| commaMore: "commas d ts l \<Longrightarrow> sym '','' c \<Longrightarrow> phrase d opn 0 us r \<Longrightarrow> commas d (ts @ c # us) (CommaExpr l r)"
| elem1: "phrase d opn 0 ts e \<Longrightarrow> elem d ts (e, False)"
| elemSpread: "phrase d opn 0 ts e \<Longrightarrow> sym ''...'' t \<Longrightarrow> elem d (ts @ [t]) (e, True)"
| elems1: "elem d ts x \<Longrightarrow> elems d ts [x]"
| elemsTrailing: "elem d ts x \<Longrightarrow> sym '','' c \<Longrightarrow> elems d (ts @ [c]) [x]"
| elemsMore: "elem d ts x \<Longrightarrow> sym '','' c \<Longrightarrow> elems d us xs \<Longrightarrow> elems d (ts @ c # us) (x # xs)"
| args0: "args d [] []"
| args1: "elems d ts es \<Longrightarrow> args d ts es"

section \<open>What may follow a phrase\<close>

definition contTexts :: "nat \<Rightarrow> string list" where
  "contTexts k =
     (if k \<le> 0 then [''?''] else []) @
     concat (map (\<lambda>j. map fst (levelOps j)) (filter (\<lambda>j. k \<le> j) [1..<11])) @
     (if k \<le> 11 then map fst assignOps else []) @
     (if k \<le> 12 then map fst incDecOps else []) @
     (if k \<le> 13 then [''->'', ''[''] else []) @ [''('', ''::'']"

text \<open>A token that does not go on with a phrase of precedence \<open>k\<close>.\<close>

definition stopTok :: "nat \<Rightarrow> token \<Rightarrow> bool" where
  "stopTok k t \<longleftrightarrow> tokType t \<noteq> StringTok \<and> (tokType t = SymbolTok \<or> tokType t = Keyword \<longrightarrow> tokText t \<notin> set (contTexts k))"

definition stopped :: "nat \<Rightarrow> token list \<Rightarrow> bool" where
  "stopped k rest \<longleftrightarrow> (\<exists>t r. rest = t # r \<and> stopTok k t)"

lemma contTexts_mono: "k \<le> j \<Longrightarrow> set (contTexts j) \<subseteq> set (contTexts k)"
  unfolding contTexts_def set_append by (intro Un_mono; fastforce split: if_splits)

lemma stopTok_mono: "stopTok k t \<Longrightarrow> k \<le> j \<Longrightarrow> stopTok j t"
  unfolding stopTok_def using contTexts_mono by blast

lemma stopped_mono: "stopped k rest \<Longrightarrow> k \<le> j \<Longrightarrow> stopped j rest"
  unfolding stopped_def using stopTok_mono by blast

section \<open>Parser states over token lists\<close>

definition atToks :: "pstate \<Rightarrow> token list \<Rightarrow> pstate" where
  "atToks st ts = st\<lparr>psRest := ts\<rparr>"

lemma atToks_simps [simp]:
  "psRest (atToks st ts) = ts" "psDialect (atToks st ts) = psDialect st" "psLast (atToks st ts) = psLast st"
  "lambdaParamMaxStack (atToks st ts) = lambdaParamMaxStack st" "lambdaBoundValuesStack (atToks st ts) = lambdaBoundValuesStack st"
  "atToks (atToks st ts) us = atToks st us" "backTo (atToks st ts) (atToks st us) = atToks st ts"
  unfolding atToks_def backTo_def by simp_all

lemma access_simps [simp]:
  "atEnd (atToks st (t # ts)) \<longleftrightarrow> tokType t = EndTok"
  "peekTok (atToks st (t # ts)) = t"
  "peekAt 0 (atToks st (t # ts)) = t"
  "peekAt 1 (atToks st (t # u # ts)) = u" "peekAt (Suc 0) (atToks st (t # u # ts)) = u"
  "peekAt 2 (atToks st (t # u # v # ts)) = v"
  by (simp_all add: atEnd_def peekTok_def peekAt_def)

lemma advance_at [simp]: "tokType t \<noteq> EndTok \<Longrightarrow> advance (atToks st (t # ts)) = Some (Inr (t, atToks st ts))"
  by (simp add: advance_def)

lemma check_at [simp]: "check ty (atToks st (t # ts)) \<longleftrightarrow> tokType t \<noteq> EndTok \<and> tokType t = ty"
  by (simp add: check_def)

lemma checkText_at:
  "checkText s (atToks st (t # ts)) \<longleftrightarrow> (tokType t = SymbolTok \<or> tokType t = Keyword) \<and> tokText t = s"
  by (auto simp: checkText_def)

lemma checkText_no [simp]: "tokType t \<noteq> SymbolTok \<Longrightarrow> tokType t \<noteq> Keyword \<Longrightarrow> \<not> checkText s (atToks st (t # ts))"
  by (simp add: checkText_at)

lemma sym_at [simp]: "sym s t \<Longrightarrow> checkText u (atToks st (t # r)) \<longleftrightarrow> u = s"
  by (auto simp: sym_def checkText_at)

lemma sym_notEnd: "sym s t \<Longrightarrow> tokType t \<noteq> EndTok"
  by (simp add: sym_def)

lemma sym_advance [simp]: "sym s t \<Longrightarrow> advance (atToks st (t # r)) = Some (Inr (t, atToks st r))"
  by (simp add: sym_notEnd)

lemma ps_simps:
  "psBind m f st = (case m st of None \<Rightarrow> None | Some (Inl e) \<Rightarrow> Some (Inl e) | Some (Inr (x, st')) \<Rightarrow> f x st')"
  "psSeq m k st = (case m st of None \<Rightarrow> None | Some (Inl e) \<Rightarrow> Some (Inl e) | Some (Inr (x, st')) \<Rightarrow> k st')"
  "psIf c a b st = (if c st then a st else b st)"
  "psRet x st = Some (Inr (x, st))"
  by (simp_all add: psBind_def psSeq_def psIf_def psRet_def)

section \<open>How a phrase starts\<close>

definition startTok :: "token \<Rightarrow> bool" where
  "startTok t \<longleftrightarrow>
     tokType t = Number \<or> tokType t = StringTok \<or> tokType t = QuotedSymbol \<or> tokType t = Ident \<and> tokText t \<noteq> ''class'' \<or>
     tokType t = Keyword \<and> tokText t = ''nil'' \<or> tokType t = SymbolTok \<and> tokText t \<in> {''('', ''::'', ''!'', ''-'', ''~'', ''++'', ''--''}"

text \<open>Where no unary operator and no cast can be.\<close>

definition primStart :: "token list \<Rightarrow> bool" where
  "primStart ts \<longleftrightarrow>
     (\<exists>t r. ts = t # r \<and> startTok t \<and> (tokType t = SymbolTok \<longrightarrow> tokText t = ''('' \<or> tokText t = ''::'') \<and>
        (sym ''('' t \<longrightarrow> (\<exists>u r'. r = u # r' \<and> (startTok u \<or> tokType u = SymbolTok))))"

definition goodStart :: "token list \<Rightarrow> bool" where
  "goodStart ts \<longleftrightarrow> (\<exists>t r. ts = t # r \<and> startTok t)"

lemma primStart_append: "primStart ts \<Longrightarrow> primStart (ts @ us)"
  unfolding primStart_def by fastforce

lemma goodStart_append: "goodStart ts \<Longrightarrow> goodStart (ts @ us)"
  unfolding goodStart_def by fastforce

lemma primStart_goodStart: "primStart ts \<Longrightarrow> goodStart ts"
  unfolding primStart_def goodStart_def by blast

lemma start_cons [simp]:
  "goodStart (t # r) \<longleftrightarrow> startTok t"
  "tokType t \<noteq> SymbolTok \<Longrightarrow> primStart (t # r) \<longleftrightarrow> startTok t"
  "sym ''::'' t \<Longrightarrow> primStart (t # r)"
  by (auto simp: goodStart_def primStart_def startTok_def sym_def)

lemma prim_paren: "sym ''('' a \<Longrightarrow> goodStart ts \<Longrightarrow> primStart (a # ts @ us)"
  unfolding primStart_def goodStart_def by (auto simp: sym_def startTok_def)

lemma prim_brace: "sym ''('' a \<Longrightarrow> sym ''{'' b \<Longrightarrow> primStart (a # b # ts)"
  unfolding primStart_def by (auto simp: sym_def startTok_def)

lemma startTok_simps [simp]:
  "tokType t = Number \<Longrightarrow> startTok t" "tokType t = StringTok \<Longrightarrow> startTok t" "tokType t = QuotedSymbol \<Longrightarrow> startTok t"
  "tokType t = Ident \<Longrightarrow> startTok t \<longleftrightarrow> tokText t \<noteq> ''class''" "plainName t \<Longrightarrow> startTok t"
  "tokType t = Keyword \<Longrightarrow> startTok t \<longleftrightarrow> tokText t = ''nil''"
  "sym ''('' t \<Longrightarrow> startTok t" "sym ''::'' t \<Longrightarrow> startTok t"
  "sym s t \<Longrightarrow> (s, u) \<in> set unaryOps \<Longrightarrow> startTok t"
  "sym s t \<Longrightarrow> (s, i) \<in> set incDecOps \<Longrightarrow> startTok t"
  by (auto simp: startTok_def plainName_def reservedNames_def sym_def unaryOps_def incDecOps_def)

lemma plainName_ident: "plainName t \<Longrightarrow> tokType t = Ident" "plainName t \<Longrightarrow> tokText t \<noteq> ''class''"
  by (simp_all add: plainName_def reservedNames_def)

lemma phrase_starts:
  shows "phrase d opn k ts e \<Longrightarrow> goodStart ts \<and> (12 \<le> k \<longrightarrow> primStart ts)"
    and "commas d ts e \<Longrightarrow> goodStart ts"
    and "elem d ts x \<Longrightarrow> goodStart ts"
    and "elems d ts xs \<Longrightarrow> goodStart ts"
    and "args d ts xs \<Longrightarrow> ts = [] \<or> goodStart ts"
proof (induction rule: phrase_commas_elem_elems_args.inducts)
  case (strings ts)
  then show ?case by (cases ts) auto
next
  case (binary k ts l s t b opn us r)
  then have "k \<le> 10" by (auto simp: levelOps_def split: if_splits)
  then show ?case using binary goodStart_append by auto
next
  case (paren a ts e z)
  then show ?case by (simp add: prim_paren)
next
  case (array a b ts es y z)
  then show ?case by (simp add: prim_brace)
qed (simp_all add: goodStart_append primStart_append plainName_ident)

section \<open>The levels of the parser\<close>

definition postfixStep :: "parsers \<Rightarrow> ast \<Rightarrow> (ast \<times> bool) pm" where
  "postfixStep p e =
     psIf (checkText ''->'') (psBind (parseArrow p e) (\<lambda>x. psRet (x, True)))
       (psIf (checkText ''['') (psBind (parseIndex p e) (\<lambda>x. psRet (x, True))) (psRet (e, False)))"

definition postfixChain :: "parsers \<Rightarrow> ast pm" where
  "postfixChain p = psBind (parsePrimary p) (psLoop (psFuel p) (postfixStep p))"

definition levelAt :: "parsers \<Rightarrow> nat \<Rightarrow> ast pm" where
  "levelAt p k =
     (if k = 0 then parseExpr p else if k = 1 then parseLogicalOr p else if k = 2 then parseLogicalAnd p
      else if k = 3 then parseBitOr p else if k = 4 then parseBitXor p else if k = 5 then parseBitAnd p
      else if k = 6 then parseEquality p else if k = 7 then parseComparison p else if k = 8 then parseShift p
      else if k = 9 then parseAdditive p else if k = 10 then parseMultiplicative p else if k = 11 then parseUnary p
      else if k = 12 then parsePostfix p else postfixChain p)"

definition binStep :: "parsers \<Rightarrow> nat \<Rightarrow> ast \<Rightarrow> (ast \<times> bool) pm" where
  "binStep p k left st =
     (case find (\<lambda>(s, b). checkText s st) (levelOps k) of
        None \<Rightarrow> psRet (left, False) st
      | Some (s, b) \<Rightarrow> psSeq advance (psBind (levelAt p (Suc k)) (\<lambda>right. psRet (BinaryExpr b left right, True))) st)"

lemma level_cases:
  assumes "1 \<le> k" "k \<le> (10::nat)"
  shows "k = 1 \<or> k = 2 \<or> k = 3 \<or> k = 4 \<or> k = 5 \<or> k = 6 \<or> k = 7 \<or> k = 8 \<or> k = 9 \<or> k = 10"
  using assms by arith

lemma level_binary:
  assumes "1 \<le> k" "k \<le> 10"
  shows "levelAt p k = psBind (levelAt p (Suc k)) (psLoop (psFuel p) (binStep p k))"
  using level_cases[OF assms]
  by (elim disjE)
    (simp_all add: levelAt_def binStep_def[abs_def] binaryLevel_def levelOps_def parseLogicalOr_def parseLogicalAnd_def parseBitOr_def
      parseBitXor_def parseBitAnd_def parseEquality_def parseComparison_def parseShift_def parseAdditive_def parseMultiplicative_def
      cong: option.case_cong prod.case_cong)

lemma psBind_assoc: "psBind (psBind m f) g = psBind m (\<lambda>x. psBind (f x) g)"
  by (rule ext) (simp add: psBind_def split: option.split sum.split)

lemma level_postfix: "levelAt p 12 = psBind (levelAt p 13) postfixIncDec"
  by (simp add: levelAt_def parsePostfix_def postfixChain_def psBind_assoc postfixStep_def[abs_def])

lemma parser_calls [simp]:
  "recExpr (parserAt (Suc n)) = levelAt (parserAt n) 0"
  "recUnary (parserAt (Suc n)) = levelAt (parserAt n) 11"
  by (simp_all add: parserOver_def levelAt_def)

declare parserAt.simps(2) [simp del]

section \<open>Reading a phrase\<close>

text \<open>
  What the parser does with a phrase. A left-recursive level has read the phrase when it is about to go on with its loop, with the tree
  so far and fuel for the rest; \<open>inner\<close> is the level from which on the next token must not continue the phrase.
\<close>

definition looped :: "nat \<Rightarrow> bool" where
  "looped k \<longleftrightarrow> 1 \<le> k \<and> k \<le> 10 \<or> k = 13"

definition inner :: "nat \<Rightarrow> nat" where
  "inner k = (if looped k then Suc k else k)"

definition tailAt :: "parsers \<Rightarrow> nat \<Rightarrow> nat \<Rightarrow> ast \<Rightarrow> ast pm" where
  "tailAt p k j e =
     (if 1 \<le> k \<and> k \<le> 10 then psLoop j (binStep p k) e else if k = 13 then psLoop j (postfixStep p) e else psRet e)"

definition closedReads :: "LpcDialect \<Rightarrow> nat \<Rightarrow> token list \<Rightarrow> ast \<Rightarrow> bool" where
  "closedReads d k ts e \<longleftrightarrow>
     (\<forall>n rest st. psDialect st = d \<longrightarrow> length ts + length rest < n \<longrightarrow> stopped (inner k) rest \<longrightarrow>
        (\<exists>j. length rest < j \<and> levelAt (parserAt n) k (atToks st (ts @ rest)) = tailAt (parserAt n) k j e (atToks st rest)))"

definition openReads :: "LpcDialect \<Rightarrow> nat \<Rightarrow> nat \<Rightarrow> token list \<Rightarrow> ast \<Rightarrow> bool" where
  "openReads d f k ts e \<longleftrightarrow>
     (\<forall>n rest st. psDialect st = d \<longrightarrow> length ts + length rest < n \<longrightarrow> stopped f rest \<longrightarrow>
        levelAt (parserAt n) k (atToks st (ts @ rest)) = Some (Inr (e, atToks st rest)))"

definition phraseReads :: "LpcDialect \<Rightarrow> bool \<Rightarrow> nat \<Rightarrow> token list \<Rightarrow> ast \<Rightarrow> bool" where
  "phraseReads d opn k ts e \<longleftrightarrow> (if opn then openReads d 0 k ts e else closedReads d k ts e)"

lemma find_sym:
  assumes "distinct (map fst ops)" "(s, b) \<in> set ops" "sym s t"
  shows "find (\<lambda>(s, b). checkText s (atToks st (t # r))) ops = Some (s, b)"
  using assms by (induction ops) (auto simp: image_iff)

lemma find_stopped:
  assumes "stopTok k t" "map fst ops = ts" "set ts \<subseteq> set (contTexts k)"
  shows "find (\<lambda>(s, b). checkText s (atToks st (t # r))) ops = None"
  using assms by (force simp: find_None_iff stopTok_def checkText_at)

lemma cont_levelOps: "1 \<le> k \<Longrightarrow> k \<le> 10 \<Longrightarrow> set (map fst (levelOps k)) \<subseteq> set (contTexts k)"
  unfolding contTexts_def by auto

lemma distinct_levelOps: "distinct (map fst (levelOps k))"
  by (simp add: levelOps_def)

lemma binStep_stop:
  assumes "stopped k rest" "1 \<le> k" "k \<le> 10"
  shows "binStep p k e (atToks st rest) = Some (Inr ((e, False), atToks st rest))"
  using assms find_stopped[OF _ refl cont_levelOps] unfolding stopped_def by (fastforce simp: binStep_def psRet_def)

lemma postfixStep_stop:
  assumes "stopped 13 rest"
  shows "postfixStep p e (atToks st rest) = Some (Inr ((e, False), atToks st rest))"
  using assms unfolding stopped_def stopTok_def by (auto simp: postfixStep_def ps_simps contTexts_def checkText_at)

lemma binLoop_stop:
  assumes "stopped k rest" "1 \<le> k" "k \<le> 10" "0 < j"
  shows "psLoop j (binStep p k) e (atToks st rest) = Some (Inr (e, atToks st rest))"
  using binStep_stop[OF assms(1,2,3)] assms(4) by (cases j) (simp_all add: ps_simps)

lemma postfixLoop_stop:
  assumes "stopped 13 rest" "0 < j"
  shows "psLoop j (postfixStep p) e (atToks st rest) = Some (Inr (e, atToks st rest))"
  using postfixStep_stop[OF assms(1)] assms(2) by (cases j) (simp_all add: ps_simps)

lemma tail_stop:
  assumes "stopped k rest" "0 < j"
  shows "tailAt p k j e (atToks st rest) = Some (Inr (e, atToks st rest))"
  using assms by (auto simp: tailAt_def binLoop_stop postfixLoop_stop psRet_def)

lemma closedReadsE:
  assumes "phraseReads d False k ts e" "psDialect st = d" "length ts + length rest < n" "stopped (inner k) rest"
  obtains j where "length rest < j"
    "levelAt (parserAt n) k (atToks st (ts @ rest)) = tailAt (parserAt n) k j e (atToks st rest)"
  using assms unfolding phraseReads_def closedReads_def by (simp, blast)

lemma phrase_done:
  assumes "phraseReads d opn k ts e" "psDialect st = d" "length ts + length rest < n" "stopped (if opn then 0 else k) rest"
  shows "levelAt (parserAt n) k (atToks st (ts @ rest)) = Some (Inr (e, atToks st rest))"
proof (cases opn)
  case True
  then show ?thesis using assms by (simp add: phraseReads_def openReads_def)
next
  case False
  have inn: "stopped (inner k) rest" using assms(4) False stopped_mono by (fastforce simp: inner_def)
  have "phraseReads d False k ts e" using assms(1) False by simp
  then obtain j where "length rest < j"
    "levelAt (parserAt n) k (atToks st (ts @ rest)) = tailAt (parserAt n) k j e (atToks st rest)"
    by (rule closedReadsE[OF _ assms(2,3) inn])
  then show ?thesis using tail_stop[of k rest j] assms(4) False by auto
qed

lemma phrase_done0:
  assumes "phraseReads d opn k ts e" "psDialect st = d" "length ts + length rest < n" "stopped 0 rest"
  shows "levelAt (parserAt n) k (atToks st (ts @ rest)) = Some (Inr (e, atToks st rest))"
  by (rule phrase_done[OF assms(1,2,3)]) (use assms(4) stopped_mono in auto)

section \<open>Binary operators\<close>

lemma reads_tighter:
  assumes "phraseReads d opn (Suc k) ts e" "1 \<le> k" "k \<le> 10"
  shows "phraseReads d opn k ts e"
proof -
  have step: "levelAt (parserAt n) k (atToks st (ts @ rest)) = psLoop n (binStep (parserAt n) k) e (atToks st rest)"
    if "psDialect st = d" "length ts + length rest < n" "stopped (if opn then 0 else Suc k) rest" for n rest st
    using phrase_done[OF assms(1) that(1,2)] that(3) by (simp add: level_binary[OF assms(2,3)] ps_simps)
  show ?thesis
  proof (cases opn)
    case True
    have "levelAt (parserAt n) k (atToks st (ts @ rest)) = Some (Inr (e, atToks st rest))"
      if "psDialect st = d" "length ts + length rest < n" "stopped 0 rest" for n rest st
      using step[OF that(1,2)] that(2,3) True binLoop_stop[OF stopped_mono[OF that(3)] assms(2,3)] by auto
    then show ?thesis using True by (simp add: phraseReads_def openReads_def)
  next
    case False
    have "\<exists>j. length rest < j \<and> levelAt (parserAt n) k (atToks st (ts @ rest)) = tailAt (parserAt n) k j e (atToks st rest)"
      if "psDialect st = d" "length ts + length rest < n" "stopped (Suc k) rest" for n rest st
      using step[OF that(1,2)] that(2,3) False assms(2,3) by (intro exI[of _ n]) (auto simp: tailAt_def)
    then show ?thesis using False assms(2,3) by (simp add: phraseReads_def closedReads_def inner_def looped_def)
  qed
qed

lemma stop_levelOp:
  assumes "sym s t" "(s, b) \<in> set (levelOps k)"
  shows "stopTok (Suc k) t"
  using assms by (auto simp: sym_def stopTok_def contTexts_def levelOps_def assignOps_def kCompoundOps_def incDecOps_def
      upt_conv_Cons split: if_splits)

lemma reads_binary:
  assumes "phraseReads d False k ts l" "sym s t" "(s, b) \<in> set (levelOps k)" "phraseReads d opn (Suc k) us r"
  shows "phraseReads d opn k (ts @ t # us) (BinaryExpr b l r)"
proof -
  have k: "1 \<le> k" "k \<le> 10" using assms(3) by (auto simp: levelOps_def split: if_splits)
  have step: "\<exists>j. length rest < j \<and> levelAt (parserAt n) k (atToks st ((ts @ t # us) @ rest)) =
      psLoop j (binStep (parserAt n) k) (BinaryExpr b l r) (atToks st rest)"
    if dial: "psDialect st = d" and len: "length (ts @ t # us) + length rest < n" and stp: "stopped (if opn then 0 else Suc k) rest"
    for n rest st
  proof -
    have inn: "stopped (inner k) (t # us @ rest)"
      using stop_levelOp[OF assms(2,3)] k by (simp add: stopped_def inner_def looped_def)
    have "length ts + length (t # us @ rest) < n" using len by simp
    then obtain j where j: "length (t # us @ rest) < j"
      "levelAt (parserAt n) k (atToks st (ts @ t # us @ rest)) = tailAt (parserAt n) k j l (atToks st (t # us @ rest))"
      using closedReadsE[OF assms(1) dial _ inn] by blast
    obtain i where i: "j = Suc i" using j(1) by (cases j) auto
    have "find (\<lambda>(s, b). checkText s (atToks st (t # us @ rest))) (levelOps k) = Some (s, b)"
      by (rule find_sym[OF distinct_levelOps assms(3,2)])
    moreover have "levelAt (parserAt n) (Suc k) (atToks st (us @ rest)) = Some (Inr (r, atToks st rest))"
      by (rule phrase_done[OF assms(4) dial]) (use len stp in auto)
    moreover have "tokType t \<noteq> EndTok" using assms(2) by (simp add: sym_def)
    ultimately have "tailAt (parserAt n) k j l (atToks st (t # us @ rest)) =
        psLoop i (binStep (parserAt n) k) (BinaryExpr b l r) (atToks st rest)"
      using k by (simp add: tailAt_def i binStep_def ps_simps)
    then show ?thesis using j i by (intro exI[of _ i]) auto
  qed
  show ?thesis
  proof (cases opn)
    case True
    have "levelAt (parserAt n) k (atToks st ((ts @ t # us) @ rest)) = Some (Inr (BinaryExpr b l r, atToks st rest))"
      if "psDialect st = d" "length (ts @ t # us) + length rest < n" "stopped 0 rest" for n rest st
      using step[OF that(1,2)] that(3) True binLoop_stop[OF stopped_mono[OF that(3)] k] by fastforce
    then show ?thesis using True by (simp add: phraseReads_def openReads_def)
  next
    case False
    then show ?thesis using step k by (simp add: phraseReads_def closedReads_def inner_def looped_def tailAt_def)
  qed
qed

section \<open>Expressions, assignments and unary operators\<close>

lemma flat_reads:
  assumes "\<not> looped k"
    and "\<And>m rest st. psDialect st = d \<Longrightarrow> length ts + length rest < Suc m \<Longrightarrow> stopped (if opn then 0 else k) rest \<Longrightarrow>
      levelAt (parserAt (Suc m)) k (atToks st (ts @ rest)) = Some (Inr (e, atToks st rest))"
  shows "phraseReads d opn k ts e"
proof -
  have k: "inner k = k" "tailAt p k j e st = Some (Inr (e, st))" for p j st
    using assms(1) by (auto simp: inner_def looped_def tailAt_def psRet_def)
  have go: "levelAt (parserAt n) k (atToks st (ts @ rest)) = Some (Inr (e, atToks st rest))"
    if "psDialect st = d" "length ts + length rest < n" "stopped (if opn then 0 else k) rest" for n rest st
    using assms(2)[of st rest "n - 1"] that by (cases n) auto
  show ?thesis
  proof (cases opn)
    case True
    then show ?thesis using go by (simp add: phraseReads_def openReads_def)
  next
    case False
    have "\<exists>j. length rest < j \<and> levelAt (parserAt n) k (atToks st (ts @ rest)) = tailAt (parserAt n) k j e (atToks st rest)"
      if "psDialect st = d" "length ts + length rest < n" "stopped k rest" for n rest st
      using go[of st rest n] that False by (auto simp: k)
    then show ?thesis using False by (simp add: phraseReads_def closedReads_def k)
  qed
qed

lemma looped_not [simp]: "\<not> looped 0" "\<not> looped 11" "\<not> looped 12" "looped 13"
  by (simp_all add: looped_def)

lemma stopped_texts: "stopped k rest \<Longrightarrow> s \<in> set (contTexts k) \<Longrightarrow> \<not> checkText s (atToks st rest)"
  unfolding stopped_def stopTok_def by (auto simp: checkText_at)

lemma level_expr: "levelAt p 0 = psBind (levelAt p 1) (\<lambda>c.
    psIf (checkText ''?'')
      (psSeq advance (psBind (recExpr p) (\<lambda>t. psSeq (expectText '':'' ''ternary expression'')
        (psBind (recExpr p) (\<lambda>e. psRet (TernaryExpr c t e))))))
      (psRet c))"
  by (simp add: levelAt_def parseExpr_def parseTernary_def)

lemma reads_simple: "phraseReads d opn 1 ts e \<Longrightarrow> phraseReads d opn 0 ts e"
  by (rule flat_reads, simp, frule stopped_texts[of _ _ "''?''"])
    (auto simp: level_expr ps_simps contTexts_def phrase_done0 split: if_splits)

lemma sym_stop:
  "sym s t \<Longrightarrow> s \<notin> set (contTexts k) \<Longrightarrow> stopped k (t # r)"
  by (simp add: stopped_def stopTok_def sym_def)

lemma sym_expect [simp]: "sym s t \<Longrightarrow> expectText s c (atToks st (t # r)) = Some (Inr (t, atToks st r))"
  by (simp add: expectText_def ps_simps)

lemma closer_stop [simp]:
  "sym '')'' t \<Longrightarrow> stopped k (t # r)" "sym '']'' t \<Longrightarrow> stopped k (t # r)" "sym ''}'' t \<Longrightarrow> stopped k (t # r)"
  "sym '','' t \<Longrightarrow> stopped k (t # r)" "sym '':'' t \<Longrightarrow> stopped k (t # r)" "sym ''..'' t \<Longrightarrow> stopped k (t # r)"
  "sym ''...'' t \<Longrightarrow> stopped k (t # r)" "sym ''?'' t \<Longrightarrow> stopped (Suc 0) (t # r)"
  by (erule sym_stop, simp add: contTexts_def levelOps_def assignOps_def kCompoundOps_def incDecOps_def upt_conv_Cons)+

lemma reads_conditional:
  assumes "phraseReads d False 1 ts c" "sym ''?'' q" "phraseReads d o1 0 us t" "sym '':'' m" "phraseReads d o2 0 vs e"
  shows "phraseReads d True 0 (ts @ q # us @ m # vs) (TernaryExpr c t e)"
proof (rule flat_reads)
  fix i rest and st :: pstate
  assume st: "psDialect st = d" "length (ts @ q # us @ m # vs) + length rest < Suc i" "stopped (if True then 0 else 0) rest"
  have "levelAt (parserAt (Suc i)) 1 (atToks st (ts @ q # us @ m # vs @ rest)) = Some (Inr (c, atToks st (q # us @ m # vs @ rest)))"
    by (rule phrase_done[OF assms(1) st(1)]) (use st assms(2) in auto)
  moreover have "levelAt (parserAt i) 0 (atToks st (us @ m # vs @ rest)) = Some (Inr (t, atToks st (m # vs @ rest)))"
    by (rule phrase_done0[OF assms(3) st(1)]) (use st assms(4) in auto)
  moreover have "levelAt (parserAt i) 0 (atToks st (vs @ rest)) = Some (Inr (e, atToks st rest))"
    by (rule phrase_done0[OF assms(5) st(1)]) (use st in auto)
  ultimately show "levelAt (parserAt (Suc i)) 0 (atToks st ((ts @ q # us @ m # vs) @ rest)) =
      Some (Inr (TernaryExpr c t e, atToks st rest))"
    using assms(2,4) by (simp add: level_expr[of "parserAt (Suc i)"] ps_simps)
qed simp

text \<open>A phrase that starts like a primary expression goes past the casts and the unary operators.\<close>

lemma unary_prim:
  assumes "primStart ts"
  shows "parseUnary p (atToks st ts) = parseOperand p (atToks st ts)"
proof -
  obtain t r where t: "ts = t # r" "startTok t" "tokType t = SymbolTok \<longrightarrow> tokText t = ''('' \<or> tokText t = ''::''"
    "sym ''('' t \<longrightarrow> (\<exists>u r'. r = u # r' \<and> (startTok u \<or> tokType u = SymbolTok))"
    using assms unfolding primStart_def by blast
  have "typeCast (atToks st ts) = Some (Inr (False, atToks st ts))"
  proof (cases "sym ''('' t")
    case True
    then obtain u r' where u: "r = u # r'" "startTok u \<or> tokType u = SymbolTok" using t(4) by blast
    then have "\<not> (tokType u = Keyword \<and> isTypeKeyword u)" by (auto simp: startTok_def isTypeKeyword_def nonTypeKeywords_def)
    then show ?thesis using t(1) u(1) by (auto simp: typeCast_def)
  next
    case False
    then have "\<not> checkText ''('' (atToks st ts)" using t(1,2) by (auto simp: sym_def startTok_def checkText_at)
    then show ?thesis by (simp add: typeCast_def)
  qed
  moreover have "classCast (atToks st ts) = Some (Inr (None, atToks st ts))"
  proof (cases "sym ''('' t")
    case True
    then obtain u r' where u: "r = u # r'" "startTok u \<or> tokType u = SymbolTok" using t(4) by blast
    then have "\<not> (tokType u = Ident \<and> tokText u = ''class'')" by (auto simp: startTok_def)
    then show ?thesis using t(1) u(1) by (auto simp: classCast_def)
  next
    case False
    then have "\<not> checkText ''('' (atToks st ts)" using t(1,2) by (auto simp: sym_def startTok_def checkText_at)
    then show ?thesis by (simp add: classCast_def)
  qed
  moreover have "\<not> checkText ''!'' (atToks st ts)" "\<not> checkText ''-'' (atToks st ts)" "\<not> checkText ''~'' (atToks st ts)"
    "\<not> checkText ''++'' (atToks st ts)" "\<not> checkText ''--'' (atToks st ts)"
    using t(1,2,3) by (auto simp: startTok_def checkText_at)
  ultimately show ?thesis by (simp add: parseUnary_def parseClassCast_def parsePrefixed_def ps_simps)
qed

lemma assignOp_texts: "set (map fst assignOps) = insert ''='' (fst ` set kCompoundOps)"
  by (simp add: assignOps_def image_image case_prod_beta)

lemma cont_assignOps: "set (map fst assignOps) \<subseteq> set (contTexts 11)"
  by (auto simp: contTexts_def)

lemma assignOp_stop:
  assumes "stopped 11 rest"
  shows "assignOp (atToks st rest) = None"
proof -
  have no: "\<not> checkText s (atToks st rest)" if "s \<in> insert ''='' (fst ` set kCompoundOps)" for s
    using stopped_texts[OF assms] cont_assignOps that unfolding assignOp_texts by blast
  have "\<not> checkText ''='' (atToks st rest)" by (rule no) simp
  moreover have "find (\<lambda>(s, b). checkText s (atToks st rest)) kCompoundOps = None"
    unfolding find_None_iff using no by (metis (no_types, lifting) case_prod_beta image_eqI insertCI)
  ultimately show ?thesis by (simp add: assignOp_def)
qed

lemma assignOp_sym:
  assumes "sym s t" "(s, cp, b) \<in> set assignOps"
  shows "assignOp (atToks st (t # r)) = Some (cp, b)"
proof (cases "s = ''=''")
  case True
  then have "\<not> cp \<and> b = BinAdd" using assms(2) by (auto simp: assignOps_def kCompoundOps_def)
  then show ?thesis using True assms(1) by (simp add: assignOp_def)
next
  case False
  then have "(s, b) \<in> set kCompoundOps" "cp" using assms(2) by (auto simp: assignOps_def)
  moreover have "distinct (map fst kCompoundOps)" by (simp add: kCompoundOps_def)
  ultimately show ?thesis using False find_sym[OF _ _ assms(1), where ops = kCompoundOps and b = b and r = r and st = st] assms(1)
    by (simp add: assignOp_def)
qed

lemma level_unary: "levelAt p 11 = parseUnary p"
  by (simp add: levelAt_def)

lemma level_12: "levelAt p 12 = parsePostfix p"
  by (simp add: levelAt_def)

lemma reads_postfix:
  assumes "phraseReads d False 12 ts e" "primStart ts"
  shows "phraseReads d False 11 ts e"
proof (rule flat_reads)
  fix i rest and st :: pstate
  assume st: "psDialect st = d" "length ts + length rest < Suc i" "stopped (if False then 0 else 11) rest"
  have "levelAt (parserAt (Suc i)) 12 (atToks st (ts @ rest)) = Some (Inr (e, atToks st rest))"
    by (rule phrase_done[OF assms(1) st(1,2)]) (use st stopped_mono[of 11] in auto)
  then show "levelAt (parserAt (Suc i)) 11 (atToks st (ts @ rest)) = Some (Inr (e, atToks st rest))"
    using st(3) by (simp add: level_unary level_12 unary_prim[OF primStart_append[OF assms(2)]] parseOperand_def ps_simps assignOp_stop)
qed simp

lemma assign_stop:
  assumes "sym s t" "(s, cp, b) \<in> set assignOps"
  shows "stopped 12 (t # r)"
  using assms by (auto simp: stopped_def stopTok_def sym_def contTexts_def levelOps_def assignOps_def kCompoundOps_def incDecOps_def)

lemma reads_assign:
  assumes "phraseReads d False 12 ts e" "sym s t" "(s, cp, b) \<in> set assignOps" "phraseReads d opn 0 us v"
    "assignTree e v cp b = Some x" "primStart ts"
  shows "phraseReads d True 11 (ts @ t # us) x"
proof (rule flat_reads)
  fix i rest and st :: pstate
  assume st: "psDialect st = d" "length (ts @ t # us) + length rest < Suc i" "stopped (if True then 0 else 11) rest"
  have "levelAt (parserAt (Suc i)) 12 (atToks st (ts @ t # us @ rest)) = Some (Inr (e, atToks st (t # us @ rest)))"
    by (rule phrase_done[OF assms(1) st(1)]) (use st assign_stop[OF assms(2,3)] in auto)
  moreover have "length ts \<noteq> 0" using assms(6) by (auto simp: primStart_def)
  then have "levelAt (parserAt i) 0 (atToks st (us @ rest)) = Some (Inr (v, atToks st rest))"
    using st by (intro phrase_done0[OF assms(4) st(1)]) auto
  moreover have "assignOp (atToks st (t # us @ rest)) = Some (cp, b)" by (rule assignOp_sym[OF assms(2,3)])
  ultimately show "levelAt (parserAt (Suc i)) 11 (atToks st ((ts @ t # us) @ rest)) = Some (Inr (x, atToks st rest))"
    using assms(2,5) by (auto simp: level_unary level_12 unary_prim[OF primStart_append[OF assms(6)]] parseOperand_def ps_simps
      assignTo_def assignTree_def split: ast.splits option.splits)
qed simp

lemma unary_steps:
  assumes "sym s t"
  shows "s \<noteq> ''('' \<Longrightarrow> typeCast (atToks st (t # r)) = Some (Inr (False, atToks st (t # r)))"
    and "s \<noteq> ''('' \<Longrightarrow> classCast (atToks st (t # r)) = Some (Inr (None, atToks st (t # r)))"
  using assms by (simp_all add: typeCast_def classCast_def)

lemma reads_unary:
  assumes "sym s t" "(s, u) \<in> set unaryOps" "phraseReads d opn 11 ts e"
  shows "phraseReads d opn 11 (t # ts) (UnaryExpr u e)"
proof (rule flat_reads)
  fix i rest and st :: pstate
  assume st: "psDialect st = d" "length (t # ts) + length rest < Suc i" "stopped (if opn then 0 else 11) rest"
  have "levelAt (parserAt i) 11 (atToks st (ts @ rest)) = Some (Inr (e, atToks st rest))"
    by (rule phrase_done[OF assms(3) st(1)]) (use st in auto)
  moreover have s: "s \<noteq> ''(''" using assms(2) by (auto simp: unaryOps_def)
  have "s = ''!'' \<and> u = UnNot \<or> s = ''-'' \<and> u = UnNeg \<or> s = ''~'' \<and> u = UnBitNot"
    using assms(2) by (auto simp: unaryOps_def)
  ultimately show "levelAt (parserAt (Suc i)) 11 (atToks st ((t # ts) @ rest)) = Some (Inr (UnaryExpr u e, atToks st rest))"
    using assms(1) by (elim disjE) (simp_all add: level_unary[of "parserAt (Suc i)"] parseUnary_def unary_steps parseClassCast_def
      parsePrefixed_def ps_simps)
qed simp

lemma reads_preInc:
  assumes "sym s t" "(s, o1) \<in> set incDecOps" "phraseReads d opn 11 ts e" "incDecOn o1 True e = Some x"
  shows "phraseReads d opn 11 (t # ts) x"
proof (rule flat_reads)
  fix i rest and st :: pstate
  assume st: "psDialect st = d" "length (t # ts) + length rest < Suc i" "stopped (if opn then 0 else 11) rest"
  have "levelAt (parserAt i) 11 (atToks st (ts @ rest)) = Some (Inr (e, atToks st rest))"
    by (rule phrase_done[OF assms(3) st(1)]) (use st in auto)
  moreover have "s = ''++'' \<and> o1 = Inc \<or> s = ''--'' \<and> o1 = Dec"
    using assms(2) by (auto simp: incDecOps_def)
  ultimately show "levelAt (parserAt (Suc i)) 11 (atToks st ((t # ts) @ rest)) = Some (Inr (x, atToks st rest))"
    using assms(1,4) by (elim disjE) (simp_all add: level_unary[of "parserAt (Suc i)"] parseUnary_def unary_steps parseClassCast_def
      parsePrefixed_def prefixIncDec_def ps_simps)
qed simp

lemma type_no_sym: "isTypeKeyword t \<Longrightarrow> tokType t = Keyword"
  by (simp add: isTypeKeyword_def)

lemma reads_cast:
  assumes "sym ''('' a" "isTypeKeyword ty" "sym '')'' z" "phraseReads d opn 11 ts e"
  shows "phraseReads d opn 11 (a # ty # z # ts) e"
proof (rule flat_reads)
  fix i rest and st :: pstate
  assume st: "psDialect st = d" "length (a # ty # z # ts) + length rest < Suc i" "stopped (if opn then 0 else 11) rest"
  have "levelAt (parserAt i) 11 (atToks st (ts @ rest)) = Some (Inr (e, atToks st rest))"
    by (rule phrase_done[OF assms(4) st(1)]) (use st in auto)
  then show "levelAt (parserAt (Suc i)) 11 (atToks st ((a # ty # z # ts) @ rest)) = Some (Inr (e, atToks st rest))"
    using assms(1-3) type_no_sym[OF assms(2)]
    by (simp add: level_unary[of "parserAt (Suc i)"] parseUnary_def typeCast_def ps_simps)
qed simp

lemma reads_castArray:
  assumes "sym ''('' a" "isTypeKeyword ty" "sym ''*'' m" "sym '')'' z" "phraseReads d opn 11 ts e"
  shows "phraseReads d opn 11 (a # ty # m # z # ts) e"
proof (rule flat_reads)
  fix i rest and st :: pstate
  assume st: "psDialect st = d" "length (a # ty # m # z # ts) + length rest < Suc i" "stopped (if opn then 0 else 11) rest"
  have "levelAt (parserAt i) 11 (atToks st (ts @ rest)) = Some (Inr (e, atToks st rest))"
    by (rule phrase_done[OF assms(5) st(1)]) (use st in auto)
  then show "levelAt (parserAt (Suc i)) 11 (atToks st ((a # ty # m # z # ts) @ rest)) = Some (Inr (e, atToks st rest))"
    using assms(1-4) type_no_sym[OF assms(2)]
    by (simp add: level_unary[of "parserAt (Suc i)"] parseUnary_def typeCast_def ps_simps)
qed simp

section \<open>Postfix expressions\<close>

lemma reads_chain:
  assumes "phraseReads d False 13 ts e"
  shows "phraseReads d False 12 ts e"
proof (rule flat_reads)
  fix i rest and st :: pstate
  assume st: "psDialect st = d" "length ts + length rest < Suc i" "stopped (if False then 0 else 12) rest"
  have "levelAt (parserAt (Suc i)) 13 (atToks st (ts @ rest)) = Some (Inr (e, atToks st rest))"
    by (rule phrase_done[OF assms st(1,2)]) (use st stopped_mono[of 12] in auto)
  moreover have "\<not> checkText ''++'' (atToks st rest)" "\<not> checkText ''--'' (atToks st rest)"
    using st(3) stopped_texts[of 12 rest "''++''" st] stopped_texts[of 12 rest "''--''" st]
    by (simp_all add: contTexts_def incDecOps_def)
  ultimately show "levelAt (parserAt (Suc i)) 12 (atToks st (ts @ rest)) = Some (Inr (e, atToks st rest))"
    by (simp add: level_postfix postfixIncDec_def ps_simps)
qed simp

lemma reads_postInc:
  assumes "phraseReads d False 13 ts e" "sym s t" "(s, o1) \<in> set incDecOps" "incDecOn o1 False e = Some x"
  shows "phraseReads d False 12 (ts @ [t]) x"
proof (rule flat_reads)
  fix i rest and st :: pstate
  assume st: "psDialect st = d" "length (ts @ [t]) + length rest < Suc i" "stopped (if False then 0 else 12) rest"
  have s: "s = ''++'' \<and> o1 = Inc \<or> s = ''--'' \<and> o1 = Dec" using assms(3) by (auto simp: incDecOps_def)
  have "levelAt (parserAt (Suc i)) 13 (atToks st (ts @ t # rest)) = Some (Inr (e, atToks st (t # rest)))"
    by (rule phrase_done[OF assms(1) st(1)]) (use st s sym_stop[OF assms(2), of 13] in \<open>auto simp: contTexts_def\<close>)
  then show "levelAt (parserAt (Suc i)) 12 (atToks st ((ts @ [t]) @ rest)) = Some (Inr (x, atToks st rest))"
    using s assms(2,4) by (auto simp: level_postfix postfixIncDec_def ps_simps)
qed simp

text \<open>A primary expression, and one more operator of a postfix chain.\<close>

lemma level_13: "levelAt p 13 = psBind (parsePrimary p) (psLoop (psFuel p) (postfixStep p))"
  by (simp add: levelAt_def postfixChain_def)

lemma primary_reads:
  assumes "\<And>m rest st. psDialect st = d \<Longrightarrow> length ts + length rest < Suc m \<Longrightarrow> stopped 14 rest \<Longrightarrow>
      parsePrimary (parserAt (Suc m)) (atToks st (ts @ rest)) = Some (Inr (e, atToks st rest))"
  shows "phraseReads d False 13 ts e"
proof -
  have "\<exists>j. length rest < j \<and> levelAt (parserAt n) 13 (atToks st (ts @ rest)) = tailAt (parserAt n) 13 j e (atToks st rest)"
    if "psDialect st = d" "length ts + length rest < n" "stopped 14 rest" for n rest st
    using assms[of st rest "n - 1"] that by (cases n) (auto simp: level_13 tailAt_def ps_simps intro!: exI[of _ n])
  then show ?thesis by (simp add: phraseReads_def closedReads_def inner_def)
qed

lemma chain_reads:
  assumes "phraseReads d False 13 ts e" "us = t # vs" "sym s t" "s = ''->'' \<or> s = ''[''" "ts \<noteq> []"
    and "\<And>m rest st. psDialect st = d \<Longrightarrow> length us + length rest < Suc m \<Longrightarrow> stopped 14 rest \<Longrightarrow>
      postfixStep (parserAt (Suc m)) e (atToks st (us @ rest)) = Some (Inr ((x, True), atToks st rest))"
  shows "phraseReads d False 13 (ts @ us) x"
proof -
  have "\<exists>j. length rest < j \<and> levelAt (parserAt n) 13 (atToks st ((ts @ us) @ rest)) = tailAt (parserAt n) 13 j x (atToks st rest)"
    if dial: "psDialect st = d" and len: "length (ts @ us) + length rest < n" and stp: "stopped 14 rest" for n rest st
  proof -
    have inn: "stopped (inner 13) (us @ rest)"
      using assms(2-4) sym_stop[of s t 14] by (auto simp: inner_def contTexts_def)
    obtain j where j: "length (us @ rest) < j"
      "levelAt (parserAt n) 13 (atToks st (ts @ us @ rest)) = tailAt (parserAt n) 13 j e (atToks st (us @ rest))"
      using closedReadsE[OF assms(1) dial _ inn, of n] len by auto
    obtain i where i: "j = Suc i" using j(1) by (cases j) auto
    obtain m where m: "n = Suc m" using len by (cases n) auto
    have "postfixStep (parserAt n) e (atToks st (us @ rest)) = Some (Inr ((x, True), atToks st rest))"
      unfolding m by (rule assms(6)[OF dial _ stp]) (use len m in simp)
    then have "tailAt (parserAt n) 13 j e (atToks st (us @ rest)) = tailAt (parserAt n) 13 i x (atToks st rest)"
      by (simp add: tailAt_def i ps_simps)
    then show ?thesis using j i assms(2) by (intro exI[of _ i]) auto
  qed
  then show ?thesis by (simp add: phraseReads_def closedReads_def inner_def)
qed

section \<open>Lists of expressions\<close>

definition commaStep :: "parsers \<Rightarrow> ast \<Rightarrow> (ast \<times> bool) pm" where
  "commaStep p left =
     psIf (checkText '','') (psSeq advance (psBind (recExpr p) (\<lambda>right. psRet (CommaExpr left right, True)))) (psRet (left, False))"

lemma comma_expr: "parseCommaExpr p = psBind (recExpr p) (psLoop (psFuel p) (commaStep p))"
  by (simp add: parseCommaExpr_def commaStep_def[abs_def])

definition listStep :: "string \<Rightarrow> 'a pm \<Rightarrow> 'a list \<Rightarrow> ('a list \<times> bool) pm" where
  "listStep c item xs =
     psBind item (\<lambda>x.
       psIf (checkText '','')
         (psSeq advance (psIf (checkText c) (psRet (xs @ [x], False)) (psRet (xs @ [x], True))))
         (psRet (xs @ [x], False)))"

lemma comma_list: "commaList n (Some c) item = psLoop n (listStep c item) []"
  by (simp add: commaList_def listStep_def[abs_def])

definition commaReads :: "LpcDialect \<Rightarrow> token list \<Rightarrow> ast \<Rightarrow> bool" where
  "commaReads d ts e \<longleftrightarrow>
     (\<forall>n rest st. psDialect st = d \<longrightarrow> length ts + length rest < n \<longrightarrow> stopped 0 rest \<longrightarrow>
        (\<exists>j. length rest < j \<and>
           parseCommaExpr (parserAt (Suc n)) (atToks st (ts @ rest)) = psLoop j (commaStep (parserAt (Suc n))) e (atToks st rest)))"

definition elemReads :: "LpcDialect \<Rightarrow> token list \<Rightarrow> ast \<times> bool \<Rightarrow> bool" where
  "elemReads d ts x \<longleftrightarrow>
     (\<forall>n c t r st. psDialect st = d \<longrightarrow> length ts + length (t # r) < n \<longrightarrow> sym c t \<longrightarrow> c \<in> {'','', '')'', ''}''} \<longrightarrow>
        spreadElem (parserAt (Suc n)) (atToks st (ts @ t # r)) = Some (Inr (x, atToks st (t # r))))"

definition elemsReads :: "LpcDialect \<Rightarrow> token list \<Rightarrow> (ast \<times> bool) list \<Rightarrow> bool" where
  "elemsReads d ts xs \<longleftrightarrow>
     (\<forall>n j c t r st acc. psDialect st = d \<longrightarrow> length ts + length (t # r) < n \<longrightarrow> length ts < j \<longrightarrow> sym c t \<longrightarrow> c \<in> {'')'', ''}''} \<longrightarrow>
        psLoop j (listStep c (spreadElem (parserAt (Suc n)))) acc (atToks st (ts @ t # r)) = Some (Inr (acc @ xs, atToks st (t # r))))"

definition argsReads :: "LpcDialect \<Rightarrow> token list \<Rightarrow> (ast \<times> bool) list \<Rightarrow> bool" where
  "argsReads d ts es \<longleftrightarrow>
     (\<forall>n c t r st. psDialect st = d \<longrightarrow> length ts + length (t # r) < n \<longrightarrow> sym c t \<longrightarrow> c \<in> {'')'', ''}''} \<longrightarrow>
        psIf (checkText c) (psRet []) (commaList (Suc n) (Some c) (spreadElem (parserAt (Suc n)))) (atToks st (ts @ t # r)) =
        Some (Inr (es, atToks st (t # r))))"

lemma reads_comma1:
  assumes "phraseReads d opn 0 ts e"
  shows "commaReads d ts e"
  unfolding commaReads_def
proof (intro allI impI)
  fix n rest and st :: pstate
  assume st: "psDialect st = d" "length ts + length rest < n" "stopped 0 rest"
  then show "\<exists>j. length rest < j \<and>
      parseCommaExpr (parserAt (Suc n)) (atToks st (ts @ rest)) = psLoop j (commaStep (parserAt (Suc n))) e (atToks st rest)"
    using phrase_done0[OF assms st] by (intro exI[of _ "Suc n"]) (simp add: comma_expr ps_simps del: psLoop.simps)
qed

lemma reads_commaMore:
  assumes "commaReads d ts l" "sym '','' c" "phraseReads d opn 0 us r"
  shows "commaReads d (ts @ c # us) (CommaExpr l r)"
  unfolding commaReads_def
proof (intro allI impI)
  fix n rest and st :: pstate
  assume st: "psDialect st = d" "length (ts @ c # us) + length rest < n" "stopped 0 rest"
  have "length ts + length (c # us @ rest) < n" "stopped 0 (c # us @ rest)" using st(2) assms(2) by simp_all
  then obtain j where j: "length (c # us @ rest) < j" "parseCommaExpr (parserAt (Suc n)) (atToks st (ts @ c # us @ rest)) =
      psLoop j (commaStep (parserAt (Suc n))) l (atToks st (c # us @ rest))"
    using assms(1) st(1) unfolding commaReads_def by blast
  obtain i where i: "j = Suc i" using j(1) by (cases j) auto
  have "levelAt (parserAt n) 0 (atToks st (us @ rest)) = Some (Inr (r, atToks st rest))"
    by (rule phrase_done0[OF assms(3) st(1)]) (use st in auto)
  then have "psLoop j (commaStep (parserAt (Suc n))) l (atToks st (c # us @ rest)) =
      psLoop i (commaStep (parserAt (Suc n))) (CommaExpr l r) (atToks st rest)"
    using assms(2) by (simp add: i commaStep_def ps_simps)
  then show "\<exists>j. length rest < j \<and> parseCommaExpr (parserAt (Suc n)) (atToks st ((ts @ c # us) @ rest)) =
      psLoop j (commaStep (parserAt (Suc n))) (CommaExpr l r) (atToks st rest)"
    using j i by (intro exI[of _ i]) auto
qed

lemma comma_done:
  assumes "commaReads d ts e" "psDialect st = d" "length ts + length (t # r) < n" "sym c t" "c = '')'' \<or> c = '']''"
  shows "parseCommaExpr (parserAt (Suc n)) (atToks st (ts @ t # r)) = Some (Inr (e, atToks st (t # r)))"
proof -
  have "stopped 0 (t # r)" using assms(4,5) by auto
  then obtain j where j: "length (t # r) < j" "parseCommaExpr (parserAt (Suc n)) (atToks st (ts @ t # r)) =
      psLoop j (commaStep (parserAt (Suc n))) e (atToks st (t # r))"
    using assms unfolding commaReads_def by blast
  then show ?thesis using assms(4,5) by (cases j) (auto simp: commaStep_def ps_simps)
qed

lemma reads_elem:
  assumes "phraseReads d opn 0 ts e"
  shows "elemReads d ts (e, False)"
  unfolding elemReads_def
proof (intro allI impI)
  fix n c t r and st :: pstate
  assume st: "psDialect st = d" "length ts + length (t # r) < n" "sym c t" "c \<in> {'','', '')'', ''}''}"
  have "levelAt (parserAt n) 0 (atToks st (ts @ t # r)) = Some (Inr (e, atToks st (t # r)))"
    by (rule phrase_done0[OF assms st(1,2)]) (use st in auto)
  then show "spreadElem (parserAt (Suc n)) (atToks st (ts @ t # r)) = Some (Inr ((e, False), atToks st (t # r)))"
    using st(3,4) by (auto simp: spreadElem_def ps_simps)
qed

lemma reads_elemSpread:
  assumes "phraseReads d opn 0 ts e" "sym ''...'' x"
  shows "elemReads d (ts @ [x]) (e, True)"
  unfolding elemReads_def
proof (intro allI impI)
  fix n c t r and st :: pstate
  assume st: "psDialect st = d" "length (ts @ [x]) + length (t # r) < n" "sym c t" "c \<in> {'','', '')'', ''}''}"
  have "levelAt (parserAt n) 0 (atToks st (ts @ x # t # r)) = Some (Inr (e, atToks st (x # t # r)))"
    by (rule phrase_done0[OF assms(1) st(1)]) (use st assms(2) in auto)
  then show "spreadElem (parserAt (Suc n)) (atToks st ((ts @ [x]) @ t # r)) = Some (Inr ((e, True), atToks st (t # r)))"
    using assms(2) by (simp add: spreadElem_def ps_simps)
qed

lemma elem_step:
  assumes "elemReads d ts x" "psDialect st = d" "length ts + length (t # r) < n" "sym s t" "s \<in> {'','', '')'', ''}''}"
  shows "spreadElem (parserAt (Suc n)) (atToks st (ts @ t # r)) = Some (Inr (x, atToks st (t # r)))"
  using assms unfolding elemReads_def by blast

lemma reads_elems1:
  assumes "elemReads d ts x"
  shows "elemsReads d ts [x]"
  unfolding elemsReads_def
proof (intro allI impI)
  fix n j c t r acc and st :: pstate
  assume st: "psDialect st = d" "length ts + length (t # r) < n" "length ts < j" "sym c t" "c \<in> {'')'', ''}''}"
  have "spreadElem (parserAt (Suc n)) (atToks st (ts @ t # r)) = Some (Inr (x, atToks st (t # r)))"
    by (rule elem_step[OF assms st(1,2,4)]) (use st in auto)
  then show "psLoop j (listStep c (spreadElem (parserAt (Suc n)))) acc (atToks st (ts @ t # r)) = Some (Inr (acc @ [x], atToks st (t # r)))"
    using st(3,4,5) by (cases j) (auto simp: listStep_def ps_simps)
qed

lemma reads_elemsTrailing:
  assumes "elemReads d ts x" "sym '','' k"
  shows "elemsReads d (ts @ [k]) [x]"
  unfolding elemsReads_def
proof (intro allI impI)
  fix n j c t r acc and st :: pstate
  assume st: "psDialect st = d" "length (ts @ [k]) + length (t # r) < n" "length (ts @ [k]) < j" "sym c t" "c \<in> {'')'', ''}''}"
  have "spreadElem (parserAt (Suc n)) (atToks st (ts @ k # t # r)) = Some (Inr (x, atToks st (k # t # r)))"
    by (rule elem_step[OF assms(1) st(1) _ assms(2)]) (use st in auto)
  then show "psLoop j (listStep c (spreadElem (parserAt (Suc n)))) acc (atToks st ((ts @ [k]) @ t # r)) =
      Some (Inr (acc @ [x], atToks st (t # r)))"
    using st(3,4) assms(2) by (cases j) (auto simp: listStep_def ps_simps)
qed

lemma start_no_close:
  assumes "goodStart ts" "c \<in> {'')'', ''}''}"
  shows "\<not> checkText c (atToks st (ts @ r))"
  using assms unfolding goodStart_def startTok_def by (auto simp: checkText_at)

lemma reads_elemsMore:
  assumes "elemReads d ts x" "sym '','' k" "elemsReads d us xs" "goodStart us"
  shows "elemsReads d (ts @ k # us) (x # xs)"
  unfolding elemsReads_def
proof (intro allI impI)
  fix n j c t r acc and st :: pstate
  assume st: "psDialect st = d" "length (ts @ k # us) + length (t # r) < n" "length (ts @ k # us) < j" "sym c t" "c \<in> {'')'', ''}''}"
  obtain i where i: "j = Suc i" using st(3) by (cases j) auto
  have "spreadElem (parserAt (Suc n)) (atToks st (ts @ k # us @ t # r)) = Some (Inr (x, atToks st (k # us @ t # r)))"
    by (rule elem_step[OF assms(1) st(1) _ assms(2)]) (use st in auto)
  moreover have "psLoop i (listStep c (spreadElem (parserAt (Suc n)))) (acc @ [x]) (atToks st (us @ t # r)) =
      Some (Inr ((acc @ [x]) @ xs, atToks st (t # r)))"
    using assms(3) st i unfolding elemsReads_def by auto
  moreover have "\<not> checkText c (atToks st (us @ t # r))" by (rule start_no_close[OF assms(4) st(5)])
  ultimately show "psLoop j (listStep c (spreadElem (parserAt (Suc n)))) acc (atToks st ((ts @ k # us) @ t # r)) =
      Some (Inr (acc @ x # xs, atToks st (t # r)))"
    using assms(2) by (simp add: i listStep_def ps_simps)
qed

lemma reads_args0: "argsReads d [] []"
  by (simp add: argsReads_def ps_simps)

lemma reads_args1:
  assumes "elemsReads d ts es" "goodStart ts"
  shows "argsReads d ts es"
  unfolding argsReads_def comma_list
proof (intro allI impI)
  fix n c t r and st :: pstate
  assume st: "psDialect st = d" "length ts + length (t # r) < n" "sym c t" "c \<in> {'')'', ''}''}"
  have "psLoop (Suc n) (listStep c (spreadElem (parserAt (Suc n)))) [] (atToks st (ts @ t # r)) = Some (Inr ([] @ es, atToks st (t # r)))"
    using assms(1) st unfolding elemsReads_def by (auto simp del: psLoop.simps)
  then show "psIf (checkText c) (psRet []) (psLoop (Suc n) (listStep c (spreadElem (parserAt (Suc n)))) []) (atToks st (ts @ t # r)) =
      Some (Inr (es, atToks st (t # r)))"
    using start_no_close[OF assms(2) st(4)] by (simp add: psIf_def del: psLoop.simps)
qed

lemma callArgs_reads:
  assumes "argsReads d ts es" "psDialect st = d" "Suc (length ts + length rest) < n" "sym ''('' a" "sym '')'' z"
  shows "callArgs (parserAt (Suc n)) ctx (atToks st (a # ts @ z # rest)) = Some (Inr ((map fst es, spreadFlags es), atToks st rest))"
    and "psSeq advance (psBind (parseArgList (parserAt (Suc n))) (\<lambda>(x, y). psSeq (expectText '')'' ctx) (f x y))) (atToks st (a # ts @ z # rest)) =
      f (map fst es) (spreadFlags es) (atToks st rest)"
proof -
  have "psIf (checkText '')'') (psRet []) (commaList (Suc n) (Some '')'') (spreadElem (parserAt (Suc n)))) (atToks st (ts @ z # rest)) =
      Some (Inr (es, atToks st (z # rest)))"
    using assms unfolding argsReads_def by auto
  then have "parseArgList (parserAt (Suc n)) (atToks st (ts @ z # rest)) = Some (Inr ((map fst es, spreadFlags es), atToks st (z # rest)))"
    by (auto simp: parseArgList_def ps_simps spreadFlags_def split: if_splits)
  then show "callArgs (parserAt (Suc n)) ctx (atToks st (a # ts @ z # rest)) = Some (Inr ((map fst es, spreadFlags es), atToks st rest))"
    "psSeq advance (psBind (parseArgList (parserAt (Suc n))) (\<lambda>(x, y). psSeq (expectText '')'' ctx) (f x y))) (atToks st (a # ts @ z # rest)) =
      f (map fst es) (spreadFlags es) (atToks st rest)"
    using assms(4,5) by (simp_all add: callArgs_def ps_simps)
qed

section \<open>Primary expressions\<close>

lemma primary_ident:
  assumes "tokType t = Ident"
  shows "parsePrimary p (atToks st (t # r)) = parseIdentifier p (atToks st (t # r))"
  using assms by (simp add: parsePrimary_def nextIs_def psIf_def)

lemma primary_paren:
  assumes "sym ''('' a"
  shows "tokText u \<notin> {''['', '':'', ''*'', ''{''} \<Longrightarrow> parsePrimary p (atToks st (a # u # r)) = parseParenthesized p (atToks st (a # u # r))"
    and "tokText u = ''{'' \<Longrightarrow> parsePrimary p (atToks st (a # u # r)) = parseArrayLiteral p (atToks st (a # u # r))"
  using assms sym_def[of "''(''" a] by (simp_all add: parsePrimary_def nextIs_def psIf_def)

lemma primary_parent:
  assumes "sym ''::'' c"
  shows "parsePrimary p (atToks st (c # r)) = parseParentCall p (atToks st (c # r))"
  using assms sym_def[of "''::''" c] by (simp add: parsePrimary_def nextIs_def psIf_def)

lemma ident_advance [simp]:
  "tokType t = Ident \<Longrightarrow> advanceText (atToks st (t # r)) = Some (Inr (tokText t, atToks st r))"
  "tokType t = Ident \<Longrightarrow> expectName c (atToks st (t # r)) = Some (Inr (tokText t, atToks st r))"
  by (simp_all add: advanceText_def expectName_def expect_def ps_simps)

lemma reads_number:
  assumes "tokType t = Number" "numberLiteral (tokText t) = Inr e"
  shows "phraseReads d False 13 [t] e"
  by (rule primary_reads) (use assms in \<open>simp add: parsePrimary_def parseNumberLiteral_def advanceText_def psLift_def ps_simps\<close>)

lemma reads_quotedSym:
  assumes "tokType t = QuotedSymbol"
  shows "phraseReads d False 13 [t] (SymbolLiteralExpr (tokText t))"
  by (rule primary_reads) (use assms in \<open>simp add: parsePrimary_def advanceText_def ps_simps\<close>)

lemma reads_nil:
  assumes "tokType t = Keyword" "tokText t = ''nil''"
  shows "phraseReads DGD False 13 [t] NilLiteral"
  by (rule primary_reads) (use assms in \<open>simp add: parsePrimary_def ps_simps\<close>)

lemma string_loop:
  assumes "\<forall>t\<in>set ts. tokType t = StringTok" "stopped 14 rest" "length ts < j"
  shows "psLoop j (\<lambda>v. psIf (check StringTok) (psBind advanceText (\<lambda>u. psRet (v @ u, True))) (psRet (v, False))) v
      (atToks st (ts @ rest)) = Some (Inr (v @ concat (map tokText ts), atToks st rest))"
  using assms
proof (induction ts arbitrary: j v)
  case Nil
  then obtain t r where "rest = t # r" "tokType t \<noteq> StringTok" by (auto simp: stopped_def stopTok_def)
  then show ?case using Nil.prems by (cases j) (simp_all add: ps_simps)
next
  case (Cons t ts)
  then show ?case by (cases j) (simp_all add: ps_simps advanceText_def)
qed

lemma reads_strings:
  assumes "ts \<noteq> []" "\<forall>t\<in>set ts. tokType t = StringTok"
  shows "phraseReads d False 13 ts (StringLiteral (concat (map tokText ts)))"
proof (rule primary_reads)
  fix m and rest :: "token list" and st :: pstate
  assume st: "length ts + length rest < Suc m" "stopped 14 rest"
  obtain t us where ts: "ts = t # us" using assms(1) by (cases ts) auto
  show "parsePrimary (parserAt (Suc m)) (atToks st (ts @ rest)) = Some (Inr (StringLiteral (concat (map tokText ts)), atToks st rest))"
    using string_loop[of us rest "Suc m" "tokText t" st] assms(2) st
    by (simp add: ts parsePrimary_def parseStringLiteral_def advanceText_def ps_simps del: psLoop.simps)
qed

lemma plain_not [simp]:
  assumes "plainName t"
  shows "tokType t = Ident" "tokText t \<noteq> ''new''" "tokText t \<noteq> ''efun''" "tokText t \<noteq> ''catch''" "tokText t \<noteq> ''time_expression''"
    "tokText t \<noteq> ''sscanf''" "tokText t \<noteq> ''call_other''" "\<not> (tokText t \<noteq> [] \<and> hd (tokText t) = CHR ''$'')"
  using assms by (auto simp: plainName_def reservedNames_def)

lemma reads_variable:
  assumes "plainName t"
  shows "phraseReads d False 13 [t] (VarRefExpr (tokText t))"
proof (rule primary_reads)
  fix m and rest :: "token list" and st :: pstate
  assume "stopped 14 rest"
  then have "\<not> checkText ''('' (atToks st rest)" "\<not> checkText ''::'' (atToks st rest)"
    using stopped_texts[of 14 rest "''(''" st] stopped_texts[of 14 rest "''::''" st] by (simp_all add: contTexts_def)
  then show "parsePrimary (parserAt (Suc m)) (atToks st ([t] @ rest)) = Some (Inr (VarRefExpr (tokText t), atToks st rest))"
    using plain_not[OF assms] by (auto simp: primary_ident parseIdentifier_def ps_simps)
qed

lemma reads_paren:
  assumes "sym ''('' a" "commaReads d ts e" "tokText (hd ts) \<notin> {''['', '':'', ''*'', ''{''}" "sym '')'' z" "goodStart ts"
  shows "phraseReads d False 13 (a # ts @ [z]) e"
proof (rule primary_reads)
  fix m and rest :: "token list" and st :: pstate
  assume st: "psDialect st = d" "length (a # ts @ [z]) + length rest < Suc m"
  obtain u us where ts: "ts = u # us" using assms(5) by (auto simp: goodStart_def)
  have "parseCommaExpr (parserAt (Suc m)) (atToks st (ts @ z # rest)) = Some (Inr (e, atToks st (z # rest)))"
    by (rule comma_done[OF assms(2) st(1) _ assms(4)]) (use st in auto)
  then show "parsePrimary (parserAt (Suc m)) (atToks st ((a # ts @ [z]) @ rest)) = Some (Inr (e, atToks st rest))"
    using assms(1,3,4) primary_paren(1)[OF assms(1), of u] by (simp add: ts parseParenthesized_def ps_simps)
qed

lemma reads_array:
  assumes "sym ''('' a" "sym ''{'' b" "argsReads d ts es" "sym ''}'' y" "sym '')'' z"
  shows "phraseReads d False 13 (a # b # ts @ [y, z]) (ArrayLiteralExpr (map fst es) (spreadFlags es))"
proof (rule primary_reads)
  fix m and rest :: "token list" and st :: pstate
  assume st: "psDialect st = d" "length (a # b # ts @ [y, z]) + length rest < Suc m"
  have "psIf (checkText ''}'') (psRet []) (commaList (Suc m) (Some ''}'') (spreadElem (parserAt (Suc m)))) (atToks st (ts @ y # z # rest)) =
      Some (Inr (es, atToks st (y # z # rest)))"
    using assms(3,4) st unfolding argsReads_def by auto
  moreover have "tokText b = ''{''" using assms(2) by (simp add: sym_def)
  ultimately show "parsePrimary (parserAt (Suc m)) (atToks st ((a # b # ts @ [y, z]) @ rest)) =
      Some (Inr (ArrayLiteralExpr (map fst es) (spreadFlags es), atToks st rest))"
    using assms(1,2,4,5) primary_paren(2)[OF assms(1), of b]
    by (simp add: parseArrayLiteral_def psBind_def psSeq_def psRet_def)
qed

lemma reads_call:
  assumes "plainName n" "sym ''('' a" "argsReads d ts es" "sym '')'' z"
  shows "phraseReads d False 13 (n # a # ts @ [z]) (CallExpr (tokText n) (map fst es) (spreadFlags es) False False [])"
proof (rule primary_reads)
  fix m and rest :: "token list" and st :: pstate
  assume st: "psDialect st = d" "length (n # a # ts @ [z]) + length rest < Suc m"
  have "parseNamedCall (parserAt (Suc m)) (tokText n) (atToks st (a # ts @ z # rest)) =
      Some (Inr (CallExpr (tokText n) (map fst es) (spreadFlags es) False False [], atToks st rest))"
    using st plain_not[OF assms(1)]
    by (simp add: parseNamedCall_def psLift_def callArgs_reads(2)[OF assms(3) st(1) _ assms(2,4)])
  then show "parsePrimary (parserAt (Suc m)) (atToks st ((n # a # ts @ [z]) @ rest)) =
      Some (Inr (CallExpr (tokText n) (map fst es) (spreadFlags es) False False [], atToks st rest))"
    using plain_not[OF assms(1)] assms(2) by (auto simp: primary_ident parseIdentifier_def ps_simps)
qed

lemma reads_efunCall:
  assumes "tokType u = Ident" "tokText u = ''efun''" "sym ''::'' c" "tokType n = Ident" "sym ''('' a" "argsReads d ts es" "sym '')'' z"
  shows "phraseReads d False 13 (u # c # n # a # ts @ [z]) (CallExpr (tokText n) (map fst es) (spreadFlags es) True False [])"
proof (rule primary_reads)
  fix m and rest :: "token list" and st :: pstate
  assume st: "psDialect st = d" "length (u # c # n # a # ts @ [z]) + length rest < Suc m"
  show "parsePrimary (parserAt (Suc m)) (atToks st ((u # c # n # a # ts @ [z]) @ rest)) =
      Some (Inr (CallExpr (tokText n) (map fst es) (spreadFlags es) True False [], atToks st rest))"
    using callArgs_reads(1)[OF assms(6) st(1) _ assms(5,7), of rest m] st assms(1-4)
    by (simp add: primary_ident parseIdentifier_def parseEfunCall_def ps_simps)
qed

lemma qualified_reads:
  assumes "sym ''::'' c" "tokType n = Ident" "sym ''('' a" "argsReads d ts es" "sym '')'' z" "psDialect st = d"
    "Suc (length ts + length rest) < m"
  shows "parseQualifiedParentCall (parserAt (Suc m)) q (atToks st (c # n # a # ts @ z # rest)) =
      Some (Inr (CallExpr (tokText n) (map fst es) (spreadFlags es) False True q, atToks st rest))"
  using callArgs_reads(1)[OF assms(4,6,7,3,5)] assms(1,2) by (simp add: parseQualifiedParentCall_def ps_simps)

lemma reads_parentCall:
  assumes "sym ''::'' c" "tokType n = Ident" "sym ''('' a" "argsReads d ts es" "sym '')'' z"
  shows "phraseReads d False 13 (c # n # a # ts @ [z]) (CallExpr (tokText n) (map fst es) (spreadFlags es) False True [])"
proof (rule primary_reads)
  fix m and rest :: "token list" and st :: pstate
  assume st: "psDialect st = d" "length (c # n # a # ts @ [z]) + length rest < Suc m"
  show "parsePrimary (parserAt (Suc m)) (atToks st ((c # n # a # ts @ [z]) @ rest)) =
      Some (Inr (CallExpr (tokText n) (map fst es) (spreadFlags es) False True [], atToks st rest))"
    using callArgs_reads(1)[OF assms(4) st(1) _ assms(3,5), of rest m] st assms(1,2)
    by (simp add: primary_parent parseParentCall_def ps_simps)
qed

lemma reads_qualifiedCall:
  assumes "plainName q" "sym ''::'' c" "tokType n = Ident" "sym ''('' a" "argsReads d ts es" "sym '')'' z"
  shows "phraseReads d False 13 (q # c # n # a # ts @ [z]) (CallExpr (tokText n) (map fst es) (spreadFlags es) False True (tokText q))"
proof (rule primary_reads)
  fix m and rest :: "token list" and st :: pstate
  assume st: "psDialect st = d" "length (q # c # n # a # ts @ [z]) + length rest < Suc m"
  have "parseQualifiedParentCall (parserAt (Suc m)) (tokText q) (atToks st (c # n # a # ts @ z # rest)) =
      Some (Inr (CallExpr (tokText n) (map fst es) (spreadFlags es) False True (tokText q), atToks st rest))"
    by (rule qualified_reads[OF assms(2-6) st(1)]) (use st in simp)
  then show "parsePrimary (parserAt (Suc m)) (atToks st ((q # c # n # a # ts @ [z]) @ rest)) =
      Some (Inr (CallExpr (tokText n) (map fst es) (spreadFlags es) False True (tokText q), atToks st rest))"
    using plain_not[OF assms(1)] assms(2) by (auto simp: primary_ident parseIdentifier_def ps_simps)
qed

lemma reads_catch:
  assumes "tokType n = Ident" "tokText n = ''catch''" "sym ''('' a" "commaReads d ts e" "sym '')'' z"
  shows "phraseReads d False 13 (n # a # ts @ [z]) (CatchExpr e)"
proof (rule primary_reads)
  fix m and rest :: "token list" and st :: pstate
  assume st: "psDialect st = d" "length (n # a # ts @ [z]) + length rest < Suc m"
  have "parseCommaExpr (parserAt (Suc m)) (atToks st (ts @ z # rest)) = Some (Inr (e, atToks st (z # rest)))"
    by (rule comma_done[OF assms(4) st(1) _ assms(5)]) (use st in auto)
  then show "parsePrimary (parserAt (Suc m)) (atToks st ((n # a # ts @ [z]) @ rest)) = Some (Inr (CatchExpr e, atToks st rest))"
    using assms by (simp add: primary_ident parseIdentifier_def parseCatch_def ps_simps)
qed

section \<open>Postfix operators\<close>

lemma reads_send:
  assumes "phraseReads d False 13 ts e" "sym ''->'' w" "tokType n = Ident" "sym ''('' a" "argsReads d us es" "sym '')'' z" "ts \<noteq> []"
  shows "phraseReads d False 13 (ts @ w # n # a # us @ [z]) (CallOtherExpr e (StringLiteral (tokText n)) (map fst es) (spreadFlags es))"
proof (rule chain_reads[OF assms(1) refl assms(2) _ assms(7)])
  fix m and rest :: "token list" and st :: pstate
  assume st: "psDialect st = d" "length (w # n # a # us @ [z]) + length rest < Suc m"
  show "postfixStep (parserAt (Suc m)) e (atToks st ((w # n # a # us @ [z]) @ rest)) =
      Some (Inr ((CallOtherExpr e (StringLiteral (tokText n)) (map fst es) (spreadFlags es), True), atToks st rest))"
    using callArgs_reads(1)[OF assms(5) st(1) _ assms(4,6), of rest m] st assms(2,3,4)
    by (simp add: postfixStep_def parseArrow_def ps_simps)
qed simp

lemma reads_field:
  assumes "phraseReads FluffOS False 13 ts e" "sym ''->'' w" "tokType n = Ident" "ts \<noteq> []"
  shows "phraseReads FluffOS False 13 (ts @ [w, n]) (IndexExpr e (MemberNameMarker (tokText n)) None False False None)"
proof (rule chain_reads[OF assms(1) refl assms(2) _ assms(4)])
  fix m and rest :: "token list" and st :: pstate
  assume st: "psDialect st = FluffOS" "stopped 14 rest"
  have "\<not> checkText ''('' (atToks st rest)" using stopped_texts[OF st(2)] by (simp add: contTexts_def)
  then show "postfixStep (parserAt (Suc m)) e (atToks st ([w, n] @ rest)) =
      Some (Inr ((IndexExpr e (MemberNameMarker (tokText n)) None False False None, True), atToks st rest))"
    using st(1) assms(2,3) by (simp add: postfixStep_def parseArrow_def ps_simps)
qed simp

lemma not_fromEnd:
  assumes "goodStart us"
  shows "fromEnd (atToks st (us @ r)) = Some (Inr (False, atToks st (us @ r)))" "\<not> checkText '']'' (atToks st (us @ r))"
  using assms unfolding goodStart_def startTok_def by (auto simp: fromEnd_def ps_simps checkText_at)

lemma reads_index:
  assumes "phraseReads d False 13 ts e" "sym ''['' a" "commaReads d us i" "d \<noteq> LdMud" "sym '']'' z" "ts \<noteq> []" "goodStart us"
  shows "phraseReads d False 13 (ts @ a # us @ [z]) (IndexExpr e i None False False None)"
proof (rule chain_reads[OF assms(1) refl assms(2) _ assms(6)])
  fix m and rest :: "token list" and st :: pstate
  assume st: "psDialect st = d" "length (a # us @ [z]) + length rest < Suc m"
  have "parseCommaExpr (parserAt (Suc m)) (atToks st (us @ z # rest)) = Some (Inr (i, atToks st (z # rest)))"
    by (rule comma_done[OF assms(3) st(1) _ assms(5)]) (use st in auto)
  then show "postfixStep (parserAt (Suc m)) e (atToks st ((a # us @ [z]) @ rest)) =
      Some (Inr ((IndexExpr e i None False False None, True), atToks st rest))"
    using assms(2,4,5) st(1) not_fromEnd(1)[OF assms(7)] by (simp add: postfixStep_def parseIndex_def ps_simps)
qed simp

lemma reads_indexLd:
  assumes "phraseReads LdMud False 13 ts e" "sym ''['' a" "phraseReads LdMud opn 0 us i" "sym '']'' z" "ts \<noteq> []" "goodStart us"
  shows "phraseReads LdMud False 13 (ts @ a # us @ [z]) (IndexExpr e i None False False None)"
proof (rule chain_reads[OF assms(1) refl assms(2) _ assms(5)])
  fix m and rest :: "token list" and st :: pstate
  assume st: "psDialect st = LdMud" "length (a # us @ [z]) + length rest < Suc m"
  have "levelAt (parserAt m) 0 (atToks st (us @ z # rest)) = Some (Inr (i, atToks st (z # rest)))"
    by (rule phrase_done0[OF assms(3) st(1)]) (use st assms(4) in auto)
  then show "postfixStep (parserAt (Suc m)) e (atToks st ((a # us @ [z]) @ rest)) =
      Some (Inr ((IndexExpr e i None False False None, True), atToks st rest))"
    using assms(2,4) st(1) not_fromEnd(1)[OF assms(6)] by (simp add: postfixStep_def parseIndex_def ps_simps)
qed simp

lemma start_expr:
  assumes "phraseReads d opn 0 us i" "psDialect st = d" "length us + length (t # r) < m" "sym s t" "s = ''..'' \<or> s = '']''" "goodStart us"
  shows "psIf (\<lambda>st. psDialect st = LdMud) (recExpr (parserAt (Suc m))) (parseCommaExpr (parserAt (Suc m))) (atToks st (us @ t # r)) =
      Some (Inr (i, atToks st (t # r)))"
proof -
  have "levelAt (parserAt m) 0 (atToks st (us @ t # r)) = Some (Inr (i, atToks st (t # r)))"
    by (rule phrase_done0[OF assms(1,2,3)]) (use assms(4,5) in auto)
  then show ?thesis using assms(4,5) by (auto simp: comma_expr ps_simps commaStep_def)
qed

lemma reads_range:
  assumes "phraseReads d False 13 ts e" "sym ''['' a" "phraseReads d opn 0 us i" "sym ''..'' x" "phraseReads d opn' 0 vs j" "sym '']'' z"
    "ts \<noteq> []" "goodStart us" "goodStart vs"
  shows "phraseReads d False 13 (ts @ a # us @ x # vs @ [z]) (IndexExpr e i (Some j) False False None)"
proof (rule chain_reads[OF assms(1) refl assms(2) _ assms(7)])
  fix m and rest :: "token list" and st :: pstate
  assume st: "psDialect st = d" "length (a # us @ x # vs @ [z]) + length rest < Suc m"
  have "psIf (\<lambda>st. psDialect st = LdMud) (recExpr (parserAt (Suc m))) (parseCommaExpr (parserAt (Suc m))) (atToks st (us @ x # vs @ z # rest)) =
      Some (Inr (i, atToks st (x # vs @ z # rest)))"
    by (rule start_expr[OF assms(3) st(1) _ assms(4) _ assms(8)]) (use st in auto)
  moreover have "levelAt (parserAt m) 0 (atToks st (vs @ z # rest)) = Some (Inr (j, atToks st (z # rest)))"
    by (rule phrase_done0[OF assms(5) st(1)]) (use st assms(6) in auto)
  ultimately show "postfixStep (parserAt (Suc m)) e (atToks st ((a # us @ x # vs @ [z]) @ rest)) =
      Some (Inr ((IndexExpr e i (Some j) False False None, True), atToks st rest))"
    using assms(2,4,6) not_fromEnd(1)[OF assms(8)] not_fromEnd[OF assms(9)]
    by (simp add: postfixStep_def parseIndex_def parseRangeEnd_def psBind_def psSeq_def psRet_def psIf_def[of "checkText s" for s]
      psIf_def[of "\<lambda>st. checkText s st \<and> psDialect st = LdMud" for s])
qed simp

section \<open>The parser reads the grammar\<close>

lemma start_nonempty: "goodStart ts \<Longrightarrow> ts \<noteq> []"
  by (auto simp: goodStart_def)

lemma phrase_nonempty: "phrase d opn k ts e \<Longrightarrow> ts \<noteq> []"
  using phrase_starts(1) start_nonempty by blast

lemma phrase_goodStart: "phrase d opn k ts e \<Longrightarrow> goodStart ts"
  using phrase_starts(1) by blast

lemma phrase_primStart: "phrase d opn 12 ts e \<Longrightarrow> primStart ts"
  using phrase_starts(1) by force

lemma grammar_reads:
  shows "phrase d opn k ts e \<Longrightarrow> phraseReads d opn k ts e"
    and "commas d ts e \<Longrightarrow> commaReads d ts e"
    and "elem d ts x \<Longrightarrow> elemReads d ts x"
    and "elems d ts xs \<Longrightarrow> elemsReads d ts xs"
    and "args d ts xs \<Longrightarrow> argsReads d ts xs"
proof (induction rule: phrase_commas_elem_elems_args.inducts)
  case (paren a ts e z)
  then show ?case using reads_paren phrase_starts(2) by blast
next
  case (nil t)
  then show ?case using reads_nil by simp
next
  case (field ts e w n)
  then show ?case using reads_field phrase_nonempty by blast
next
  case (send ts e w n a us es z)
  then show ?case using reads_send phrase_nonempty by blast
next
  case (index ts e a us i z)
  then show ?case using reads_index phrase_nonempty phrase_starts(2) by blast
next
  case (indexLd ts e a opn us i z)
  then show ?case using reads_indexLd phrase_nonempty phrase_goodStart by blast
next
  case (range ts e a opn us i r opn' vs j z)
  then show ?case
    by (intro reads_range[where opn = opn and opn' = opn']) (auto intro: phrase_goodStart dest: phrase_nonempty)
next
  case (postfix ts e)
  then show ?case using reads_postfix phrase_primStart by blast
next
  case (assign ts e s t cp b opn us v x)
  then show ?case using reads_assign phrase_primStart by blast
next
  case (elemsMore ts x c us xs)
  then show ?case using reads_elemsMore phrase_starts(4) by blast
next
  case (args1 ts es)
  then show ?case using reads_args1 phrase_starts(4) by blast
qed (blast intro: reads_number reads_strings reads_quotedSym reads_variable reads_array reads_call reads_efunCall reads_parentCall
    reads_qualifiedCall reads_catch reads_chain reads_postInc reads_preInc reads_unary reads_cast reads_castArray reads_binary
    reads_tighter reads_simple reads_conditional reads_comma1 reads_commaMore reads_elem reads_elemSpread reads_elems1
    reads_elemsTrailing reads_args0)+

lemma phrase_lower:
  assumes "k \<le> j" "phrase d opn j ts e" "j \<le> 11"
  shows "phrase d opn k ts e"
  using assms
proof (induction rule: inc_induct)
  case (step n)
  then show ?case using simple tighter[of d opn n] by (cases "n = 0") auto
qed

lemma phrase_primary: "phrase d False 13 ts e \<Longrightarrow> k \<le> 12 \<Longrightarrow> phrase d False k ts e"
  using phrase_lower[OF _ postfix[OF chain]] chain le_Suc_eq[of k 11] by auto

lemma mkTok_simps [simp]: "tokType (mkTok k s l) = k" "tokText (mkTok k s l) = s"
  by (simp_all add: mkTok_def)

lemma sym_mkTok [simp]: "sym s (mkTok k u l) \<longleftrightarrow> k = SymbolTok \<and> u = s"
  by (auto simp: sym_def mkTok_def)

text \<open>An example: \<^verbatim>\<open>x += a - 2 * b - c ? a : b\<close>.\<close>

abbreviation (input) "idt s \<equiv> mkTok Ident s 1"
abbreviation (input) "smb s \<equiv> mkTok SymbolTok s 1"

definition demoTokens :: "token list" where
  "demoTokens =
     [idt ''x'', smb ''+='', idt ''a'', smb ''-'', mkTok Number ''2'' 1, smb ''*'', idt ''b'', smb ''-'', idt ''c'',
      smb ''?'', idt ''a'', smb '':'', idt ''b'']"

definition demoTree :: ast where
  "demoTree =
     AssignExpr ''x''
       (TernaryExpr
         (BinaryExpr BinSub (BinaryExpr BinSub (VarRefExpr ''a'') (BinaryExpr BinMul (IntLiteral 2) (VarRefExpr ''b''))) (VarRefExpr ''c''))
         (VarRefExpr ''a'') (VarRefExpr ''b'')) True BinAdd"

lemma demo_phrase: "phrase FluffOS True 0 demoTokens demoTree"
proof -
  have name: "phrase FluffOS False k [idt s] (VarRefExpr s)" if "s \<in> {''x'', ''a'', ''b'', ''c''}" "k \<le> 12" for s k
  proof -
    have "plainName (idt s)" using that(1) by (auto simp: plainName_def reservedNames_def)
    from variable[OF this, of FluffOS] show ?thesis using phrase_primary that(2) by simp
  qed
  have two: "phrase FluffOS False k [mkTok Number ''2'' 1] (IntLiteral 2)" if "k \<le> 12" for k
  proof -
    have "numberLiteral ''2'' = Inr (IntLiteral 2)" by code_simp
    then show ?thesis using phrase_primary number[of "mkTok Number ''2'' 1"] that by simp
  qed
  have "phrase FluffOS False 10 ([mkTok Number ''2'' 1] @ smb ''*'' # [idt ''b'']) (BinaryExpr BinMul (IntLiteral 2) (VarRefExpr ''b''))"
    by (rule binary[where s = "''*''", OF two _ _ name]) (simp_all add: levelOps_def)
  then have "phrase FluffOS False 9 ([idt ''a''] @ smb ''-'' # [mkTok Number ''2'' 1] @ smb ''*'' # [idt ''b''])
      (BinaryExpr BinSub (VarRefExpr ''a'') (BinaryExpr BinMul (IntLiteral 2) (VarRefExpr ''b'')))"
    by (intro binary[where s = "''-''", OF name]) (simp_all add: levelOps_def)
  then have "phrase FluffOS False 9 (([idt ''a''] @ smb ''-'' # [mkTok Number ''2'' 1] @ smb ''*'' # [idt ''b'']) @ smb ''-'' # [idt ''c''])
      (BinaryExpr BinSub (BinaryExpr BinSub (VarRefExpr ''a'') (BinaryExpr BinMul (IntLiteral 2) (VarRefExpr ''b''))) (VarRefExpr ''c''))"
    (is "phrase _ _ _ ?c ?ce") by (rule binary[where s = "''-''", OF _ _ _ name]) (simp_all add: levelOps_def)
  then have "phrase FluffOS False 1 ?c ?ce" by (rule phrase_lower[rotated]) simp_all
  then have "phrase FluffOS True 0 (?c @ smb ''?'' # [idt ''a''] @ smb '':'' # [idt ''b''])
      (TernaryExpr ?ce (VarRefExpr ''a'') (VarRefExpr ''b''))" (is "phrase _ _ _ ?v ?ve")
    by (rule conditional) (auto intro: name)
  then have "phrase FluffOS True 11 ([idt ''x''] @ smb ''+='' # ?v) (AssignExpr ''x'' ?ve True BinAdd)"
    by (intro assign[where s = "''+=''"]) (auto intro: name simp: assignOps_def kCompoundOps_def assignTree_def)
  then have "phrase FluffOS True 0 ([idt ''x''] @ smb ''+='' # ?v) (AssignExpr ''x'' ?ve True BinAdd)"
    by (rule phrase_lower[rotated]) simp_all
  then show ?thesis by (simp add: demoTokens_def demoTree_def)
qed

text \<open>
  C1. The parser reads every phrase of the grammar to its tree, with the precedences, the associativity and the extent of
  assignments and conditionals that the grammar has, and stops in front of the token behind it.
\<close>

theorem expression_grammar_read:
  assumes "phrase d opn 0 ts e" "stopped 0 rest" "psDialect st = d" "length ts + length rest < n"
  shows "parseExpr (parserAt n) (st\<lparr>psRest := ts @ rest\<rparr>) = Some (Inr (e, st\<lparr>psRest := rest\<rparr>))"
  using phrase_done0[OF grammar_reads(1)[OF assms(1)] assms(3,4,2)] by (simp add: levelAt_def atToks_def)

theorem expression_grammar_read_witness:
  "parseExpr (parserAt 15) ((newParser [] FluffOS)\<lparr>psRest := demoTokens @ [mkTok SymbolTok '';'' 1]\<rparr>) =
     Some (Inr (demoTree, (newParser [] FluffOS)\<lparr>psRest := [mkTok SymbolTok '';'' 1]\<rparr>))"
proof -
  have "stopped 0 [mkTok SymbolTok '';'' 1]"
    by (simp add: stopped_def stopTok_def mkTok_def contTexts_def levelOps_def assignOps_def kCompoundOps_def incDecOps_def upt_conv_Cons)
  then show ?thesis
    by (rule expression_grammar_read[OF demo_phrase]) (simp_all add: newParser_def demoTokens_def)
qed

text \<open>
  The expressions are unambiguous: no token list has two trees, since the parser finds both.
\<close>

theorem expression_grammar_unambiguous:
  assumes "phrase d opn 0 ts e" "phrase d opn' 0 ts e'"
  shows "e = e'"
proof -
  have stop: "stopped 0 [mkTok EndTok [] 0]" by (simp add: stopped_def stopTok_def mkTok_def)
  have read: "x = e1" if "phrase d o1 0 ts e1" "phrase d o2 0 ts x" for o1 o2 e1 x
    using phrase_done0[OF grammar_reads(1)[OF that(1)] _ _ stop, of "newParser [] d" "length ts + 2"]
      phrase_done0[OF grammar_reads(1)[OF that(2)] _ _ stop, of "newParser [] d" "length ts + 2"]
    by (simp add: newParser_def)
  show ?thesis by (rule read[OF assms(2,1)])
qed

theorem expression_grammar_unambiguous_witness:
  "\<exists>opn. phrase FluffOS opn 0 demoTokens demoTree \<and> (\<forall>e. \<not> (phrase FluffOS opn 0 demoTokens e \<and> e \<noteq> demoTree))"
  using demo_phrase expression_grammar_unambiguous[OF demo_phrase] by blast

text \<open>
  The grammar has to leave out a parenthesised expression that starts with one of four strings: the lookahead behind the
  parenthesis compares the text of the next token but not its kind, so \<^verbatim>\<open>("[" + x)\<close> is taken for a mapping literal.
\<close>

lemma unary_error:
  assumes "parseUnary p \<sigma> = Some (Inl e)" "k \<le> 11"
  shows "levelAt p k \<sigma> = Some (Inl e)"
  using assms(2)
proof (induction rule: inc_induct)
  case base
  then show ?case using assms(1) by (simp add: level_unary)
next
  case (step n)
  then show ?case by (cases "n = 0") (simp_all add: level_expr level_binary ps_simps)
qed

lemma operand_error: "parsePrimary p \<sigma> = Some (Inl e) \<Longrightarrow> parseOperand p \<sigma> = Some (Inl e)"
  by (simp add: parseOperand_def parsePostfix_def ps_simps)

lemma paren_string_misparsed:
  assumes "sym ''('' a" "tokType b = StringTok" "tokText b = ''[''" "sym ''+'' c"
  shows "\<exists>m. parseExpr (parserAt (Suc (Suc n))) (st\<lparr>psRest := a # b # c # rest\<rparr>) = Some (Inl (LpcRuntimeError m))"
proof -
  let ?p = "parserAt (Suc n)"
  obtain m where "parsePrimary ?p (atToks st (c # rest)) = Some (Inl (LpcRuntimeError m))"
    using assms(4) sym_def[of "''+''" c] by (auto simp: parsePrimary_def nextIs_def psIf_def psThrow_def)
  then have "parseUnary ?p (atToks st (c # rest)) = Some (Inl (LpcRuntimeError m))"
    using assms(4) by (simp add: parseUnary_def unary_steps parseClassCast_def parsePrefixed_def ps_simps operand_error)
  then have inner: "levelAt ?p 0 (atToks st (c # rest)) = Some (Inl (LpcRuntimeError m))" by (simp add: unary_error)
  have "parsePrimary (parserAt (Suc (Suc n))) (atToks st (a # b # c # rest)) =
      parseMappingLiteral (parserAt (Suc (Suc n))) (atToks st (a # b # c # rest))"
    using assms(1,3) sym_def[of "''(''" a] by (simp add: parsePrimary_def nextIs_def psIf_def)
  also have "\<dots> = Some (Inl (LpcRuntimeError m))"
    using assms(1,2,4) inner by (simp add: parseMappingLiteral_def mappingEntries_def mappingEntry_def ps_simps)
  finally have "parseOperand (parserAt (Suc (Suc n))) (atToks st (a # b # c # rest)) = Some (Inl (LpcRuntimeError m))"
    by (rule operand_error)
  moreover have "primStart (a # b # c # rest)"
    using assms(1,2) by (auto simp: primStart_def startTok_def sym_def)
  ultimately have "levelAt (parserAt (Suc (Suc n))) 0 (atToks st (a # b # c # rest)) = Some (Inl (LpcRuntimeError m))"
    by (simp add: unary_error unary_prim)
  then show ?thesis by (auto simp: levelAt_def atToks_def)
qed

end
