(* ===== verification/Parser_Run.thy ===== *)
theory Parser_Run
  imports Parser
begin

text \<open>
  Running the parser of \<^verbatim>\<open>src/compiler/Parser.cpp\<close> on given tokens by rewriting: a step is unfolded when it is applied to a state, and what
  follows it only when its result is known. The bundle \<open>parser_run\<close>, with the congruence rule \<open>psNext_cong\<close>, computes what a
  token list is read as.
\<close>

definition psNext :: "('a \<times> pstate) res option \<Rightarrow> ('a \<Rightarrow> 'b pm) \<Rightarrow> ('b \<times> pstate) res option" where
  "psNext r f = (case r of None \<Rightarrow> None | Some (Inl e) \<Rightarrow> Some (Inl e) | Some (Inr (x, st)) \<Rightarrow> f x st)"

lemma psNext_cong: "r = r' \<Longrightarrow> psNext r f = psNext r' f"
  by simp

lemma psNext_simps: "psNext (Some (Inr (x, st))) f = f x st" "psNext (Some (Inl e)) f = Some (Inl e)" "psNext None f = None"
  by (simp_all add: psNext_def)

lemma psNext_steps:
  "psBind m f st = psNext (m st) f" "psSeq m k st = psNext (m st) (\<lambda>_. k)"
  "psLoop (Suc n) body x st = psNext (body x st) (\<lambda>(y, again). if again then psLoop n body y else psRet y)"
  by (simp_all add: psBind_def psSeq_def psNext_def split: option.split sum.split)

lemma parsersAt_Suc:
  "recExpr (parserAt (Suc n)) = parseExpr (parserAt n)" "recUnary (parserAt (Suc n)) = parseUnary (parserAt n)"
  "recStatement (parserAt (Suc n)) = parseStatement (parserAt n)" "recBlock (parserAt (Suc n)) = parseBlock (parserAt n)"
  by (simp_all add: parserOver_def)

lemmas parser_run = psNext_steps psNext_simps parsersAt_Suc psRet_def psIf_def psThrow_def psLift_def advance_def
  parseTokens_def parseProgram_def newParser_def mkTok_def check_def checkText_def atEnd_def peekTok_def peekAt_def
  startsClassType_def isArrayWord_def isTypeKeyword_def isModifierKeyword_def modifierKeywords_def nonTypeKeywords_def
  inheritAhead_def classDeclAhead_def startsType_def isHexText_def bareClosureName_def nextIs_def assignOp_def kCompoundOps_def
  identThen_def
  expect_def[THEN fun_cong] expectText_def[THEN fun_cong] expectName_def[THEN fun_cong] advanceText_def[THEN fun_cong]
  commaList_def[THEN fun_cong] consumeArrayMarker_def[THEN fun_cong] parseTypeToken_def[THEN fun_cong]
  parseParam_def[THEN fun_cong] parseParamList_def[THEN fun_cong] parseModifiers_def[THEN fun_cong]
  parseDeclPrefix_def[THEN fun_cong] parseClassMembers_def[THEN fun_cong] parseClassDecl_def[THEN fun_cong]
  parseInheritPathString_def[THEN fun_cong] parseInheritStatement_def[THEN fun_cong] spreadElem_def[THEN fun_cong]
  parseArgList_def[THEN fun_cong] parseCommaExpr_def[THEN fun_cong] callArgs_def[THEN fun_cong]
  parseQualifiedParentCall_def[THEN fun_cong] parseStringLiteral_def[THEN fun_cong] parseNumberLiteral_def[THEN fun_cong]
  pushBoundValue_def parseBoundValue_def[THEN fun_cong] mappingEntry_def[THEN fun_cong] mappingEntries_def[THEN fun_cong]
  parseMappingLiteral_def[THEN fun_cong] parseHashQuote_def[THEN fun_cong] closeClosure_def[THEN fun_cong]
  parseBareClosure_def[THEN fun_cong] openLambda_def takeLambda_def parseInlineLambda_def[THEN fun_cong]
  parseAnonFunction_def[THEN fun_cong] parsePointerCall_def[THEN fun_cong] parseArrayLiteral_def[THEN fun_cong]
  parseParenthesized_def[THEN fun_cong] parseParentCall_def[THEN fun_cong] noteParam_def parseLambdaParam_def[THEN fun_cong]
  fieldInit_def[THEN fun_cong] parseNewClass_def[THEN fun_cong] parseEfunCall_def[THEN fun_cong] parseCatch_def[THEN fun_cong]
  parseNamedCall_def[THEN fun_cong] parseIdentifier_def[THEN fun_cong] parsePrimary_def[THEN fun_cong]
  parseArrow_def[THEN fun_cong] fromEnd_def[THEN fun_cong] parseRangeEnd_def[THEN fun_cong] parseIndex_def[THEN fun_cong]
  postfixIncDec_def[THEN fun_cong] parsePostfix_def[THEN fun_cong] typeCast_def classCast_def assignTo_def[THEN fun_cong]
  prefixIncDec_def[THEN fun_cong] parseOperand_def[THEN fun_cong] parsePrefixed_def[THEN fun_cong]
  parseClassCast_def[THEN fun_cong] parseUnary_def[THEN fun_cong] binaryLevel_def[THEN fun_cong]
  parseMultiplicative_def[THEN fun_cong] parseAdditive_def[THEN fun_cong] parseShift_def[THEN fun_cong]
  parseComparison_def[THEN fun_cong] parseEquality_def[THEN fun_cong] parseBitAnd_def[THEN fun_cong]
  parseBitXor_def[THEN fun_cong] parseBitOr_def[THEN fun_cong] parseLogicalAnd_def[THEN fun_cong]
  parseLogicalOr_def[THEN fun_cong] parseTernary_def[THEN fun_cong] parseExpr_def[THEN fun_cong] commaTail_def[THEN fun_cong]
  parseCommaExprChain_def[THEN fun_cong] continueStatementCommaChain_def[THEN fun_cong] closeStatement_def[THEN fun_cong]
  parseReturnStatement_def[THEN fun_cong] parseSingleVarDecl_def[THEN fun_cong] parseVarDeclStatement_def[THEN fun_cong]
  parseAssignStatement_def[THEN fun_cong] parseBranch_def[THEN fun_cong] parseCondition_def[THEN fun_cong]
  parseIfStatement_def[THEN fun_cong] parseWhileStatement_def[THEN fun_cong] parseDoWhileStatement_def[THEN fun_cong]
  optUntil_def[THEN fun_cong] parseForStatement_def[THEN fun_cong] parseBreakStatement_def[THEN fun_cong]
  parseContinueStatement_def[THEN fun_cong] parseForeachVar_def[THEN fun_cong] parseForeachStatement_def[THEN fun_cong]
  parseCaseLabel_def[THEN fun_cong] untilBrace_def[THEN fun_cong] parseSwitchStatement_def[THEN fun_cong]
  parseBlock_def[THEN fun_cong] parseIndexedAssign_def parseExprStatement_def[THEN fun_cong] parseStatement_def[THEN fun_cong]
  parseFunctionRest_def[THEN fun_cong] objectVarInit_def[THEN fun_cong] parseObjectVarDeclRest_def[THEN fun_cong]
  modifiersAhead_def[THEN fun_cong] advanceBy_def addInherit_def[THEN fun_cong] addClass_def[THEN fun_cong]
  addDeclaration_def[THEN fun_cong] parseTopLevel_def[THEN fun_cong]

end
