(* ===== verification/CodeGen_Ends.thy ===== *)
theory CodeGen_Ends
  imports CodeGen "HOL-Library.Multiset_Order"
begin

text \<open>
  The code generator ends. Bodies of lambdas and of anonymous functions wait in two queues that are walked while the bodies add to
  them; an entry only adds entries smaller than itself, so the multiset of the sizes of the waiting bodies gets smaller.
\<close>

section \<open>What a piece of code adds to the queues\<close>

abbreviation lambdaSize :: "string \<times> ast list \<times> int \<times> nat \<Rightarrow> nat" where
  "lambdaSize l \<equiv> size_list size (fst (snd l))"

abbreviation anonSize :: "string \<times> Param list \<times> bool \<times> block \<Rightarrow> nat" where
  "anonSize a \<equiv> size (snd (snd (snd a)))"

definition queued :: "nat \<Rightarrow> codegen \<Rightarrow> codegen \<Rightarrow> bool" where
  "queued N cg cg' \<longleftrightarrow>
     (\<exists>ls as. pendingLambdas cg' = pendingLambdas cg @ ls \<and> pendingAnonFuncs cg' = pendingAnonFuncs cg @ as \<and>
       (\<forall>l\<in>set ls. lambdaSize l < N) \<and> (\<forall>a\<in>set as. anonSize a < N))"

definition adds :: "nat \<Rightarrow> cgm \<Rightarrow> bool" where
  "adds N m \<longleftrightarrow> (\<forall>cg cg'. m cg = Inr cg' \<longrightarrow> queued N cg cg')"

lemma queued_refl: "pendingLambdas cg' = pendingLambdas cg \<Longrightarrow> pendingAnonFuncs cg' = pendingAnonFuncs cg \<Longrightarrow> queued N cg cg'"
  by (simp add: queued_def)

lemma queued_trans: "queued N a b \<Longrightarrow> queued N b c \<Longrightarrow> queued N a c"
  unfolding queued_def by (elim exE conjE, rule_tac x = "ls @ lsa" in exI, rule_tac x = "as @ asa" in exI) auto

lemma queued_mono: "queued N a b \<Longrightarrow> N \<le> M \<Longrightarrow> queued M a b"
  unfolding queued_def by (meson less_le_trans)

lemma queued_cong:
  "pendingLambdas b = pendingLambdas a \<Longrightarrow> pendingAnonFuncs b = pendingAnonFuncs a \<Longrightarrow> queued N b c \<Longrightarrow> queued N a c"
  by (simp add: queued_def)

lemma addsI: "(\<And>cg cg'. m cg = Inr cg' \<Longrightarrow> queued N cg cg') \<Longrightarrow> adds N m"
  by (simp add: adds_def)

lemma addsD: "adds N m \<Longrightarrow> m cg = Inr cg' \<Longrightarrow> queued N cg cg'"
  by (simp add: adds_def)

lemma adds_mono: "adds N m \<Longrightarrow> N \<le> M \<Longrightarrow> adds M m"
  unfolding adds_def using queued_mono by blast

text \<open>Code that starts by changing other fields.\<close>

lemma adds_update:
  assumes "\<And>cg. pendingLambdas (u cg) = pendingLambdas cg \<and> pendingAnonFuncs (u cg) = pendingAnonFuncs cg" "\<And>cg. adds N (m cg)"
  shows "adds N (\<lambda>cg. m cg (u cg))"
  using assms unfolding adds_def by (metis queued_cong)

lemma adds_local: "(\<And>cg. adds N (m cg)) \<Longrightarrow> adds N (\<lambda>cg. m cg cg)"
  by (simp add: adds_def)

lemma adds_fail [simp]: "adds N (\<lambda>cg. Inl (e cg))" "adds N (cgFail msg)"
  by (simp_all add: adds_def cgFail_def)

lemma adds_done [simp]: "adds N cgDone"
  by (simp add: adds_def cgDone_def queued_refl)

lemma adds_then [intro!]: "adds N a \<Longrightarrow> adds N b \<Longrightarrow> adds N (cgThen a b)"
  unfolding adds_def cgThen_def by (metis (no_types, lifting) queued_trans sum.case sum.exhaust_sel Inl_Inr_False isl_def)

lemma adds_seq: "(\<And>a. a \<in> set as \<Longrightarrow> adds N a) \<Longrightarrow> adds N (cgSeq as)"
  by (induction as) auto

lemma adds_opt: "(\<And>a. m = Some a \<Longrightarrow> adds N a) \<Longrightarrow> adds N (cgOpt m)"
  by (simp add: cgOpt_def split: option.split)

lemma adds_silent: "(\<And>cg cg'. m cg = Inr cg' \<Longrightarrow> pendingLambdas cg' = pendingLambdas cg \<and> pendingAnonFuncs cg' = pendingAnonFuncs cg) \<Longrightarrow> adds N m"
  by (simp add: adds_def queued_refl)

lemma adds_simple [simp]:
  "adds N (emitI o1 n k)" "adds N (patchJumpTo i t)" "adds N (patchJumpToHere i)" "adds N (pushLoop sw)" "adds N openScope"
  "adds N (jumpTo t)"
  by (rule adds_silent; force simp: emitI_def patchJumpTo_def patchJumpToHere_def pushLoop_def openScope_def jumpTo_def)+

lemma adds_patches [simp]: "adds N (patchAll is t)" "adds N (patchAllToHere is)"
proof -
  show a: "adds N (patchAll is t)" for t by (auto simp: patchAll_def intro!: adds_seq)
  show "adds N (patchAllToHere is)" unfolding patchAllToHere_def by (rule adds_local) (rule a)
qed

lemma adds_close [simp]: "adds N closeScope"
  by (rule adds_silent) (auto simp: closeScope_def split: list.splits)

text \<open>Code with a continuation.\<close>

lemma adds_cont:
  assumes "\<And>cg cg'. m cg = Inr cg' \<Longrightarrow> \<exists>x cg1. k x cg1 = Inr cg' \<and> pendingLambdas cg1 = pendingLambdas cg \<and> pendingAnonFuncs cg1 = pendingAnonFuncs cg"
    and "\<And>x. adds N (k x)"
  shows "adds N m"
  using assms unfolding adds_def by (metis queued_cong)

lemma adds_conts [intro!]:
  "(\<And>i. adds N (k i)) \<Longrightarrow> adds N (internString s k)"
  "(\<And>i. adds N (k i)) \<Longrightarrow> adds N (internFloat d k)"
  "(\<And>i. adds N (k i)) \<Longrightarrow> adds N (declareLocal n ty k)"
  "(\<And>j. adds N (p j)) \<Longrightarrow> adds N (emitJumpPlaceholder o1 p)"
  "(\<And>j. adds N (p j)) \<Longrightarrow> adds N (here p)"
  "(\<And>c. adds N (q c)) \<Longrightarrow> adds N (popLoop q)"
  by (rule adds_cont[where k = k], force simp: internString_def split: option.splits, simp)
    (rule adds_cont[where k = k], force simp: internFloat_def split: option.splits, simp,
     rule adds_cont[where k = k], force simp: declareLocal_def Let_def split: if_splits, simp,
     rule adds_cont[where k = p], force simp: emitJumpPlaceholder_def, simp,
     rule adds_cont[where k = p], force simp: here_def, simp,
     rule adds_cont[where k = q], force simp: popLoop_def split: list.splits, simp)

lemma adds_resolve [intro!]: "(\<And>v s. adds N (k v s)) \<Longrightarrow> adds N (resolveVariable n k)"
  by (rule adds_cont[where k = "\<lambda>x. k (fst x) (snd x)"]) (force simp: resolveVariable_def split: option.splits, simp)

lemma adds_temp [intro!]: "(\<And>i. adds N (k i)) \<Longrightarrow> adds N (tempLocal p k)"
  unfolding tempLocal_def by (rule adds_update) auto

lemma adds_if [intro!]: "(b \<Longrightarrow> adds N a) \<Longrightarrow> (\<not> b \<Longrightarrow> adds N c) \<Longrightarrow> adds N (if b then a else c)"
  by simp

lemma adds_scoped [intro!]: "adds N a \<Longrightarrow> adds N (scoped a)"
  unfolding scoped_def by auto

lemma adds_withLoop [intro!]: "adds N b \<Longrightarrow> (\<And>c. adds N (k c)) \<Longrightarrow> adds N (withLoop b k)"
  unfolding withLoop_def by auto


section \<open>The emitting functions\<close>

lemma adds_compound [simp]: "adds N (emitCompoundOp b)"
  by (simp add: emitCompoundOp_def split: option.split)

lemma adds_expressions [intro!]:
  "adds N l \<Longrightarrow> adds N r \<Longrightarrow> adds N (emitBinaryExpr b l r)"
  "adds N l \<Longrightarrow> adds N r \<Longrightarrow> adds N (emitLogicalExpr b l r)"
  "adds N l \<Longrightarrow> adds N r \<Longrightarrow> adds N e \<Longrightarrow> adds N (emitTernaryExpr l r e)"
  "adds N l \<Longrightarrow> adds N (emitCatchExpr l)"
  "adds N l \<Longrightarrow> adds N (emitTimeExpressionExpr l)"
  "adds N l \<Longrightarrow> adds N (emitUnary u l)"
  "adds N l \<Longrightarrow> adds N (discard l)"
  "adds N l \<Longrightarrow> adds N (emitAssignExpr n l c b)"
  by (auto simp: emitBinaryExpr_def emitLogicalExpr_def emitTernaryExpr_def emitCatchExpr_def emitTimeExpressionExpr_def emitUnary_def
      discard_def emitAssignExpr_def split: option.split UnaryOp.split)

lemma adds_incdec [intro!]:
  "adds N idx \<Longrightarrow> adds N (cgOpt col) \<Longrightarrow> adds N (emitIncDecIndexed d pre idx col)" "adds N (emitIncDecVar d pre n)"
  by (auto simp: emitIncDecIndexed_def emitIncDecVar_def Let_def)

lemma adds_spread [simp]: "adds N (emitSpreadExpansions bs)"
proof -
  have "adds N (emitSpreadFrom n bs)" for n by (induction bs arbitrary: n) auto
  then show ?thesis by (simp add: emitSpreadExpansions_def)
qed

lemma adds_calls [intro!]:
  "adds N (cgSeq args) \<Longrightarrow> adds N (emitCallExpr f args sp fe pc q)"
  "adds N t \<Longrightarrow> adds N fn \<Longrightarrow> adds N (cgSeq args) \<Longrightarrow> adds N (emitCallOtherExpr t fn args sp)"
  "adds N (cgSeq args) \<Longrightarrow> adds N (emitClosureLiteral f args fe)"
  by (auto simp: emitCallExpr_def emitCallOtherExpr_def emitClosureLiteral_def Let_def)

lemma adds_sscanf_slots:
  "\<forall>w s. Some w \<in> set ws \<longrightarrow> adds N (w s) \<Longrightarrow> \<forall>w\<in>set writes. adds N w \<Longrightarrow> adds N (emitSscanfSlots ns ws writes)"
proof (induction ns ws writes rule: emitSscanfSlots.induct)
  case (1 n ns w ws writes)
  then show ?case by (cases w) auto
qed (auto intro: adds_seq)

lemma adds_sscanf:
  "adds N t \<Longrightarrow> adds N f \<Longrightarrow> (\<And>w s. Some w \<in> set ws \<Longrightarrow> adds N (w s)) \<Longrightarrow> adds N (emitSscanfExpr t f ns ws)"
  by (auto simp: emitSscanfExpr_def intro!: adds_sscanf_slots)

lemma adds_index [intro!]:
  "adds N idx \<Longrightarrow> adds N v \<Longrightarrow> adds N (cgOpt c) \<Longrightarrow> adds N (emitIndexAssignStmt idx v cp b c)"
  "adds N idx \<Longrightarrow> adds N v \<Longrightarrow> adds N (cgOpt c) \<Longrightarrow> adds N (emitIndexAssignExpr idx v cp b c)"
  "adds N idx \<Longrightarrow> (\<And>r. re = Some r \<Longrightarrow> adds N r) \<Longrightarrow> adds N (cgOpt c) \<Longrightarrow> adds N (emitIndexExpr idx re fe ree c)"
  by (auto simp: emitIndexAssignStmt_def emitIndexAssignExpr_def emitIndexExpr_def Let_def split: option.split)

lemma adds_new_class: "(\<And>f a. (f, a) \<in> set inits \<Longrightarrow> adds N a) \<Longrightarrow> adds N (emitNewClass c inits)"
proof -
  assume i: "\<And>f a. (f, a) \<in> set inits \<Longrightarrow> adds N a"
  have "adds N (cgSeq [cgSeq (map (\<lambda>m. case map_of inits m of Some a \<Rightarrow> a | None \<Rightarrow> emitI PushInt 0 0) ms),
            (case find (\<lambda>(f, _). f \<notin> set ms) inits of
               Some (f, _) \<Rightarrow> cgFail (''codegen: class '' @ [CHR 0x22] @ c @ [CHR 0x22] @ '' has no member '' @ [CHR 0x22] @ f @ [CHR 0x22])
             | None \<Rightarrow> cgDone),
            emitI MakeArray 1 (to_int32 (int (length ms)))])" for ms
    using i[OF map_of_SomeD] by (auto split: option.split intro!: adds_seq)
  then show ?thesis unfolding adds_def emitNewClass_def by (auto simp del: cgSeq.simps split: option.splits)
qed

lemma adds_mapping:
  "(\<And>k vs. (k, vs) \<in> set es \<Longrightarrow> adds N k \<and> (\<forall>v\<in>set vs. adds N v)) \<Longrightarrow> adds N (emitMappingLiteral es)"
  by (fastforce simp: emitMappingLiteral_def Let_def intro!: adds_seq adds_then)

lemma adds_lambda_param [simp]: "adds N (emitLambdaParam i b)"
  unfolding emitLambdaParam_def by (rule adds_local) simp

lemma adds_index_value [intro!]: "adds N ic \<Longrightarrow> adds N (emitIndexValue t i ic)"
  by (rule addsI, cases i)
    (auto simp: emitIndexValue_def split: if_splits sum.splits dest: addsD addsD[OF adds_simple(1)])

lemma adds_pair [intro!]: "adds N tc \<Longrightarrow> adds N ic \<Longrightarrow> adds N (indexPair t i tc ic)"
  by (auto simp: indexPair_def)

lemma adds_inline_lambda:
  assumes "adds N (cgSeq bounds)" "size_list size body < N"
  shows "adds N (emitInlineLambda body n bounds)"
proof -
  have q: "adds N (\<lambda>cg. internString (name cg) (\<lambda>i. emitI PushClosure i k)
      (cg\<lparr>nextLambdaId := f cg, pendingLambdas := pendingLambdas cg @ [(name cg, body, n, j)]\<rparr>))" for name f k j
  proof (rule addsI)
    fix cg cg'
    assume "internString (name cg) (\<lambda>i. emitI PushClosure i k)
      (cg\<lparr>nextLambdaId := f cg, pendingLambdas := pendingLambdas cg @ [(name cg, body, n, j)]\<rparr>) = Inr cg'"
    then show "queued N cg cg'" using assms(2) by (auto simp: internString_def emitI_def queued_def split: option.splits)
  qed
  show ?thesis unfolding emitInlineLambda_def Let_def by (rule adds_then[OF assms(1) q])
qed

lemma adds_anon: "size b < N \<Longrightarrow> adds N (emitAnonFunction ps va b)"
  by (rule addsI) (auto simp: emitAnonFunction_def Let_def internString_def emitI_def queued_def split: option.splits)

lemma adds_statements [intro!]:
  "adds N (cgOpt e) \<Longrightarrow> adds N (emitReturnStmt e)"
  "adds N (cgOpt e) \<Longrightarrow> adds N (emitVarDeclStmt ty n e)"
  "adds N v \<Longrightarrow> adds N (emitAssignStmt n v)"
  "adds N c \<Longrightarrow> adds N t \<Longrightarrow> adds N (cgOpt e) \<Longrightarrow> adds N (emitIfStmt c t e)"
  "adds N c \<Longrightarrow> adds N b \<Longrightarrow> adds N (emitWhileStmt c b)"
  "adds N c \<Longrightarrow> adds N b \<Longrightarrow> adds N (emitDoWhileStmt c b)"
  "adds N ini \<Longrightarrow> adds N (cgOpt e) \<Longrightarrow> adds N upd \<Longrightarrow> adds N b \<Longrightarrow> adds N (emitForStmt ini e upd b)"
  by (auto simp: emitReturnStmt_def emitVarDeclStmt_def emitAssignStmt_def emitIfStmt_def emitWhileStmt_def emitDoWhileStmt_def
      emitForStmt_def Let_def cgOpt_def split: option.splits)

lemma adds_foreachVar [intro!]: "(\<And>k s. adds N (c k s)) \<Longrightarrow> adds N (foreachVar d n cl c)"
  by (auto simp: foreachVar_def)

lemma adds_foreach [intro!]: "adds N c \<Longrightarrow> adds N b \<Longrightarrow> adds N (emitForeachStmt fv c b)"
  unfolding emitForeachStmt_def Let_def 
  by (rule adds_then, simp, rule adds_update[where u = "\<lambda>cg. cg\<lparr>foreachCounter := foreachCounter cg + 1\<rparr>"]) auto

lemma adds_break [simp]: "adds N emitBreakStmt" "adds N emitContinueStmt"
  by (rule adds_silent, force simp: emitBreakStmt_def emitContinueStmt_def emitJumpPlaceholder_def split: list.splits option.splits)+

text \<open>Elements of a \<^verbatim>\<open>switch\<close> body.\<close>

fun addsItem :: "nat \<Rightarrow> switch_item \<Rightarrow> bool" where
  "addsItem N SwDefault = True"
| "addsItem N (SwCase v r) = (adds N v \<and> (\<forall>a. r = Some a \<longrightarrow> adds N a))"
| "addsItem N (SwStmt s) = adds N s"

lemma adds_switch_tests:
  "\<forall>it\<in>set its. addsItem N it \<Longrightarrow> (\<And>js. adds N (k js)) \<Longrightarrow> adds N (emitSwitchTests subj its js k)"
  by (induction subj its js k rule: emitSwitchTests.induct) (auto simp: ball_Un)

lemma adds_switch_body:
  "\<forall>it\<in>set its. addsItem N it \<Longrightarrow> adds N (emitSwitchBody i dflt noMatch its js)"
  by (induction i dflt noMatch its js rule: emitSwitchBody.induct) (auto split: option.split switch_item.split)

lemma adds_switch:
  "adds N s \<Longrightarrow> (\<And>it. it \<in> set its \<Longrightarrow> addsItem N it) \<Longrightarrow> adds N (emitSwitchStmt s its)"
  unfolding emitSwitchStmt_def 
  by (rule adds_update[where u = "\<lambda>cg. cg\<lparr>switchCounter := switchCounter cg + 1\<rparr>"]) (auto intro!: adds_switch_tests adds_switch_body)


section \<open>The whole tree\<close>

definition addsNode :: "nat \<Rightarrow> node_code \<Rightarrow> bool" where
  "addsNode N n \<longleftrightarrow> adds N (nExpr n) \<and> adds N (nStmt n) \<and> adds N (nInit n) \<and> adds N (nUpdate n) \<and> addsItem N (nSwitch n) \<and>
     (\<forall>s. adds N (nWrite n s))"

lemma addsNodeD:
  assumes "addsNode N n"
  shows "adds N (nExpr n)" "adds N (nStmt n)" "adds N (nInit n)" "adds N (nUpdate n)" "addsItem N (nSwitch n)" "adds N (nWrite n s)"
  using assms by (simp_all add: addsNode_def)

lemma addsItem_mono: "addsItem N it \<Longrightarrow> N \<le> M \<Longrightarrow> addsItem M it"
  using adds_mono by (cases it) auto

lemma addsNode_mono: "addsNode N n \<Longrightarrow> N \<le> M \<Longrightarrow> addsNode M n"
  unfolding addsNode_def using adds_mono addsItem_mono by metis

lemma adds_unsupported [simp]: "adds N unsupportedExpr" "adds N unsupportedStmt"
  by (simp_all add: unsupportedExpr_def unsupportedStmt_def)

lemma addsNode_expr [intro!]: "adds N e \<Longrightarrow> addsNode N (exprNode e)"
  by (auto simp: addsNode_def exprNode_def)

lemma addsNode_stmt [intro!]: "adds N e \<Longrightarrow> addsNode N (stmtNode e)"
  by (auto simp: addsNode_def stmtNode_def)

lemma addsNode_updates [intro!]:
  "addsNode N n \<Longrightarrow> adds N a \<Longrightarrow> addsNode N (n\<lparr>nInit := a\<rparr>)"
  "addsNode N n \<Longrightarrow> adds N a \<Longrightarrow> addsNode N (n\<lparr>nUpdate := a\<rparr>)"
  "addsNode N n \<Longrightarrow> addsItem N it \<Longrightarrow> addsNode N (n\<lparr>nSwitch := it\<rparr>)"
  "addsNode N n \<Longrightarrow> (\<And>s. adds N (w s)) \<Longrightarrow> addsNode N (n\<lparr>nWrite := w\<rparr>)"
  by (simp_all add: addsNode_def)

lemma adds_map_seq: "(\<And>x. x \<in> set xs \<Longrightarrow> adds N (f x)) \<Longrightarrow> adds N (cgSeq (map f xs))"
  by (rule adds_seq) auto

lemma adds_map_opt: "(\<And>x. m = Some x \<Longrightarrow> adds N (f x)) \<Longrightarrow> adds N (cgOpt (map_option f m))"
  by (cases m) (auto simp: cgOpt_def)

lemma size_le_list: "x \<in> set xs \<Longrightarrow> f x \<le> size_list f xs"
  by (simp add: size_list_estimation')

lemma size_le_option: "m = Some x \<Longrightarrow> f x \<le> size_option f m"
  by simp

lemma adds_leaves [simp]:
  "adds N (internString s (\<lambda>i. emitI o1 i 0))" "adds N (internFloat d (\<lambda>i. emitI PushFloat i 0))"
  "adds N (resolveVariable n (\<lambda>k v. emitI (pushVar k) v 0))"
  by auto


text \<open>What is known of the children of a node, weakened to the size of the node.\<close>

lemma sub_code [intro]:
  assumes "addsNode (size a) (emitNode a)" "size a \<le> N"
  shows "adds N (nExpr (emitNode a))" "adds N (nStmt (emitNode a))" "adds N (nInit (emitNode a))" "adds N (nUpdate (emitNode a))"
    "addsItem N (nSwitch (emitNode a))" "adds N (nWrite (emitNode a) s)"
  using addsNode_mono[OF assms] by (simp_all add: addsNodeD)

lemma sub_block [intro]: "adds (size b) (emitBlk b) \<Longrightarrow> size b \<le> N \<Longrightarrow> adds N (emitBlk b)"
  by (rule adds_mono)

lemma sub_list:
  assumes "\<And>a. a \<in> set xs \<Longrightarrow> addsNode (size a) (emitNode a)" "size_list size xs \<le> N" "a \<in> set xs"
  shows "addsNode N (emitNode a)"
  using assms size_le_list[OF assms(3), of size] addsNode_mono[of "size a" "emitNode a" N] by simp

lemma sub_seq [intro]:
  assumes "\<And>a. a \<in> set xs \<Longrightarrow> addsNode (size a) (emitNode a)" "size_list size xs \<le> N"
  shows "adds N (cgSeq (map (\<lambda>a. nExpr (emitNode a)) xs))"
  using sub_list[OF assms] by (auto intro!: adds_map_seq dest: addsNodeD)

lemma sub_opt [intro]:
  assumes "\<And>a. m = Some a \<Longrightarrow> addsNode (size a) (emitNode a)" "size_option size m \<le> N"
  shows "adds N (cgOpt (map_option (\<lambda>a. nExpr (emitNode a)) m))" "adds N (cgOpt (map_option (\<lambda>a. nInit (emitNode a)) m))"
    "adds N (cgOpt (map_option (\<lambda>a. nUpdate (emitNode a)) m))"
  using assms by (cases m; auto simp: cgOpt_def)+

lemma sub_opt_blk [intro]:
  "(\<And>b. m = Some b \<Longrightarrow> adds (size b) (emitBlk b)) \<Longrightarrow> size_option size m \<le> N \<Longrightarrow> adds N (cgOpt (map_option (\<lambda>b. scoped (emitBlk b)) m))"
  by (cases m) (auto simp: cgOpt_def)

lemma addsNode_emit:
  fixes a :: ast and b :: block
  shows "addsNode (size a) (emitNode a)" and "adds (size b) (emitBlk b)"
proof (induction a and b)
  case (SscanfExpr t f names targets)
  let ?n = "size (SscanfExpr t f names targets)"
  have "adds ?n (w s)" if w: "Some w \<in> set (map (map_option (\<lambda>a. nWrite (emitNode a))) targets)" for w s
  proof -
    obtain a where a: "Some a \<in> set targets" "w = nWrite (emitNode a)" using w by (auto simp: image_iff eq_commute[of "Some w"])
    have "size_option size (Some a) \<le> size_list (size_option size) targets" using a(1) by (rule size_le_list)
    then show ?thesis using SscanfExpr.IH(3)[OF a(1)] a(2) by auto
  qed
  then have "adds ?n (emitSscanfExpr (nExpr (emitNode t)) (nExpr (emitNode f)) names (map (map_option (\<lambda>a. nWrite (emitNode a))) targets))"
    using SscanfExpr.IH(1,2) by (intro adds_sscanf) auto
  then show ?case by (auto simp del: ast.size)
next
  case (IncDecExpr d pre n t k c)
  then show ?case by (cases t; cases k) auto
next
  case (MappingLiteralExpr es)
  let ?n = "size (MappingLiteralExpr es)"
  have "adds ?n (nExpr (emitNode k)) \<and> (\<forall>v\<in>set vs. adds ?n (nExpr (emitNode v)))" if e: "(k, vs) \<in> set es" for k vs
  proof -
    have s: "size_prod size (size_list size) (k, vs) \<le> size_list (size_prod size (size_list size)) es" using e by (rule size_le_list)
    have "size v \<le> size_list size vs" if "v \<in> set vs" for v using that by (rule size_le_list)
    then show ?thesis using s MappingLiteralExpr.IH[OF e] by fastforce
  qed
  then have "adds ?n (emitMappingLiteral (map (map_prod (\<lambda>a. nExpr (emitNode a)) (map (\<lambda>a. nExpr (emitNode a)))) es))"
    by (intro adds_mapping) auto
  then show ?case by (auto simp del: ast.size)
next
  case (NewClassExpr c inits)
  let ?n = "size (NewClassExpr c inits)"
  have "adds ?n (nExpr (emitNode a))" if i: "(f, a) \<in> set inits" for f a
  proof -
    have s: "size_prod (\<lambda>x. 0) size (f, a) \<le> size_list (size_prod (\<lambda>x. 0) size) inits" using i by (rule size_le_list)
    then show ?thesis using NewClassExpr.IH[OF i] by auto
  qed
  then have "adds ?n (emitNewClass c (map (map_prod id (\<lambda>a. nExpr (emitNode a))) inits))"
    by (intro adds_new_class) auto
  then show ?case by (auto simp del: ast.size)
next
  case (IndexExpr t i re fe ree c)
  then show ?case by (cases re) auto
next
  case (CaseLabel v r)
  then show ?case by (cases v; cases r) (auto intro!: sub_code(1))
next
  case (SwitchStmt s body)
  let ?n = "size (SwitchStmt s body)"
  have "addsItem ?n (nSwitch (emitNode a))" if a: "a \<in> set body" for a
    using SwitchStmt.IH(2)[OF a] size_le_list[OF a, of size] by auto
  then have "adds ?n (emitSwitchStmt (nExpr (emitNode s)) (map (\<lambda>a. nSwitch (emitNode a)) body))"
    using SwitchStmt.IH(1) by (intro adds_switch) auto
  then show ?case by (auto simp del: ast.size)
next
  case (InlineLambdaExpr body n bounds)
  then show ?case by (auto intro!: adds_inline_lambda)
next
  case (AnonFunctionExpr ps va b)
  then show ?case by (auto intro!: adds_anon)
next
  case (Block ss real)
  have "adds (size (Block ss real)) (nStmt (emitNode a))" if a: "a \<in> set ss" for a
    using Block.IH[OF a] size_le_list[OF a, of size] by auto
  then show ?case by (auto intro!: adds_map_seq simp del: block.size)
qed auto


section \<open>The queues run empty\<close>

text \<open>The sizes of the bodies that still wait, from position \<open>i\<close> of the lambdas and \<open>j\<close> of the anonymous functions on.\<close>

definition waiting :: "nat \<Rightarrow> nat \<Rightarrow> codegen \<Rightarrow> nat multiset" where
  "waiting i j cg = mset (map lambdaSize (drop i (pendingLambdas cg))) + mset (map anonSize (drop j (pendingAnonFuncs cg)))"

lemma waiting_queued:
  assumes "queued N cg cg'" "i \<le> length (pendingLambdas cg)" "j \<le> length (pendingAnonFuncs cg)"
  shows "\<exists>K. waiting i j cg' = waiting i j cg + K \<and> (\<forall>k\<in>#K. k < N)"
proof -
  obtain ls as where q: "pendingLambdas cg' = pendingLambdas cg @ ls" "pendingAnonFuncs cg' = pendingAnonFuncs cg @ as"
    "\<forall>l\<in>set ls. lambdaSize l < N" "\<forall>a\<in>set as. anonSize a < N" using assms(1) unfolding queued_def by blast
  have "waiting i j cg' = waiting i j cg + (mset (map lambdaSize ls) + mset (map anonSize as))"
    using assms(2,3) by (simp add: waiting_def q(1,2))
  then show ?thesis using q(3,4) by (intro exI conjI) auto
qed

lemma multiset_smaller: "M = add_mset n I \<Longrightarrow> M' = I + K \<Longrightarrow> (\<forall>k\<in>#K. k < n) \<Longrightarrow> M' < (M :: nat multiset)"
  using one_step_implies_mult[of "{#n#}" K "{(x, y). x < y}" I] by (simp add: less_multiset_def multp_def)

lemma emitFunction_queued: "adds N body \<Longrightarrow> emitFunction f n va body cg = Inr cg' \<Longrightarrow> queued N cg cg'"
  by (auto simp: emitFunction_def cgThen_def emitI_def adds_def queued_def split: sum.splits)

lemma adds_params: "adds N (declareParams ps)"
  by (auto simp: declareParams_def intro!: adds_seq)

lemma lambda_queued: "emitLambda l cg = Inr cg' \<Longrightarrow> queued (lambdaSize l) cg cg'"
proof -
  assume r: "emitLambda l cg = Inr cg'"
  obtain name body params bounds where l: "l = (name, body, params, bounds)" by (cases l) auto
  have b: "adds N (lambdaBody ms)" if "\<And>m. m \<in> set ms \<Longrightarrow> adds N m" for N ms
    using that by (induction ms rule: lambdaBody.induct) auto
  have "adds (lambdaSize l) (emitExpr e)" if "e \<in> set body" for e
    unfolding emitExpr_def using addsNode_emit(1)[of e] size_le_list[OF that, of size] l by auto
  then have "adds (lambdaSize l) (lambdaBody (map emitExpr body))" by (intro b) auto
  then have q: "emitFunction f n va (lambdaBody (map emitExpr body)) c = Inr cg' \<Longrightarrow> queued (lambdaSize l) c cg'" for f n va c
    by (rule emitFunction_queued)
  show ?thesis using r unfolding emitLambda_def l prod.case
    by (intro queued_cong[OF _ _ q[unfolded l]]) (simp_all add: l resetFunction_def)
qed

lemma declared_queued:
  "cgThen (declareParams ps) (emitFunction f n va (emitBlock b)) cg = Inr cg' \<Longrightarrow> queued (size b) cg cg'"
proof -
  have b: "adds (size b) (emitBlock b)" using addsNode_emit(2)[of b] by (auto simp: emitBlock_def)
  have "adds (size b) (cgThen (declareParams ps) (emitFunction f n va (emitBlock b)))"
    by (rule adds_then[OF adds_params addsI]) (rule emitFunction_queued[OF b])
  then show "cgThen (declareParams ps) (emitFunction f n va (emitBlock b)) cg = Inr cg' \<Longrightarrow> queued (size b) cg cg'"
    by (rule addsD)
qed

lemma anon_queued: "emitAnon a cg = Inr cg' \<Longrightarrow> queued (anonSize a) cg cg'"
  by (cases a) (rule queued_cong[of "resetFunction cg"], auto simp: emitAnon_def resetFunction_def dest!: declared_queued)

text \<open>The index of a loop moves past an entry; what the entry adds is smaller.\<close>

lemma waiting_step:
  assumes "waiting i j cg = add_mset n (waiting i' j' cg)" "queued n cg cg'" "i' \<le> length (pendingLambdas cg)" "j' \<le> length (pendingAnonFuncs cg)"
  shows "waiting i' j' cg' < waiting i j cg"
  using waiting_queued[OF assms(2-4)] multiset_smaller[OF assms(1)] by metis

lemma waiting_lambda:
  "i < length (pendingLambdas cg) \<Longrightarrow> waiting i j cg = add_mset (lambdaSize (pendingLambdas cg ! i)) (waiting (Suc i) j cg)"
  by (simp add: waiting_def Cons_nth_drop_Suc[symmetric])

lemma waiting_anon:
  "j < length (pendingAnonFuncs cg) \<Longrightarrow> waiting i j cg = add_mset (anonSize (pendingAnonFuncs cg ! j)) (waiting i (Suc j) cg)"
  by (simp add: waiting_def Cons_nth_drop_Suc[symmetric])

text \<open>A result that enough fuel gives, with less waiting than \<open>M\<close> unless nothing was done.\<close>

definition settles :: "(nat \<Rightarrow> (cg_error + codegen) option) \<Rightarrow> (codegen \<Rightarrow> bool) \<Rightarrow> bool" where
  "settles run P \<longleftrightarrow> (\<exists>r n0. (\<forall>n\<ge>n0. run n = Some r) \<and> (\<forall>cg. r = Inr cg \<longrightarrow> P cg))"

lemma settlesI: "(\<And>n. n0 \<le> n \<Longrightarrow> run n = Some r) \<Longrightarrow> (\<And>cg. r = Inr cg \<Longrightarrow> P cg) \<Longrightarrow> settles run P"
  unfolding settles_def by blast

lemma settles_Suc: "settles (\<lambda>n. run (Suc n)) P \<Longrightarrow> settles run P"
  unfolding settles_def by (metis Suc_le_D Suc_le_mono)

lemma settles_shift: "settles run P \<Longrightarrow> settles (\<lambda>n. run (Suc n)) P"
  unfolding settles_def by (metis le_SucI)

lemma settles_next:
  assumes "settles a P" "\<And>cg. P cg \<Longrightarrow> settles (\<lambda>n. k n cg) Q"
  shows "settles (\<lambda>n. cgNext (a n) (k n)) Q"
proof -
  obtain r n0 where a: "\<And>n. n0 \<le> n \<Longrightarrow> a n = Some r" "\<And>cg. r = Inr cg \<Longrightarrow> P cg" using assms(1) unfolding settles_def by blast
  show ?thesis
  proof (cases r)
    case (Inl e)
    show ?thesis by (rule settlesI[of n0 _ "Inl e"]) (simp_all add: cgNext_def a(1) Inl)
  next
    case (Inr cg)
    then obtain s n1 where k: "\<And>n. n1 \<le> n \<Longrightarrow> k n cg = Some s" "\<And>cg. s = Inr cg \<Longrightarrow> Q cg"
      using assms(2) a(2) unfolding settles_def by blast
    show ?thesis by (rule settlesI[of "max n0 n1" _ s]) (simp_all add: cgNext_def a(1) Inr k)
  qed
qed

lemma settles_done: "P cg \<Longrightarrow> settles (\<lambda>n. Some (Inr cg)) P"
  unfolding settles_def by blast

lemma settles_error: "settles (\<lambda>n. Some (Inl e)) P"
  unfolding settles_def by blast

lemma settles_weaken: "settles run P \<Longrightarrow> (\<And>cg. P cg \<Longrightarrow> Q cg) \<Longrightarrow> settles run Q"
  unfolding settles_def by blast


lemma settles_lambdas:
  assumes "i \<le> length (pendingLambdas cg)"
  shows "settles (\<lambda>n. lambdaLoop n i cg)
           (\<lambda>cg'. pendingLambdas cg' = [] \<and> waiting 0 0 cg' \<le> waiting i 0 cg \<and> (i < length (pendingLambdas cg) \<longrightarrow> waiting 0 0 cg' < waiting i 0 cg))"
  using assms
proof (induction "waiting i 0 cg" arbitrary: i cg rule: less_induct)
  case less
  show ?case
  proof (cases "i < length (pendingLambdas cg)")
    case False
    then show ?thesis using less.prems by (intro settles_Suc[OF settlesI[of 0]]) (auto simp: waiting_def)
  next
    case True
    show ?thesis
    proof (cases "emitLambda (pendingLambdas cg ! i) cg")
      case (Inl e)
      then show ?thesis using True by (intro settles_Suc[OF settlesI[of 0]]) auto
    next
      case (Inr cg1)
      have q: "queued (lambdaSize (pendingLambdas cg ! i)) cg cg1" by (rule lambda_queued[OF Inr])
      have lt: "waiting (Suc i) 0 cg1 < waiting i 0 cg" by (rule waiting_step[OF waiting_lambda[OF True] q]) (use True in simp_all)
      have "Suc i \<le> length (pendingLambdas cg1)" using q True by (auto simp: queued_def)
      from less.hyps[OF lt this]
      have "settles (\<lambda>n. lambdaLoop n (Suc i) cg1) (\<lambda>cg'. pendingLambdas cg' = [] \<and> waiting 0 0 cg' \<le> waiting (Suc i) 0 cg1)"
        by (rule settles_weaken) simp
      then have "settles (\<lambda>n. lambdaLoop n (Suc i) cg1) (\<lambda>cg'. pendingLambdas cg' = [] \<and> waiting 0 0 cg' < waiting i 0 cg)"
        by (rule settles_weaken) (use lt in auto)
      then have "settles (\<lambda>n. lambdaLoop (Suc n) i cg) (\<lambda>cg'. pendingLambdas cg' = [] \<and> waiting 0 0 cg' < waiting i 0 cg)"
        using True Inr by simp
      then show ?thesis by (rule settles_weaken[OF settles_Suc]) auto
    qed
  qed
qed

lemma settles_anons:
  assumes "j \<le> length (pendingAnonFuncs cg)"
  shows "settles (\<lambda>n. anonLoop n j cg)
           (\<lambda>cg'. waiting 0 0 cg' \<le> waiting 0 j cg \<and> (j < length (pendingAnonFuncs cg) \<longrightarrow> waiting 0 0 cg' < waiting 0 j cg))"
  using assms
proof (induction "waiting 0 j cg" arbitrary: j cg rule: less_induct)
  case less
  show ?case
  proof (cases "j < length (pendingAnonFuncs cg)")
    case False
    then show ?thesis using less.prems by (intro settles_Suc[OF settlesI[of 0]]) (auto simp: waiting_def)
  next
    case True
    show ?thesis
    proof (cases "emitAnon (pendingAnonFuncs cg ! j) cg")
      case (Inl e)
      then show ?thesis using True by (intro settles_Suc[OF settlesI[of 0]]) auto
    next
      case (Inr cg1)
      have q: "queued (anonSize (pendingAnonFuncs cg ! j)) cg cg1" by (rule anon_queued[OF Inr])
      have lt: "waiting 0 (Suc j) cg1 < waiting 0 j cg" by (rule waiting_step[OF waiting_anon[OF True] q]) (use True in simp_all)
      have "Suc j \<le> length (pendingAnonFuncs cg1)" using q True by (auto simp: queued_def)
      from less.hyps[OF lt this]
      have "settles (\<lambda>n. anonLoop n (Suc j) cg1) (\<lambda>cg'. waiting 0 0 cg' \<le> waiting 0 (Suc j) cg1)"
        by (rule settles_weaken) simp
      then have "settles (\<lambda>n. anonLoop n (Suc j) cg1) (\<lambda>cg'. waiting 0 0 cg' < waiting 0 j cg)"
        by (rule settles_weaken) (use lt in auto)
      then have "settles (\<lambda>n. anonLoop (Suc n) j cg) (\<lambda>cg'. waiting 0 0 cg' < waiting 0 j cg)"
        using True Inr by simp
      then show ?thesis by (rule settles_weaken[OF settles_Suc]) auto
    qed
  qed
qed

lemma settles_drain: "settles (\<lambda>n. drain n cg) (\<lambda>cg'. True)"
proof (induction "waiting 0 0 cg" arbitrary: cg rule: less_induct)
  case less
  show ?case
  proof (cases "pendingLambdas cg = [] \<and> pendingAnonFuncs cg = []")
    case True
    then show ?thesis by (intro settles_Suc[OF settlesI[of 0]]) auto
  next
    case False
    have "settles (\<lambda>n. cgNext (emitPendingLambdas (Suc n) cg) (\<lambda>cg1. cgNext (emitPendingAnonFuncs (Suc n) cg1) (drain n))) (\<lambda>cg'. True)"
    proof (rule settles_next)
      have "settles (\<lambda>n. lambdaLoop n 0 cg)
           (\<lambda>cg1. pendingLambdas cg1 = [] \<and> waiting 0 0 cg1 \<le> waiting 0 0 cg \<and> (0 < length (pendingLambdas cg) \<longrightarrow> waiting 0 0 cg1 < waiting 0 0 cg))"
        by (rule settles_lambdas) simp
      then show "settles (\<lambda>n. emitPendingLambdas (Suc n) cg)
           (\<lambda>cg1. pendingLambdas cg1 = [] \<and> waiting 0 0 cg1 \<le> waiting 0 0 cg \<and> (0 < length (pendingLambdas cg) \<longrightarrow> waiting 0 0 cg1 < waiting 0 0 cg))"
        unfolding emitPendingLambdas_def by (rule settles_shift)
    next
      fix cg1
      assume 1: "pendingLambdas cg1 = [] \<and> waiting 0 0 cg1 \<le> waiting 0 0 cg \<and> (0 < length (pendingLambdas cg) \<longrightarrow> waiting 0 0 cg1 < waiting 0 0 cg)"
      show "settles (\<lambda>n. cgNext (emitPendingAnonFuncs (Suc n) cg1) (drain n)) (\<lambda>cg'. True)"
      proof (rule settles_next)
        show "settles (\<lambda>n. emitPendingAnonFuncs (Suc n) cg1)
             (\<lambda>cg2. waiting 0 0 cg2 \<le> waiting 0 0 cg1 \<and> (0 < length (pendingAnonFuncs cg1) \<longrightarrow> waiting 0 0 cg2 < waiting 0 0 cg1))"
          unfolding emitPendingAnonFuncs_def by (intro settles_shift settles_anons) simp
        fix cg2
        assume 2: "waiting 0 0 cg2 \<le> waiting 0 0 cg1 \<and> (0 < length (pendingAnonFuncs cg1) \<longrightarrow> waiting 0 0 cg2 < waiting 0 0 cg1)"
        show "settles (\<lambda>n. drain n cg2) (\<lambda>cg'. True)"
        proof (rule less)
          have e: "waiting 0 0 cg1 = {#}" if "pendingAnonFuncs cg1 = []" using 1 that by (simp add: waiting_def)
          have "{#} < waiting 0 0 cg" using False by (intro le_multiset_empty_left) (auto simp: waiting_def)
          then show "waiting 0 0 cg2 < waiting 0 0 cg" using 1 2 e by (cases "pendingAnonFuncs cg1 = []") auto
        qed
      qed
    qed
    then show ?thesis using False by - (rule settles_Suc, simp only: drain.simps if_False)
  qed
qed


section \<open>Every program\<close>

lemma settles_decls: "settles (\<lambda>n. emitFunctionDecls n fs cg) (\<lambda>cg'. True)"
proof (induction fs arbitrary: cg)
  case Nil
  then show ?case by (simp add: settles_done)
next
  case (Cons f fs)
  have "settles (\<lambda>n. emitFunctionDecl n f cg) (\<lambda>cg'. True)"
  proof (cases "fdBody f")
    case None
    then show ?thesis by (simp add: emitFunctionDecl_def settles_done)
  next
    case (Some b)
    show ?thesis unfolding emitFunctionDecl_def Some option.case
    proof (rule settles_next)
      show "settles (\<lambda>n. Some (cgThen (declareParams (fdParams f))
          (emitFunction (fdName f) (int (length (fdParams f))) (fdIsVarargs f) (emitBlock b)) (resetFunction cg))) (\<lambda>cg'. True)"
        by (rule settlesI[of 0]) auto
    qed (rule settles_drain)
  qed
  then show ?case by (simp, rule settles_next) (rule Cons.IH)
qed

lemma settles_initializers: "settles (\<lambda>n. emitInitializers n inits cg) (\<lambda>cg'. True)"
proof (cases "inits = []")
  case True
  then show ?thesis by (simp add: emitInitializers_def settles_done)
next
  case False
  have "settles (\<lambda>n. cgNext (Some (emitFunction ''$objvarinit'' 0 False
                  (cgSeq (map (\<lambda>(slot, e). cgThen (emitExpr e) (emitI StoreObjectVar slot 0)) inits)) (resetFunction cg)))
          (emitPendingLambdas n)) (\<lambda>cg'. True)"
  proof (rule settles_next)
    show "settles (\<lambda>n. Some (emitFunction ''$objvarinit'' 0 False
                  (cgSeq (map (\<lambda>(slot, e). cgThen (emitExpr e) (emitI StoreObjectVar slot 0)) inits)) (resetFunction cg))) (\<lambda>cg'. True)"
      by (rule settlesI[of 0]) auto
    show "settles (\<lambda>n. emitPendingLambdas n cg1) (\<lambda>cg'. True)" for cg1
      unfolding emitPendingLambdas_def by (rule settles_weaken[OF settles_lambdas]) auto
  qed
  then show ?thesis using False by (simp add: emitInitializers_def)
qed

text \<open>
  The code generator ends on every syntax tree: although the queues of waiting bodies grow while they are walked, some fuel is
  enough for them, and any larger fuel gives the same program or the same error.
\<close>

lemma generate_ends:
  "\<exists>r n0. \<forall>k. generate (n0 + k) pid prog inherited = Some r"
proof -
  define cg0 where "cg0 = newCodegen\<lparr>classDefs := map_of (rev (map (\<lambda>c. (cdName c, cdMembers c)) (prClasses prog))),
                          cgObjectVars := inheritVars inherited\<rparr>"
  obtain cg1 names inits where f: "fold declareObjectVar (prObjectVars prog) (cg0, inherited, []) = (cg1, names, inits)"
    by (cases "fold declareObjectVar (prObjectVars prog) (cg0, inherited, [])") auto
  have "settles (\<lambda>n. cgNext (emitInitializers n inits cg1) (emitFunctionDecls n (prFunctions prog))) (\<lambda>cg. True)"
    by (rule settles_next[OF settles_initializers settles_decls])
  then obtain r n0 where "\<And>n. n0 \<le> n \<Longrightarrow> cgNext (emitInitializers n inits cg1) (emitFunctionDecls n (prFunctions prog)) = Some r"
    unfolding settles_def by blast
  then have "\<forall>k. generate (n0 + k) pid prog inherited =
      Some (map_sum id (\<lambda>cg. CompiledProgram pid (outCode cg) (outFunctions cg) (outStrings cg) (outFloats cg) names (prInherits prog) [] Map.empty) r)"
    unfolding generate_def cg0_def[symmetric] Let_def f prod.case by simp
  then show ?thesis by blast
qed

end
