(* ===== verification/Compile.thy ===== *)
theory Compile
  imports Preprocess Parser_Ends Parser_Run CodeGen_Ok CodeGen_Ends Vm_Safety
begin

text \<open>
  \<^verbatim>\<open>ObjectManager::compile\<close> of \<^verbatim>\<open>src/object/ObjectManager.cpp\<close>: from a file name to a program, through the preprocessor, the lexer, the
  parser and the code generator, with the programs of the inherited files compiled first. The system's preprocessor is a parameter:
  it gets the name of the file and the staged source and gives its output, or nothing when it fails. The files are those of the
  moment of the call.
\<close>

section \<open>State\<close>

record compile_env =
  ceFiles :: pp_env
  ceEfunExists :: "string \<Rightarrow> bool"
  ceGlobalInclude :: string
  ceDialect :: string
  ceCpp :: "string \<Rightarrow> string \<Rightarrow> string option"

text \<open>\<open>nextProgram\<close> is the address of the next program.\<close>

record compile_state =
  programCache :: "string \<rightharpoonup> CompiledProgram"
  programSource :: "string \<rightharpoonup> string"
  compiling :: "string set"
  nextProgram :: nat

text \<open>A program, a null pointer, an exception, or undefined behaviour.\<close>

datatype compile_result = CProgram CompiledProgram | CNull | CThrow exn | CUndef

type_synonym compile_answer = "(compile_result \<times> compile_state) option"

section \<open>Compiling\<close>

definition sourcePath :: "compile_env \<Rightarrow> string \<Rightarrow> string" where
  "sourcePath env fname = ppMudlibRoot (ceFiles env) @ fname @ ''.c''"

definition fileSource :: "compile_env \<Rightarrow> string \<Rightarrow> string option" where
  "fileSource env fname = ppFiles (ceFiles env) (sourcePath env fname)"

text \<open>A program of the cache is used when the source is unchanged, or gone.\<close>

definition cacheHit :: "compile_env \<Rightarrow> string \<Rightarrow> compile_state \<Rightarrow> CompiledProgram option" where
  "cacheHit env fname st =
     (case programCache st fname of
        None \<Rightarrow> None
      | Some p \<Rightarrow> if fileSource env fname = None \<or> programSource st fname = fileSource env fname then Some p else None)"

record inherited =
  ihPrograms :: "CompiledProgram list"
  ihVarNames :: "string list"
  ihOffsets :: "nat \<rightharpoonup> int"

text \<open>A parent's variables follow those of the parents before it; its own ancestors keep their places within it.\<close>

definition addParent :: "CompiledProgram \<Rightarrow> inherited \<Rightarrow> inherited" where
  "addParent p ih =
     (let base = int (length (ihVarNames ih)) in
      \<lparr>ihPrograms = ihPrograms ih @ [p], ihVarNames = ihVarNames ih @ objectVarNames p,
       ihOffsets = (ihOffsets ih)(progId p \<mapsto> base) ++ (\<lambda>i. map_option (\<lambda>o1. base + o1) (ancestorBaseOffsets p i))\<rparr>)"

text \<open>Within the \<^verbatim>\<open>try\<close> block every exception makes the result null.\<close>

primrec compileParents ::
  "(string \<Rightarrow> compile_state \<Rightarrow> compile_answer) \<Rightarrow> string list \<Rightarrow> inherited \<Rightarrow> compile_state \<Rightarrow> ((compile_result + inherited) \<times> compile_state) option" where
  "compileParents rec [] ih st = Some (Inr ih, st)"
| "compileParents rec (f # fs) ih st =
     (case rec f st of
        None \<Rightarrow> None
      | Some (CProgram p, st1) \<Rightarrow> compileParents rec fs (addParent p ih) st1
      | Some (CUndef, st1) \<Rightarrow> Some (Inl CUndef, st1)
      | Some (_, st1) \<Rightarrow> Some (Inl CNull, st1))"

definition parseSource :: "compile_env \<Rightarrow> string \<Rightarrow> Program res option" where
  "parseSource env text =
     (case res_bind (dialectFromString (ceDialect env)) (\<lambda>d. map_sum id (\<lambda>ts. (d, ts)) (tokenize d text)) of
        Inl e \<Rightarrow> Some (Inl e)
      | Inr (d, ts) \<Rightarrow> parseTokens (Suc (length ts)) ts d)"

fun withParents :: "inherited \<Rightarrow> CompiledProgram \<Rightarrow> CompiledProgram" where
  "withParents ih (CompiledProgram i cd fns sp fp vn inh pars offs) =
     CompiledProgram i cd fns sp fp vn inh (map Some (ihPrograms ih)) (ihOffsets ih)"

definition finishProgram :: "nat \<Rightarrow> string \<Rightarrow> string \<Rightarrow> Program \<Rightarrow> inherited \<Rightarrow> compile_state \<Rightarrow> compile_answer" where
  "finishProgram n fname src prog ih st =
     (case generate n (nextProgram st) prog (ihVarNames ih) of
        None \<Rightarrow> None
      | Some (Inl CgUndef) \<Rightarrow> Some (CUndef, st)
      | Some (Inl _) \<Rightarrow> Some (CNull, st)
      | Some (Inr p) \<Rightarrow>
          let p1 = withParents ih p in
          Some (CProgram p1, st\<lparr>programCache := (programCache st)(fname \<mapsto> p1),
                                programSource := (programSource st)(fname \<mapsto> src), nextProgram := Suc (nextProgram st)\<rparr>))"

definition compileSource ::
  "nat \<Rightarrow> (string \<Rightarrow> compile_state \<Rightarrow> compile_answer) \<Rightarrow> compile_env \<Rightarrow> string \<Rightarrow> string \<Rightarrow> compile_state \<Rightarrow> compile_answer" where
  "compileSource n rec env fname src st =
     (case stageSourceForPreprocessing (ceFiles env) (ceEfunExists env) (ceGlobalInclude env) (sourcePath env fname) src of
        Inl e \<Rightarrow> Some (CThrow e, st)
      | Inr staged \<Rightarrow>
          (case ceCpp env fname staged of
             None \<Rightarrow> Some (CNull, st)
           | Some outText \<Rightarrow>
               (case parseSource env (unmaskAfterSystemCpp (stripLineMarkers outText)) of
                  None \<Rightarrow> None
                | Some (Inl _) \<Rightarrow> Some (CNull, st)
                | Some (Inr prog) \<Rightarrow>
                    (case compileParents rec (prInherits prog) \<lparr>ihPrograms = [], ihVarNames = [], ihOffsets = Map.empty\<rparr> st of
                       None \<Rightarrow> None
                     | Some (Inl r, st1) \<Rightarrow> Some (r, st1)
                     | Some (Inr ih, st1) \<Rightarrow> finishProgram n fname src prog ih st1))))"

text \<open>The guard takes the file out of \<^verbatim>\<open>compiling_\<close> on every path. \<^const>\<open>None\<close> when the fuel is used up.\<close>

primrec compileFile :: "nat \<Rightarrow> compile_env \<Rightarrow> string \<Rightarrow> compile_state \<Rightarrow> compile_answer" where
  "compileFile 0 env rawFilename st = None"
| "compileFile (Suc n) env rawFilename st =
     (let fname = normalizeFilename rawFilename in
      case cacheHit env fname st of
        Some p \<Rightarrow> Some (CProgram p, st)
      | None \<Rightarrow>
          if fname \<in> compiling st then Some (CNull, st)
          else (case fileSource env fname of
                  None \<Rightarrow> Some (CNull, st)
                | Some src \<Rightarrow>
                    map_option (\<lambda>(r, st1). (r, st1\<lparr>compiling := compiling st1 - {fname}\<rparr>))
                      (compileSource n (compileFile n env) env fname src (st\<lparr>compiling := insert fname (compiling st)\<rparr>))))"

section \<open>The files being compiled\<close>

definition keeps :: "(string \<Rightarrow> compile_state \<Rightarrow> compile_answer) \<Rightarrow> bool" where
  "keeps rec \<longleftrightarrow> (\<forall>f st r st'. rec f st = Some (r, st') \<longrightarrow> compiling st' = compiling st)"

lemma compileParents_keeps:
  "keeps rec \<Longrightarrow> compileParents rec fs ih st = Some (r, st') \<Longrightarrow> compiling st' = compiling st"
proof (induction fs arbitrary: ih st)
  case (Cons f fs)
  from Cons.prems(2) obtain c st1 where c: "rec f st = Some (c, st1)" by (auto split: option.splits)
  then have k: "compiling st1 = compiling st" using Cons.prems(1) unfolding keeps_def by blast
  then show ?case using Cons c by (cases c) auto
qed simp

lemma finishProgram_keeps: "finishProgram n f s prog ih st = Some (r, st') \<Longrightarrow> compiling st' = compiling st"
  by (auto simp: finishProgram_def Let_def split: option.splits sum.splits cg_error.splits)

lemma compileSource_keeps: "keeps rec \<Longrightarrow> compileSource n rec env f s st = Some (r, st') \<Longrightarrow> compiling st' = compiling st"
  by (simp add: compileSource_def split: option.splits sum.splits prod.splits; clarsimp?;
      metis compileParents_keeps finishProgram_keeps)

lemma compileFile_keeps: "keeps (compileFile n env)"
proof (induction n)
  case (Suc n)
  show ?case unfolding keeps_def
    by (auto simp: Let_def split: option.splits if_splits dest!: compileSource_keeps[OF Suc.IH])
qed (simp add: keeps_def)

section \<open>Compiling ends\<close>

definition halts :: "(nat \<Rightarrow> 'a option) \<Rightarrow> bool" where
  "halts go \<longleftrightarrow> (\<exists>r n0. \<forall>k. go (n0 + k) = Some r)"

lemma halts_const [simp]: "halts (\<lambda>n. Some r)"
  by (auto simp: halts_def)

lemma haltsI: "(\<And>n. n0 \<le> n \<Longrightarrow> go n = Some r) \<Longrightarrow> halts go"
  unfolding halts_def by (intro exI[of _ r] exI[of _ n0]) simp

lemma haltsE:
  assumes "halts go"
  obtains r n0 where "\<And>n. n0 \<le> n \<Longrightarrow> go n = Some r"
  using assms unfolding halts_def by (metis le_Suc_ex)

lemma halts_Suc: "halts (\<lambda>n. go (Suc n)) \<Longrightarrow> halts go"
  unfolding halts_def by (metis add_Suc)

lemma halts_map: "halts go \<Longrightarrow> halts (\<lambda>n. map_option f (go n))"
  unfolding halts_def by fastforce

text \<open>A step and what depends on its result.\<close>

lemma halts_case:
  assumes "halts go" "\<And>r. (\<exists>n. go n = Some r) \<Longrightarrow> halts (\<lambda>n. k n r)"
  shows "halts (\<lambda>n. case go n of None \<Rightarrow> None | Some r \<Rightarrow> k n r)"
proof -
  obtain r n0 where r: "\<And>n. n0 \<le> n \<Longrightarrow> go n = Some r" using assms(1) by (rule haltsE) blast
  obtain s n1 where s: "\<And>n. n1 \<le> n \<Longrightarrow> k n r = Some s" by (rule haltsE[OF assms(2)]) (use r in auto)
  show ?thesis by (rule haltsI[of "max n0 n1" _ s]) (simp add: r s)
qed

lemma tokens_end: "tokenize d s = Inr toks \<Longrightarrow> toks \<noteq> [] \<and> tokType (last toks) = EndTok"
  using tokenizeFrom_lines[of d s 1 toks] by (auto simp: tokenize_def)

lemma parseSource_ends: "\<exists>r. parseSource env text = Some r"
proof (cases "res_bind (dialectFromString (ceDialect env)) (\<lambda>d. map_sum id (\<lambda>ts. (d, ts)) (tokenize d text))")
  case (Inl e)
  then show ?thesis by (simp add: parseSource_def)
next
  case (Inr x)
  obtain d ts where x: "x = (d, ts)" by (cases x)
  then have "tokenize d text = Inr ts" using Inr by (auto simp: res_bind_Inr_iff map_sum_Inr)
  then have "ts \<noteq> []" "tokType (last ts) \<noteq> Keyword" using tokens_end by fastforce+
  then obtain r where "parseTokens (Suc (length ts)) ts d = Some r" using parseTokens_ends by blast
  then show ?thesis using Inr x by (simp add: parseSource_def)
qed

lemma halts_parents:
  assumes "\<And>f st. compiling st = S \<Longrightarrow> halts (\<lambda>n. compileFile n env f st)"
  shows "compiling st = S \<Longrightarrow> halts (\<lambda>n. compileParents (compileFile n env) fs ih st)"
proof (induction fs arbitrary: ih st)
  case (Cons f fs)
  show ?case unfolding compileParents.simps
  proof (rule halts_case)
    show "halts (\<lambda>n. compileFile n env f st)" by (rule assms[OF Cons.prems])
    fix r
    assume r: "\<exists>n. compileFile n env f st = Some r"
    obtain c st1 where c: "r = (c, st1)" by (cases r)
    have "compiling st1 = S" using r c compileFile_keeps Cons.prems unfolding keeps_def by metis
    then have "halts (\<lambda>n. compileParents (compileFile n env) fs ih' st1)" for ih' by (rule Cons.IH)
    then show "halts (\<lambda>n. case r of
           (CProgram p, st1) \<Rightarrow> compileParents (compileFile n env) fs (addParent p ih) st1
         | (CNull, st1) \<Rightarrow> Some (Inl CNull, st1) | (CThrow ex, st1) \<Rightarrow> Some (Inl CNull, st1) | (CUndef, st1) \<Rightarrow> Some (Inl CUndef, st1))"
      by (cases c) (simp_all add: c)
  qed
qed simp

lemma halts_finish: "halts (\<lambda>n. finishProgram n f src prog ih st)"
proof -
  obtain r n0 where r: "\<And>k. generate (n0 + k) (nextProgram st) prog (ihVarNames ih) = Some r" using generate_ends by blast
  have "halts (\<lambda>n. generate n (nextProgram st) prog (ihVarNames ih))" unfolding halts_def using r by blast
  then show ?thesis unfolding finishProgram_def by (rule halts_case) (simp split: sum.split cg_error.split add: Let_def)
qed

lemma halts_source:
  assumes "\<And>f st'. compiling st' = compiling st \<Longrightarrow> halts (\<lambda>n. compileFile n env f st')"
  shows "halts (\<lambda>n. compileSource n (compileFile n env) env f src st)"
proof (cases "stageSourceForPreprocessing (ceFiles env) (ceEfunExists env) (ceGlobalInclude env) (sourcePath env f) src")
  case staged: (Inr staged)
  show ?thesis
  proof (cases "ceCpp env f staged")
    case (Some outText)
    obtain r where r: "parseSource env (unmaskAfterSystemCpp (stripLineMarkers outText)) = Some r" using parseSource_ends by blast
    show ?thesis
    proof (cases r)
      case (Inr prog)
      have h: "halts (\<lambda>n. compileParents (compileFile n env) (prInherits prog) \<lparr>ihPrograms = [], ihVarNames = [], ihOffsets = Map.empty\<rparr> st)"
        by (rule halts_parents[OF assms]) simp_all
      show ?thesis unfolding compileSource_def staged Some r Inr sum.case option.case
      proof (rule halts_case[OF h])
        show "halts (\<lambda>n. case q of (Inl r, st1) \<Rightarrow> Some (r, st1) | (Inr ih, st1) \<Rightarrow> finishProgram n f src prog ih st1)" for q
          by (cases q; cases "fst q") (auto intro: halts_finish)
      qed
    qed (simp add: compileSource_def staged Some r)
  qed (simp add: compileSource_def staged)
qed (simp add: compileSource_def)

lemma halts_compile:
  assumes "finite {f. fileSource env f \<noteq> None}"
  shows "halts (\<lambda>n. compileFile n env f st)"
proof (induction "card ({f. fileSource env f \<noteq> None} - compiling st)" arbitrary: f st rule: less_induct)
  case less
  define F where "F = normalizeFilename f"
  consider p where "cacheHit env F st = Some p" | "cacheHit env F st = None" "F \<in> compiling st \<or> fileSource env F = None"
    | src where "cacheHit env F st = None" "F \<notin> compiling st" "fileSource env F = Some src" by fastforce
  then have "halts (\<lambda>n. compileFile (Suc n) env f st)"
  proof cases
    case 3
    have "halts (\<lambda>n. compileSource n (compileFile n env) env F src (st\<lparr>compiling := insert F (compiling st)\<rparr>))"
    proof (rule halts_source, rule less)
      fix st' assume "compiling st' = compiling (st\<lparr>compiling := insert F (compiling st)\<rparr>)"
      then have "{f. fileSource env f \<noteq> None} - compiling st' \<subset> {f. fileSource env f \<noteq> None} - compiling st" using 3 by auto
      then show "card ({f. fileSource env f \<noteq> None} - compiling st') < card ({f. fileSource env f \<noteq> None} - compiling st)"
        using assms by (intro psubset_card_mono) auto
    qed
    then show ?thesis using 3 by (simp add: F_def[symmetric] halts_map)
  qed (cases "F \<in> compiling st"; simp add: F_def[symmetric])+
  then show ?case by (rule halts_Suc)
qed


section \<open>Where a program's variables are\<close>

text \<open>
  In an object whose program is \<open>p\<close>, the variables of \<open>q\<close> start at offset \<open>b\<close>.
\<close>

definition varsAt :: "CompiledProgram \<Rightarrow> CompiledProgram \<Rightarrow> int \<Rightarrow> bool" where
  "varsAt p q b \<longleftrightarrow> 0 \<le> b \<and> (\<exists>before after. objectVarNames p = before @ objectVarNames q @ after \<and> b = int (length before))"

definition ancestors :: "CompiledProgram \<Rightarrow> CompiledProgram list" where
  "ancestors p = linearisedParents (inheritedPrograms p)"

text \<open>Every recorded offset is right, and the offset of every ancestor is recorded. \<open>U\<close> are the programs that exist.\<close>

definition laidOut :: "CompiledProgram set \<Rightarrow> CompiledProgram \<Rightarrow> bool" where
  "laidOut U p \<longleftrightarrow>
     (\<forall>i b. ancestorBaseOffsets p i = Some b \<longrightarrow> (\<exists>q\<in>U. progId q = i \<and> varsAt p q b)) \<and>
     (\<forall>q\<in>set (ancestors p). ancestorBaseOffsets p (progId q) \<noteq> None) \<and>
     (\<forall>i\<in>set (code p). op i \<in> {PushObjectVar, StoreObjectVar} \<longrightarrow> 0 \<le> operand i \<and> operand i < int (length (objectVarNames p)))"

definition compileInv :: "CompiledProgram set \<Rightarrow> compile_state \<Rightarrow> bool" where
  "compileInv U st \<longleftrightarrow>
     closedUniverse U \<and> ran (programCache st) \<subseteq> U \<and> (\<forall>p\<in>U. progId p < nextProgram st \<and> laidOut U p)"













lemma compileInv_compiling [simp]: "compileInv U (st\<lparr>compiling := X\<rparr>) = compileInv U st"
  by (simp add: compileInv_def)

lemma compileSource_cases:
  "compileSource n rec env f src st = Some (r, st') \<Longrightarrow>
   st' = st \<and> (\<forall>p. r \<noteq> CProgram p) \<or>
   (\<exists>prog :: Program. compileParents rec (prInherits prog) \<lparr>ihPrograms = [], ihVarNames = [], ihOffsets = Map.empty\<rparr> st = Some (Inl r, st')) \<or>
   (\<exists>(prog :: Program) ih st1. compileParents rec (prInherits prog) \<lparr>ihPrograms = [], ihVarNames = [], ihOffsets = Map.empty\<rparr> st = Some (Inr ih, st1) \<and>
      finishProgram n f src prog ih st1 = Some (r, st'))"
  by (auto simp: compileSource_def split: option.splits sum.splits)




section \<open>Properties\<close>

text \<open>
  C35. Compiling ends: whatever the sources include and inherit, cycles among the inherited files included, some fuel is enough for the
  recursion, the parser's loops and the code generator's queues, and any larger fuel gives the same answer; and when it ends, whether
  with a program or not, the set of files being compiled is what it was.
\<close>

theorem compile_ends:
  assumes "finite {f. fileSource env f \<noteq> None}"
  shows "\<exists>r st' n0. (\<forall>k. compileFile (n0 + k) env f st = Some (r, st')) \<and> compiling st' = compiling st"
proof -
  obtain x n0 where x: "\<And>k. compileFile (n0 + k) env f st = Some x" using halts_compile[OF assms] unfolding halts_def by blast
  obtain r st' where "x = (r, st')" by (cases x)
  then show ?thesis using x[of 0] x compileFile_keeps[of n0 env] unfolding keeps_def by (metis add_0_right)
qed

lemma finish_cached:
  "finishProgram n f src prog ih st = Some (CProgram p, st') \<Longrightarrow> programCache st' f = Some p \<and> programSource st' f = Some src"
  by (auto simp: finishProgram_def Let_def split: option.splits sum.splits cg_error.splits)

lemma compile_cached:
  assumes "compileFile n env f st = Some (CProgram p, st')"
  shows "programCache st' (normalizeFilename f) = Some p \<and>
     (programSource st' (normalizeFilename f) = fileSource env (normalizeFilename f) \<or> fileSource env (normalizeFilename f) = None)"
proof (cases n)
  case (Suc m)
  let ?F = "normalizeFilename f"
  consider "st' = st" "cacheHit env ?F st = Some p"
    | src st1 where "compileSource m (compileFile m env) env ?F src (st\<lparr>compiling := insert ?F (compiling st)\<rparr>) = Some (CProgram p, st1)"
        "st' = st1\<lparr>compiling := compiling st1 - {?F}\<rparr>" "fileSource env ?F = Some src"
    using assms Suc by (auto simp: Let_def split: option.splits if_splits)
  then show ?thesis
  proof cases
    case 1
    then show ?thesis by (auto simp: cacheHit_def split: option.splits if_splits)
  next
    case 2
    have np: "compileParents rec fs ih s = Some (Inl (CProgram q), s') \<Longrightarrow> False" for rec fs ih s q s'
      by (induction fs arbitrary: ih s) (auto split: option.splits compile_result.splits)
    from compileSource_cases[OF 2(1)] np obtain prog :: Program and ih st0
      where "finishProgram m ?F src prog ih st0 = Some (CProgram p, st1)" by blast
    from finish_cached[OF this] 2 show ?thesis by simp
  qed
qed (use assms in simp)

text \<open>Compiling other files leaves the entry of a file alone whose source has not changed or is gone.\<close>

definition entryKept :: "string \<Rightarrow> compile_state \<Rightarrow> compile_state \<Rightarrow> bool" where
  "entryKept f st st' \<longleftrightarrow> programCache st' f = programCache st f \<and> programSource st' f = programSource st f"

lemma entryKept_simps [simp]: "entryKept f st st" "entryKept f st (st\<lparr>compiling := c\<rparr>)" "entryKept f (st\<lparr>compiling := c\<rparr>) st' = entryKept f st st'"
    "entryKept f st (st'\<lparr>compiling := c\<rparr>) = entryKept f st st'"
  by (simp_all add: entryKept_def)

lemma entryKept_trans: "entryKept f a b \<Longrightarrow> entryKept f b c \<Longrightarrow> entryKept f a c"
  by (simp add: entryKept_def)

definition entryGood :: "string \<Rightarrow> string option \<Rightarrow> compile_state \<Rightarrow> bool" where
  "entryGood f now st \<longleftrightarrow> programCache st f \<noteq> None \<and> now \<in> {programSource st f, None}"

lemma entryGood_kept: "entryKept f st st' \<Longrightarrow> entryGood f now st' = entryGood f now st"
  by (simp add: entryKept_def entryGood_def)

lemma entryGood_hit: "entryGood f (fileSource env f) st \<Longrightarrow> cacheHit env f st = programCache st f"
  by (auto simp: entryGood_def cacheHit_def split: option.split)

lemma compileParents_kept:
  assumes "\<forall>g st r st'. entryGood f now st \<longrightarrow> rec g st = Some (r, st') \<longrightarrow> entryKept f st st'"
  shows "compileParents rec fs ih st = Some (r, st') \<Longrightarrow> entryGood f now st \<Longrightarrow> entryKept f st st'"
proof (induction fs arbitrary: ih st)
  case (Cons g fs)
  from Cons.prems(1) obtain c st1 where c: "rec g st = Some (c, st1)" by (auto split: option.splits)
  have k: "entryKept f st st1" using assms Cons.prems(2) c by blast
  have g: "entryGood f now st1" using Cons.prems(2) entryGood_kept[OF k] by simp
  show ?case
  proof (cases c)
    case (CProgram p)
    then have "compileParents rec fs (addParent p ih) st1 = Some (r, st')" using Cons.prems(1) c by simp
    then show ?thesis using Cons.IH g entryKept_trans[OF k] by blast
  qed (use Cons.prems(1) c k in auto)
qed simp

lemma finishProgram_kept: "finishProgram n g src prog ih st = Some (r, st') \<Longrightarrow> f \<noteq> g \<Longrightarrow> entryKept f st st'"
  by (auto simp: finishProgram_def entryKept_def Let_def split: option.splits sum.splits cg_error.splits)

lemma compileFile_kept:
  "entryGood f (fileSource env f) st \<Longrightarrow> compileFile n env g st = Some (r, st') \<Longrightarrow> entryKept f st st'"
proof (induction n arbitrary: g st r st')
  case (Suc n)
  let ?g = "normalizeFilename g"
  show ?case
  proof (cases "cacheHit env ?g st")
    case None
    then have ne: "f \<noteq> ?g" using entryGood_hit[OF Suc.prems(1)] Suc.prems(1) by (auto simp: entryGood_def)
    let ?st = "st\<lparr>compiling := insert ?g (compiling st)\<rparr>"
    consider "st' = st" | src st1 where "compileSource n (compileFile n env) env ?g src ?st = Some (r, st1)"
      "st' = st1\<lparr>compiling := compiling st1 - {?g}\<rparr>"
      using Suc.prems(2) None by (auto simp: Let_def split: option.splits if_splits)
    then show ?thesis
    proof cases
      case (2 src st1)
      have g: "entryGood f (fileSource env f) ?st" using Suc.prems(1) by (simp add: entryGood_def)
      have "\<forall>g st r st'. entryGood f (fileSource env f) st \<longrightarrow> compileFile n env g st = Some (r, st') \<longrightarrow> entryKept f st st'"
        using Suc.IH by blast
      note parents = compileParents_kept[OF this _ g]
      let ?ih = "\<lparr>ihPrograms = [], ihVarNames = [], ihOffsets = Map.empty\<rparr>"
      consider "st1 = ?st" | prog :: Program where "compileParents (compileFile n env) (prInherits prog) ?ih ?st = Some (Inl r, st1)"
        | prog :: Program and ih sp where "compileParents (compileFile n env) (prInherits prog) ?ih ?st = Some (Inr ih, sp)"
            "finishProgram n ?g src prog ih sp = Some (r, st1)"
        using compileSource_cases[OF 2(1)] by blast
      then have "entryKept f ?st st1"
      proof cases
        case (3 prog ih sp)
        show ?thesis by (rule entryKept_trans[OF parents[OF 3(1)] finishProgram_kept[OF 3(2) ne]])
      qed (simp, rule parents)
      then show ?thesis using 2(2) by simp
    qed simp
  qed (use Suc.prems(2) in simp)
qed simp

primrec compileAll :: "(nat \<times> compile_env \<times> string) list \<Rightarrow> compile_state \<Rightarrow> compile_state option" where
  "compileAll [] st = Some st"
| "compileAll (c # cs) st = (case compileFile (fst c) (fst (snd c)) (snd (snd c)) st of None \<Rightarrow> None | Some (r, st1) \<Rightarrow> compileAll cs st1)"

lemma compileAll_kept:
  "compileAll cs st = Some st' \<Longrightarrow> (\<forall>c \<in> set cs. entryGood f (fileSource (fst (snd c)) f) st) \<Longrightarrow> entryKept f st st'"
proof (induction cs arbitrary: st)
  case (Cons c cs)
  obtain r st1 where c: "compileFile (fst c) (fst (snd c)) (snd (snd c)) st = Some (r, st1)" "compileAll cs st1 = Some st'"
    using Cons.prems(1) by (auto split: option.splits)
  have k: "entryKept f st st1" using compileFile_kept[OF _ c(1)] Cons.prems(2) by simp
  then show ?case using Cons.IH[OF c(2)] Cons.prems(2) entryGood_kept[OF k] entryKept_trans by fastforce
qed simp

text \<open>
  C36. A program is compiled once: after a successful compilation, and whatever other files are compiled in between, with whatever sources and
  whatever result, compiling the same file again gives the same program and changes nothing, as long as its own source stays the same or is gone.
\<close>

theorem compile_once:
  assumes "compileFile n env f st = Some (CProgram p, st1)" "compileAll calls st1 = Some st2"
    and "\<forall>c \<in> set calls. fileSource (fst (snd c)) (normalizeFilename f) \<in> {fileSource env (normalizeFilename f), None}"
    and "fileSource env' (normalizeFilename f) \<in> {fileSource env (normalizeFilename f), None}"
  shows "compileFile (Suc m) env' f st2 = Some (CProgram p, st2)"
proof -
  let ?F = "normalizeFilename f"
  have c: "programCache st1 ?F = Some p" "programSource st1 ?F = fileSource env ?F \<or> fileSource env ?F = None"
    using compile_cached[OF assms(1)] by simp_all
  have good: "entryGood ?F now st1" if "now \<in> {fileSource env ?F, None}" for now
    using c that by (auto simp: entryGood_def)
  have k: "entryKept ?F st1 st2" by (rule compileAll_kept[OF assms(2)]) (use assms(3) good in blast)
  have "cacheHit env' ?F st2 = programCache st2 ?F"
    by (rule entryGood_hit) (use good[OF assms(4)] entryGood_kept[OF k] in simp)
  then have "cacheHit env' ?F st2 = Some p" using k c(1) by (simp add: entryKept_def)
  then show ?thesis by simp
qed

text \<open>The states a driver that only compiles can reach: the files and the configuration may change between two calls.\<close>

definition newCompileState :: compile_state where
  "newCompileState = \<lparr>programCache = Map.empty, programSource = Map.empty, compiling = {}, nextProgram = 0\<rparr>"





section \<open>Two files, one inheriting the other\<close>

definition demoText :: string where
  "demoText = ''inherit'' @ [lxQuote] @ ''/a'' @ [lxQuote] @ '';int y=1;''"

definition demoCompile :: compile_env where
  "demoCompile =
     \<lparr>ceFiles = \<lparr>ppFiles = [''r/a.c'' \<mapsto> [], ''r/b.c'' \<mapsto> []], ppMudlibRoot = ''r'', ppIncludeDirs = []\<rparr>,
      ceEfunExists = \<lambda>n. False, ceGlobalInclude = [], ceDialect = ''fluffos'',
      ceCpp = \<lambda>f s. if f = ''/a'' then Some ''int x=1;'' else Some demoText\<rparr>"

lemma demo_staged:
  "stageSourceForPreprocessing (ceFiles demoCompile) (ceEfunExists demoCompile) (ceGlobalInclude demoCompile) (sourcePath demoCompile ''/a'') [] =
     Inr (''# 1 '' @ [lxQuote] @ ''r/a.c'' @ [lxQuote, lxNl])"
  "stageSourceForPreprocessing (ceFiles demoCompile) (ceEfunExists demoCompile) (ceGlobalInclude demoCompile) (sourcePath demoCompile ''/b'') [] =
     Inr (''# 1 '' @ [lxQuote] @ ''r/b.c'' @ [lxQuote, lxNl])"
  by code_simp+

lemma demo_tokens:
  "tokenize FluffOS (unmaskAfterSystemCpp (stripLineMarkers ''int x=1;'')) =
     Inr [mkTok Keyword ''int'' 1, mkTok Ident ''x'' 1, mkTok SymbolTok ''='' 1, mkTok Number ''1'' 1, mkTok SymbolTok '';'' 1, mkTok EndTok [] 2]"
  "tokenize FluffOS (unmaskAfterSystemCpp (stripLineMarkers demoText)) =
     Inr [mkTok Keyword ''inherit'' 1, mkTok StringTok ''/a'' 1, mkTok SymbolTok '';'' 1,
       mkTok Keyword ''int'' 1, mkTok Ident ''y'' 1, mkTok SymbolTok ''='' 1, mkTok Number ''1'' 1, mkTok SymbolTok '';'' 1, mkTok EndTok [] 2]"
  by code_simp+

definition demoVar :: "string \<Rightarrow> ObjectVarDecl" where
  "demoVar n = \<lparr>ovType = ''int'', ovIsArray = False, ovName = n, ovIsPrivate = False, ovInitializer = Some (IntLiteral 1)\<rparr>"

lemma demo_number: "numberLiteral ''1'' = Inr (IntLiteral 1)"
  by code_simp

lemma demo_parsed:
  "parseSource demoCompile (unmaskAfterSystemCpp (stripLineMarkers ''int x=1;'')) =
     Some (Inr \<lparr>prFunctions = [], prObjectVars = [demoVar ''x''], prInherits = [], prClasses = []\<rparr>)"
  "parseSource demoCompile (unmaskAfterSystemCpp (stripLineMarkers demoText)) =
     Some (Inr \<lparr>prFunctions = [], prObjectVars = [demoVar ''y''], prInherits = [''/a''], prClasses = []\<rparr>)"
  unfolding parseSource_def demo_tokens
  by (simp_all add: demoCompile_def dialectFromString_def demo_tokens demo_number demoVar_def parser_run del: parserAt.simps cong: psNext_cong)

definition demoA :: CompiledProgram where
  "demoA = CompiledProgram 0 [instr PushInt 1 0, instr StoreObjectVar 0 0, instr OpReturn 0 0]
     [functionEntry ''$objvarinit'' 0 0 0 False] [] [] [''x''] [] [] Map.empty"

definition demoB :: CompiledProgram where
  "demoB = CompiledProgram 1 [instr PushInt 1 0, instr StoreObjectVar 1 0, instr OpReturn 0 0]
     [functionEntry ''$objvarinit'' 0 0 0 False] [] [] [''x'', ''y''] [''/a''] [Some demoA] [0 \<mapsto> 0]"

lemma demo_generated:
  "generate (Suc n) 0 \<lparr>prFunctions = [], prObjectVars = [demoVar ''x''], prInherits = [], prClasses = []\<rparr> [] = Some (Inr demoA)"
  "generate (Suc n) 1 \<lparr>prFunctions = [], prObjectVars = [demoVar ''y''], prInherits = [''/a''], prClasses = []\<rparr> [''x''] =
     Some (Inr (CompiledProgram 1 [instr PushInt 1 0, instr StoreObjectVar 1 0, instr OpReturn 0 0]
       [functionEntry ''$objvarinit'' 0 0 0 False] [] [] [''x'', ''y''] [''/a''] [] Map.empty))"
  by (simp_all add: demoVar_def demoA_def cg_run to_int32_def)

definition demoState :: compile_state where
  "demoState = \<lparr>programCache = [''/a'' \<mapsto> demoA], programSource = [''/a'' \<mapsto> []], compiling = {}, nextProgram = 1\<rparr>"


lemma demo_compiled:
  "compileFile (Suc (Suc n)) demoCompile ''a'' newCompileState = Some (CProgram demoA, demoState)"
  "\<exists>st. compileFile (Suc (Suc n)) demoCompile ''b.c'' demoState = Some (CProgram demoB, st)"
proof -
  have f: "fileSource demoCompile ''/a'' = Some []" "fileSource demoCompile ''/b'' = Some []" by code_simp+
  have n: "normalizeFilename ''a'' = ''/a''" "normalizeFilename ''/a'' = ''/a''" "normalizeFilename ''b.c'' = ''/b''" by code_simp+
  have c: "ceCpp demoCompile ''/a'' s = Some ''int x=1;''" "ceCpp demoCompile ''/b'' s = Some demoText" for s by (simp_all add: demoCompile_def)
  have ca: "cacheHit demoCompile ''/a'' newCompileState = None" "cacheHit demoCompile ''/a'' (demoState\<lparr>compiling := X\<rparr>) = Some demoA"
      "cacheHit demoCompile ''/b'' demoState = None" for X
    by (simp_all add: cacheHit_def newCompileState_def demoState_def f)
  have nc: "compiling newCompileState = {}" "nextProgram newCompileState = 0" by (simp_all add: newCompileState_def)
  show "compileFile (Suc (Suc n)) demoCompile ''a'' newCompileState = Some (CProgram demoA, demoState)"
    by (simp add: n f c ca nc compileSource_def demo_staged demo_parsed finishProgram_def demo_generated Let_def)
      (simp add: demoA_def newCompileState_def demoState_def)
  have p: "addParent demoA \<lparr>ihPrograms = [], ihVarNames = [], ihOffsets = Map.empty\<rparr> =
      \<lparr>ihPrograms = [demoA], ihVarNames = [''x''], ihOffsets = [0 \<mapsto> 0]\<rparr>"
    by (simp add: addParent_def demoA_def Let_def)
  show "\<exists>st. compileFile (Suc (Suc n)) demoCompile ''b.c'' demoState = Some (CProgram demoB, st)"
    by (simp add: n f c ca p compileSource_def demo_staged demo_parsed finishProgram_def Let_def)
      (simp add: demoState_def demo_generated(2)[unfolded One_nat_def] demoB_def Let_def)
qed


text \<open>Witnesses.\<close>

theorem compile_ends_witness:
  "\<exists>r st' n0. (\<forall>k. compileFile (n0 + k) demoCompile ''b.c'' demoState = Some (r, st')) \<and> compiling st' = {}"
proof -
  have "fileSource demoCompile f \<noteq> None \<Longrightarrow> f \<in> {''/a'', ''/b''}" for f
    by (auto simp: demoCompile_def fileSource_def sourcePath_def split: if_splits)
  then have "finite {f. fileSource demoCompile f \<noteq> None}" by (auto intro: finite_subset[of _ "{''/a'', ''/b''}"])
  from compile_ends[OF this, of "''b.c''" demoState] show ?thesis by (simp add: demoState_def)
qed

theorem compile_once_witness:
  "\<exists>st. compileFile 2 demoCompile ''b.c'' demoState = Some (CProgram demoB, st) \<and>
     compileFile 1 (demoCompile\<lparr>ceFiles := \<lparr>ppFiles = Map.empty, ppMudlibRoot = ''r'', ppIncludeDirs = []\<rparr>\<rparr>) ''a'' st = Some (CProgram demoA, st)"
proof -
  obtain st where b: "compileFile 2 demoCompile ''b.c'' demoState = Some (CProgram demoB, st)"
    using demo_compiled(2)[of 0] by (auto simp: numeral_2_eq_2)
  have "compileAll [(2, demoCompile, ''b.c'')] demoState = Some st" using b by simp
  from compile_once[OF demo_compiled(1)[of 0] this, of "demoCompile\<lparr>ceFiles := \<lparr>ppFiles = Map.empty, ppMudlibRoot = ''r'', ppIncludeDirs = []\<rparr>\<rparr>" 0]
  show ?thesis using b by (simp add: fileSource_def)
qed


end
