(* ===== verification/Shadows.thy ===== *)
theory Shadows
  imports Registries
begin

text \<open>
  Shadow chains: the links \<^verbatim>\<open>shadowing_\<close> and \<^verbatim>\<open>shadowedBy_\<close> of \<^verbatim>\<open>LpcObject\<close>, the efuns \<^verbatim>\<open>shadow()\<close>, \<^verbatim>\<open>remove_shadow()\<close>, \<^verbatim>\<open>unshadow()\<close> and
  \<^verbatim>\<open>query_shadowing()\<close> of \<^verbatim>\<open>src/efun/EfunTable.cpp\<close>, and how \<^verbatim>\<open>ObjectManager::destructObject\<close> takes an object out of its chain.
  The answer of the master object is a parameter: a function from the heap to whether it approves and the heap it leaves.
\<close>

section \<open>Links\<close>

text \<open>What a weak pointer of an object locks to.\<close>

definition upOf :: "heap \<Rightarrow> ref \<Rightarrow> ref option" where
  "upOf h r = (case h r of None \<Rightarrow> None | Some ob \<Rightarrow> lock h (shadowedBy ob))"

definition downOf :: "heap \<Rightarrow> ref \<Rightarrow> ref option" where
  "downOf h r = (case h r of None \<Rightarrow> None | Some ob \<Rightarrow> lock h (shadowing ob))"

definition setUp :: "ref \<Rightarrow> ref option \<Rightarrow> heap \<Rightarrow> heap" where
  "setUp r x h = updObj r (\<lambda>ob. ob\<lparr>shadowedBy := x\<rparr>) h"

definition setDown :: "ref \<Rightarrow> ref option \<Rightarrow> heap \<Rightarrow> heap" where
  "setDown r x h = updObj r (\<lambda>ob. ob\<lparr>shadowing := x\<rparr>) h"

definition clearLinks :: "ref \<Rightarrow> heap \<Rightarrow> heap" where
  "clearLinks r h = setUp r None (setDown r None h)"

text \<open>The neighbours of an object are linked to each other, and the object to none.\<close>

definition spliceOut :: "ref \<Rightarrow> heap \<Rightarrow> heap" where
  "spliceOut r h =
     (let up = upOf h r; down = downOf h r;
          h1 = (case down of None \<Rightarrow> h | Some d \<Rightarrow> setUp d up h);
          h2 = (case up of None \<Rightarrow> h1 | Some u \<Rightarrow> setDown u down h1)
      in clearLinks r h2)"

text \<open>The last object of the chain above; \<^const>\<open>None\<close> when \<open>n\<close> steps are not enough.\<close>

primrec topOf :: "nat \<Rightarrow> heap \<Rightarrow> ref \<Rightarrow> ref option" where
  "topOf 0 h r = None"
| "topOf (Suc n) h r = (case upOf h r of None \<Rightarrow> Some r | Some u \<Rightarrow> topOf n h u)"

definition attachShadow :: "nat \<Rightarrow> ref \<Rightarrow> ref \<Rightarrow> heap \<Rightarrow> (ref \<times> heap) option" where
  "attachShadow n self ob h =
     map_option (\<lambda>victim. (victim, setUp victim (Some self) (setDown self (Some victim) h))) (topOf n h ob)"

section \<open>The efuns\<close>

definition isDestructed :: "heap \<Rightarrow> ref \<Rightarrow> bool" where
  "isDestructed h r = (case h r of None \<Rightarrow> False | Some ob \<Rightarrow> destructed ob)"

definition environmentOfRef :: "heap \<Rightarrow> ref \<Rightarrow> ref option" where
  "environmentOfRef h r = (case h r of None \<Rightarrow> None | Some ob \<Rightarrow> lock h (environment ob))"

text \<open>The tests before the master is asked, in the order of the code; FluffOS also refuses the master object.\<close>

definition shadowRefused :: "bool \<Rightarrow> ref option \<Rightarrow> ref \<Rightarrow> ref \<Rightarrow> heap \<Rightarrow> string option" where
  "shadowRefused fluffos master self ob h =
     (if ob = self then Some (''shadow: Can't shadow self'' @ (if fluffos then [] else ''.''))
      else if downOf h self \<noteq> None then Some ''shadow: Already shadowing.''
      else if upOf h self \<noteq> None then Some ''shadow: Can't shadow when shadowed.''
      else if environmentOfRef h self \<noteq> None then Some ''shadow: The shadow must not reside inside another object.''
      else if fluffos \<and> Some ob = master then Some ''shadow: cannot shadow the master object.''
      else if downOf h ob \<noteq> None then Some ''shadow: Can't shadow a shadow.''
      else None)"

text \<open>FluffOS gives the victim or nothing, LDMud 1 or 0.\<close>

definition shadowValue :: "bool \<Rightarrow> ref option \<Rightarrow> lvalue" where
  "shadowValue fluffos victim =
     (if fluffos then mkValue (case victim of None \<Rightarrow> VVoid | Some v \<Rightarrow> VObj (Some v))
      else mkValue (VInt (if victim = None then 0 else 1)))"

text \<open>
  \<^verbatim>\<open>shadow(ob, attach)\<close> for a caller. The master is asked between the tests and the attachment. The outer option is \<^const>\<open>None\<close>
  when \<open>n\<close> steps are not enough for the walk.
\<close>

definition shadowEfun ::
  "nat \<Rightarrow> bool \<Rightarrow> ref option \<Rightarrow> (heap \<Rightarrow> (exn + bool) \<times> heap) \<Rightarrow> bool \<Rightarrow> ref option \<Rightarrow> ref \<Rightarrow> heap \<Rightarrow> ((exn + lvalue) \<times> heap) option" where
  "shadowEfun n fluffos master ask attach self ob h =
     (let none = Inr (shadowValue fluffos None) in
      if isDestructed h ob then Some (none, h)
      else if fluffos \<and> \<not> attach then Some (Inr (shadowValue fluffos (upOf h ob)), h)
      else (case self of
              None \<Rightarrow> Some (none, h)
            | Some s \<Rightarrow>
                (case shadowRefused fluffos master s ob h of
                   Some msg \<Rightarrow> Some (Inl (LpcRuntimeError msg), h)
                 | None \<Rightarrow>
                     (case (if master = None then (Inr False, h) else ask h) of
                        (Inl e, h1) \<Rightarrow> Some (Inl e, h1)
                      | (Inr approved, h1) \<Rightarrow>
                          if \<not> approved \<or> isDestructed h1 s then Some (none, h1)
                          else map_option (\<lambda>(victim, h2). (Inr (shadowValue fluffos (Some victim)), h2)) (attachShadow n s ob h1)))))"

definition queryShadowing :: "heap \<Rightarrow> ref \<Rightarrow> ref option" where
  "queryShadowing h r = downOf h r"

definition removeShadow :: "ref \<Rightarrow> heap \<Rightarrow> bool \<times> heap" where
  "removeShadow r h = (if upOf h r = None \<and> downOf h r = None then (False, h) else (True, spliceOut r h))"

text \<open>\<^verbatim>\<open>unshadow()\<close> does nothing for an object that shadows nothing.\<close>

definition unshadow :: "ref \<Rightarrow> heap \<Rightarrow> heap" where
  "unshadow r h = (if downOf h r = None then h else spliceOut r h)"


section \<open>Chains\<close>

text \<open>The shadows above an object, nearest first.\<close>

fun chain :: "heap \<Rightarrow> ref \<Rightarrow> ref list \<Rightarrow> bool" where
  "chain h r [] \<longleftrightarrow> upOf h r = None"
| "chain h r (u # us) \<longleftrightarrow> upOf h r = Some u \<and> chain h u us"

text \<open>The two kinds of links are inverse to each other, and every walk up ends.\<close>

definition shadowOk :: "heap \<Rightarrow> bool" where
  "shadowOk h \<longleftrightarrow> (\<forall>a b. downOf h a = Some b \<longleftrightarrow> upOf h b = Some a) \<and> (\<forall>r. \<exists>us. chain h r us)"

lemma shadowOk_linked: "shadowOk h \<Longrightarrow> downOf h a = Some b \<longleftrightarrow> upOf h b = Some a"
  by (simp add: shadowOk_def)

lemma chain_unique: "chain h r us \<Longrightarrow> chain h r vs \<Longrightarrow> us = vs"
proof (induction us arbitrary: r vs)
  case Nil
  then show ?case by (cases vs) auto
next
  case (Cons u us)
  then show ?case by (cases vs) auto
qed

lemma chain_suffix: "chain h r (us @ v # vs) \<Longrightarrow> chain h v vs"
  by (induction us arbitrary: r) auto

lemma chain_distinct: "chain h r us \<Longrightarrow> distinct (r # us)"
proof (induction us arbitrary: r)
  case (Cons u us)
  have "r \<notin> set (u # us)"
  proof
    assume "r \<in> set (u # us)"
    then obtain xs ys where "u # us = xs @ r # ys" by (meson split_list)
    then have "chain h r ys" using Cons.prems chain_suffix by metis
    then have "ys = u # us" using chain_unique Cons.prems by blast
    then show False using \<open>u # us = xs @ r # ys\<close> by (metis append_Cons append_Nil2 impossible_Cons length_append not_add_less2 lessI linorder_not_le length_Cons)
  qed
  moreover have "distinct (u # us)" by (rule Cons.IH) (use Cons.prems in simp)
  ultimately show ?case by simp
qed simp

lemma topOf_last: "chain h r us \<Longrightarrow> length us < n \<Longrightarrow> topOf n h r = Some (last (r # us))"
proof (induction us arbitrary: r n)
  case Nil
  then show ?case by (cases n) auto
next
  case (Cons u us)
  then show ?case by (cases n) auto
qed

lemma topOf_chain: "topOf n h r = Some t \<Longrightarrow> \<exists>us. chain h r us \<and> t = last (r # us)"
proof (induction n arbitrary: r)
  case (Suc n)
  show ?case
  proof (cases "upOf h r")
    case None
    then show ?thesis using Suc.prems by (intro exI[of _ "[]"]) simp
  next
    case (Some u)
    then obtain us where "chain h u us" "t = last (u # us)" using Suc by auto
    then show ?thesis using Some by (intro exI[of _ "u # us"]) simp
  qed
qed simp

lemma chain_dom: "chain h r us \<Longrightarrow> set us \<subseteq> dom h"
  by (induction us arbitrary: r) (auto simp: upOf_def lock_Some_iff split: option.splits)

section \<open>Links after an operation\<close>

lemma upOf_setUp: "upOf (setUp r x h) s = (if s = r \<and> r \<in> dom h then lock h x else upOf h s)"
  by (auto simp: upOf_def setUp_def updObj_def lock_def split: option.splits)

lemma upOf_setDown [simp]: "upOf (setDown r x h) s = upOf h s"
  by (auto simp: upOf_def setDown_def updObj_def lock_def split: option.splits)

lemma downOf_setDown: "downOf (setDown r x h) s = (if s = r \<and> r \<in> dom h then lock h x else downOf h s)"
  by (auto simp: downOf_def setDown_def updObj_def lock_def split: option.splits)

lemma downOf_setUp [simp]: "downOf (setUp r x h) s = downOf h s"
  by (auto simp: downOf_def setUp_def updObj_def lock_def split: option.splits)

lemma dom_set [simp]: "dom (setUp r x h) = dom h" "dom (setDown r x h) = dom h" "dom (clearLinks r h) = dom h"
  by (simp_all add: setUp_def setDown_def clearLinks_def)

lemma lock_set [simp]: "lock (setUp r x h) w = lock h w" "lock (setDown r x h) w = lock h w"
  by (simp_all add: setUp_def setDown_def)

lemma upOf_alive: "upOf h r = Some u \<Longrightarrow> u \<in> dom h \<and> r \<in> dom h \<and> lock h (Some u) = Some u"
  by (auto simp: upOf_def lock_Some_iff split: option.splits)

lemma downOf_alive: "downOf h r = Some u \<Longrightarrow> u \<in> dom h \<and> r \<in> dom h \<and> lock h (Some u) = Some u"
  by (auto simp: downOf_def lock_Some_iff split: option.splits)

lemma dom_splice [simp]: "dom (spliceOut r h) = dom h"
  by (simp add: spliceOut_def Let_def split: option.split)

lemma no_self: "shadowOk h \<Longrightarrow> upOf h r \<noteq> Some r"
  using chain_distinct unfolding shadowOk_def by (metis chain.simps(2) distinct.simps(2) list.exhaust list.set_intros(1) chain.simps(1) option.distinct(1) option.inject)

lemma upOf_splice:
  assumes "shadowOk h" "r \<in> dom h"
  shows "upOf (spliceOut r h) x = (if x = r then None else if upOf h x = Some r then upOf h r else upOf h x)"
proof -
  have d: "downOf h r = Some d \<longleftrightarrow> upOf h d = Some r" for d by (rule shadowOk_linked[OF assms(1)])
  have ns: "upOf h r \<noteq> Some r" by (rule no_self[OF assms(1)])
  have u: "lock h (upOf h r) = upOf h r" using upOf_alive by (cases "upOf h r") auto
  show ?thesis
  proof (cases "downOf h r")
    case None
    then have "upOf h x \<noteq> Some r" using d by auto
    then show ?thesis using None assms(2) by (auto simp: spliceOut_def Let_def clearLinks_def upOf_setUp split: option.split)
  next
    case (Some e)
    then have e: "upOf h x = Some r \<longleftrightarrow> x = e" for x
      using d shadowOk_linked[OF assms(1)] by (metis option.inject)
    then have er: "e \<noteq> r" "e \<in> dom h" using ns downOf_alive[OF Some] by auto
    have "upOf (spliceOut r h) x = (if x = r then None else upOf (setUp e (upOf h r) h) x)"
      using Some assms(2) by (cases "upOf h r") (simp_all add: spliceOut_def Let_def clearLinks_def upOf_setUp)
    then show ?thesis using er u e by (simp add: upOf_setUp)
  qed
qed

lemma downOf_splice:
  assumes "shadowOk h" "r \<in> dom h"
  shows "downOf (spliceOut r h) x = (if x = r then None else if downOf h x = Some r then downOf h r else downOf h x)"
proof -
  have u: "downOf h x = Some r \<longleftrightarrow> upOf h r = Some x" for x by (rule shadowOk_linked[OF assms(1)])
  have ns: "upOf h r \<noteq> Some r" by (rule no_self[OF assms(1)])
  have l: "lock h (downOf h r) = downOf h r" using downOf_alive by (cases "downOf h r") auto
  show ?thesis
  proof (cases "upOf h r")
    case None
    then show ?thesis using u assms(2) by (auto simp: spliceOut_def Let_def clearLinks_def downOf_setDown split: option.split)
  next
    case (Some e)
    then have er: "e \<noteq> r" "e \<in> dom h" using ns upOf_alive[OF Some] by auto
    have e: "downOf h x = Some r \<longleftrightarrow> x = e" for x using u Some by auto
    have "downOf (spliceOut r h) x = (if x = r then None else downOf (setDown e (downOf h r) h) x)"
      using Some assms(2) by (cases "downOf h r") (simp_all add: spliceOut_def Let_def clearLinks_def downOf_setDown)
    then show ?thesis using er l e by (simp add: downOf_setDown)
  qed
qed


lemma splice_ok:
  assumes "shadowOk h" "r \<in> dom h"
  shows "shadowOk (spliceOut r h)"
proof -
  have l: "downOf h a = Some b \<longleftrightarrow> upOf h b = Some a" for a b by (rule shadowOk_linked[OF assms(1)])
  have ns: "upOf h r \<noteq> Some r" by (rule no_self[OF assms(1)])
  note up = upOf_splice[OF assms] and down = downOf_splice[OF assms]
  have "downOf (spliceOut r h) a = Some b \<longleftrightarrow> upOf (spliceOut r h) b = Some a" for a b
  proof -
    have A: "downOf h a = Some r \<longleftrightarrow> upOf h r = Some a" and B: "downOf h r = Some b \<longleftrightarrow> upOf h b = Some r"
      and C: "downOf h a = Some b \<longleftrightarrow> upOf h b = Some a" and D: "downOf h r \<noteq> Some r" using l ns by blast+
    consider "a = r" | "a \<noteq> r" "b = r" | "a \<noteq> r" "b \<noteq> r" "downOf h a = Some r" | "a \<noteq> r" "b \<noteq> r" "downOf h a \<noteq> Some r" by blast
    then show ?thesis
    proof cases
      case 1
      then show ?thesis unfolding up down using ns by auto
    next
      case 2
      then show ?thesis unfolding up down using D by auto
    next
      case 3
      then have "upOf h r = Some a" "upOf h b \<noteq> Some a" using A C by auto
      then show ?thesis unfolding up down using 3 B by simp
    next
      case 4
      then have "upOf h r \<noteq> Some a" using A by blast
      then show ?thesis unfolding up down using 4 C by auto
    qed
  qed
  moreover have "chain h x us \<Longrightarrow> x \<noteq> r \<Longrightarrow> chain (spliceOut r h) x (filter (\<lambda>y. y \<noteq> r) us)" for x us
  proof (induction "length us" arbitrary: x us rule: less_induct)
    case less
    show ?case
    proof (cases us)
      case Nil
      then show ?thesis using less.prems by (simp add: up)
    next
      case (Cons u vs)
      then have u: "upOf h x = Some u" "chain h u vs" using less.prems by simp_all
      show ?thesis
      proof (cases "u = r")
        case False
        then show ?thesis using less.hyps[of vs u] u Cons less.prems(2) by (simp add: up)
      next
        case r: True
        show ?thesis
        proof (cases vs)
          case Nil
          then show ?thesis using u r Cons less.prems(2) by (simp add: up)
        next
          case vs: (Cons v ws)
          have "v \<noteq> r" using u(2) ns r vs by auto
          then show ?thesis using less.hyps[of ws v] u r Cons vs less.prems(2) by (simp add: up)
        qed
      qed
    qed
  qed
  moreover have "chain (spliceOut r h) r []" by (simp add: up)
  ultimately show ?thesis using assms(1) unfolding shadowOk_def by metis
qed


lemma lock_in_dom: "r \<in> dom h \<Longrightarrow> lock h (Some r) = Some r"
  by (auto simp: lock_def)

lemma attach_links:
  assumes "self \<in> dom h" "t \<in> dom h"
  shows "upOf (setUp t (Some self) (setDown self (Some t) h)) x = (if x = t then Some self else upOf h x)"
    and "downOf (setUp t (Some self) (setDown self (Some t) h)) x = (if x = self then Some t else downOf h x)"
proof -
  have "lock (setDown self (Some t) h) (Some self) = Some self" "lock h (Some t) = Some t" using assms by (simp_all add: lock_in_dom)
  then show "upOf (setUp t (Some self) (setDown self (Some t) h)) x = (if x = t then Some self else upOf h x)"
    "downOf (setUp t (Some self) (setDown self (Some t) h)) x = (if x = self then Some t else downOf h x)"
    using assms by (simp_all add: upOf_setUp downOf_setDown del: lock_set)
qed

lemma chain_last: "chain h r us \<Longrightarrow> upOf h (last (r # us)) = None"
  by (induction us arbitrary: r) auto

lemma chain_butlast: "chain h r us \<Longrightarrow> us \<noteq> [] \<Longrightarrow> \<exists>x. upOf h x = Some (last us)"
  by (induction us arbitrary: r) (auto split: if_splits)

lemma attach_ok:
  assumes ok: "shadowOk h" and "self \<in> dom h" "ob \<in> dom h" "self \<noteq> ob" "upOf h self = None" "downOf h self = None"
    and a: "attachShadow n self ob h = Some (t, h')"
  shows "shadowOk h'"
proof -
  obtain us where us: "chain h ob us" "t = last (ob # us)" using a topOf_chain unfolding attachShadow_def by blast
  have h': "h' = setUp t (Some self) (setDown self (Some t) h)" using a unfolding attachShadow_def by auto
  have "t \<in> set (ob # us)" unfolding us(2) by (rule last_in_set) simp
  then have "t \<in> dom h" using chain_dom[OF us(1)] assms(3) by auto
  moreover have "upOf h t = None" unfolding us(2) by (rule chain_last[OF us(1)])
  ultimately have t: "t \<in> dom h" "upOf h t = None" by blast+
  have ts: "t \<noteq> self"
  proof (cases us)
    case Nil
    then show ?thesis using us assms(4) by simp
  next
    case (Cons u vs)
    then obtain x where "upOf h x = Some t" using chain_butlast[OF us(1)] us(2) by auto
    then show ?thesis using shadowOk_linked[OF ok, of self x] assms(6) by auto
  qed
  note up = attach_links(1)[OF assms(2) t(1), folded h'] and down = attach_links(2)[OF assms(2) t(1), folded h']
  have "downOf h' a = Some b \<longleftrightarrow> upOf h' b = Some a" for a b
    using shadowOk_linked[OF ok, of a b] shadowOk_linked[OF ok, of a t] shadowOk_linked[OF ok, of self b] t(2) assms(6)
    unfolding up down by (cases "a = self"; cases "b = t") auto
  moreover have "\<exists>vs. chain h' x vs" for x
  proof -
    obtain vs where vs: "chain h x vs" using ok unfolding shadowOk_def by blast
    have "upOf h' self = None" using up ts assms(5) by simp
    moreover have "chain h x vs \<Longrightarrow> chain h' x (if last (x # vs) = t then vs @ [self] else vs)" for x vs
    proof (induction vs arbitrary: x)
      case Nil
      then show ?case using \<open>upOf h' self = None\<close> by (auto simp: up)
    next
      case (Cons v vs)
      then have "x \<noteq> t" using t(2) by auto
      then show ?case using Cons ts assms(5) by (auto simp: up)
    qed
    ultimately show ?thesis using vs by blast
  qed
  ultimately show ?thesis unfolding shadowOk_def by blast
qed

lemma upOf_free: "upOf (h(r := None)) x = (if x = r \<or> upOf h x = Some r then None else upOf h x)"
  by (auto simp: upOf_def lock_def split: option.splits)

lemma downOf_free: "downOf (h(r := None)) x = (if x = r \<or> downOf h x = Some r then None else downOf h x)"
  by (auto simp: downOf_def lock_def split: option.splits)

lemma free_ok:
  assumes "shadowOk h"
  shows "shadowOk (h(r := None))"
proof -
  have "chain h x us \<Longrightarrow> x \<noteq> r \<Longrightarrow> chain (h(r := None)) x (takeWhile (\<lambda>y. y \<noteq> r) us)" for x us
  proof (induction us arbitrary: x)
    case (Cons u us)
    then show ?case by (cases "u = r") (auto simp: upOf_free simp del: fun_upd_apply)
  qed (simp add: upOf_free del: fun_upd_apply)
  moreover have "chain (h(r := None)) r []" by (simp add: upOf_free del: fun_upd_apply)
  ultimately have "\<exists>us. chain (h(r := None)) x us" for x using assms unfolding shadowOk_def by metis
  moreover have "downOf (h(r := None)) a = Some b \<longleftrightarrow> upOf (h(r := None)) b = Some a" for a b
    using shadowOk_linked[OF assms, of a b] by (auto simp: upOf_free downOf_free simp del: fun_upd_apply)
  ultimately show ?thesis unfolding shadowOk_def by blast
qed

lemma links_cong_ok:
  assumes "shadowOk h" "\<And>x. upOf h' x = upOf h x" "\<And>x. downOf h' x = downOf h x"
  shows "shadowOk h'"
proof -
  have "chain h' x us = chain h x us" for x us by (induction us arbitrary: x) (simp_all add: assms(2))
  then show ?thesis using assms unfolding shadowOk_def by metis
qed

section \<open>Every history\<close>

text \<open>
  What can happen to the links: an object is made or freed, other fields change, the efun \<^verbatim>\<open>shadow()\<close> runs, an
  object is taken out of its chain by \<^verbatim>\<open>remove_shadow\<close> or \<^verbatim>\<open>unshadow\<close>, or because it is destructed. While \<^verbatim>\<open>shadow()\<close> asks the master
  object, the LPC code of the master may do any of this too; the one thing it must not do when it approves is to bring the caller or the object
  into a state that the tests before the question refuse, because the efun does not repeat them.
\<close>

definition stillFree :: "ref \<Rightarrow> ref \<Rightarrow> heap \<Rightarrow> bool" where
  "stillFree self ob h \<longleftrightarrow> self \<in> dom h \<and> ob \<in> dom h \<and> downOf h self = None \<and> upOf h self = None \<and> downOf h ob = None"

inductive shadowStep :: "heap \<Rightarrow> heap \<Rightarrow> bool" and shadowSteps :: "heap \<Rightarrow> heap \<Rightarrow> bool" where
  step_other: "(\<And>x. upOf h' x = upOf h x) \<Longrightarrow> (\<And>x. downOf h' x = downOf h x) \<Longrightarrow> shadowStep h h'"
| step_free: "shadowStep h (h(r := None))"
| step_shadow: "self \<in> dom h \<Longrightarrow> ob \<in> dom h \<Longrightarrow> shadowSteps h (snd (ask h)) \<Longrightarrow>
    fst (ask h) = Inr True \<longrightarrow> stillFree self ob (snd (ask h)) \<Longrightarrow>
    shadowEfun n fluffos master ask attach (Some self) ob h = Some (res, h') \<Longrightarrow> shadowStep h h'"
| step_remove: "r \<in> dom h \<Longrightarrow> removeShadow r h = (b, h') \<Longrightarrow> shadowStep h h'"
| step_unshadow: "r \<in> dom h \<Longrightarrow> shadowStep h (unshadow r h)"
| step_splice: "r \<in> dom h \<Longrightarrow> shadowStep h (spliceOut r h)"
| steps_none: "shadowSteps h h"
| steps_more: "shadowSteps h h1 \<Longrightarrow> shadowStep h1 h' \<Longrightarrow> shadowSteps h h'"

definition shadowReached :: "heap \<Rightarrow> bool" where
  "shadowReached h \<longleftrightarrow> shadowSteps Map.empty h"

lemma refused_None:
  "shadowRefused fluffos master self ob h = None \<Longrightarrow> ob \<noteq> self \<and> downOf h self = None \<and> upOf h self = None \<and> downOf h ob = None"
  by (auto simp: shadowRefused_def split: if_splits)

lemma shadowEfun_cases:
  assumes "shadowEfun n fluffos master ask attach (Some self) ob h = Some (res, h')"
  shows "h' = h \<or> h' = snd (ask h) \<or>
    (shadowRefused fluffos master self ob h = None \<and> fst (ask h) = Inr True \<and> (\<exists>t. attachShadow n self ob (snd (ask h)) = Some (t, h')))"
proof -
  obtain a h1 where a: "ask h = (a, h1)" by (cases "ask h")
  show ?thesis using assms by (auto simp: shadowEfun_def Let_def a split: if_splits option.splits sum.splits)
qed

lemma shadowStep_ok: "shadowStep h h' \<Longrightarrow> shadowOk h \<Longrightarrow> shadowOk h'"
  and shadowSteps_ok: "shadowSteps h h' \<Longrightarrow> shadowOk h \<Longrightarrow> shadowOk h'"
proof (induction rule: shadowStep_shadowSteps.inducts)
  case (step_other h' h)
  then show ?case using links_cong_ok by blast
next
  case (step_free h r)
  then show ?case by (rule free_ok)
next
  case (step_shadow self h ob ask n fluffos master attach res h')
  have asked: "shadowOk (snd (ask h))" using step_shadow by blast
  have "shadowEfun n fluffos master ask attach (Some self) ob h = Some (res, h')" using step_shadow by blast
  from shadowEfun_cases[OF this] show ?case
  proof (elim disjE conjE exE)
    fix t
    assume r: "shadowRefused fluffos master self ob h = None" "fst (ask h) = Inr True" "attachShadow n self ob (snd (ask h)) = Some (t, h')"
    have "ob \<noteq> self" using refused_None[OF r(1)] by blast
    moreover have "stillFree self ob (snd (ask h))" using step_shadow r(2) by blast
    ultimately show ?thesis using attach_ok[OF asked] r(3) unfolding stillFree_def by blast
  qed (use step_shadow asked in simp_all)
next
  case (step_remove r h b h')
  then show ?case by (auto simp: removeShadow_def split: if_splits intro: splice_ok)
next
  case (step_unshadow r h)
  then show ?case by (simp add: unshadow_def splice_ok)
next
  case (step_splice r h)
  then show ?case using splice_ok by blast
qed auto

lemma reached_ok: "shadowReached h \<Longrightarrow> shadowOk h"
proof -
  assume r: "shadowReached h"
  have "chain Map.empty r []" for r by (simp add: upOf_def)
  then have "\<exists>us. chain Map.empty r us" for r by blast
  then have "shadowOk Map.empty" unfolding shadowOk_def by (simp add: upOf_def downOf_def)
  then show ?thesis using shadowSteps_ok r unfolding shadowReached_def by blast
qed

lemma walk_bound:
  assumes "shadowOk h" "finite (dom h)" "card (dom h) < n"
  shows "\<exists>t. topOf n h r = Some t"
proof -
  obtain us where us: "chain h r us" using assms(1) unfolding shadowOk_def by blast
  have "length us = card (set us)" using chain_distinct[OF us] distinct_card[of us] by simp
  also have "\<dots> \<le> card (dom h)" using chain_dom[OF us] assms(2) by (rule card_mono[rotated])
  finally show ?thesis using topOf_last[OF us, of n] assms(3) by auto
qed

text \<open>
  C37. Whatever shadows are made, removed, destructed or freed, in any order, also by the master object while it is asked, the two links stay
  inverse to each other (an object that shadows another is the one it is shadowed by) and every walk along a chain ends within as many steps
  as there are objects, on one condition: a master object that approves has not made the tests fail that \<^verbatim>\<open>shadow()\<close> does not repeat.
\<close>

theorem shadow_chains_end:
  assumes "shadowReached h" "finite (dom h)"
  shows "(queryShadowing h a = Some b \<longleftrightarrow> upOf h b = Some a) \<and> (\<exists>t. topOf (Suc (card (dom h))) h r = Some t)"
  using shadowOk_linked[OF reached_ok[OF assms(1)]] walk_bound[OF reached_ok[OF assms(1)] assms(2), of "Suc (card (dom h))"]
  by (simp add: queryShadowing_def del: topOf.simps)


definition shadowDemo :: heap where
  "shadowDemo = [0 \<mapsto> newLpcObject ''/a'' 0 0 True 0, 1 \<mapsto> newLpcObject ''/b'' 0 0 True 0]"

lemma demo_links [simp]: "upOf shadowDemo r = None" "downOf shadowDemo r = None" "environmentOfRef shadowDemo r = None"
  by (simp_all add: upOf_def downOf_def environmentOfRef_def shadowDemo_def newLpcObject_def split: option.split)

lemma demo_attach: "attachShadow 5 0 1 shadowDemo = Some (1, setUp 1 (Some 0) (setDown 0 (Some 1) shadowDemo))"
  by (simp add: attachShadow_def eval_nat_numeral)

theorem shadow_chains_end_witness:
  "\<exists>h. shadowEfun 5 True (Some 2) (\<lambda>h. (Inr True, h)) True (Some 0) 1 shadowDemo = Some (Inr (shadowValue True (Some 1)), h) \<and>
     queryShadowing h 0 = Some 1 \<and> upOf h 1 = Some 0 \<and> (\<exists>t. topOf 3 h 1 = Some t)"
proof -
  let ?h = "setUp 1 (Some 0) (setDown 0 (Some 1) shadowDemo)"
  have d: "dom shadowDemo = {0, 1}" by (auto simp: shadowDemo_def)
  have nd: "\<not> isDestructed shadowDemo r" for r by (simp add: isDestructed_def shadowDemo_def newLpcObject_def split: option.split)
  have run: "shadowEfun 5 True (Some 2) (\<lambda>h. (Inr True, h)) True (Some 0) 1 shadowDemo = Some (Inr (shadowValue True (Some 1)), ?h)"
    by (simp add: shadowEfun_def nd shadowRefused_def demo_attach Let_def del: One_nat_def)
  have s: "shadowSteps Map.empty shadowDemo"
  proof (rule steps_more[OF steps_none step_other])
    show "upOf shadowDemo x = upOf Map.empty x" "downOf shadowDemo x = downOf Map.empty x" for x
      unfolding demo_links by (simp_all add: upOf_def downOf_def)
  qed
  have "shadowStep shadowDemo ?h"
    by (rule step_shadow[OF _ _ _ _ run]) (simp_all add: d steps_none stillFree_def)
  then have r: "shadowReached ?h" unfolding shadowReached_def by (rule steps_more[OF s])
  have u: "upOf ?h 1 = Some 0" using attach_links(1)[of 0 shadowDemo 1 1] d by simp
  have c: "card (dom ?h) = 2" "finite (dom ?h)" using d by simp_all
  from shadow_chains_end[OF r c(2), of 0 1 1] u run show ?thesis unfolding c(1) by (auto simp: numeral_3_eq_3 numeral_2_eq_2)
qed

text \<open>
  The tests are not repeated after the master was asked: when the object that is to be shadowed shadows its caller in
  \<^verbatim>\<open>valid_shadow\<close>, both attachments succeed, the two objects shadow each other, and every later walk along the chain, such as a call into
  one of them, never ends.
\<close>

theorem shadow_reentry_cycle:
  "\<exists>ask h. shadowEfun 5 True (Some 2) ask True (Some 0) 1 shadowDemo = Some (Inr (shadowValue True (Some 1)), h) \<and>
     (\<exists>v. shadowEfun 5 True (Some 2) (\<lambda>h. (Inr True, h)) True (Some 1) 0 shadowDemo = Some (Inr v, snd (ask shadowDemo))) \<and>
     upOf h 0 = Some 1 \<and> upOf h 1 = Some 0 \<and> (\<forall>n. topOf n h 0 = None)"
proof -
  define h1 where "h1 = setUp 0 (Some 1) (setDown 1 (Some 0) shadowDemo)"
  define h where "h = setUp 1 (Some 0) (setDown 0 (Some 1) h1)"
  define ask where "ask = (\<lambda>_ :: heap. (Inr True :: exn + bool, h1))"
  have d: "dom shadowDemo = {0, 1}" by (auto simp: shadowDemo_def)
  then have d1: "dom h1 = {0, 1}" by (simp add: h1_def)
  have nd: "\<not> isDestructed shadowDemo r" for r by (simp add: isDestructed_def shadowDemo_def newLpcObject_def split: option.split)
  have nd1: "\<not> isDestructed h1 0"
    by (simp add: isDestructed_def h1_def setUp_def setDown_def updObj_def shadowDemo_def newLpcObject_def)
  have u1: "upOf h1 x = (if x = 0 then Some 1 else None)" for x using attach_links(1)[of 1 shadowDemo 0 x] d by (simp add: h1_def)
  have u: "upOf h x = (if x = 1 then Some 0 else if x = 0 then Some 1 else None)" for x
    using attach_links(1)[of 0 h1 1 x] d1 u1 by (simp add: h_def)
  have inner: "shadowEfun 5 True (Some 2) (\<lambda>h. (Inr True, h)) True (Some 1) 0 shadowDemo = Some (Inr (shadowValue True (Some 0)), h1)"
    by (simp add: shadowEfun_def nd shadowRefused_def attachShadow_def eval_nat_numeral h1_def Let_def)
  have "attachShadow 5 0 1 h1 = Some (1, h)" by (simp add: attachShadow_def eval_nat_numeral u1 h_def)
  then have outer: "shadowEfun 5 True (Some 2) ask True (Some 0) 1 shadowDemo = Some (Inr (shadowValue True (Some 1)), h)"
    by (simp add: shadowEfun_def nd nd1 shadowRefused_def ask_def Let_def)
  have "topOf n h 0 = None \<and> topOf n h 1 = None" for n by (induction n) (simp_all add: u)
  then show ?thesis using outer inner u by (intro exI[of _ ask] exI[of _ h]) (auto simp: ask_def)
qed

end
