(* ===== verification/Uid_Model.thy ===== *)
theory Uid_Model
  imports Kjd_Prelude
begin

text \<open>
  The owner and effective owner of new objects: \<^verbatim>\<open>src/security/UidModel.cpp\<close>.
\<close>

record uid_model =
  rootUid :: "string option"
  backboneUid :: "string option"
  autoTrustBackbone :: bool

definition newUidModel :: uid_model where
  "newUidModel = \<lparr>rootUid = None, backboneUid = None, autoTrustBackbone = False\<rparr>"

text \<open>The model is used when the master object named a root.\<close>

definition uidActive :: "uid_model \<Rightarrow> bool" where
  "uidActive m \<longleftrightarrow> rootUid m \<noteq> None"

record resolved_uids =
  ruUid :: string
  ruEuid :: "string option"

definition resolveObjectUids :: "uid_model \<Rightarrow> string \<Rightarrow> string option \<Rightarrow> string option \<Rightarrow> resolved_uids" where
  "resolveObjectUids m creatorName loaderUid loaderEuid =
     (if loaderUid = Some creatorName then \<lparr>ruUid = creatorName, ruEuid = loaderEuid\<rparr>
      else if autoTrustBackbone m \<and> backboneUid m = Some creatorName \<and> loaderEuid \<noteq> None
      then \<lparr>ruUid = the loaderEuid, ruEuid = loaderEuid\<rparr>
      else \<lparr>ruUid = creatorName, ruEuid = None\<rparr>)"

text \<open>
  A new object never gets more than its loader has: its effective owner is the loader's or nobody, and it is somebody only when
  the loader owns the file or the file is in a trusted library; its owner is the creator of the file or the loader's effective owner.
\<close>

lemma uids_no_escalation:
  "ruEuid (resolveObjectUids m c u e) \<in> {None, e}"
  "ruEuid (resolveObjectUids m c u e) = Some x \<Longrightarrow> u = Some c \<or> autoTrustBackbone m \<and> backboneUid m = Some c"
  "ruUid (resolveObjectUids m c u e) = c \<or> Some (ruUid (resolveObjectUids m c u e)) = e"
  by (auto simp: resolveObjectUids_def split: if_splits)

end
