(* ===== verification/Object_Manager.thy ===== *)
theory Object_Manager
  imports Compile Shadows Uid_Model
begin

text \<open>
  \<^verbatim>\<open>src/object/ObjectManager.cpp\<close>: loading, cloning, reloading and destructing objects, and the owners of new objects. What LPC code does
  when it is called is a parameter: a function from the call and the world to its result and the world after it, which may load,
  clone and destruct objects and change the files. Compiling is the function of \<^verbatim>\<open>Compile\<close>; \<^const>\<open>None\<close> means that the fuel for
  it, or for a walk along a shadow chain, ran out.
\<close>

section \<open>State\<close>

record om_world =
  omHeap :: heap
  omNext :: ref
  omPrograms :: "nat \<rightharpoonup> CompiledProgram"
  omFiles :: "string \<Rightarrow> string option"
  omCompile :: compile_state
  loaded :: "string \<rightharpoonup> ref"
  restoredObjects :: "ref list"
  virtualCompiling :: "string set"
  omMaster :: "ref option"
  omSimulEfun :: "ref option"
  omUids :: uid_model
  livings :: living_registry
  lives :: live_registry
  omCaller :: "ref option"
  omNow :: int
  omRandom :: nat

datatype om_call =
    CallFunction ref string "lvalue list"
  | CallInProgram ref CompiledProgram string
  | ApplyMaster string "lvalue list"

text \<open>
  The configuration, the virtual machine and the callback for destructed objects. \<open>oeLpc\<close> runs LPC code; \<open>oeExists\<close> is
  \<^verbatim>\<open>VM::functionExists\<close>.
\<close>

record om_env =
  oeCompile :: compile_env
  oeIsDirectory :: "string \<Rightarrow> bool"
  oeHasVm :: bool
  oeMasterFile :: string
  oeSimulEfunFile :: string
  oeAutoTrustBackbone :: bool
  oeLpc :: "om_call \<Rightarrow> om_world \<Rightarrow> (exn + lvalue) \<times> om_world"
  oeExists :: "ref \<Rightarrow> string \<Rightarrow> om_world \<Rightarrow> bool"
  oeOnDestructed :: "ref \<Rightarrow> om_world \<Rightarrow> om_world"

text \<open>What a call of the manager can throw, or undefined behaviour.\<close>

datatype om_error = OmThrow exn | OmUndef

type_synonym 'a om_answer = "((om_error + 'a) \<times> om_world) option"

definition onObject :: "ref \<Rightarrow> (lpc_object \<Rightarrow> lpc_object) \<Rightarrow> om_world \<Rightarrow> om_world" where
  "onObject r f w = w\<lparr>omHeap := updObj r f (omHeap w)\<rparr>"

definition strOf :: "exn + lvalue \<Rightarrow> string option" where
  "strOf v = (case v of Inl _ \<Rightarrow> None | Inr x \<Rightarrow> (case vdata x of VStr s \<Rightarrow> Some s | _ \<Rightarrow> None))"

definition strArg :: "string \<Rightarrow> lvalue" where
  "strArg s = mkValue (VStr s)"

section \<open>Owners\<close>

definition setUids :: "ref \<Rightarrow> string \<Rightarrow> string option \<Rightarrow> om_world \<Rightarrow> om_world" where
  "setUids r u e w = onObject r (\<lambda>ob. ob\<lparr>uid := Some u, euid := e\<rparr>) w"

text \<open>An exception of \<^verbatim>\<open>creator_file\<close>, or a result that is no string, makes the object owned by the root.\<close>

definition assignObjectUid :: "om_env \<Rightarrow> ref \<Rightarrow> string \<Rightarrow> om_world \<Rightarrow> om_world" where
  "assignObjectUid env r file w =
     (case (omMaster w, rootUid (omUids w)) of
        (Some m, Some root) \<Rightarrow>
          if \<not> oeHasVm env then w
          else
            let slashPath = (if file = [] \<or> hd file = CHR ''/'' then file else CHR ''/'' # file);
                (creator, w1) =
                  (if oeExists env m ''creator_file'' w
                   then (case oeLpc env (CallFunction m ''creator_file'' [strArg slashPath]) w of (v, w1) \<Rightarrow> (strOf v, w1))
                   else (None, w)) in
            (case creator of
               None \<Rightarrow> onObject r (\<lambda>ob. ob\<lparr>uid := rootUid (omUids w1)\<rparr>) w1
             | Some c \<Rightarrow>
                 let caller = (case omCaller w1 of None \<Rightarrow> None | Some k \<Rightarrow> omHeap w1 k);
                     res = (case caller of
                              None \<Rightarrow> resolveObjectUids (omUids w1) c (rootUid (omUids w1)) (rootUid (omUids w1))
                            | Some k \<Rightarrow> resolveObjectUids (omUids w1) c (uid k) (euid k)) in
                 setUids r (ruUid res) (ruEuid res) w1)
      | _ \<Rightarrow> w)"

text \<open>The root and the backbone are asked of the master object; a missing root leaves the model unused.\<close>

definition callMaster :: "om_env \<Rightarrow> string \<Rightarrow> om_world \<Rightarrow> (exn + lvalue) \<times> om_world" where
  "callMaster env f w = (case omMaster w of None \<Rightarrow> (Inr (mkValue VVoid), w) | Some m \<Rightarrow> oeLpc env (CallFunction m f []) w)"

definition captureBootUids :: "om_env \<Rightarrow> om_world \<Rightarrow> om_world" where
  "captureBootUids env w =
     (if \<not> oeHasVm env \<or> omMaster w = None then w
      else
        (case callMaster env ''get_root_uid'' w of
           (Inl _, w1) \<Rightarrow> w1
         | (Inr v, w1) \<Rightarrow>
             (case (if vdata v = VVoid then callMaster env ''get_master_uid'' w1 else (Inr v, w1)) of
                (v2, w2) \<Rightarrow>
                  (case strOf v2 of
                     None \<Rightarrow> w2
                   | Some root \<Rightarrow>
                       if root = [] then w2
                       else
                         (case callMaster env ''get_bb_uid'' (w2\<lparr>omUids := (omUids w2)\<lparr>rootUid := Some root\<rparr>\<rparr>) of
                            (bb, w3) \<Rightarrow>
                              let w4 = (case strOf bb of
                                          Some b \<Rightarrow> if b = [] then w3 else w3\<lparr>omUids := (omUids w3)\<lparr>backboneUid := Some b\<rparr>\<rparr>
                                        | None \<Rightarrow> w3);
                                  w5 = w4\<lparr>omUids := (omUids w4)\<lparr>autoTrustBackbone := oeAutoTrustBackbone env\<rparr>\<rparr> in
                              (case omMaster w5 of None \<Rightarrow> w5 | Some m \<Rightarrow> setUids m root (Some root) w5))))))"

definition initPrivsForObject :: "om_env \<Rightarrow> ref \<Rightarrow> string \<Rightarrow> om_world \<Rightarrow> om_world" where
  "initPrivsForObject env r file w =
     (if \<not> oeHasVm env \<or> omMaster w = None then w
      else (case oeLpc env (ApplyMaster ''privs_file'' [strArg file]) w of
              (v, w1) \<Rightarrow> (case strOf v of None \<Rightarrow> w1 | Some s \<Rightarrow> onObject r (\<lambda>ob. ob\<lparr>privs := Some s\<rparr>) w1)))"

section \<open>Initialisers\<close>

text \<open>The programs of the inherit tree, parents before children: the order in which \<^verbatim>\<open>$objvarinit\<close> is run.\<close>

fun initOrder :: "CompiledProgram \<Rightarrow> CompiledProgram list"
  and initOrderAll :: "CompiledProgram option list \<Rightarrow> CompiledProgram list" where
  "initOrder (CompiledProgram i cd fns sp fp vn inh pars offs) = initOrderAll pars @ [CompiledProgram i cd fns sp fp vn inh pars offs]"
| "initOrderAll [] = []"
| "initOrderAll (None # ps) = initOrderAll ps"
| "initOrderAll (Some p # ps) = initOrder p @ initOrderAll ps"

text \<open>Calls in sequence; the first exception ends the sequence.\<close>

fun callAll :: "om_env \<Rightarrow> om_call list \<Rightarrow> om_world \<Rightarrow> (exn + unit) \<times> om_world" where
  "callAll env [] w = (Inr (), w)"
| "callAll env (c # cs) w = (case oeLpc env c w of (Inl e, w1) \<Rightarrow> (Inl e, w1) | (Inr _, w1) \<Rightarrow> callAll env cs w1)"

definition createCalls :: "ref \<Rightarrow> CompiledProgram \<Rightarrow> lvalue list \<Rightarrow> om_call list" where
  "createCalls r p args = map (\<lambda>q. CallInProgram r q ''$objvarinit'') (initOrder p) @ [CallFunction r ''create'' args]"

definition armResetAndCleanup :: "ref \<Rightarrow> om_world \<Rightarrow> om_world" where
  "armResetAndCleanup r w =
     (if isDestructed (omHeap w) r then w
      else onObject r (\<lambda>ob. (armReset (omNow w) 1800 (omRandom w) ob)\<lparr>willCleanUp := True\<rparr>) w)"

section \<open>Loading and cloning\<close>

definition worldCompileEnv :: "om_env \<Rightarrow> om_world \<Rightarrow> compile_env" where
  "worldCompileEnv env w = (oeCompile env)\<lparr>ceFiles := (ceFiles (oeCompile env))\<lparr>ppFiles := omFiles w\<rparr>\<rparr>"

definition compileIn :: "nat \<Rightarrow> om_env \<Rightarrow> string \<Rightarrow> om_world \<Rightarrow> CompiledProgram option om_answer" where
  "compileIn n env file w =
     (case compileFile n (worldCompileEnv env w) file (omCompile w) of
        None \<Rightarrow> None
      | Some (CProgram p, cs) \<Rightarrow> Some (Inr (Some p), w\<lparr>omCompile := cs, omPrograms := (omPrograms w)(progId p \<mapsto> p)\<rparr>)
      | Some (CNull, cs) \<Rightarrow> Some (Inr None, w\<lparr>omCompile := cs\<rparr>)
      | Some (CThrow e, cs) \<Rightarrow> Some (Inl (OmThrow e), w\<lparr>omCompile := cs\<rparr>)
      | Some (CUndef, cs) \<Rightarrow> Some (Inl OmUndef, w\<lparr>omCompile := cs\<rparr>))"

definition isFluffos :: "om_env \<Rightarrow> bool" where
  "isFluffos env \<longleftrightarrow> ceDialect (oeCompile env) = ''fluffos''"

definition newObject :: "om_env \<Rightarrow> string \<Rightarrow> CompiledProgram \<Rightarrow> om_world \<Rightarrow> ref \<times> om_world" where
  "newObject env file p w =
     (let r = omNext w in
      (r, w\<lparr>omHeap := (omHeap w)(r \<mapsto> newLpcObject file (progId p) (length (objectVarNames p)) (isFluffos env) (omNow w)),
            omNext := Suc r\<rparr>))"

definition registerLive :: "ref \<Rightarrow> om_world \<Rightarrow> om_world" where
  "registerLive r w = w\<lparr>lives := liveAdd (Some r) (lives w)\<rparr>"

definition sourceFileExists :: "om_env \<Rightarrow> string \<Rightarrow> om_world \<Rightarrow> bool" where
  "sourceFileExists env rawFile w =
     (let path = sourcePath (worldCompileEnv env w) (normalizeFilename rawFile) in
      omFiles w path \<noteq> None \<and> \<not> oeIsDirectory env path)"

text \<open>
  The master's \<^verbatim>\<open>compile_object\<close> may give an object for a path without a source; the object is renamed to the path. The guard takes the path
  out of \<^verbatim>\<open>virtualCompiling_\<close> on every path.
\<close>

definition loadVirtualObject :: "om_env \<Rightarrow> string \<Rightarrow> om_world \<Rightarrow> ref option \<times> om_world" where
  "loadVirtualObject env file w =
     (if omMaster w = None \<or> \<not> oeHasVm env \<or> file \<in> virtualCompiling w then (None, w)
      else
        (case oeLpc env (ApplyMaster ''compile_object'' [strArg file, mkValue (VInt 0)]) (w\<lparr>virtualCompiling := insert file (virtualCompiling w)\<rparr>) of
           (v, w1) \<Rightarrow>
             let w2 = w1\<lparr>virtualCompiling := virtualCompiling w1 - {file}\<rparr> in
             (case v of
                Inl _ \<Rightarrow> (None, w2)
              | Inr x \<Rightarrow>
                  (case vdata x of
                     VObj (Some r) \<Rightarrow>
                       (Some r, onObject r (\<lambda>ob. ob\<lparr>filename := file, isVirtual := True\<rparr>) (w2\<lparr>loaded := (loaded w2)(file \<mapsto> r)\<rparr>))
                   | _ \<Rightarrow> (None, w2)))))"

text \<open>\<open>create()\<close>: an exception makes the load fail and takes the object out of the table.\<close>

definition createLoaded :: "om_env \<Rightarrow> string \<Rightarrow> ref \<Rightarrow> CompiledProgram \<Rightarrow> om_world \<Rightarrow> ref option \<times> om_world" where
  "createLoaded env file r p w =
     (if \<not> oeHasVm env then (Some r, armResetAndCleanup r w)
      else (case callAll env (createCalls r p []) w of
              (Inl _, w1) \<Rightarrow> (None, w1\<lparr>loaded := (loaded w1)(file := None)\<rparr>)
            | (Inr _, w1) \<Rightarrow> (Some r, armResetAndCleanup r w1)))"

definition loadObject :: "nat \<Rightarrow> om_env \<Rightarrow> string \<Rightarrow> om_world \<Rightarrow> ref option om_answer" where
  "loadObject n env rawFile w =
     (let file = normalizeFilename rawFile in
      case loaded w file of
        Some r \<Rightarrow> Some (Inr (Some r), w)
      | None \<Rightarrow>
          if \<not> sourceFileExists env file w then
            (case loadVirtualObject env file w of (r, w1) \<Rightarrow> Some (Inr r, w1))
          else
            (case compileIn n env file w of
               None \<Rightarrow> None
             | Some (Inl e, w1) \<Rightarrow> Some (Inl e, w1)
             | Some (Inr None, w1) \<Rightarrow> Some (Inr None, w1)
             | Some (Inr (Some p), w1) \<Rightarrow>
                 (case newObject env file p w1 of
                    (r, w2) \<Rightarrow>
                      let w3 = registerLive r (w2\<lparr>loaded := (loaded w2)(file \<mapsto> r)\<rparr>);
                          w4 = assignObjectUid env r file (initPrivsForObject env r file w3) in
                      (case createLoaded env file r p w4 of (res, w5) \<Rightarrow> Some (Inr res, w5)))))"

definition cloneRefused :: "om_env \<Rightarrow> om_world \<Rightarrow> bool" where
  "cloneRefused env w \<longleftrightarrow>
     uidActive (omUids w) \<and> oeHasVm env \<and>
     (case omCaller w of None \<Rightarrow> False | Some k \<Rightarrow> (case omHeap w k of None \<Rightarrow> False | Some ob \<Rightarrow> euid ob = None))"

definition createClone :: "om_env \<Rightarrow> ref \<Rightarrow> CompiledProgram \<Rightarrow> lvalue list \<Rightarrow> om_world \<Rightarrow> ref option \<times> om_world" where
  "createClone env r p args w =
     (if \<not> oeHasVm env then (Some r, armResetAndCleanup r w)
      else (case callAll env (createCalls r p args) w of
              (Inl _, w1) \<Rightarrow> (None, w1)
            | (Inr _, w1) \<Rightarrow> (Some r, armResetAndCleanup r w1)))"

definition cloneObject :: "nat \<Rightarrow> om_env \<Rightarrow> string \<Rightarrow> lvalue list \<Rightarrow> om_world \<Rightarrow> ref option om_answer" where
  "cloneObject n env rawFile args w =
     (if cloneRefused env w
      then Some (Inl (OmThrow (LpcRuntimeError (''Object must call seteuid() prior to calling clone_object().'' @ [CHR 0x0A]))), w)
      else
        let file = normalizeFilename rawFile in
        (case compileIn n env file w of
           None \<Rightarrow> None
         | Some (Inl e, w1) \<Rightarrow> Some (Inl e, w1)
         | Some (Inr None, w1) \<Rightarrow> Some (Inr None, w1)
         | Some (Inr (Some p), w1) \<Rightarrow>
             (case newObject env file p w1 of
                (r, w2) \<Rightarrow>
                  let w3 = assignObjectUid env r file (initPrivsForObject env r file (registerLive r w2));
                      w4 = onObject r (\<lambda>ob. ob\<lparr>isClone := True\<rparr>) w3 in
                  (case createClone env r p args w4 of (res, w5) \<Rightarrow> Some (Inr res, w5)))))"

definition loadMasterObject :: "nat \<Rightarrow> om_env \<Rightarrow> om_world \<Rightarrow> bool om_answer" where
  "loadMasterObject n env w =
     (case loadObject n env (oeMasterFile env) w of
        None \<Rightarrow> None
      | Some (Inl e, w1) \<Rightarrow> Some (Inl e, w1)
      | Some (Inr m, w1) \<Rightarrow>
          let w2 = w1\<lparr>omMaster := m\<rparr> in
          Some (Inr (m \<noteq> None), if m = None then w2 else captureBootUids env w2))"

definition loadSimulEfunObject :: "nat \<Rightarrow> om_env \<Rightarrow> om_world \<Rightarrow> bool om_answer" where
  "loadSimulEfunObject n env w =
     (if oeSimulEfunFile env = [] then Some (Inr False, w)
      else (case loadObject n env (oeSimulEfunFile env) w of
              None \<Rightarrow> None
            | Some (Inl e, w1) \<Rightarrow> Some (Inl e, w1)
            | Some (Inr s, w1) \<Rightarrow> Some (Inr (s \<noteq> None), w1\<lparr>omSimulEfun := s\<rparr>)))"

definition lookupLoadedObject :: "string \<Rightarrow> om_world \<Rightarrow> ref option" where
  "lookupLoadedObject rawFile w = loaded w (normalizeFilename rawFile)"

definition retainRestoredObjects :: "ref list \<Rightarrow> om_world \<Rightarrow> om_world" where
  "retainRestoredObjects rs w = w\<lparr>restoredObjects := restoredObjects w @ rs\<rparr>"

section \<open>Destructing\<close>

definition stopSnooping :: "ref \<Rightarrow> heap \<Rightarrow> heap" where
  "stopSnooping r h =
     (case h r of
        None \<Rightarrow> h
      | Some ob \<Rightarrow>
          updObj r (\<lambda>ob. ob\<lparr>snooping := None\<rparr>)
            (case lock h (snooping ob) of None \<Rightarrow> h | Some v \<Rightarrow> updObj v (\<lambda>ob. ob\<lparr>snoopedBy := None\<rparr>) h))"

definition leaveEnvironment :: "ref \<Rightarrow> heap \<Rightarrow> heap" where
  "leaveEnvironment r h =
     updObj r (\<lambda>ob. ob\<lparr>environment := None\<rparr>)
       (case environmentOfRef h r of None \<Rightarrow> h | Some e \<Rightarrow> updObj e (\<lambda>ob. ob\<lparr>inventory := removeAll r (inventory ob)\<rparr>) h)"

text \<open>An object that is no shadowed base: out of its chain, then the callback, then out of every table.\<close>

definition destructSingle :: "om_env \<Rightarrow> ref \<Rightarrow> om_world \<Rightarrow> om_world" where
  "destructSingle env r w =
     (let w1 = oeOnDestructed env r (w\<lparr>omHeap := spliceOut r (omHeap w)\<rparr>);
          h1 = updObj r (\<lambda>ob. ob\<lparr>destructed := True, replacedProgramName := None\<rparr>) (stopSnooping r (omHeap w1));
          h2 = leaveEnvironment r h1 in
      w1\<lparr>omHeap := h2, livings := livingRemove h1 (Some r) (livings w1), lives := liveRemove h1 (Some r) (lives w1),
         loaded := (case h2 r of None \<Rightarrow> loaded w1 | Some ob \<Rightarrow> (loaded w1)(filename ob := None)),
         restoredObjects := removeAll r (restoredObjects w1)\<rparr>)"

text \<open>The cascade from the top of the chain downwards; each object is cut off before it is destructed.\<close>

primrec cascadeFrom :: "nat \<Rightarrow> (ref \<Rightarrow> om_world \<Rightarrow> om_world option) \<Rightarrow> ref option \<Rightarrow> om_world \<Rightarrow> om_world option" where
  "cascadeFrom 0 destruct cur w = None"
| "cascadeFrom (Suc n) destruct cur w =
     (case cur of
        None \<Rightarrow> Some w
      | Some t \<Rightarrow>
          let below = downOf (omHeap w) t;
              h1 = (case below of None \<Rightarrow> omHeap w | Some b \<Rightarrow> setUp b None (omHeap w)) in
          (case destruct t (w\<lparr>omHeap := setDown t None h1\<rparr>) of
             None \<Rightarrow> None
           | Some w1 \<Rightarrow> cascadeFrom n destruct below w1))"

primrec destructObject :: "nat \<Rightarrow> om_env \<Rightarrow> ref \<Rightarrow> om_world \<Rightarrow> om_world option" where
  "destructObject 0 env r w = None"
| "destructObject (Suc n) env r w =
     (if omHeap w r = None \<or> isDestructed (omHeap w) r then Some w
      else (case (upOf (omHeap w) r, downOf (omHeap w) r) of
              (Some u, None) \<Rightarrow>
                (case topOf n (omHeap w) u of
                   None \<Rightarrow> None
                 | Some t \<Rightarrow> cascadeFrom n (destructObject n env) (Some t) w)
            | _ \<Rightarrow> Some (destructSingle env r w)))"

section \<open>Reloading\<close>

text \<open>The shadows of a reloaded base are cut off and destructed from the nearest outwards.\<close>

primrec cutShadows :: "nat \<Rightarrow> om_env \<Rightarrow> ref option \<Rightarrow> om_world \<Rightarrow> om_world option" where
  "cutShadows 0 env cur w = None"
| "cutShadows (Suc n) env cur w =
     (case cur of
        None \<Rightarrow> Some w
      | Some c \<Rightarrow>
          let nx = upOf (omHeap w) c in
          (case destructObject n env c (w\<lparr>omHeap := clearLinks c (omHeap w)\<rparr>) of
             None \<Rightarrow> None
           | Some w1 \<Rightarrow> cutShadows n env nx w1))"

definition zeroVariables :: "ref \<Rightarrow> heap \<Rightarrow> heap" where
  "zeroVariables r h = updObj r (\<lambda>ob. ob\<lparr>variables := map (\<lambda>_. mkValue (VInt 0)) (variables ob)\<rparr>) h"

definition programIn :: "om_world \<Rightarrow> ref \<Rightarrow> CompiledProgram option" where
  "programIn w r = (case omHeap w r of None \<Rightarrow> None | Some ob \<Rightarrow> omPrograms w (program ob))"

definition reinitialise :: "om_env \<Rightarrow> ref \<Rightarrow> om_world \<Rightarrow> om_world" where
  "reinitialise env r w =
     (if \<not> oeHasVm env then w
      else (case programIn w r of
              None \<Rightarrow> w
            | Some p \<Rightarrow>
                (case callAll env (map (\<lambda>q. CallInProgram r q ''$objvarinit'') (initOrder p)) w of
                   (Inl _, w1) \<Rightarrow> w1
                 | (Inr _, w1) \<Rightarrow>
                     if isDestructed (omHeap w1) r then w1
                     else snd (oeLpc env (CallFunction r ''create'' []) w1))))"

definition reloadObject :: "nat \<Rightarrow> om_env \<Rightarrow> ref \<Rightarrow> om_world \<Rightarrow> om_world option" where
  "reloadObject n env r w =
     (let w1 = w\<lparr>omHeap := zeroVariables r (omHeap w)\<rparr> in
      case (if upOf (omHeap w1) r \<noteq> None \<and> downOf (omHeap w1) r = None then cutShadows n env (upOf (omHeap w1) r) w1
            else Some (w1\<lparr>omHeap := spliceOut r (omHeap w1)\<rparr>)) of
        None \<Rightarrow> None
      | Some w2 \<Rightarrow>
          let w3 = w2\<lparr>omHeap := clearLinks r (omHeap w2)\<rparr>;
              w4 = w3\<lparr>livings := livingRemove (omHeap w3) (Some r) (livings w3)\<rparr>;
              w5 = reinitialise env r w4 in
          Some (if isDestructed (omHeap w5) r then w5 else armResetAndCleanup r w5))"

text \<open>The destructor: the tables are emptied, and the last manager breaks the cycles of every live object.\<close>

definition shutdownManager :: "nat \<Rightarrow> om_world \<Rightarrow> om_world" where
  "shutdownManager managersLeft w =
     (let w1 = w\<lparr>loaded := Map.empty, restoredObjects := [],
                 omCompile := (omCompile w)\<lparr>programCache := Map.empty, programSource := Map.empty, compiling := {}\<rparr>,
                 virtualCompiling := {}, omMaster := None, omSimulEfun := None\<rparr> in
      if managersLeft = 0
      then (case releaseAll (omHeap w1) (lives w1) of (h, l) \<Rightarrow> w1\<lparr>omHeap := h, lives := l\<rparr>)
      else w1)"

end
