(* ===== verification/Object_Life.thy ===== *)
theory Object_Life
  imports Object_Manager Containment
begin

text \<open>
  Properties of the object manager: what destructing an object leaves behind, and the table of loaded objects over every history of
  loading, cloning, reloading and destructing.
\<close>

section \<open>Destructing one object\<close>

text \<open>
  The callback for a destructed object closes its sockets (\<^verbatim>\<open>VM::closeObjectSockets\<close>); it changes no object and none of the manager's tables.
\<close>

definition quiet :: "om_env \<Rightarrow> bool" where
  "quiet env \<longleftrightarrow> (\<forall>r w. omHeap (oeOnDestructed env r w) = omHeap w \<and> loaded (oeOnDestructed env r w) = loaded w \<and>
     lives (oeOnDestructed env r w) = lives w \<and> livings (oeOnDestructed env r w) = livings w \<and>
     restoredObjects (oeOnDestructed env r w) = restoredObjects w \<and> omNext (oeOnDestructed env r w) = omNext w)"

definition nameOfRef :: "heap \<Rightarrow> ref \<Rightarrow> string option" where
  "nameOfRef h r = map_option filename (h r)"

definition snoopingOf :: "heap \<Rightarrow> ref \<Rightarrow> ref option" where
  "snoopingOf h r = (case h r of None \<Rightarrow> None | Some ob \<Rightarrow> snooping ob)"

lemma environmentOfRef_eq: "environmentOfRef h r = environmentOf h r"
  by (simp add: environmentOfRef_def environmentOf_def)

text \<open>Reading a field after another field was updated.\<close>

lemma reads_updObj:
  "(\<And>ob. shadowedBy (f ob) = shadowedBy ob) \<Longrightarrow> upOf (updObj r f h) x = upOf h x"
  "(\<And>ob. shadowing (f ob) = shadowing ob) \<Longrightarrow> downOf (updObj r f h) x = downOf h x"
  "(\<And>ob. environment (f ob) = environment ob) \<Longrightarrow> environmentOf (updObj r f h) x = environmentOf h x"
  "(\<And>ob. inventory (f ob) = inventory ob) \<Longrightarrow> inventoryOf (updObj r f h) x = inventoryOf h x"
  "(\<And>ob. destructed (f ob) = destructed ob) \<Longrightarrow> isDestructed (updObj r f h) x = isDestructed h x"
  "(\<And>ob. filename (f ob) = filename ob) \<Longrightarrow> nameOfRef (updObj r f h) x = nameOfRef h x"
  "(\<And>ob. snooping (f ob) = snooping ob) \<Longrightarrow> snoopingOf (updObj r f h) x = snoopingOf h x"
  by (auto simp: upOf_def downOf_def environmentOf_def inventoryOf_def isDestructed_def nameOfRef_def snoopingOf_def updObj_def
      lock_def split: option.splits)

lemma reads_links [simp]:
  "environmentOf (setUp r u h) x = environmentOf h x" "environmentOf (setDown r u h) x = environmentOf h x"
  "inventoryOf (setUp r u h) x = inventoryOf h x" "inventoryOf (setDown r u h) x = inventoryOf h x"
  "isDestructed (setUp r u h) x = isDestructed h x" "isDestructed (setDown r u h) x = isDestructed h x"
  "nameOfRef (setUp r u h) x = nameOfRef h x" "nameOfRef (setDown r u h) x = nameOfRef h x"
  "snoopingOf (setUp r u h) x = snoopingOf h x" "snoopingOf (setDown r u h) x = snoopingOf h x"
  by (simp_all add: setUp_def setDown_def reads_updObj)

lemma reads_splice [simp]:
  "environmentOf (spliceOut r h) x = environmentOf h x" "inventoryOf (spliceOut r h) x = inventoryOf h x"
  "isDestructed (spliceOut r h) x = isDestructed h x" "nameOfRef (spliceOut r h) x = nameOfRef h x"
  "snoopingOf (spliceOut r h) x = snoopingOf h x"
  by (simp_all add: spliceOut_def clearLinks_def Let_def split: option.split)

lemma dom_destruct [simp]: "dom (stopSnooping r h) = dom h" "dom (leaveEnvironment r h) = dom h"
  by (simp_all add: stopSnooping_def leaveEnvironment_def split: option.split)

lemma reads_stopSnooping [simp]:
  "upOf (stopSnooping r h) x = upOf h x" "downOf (stopSnooping r h) x = downOf h x"
  "environmentOf (stopSnooping r h) x = environmentOf h x" "inventoryOf (stopSnooping r h) x = inventoryOf h x"
  "isDestructed (stopSnooping r h) x = isDestructed h x" "nameOfRef (stopSnooping r h) x = nameOfRef h x"
  "snoopingOf (stopSnooping r h) x = (if x = r then None else snoopingOf h x)"
proof -
  have "snoopingOf (updObj r (\<lambda>ob. ob\<lparr>snooping := None\<rparr>) h) x = (if x = r then None else snoopingOf h x)" for h
    by (auto simp: snoopingOf_def updObj_def split: option.splits)
  moreover have "h r = None \<Longrightarrow> snoopingOf h r = None" by (simp add: snoopingOf_def)
  ultimately show "snoopingOf (stopSnooping r h) x = (if x = r then None else snoopingOf h x)"
    by (cases "h r") (auto simp: stopSnooping_def reads_updObj split: option.split)
qed (simp_all add: stopSnooping_def reads_updObj split: option.split)

lemma reads_leaveEnvironment [simp]:
  "upOf (leaveEnvironment r h) x = upOf h x" "downOf (leaveEnvironment r h) x = downOf h x"
  "isDestructed (leaveEnvironment r h) x = isDestructed h x" "nameOfRef (leaveEnvironment r h) x = nameOfRef h x"
  "snoopingOf (leaveEnvironment r h) x = snoopingOf h x"
  "environmentOf (leaveEnvironment r h) x = (if x = r then None else environmentOf h x)"
  "inventoryOf (leaveEnvironment r h) x = (if environmentOf h r = Some x then removeAll r (inventoryOf h x) else inventoryOf h x)"
proof -
  have e: "environmentOf (updObj y f h) x = environmentOf h x" if "\<And>ob. environment (f ob) = environment ob" for y f h
    by (rule reads_updObj(3)) (rule that)
  have E: "environmentOf (updObj r (\<lambda>ob. ob\<lparr>environment := None\<rparr>) h) x = (if x = r then None else environmentOf h x)" for h
    by (auto simp: environmentOf_def updObj_def lock_def split: option.splits)
  show "environmentOf (leaveEnvironment r h) x = (if x = r then None else environmentOf h x)"
    by (simp add: leaveEnvironment_def E e split: option.split)
  have I: "inventoryOf (updObj y (\<lambda>ob. ob\<lparr>inventory := removeAll r (inventory ob)\<rparr>) h) x =
      (if x = y then removeAll r (inventoryOf h x) else inventoryOf h x)" for y
    by (auto simp: inventoryOf_def updObj_def split: option.splits)
  show "inventoryOf (leaveEnvironment r h) x = (if environmentOf h r = Some x then removeAll r (inventoryOf h x) else inventoryOf h x)"
    by (auto simp: leaveEnvironment_def reads_updObj I environmentOfRef_eq split: option.split)
qed (simp_all add: leaveEnvironment_def reads_updObj split: option.split)

definition mark :: "ref \<Rightarrow> heap \<Rightarrow> heap" where
  "mark r h = updObj r (\<lambda>ob. ob\<lparr>destructed := True, replacedProgramName := None\<rparr>) h"

lemma reads_mark [simp]:
  "upOf (mark r h) x = upOf h x" "downOf (mark r h) x = downOf h x" "environmentOf (mark r h) x = environmentOf h x"
  "inventoryOf (mark r h) x = inventoryOf h x" "nameOfRef (mark r h) x = nameOfRef h x" "snoopingOf (mark r h) x = snoopingOf h x"
  "dom (mark r h) = dom h" "isDestructed (mark r h) x = (x = r \<and> r \<in> dom h \<or> isDestructed h x)"
proof -
  show "isDestructed (mark r h) x = (x = r \<and> r \<in> dom h \<or> isDestructed h x)"
    by (auto simp: mark_def isDestructed_def updObj_def split: option.splits)
qed (simp_all add: mark_def reads_updObj)

lemma destructSingle_reads:
  assumes "quiet env" "r \<in> dom (omHeap w)"
  shows "dom (omHeap (destructSingle env r w)) = dom (omHeap w)"
    "upOf (omHeap (destructSingle env r w)) x = upOf (spliceOut r (omHeap w)) x"
    "downOf (omHeap (destructSingle env r w)) x = downOf (spliceOut r (omHeap w)) x"
    "environmentOf (omHeap (destructSingle env r w)) x = (if x = r then None else environmentOf (omHeap w) x)"
    "inventoryOf (omHeap (destructSingle env r w)) x =
       (if environmentOf (omHeap w) r = Some x then removeAll r (inventoryOf (omHeap w) x) else inventoryOf (omHeap w) x)"
    "isDestructed (omHeap (destructSingle env r w)) x = (x = r \<or> isDestructed (omHeap w) x)"
    "nameOfRef (omHeap (destructSingle env r w)) x = nameOfRef (omHeap w) x"
    "snoopingOf (omHeap (destructSingle env r w)) x = (if x = r then None else snoopingOf (omHeap w) x)"
    "livings (destructSingle env r w) = filter (\<lambda>e. fst e \<in> dom (omHeap w) \<and> fst e \<noteq> r) (livings w)"
    "lives (destructSingle env r w) = filter (\<lambda>y. y \<in> dom (omHeap w) \<and> y \<noteq> r) (lives w)"
    "loaded (destructSingle env r w) f = (if nameOfRef (omHeap w) r = Some f then None else loaded w f)"
    "restoredObjects (destructSingle env r w) = removeAll r (restoredObjects w)"
    "omNext (destructSingle env r w) = omNext w"
proof -
  define w1 where "w1 = oeOnDestructed env r (w\<lparr>omHeap := spliceOut r (omHeap w)\<rparr>)"
  define h2 where "h2 = leaveEnvironment r (mark r (stopSnooping r (omHeap w1)))"
  have w1: "omHeap w1 = spliceOut r (omHeap w)" "loaded w1 = loaded w" "lives w1 = lives w" "livings w1 = livings w"
    "restoredObjects w1 = restoredObjects w" "omNext w1 = omNext w"
    using assms(1) by (simp_all add: quiet_def w1_def)
  have e: "destructSingle env r w = w1\<lparr>omHeap := h2, livings := livingRemove (mark r (stopSnooping r (omHeap w1))) (Some r) (livings w1),
      lives := liveRemove (mark r (stopSnooping r (omHeap w1))) (Some r) (lives w1),
      loaded := (case h2 r of None \<Rightarrow> loaded w1 | Some ob \<Rightarrow> (loaded w1)(filename ob := None)),
      restoredObjects := removeAll r (restoredObjects w1)\<rparr>"
    unfolding destructSingle_def Let_def h2_def mark_def w1_def by (rule refl)
  have n: "nameOfRef h2 r = nameOfRef (omHeap w) r" by (simp add: h2_def w1)
  have d: "dom h2 = dom (omHeap w)" by (simp add: h2_def w1)
  then obtain ob where ob: "h2 r = Some ob" using assms(2) by blast
  then have f: "nameOfRef (omHeap w) r = Some (filename ob)" using n by (simp add: nameOfRef_def)
  show "loaded (destructSingle env r w) f = (if nameOfRef (omHeap w) r = Some f then None else loaded w f)"
    using f by (simp add: e ob w1)
  show "dom (omHeap (destructSingle env r w)) = dom (omHeap w)"
    "upOf (omHeap (destructSingle env r w)) x = upOf (spliceOut r (omHeap w)) x"
    "downOf (omHeap (destructSingle env r w)) x = downOf (spliceOut r (omHeap w)) x"
    "environmentOf (omHeap (destructSingle env r w)) x = (if x = r then None else environmentOf (omHeap w) x)"
    "inventoryOf (omHeap (destructSingle env r w)) x =
       (if environmentOf (omHeap w) r = Some x then removeAll r (inventoryOf (omHeap w) x) else inventoryOf (omHeap w) x)"
    "isDestructed (omHeap (destructSingle env r w)) x = (x = r \<or> isDestructed (omHeap w) x)"
    "nameOfRef (omHeap (destructSingle env r w)) x = nameOfRef (omHeap w) x"
    "snoopingOf (omHeap (destructSingle env r w)) x = (if x = r then None else snoopingOf (omHeap w) x)"
    using assms(2) by (auto simp: e h2_def w1)
  show "livings (destructSingle env r w) = filter (\<lambda>e. fst e \<in> dom (omHeap w) \<and> fst e \<noteq> r) (livings w)"
    "lives (destructSingle env r w) = filter (\<lambda>y. y \<in> dom (omHeap w) \<and> y \<noteq> r) (lives w)"
    "restoredObjects (destructSingle env r w) = removeAll r (restoredObjects w)"
    "omNext (destructSingle env r w) = omNext w"
    by (simp_all add: e w1 livingRemove_filter liveRemove_filter)
qed

section \<open>Destructing a chain\<close>

text \<open>What nothing refers to any more: a destructed object outside every table, tree and chain.\<close>

definition purged :: "om_world \<Rightarrow> ref \<Rightarrow> bool" where
  "purged w r \<longleftrightarrow>
     isDestructed (omHeap w) r \<and> upOf (omHeap w) r = None \<and> downOf (omHeap w) r = None \<and>
     environmentOf (omHeap w) r = None \<and> snoopingOf (omHeap w) r = None \<and> (\<forall>c. r \<notin> set (inventoryOf (omHeap w) c)) \<and>
     r \<notin> fst ` set (livings w) \<and> r \<notin> set (lives w) \<and> r \<notin> set (restoredObjects w) \<and>
     (\<forall>f. nameOfRef (omHeap w) r = Some f \<longrightarrow> loaded w f = None)"

definition placed :: "heap \<Rightarrow> bool" where
  "placed h \<longleftrightarrow> (\<forall>c. \<forall>x \<in> set (inventoryOf h c). environmentOf h x = Some c)"

definition wellLinked :: "om_world \<Rightarrow> bool" where
  "wellLinked w \<longleftrightarrow> shadowOk (omHeap w) \<and> placed (omHeap w)"

lemma purged_single:
  assumes "quiet env" "r \<in> dom (omHeap w)" "wellLinked w"
  shows "purged (destructSingle env r w) r" "wellLinked (destructSingle env r w)"
    "purged w x \<Longrightarrow> purged (destructSingle env r w) x"
proof -
  note reads = destructSingle_reads[OF assms(1,2)]
  have ok: "shadowOk (omHeap w)" and pl: "placed (omHeap w)" using assms(3) by (simp_all add: wellLinked_def)
  note links = upOf_splice[OF ok assms(2)] downOf_splice[OF ok assms(2)]
  show "purged (destructSingle env r w) r" using pl by (auto simp: purged_def reads links placed_def)
  show "wellLinked (destructSingle env r w)"
    unfolding wellLinked_def
  proof
    show "shadowOk (omHeap (destructSingle env r w))" by (rule links_cong_ok[OF splice_ok[OF ok assms(2)]]) (simp_all add: reads)
    show "placed (omHeap (destructSingle env r w))" using pl by (auto simp: placed_def reads split: if_splits)
  qed
  assume p: "purged w x"
  then have "upOf (omHeap w) x \<noteq> Some r" "downOf (omHeap w) x \<noteq> Some r" by (simp_all add: purged_def)
  with p show "purged (destructSingle env r w) x" by (auto simp: purged_def reads links)
qed


text \<open>The step of the cascade before the recursive call: the top of the chain is cut off.\<close>

definition cutTop :: "ref \<Rightarrow> om_world \<Rightarrow> om_world" where
  "cutTop t w = w\<lparr>omHeap := setDown t None (case downOf (omHeap w) t of None \<Rightarrow> omHeap w | Some b \<Rightarrow> setUp b None (omHeap w))\<rparr>"

lemma cutTop_links:
  assumes "shadowOk (omHeap w)" "t \<in> dom (omHeap w)" "upOf (omHeap w) t = None"
  shows "upOf (omHeap (cutTop t w)) x = upOf (spliceOut t (omHeap w)) x"
    "downOf (omHeap (cutTop t w)) x = downOf (spliceOut t (omHeap w)) x"
proof -
  have l: "downOf (omHeap w) a = Some b \<longleftrightarrow> upOf (omHeap w) b = Some a" for a b by (rule shadowOk_linked[OF assms(1)])
  have "upOf (omHeap w) x = Some t \<longleftrightarrow> downOf (omHeap w) t = Some x" "downOf (omHeap w) x \<noteq> Some t" using l assms(3) by auto
  then show "upOf (omHeap (cutTop t w)) x = upOf (spliceOut t (omHeap w)) x"
    "downOf (omHeap (cutTop t w)) x = downOf (spliceOut t (omHeap w)) x"
    using assms(2,3) downOf_alive[of "omHeap w" t]
    by (auto simp: cutTop_def upOf_splice[OF assms(1,2)] downOf_splice[OF assms(1,2)] upOf_setUp downOf_setDown split: option.split)
qed

lemma cutTop_reads [simp]:
  "dom (omHeap (cutTop t w)) = dom (omHeap w)" "environmentOf (omHeap (cutTop t w)) x = environmentOf (omHeap w) x"
  "inventoryOf (omHeap (cutTop t w)) x = inventoryOf (omHeap w) x" "isDestructed (omHeap (cutTop t w)) x = isDestructed (omHeap w) x"
  "nameOfRef (omHeap (cutTop t w)) x = nameOfRef (omHeap w) x" "snoopingOf (omHeap (cutTop t w)) x = snoopingOf (omHeap w) x"
  "livings (cutTop t w) = livings w" "lives (cutTop t w) = lives w" "restoredObjects (cutTop t w) = restoredObjects w"
  "loaded (cutTop t w) = loaded w" "omNext (cutTop t w) = omNext w"
  by (simp_all add: cutTop_def split: option.split)

lemma cutTop_linked:
  assumes "wellLinked w" "t \<in> dom (omHeap w)" "upOf (omHeap w) t = None"
  shows "wellLinked (cutTop t w)" "purged w x \<Longrightarrow> purged (cutTop t w) x"
proof -
  have ok: "shadowOk (omHeap w)" using assms(1) by (simp add: wellLinked_def)
  note links = cutTop_links[OF ok assms(2,3)]
  have "shadowOk (omHeap (cutTop t w))" by (rule links_cong_ok[OF splice_ok[OF ok assms(2)]]) (simp_all add: links)
  then show "wellLinked (cutTop t w)" using assms(1) by (simp add: wellLinked_def placed_def)
  assume "purged w x"
  then show "purged (cutTop t w) x" by (simp add: purged_def links upOf_splice[OF ok assms(2)] downOf_splice[OF ok assms(2)])
qed

lemma chain_cut:
  assumes "chain h r (ys @ [y])" "\<And>x. upOf h' x = (if x = y \<or> upOf h x = Some y then None else upOf h x)"
  shows "chain h' r ys"
  using assms(1) chain_distinct[OF assms(1)]
proof (induction ys arbitrary: r)
  case Nil
  then show ?case by (simp add: assms(2))
next
  case (Cons z ys)
  then show ?case by (simp add: assms(2))
qed

text \<open>What a destruction of the objects \<open>D\<close> leaves.\<close>

definition ruined :: "om_world \<Rightarrow> ref set \<Rightarrow> om_world \<Rightarrow> bool" where
  "ruined w D w' \<longleftrightarrow> wellLinked w' \<and> dom (omHeap w') = dom (omHeap w) \<and> (\<forall>x \<in> D. purged w' x) \<and> (\<forall>x. purged w x \<longrightarrow> purged w' x) \<and>
     (\<forall>x. isDestructed (omHeap w') x \<longleftrightarrow> x \<in> D \<or> isDestructed (omHeap w) x) \<and>
     (\<forall>x. nameOfRef (omHeap w') x = nameOfRef (omHeap w) x) \<and>
     (\<forall>f. loaded w' f = (if \<exists>x \<in> D. nameOfRef (omHeap w) x = Some f then None else loaded w f)) \<and> omNext w' = omNext w"

lemma ruined_trans: "ruined w D w1 \<Longrightarrow> ruined w1 E w2 \<Longrightarrow> ruined w (E \<union> D) w2"
  unfolding ruined_def by auto

lemma ruined_single:
  assumes "quiet env" "r \<in> dom (omHeap w)" "wellLinked w"
  shows "ruined w {r} (destructSingle env r w)"
  unfolding ruined_def using purged_single[OF assms] destructSingle_reads[OF assms(1,2)] by simp

lemma ruined_cut:
  assumes "wellLinked w" "t \<in> dom (omHeap w)" "upOf (omHeap w) t = None"
  shows "ruined w {} (cutTop t w)"
  unfolding ruined_def using cutTop_linked[OF assms] by simp

lemma destruct_unshadowed:
  "upOf (omHeap w) r = None \<Longrightarrow> r \<in> dom (omHeap w) \<Longrightarrow> \<not> isDestructed (omHeap w) r \<Longrightarrow>
   destructObject (Suc n) env r w = Some (destructSingle env r w)"
  by (auto split: option.split)

text \<open>One round of the cascade.\<close>

lemma cascade_round:
  assumes "quiet env" "wellLinked w" "t \<in> dom (omHeap w)" "upOf (omHeap w) t = None" "\<not> isDestructed (omHeap w) t"
  shows "\<exists>w1. (\<forall>n. cascadeFrom (Suc n) (destructObject (Suc m) env) (Some t) w =
      cascadeFrom n (destructObject (Suc m) env) (downOf (omHeap w) t) w1) \<and> ruined w {t} w1 \<and>
      (\<forall>x. upOf (omHeap w1) x = upOf (spliceOut t (omHeap w)) x) \<and> (\<forall>x. downOf (omHeap w1) x = downOf (spliceOut t (omHeap w)) x)"
proof -
  let ?w = "cutTop t w"
  let ?w1 = "destructSingle env t ?w"
  have ok: "shadowOk (omHeap w)" using assms(2) by (simp add: wellLinked_def)
  have ok': "shadowOk (omHeap ?w)" using cutTop_linked(1)[OF assms(2-4)] by (simp add: wellLinked_def)
  have t: "t \<in> dom (omHeap ?w)" using assms(3) by simp
  have u: "upOf (omHeap ?w) t = None" by (simp add: cutTop_links[OF ok assms(3,4)] upOf_splice[OF ok assms(3)])
  have d: "destructObject (Suc m) env t ?w = Some ?w1" by (rule destruct_unshadowed[OF u t]) (use assms(5) in simp)
  have "cascadeFrom (Suc n) (destructObject (Suc m) env) (Some t) w =
      cascadeFrom n (destructObject (Suc m) env) (downOf (omHeap w) t) ?w1" for n
    using d by (simp add: cutTop_def Let_def del: destructObject.simps)
  moreover have "ruined w {t} ?w1"
    using ruined_trans[OF ruined_cut[OF assms(2-4)] ruined_single[OF assms(1) t cutTop_linked(1)[OF assms(2-4)]]] by simp
  moreover have "upOf (omHeap ?w1) x = upOf (spliceOut t (omHeap w)) x" "downOf (omHeap ?w1) x = downOf (spliceOut t (omHeap w)) x" for x
    unfolding destructSingle_reads(2,3)[OF assms(1) t] upOf_splice[OF ok' t] downOf_splice[OF ok' t]
    using no_self[OF ok] shadowOk_linked[OF ok, of t t]
    by (auto simp: cutTop_links[OF ok assms(3,4)] upOf_splice[OF ok assms(3)] downOf_splice[OF ok assms(3)])
  ultimately show ?thesis by blast
qed

lemma cascade_ruins:
  assumes "quiet env"
  shows "chain (omHeap w) r us \<Longrightarrow> downOf (omHeap w) r = None \<Longrightarrow> wellLinked w \<Longrightarrow> r \<in> dom (omHeap w) \<Longrightarrow>
    \<forall>x \<in> set (r # us). \<not> isDestructed (omHeap w) x \<Longrightarrow> Suc (length us) < n \<Longrightarrow>
    \<exists>w'. cascadeFrom n (destructObject (Suc m) env) (Some (last (r # us))) w = Some w' \<and> ruined w (set (r # us)) w'"
proof (induction us arbitrary: w n rule: rev_induct)
  case Nil
  have n: "n = Suc (Suc (n - 2))" using Nil.prems(6) by simp
  have u: "upOf (omHeap w) r = None" and d: "\<not> isDestructed (omHeap w) r"
    using Nil.prems(1,5) by simp_all
  obtain w1 where w1: "\<forall>n. cascadeFrom (Suc n) (destructObject (Suc m) env) (Some r) w =
      cascadeFrom n (destructObject (Suc m) env) (downOf (omHeap w) r) w1" "ruined w {r} w1"
    using cascade_round[OF assms Nil.prems(3,4) u d] by blast
  have "cascadeFrom n (destructObject (Suc m) env) (Some r) w = Some w1"
    unfolding w1(1)[rule_format, of "Suc (n - 2)", folded n] Nil.prems(2) by (simp only: cascadeFrom.simps option.case)
  then show ?case using w1(2) by (intro exI[of _ w1]) (simp del: destructObject.simps)
next
  case (snoc y ys)
  let ?t = "last (r # ys)"
  have ok: "shadowOk (omHeap w)" using snoc.prems(3) by (simp add: wellLinked_def)
  have y: "y \<in> dom (omHeap w)" using chain_dom[OF snoc.prems(1)] by simp
  have uy: "upOf (omHeap w) y = None" using chain_last[OF snoc.prems(1)] by simp
  have ut: "upOf (omHeap w) ?t = Some y"
  proof -
    have "chain (omHeap w) r (ys @ [y]) \<Longrightarrow> upOf (omHeap w) (last (r # ys)) = Some y" for r by (induction ys arbitrary: r) auto
    then show ?thesis using snoc.prems(1) by blast
  qed
  then have dy: "downOf (omHeap w) y = Some ?t" using shadowOk_linked[OF ok] by blast
  obtain k where n: "n = Suc k" "Suc (length ys) < k" using snoc.prems(6) by (cases n) auto
  have d: "\<not> isDestructed (omHeap w) y" using snoc.prems(5) by simp
  obtain w1 where w1: "\<forall>n. cascadeFrom (Suc n) (destructObject (Suc m) env) (Some y) w =
      cascadeFrom n (destructObject (Suc m) env) (downOf (omHeap w) y) w1" "ruined w {y} w1"
    "\<forall>x. upOf (omHeap w1) x = upOf (spliceOut y (omHeap w)) x" "\<forall>x. downOf (omHeap w1) x = downOf (spliceOut y (omHeap w)) x"
    using cascade_round[OF assms snoc.prems(3) y uy d] by blast
  have c: "chain (omHeap w1) r ys"
    by (rule chain_cut[OF snoc.prems(1)]) (simp add: w1(3) upOf_splice[OF ok y] uy)
  have yn: "y \<notin> set (r # ys)" using chain_distinct[OF snoc.prems(1)] by auto
  have dr: "downOf (omHeap w1) r = None" using snoc.prems(2) by (simp add: w1(4) downOf_splice[OF ok y])
  have "wellLinked w1" "r \<in> dom (omHeap w1)" "\<forall>x \<in> set (r # ys). \<not> isDestructed (omHeap w1) x"
    using w1(2) snoc.prems(4,5) yn unfolding ruined_def by auto
  then obtain w' where w': "cascadeFrom k (destructObject (Suc m) env) (Some ?t) w1 = Some w'" "ruined w1 (set (r # ys)) w'"
    using snoc.IH[OF c dr _ _ _ n(2)] by blast
  have "ruined w (set (r # ys) \<union> {y}) w'" by (rule ruined_trans[OF w1(2) w'(2)])
  moreover have "set (r # ys) \<union> {y} = set (r # ys @ [y])" by auto
  moreover have "cascadeFrom n (destructObject (Suc m) env) (Some y) w = Some w'" unfolding n(1) w1(1)[rule_format] dy by (rule w'(1))
  ultimately show ?case by (intro exI[of _ w']) (simp del: destructObject.simps cascadeFrom.simps)
qed


text \<open>What a call of \<^verbatim>\<open>destruct()\<close> destructs: a shadowed object that shadows nothing takes every shadow with it.\<close>

definition doomed :: "heap \<Rightarrow> ref \<Rightarrow> ref set" where
  "doomed h r = (if downOf h r = None then {x. \<exists>us. chain h r us \<and> x \<in> set (r # us)} else {r})"

lemma doomed_chain: "chain h r us \<Longrightarrow> downOf h r = None \<Longrightarrow> doomed h r = set (r # us)"
  using chain_unique by (auto simp: doomed_def)

lemma destruct_ruins:
  assumes "quiet env" "wellLinked w" "finite (dom (omHeap w))" "r \<in> dom (omHeap w)"
    and alive: "\<forall>x \<in> doomed (omHeap w) r. \<not> isDestructed (omHeap w) x"
  shows "\<exists>w'. destructObject (card (dom (omHeap w)) + 3) env r w = Some w' \<and> ruined w (doomed (omHeap w) r) w'"
proof -
  let ?h = "omHeap w" and ?n = "card (dom (omHeap w)) + 2"
  have ok: "shadowOk ?h" using assms(2) by (simp add: wellLinked_def)
  obtain us where us: "chain ?h r us" using ok unfolding shadowOk_def by blast
  have r: "\<not> isDestructed ?h r"
    using alive us by (cases "downOf ?h r") (auto simp: doomed_def)
  have in_dom: "?h r \<noteq> None" using assms(4) by blast
  have n: "card (dom ?h) + 3 = Suc ?n" by simp
  show ?thesis
  proof (cases "downOf ?h r = None \<and> us \<noteq> []")
    case True
    obtain u vs where u: "us = u # vs" using True by (cases us) auto
    have "set us \<subseteq> dom ?h - {r}" using chain_dom[OF us] chain_distinct[OF us] by auto
    then have "card (set us) \<le> card (dom ?h - {r})" using assms(3) by (intro card_mono) auto
    then have "length us \<le> card (dom ?h - {r})" using chain_distinct[OF us] distinct_card[of us] by simp
    also have "\<dots> = card (dom ?h) - 1" using assms(3,4) by simp
    finally have len: "Suc (length us) < ?n" by simp
    have "topOf ?n ?h u = Some (last (u # vs))" by (rule topOf_last) (use us len in \<open>auto simp: u\<close>)
    then have t: "topOf ?n ?h u = Some (last (r # us))" by (simp add: u)
    have "upOf ?h r = Some u" using us u by simp
    then have step: "destructObject (Suc ?n) env r w = cascadeFrom ?n (destructObject ?n env) (Some (last (r # us))) w"
      using True in_dom r t unfolding destructObject.simps(2)[of ?n]
      by (simp only: if_False simp_thms option.case prod.case)
    have D: "doomed ?h r = set (r # us)" by (rule doomed_chain[OF us]) (use True in blast)
    show ?thesis
      using cascade_ruins[OF assms(1) us _ assms(2,4) alive[unfolded D] len, of "Suc (card (dom ?h))"] True
      unfolding n step D by simp
  next
    case False
    have D: "doomed ?h r = {r}"
    proof (cases "downOf ?h r")
      case None
      then show ?thesis using False us doomed_chain[of ?h r "[]"] by auto
    qed (simp add: doomed_def)
    have "destructObject (Suc ?n) env r w = Some (destructSingle env r w)"
      using False us in_dom r by (cases us) (auto split: option.split)
    then show ?thesis unfolding n D using ruined_single[OF assms(1,4,2)] by blast
  qed
qed

text \<open>The invariant of the table of loaded objects: an entry is an object that is alive and has the name of the entry; addresses are handed out once.\<close>

definition namesOk :: "om_world \<Rightarrow> bool" where
  "namesOk w \<longleftrightarrow>
     (\<forall>f r. loaded w f = Some r \<longrightarrow> nameOfRef (omHeap w) r = Some f \<and> \<not> isDestructed (omHeap w) r) \<and>
     (\<forall>r. omNext w \<le> r \<longrightarrow> omHeap w r = None)"

lemma ruined_names:
  assumes "ruined w D w'" "namesOk w"
  shows "namesOk w'" "x \<in> D \<Longrightarrow> x \<notin> ran (loaded w')"
proof -
  have kept: "loaded w f = Some r \<and> r \<notin> D" if "loaded w' f = Some r" for f r
    using assms that unfolding ruined_def namesOk_def by (metis option.distinct(1))
  have "omHeap w' r = None \<longleftrightarrow> omHeap w r = None" for r using assms(1) unfolding ruined_def by (metis domIff)
  then show "namesOk w'" using assms kept unfolding ruined_def namesOk_def by metis
  show "x \<in> D \<Longrightarrow> x \<notin> ran (loaded w')" using kept by (auto simp: ran_def)
qed

text \<open>
  C3. Destructing an object of a well linked world ends and destructs exactly the object, or, for the shadowed object under a chain, the
  whole chain. Each destructed object is then in no chain, no inventory, no environment, snoops nobody, and is in none of the tables of the
  living names, the live objects and the restored objects. Of the loaded files the entry of its current name is gone; an entry it kept under
  an earlier name, as after a renaming by \<^verbatim>\<open>loadVirtualObject\<close>, stays. Where the entries bear the names of their objects, none of the
  destructed objects is left in the table. The links and inventories of the others stay well formed, and what was purged stays so.
\<close>

theorem destruct_purges:
  assumes "quiet env" "wellLinked w" "finite (dom (omHeap w))" "r \<in> dom (omHeap w)"
    "\<forall>x \<in> doomed (omHeap w) r. \<not> isDestructed (omHeap w) x"
  shows "\<exists>w'. destructObject (card (dom (omHeap w)) + 3) env r w = Some w' \<and> wellLinked w' \<and>
     (\<forall>x. isDestructed (omHeap w') x \<longleftrightarrow> x \<in> doomed (omHeap w) r \<or> isDestructed (omHeap w) x) \<and>
     (\<forall>x. x \<in> doomed (omHeap w) r \<or> purged w x \<longrightarrow> purged w' x) \<and>
     (\<forall>x f. x \<in> doomed (omHeap w) r \<and> loaded w' f = Some x \<longrightarrow> loaded w f = Some x \<and> nameOfRef (omHeap w) x \<noteq> Some f) \<and>
     (namesOk w \<longrightarrow> namesOk w' \<and> (\<forall>x \<in> doomed (omHeap w) r. x \<notin> ran (loaded w')))"
proof -
  obtain w' where d: "destructObject (card (dom (omHeap w)) + 3) env r w = Some w'" and ruin: "ruined w (doomed (omHeap w) r) w'"
    using destruct_ruins[OF assms] by blast
  have "loaded w f = Some x \<and> nameOfRef (omHeap w) x \<noteq> Some f" if "x \<in> doomed (omHeap w) r" "loaded w' f = Some x" for x f
    using ruin that unfolding ruined_def by (metis option.distinct(1))
  moreover have "namesOk w' \<and> (\<forall>x \<in> doomed (omHeap w) r. x \<notin> ran (loaded w'))" if "namesOk w"
    using ruined_names[OF ruin that] by blast
  ultimately show ?thesis using d ruin unfolding ruined_def by blast
qed

section \<open>A small world\<close>

definition lifeEnv :: om_env where
  "lifeEnv = \<lparr>oeCompile = demoCompile, oeIsDirectory = (\<lambda>_. False), oeHasVm = True, oeMasterFile = [], oeSimulEfunFile = [],
     oeAutoTrustBackbone = False, oeLpc = (\<lambda>c w. (Inr (mkValue VVoid), w)), oeExists = (\<lambda>_ _ _. False), oeOnDestructed = (\<lambda>r w. w)\<rparr>"

definition lifeStart :: om_world where
  "lifeStart = \<lparr>omHeap = Map.empty, omNext = 0, omPrograms = Map.empty, omFiles = ppFiles (ceFiles demoCompile), omCompile = demoState,
     loaded = Map.empty, restoredObjects = [], virtualCompiling = {}, omMaster = None, omSimulEfun = None, omUids = newUidModel,
     livings = [], lives = [], omCaller = None, omNow = 0, omRandom = 0\<rparr>"

definition lifeLoaded :: om_world where
  "lifeLoaded = (case loadObject 1 lifeEnv ''a'' lifeStart of Some (_, w) \<Rightarrow> w | None \<Rightarrow> lifeStart)"

definition lifeCloned :: om_world where
  "lifeCloned = (case cloneObject 1 lifeEnv ''a'' [] lifeLoaded of Some (_, w) \<Rightarrow> w | None \<Rightarrow> lifeStart)"

lemma life_quiet: "quiet lifeEnv"
  by (simp add: quiet_def lifeEnv_def)

lemma life_norm: "normalizeFilename ''a'' = ''/a''" "normalizeFilename ''/a'' = ''/a''"
  by code_simp+

lemma life_env [simp]: "omFiles w = ppFiles (ceFiles demoCompile) \<Longrightarrow> worldCompileEnv lifeEnv w = demoCompile"
  by (simp add: worldCompileEnv_def lifeEnv_def)

lemma life_calls [simp]: "callAll lifeEnv cs w = (Inr (), w)"
  by (induction cs) (simp_all add: lifeEnv_def)

lemma life_hit: "cacheHit demoCompile ''/a'' demoState = Some demoA"
proof -
  have "fileSource demoCompile ''/a'' = Some []" by code_simp
  then show ?thesis by (simp add: cacheHit_def demoState_def)
qed

lemma life_compile: "omFiles w = ppFiles (ceFiles demoCompile) \<Longrightarrow> omCompile w = demoState \<Longrightarrow>
    compileIn (Suc n) lifeEnv ''/a'' w = Some (Inr (Some demoA), w\<lparr>omPrograms := (omPrograms w)(progId demoA \<mapsto> demoA)\<rparr>)"
  by (simp add: compileIn_def life_norm life_hit)

lemma life_exists: "omFiles w = ppFiles (ceFiles demoCompile) \<Longrightarrow> sourceFileExists lifeEnv ''/a'' w"
proof -
  have "ppFiles (ceFiles demoCompile) (sourcePath demoCompile ''/a'') \<noteq> None" by code_simp
  then show "omFiles w = ppFiles (ceFiles demoCompile) \<Longrightarrow> sourceFileExists lifeEnv ''/a'' w"
    by (simp add: sourceFileExists_def life_norm) (simp add: lifeEnv_def)
qed



definition lifeObj :: lpc_object where
  "lifeObj = (armReset 0 1800 0 (newLpcObject ''/a'' 0 1 (isFluffos lifeEnv) 0))\<lparr>willCleanUp := True\<rparr>"

lemma life_steps [simp]:
  "omMaster w = None \<Longrightarrow> initPrivsForObject lifeEnv r f w = w" "omMaster w = None \<Longrightarrow> assignObjectUid lifeEnv r f w = w"
  "oeHasVm lifeEnv" "\<not> uidActive newUidModel"
  by (simp_all add: initPrivsForObject_def assignObjectUid_def uidActive_def newUidModel_def lifeEnv_def)

lemma life_load:
  "loadObject 1 lifeEnv ''a'' lifeStart = Some (Inr (Some 0), lifeLoaded)"
  "lifeLoaded = lifeStart\<lparr>omHeap := [0 \<mapsto> lifeObj], omNext := 1, omPrograms := [0 \<mapsto> demoA], loaded := [''/a'' \<mapsto> 0], lives := [0]\<rparr>"
proof -
  have "loadObject 1 lifeEnv ''a'' lifeStart =
      Some (Inr (Some 0), lifeStart\<lparr>omHeap := [0 \<mapsto> lifeObj], omNext := 1, omPrograms := [0 \<mapsto> demoA], loaded := [''/a'' \<mapsto> 0], lives := [0]\<rparr>)"
    by (simp add: loadObject_def life_norm life_exists life_compile lifeStart_def newObject_def registerLive_def createLoaded_def
        armResetAndCleanup_def isDestructed_def onObject_def updObj_def liveAdd_def lifeObj_def Let_def)
       (simp add: demoA_def newLpcObject_def)
  then show "loadObject 1 lifeEnv ''a'' lifeStart = Some (Inr (Some 0), lifeLoaded)"
    "lifeLoaded = lifeStart\<lparr>omHeap := [0 \<mapsto> lifeObj], omNext := 1, omPrograms := [0 \<mapsto> demoA], loaded := [''/a'' \<mapsto> 0], lives := [0]\<rparr>"
    by (simp_all add: lifeLoaded_def)
qed

lemma life_clone:
  "cloneObject 1 lifeEnv ''a'' [] lifeLoaded = Some (Inr (Some 1), lifeCloned)"
  "lifeCloned = lifeLoaded\<lparr>omHeap := [0 \<mapsto> lifeObj, 1 \<mapsto> lifeObj\<lparr>isClone := True\<rparr>], omNext := 2, lives := [0, 1]\<rparr>"
proof -
  have "cloneObject 1 lifeEnv ''a'' [] lifeLoaded =
      Some (Inr (Some 1), lifeLoaded\<lparr>omHeap := [0 \<mapsto> lifeObj, 1 \<mapsto> lifeObj\<lparr>isClone := True\<rparr>], omNext := 2, lives := [0, 1]\<rparr>)"
    by (simp add: cloneObject_def cloneRefused_def life_norm life_compile life_load(2) lifeStart_def newObject_def registerLive_def createClone_def
        armResetAndCleanup_def isDestructed_def onObject_def updObj_def liveAdd_def lifeObj_def Let_def)
       (simp add: demoA_def newLpcObject_def armReset_def)
  then show "cloneObject 1 lifeEnv ''a'' [] lifeLoaded = Some (Inr (Some 1), lifeCloned)"
    "lifeCloned = lifeLoaded\<lparr>omHeap := [0 \<mapsto> lifeObj, 1 \<mapsto> lifeObj\<lparr>isClone := True\<rparr>], omNext := 2, lives := [0, 1]\<rparr>"
    by (simp_all add: lifeCloned_def)
qed

lemma life_heap: "omHeap lifeCloned = [0 \<mapsto> lifeObj, 1 \<mapsto> lifeObj\<lparr>isClone := True\<rparr>]" "dom (omHeap lifeCloned) = {0, 1}"
  by (auto simp: life_clone(2))

lemma life_reads [simp]:
  "upOf (omHeap lifeCloned) x = None" "downOf (omHeap lifeCloned) x = None" "environmentOf (omHeap lifeCloned) x = None"
  "inventoryOf (omHeap lifeCloned) x = []" "\<not> isDestructed (omHeap lifeCloned) x"
  "nameOfRef (omHeap lifeCloned) 0 = Some ''/a''" "nameOfRef (omHeap lifeCloned) 1 = Some ''/a''"
  by (simp_all add: life_heap upOf_def downOf_def environmentOf_def inventoryOf_def isDestructed_def nameOfRef_def lifeObj_def
      newLpcObject_def armReset_def split: option.split)

lemma life_linked: "wellLinked lifeCloned"
proof -
  have "chain (omHeap lifeCloned) r []" for r by simp
  then have "\<exists>us. chain (omHeap lifeCloned) r us" for r by blast
  then show ?thesis by (simp add: wellLinked_def shadowOk_def placed_def)
qed

theorem destruct_purges_witness:
  "\<exists>w'. destructObject 5 lifeEnv 1 lifeCloned = Some w' \<and> purged w' 1 \<and> \<not> isDestructed (omHeap w') 0 \<and> 1 \<notin> ran (loaded w')"
proof -
  have d: "doomed (omHeap lifeCloned) 1 = {1}" using doomed_chain[of "omHeap lifeCloned" 1 "[]"] by simp
  have c: "card (dom (omHeap lifeCloned)) + 3 = 5" unfolding life_heap(2) by simp
  have l: "loaded lifeCloned = [''/a'' \<mapsto> 0]" "omNext lifeCloned = 2" by (simp_all add: life_clone(2) life_load(2))
  have "omHeap lifeCloned x = None" if "2 \<le> x" for x using that by (simp add: life_heap)
  then have "namesOk lifeCloned" by (simp add: namesOk_def l)
  then show ?thesis
    using destruct_purges[OF life_quiet life_linked, of 1, unfolded c d] unfolding life_heap(2) by auto
qed

text \<open>
  Destructing a clone takes the file's table entry away although the entry is the blueprint's: the blueprint stays alive, but is no longer found
  by its name, so the next load of the file makes a second one.
\<close>

theorem destruct_clone_unloads:
  assumes "quiet env" "wellLinked w" "finite (dom (omHeap w))" "r \<in> dom (omHeap w)"
    "\<forall>x \<in> doomed (omHeap w) r. \<not> isDestructed (omHeap w) x"
    and "loaded w f = Some b" "nameOfRef (omHeap w) r = Some f" "b \<notin> doomed (omHeap w) r" "\<not> isDestructed (omHeap w) b"
    "normalizeFilename f = f"
  shows "\<exists>w'. destructObject (card (dom (omHeap w)) + 3) env r w = Some w' \<and> \<not> isDestructed (omHeap w') b \<and> lookupLoadedObject f w' = None"
proof -
  obtain w' where w': "destructObject (card (dom (omHeap w)) + 3) env r w = Some w'" "ruined w (doomed (omHeap w) r) w'"
    using destruct_ruins[OF assms(1-5)] by blast
  have "r \<in> doomed (omHeap w) r"
    using assms(2) by (auto simp: doomed_def wellLinked_def shadowOk_def)
  then have "loaded w' f = None" using w'(2) assms(7) unfolding ruined_def by metis
  then show ?thesis using w' assms(8-10) unfolding ruined_def lookupLoadedObject_def by auto
qed

theorem destruct_clone_unloads_witness:
  "\<exists>w w'. cloneObject 1 lifeEnv ''a'' [] lifeLoaded = Some (Inr (Some 1), w) \<and> lookupLoadedObject ''a'' w = Some 0 \<and>
     destructObject 5 lifeEnv 1 w = Some w' \<and> \<not> isDestructed (omHeap w') 0 \<and> lookupLoadedObject ''/a'' w' = None"
proof -
  have d: "doomed (omHeap lifeCloned) 1 = {1}" using doomed_chain[of "omHeap lifeCloned" 1 "[]"] by simp
  have c: "card (dom (omHeap lifeCloned)) + 3 = 5" unfolding life_heap(2) by simp
  have l: "loaded lifeCloned ''/a'' = Some 0" by (simp add: life_clone(2) life_load(2))
  have "\<exists>w'. destructObject 5 lifeEnv 1 lifeCloned = Some w' \<and> \<not> isDestructed (omHeap w') 0 \<and> lookupLoadedObject ''/a'' w' = None"
    by (rule destruct_clone_unloads[OF life_quiet life_linked, of 1 "''/a''" 0, unfolded c d])
      (simp_all add: l life_norm life_heap(2) del: One_nat_def)
  then show ?thesis using life_clone(1) l by (auto simp: lookupLoadedObject_def life_norm)
qed


section \<open>The table of loaded objects over every history\<close>





named_theorems names_kept \<open>steps that keep the invariant of the table\<close>


lemma namesOk_heap:
  assumes "namesOk w" "\<And>x. nameOfRef h x = nameOfRef (omHeap w) x" "\<And>x. isDestructed h x = isDestructed (omHeap w) x" "dom h = dom (omHeap w)"
  shows "namesOk (w\<lparr>omHeap := h\<rparr>)"
proof -
  have "h x = None \<longleftrightarrow> omHeap w x = None" for x using assms(4) by (metis domIff)
  then show ?thesis using assms(1) by (simp add: namesOk_def assms(2,3))
qed

lemma namesOk_onObject [names_kept]:
  "namesOk w \<Longrightarrow> (\<And>ob. filename (f ob) = filename ob) \<Longrightarrow> (\<And>ob. destructed (f ob) = destructed ob) \<Longrightarrow> namesOk (onObject r f w)"
  unfolding onObject_def by (rule namesOk_heap) (simp_all add: reads_updObj)


lemma namesOk_unload [names_kept]: "namesOk w \<Longrightarrow> namesOk (w\<lparr>loaded := (loaded w)(f := None)\<rparr>)"
  by (simp add: namesOk_def)






lemma setUids_kept [names_kept]: "namesOk w \<Longrightarrow> namesOk (setUids r u e w)"
  unfolding setUids_def by (rule namesOk_onObject) simp_all
































text \<open>
  The condition on \<^verbatim>\<open>compile_object\<close> is needed: an object that is loaded already and is given for a virtual path is renamed, but its
  old table entry stays. When the object is destructed, only the new entry goes, and its old path yields the destructed object from then on, so
  the file can never be loaded again.
\<close>

theorem virtual_rename_stale:
  "\<exists>env w1 w2. quiet env \<and> loadObject 1 env ''/v'' (lifeLoaded\<lparr>omMaster := Some 0\<rparr>) = Some (Inr (Some 0), w1) \<and>
     destructObject 1 env 0 w1 = Some w2 \<and>
     lookupLoadedObject ''/a'' w2 = Some 0 \<and> isDestructed (omHeap w2) 0 \<and> (\<forall>n. loadObject n env ''/a'' w2 = Some (Inr (Some 0), w2))"
proof -
  define env where "env = lifeEnv\<lparr>oeLpc := \<lambda>c w. (Inr (mkValue (VObj (Some 0))), w)\<rparr>"
  define w0 where "w0 = lifeLoaded\<lparr>omMaster := Some 0\<rparr>"
  define w1 where "w1 = onObject 0 (\<lambda>ob. ob\<lparr>filename := ''/v'', isVirtual := True\<rparr>) (w0\<lparr>loaded := (loaded w0)(''/v'' \<mapsto> 0)\<rparr>)"
  have norm: "normalizeFilename ''/v'' = ''/v''" by code_simp
  have noSrc: "omFiles w0 (sourcePath demoCompile ''/v'') = None"
    unfolding w0_def life_load(2) lifeStart_def by simp code_simp
  have files: "omFiles w0 = ppFiles (ceFiles demoCompile)" by (simp add: w0_def life_load(2) lifeStart_def)
  have q: "quiet env" using life_quiet by (simp add: quiet_def env_def lifeEnv_def)
  have ce: "worldCompileEnv env w0 = demoCompile" using files by (simp add: worldCompileEnv_def env_def lifeEnv_def)
  have gone: "\<not> sourceFileExists env ''/v'' w0"
    by (simp add: sourceFileExists_def norm ce noSrc)
  have "loadVirtualObject env ''/v'' w0 = (Some 0, w1)"
    by (simp add: loadVirtualObject_def w0_def life_load(2) lifeStart_def env_def lifeEnv_def mkValue_def w1_def)
  then have l: "loadObject 1 env ''/v'' w0 = Some (Inr (Some 0), w1)"
    using gone by (simp add: loadObject_def norm) (simp add: w0_def life_load(2) lifeStart_def)
  have r: "0 \<in> dom (omHeap w1)" by (simp add: w1_def w0_def onObject_def life_load(2))
  have reads: "upOf (omHeap w1) 0 = None" "downOf (omHeap w1) 0 = None" "\<not> isDestructed (omHeap w1) 0" "nameOfRef (omHeap w1) 0 = Some ''/v''"
    by (simp_all add: w1_def w0_def onObject_def life_load(2) updObj_def upOf_def downOf_def isDestructed_def nameOfRef_def lifeObj_def
        newLpcObject_def armReset_def)
  have d: "destructObject 1 env 0 w1 = Some (destructSingle env 0 w1)"
    unfolding One_nat_def by (rule destruct_unshadowed) (use reads r in auto)
  have "loaded (destructSingle env 0 w1) ''/a'' = Some 0"
    unfolding destructSingle_reads(11)[OF q r] by (simp add: reads) (simp add: w1_def w0_def onObject_def life_load(2))
  then have s: "lookupLoadedObject ''/a'' (destructSingle env 0 w1) = Some 0"
      "loadObject n env ''/a'' (destructSingle env 0 w1) = Some (Inr (Some 0), destructSingle env 0 w1)" for n
    by (simp_all add: lookupLoadedObject_def loadObject_def life_norm)
  have "isDestructed (omHeap (destructSingle env 0 w1)) 0" using destructSingle_reads(6)[OF q r] by simp
  then show ?thesis using q l d s unfolding w0_def by blast
qed


end
