(* ===== verification/Spec2Isabelle.thy ===== *)
theory Spec2Isabelle
  imports Efun_Files Efun_Strings_Ok Eval_Limit Conn_Input Scheduler Mud_Frames Save_Variable Lexer_Print Vm_Ends Containment Dispatch CodeGen_Ok
    Parser_Ends Parser_Grammar Object_Life
begin

text \<open>
  A verification development of kjdmud, a driver for text games written in the language LPC: a server that keeps telnet and WebSocket connections,
  compiles LPC sources to bytecode, runs them on a virtual machine, and keeps the objects they make.

  \<^bold>\<open>How the program is put together.\<close> A player's bytes arrive at a \<^verbatim>\<open>Connection\<close>, which takes the WebSocket frames and the telnet protocol
  apart and gives lines. A line goes to \<^verbatim>\<open>VM::dispatchCommand\<close>, which calls actions of LPC objects. The \<^verbatim>\<open>ObjectManager\<close> makes these objects:
  it finds the source, lets the preprocessor of the system work on it, and runs the lexer, the parser and the code generator. The machine runs
  the code; the functions it is given from outside (the efuns) reach the connections, the sockets, the scheduler, the files and the object
  manager again. The scheduler calls LPC functions when their time has come.

  \<^bold>\<open>Which theory models what.\<close> All names are below \<^verbatim>\<open>src/src\<close> and \<^verbatim>\<open>src/include/kjdmud\<close>.

  \<^item> Shared. \<^verbatim>\<open>Kjd_Prelude\<close>: exceptions as a sum type (\<^verbatim>\<open>core/Errors.hpp\<close>), the parts of \<^verbatim>\<open>std::string\<close> in use, lemmas on lists.
    \<^verbatim>\<open>Ieee_Double\<close>, \<^verbatim>\<open>Ieee_Arith\<close>: the type \<^verbatim>\<open>double\<close> on its 64 bits. \<^verbatim>\<open>Lpc_Value\<close> (\<^verbatim>\<open>vm/Value.*\<close>), \<^verbatim>\<open>Lpc_Object\<close>
    (\<^verbatim>\<open>object/LpcObject.*\<close>), \<^verbatim>\<open>Dialect\<close>: values, the object record and the heap behind weak and shared pointers.
  \<^item> Network (\<^verbatim>\<open>net/\<close>). \<^verbatim>\<open>Conn_State\<close>, \<^verbatim>\<open>Telnet\<close>, \<^verbatim>\<open>WebSocket\<close>, \<^verbatim>\<open>Conn_Input\<close>: \<^verbatim>\<open>Connection.cpp\<close>, its members as one
    record, each operation a function on it. \<^verbatim>\<open>Registries\<close>: the three registries of weak pointers. \<^verbatim>\<open>Sockets\<close>: \<^verbatim>\<open>SocketRegistry.cpp\<close>.
    \<^verbatim>\<open>Mud_Frames\<close>: the frames of MUD sockets, written in the efun and read in \<^verbatim>\<open>Server.cpp\<close>.
  \<^item> Time and storage. \<^verbatim>\<open>Scheduler\<close>: \<^verbatim>\<open>scheduler/Scheduler.cpp\<close>. \<^verbatim>\<open>Save_Variable\<close>: \<^verbatim>\<open>vm/SaveVariable.cpp\<close>.
  \<^item> Compiler (\<^verbatim>\<open>compiler/\<close>). \<^verbatim>\<open>Lexer\<close>; \<^verbatim>\<open>Ast\<close>, \<^verbatim>\<open>Parser_Core\<close>, \<^verbatim>\<open>Parser\<close>; \<^verbatim>\<open>CodeGen\<close>; and around them the text passes of
    \<^verbatim>\<open>ObjectManager.cpp\<close> (\<^verbatim>\<open>Preprocess\<close>) and its \<^verbatim>\<open>compile\<close> with the cache of programs (\<^verbatim>\<open>Compile\<close>).
  \<^item> Machine (\<^verbatim>\<open>vm/\<close>). \<^verbatim>\<open>Bytecode\<close>: instructions, programs, name resolution with its cache. \<^verbatim>\<open>Vm_State\<close>, \<^verbatim>\<open>Vm_Ops\<close> (one
    definition per case of the switch), \<^verbatim>\<open>Vm_Run\<close> (the loop, catch frames, closures), \<^verbatim>\<open>Vm_Calls\<close> (calls from outside, hooks, program replacement),
    \<^verbatim>\<open>Vm_World\<close> (moves, commands).
  \<^item> Objects. \<^verbatim>\<open>Uid_Model\<close>, \<^verbatim>\<open>Shadows\<close>, \<^verbatim>\<open>Object_Manager\<close>: owners, shadow chains, loading, cloning, reloading, destructing.
  \<^item> Efuns (\<^verbatim>\<open>efun/EfunTable.cpp\<close>). \<^verbatim>\<open>Efun_Base\<close>, \<^verbatim>\<open>Efun_Strings\<close>, \<^verbatim>\<open>Efun_Files\<close> with the gate on paths, \<^verbatim>\<open>Eval_Limit\<close>,
    \<^verbatim>\<open>set_environment\<close> in \<^verbatim>\<open>Containment\<close>, the efuns on shadows in \<^verbatim>\<open>Shadows\<close>.

  \<^bold>\<open>What the lemmas show.\<close>

  \<^item> Network: the telnet machine and the frame decoder invert the sending operations over every cut of the stream (\<^verbatim>\<open>Telnet\<close>, \<^verbatim>\<open>WebSocket\<close>,
    \<^verbatim>\<open>Mud_Frames\<close>); reads of any size give the same lines (\<^verbatim>\<open>Conn_Input\<close>); sockets are private to their owners and no descriptor leaks
    (\<^verbatim>\<open>Sockets\<close>). The registries share one contract, the locale \<^verbatim>\<open>weak_registry\<close>, and the socket efuns the locale \<^verbatim>\<open>owner_guarded\<close>.
  \<^item> Compiler: tokens print and read back (\<^verbatim>\<open>Lexer_Print\<close>); the parser ends (\<^verbatim>\<open>Parser_Ends\<close>, with a locale for one level of the recursion) and
    agrees with a grammar (\<^verbatim>\<open>Parser_Grammar\<close>); generated code is well formed (\<^verbatim>\<open>CodeGen_Ok\<close>) and the generator ends (\<^verbatim>\<open>CodeGen_Ends\<close>);
    compiling ends, is done once, and lays the variables of inherited programs out as the machine reads them (\<^verbatim>\<open>Compile\<close>).
  \<^item> Machine: the locale \<^verbatim>\<open>machine_relation\<close> lifts a relation between machines from the single instruction to whole runs; it is interpreted for
    the balance of the stacks (\<^verbatim>\<open>Vm_Safety\<close>), and its extension \<^verbatim>\<open>world_relation\<close> for balance and for containment (\<^verbatim>\<open>Vm_World\<close>,
    \<^verbatim>\<open>Containment\<close>). Runs end by the budget (\<^verbatim>\<open>Vm_Ends\<close>) unless an efun refills it (\<^verbatim>\<open>Eval_Limit\<close>).
  \<^item> Objects: shadow chains stay linked both ways and end (\<^verbatim>\<open>Shadows\<close>); destructing leaves nothing behind, and names find living objects
    (\<^verbatim>\<open>Object_Life\<close>). \<^verbatim>\<open>Dispatch\<close>: which function a call and a command run.
  \<^item> Efuns: the gated file efuns stay below the root directory, \<^verbatim>\<open>cp\<close> does not (\<^verbatim>\<open>Efun_Files\<close>); the edit distance is least and the UTF-8
    codec inverts (\<^verbatim>\<open>Efun_Strings_Ok\<close>).

  Several theorems say what the code does where a reader would expect something else; each is beside the property it limits:
  \<^verbatim>\<open>virtual_rename_stale\<close>, \<^verbatim>\<open>destruct_clone_unloads\<close>, \<^verbatim>\<open>shadow_reentry_cycle\<close>, \<^verbatim>\<open>include_alias_reaches_limit\<close>,
  \<^verbatim>\<open>reset_eval_cost_never_ends\<close>, \<^verbatim>\<open>ws_upgrade_leftover_bypasses_telnet\<close>, \<^verbatim>\<open>nextHandle_overflow\<close>, \<^verbatim>\<open>gate_open_without_master\<close>.

  \<^bold>\<open>Fuel and bounds.\<close> A function that need not end in the code takes fuel and gives \<^const>\<open>None\<close> when it runs out. The loop of the frame decoder
  needs one more unit than there are bytes; the reader of the save format the size of the value, and more is of no use where it never ends; the
  parser one more than there are tokens, because every loop and every call of a nested phrase consumes one;
  the interpreter some amount for every call, by induction over what is left of the budget; the walk along a shadow chain one more than there are
  objects; the cascade of a destruction three more. Machine integers are words where they wrap (\<^verbatim>\<open>int64_t\<close> values, lengths of frames, the
  interval of a heartbeat, handles of sockets), and integers or natural numbers where the code cannot bring them near their bounds (positions in a
  text, the line counter of the lexer, the evaluation cost, handles of delayed calls).

  \<^bold>\<open>Parameters.\<close> What the code gets from outside is an argument: the answers of the operating system to reads, writes, socket calls and file
  operations; the output of the preprocessor; the clock; \<^verbatim>\<open>inet_addr\<close>, \<^verbatim>\<open>fnmatch\<close> and the SHA-1 of the handshake. LPC code that a component calls
  back is a function from the state to an answer and a new state, except in the theories of the machine, which run it. Efuns are total functions
  on the machine: an efun that never returns, such as \<^verbatim>\<open>deep_inventory\<close> on a cycle, is outside what they can express.

  \<^bold>\<open>Not modelled.\<close> Most of the efun table (\<^verbatim>\<open>sprintf\<close>, sorting, regular expressions and some hundred others), the command parser
  (\<^verbatim>\<open>ParserPackage.cpp\<close>), \<^verbatim>\<open>StateSerializer.cpp\<close> and the database efuns, for their size; the scanner of \<^verbatim>\<open>sscanf\<close>, a parameter of the
  machine; async functions, which are coroutines of C++; the poll loop, logging, the configuration and the boot sequence, which are input and
  output around the modelled operations. Reference counting is not modelled: an object leaves the heap only by an explicit step.
\<close>

end
